(* ===== verification/Sevent_Prelude.thy ===== *)
theory Sevent_Prelude
  imports Main "HOL-Library.Word" "HOL-Library.Monad_Syntax"
begin

unbundle bit_operations_syntax

text \<open>
  Shared vocabulary of the development: bytes and C strings, the parts of the C library
  that several components call (\<open>memchr\<close>, \<open>snprintf\<close> of decimal numbers), the
  error codes of \<^verbatim>\<open>include/sevent.h\<close>, and the lemmas about them.
  A \<open>char *\<close> with a length is a \<^typ>\<open>string\<close>; a \<open>uint8_t *\<close> with a
  length is a list of bytes; \<open>bytes_of\<close> and \<open>chars_of\<close> are the pointer casts
  between the two views.
\<close>

named_theorems wire_simps \<open>facts that evaluate byte-level encodings\<close>
named_theorems scan_simps \<open>facts about the scanning primitives of the C library\<close>

type_synonym byte = "8 word"
type_synonym bytes = "byte list"

section \<open>Error codes\<close>

definition SEVENT_SUCCESS :: int where "SEVENT_SUCCESS = 0"
definition SEVENT_ERR_INVAL :: int where "SEVENT_ERR_INVAL = -1"
definition SEVENT_ERR_NOMEM :: int where "SEVENT_ERR_NOMEM = -2"
definition SEVENT_ERR_CONNECT :: int where "SEVENT_ERR_CONNECT = -3"
definition SEVENT_ERR_HANDSHAKE :: int where "SEVENT_ERR_HANDSHAKE = -4"
definition SEVENT_ERR_READ :: int where "SEVENT_ERR_READ = -5"
definition SEVENT_ERR_WRITE :: int where "SEVENT_ERR_WRITE = -6"
definition SEVENT_ERR_LISTEN :: int where "SEVENT_ERR_LISTEN = -7"

lemmas err_defs = SEVENT_SUCCESS_def SEVENT_ERR_INVAL_def SEVENT_ERR_NOMEM_def
  SEVENT_ERR_CONNECT_def SEVENT_ERR_HANDSHAKE_def SEVENT_ERR_READ_def SEVENT_ERR_WRITE_def
  SEVENT_ERR_LISTEN_def

section \<open>Characters and bytes\<close>

definition bytes_of :: "string \<Rightarrow> bytes" where
  "bytes_of s = map of_char s"

definition chars_of :: "bytes \<Rightarrow> string" where
  "chars_of bs = map (\<lambda>b. char_of (unat b)) bs"

definition CR :: char where "CR = CHR 0x0D"
definition LF :: char where "LF = CHR 0x0A"
definition TAB :: char where "TAB = CHR 0x09"
definition SP :: char where "SP = CHR 0x20"
definition CRLF :: string where "CRLF = [CR, LF]"

lemmas char_defs = CR_def LF_def TAB_def SP_def CRLF_def

definition is_ows :: "char \<Rightarrow> bool" where
  "is_ows c \<longleftrightarrow> c = SP \<or> c = TAB"

text \<open>The ASCII folding step of \<open>ci_eq\<close> and \<open>token_eq\<close>: \<open>'A'..'Z'\<close> plus 32.\<close>

definition ascii_lower :: "char \<Rightarrow> char" where
  "ascii_lower c = (let n = of_char c :: nat
                    in if 65 \<le> n \<and> n \<le> 90 then char_of (n + 32) else c)"

definition is_digit :: "char \<Rightarrow> bool" where
  "is_digit c \<longleftrightarrow> (let n = of_char c :: nat in 48 \<le> n \<and> n \<le> 57)"

definition digit_val :: "char \<Rightarrow> nat" where
  "digit_val c = of_char c - 48"

text \<open>\<open>memchr\<close>: the offset of the first occurrence.\<close>

fun memchr :: "char \<Rightarrow> string \<Rightarrow> nat option" where
  "memchr c [] = None"
| "memchr c (x # xs) = (if x = c then Some 0 else map_option Suc (memchr c xs))"

definition ltrim :: "string \<Rightarrow> string" where
  "ltrim s = dropWhile is_ows s"

definition rtrim :: "string \<Rightarrow> string" where
  "rtrim s = rev (dropWhile is_ows (rev s))"

text \<open>\<open>if(line_len > 0 && p[line_len - 1] == '\r') line_len--;\<close>\<close>

definition strip_cr :: "string \<Rightarrow> string" where
  "strip_cr s = (if s \<noteq> [] \<and> last s = CR then butlast s else s)"

text \<open>\<open>%u\<close> of a non-negative number, and the value of a string of digits.\<close>

fun dec :: "nat \<Rightarrow> string" where
  "dec n = (if n < 10 then [char_of (48 + n)] else dec (n div 10) @ [char_of (48 + n mod 10)])"

declare dec.simps [simp del]

definition dec_value :: "string \<Rightarrow> nat" where
  "dec_value s = foldl (\<lambda>acc c. acc * 10 + digit_val c) 0 s"

text \<open>\<open>%d\<close>.\<close>

definition dec_int :: "int \<Rightarrow> string" where
  "dec_int i = (if i < 0 then CHR ''-'' # dec (nat (- i)) else dec (nat i))"

section \<open>Lemmas on bytes\<close>

lemma unat_byte_less [simp]: "unat (b :: byte) < 256"
  using unsigned_less [of b] by simp

lemma unat_of_char [simp]: "unat (of_char c :: byte) = (of_char c :: nat)"
proof -
  have "unat (of_nat (of_char c) :: byte) = (of_char c :: nat)"
    by (simp add: unat_of_nat take_bit_nat_eq_self)
  then show ?thesis by (simp only: of_nat_of_char)
qed

lemma of_char_char_of_unat [simp]: "of_char (char_of (unat (b :: byte))) = b"
proof -
  have H: "(of_char (char_of (unat b)) :: nat) = unat b" by simp
  have "(of_char (char_of (unat b)) :: byte) = of_nat (of_char (char_of (unat b)))"
    by (simp only: of_nat_of_char)
  also have "\<dots> = of_nat (unat b)" by (simp only: H)
  also have "\<dots> = b" by simp
  finally show ?thesis .
qed

lemma chars_of_bytes_of [simp]: "chars_of (bytes_of s) = s"
  by (simp add: chars_of_def bytes_of_def comp_def)

lemma bytes_of_chars_of [simp]: "bytes_of (chars_of bs) = bs"
  by (simp add: chars_of_def bytes_of_def comp_def)

lemma length_bytes_of [simp]: "length (bytes_of s) = length s"
  by (simp add: bytes_of_def)

lemma length_chars_of [simp]: "length (chars_of bs) = length bs"
  by (simp add: chars_of_def)

lemma bytes_of_append [simp]: "bytes_of (s @ t) = bytes_of s @ bytes_of t"
  by (simp add: bytes_of_def)

lemma chars_of_append [simp]: "chars_of (s @ t) = chars_of s @ chars_of t"
  by (simp add: chars_of_def)

text \<open>Masks by \<open>2 ^ n - 1\<close> are truncations, for which the bit lemmas are complete.\<close>

lemma and_masks [wire_simps]:
  fixes a :: "'a::len word"
  shows "a AND 3 = take_bit 2 a" "a AND 15 = take_bit 4 a" "a AND 63 = take_bit 6 a"
    "a AND 127 = take_bit 7 a" "a AND 255 = take_bit 8 a"
  by (simp_all add: take_bit_eq_mask mask_eq_exp_minus_1)

lemma byte_high_bits [simp]: "8 \<le> n \<Longrightarrow> \<not> bit (a :: byte) n"
  by (simp add: impossible_bit)

lemma byte_eqI:
  assumes "bit a 0 = bit b 0" "bit a 1 = bit b 1" "bit a 2 = bit b 2" "bit a 3 = bit b 3"
    "bit a 4 = bit b 4" "bit a 5 = bit b 5" "bit a 6 = bit b 6" "bit a 7 = bit b 7"
  shows "a = (b :: byte)"
proof (rule bit_word_eqI)
  fix n assume "n < LENGTH(8)"
  then have "n = 0 \<or> n = 1 \<or> n = 2 \<or> n = 3 \<or> n = 4 \<or> n = 5 \<or> n = 6 \<or> n = 7" by auto
  then show "bit a n = bit b n" using assms by auto
qed

lemma byte_test_bits [wire_simps]:
  fixes b :: byte
  shows "b AND 0x80 = 0 \<longleftrightarrow> \<not> bit b 7" "b AND 0x40 = 0 \<longleftrightarrow> \<not> bit b 6"
    "b AND 0x20 = 0 \<longleftrightarrow> \<not> bit b 5" "b AND 0x10 = 0 \<longleftrightarrow> \<not> bit b 4"
    "b AND 0x08 = 0 \<longleftrightarrow> \<not> bit b 3"
  using and_exp_eq_0_iff_not_bit [of b 7] and_exp_eq_0_iff_not_bit [of b 6]
    and_exp_eq_0_iff_not_bit [of b 5] and_exp_eq_0_iff_not_bit [of b 4] and_exp_eq_0_iff_not_bit [of b 3]
  by simp_all

lemma unat_take_bit_less: "take_bit n x = x \<Longrightarrow> unat x < 2 ^ n"
  by (metis take_bit_nat_less_exp unsigned_take_bit_eq)

section \<open>Lemmas on the scanning primitives\<close>

lemma memchr_None [scan_simps]: "memchr c s = None \<longleftrightarrow> c \<notin> set s"
  by (induction s) auto

lemma memchr_SomeD:
  "memchr c s = Some i \<Longrightarrow> i < length s \<and> s ! i = c \<and> c \<notin> set (take i s) \<and> s = take i s @ c # drop (Suc i) s"
proof (induction s arbitrary: i)
  case (Cons x s)
  then show ?case by (cases i) (auto split: if_splits)
qed simp

lemma memchr_hit [scan_simps]: "c \<notin> set s \<Longrightarrow> memchr c (s @ c # t) = Some (length s)"
  by (induction s) auto

lemma memchr_append_Some: "memchr c s = Some i \<Longrightarrow> memchr c (s @ t) = Some i"
  by (induction s arbitrary: i) (auto split: if_splits)

lemma length_ltrim: "length (ltrim s) \<le> length s"
  by (simp add: ltrim_def length_dropWhile_le)

lemma length_rtrim: "length (rtrim s) \<le> length s"
  using length_dropWhile_le [of is_ows "rev s"] by (simp add: rtrim_def)

lemma ltrim_split: "s = takeWhile is_ows s @ ltrim s"
  by (simp add: ltrim_def)

lemma rtrim_split: obtains w where "s = rtrim s @ w" "list_all is_ows w"
proof
  have "rev s = takeWhile is_ows (rev s) @ dropWhile is_ows (rev s)" by simp
  then show "s = rtrim s @ rev (takeWhile is_ows (rev s))"
    unfolding rtrim_def by (metis rev_append rev_rev_ident)
  show "list_all is_ows (rev (takeWhile is_ows (rev s)))"
    by (auto simp: list_all_iff dest: set_takeWhileD)
qed

lemma trim_ows: "list_all is_ows w \<Longrightarrow> ltrim w = []" "list_all is_ows w \<Longrightarrow> rtrim w = []"
  by (simp_all add: ltrim_def rtrim_def list_all_iff)

lemma ltrim_id: "s = [] \<or> \<not> is_ows (hd s) \<Longrightarrow> ltrim s = s"
  by (cases s) (simp_all add: ltrim_def)

lemma rtrim_id: "s = [] \<or> \<not> is_ows (last s) \<Longrightarrow> rtrim s = s"
  by (cases s rule: rev_cases) (simp_all add: rtrim_def)

lemma rtrim_append_ows: "list_all is_ows w \<Longrightarrow> rtrim (s @ w) = rtrim s"
  by (simp add: rtrim_def list_all_iff dropWhile_append)

lemma strip_cr_CR [simp]: "strip_cr (s @ [CR]) = s"
  by (simp add: strip_cr_def)

lemma strip_cr_id: "CR \<notin> set s \<Longrightarrow> strip_cr s = s"
  by (metis last_in_set strip_cr_def)

lemma dec_value_snoc: "dec_value (s @ [c]) = dec_value s * 10 + digit_val c"
  by (simp add: dec_value_def)

lemma digit_char:
  assumes "n < 10"
  shows "is_digit (char_of (48 + n))" "digit_val (char_of (48 + n)) = n"
proof -
  have "(of_char (char_of (48 + n)) :: nat) = 48 + n" using assms by simp
  then show "is_digit (char_of (48 + n))" "digit_val (char_of (48 + n)) = n"
    using assms by (simp_all only: is_digit_def digit_val_def Let_def) simp_all
qed

lemma dec_digits: "list_all is_digit (dec n)"
  by (induction n rule: dec.induct) (simp add: dec.simps digit_char del: char_of_nat)

lemma dec_value_dec: "dec_value (dec n) = n"
proof (induction n rule: dec.induct)
  case (1 n)
  show ?case
  proof (cases "n < 10")
    case True
    then show ?thesis by (simp add: dec.simps [of n] dec_value_def digit_char(2))
  next
    case False
    with 1 show ?thesis by (simp add: dec.simps [of n] dec_value_snoc digit_char(2))
  qed
qed

section \<open>Functions that may not return\<close>

text \<open>\<open>returns m P\<close>: the function returns, with a result that satisfies \<open>P\<close>.\<close>

definition returns :: "'a option \<Rightarrow> ('a \<Rightarrow> bool) \<Rightarrow> bool" where
  "returns m P \<longleftrightarrow> (case m of None \<Rightarrow> False | Some x \<Rightarrow> P x)"

lemma returns_simps [simp]:
  "returns (Some x) P = P x" "\<not> returns None P"
  "returns (if b then m else m') P = (if b then returns m P else returns m' P)"
  by (simp_all add: returns_def)

lemma returns_bind [simp]: "returns (m \<bind> f) P = returns m (\<lambda>x. returns (f x) P)"
  by (cases m) (simp_all add: returns_def)

lemma returns_map [simp]: "returns (map_option g m) P = returns m (\<lambda>x. P (g x))"
  by (cases m) (simp_all add: returns_def)

lemma returns_mono: "returns m P \<Longrightarrow> (\<And>x. P x \<Longrightarrow> Q x) \<Longrightarrow> returns m Q"
  by (auto simp: returns_def split: option.splits)

lemma returnsE: "returns m P \<Longrightarrow> (\<And>x. m = Some x \<Longrightarrow> P x \<Longrightarrow> Q) \<Longrightarrow> Q"
  by (auto simp: returns_def split: option.splits)

end
