(* ===== verification/Ws_Base64.thy ===== *)
theory Ws_Base64
  imports Sevent_Prelude
begin

unbundle bit_operations_syntax

text \<open>
  \<^verbatim>\<open>src/websockets/ws_base64.c\<close>: the Base64 encoder of RFC 4648. The encoder is the
  loop of the source, three bytes at a time with zeros for the missing ones, followed by
  the overwrite of the last characters by \<open>=\<close>. \<open>b64_decode\<close> is a reference
  decoder written for the specification: it is not code of the library. The lemmas show
  the length of the output, that the capacity check is exact, and that decoding the
  output gives the input back, so the encoding loses nothing.
\<close>

section \<open>The encoder\<close>

definition b64_tab :: string where
  "b64_tab = ''ABCDEFGHIJKLMNOPQRSTUVWXYZabcdefghijklmnopqrstuvwxyz0123456789+/''"

definition ws_base64_encode_size :: "nat \<Rightarrow> nat" where
  "ws_base64_encode_size raw_len = ((raw_len + 2) div 3) * 4 + 1"

text \<open>
  The four table indices of one group, and the characters written for it; \<open>b\<close> and
  \<open>c\<close> are 0 past the end.
\<close>

definition b64_ix0 :: "byte \<Rightarrow> byte" where "b64_ix0 a = drop_bit 2 a"
definition b64_ix1 :: "byte \<Rightarrow> byte \<Rightarrow> byte" where "b64_ix1 a b = push_bit 4 (a AND 3) OR drop_bit 4 b"
definition b64_ix2 :: "byte \<Rightarrow> byte \<Rightarrow> byte" where "b64_ix2 b c = push_bit 2 (b AND 15) OR drop_bit 6 c"
definition b64_ix3 :: "byte \<Rightarrow> byte" where "b64_ix3 c = c AND 63"

lemmas b64_ix_defs = b64_ix0_def b64_ix1_def b64_ix2_def b64_ix3_def

definition b64_group :: "byte \<Rightarrow> byte \<Rightarrow> byte \<Rightarrow> string" where
  "b64_group a b c =
     [b64_tab ! unat (b64_ix0 a), b64_tab ! unat (b64_ix1 a b),
      b64_tab ! unat (b64_ix2 b c), b64_tab ! unat (b64_ix3 c)]"

fun b64_loop :: "bytes \<Rightarrow> string" where
  "b64_loop [] = []"
| "b64_loop [a] = b64_group a 0 0"
| "b64_loop [a, b] = b64_group a b 0"
| "b64_loop (a # b # c # rest) = b64_group a b c @ b64_loop rest"

text \<open>The padding loop: \<open>dst[out_len - 1 - j] = '='\<close> for \<open>j < pad\<close>.\<close>

fun b64_pad :: "nat \<Rightarrow> string \<Rightarrow> string" where
  "b64_pad 0 dst = dst"
| "b64_pad (Suc j) dst = b64_pad j (dst[length dst - 1 - j := CHR ''=''])"

text \<open>
  \<open>None\<close> is the return value \<open>-1\<close>; \<open>Some (n, dst)\<close> is the return value
  \<open>n\<close> with \<open>dst\<close> the characters written before the terminating NUL.
\<close>

definition ws_base64_encode :: "bytes \<Rightarrow> nat \<Rightarrow> (nat \<times> string) option" where
  "ws_base64_encode raw dst_cap =
     (let raw_len = length raw; out_len = ((raw_len + 2) div 3) * 4
      in if dst_cap < out_len + 1 then None
         else let dst = b64_loop raw; pad = 3 - raw_len mod 3
              in Some (out_len, if pad \<noteq> 3 then b64_pad pad dst else dst))"

section \<open>A reference decoder\<close>

fun index_of :: "'a \<Rightarrow> 'a list \<Rightarrow> nat option" where
  "index_of x [] = None"
| "index_of x (y # ys) = (if x = y then Some 0 else map_option Suc (index_of x ys))"

definition b64_val :: "char \<Rightarrow> byte option" where
  "b64_val c = map_option of_nat (index_of c b64_tab)"

definition b64_join :: "byte \<Rightarrow> byte \<Rightarrow> byte \<Rightarrow> byte \<Rightarrow> bytes" where
  "b64_join w x y z = [push_bit 2 w OR drop_bit 4 x, push_bit 4 x OR drop_bit 2 y, push_bit 6 y OR z]"

fun b64_decode :: "string \<Rightarrow> bytes option" where
  "b64_decode [] = Some []"
| "b64_decode (p # q # r # s # rest) =
     (if s = CHR ''='' \<and> r = CHR ''='' \<and> rest = [] then
        (case (b64_val p, b64_val q) of
           (Some w, Some x) \<Rightarrow> Some (take 1 (b64_join w x 0 0)) | _ \<Rightarrow> None)
      else if s = CHR ''='' \<and> rest = [] then
        (case (b64_val p, b64_val q, b64_val r) of
           (Some w, Some x, Some y) \<Rightarrow> Some (take 2 (b64_join w x y 0)) | _ \<Rightarrow> None)
      else
        (case (b64_val p, b64_val q, b64_val r, b64_val s, b64_decode rest) of
           (Some w, Some x, Some y, Some z, Some more) \<Rightarrow> Some (b64_join w x y z @ more)
         | _ \<Rightarrow> None))"
| "b64_decode _ = None"

section \<open>Correctness\<close>

lemma length_b64_tab [simp]: "length b64_tab = 64"
  by (simp add: b64_tab_def)

lemma distinct_b64_tab: "distinct b64_tab"
  by (simp add: b64_tab_def)

lemma pad_char_not_in_tab: "CHR ''='' \<notin> set b64_tab"
  by (simp add: b64_tab_def)

lemma index_of_nth: "distinct xs \<Longrightarrow> i < length xs \<Longrightarrow> index_of (xs ! i) xs = Some i"
proof (induction xs arbitrary: i)
  case (Cons x xs)
  then show ?case by (cases i) auto
qed simp

lemma b64_val_tab: "unat w < 64 \<Longrightarrow> b64_val (b64_tab ! unat w) = Some w"
  by (simp add: b64_val_def index_of_nth distinct_b64_tab)

lemma tab_not_pad: "unat w < 64 \<Longrightarrow> b64_tab ! unat w \<noteq> CHR ''=''"
  using pad_char_not_in_tab nth_mem [of "unat w" b64_tab] by (metis length_b64_tab)

text \<open>The four indices are below 64 and put together give the three bytes back.\<close>

lemma b64_index_bounds:
  "unat (b64_ix0 a) < 64" "unat (b64_ix1 a b) < 64" "unat (b64_ix2 b c) < 64" "unat (b64_ix3 c) < 64"
proof -
  have lt: "unat x < 64" if "take_bit 6 x = x" for x :: byte
    using unat_take_bit_less [OF that] by simp
  show "unat (b64_ix0 a) < 64" "unat (b64_ix1 a b) < 64" "unat (b64_ix2 b c) < 64" "unat (b64_ix3 c) < 64"
    unfolding b64_ix_defs and_masks by (rule lt, rule byte_eqI; simp add: bit_simps)+
qed

lemma b64_join_group:
  "b64_join (b64_ix0 a) (b64_ix1 a b) (b64_ix2 b c) (b64_ix3 c) = [a, b, c]"
proof -
  have "push_bit 2 (b64_ix0 a) OR drop_bit 4 (b64_ix1 a b) = a"
    unfolding b64_ix_defs and_masks by (rule byte_eqI; simp add: bit_simps)
  moreover have "push_bit 4 (b64_ix1 a b) OR drop_bit 2 (b64_ix2 b c) = b"
    unfolding b64_ix_defs and_masks by (rule byte_eqI; simp add: bit_simps)
  moreover have "push_bit 6 (b64_ix2 b c) OR b64_ix3 c = c"
    unfolding b64_ix_defs and_masks by (rule byte_eqI; simp add: bit_simps)
  ultimately show ?thesis by (simp only: b64_join_def)
qed

lemma length_b64_group [simp]: "length (b64_group a b c) = 4"
  by (simp add: b64_group_def)

lemma length_b64_loop: "length (b64_loop raw) = ((length raw + 2) div 3) * 4"
proof (induction raw rule: b64_loop.induct)
  case (4 a b c rest)
  have "(5 + length rest) div 3 = (length rest + 2) div 3 + 1" by linarith
  with 4 show ?case by simp
qed simp_all

lemma length_b64_pad [simp]: "length (b64_pad n dst) = length dst"
  by (induction n arbitrary: dst) simp_all

lemma b64_pad_append: "n \<le> length ys \<Longrightarrow> b64_pad n (xs @ ys) = xs @ b64_pad n ys"
proof (induction n arbitrary: ys)
  case (Suc j)
  then have "(xs @ ys)[length (xs @ ys) - 1 - j := CHR ''='']
      = xs @ ys[length ys - 1 - j := CHR ''='']"
    by (auto simp: list_update_append)
  with Suc show ?case by simp
qed simp

lemmas b64_vals = b64_index_bounds [THEN b64_val_tab] and b64_nopad = b64_index_bounds [THEN tab_not_pad]

lemma b64_decode_group:
  "b64_decode (b64_group a b c @ rest) = map_option (\<lambda>more. [a, b, c] @ more) (b64_decode rest)"
  using b64_join_group [of a b c]
  by (simp add: b64_group_def b64_vals b64_nopad split: option.split)

text \<open>The padded text of a whole input: the encoder without its capacity check.\<close>

definition b64_text :: "bytes \<Rightarrow> string" where
  "b64_text raw = (if 3 - length raw mod 3 \<noteq> 3 then b64_pad (3 - length raw mod 3) (b64_loop raw)
                   else b64_loop raw)"

lemma b64_text_group:
  "b64_text (a # b # c # rest) = b64_group a b c @ b64_text rest"
proof -
  have "3 - length rest mod 3 \<le> length (b64_loop rest)" if "length rest mod 3 \<noteq> 0"
  proof -
    have "rest \<noteq> []" using that by auto
    then have "1 \<le> (length rest + 2) div 3" by (cases rest) auto
    then have "4 \<le> length (b64_loop rest)" by (simp add: length_b64_loop)
    then show ?thesis by linarith
  qed
  then show ?thesis
    by (auto simp: b64_text_def b64_pad_append)
qed

lemma b64_decode_text: "b64_decode (b64_text raw) = Some raw"
proof (induction raw rule: b64_loop.induct)
  case 1
  show ?case by (simp add: b64_text_def)
next
  case (2 a)
  have "b64_text [a] = [b64_tab ! unat (b64_ix0 a), b64_tab ! unat (b64_ix1 a 0), CHR ''='', CHR ''='']"
    by (simp add: b64_text_def b64_group_def numeral_2_eq_2)
  then show ?case
    using b64_join_group [of a 0 0] by (simp add: b64_vals b64_join_def)
next
  case (3 a b)
  have "b64_text [a, b] = [b64_tab ! unat (b64_ix0 a), b64_tab ! unat (b64_ix1 a b),
      b64_tab ! unat (b64_ix2 b 0), CHR ''='']"
    by (simp add: b64_text_def b64_group_def)
  then show ?case
    using b64_join_group [of a b 0] by (simp add: b64_vals b64_nopad b64_join_def)
next
  case (4 a b c rest)
  then show ?case by (simp add: b64_text_group b64_decode_group)
qed

lemma ws_base64_encode_eq:
  "ws_base64_encode raw cap =
     (if cap < ws_base64_encode_size (length raw) then None
      else Some (ws_base64_encode_size (length raw) - 1, b64_text raw))"
  by (simp add: ws_base64_encode_def ws_base64_encode_size_def b64_text_def Let_def)

lemma length_b64_text: "length (b64_text raw) = ((length raw + 2) div 3) * 4"
  by (simp add: b64_text_def length_b64_loop)

section \<open>Properties\<close>

text \<open>
  C35. The encoder fails exactly when the destination is smaller than what
  \<open>ws_base64_encode_size\<close> announces, and otherwise returns the length of the text it
  wrote, which a decoder of RFC 4648 turns back into the input.
\<close>

theorem base64_encode_roundtrip:
  "case ws_base64_encode raw cap of
     None \<Rightarrow> cap < ws_base64_encode_size (length raw)
   | Some (n, dst) \<Rightarrow> ws_base64_encode_size (length raw) \<le> cap \<and> n = length dst \<and> n < cap
       \<and> b64_decode dst = Some raw"
  by (simp add: ws_base64_encode_eq b64_decode_text length_b64_text ws_base64_encode_size_def)

end
