(* ===== verification/Ws_Sha1.thy ===== *)
theory Ws_Sha1
  imports Sevent_Prelude
begin

unbundle bit_operations_syntax

text \<open>
  \<^verbatim>\<open>src/websockets/ws_sha1.c\<close>: the incremental SHA-1 used by the WebSocket
  handshake. The context is the record of \<^verbatim>\<open>ws_sha1.h\<close>; \<open>ws_sha1_update\<close>
  follows the three phases of the source (complete a partly filled block, whole blocks
  straight from the input, the rest into the buffer). The specification below it is the
  one-shot definition of FIPS 180-4: pad the whole message, then compress it block by
  block. The lemmas show that the streaming code computes it, however the message is cut
  into updates, and whatever the uninitialised part of the buffer holds.
\<close>

type_synonym u32 = "32 word"
type_synonym u64 = "64 word"

section \<open>The code\<close>

record ws_sha1_ctx =
  sha_state :: "u32 list"
  sha_count :: u64
  sha_buffer :: bytes

definition ROTL :: "u32 \<Rightarrow> nat \<Rightarrow> u32" where
  "ROTL x n = push_bit n x OR drop_bit (32 - n) x"

definition sha_F0 :: "u32 \<Rightarrow> u32 \<Rightarrow> u32 \<Rightarrow> u32" where "sha_F0 b c d = (b AND c) OR (NOT b AND d)"
definition sha_F1 :: "u32 \<Rightarrow> u32 \<Rightarrow> u32 \<Rightarrow> u32" where "sha_F1 b c d = b XOR c XOR d"
definition sha_F2 :: "u32 \<Rightarrow> u32 \<Rightarrow> u32 \<Rightarrow> u32" where "sha_F2 b c d = (b AND c) OR (b AND d) OR (c AND d)"
definition sha_F3 :: "u32 \<Rightarrow> u32 \<Rightarrow> u32 \<Rightarrow> u32" where "sha_F3 b c d = b XOR c XOR d"

definition sha_K0 :: u32 where "sha_K0 = 0x5A827999"
definition sha_K1 :: u32 where "sha_K1 = 0x6ED9EBA1"
definition sha_K2 :: u32 where "sha_K2 = 0x8F1BBCDC"
definition sha_K3 :: u32 where "sha_K3 = 0xCA62C1D6"

type_synonym sha_regs = "u32 \<times> u32 \<times> u32 \<times> u32 \<times> u32"

text \<open>\<open>SHA1_STEP\<close> followed by the rotation of the registers, as in the loop body.\<close>

fun sha1_round :: "nat \<Rightarrow> u32 \<Rightarrow> sha_regs \<Rightarrow> sha_regs" where
  "sha1_round i w (a, b, c, d, e) =
     (let fk = (if i < 20 then sha_F0 b c d + sha_K0
                else if i < 40 then sha_F1 b c d + sha_K1
                else if i < 60 then sha_F2 b c d + sha_K2
                else sha_F3 b c d + sha_K3);
          e' = e + (ROTL a 5 + fk + w);
          b' = ROTL b 30
      in (e', a, b', c, d))"

definition be32 :: "byte \<Rightarrow> byte \<Rightarrow> byte \<Rightarrow> byte \<Rightarrow> u32" where
  "be32 p q r s = push_bit 24 (ucast p) OR push_bit 16 (ucast q) OR push_bit 8 (ucast r) OR ucast s"

text \<open>The first loop: sixteen big-endian words of the block.\<close>

fun sha1_load :: "bytes \<Rightarrow> u32 list" where
  "sha1_load (p # q # r # s # rest) = be32 p q r s # sha1_load rest"
| "sha1_load _ = []"

text \<open>The second loop, from \<open>i = length w\<close> on, for \<open>k\<close> more words.\<close>

fun sha1_expand :: "nat \<Rightarrow> u32 list \<Rightarrow> u32 list" where
  "sha1_expand 0 w = w"
| "sha1_expand (Suc k) w =
     (let i = length w
      in sha1_expand k (w @ [ROTL (w ! (i - 3) XOR w ! (i - 8) XOR w ! (i - 14) XOR w ! (i - 16)) 1]))"

fun sha1_rounds :: "nat \<Rightarrow> u32 list \<Rightarrow> sha_regs \<Rightarrow> sha_regs" where
  "sha1_rounds i [] regs = regs"
| "sha1_rounds i (w # ws) regs = sha1_rounds (Suc i) ws (sha1_round i w regs)"

definition sha1_compress :: "u32 list \<Rightarrow> bytes \<Rightarrow> u32 list" where
  "sha1_compress st block =
     (let w = sha1_expand 64 (sha1_load block);
          (a, b, c, d, e) = sha1_rounds 0 w (st ! 0, st ! 1, st ! 2, st ! 3, st ! 4)
      in [st ! 0 + a, st ! 1 + b, st ! 2 + c, st ! 3 + d, st ! 4 + e])"

definition sha1_transform :: "ws_sha1_ctx \<Rightarrow> bytes \<Rightarrow> ws_sha1_ctx" where
  "sha1_transform ctx block = ctx\<lparr>sha_state := sha1_compress (sha_state ctx) block\<rparr>"

definition sha1_iv :: "u32 list" where
  "sha1_iv = [0x67452301, 0xEFCDAB89, 0x98BADCFE, 0x10325476, 0xC3D2E1F0]"

definition ws_sha1_init :: "ws_sha1_ctx \<Rightarrow> ws_sha1_ctx" where
  "ws_sha1_init ctx = ctx\<lparr>sha_state := sha1_iv, sha_count := 0\<rparr>"

text \<open>\<open>memcpy(dst + at, src, length src)\<close> on an array as a list.\<close>

definition memcpy_at :: "'a list \<Rightarrow> nat \<Rightarrow> 'a list \<Rightarrow> 'a list" where
  "memcpy_at dst at src = take at dst @ src @ drop (at + length src) dst"

text \<open>\<open>while(len >= 64)\<close>: the context after it and the input that is left.\<close>

function sha1_blocks :: "ws_sha1_ctx \<Rightarrow> bytes \<Rightarrow> ws_sha1_ctx \<times> bytes" where
  "sha1_blocks ctx p =
     (if 64 \<le> length p then sha1_blocks (sha1_transform ctx (take 64 p)) (drop 64 p) else (ctx, p))"
  by pat_completeness auto
termination
  by (relation "measure (\<lambda>(ctx, p). length p)") auto

declare sha1_blocks.simps [simp del]

definition ws_sha1_update :: "ws_sha1_ctx \<Rightarrow> bytes \<Rightarrow> ws_sha1_ctx" where
  "ws_sha1_update ctx data =
     (let len = length data;
          idx = unat (sha_count ctx AND 63);
          ctx = ctx\<lparr>sha_count := sha_count ctx + of_nat len\<rparr>;
          (ctx, p, idx) =
            (if 0 < idx \<and> 64 \<le> idx + len
             then let fill = 64 - idx;
                      buf = memcpy_at (sha_buffer ctx) idx (take fill data);
                      ctx = sha1_transform (ctx\<lparr>sha_buffer := buf\<rparr>) buf
                  in (ctx, drop fill data, 0)
             else (ctx, data, idx));
          (ctx, p) = sha1_blocks ctx p
      in if 0 < length p then ctx\<lparr>sha_buffer := memcpy_at (sha_buffer ctx) idx p\<rparr> else ctx)"

text \<open>The eight bytes of a 64-bit word and the four of a 32-bit word, most significant first.\<close>

definition be_bytes64 :: "u64 \<Rightarrow> bytes" where
  "be_bytes64 x = [ucast (drop_bit 56 x), ucast (drop_bit 48 x), ucast (drop_bit 40 x), ucast (drop_bit 32 x),
                   ucast (drop_bit 24 x), ucast (drop_bit 16 x), ucast (drop_bit 8 x), ucast x]"

definition be_bytes32 :: "u32 \<Rightarrow> bytes" where
  "be_bytes32 x = [ucast (drop_bit 24 x), ucast (drop_bit 16 x), ucast (drop_bit 8 x), ucast x]"

definition ws_sha1_final :: "ws_sha1_ctx \<Rightarrow> ws_sha1_ctx \<times> bytes" where
  "ws_sha1_final ctx =
     (let bits = sha_count ctx * 8;
          idx = unat (sha_count ctx AND 63);
          pad = (if idx < 56 then 56 - idx else 120 - idx);
          ctx = ws_sha1_update ctx (0x80 # replicate (pad - 1) 0);
          ctx = ws_sha1_update ctx (be_bytes64 bits)
      in (ctx, concat (map be_bytes32 (sha_state ctx))))"

text \<open>The one-shot interface; \<open>stack\<close> is the uninitialised local context.\<close>

definition ws_sha1 :: "ws_sha1_ctx \<Rightarrow> bytes \<Rightarrow> bytes" where
  "ws_sha1 stack data = snd (ws_sha1_final (ws_sha1_update (ws_sha1_init stack) data))"

section \<open>FIPS 180-4 in one shot\<close>

function sha1_fold :: "u32 list \<Rightarrow> bytes \<Rightarrow> u32 list" where
  "sha1_fold st m = (if 64 \<le> length m then sha1_fold (sha1_compress st (take 64 m)) (drop 64 m) else st)"
  by pat_completeness auto
termination
  by (relation "measure (\<lambda>(st, m). length m)") auto

declare sha1_fold.simps [simp del]

text \<open>A one bit, the least number of zeros that leaves room for 64 bits, the bit length.\<close>

definition sha1_pad :: "bytes \<Rightarrow> bytes" where
  "sha1_pad m = m @ 0x80 # replicate ((119 - length m mod 64) mod 64) 0 @ be_bytes64 (of_nat (8 * length m))"

definition sha1_spec :: "bytes \<Rightarrow> bytes" where
  "sha1_spec m = concat (map be_bytes32 (sha1_fold sha1_iv (sha1_pad m)))"

section \<open>Streaming equals one shot\<close>

text \<open>\<open>ctx\<close> has absorbed the message \<open>m\<close>.\<close>

definition absorbed :: "ws_sha1_ctx \<Rightarrow> bytes \<Rightarrow> bool" where
  "absorbed ctx m \<longleftrightarrow>
     sha_count ctx = of_nat (length m) \<and> length (sha_buffer ctx) = 64 \<and>
     sha_state ctx = sha1_fold sha1_iv m \<and>
     take (length m mod 64) (sha_buffer ctx) = drop (64 * (length m div 64)) m"

lemma sha1_fold_short: "length m < 64 \<Longrightarrow> sha1_fold st m = st"
  by (simp add: sha1_fold.simps)

lemma sha1_fold_block:
  "length b = 64 \<Longrightarrow> sha1_fold st (b @ m) = sha1_fold (sha1_compress st b) m"
  by (simp add: sha1_fold.simps [of st "b @ m"])

lemma sha1_fold_append:
  "64 dvd length m \<Longrightarrow> sha1_fold st (m @ n) = sha1_fold (sha1_fold st m) n"
proof (induction st m rule: sha1_fold.induct)
  case (1 st m)
  show ?case
  proof (cases "64 \<le> length m")
    case True
    have "64 dvd length (drop 64 m)" using 1(2) True by (auto simp: dvd_diff_nat)
    then have "sha1_fold (sha1_compress st (take 64 m)) (drop 64 m @ n)
        = sha1_fold (sha1_fold (sha1_compress st (take 64 m)) (drop 64 m)) n"
      using 1(1) True by blast
    with True show ?thesis
      by (simp add: sha1_fold.simps [of st "m @ n"] sha1_fold.simps [of st m])
  next
    case False
    with 1(2) have "m = []" by (auto dest: dvd_imp_le)
    then show ?thesis by (simp add: sha1_fold_short)
  qed
qed

lemma sha1_blocks_eq:
  "sha1_blocks ctx p = (ctx\<lparr>sha_state := sha1_fold (sha_state ctx) p\<rparr>, drop (64 * (length p div 64)) p)"
proof (induction ctx p rule: sha1_blocks.induct)
  case (1 ctx p)
  show ?case
  proof (cases "64 \<le> length p")
    case True
    have "length p div 64 = Suc ((length p - 64) div 64)"
      using True by (simp add: le_div_geq)
    with True 1 show ?thesis
      by (simp add: sha1_blocks.simps [of ctx p] sha1_fold.simps [of "sha_state ctx" p] sha1_transform_def
          add.commute)
  next
    case False
    then show ?thesis by (simp add: sha1_blocks.simps sha1_fold_short)
  qed
qed

lemma count_index: "unat ((of_nat n :: u64) AND 63) = n mod 64"
proof -
  have "unat (take_bit 6 (of_nat n :: u64)) = take_bit 6 (n mod 2 ^ 64)"
    by (simp add: unsigned_take_bit_eq unat_of_nat)
  also have "\<dots> = n mod 64" by (simp add: take_bit_eq_mod mod_mod_cancel)
  finally show ?thesis by (simp add: and_masks)
qed

text \<open>A message is its whole blocks followed by the tail the buffer holds.\<close>

lemma absorbed_split:
  assumes "absorbed ctx m"
  obtains h t where "m = h @ t" "64 dvd length h" "length t = length m mod 64"
    "take (length t) (sha_buffer ctx) = t" "sha_state ctx = sha1_fold sha1_iv h"
proof -
  let ?h = "take (64 * (length m div 64)) m" and ?t = "drop (64 * (length m div 64)) m"
  have lh: "length ?h = 64 * (length m div 64)" by simp
  have lt: "length ?t = length m mod 64" by (simp add: minus_mult_div_eq_mod)
  have "sha_state ctx = sha1_fold sha1_iv (?h @ ?t)" using assms by (simp add: absorbed_def)
  also have "\<dots> = sha1_fold sha1_iv ?h"
    using lh lt by (subst sha1_fold_append) (simp_all add: sha1_fold_short)
  finally have "sha_state ctx = sha1_fold sha1_iv ?h" .
  then show ?thesis using that [of ?h ?t] lh lt assms by (simp add: absorbed_def)
qed

lemma take_memcpy_at: "at \<le> length d \<Longrightarrow> take (at + length s) (memcpy_at d at s) = take at d @ s"
  by (simp add: memcpy_at_def)

lemma length_memcpy_at: "at + length s \<le> length d \<Longrightarrow> length (memcpy_at d at s) = length d"
  by (simp add: memcpy_at_def)

text \<open>The rest of the input goes behind what the buffer holds.\<close>

lemma absorbed_tail:
  assumes h: "64 dvd length h" and lt: "length (t @ p) < 64"
    and buf: "length (sha_buffer ctx) = 64" "take (length t) (sha_buffer ctx) = t"
    and st: "sha_state ctx = sha1_fold sha1_iv h"
    and ct: "sha_count ctx = of_nat (length (h @ t @ p))"
  shows "absorbed (if 0 < length p
      then ctx\<lparr>sha_buffer := memcpy_at (sha_buffer ctx) (length t) p\<rparr> else ctx) (h @ t @ p)"
proof -
  obtain k where k: "length h = 64 * k" using h by (auto elim: dvdE)
  have len: "length (h @ t @ p) mod 64 = length (t @ p)" "length (h @ t @ p) div 64 = k"
    using k lt by simp_all
  have fold: "sha1_fold sha1_iv (h @ t @ p) = sha1_fold sha1_iv h"
    using h lt by (simp add: sha1_fold_append sha1_fold_short)
  have tail: "drop (64 * k) (h @ t @ p) = t @ p" using k by simp
  have tk: "length t \<le> length (sha_buffer ctx)" using buf(1) lt by simp
  show ?thesis
  proof (cases "0 < length p")
    case True
    have "take (length (t @ p)) (memcpy_at (sha_buffer ctx) (length t) p) = t @ p"
      using take_memcpy_at [OF tk, of p] buf(2) by simp
    with True show ?thesis
      using lt buf(1) st ct unfolding absorbed_def len fold tail
      by (simp add: length_memcpy_at)
  next
    case False
    then show ?thesis using buf st ct unfolding absorbed_def len fold tail by simp
  qed
qed

text \<open>The last two phases of the update, on a context that holds whole blocks only.\<close>

lemma absorbed_blocks:
  assumes h: "64 dvd length h" and buf: "length (sha_buffer ctx) = 64"
    and st: "sha_state ctx = sha1_fold sha1_iv h" and ct: "sha_count ctx = of_nat (length (h @ p))"
  shows "absorbed (case sha1_blocks ctx p of (ctx, p) \<Rightarrow>
      if 0 < length p then ctx\<lparr>sha_buffer := memcpy_at (sha_buffer ctx) 0 p\<rparr> else ctx) (h @ p)"
proof -
  let ?n = "64 * (length p div 64)"
  let ?c = "ctx\<lparr>sha_state := sha1_fold (sha_state ctx) p\<rparr>"
  have lt: "length (drop ?n p) < 64" and dv: "64 dvd length (h @ take ?n p)"
    using h by (simp_all add: minus_mult_div_eq_mod)
  have "sha1_fold sha1_iv (h @ take ?n p) = sha1_fold sha1_iv ((h @ take ?n p) @ drop ?n p)"
    using sha1_fold_append [OF dv, of sha1_iv "drop ?n p"] lt by (simp add: sha1_fold_short)
  also have "\<dots> = sha1_fold (sha_state ctx) p" using h st by (simp add: sha1_fold_append)
  finally have st': "sha_state ?c = sha1_fold sha1_iv (h @ take ?n p)" by simp
  have "absorbed (if 0 < length (drop ?n p)
      then ?c\<lparr>sha_buffer := memcpy_at (sha_buffer ?c) (length ([] :: bytes)) (drop ?n p)\<rparr> else ?c)
      ((h @ take ?n p) @ [] @ drop ?n p)"
    using lt buf ct by (intro absorbed_tail [OF dv _ _ _ st']) simp_all
  then show ?thesis by (auto simp: sha1_blocks_eq split: if_splits)
qed

lemma absorbed_update:
  assumes "absorbed ctx m"
  shows "absorbed (ws_sha1_update ctx data) (m @ data)"
proof -
  obtain h t where m: "m = h @ t" and h: "64 dvd length h" and lt: "length t = length m mod 64"
    and buf: "take (length t) (sha_buffer ctx) = t" and st: "sha_state ctx = sha1_fold sha1_iv h"
    using absorbed_split [OF assms] by metis
  have ct: "sha_count ctx = of_nat (length m)" and lb: "length (sha_buffer ctx) = 64"
    using assms by (simp_all add: absorbed_def)
  have ix: "unat (sha_count ctx AND 63) = length t" using ct lt by (simp add: count_index)
  have t64: "length t < 64" using lt by simp
  let ?c = "ctx\<lparr>sha_count := sha_count ctx + of_nat (length data)\<rparr>"
  consider (fill) "0 < length t" "64 \<le> length t + length data" | (short) "0 < length t" "length (t @ data) < 64"
    | (aligned) "t = []" by fastforce
  then show ?thesis
  proof cases
    case fill
    let ?f = "64 - length t" and ?b = "memcpy_at (sha_buffer ctx) (length t) (take (64 - length t) data)"
    have b: "?b = t @ take ?f data" and b64: "length (t @ take ?f data) = 64"
      using fill t64 lb buf by (auto simp: memcpy_at_def min_def)
    have st': "sha1_compress (sha_state ctx) ?b = sha1_fold sha1_iv (h @ t @ take ?f data)"
      using st h b sha1_fold_block [OF b64, of "sha1_fold sha1_iv h" "[]"]
      by (simp add: sha1_fold_append sha1_fold_short)
    have "64 dvd length (h @ t @ take ?f data)" using h b64 by (metis dvd_add dvd_refl length_append)
    then have "absorbed (case sha1_blocks (?c\<lparr>sha_buffer := ?b, sha_state := sha1_compress (sha_state ctx) ?b\<rparr>)
        (drop ?f data) of (ctx, p) \<Rightarrow>
        if 0 < length p then ctx\<lparr>sha_buffer := memcpy_at (sha_buffer ctx) 0 p\<rparr> else ctx)
        ((h @ t @ take ?f data) @ drop ?f data)"
      using b b64 ct st' m by (intro absorbed_blocks) simp_all
    with fill show ?thesis by (simp add: ws_sha1_update_def ix sha1_transform_def Let_def m)
  next
    case short
    have "sha1_blocks ?c data = (?c, data)" using short by (simp add: sha1_blocks.simps)
    moreover have "absorbed (if 0 < length data
        then ?c\<lparr>sha_buffer := memcpy_at (sha_buffer ?c) (length t) data\<rparr> else ?c) (h @ t @ data)"
      using short lb buf st ct by (intro absorbed_tail [OF h]) (simp_all add: m)
    ultimately show ?thesis using short by (simp add: ws_sha1_update_def ix Let_def m)
  next
    case aligned
    have "absorbed (case sha1_blocks ?c data of (ctx, p) \<Rightarrow>
        if 0 < length p then ctx\<lparr>sha_buffer := memcpy_at (sha_buffer ctx) 0 p\<rparr> else ctx) (h @ data)"
      using lb st ct aligned m by (intro absorbed_blocks [OF h]) simp_all
    with aligned show ?thesis by (simp add: ws_sha1_update_def ix Let_def m)
  qed
qed

lemma absorbed_init: "length (sha_buffer ctx) = 64 \<Longrightarrow> absorbed (ws_sha1_init ctx) []"
  by (simp add: absorbed_def ws_sha1_init_def sha1_fold_short)

text \<open>The padding that \<open>ws_sha1_final\<close> feeds is that of the standard.\<close>

lemma final_pad_length:
  "(if n mod 64 < 56 then 56 - n mod 64 else 120 - n mod 64) = Suc ((119 - n mod 64) mod 64)" for n :: nat
proof -
  have lt: "n mod 64 < 64" by simp
  show ?thesis
  proof (cases "n mod 64 < 56")
    case True
    then have "119 - n mod 64 = 55 - n mod 64 + 64" by simp
    then have "(119 - n mod 64) mod 64 = (55 - n mod 64) mod 64" by (metis mod_add_self2)
    also have "\<dots> = 55 - n mod 64" by (rule mod_less) simp
    finally have "(119 - n mod 64) mod 64 = 55 - n mod 64" .
    moreover have "56 - n mod 64 = Suc (55 - n mod 64)" using True by linarith
    ultimately show ?thesis using True by simp
  next
    case False
    then have "(119 - n mod 64) mod 64 = 119 - n mod 64" by (intro mod_less) linarith
    with False lt show ?thesis by simp
  qed
qed

lemma length_be_bytes64 [simp]: "length (be_bytes64 x) = 8"
  by (simp add: be_bytes64_def)

lemma final_absorbed:
  assumes "absorbed ctx m"
  shows "snd (ws_sha1_final ctx) = sha1_spec m"
proof -
  let ?pad = "0x80 # replicate ((119 - length m mod 64) mod 64) 0"
  let ?len = "be_bytes64 (of_nat (8 * length m))"
  have ct: "sha_count ctx = of_nat (length m)" using assms by (simp add: absorbed_def)
  have "absorbed (ws_sha1_update (ws_sha1_update ctx ?pad) ?len) ((m @ ?pad) @ ?len)"
    by (intro absorbed_update assms)
  then have st: "sha_state (ws_sha1_update (ws_sha1_update ctx ?pad) ?len) = sha1_fold sha1_iv (sha1_pad m)"
    unfolding absorbed_def sha1_pad_def append_assoc append_Cons by (elim conjE)
  have bits: "of_nat (length m) * 8 = (of_nat (8 * length m) :: u64)"
    by (simp only: of_nat_mult of_nat_numeral mult.commute)
  show ?thesis
    unfolding ws_sha1_final_def Let_def ct count_index final_pad_length diff_Suc_1 bits st snd_conv
      sha1_spec_def ..
qed

section \<open>Properties\<close>

text \<open>
  C34. However a message is cut into calls of \<open>ws_sha1_update\<close>, and whatever the context
  held before \<open>ws_sha1_init\<close>, \<open>ws_sha1_final\<close> yields the FIPS 180-4 digest of the
  whole message; the one-shot \<open>ws_sha1\<close> does so too. The message length counter wraps
  at 64 bits in both.
\<close>

theorem sha1_streaming_is_spec:
  assumes "length (sha_buffer ctx) = 64"
  shows "snd (ws_sha1_final (foldl ws_sha1_update (ws_sha1_init ctx) chunks)) = sha1_spec (concat chunks)
    \<and> ws_sha1 ctx (concat chunks) = sha1_spec (concat chunks)"
proof -
  have fold: "absorbed c m \<Longrightarrow> absorbed (foldl ws_sha1_update c chunks) (m @ concat chunks)" for c m
    by (induction chunks arbitrary: c m) (simp_all flip: append_assoc add: absorbed_update)
  show ?thesis
    using fold [OF absorbed_init [OF assms]]
      absorbed_update [OF absorbed_init [OF assms], of "concat chunks"]
    by (simp add: ws_sha1_def final_absorbed)
qed

theorem sha1_streaming_is_spec_witness:
  "snd (ws_sha1_final (foldl ws_sha1_update
      (ws_sha1_init \<lparr>sha_state = [], sha_count = 7, sha_buffer = replicate 64 0xAA\<rparr>) [[0x61], [0x62, 0x63]]))
     = sha1_spec [0x61, 0x62, 0x63]"
  using sha1_streaming_is_spec
    [of "\<lparr>sha_state = [], sha_count = 7, sha_buffer = replicate 64 0xAA\<rparr>" "[[0x61], [0x62, 0x63]]"]
  by simp

end
