(* ===== verification/Ws_Frame.thy ===== *)
theory Ws_Frame
  imports Sevent_Prelude
begin

unbundle bit_operations_syntax

text \<open>
  \<^verbatim>\<open>src/websockets/ws_frame.c\<close>: the RFC 6455 frame header codec and the payload
  mask. The header is the struct of \<^verbatim>\<open>ws_frame.h\<close>; the flag bytes that the code
  only ever sets to 0 or 1 are booleans. The parser writes the caller's header field by
  field, so an early return leaves the earlier fields written: the model takes the
  caller's header and returns the updated one beside the return value. The lemmas show
  the round trip of build and parse, that a parse result depends on the bytes of the
  header only, which inputs are rejected, and the algebra of the mask.
\<close>

type_synonym wlen = "64 word"

section \<open>Opcodes and header\<close>

definition WS_OPCODE_CONT :: byte where "WS_OPCODE_CONT = 0x0"
definition WS_OPCODE_TEXT :: byte where "WS_OPCODE_TEXT = 0x1"
definition WS_OPCODE_BINARY :: byte where "WS_OPCODE_BINARY = 0x2"
definition WS_OPCODE_CLOSE :: byte where "WS_OPCODE_CLOSE = 0x8"
definition WS_OPCODE_PING :: byte where "WS_OPCODE_PING = 0x9"
definition WS_OPCODE_PONG :: byte where "WS_OPCODE_PONG = 0xA"

lemmas opcode_defs = WS_OPCODE_CONT_def WS_OPCODE_TEXT_def WS_OPCODE_BINARY_def
  WS_OPCODE_CLOSE_def WS_OPCODE_PING_def WS_OPCODE_PONG_def

record ws_frame_header =
  fh_fin :: bool
  fh_rsv1 :: bool
  fh_rsv2 :: bool
  fh_rsv3 :: bool
  fh_opcode :: byte
  fh_mask :: bool
  fh_payload_len :: wlen
  fh_mask_key :: bytes

section \<open>The code\<close>

text \<open>The mask part of the parser, from offset \<open>offset\<close> on.\<close>

definition parse_mask_key :: "bytes \<Rightarrow> nat \<Rightarrow> ws_frame_header \<Rightarrow> int \<times> ws_frame_header" where
  "parse_mask_key buf offset hdr =
     (if fh_mask hdr then
        if length buf < offset + 4 then (0, hdr)
        else (int offset + 4,
              hdr\<lparr>fh_mask_key := [buf ! offset, buf ! (offset + 1), buf ! (offset + 2), buf ! (offset + 3)]\<rparr>)
      else (int offset, hdr))"

definition be_read64 :: "bytes \<Rightarrow> nat \<Rightarrow> wlen" where
  "be_read64 buf at = fold (\<lambda>i acc. push_bit 8 acc OR ucast (buf ! (at + i))) [0..<8] 0"

definition ws_frame_parse_header :: "bytes \<Rightarrow> ws_frame_header \<Rightarrow> int \<times> ws_frame_header" where
  "ws_frame_parse_header buf hdr =
     (if length buf < 2 then (0, hdr)
      else
        let b0 = buf ! 0;
            hdr = hdr\<lparr>fh_fin := b0 AND 0x80 \<noteq> 0, fh_rsv1 := b0 AND 0x40 \<noteq> 0,
                      fh_rsv2 := b0 AND 0x20 \<noteq> 0, fh_rsv3 := b0 AND 0x10 \<noteq> 0,
                      fh_opcode := b0 AND 0x0F\<rparr>;
            b1 = buf ! 1;
            hdr = hdr\<lparr>fh_mask := b1 AND 0x80 \<noteq> 0\<rparr>;
            len7 = b1 AND 0x7F
        in if len7 < 126 then parse_mask_key buf 2 (hdr\<lparr>fh_payload_len := ucast len7\<rparr>)
           else if len7 = 126 then
             if length buf < 4 then (0, hdr)
             else parse_mask_key buf 4
                    (hdr\<lparr>fh_payload_len := push_bit 8 (ucast (buf ! 2)) OR ucast (buf ! 3)\<rparr>)
           else
             if length buf < 10 then (0, hdr)
             else
               let hdr = hdr\<lparr>fh_payload_len := be_read64 buf 2\<rparr>
               in if buf ! 2 AND 0x80 \<noteq> 0 then (-1, hdr) else parse_mask_key buf 10 hdr)"

text \<open>\<open>payload[i] ^= mask_key[(offset + i) & 3]\<close>, the offset a wrapping 64-bit counter.\<close>

fun ws_frame_apply_mask_offset :: "bytes \<Rightarrow> bytes \<Rightarrow> wlen \<Rightarrow> bytes" where
  "ws_frame_apply_mask_offset [] key offset = []"
| "ws_frame_apply_mask_offset (p # ps) key offset =
     (p XOR key ! unat (offset AND 3)) # ws_frame_apply_mask_offset ps key (offset + 1)"

definition ws_frame_apply_mask :: "bytes \<Rightarrow> bytes \<Rightarrow> bytes" where
  "ws_frame_apply_mask payload key = ws_frame_apply_mask_offset payload key 0"

text \<open>\<open>None\<close> is the return value \<open>-1\<close>, \<open>Some bs\<close> the bytes written to the buffer.\<close>

definition ws_frame_build_header :: "byte \<Rightarrow> byte \<Rightarrow> byte \<Rightarrow> bytes option \<Rightarrow> wlen \<Rightarrow> bytes option" where
  "ws_frame_build_header fin rsv1 opcode mask_key payload_len =
     (if rsv1 AND NOT 1 \<noteq> 0 then None
      else if 0x0F < opcode then None
      else
        let b0 = (if fin \<noteq> 0 then 0x80 else 0) OR (if rsv1 \<noteq> 0 then 0x40 else 0) OR (opcode AND 0x0F);
            m = (if mask_key \<noteq> None then 0x80 else (0 :: byte));
            lenb = (if payload_len < 126 then [m OR ucast (payload_len AND 0x7F)]
                    else if payload_len \<le> 0xFFFF then
                      [m OR 126, ucast (drop_bit 8 payload_len), ucast payload_len]
                    else (m OR 127) # map (\<lambda>i. ucast (drop_bit (8 * i) payload_len)) (rev [0..<8]))
        in Some (b0 # lenb @ (case mask_key of None \<Rightarrow> [] | Some k \<Rightarrow> [k ! 0, k ! 1, k ! 2, k ! 3])))"

section \<open>Lemmas on the mask\<close>

lemma length_apply_mask_offset [simp]: "length (ws_frame_apply_mask_offset p k off) = length p"
  by (induction p arbitrary: off) simp_all

lemma apply_mask_offset_append:
  "ws_frame_apply_mask_offset (p @ q) k off =
     ws_frame_apply_mask_offset p k off @ ws_frame_apply_mask_offset q k (off + of_nat (length p))"
  by (induction p arbitrary: off) (simp_all add: algebra_simps)

lemma apply_mask_offset_involutive:
  "ws_frame_apply_mask_offset (ws_frame_apply_mask_offset p k off) k off = p"
  by (induction p arbitrary: off) (simp_all add: xor.assoc)

lemma unat_and_3_less: "unat (off AND 3 :: wlen) < 4"
proof -
  have "unat (take_bit 2 off) < 2 ^ 2" by (intro unat_take_bit_less) simp
  then show ?thesis by (simp add: and_masks)
qed

lemma apply_mask_zero_key:
  "ws_frame_apply_mask_offset p [0, 0, 0, 0] off = p"
proof (induction p arbitrary: off)
  case (Cons x p)
  have "[0, 0, 0, 0 :: byte] ! unat (off AND 3) = 0"
    using unat_and_3_less [of off] by (auto simp: less_Suc_eq numeral_eq_Suc)
  with Cons show ?case by simp
qed simp

section \<open>Lemmas on the header codec\<close>

lemma be_step:
  fixes x :: wlen
  shows "push_bit 8 (drop_bit (k + 8) x) OR ucast (ucast (drop_bit k x) :: byte) = drop_bit k x"
  by (rule bit_word_eqI) (auto simp: bit_simps)

lemma be_fold:
  fixes buf :: bytes
  assumes "\<And>i. i < 8 \<Longrightarrow> buf ! (at + i) = ucast (drop_bit (56 - 8 * i) x)" and "n \<le> 8"
  shows "fold (\<lambda>i acc. push_bit 8 acc OR ucast (buf ! (at + i))) [0..<n] 0 = drop_bit (64 - 8 * n) (x :: wlen)"
  using assms(2)
proof (induction n)
  case 0
  show ?case by (rule bit_word_eqI) (simp add: bit_simps impossible_bit)
next
  case (Suc n)
  then have e: "64 - 8 * n = 56 - 8 * n + 8" and l: "64 - 8 * Suc n = 56 - 8 * n" by simp_all
  from Suc have "fold (\<lambda>i acc. push_bit 8 acc OR ucast (buf ! (at + i))) [0..<Suc n] 0
      = push_bit 8 (drop_bit (56 - 8 * n + 8) x) OR ucast (ucast (drop_bit (56 - 8 * n) x) :: byte)"
    by (simp add: assms(1) flip: e)
  also have "\<dots> = drop_bit (56 - 8 * n) x" by (rule be_step)
  finally show ?case by (simp only: l)
qed

lemma be_read64_bytes:
  "be_read64 (p # q # map (\<lambda>i. ucast (drop_bit (8 * i) x)) (rev [0..<8]) @ rest) 2 = x"
proof -
  have "(p # q # map (\<lambda>i. ucast (drop_bit (8 * i) x) :: byte) (rev [0..<8]) @ rest) ! (2 + i)
      = ucast (drop_bit (56 - 8 * i) x)" if "i < 8" for i
  proof -
    have "8 * (7 - i) = 56 - 8 * i" by simp
    with that show ?thesis by (simp add: nth_append rev_nth)
  qed
  from be_fold [OF this, of 8] show ?thesis unfolding be_read64_def by simp
qed

text \<open>The header the parser reports for what the builder was given.\<close>

definition header_of ::
  "bool \<Rightarrow> bool \<Rightarrow> byte \<Rightarrow> bytes option \<Rightarrow> wlen \<Rightarrow> ws_frame_header \<Rightarrow> ws_frame_header" where
  "header_of fin rsv1 opcode key len hdr =
     hdr\<lparr>fh_fin := fin, fh_rsv1 := rsv1, fh_rsv2 := False, fh_rsv3 := False, fh_opcode := opcode,
         fh_mask := (key \<noteq> None), fh_payload_len := len,
         fh_mask_key := (case key of None \<Rightarrow> fh_mask_key hdr | Some k \<Rightarrow> k)\<rparr>"

lemma small_take_bit: "unat (x :: 'a::len word) < 2 ^ n \<Longrightarrow> take_bit n x = x"
  by (metis take_bit_nat_eq_self unsigned_take_bit_eq unsigned_word_eqI)

lemma small_bits: "take_bit n x = x \<Longrightarrow> n \<le> k \<Longrightarrow> \<not> bit (x :: 'a::len word) k"
  by (metis bit_take_bit_iff not_le)

lemma build_byte0:
  fixes opcode :: byte and f r :: bool
  assumes "\<not> 0x0F < opcode"
  defines "b \<equiv> (if f then 0x80 else 0) OR (if r then 0x40 else 0) OR (opcode AND 0x0F)"
  shows "bit b 7 = f" "bit b 6 = r" "\<not> bit b 5" "\<not> bit b 4" "b AND 0x0F = opcode"
proof -
  have "unat opcode < 2 ^ 4" using assms(1) by (simp add: not_less word_le_nat_alt)
  then have op: "take_bit 4 opcode = opcode" by (rule small_take_bit)
  note hi = small_bits [OF op]
  show "bit b 7 = f" "bit b 6 = r" "\<not> bit b 5" "\<not> bit b 4"
    unfolding b_def and_masks by (simp_all add: bit_simps bit_numeral_rec)
  show "b AND 0x0F = opcode"
    unfolding b_def and_masks
    by (rule byte_eqI; simp add: bit_simps hi bit_numeral_rec)
qed

lemma build_len7:
  fixes x :: wlen and m :: bool
  assumes "x < 126"
  defines "b \<equiv> (if m then 0x80 else 0) OR ucast (x AND 0x7F) :: byte"
  shows "bit b 7 = m" "b AND 0x7F < 126" "ucast (b AND 0x7F) = x"
proof -
  have lt: "unat x < 126" using assms(1) by (simp add: word_less_nat_alt)
  then have x: "take_bit 7 x = x" by (intro small_take_bit) simp
  note hi = small_bits [OF x]
  show "bit b 7 = m" unfolding b_def and_masks by (simp add: bit_simps bit_numeral_rec hi)
  have "b AND 0x7F = ucast x"
    unfolding b_def and_masks by (rule byte_eqI; simp add: bit_simps bit_numeral_rec hi)
  moreover have "unat (ucast x :: byte) = unat x" using lt by (simp add: unsigned_ucast_eq take_bit_nat_eq_self)
  ultimately show "b AND 0x7F < 126" "ucast (b AND 0x7F) = x"
    using lt by (simp_all add: word_less_nat_alt word_unat_eq_iff unsigned_ucast_eq take_bit_nat_eq_self)
qed

lemma build_len_code:
  fixes m :: bool
  defines "b c \<equiv> (if m then 0x80 else 0) OR c :: byte"
  shows "bit (b 126) 7 = m" "b 126 AND 0x7F = 126" "bit (b 127) 7 = m" "b 127 AND 0x7F = 127"
  unfolding b_def by (cases m; simp add: bit_numeral_rec)+

lemma len16_bytes:
  fixes x :: wlen
  assumes "x \<le> 0xFFFF"
  shows "push_bit 8 (ucast (ucast (drop_bit 8 x) :: byte)) OR ucast (ucast x :: byte) = x"
proof -
  have "unat x < 2 ^ 16" using assms by (simp add: word_le_nat_alt)
  then have x: "take_bit 16 x = x" by (rule small_take_bit)
  have "ucast (ucast (drop_bit 8 x) :: byte) = drop_bit 8 x"
  proof (rule bit_word_eqI)
    fix n assume "n < LENGTH(64)"
    then show "bit (ucast (ucast (drop_bit 8 x) :: byte) :: wlen) n = bit (drop_bit 8 x) n"
      using small_bits [OF x, of "8 + n"] by (cases "n < 8") (simp_all add: bit_simps)
  qed
  with be_step [of 0 x] show ?thesis by simp
qed

lemma len64_msb:
  fixes x :: wlen
  assumes "x < 2 ^ 63"
  shows "\<not> bit (ucast (drop_bit 56 x) :: byte) 7"
proof -
  have "unat x < 2 ^ 63" using assms by (simp add: word_less_nat_alt)
  then have "take_bit 63 x = x" by (rule small_take_bit)
  from small_bits [OF this, of 63] show ?thesis by (simp add: bit_simps)
qed

text \<open>The three shapes of the length field, as the builder writes them.\<close>

definition length_field :: "bool \<Rightarrow> wlen \<Rightarrow> bytes" where
  "length_field m len =
     (if len < 126 then [(if m then 0x80 else 0) OR ucast (len AND 0x7F)]
      else if len \<le> 0xFFFF then [(if m then 0x80 else 0) OR 126, ucast (drop_bit 8 len), ucast len]
      else ((if m then 0x80 else 0) OR 127) # map (\<lambda>i. ucast (drop_bit (8 * i) len)) (rev [0..<8]))"

lemma build_header_eq:
  "ws_frame_build_header fin rsv1 opcode key len =
     (if rsv1 AND NOT 1 \<noteq> 0 \<or> 0x0F < opcode then None
      else Some (((if fin \<noteq> 0 then 0x80 else 0) OR (if rsv1 \<noteq> 0 then 0x40 else 0) OR (opcode AND 0x0F))
             # length_field (key \<noteq> None) len
             @ (case key of None \<Rightarrow> [] | Some k \<Rightarrow> [k ! 0, k ! 1, k ! 2, k ! 3])))"
  by (simp add: ws_frame_build_header_def length_field_def Let_def)

lemma length_length_field:
  "length (length_field m len) = (if len < 126 then 1 else if len \<le> 0xFFFF then 3 else 9)"
  by (simp add: length_field_def)

lemma parse_mask_key_at:
  assumes "length pre = offset" and "fh_mask hdr = (key \<noteq> None)" and "\<forall>k. key = Some k \<longrightarrow> length k = 4"
  shows "parse_mask_key (pre @ (case key of None \<Rightarrow> [] | Some k \<Rightarrow> [k ! 0, k ! 1, k ! 2, k ! 3]) @ rest) offset hdr
      = (int (offset + length (case key of None \<Rightarrow> [] | Some k \<Rightarrow> [k ! 0, k ! 1, k ! 2, k ! 3])),
         hdr\<lparr>fh_mask_key := (case key of None \<Rightarrow> fh_mask_key hdr | Some k \<Rightarrow> k)\<rparr>)"
proof (cases key)
  case None
  then show ?thesis using assms by (simp add: parse_mask_key_def)
next
  case (Some k)
  with assms obtain a b c d where "k = [a, b, c, d]"
    by (auto simp: length_Suc_conv numeral_eq_Suc)
  with Some assms show ?thesis by (simp add: parse_mask_key_def nth_append)
qed

lemma parse_build:
  assumes "ws_frame_build_header fin rsv1 opcode key len = Some h" and "len < 2 ^ 63"
    and key: "\<forall>k. key = Some k \<longrightarrow> length k = 4"
  shows "ws_frame_parse_header (h @ rest) hdr =
    (int (length h), header_of (fin \<noteq> 0) (rsv1 \<noteq> 0) opcode key len hdr)"
proof -
  let ?b0 = "(if fin \<noteq> 0 then 0x80 else 0) OR (if rsv1 \<noteq> 0 then 0x40 else 0) OR (opcode AND 0x0F)"
  let ?k = "case key of None \<Rightarrow> [] | Some k \<Rightarrow> [k ! 0, k ! 1, k ! 2, k ! 3]"
  let ?h1 = "hdr\<lparr>fh_fin := fin \<noteq> 0, fh_rsv1 := rsv1 \<noteq> 0, fh_rsv2 := False, fh_rsv3 := False,
    fh_opcode := opcode, fh_mask := key \<noteq> None, fh_payload_len := len\<rparr>"
  have op: "\<not> 0x0F < opcode" and h: "h = ?b0 # length_field (key \<noteq> None) len @ ?k"
    using assms(1) by (auto simp: build_header_eq split: if_splits)
  note b0 = build_byte0 [OF op, of "fin \<noteq> 0" "rsv1 \<noteq> 0"]
  have mk: "parse_mask_key (?b0 # length_field (key \<noteq> None) len @ ?k @ rest) (Suc (length (length_field (key \<noteq> None) len))) ?h1
      = (int (length h), header_of (fin \<noteq> 0) (rsv1 \<noteq> 0) opcode key len hdr)"
    using parse_mask_key_at [of "?b0 # length_field (key \<noteq> None) len" _ ?h1 key rest] key
    by (cases key) (simp_all add: h header_of_def)
  consider (l7) "len < 126" | (l16) "\<not> len < 126" "len \<le> 0xFFFF" | (l64) "\<not> len < 126" "\<not> len \<le> 0xFFFF"
    by blast
  then show ?thesis
  proof cases
    case l7
    note b1 = build_len7 [OF l7, of "key \<noteq> None"]
    show ?thesis
      using l7 mk b0 b1 by (simp add: h length_field_def ws_frame_parse_header_def byte_test_bits numeral_2_eq_2)
  next
    case l16
    show ?thesis
      using l16 mk b0 build_len_code(1,2) [of "key \<noteq> None"] len16_bytes [OF l16(2)]
      by (simp add: h length_field_def ws_frame_parse_header_def byte_test_bits eval_nat_numeral)
  next
    case l64
    have msb: "(map (\<lambda>i. ucast (drop_bit (8 * i) len)) (rev [0..<8]) @ r) ! 0
        = (ucast (drop_bit 56 len) :: byte)" for r
      by (simp add: upt_rec)
    show ?thesis
      using l64 mk b0 build_len_code(3,4) [of "key \<noteq> None"] len64_msb [OF assms(2)]
        be_read64_bytes [of ?b0 "(if key \<noteq> None then 0x80 else 0) OR 127" len "?k @ rest"]
      by (simp add: h length_field_def ws_frame_parse_header_def byte_test_bits msb Let_def)
  qed
qed

section \<open>What the parser looks at\<close>

text \<open>The parser as one case distinction, for the lemmas on prefixes.\<close>

definition parsed_flags :: "byte \<Rightarrow> byte \<Rightarrow> ws_frame_header \<Rightarrow> ws_frame_header" where
  "parsed_flags b0 b1 hdr =
     hdr\<lparr>fh_fin := b0 AND 0x80 \<noteq> 0, fh_rsv1 := b0 AND 0x40 \<noteq> 0, fh_rsv2 := b0 AND 0x20 \<noteq> 0,
         fh_rsv3 := b0 AND 0x10 \<noteq> 0, fh_opcode := b0 AND 0x0F, fh_mask := b1 AND 0x80 \<noteq> 0\<rparr>"

lemma parse_header_cases:
  "ws_frame_parse_header buf hdr =
     (if length buf < 2 then (0, hdr)
      else let h = parsed_flags (buf ! 0) (buf ! 1) hdr; l = buf ! 1 AND 0x7F in
        if l < 126 then parse_mask_key buf 2 (h\<lparr>fh_payload_len := ucast l\<rparr>)
        else if l = 126 then
          if length buf < 4 then (0, h)
          else parse_mask_key buf 4 (h\<lparr>fh_payload_len := push_bit 8 (ucast (buf ! 2)) OR ucast (buf ! 3)\<rparr>)
        else if length buf < 10 then (0, h)
        else if buf ! 2 AND 0x80 \<noteq> 0 then (-1, h\<lparr>fh_payload_len := be_read64 buf 2\<rparr>)
        else parse_mask_key buf 10 (h\<lparr>fh_payload_len := be_read64 buf 2\<rparr>))"
  by (simp add: ws_frame_parse_header_def parsed_flags_def Let_def)

lemma be_read64_prefix: "10 \<le> length buf \<Longrightarrow> be_read64 (buf @ rest) 2 = be_read64 buf 2"
  by (simp add: be_read64_def nth_append upt_rec)

lemma parse_mask_key_prefix:
  "fst (parse_mask_key buf off h) \<noteq> 0 \<Longrightarrow> off \<le> length buf \<Longrightarrow>
     parse_mask_key (buf @ rest) off h = parse_mask_key buf off h"
  by (auto simp: parse_mask_key_def nth_append split: if_splits)

lemma parse_prefix:
  assumes "fst (ws_frame_parse_header buf hdr) \<noteq> 0"
  shows "ws_frame_parse_header (buf @ rest) hdr = ws_frame_parse_header buf hdr"
proof -
  have two: "\<not> length buf < 2" using assms by (auto simp: ws_frame_parse_header_def)
  then have "buf ! 0 = (buf @ rest) ! 0" "buf ! 1 = (buf @ rest) ! 1"
    by (auto simp: nth_append)
  then show ?thesis
    using assms two unfolding parse_header_cases Let_def
    by (auto simp: parse_mask_key_prefix be_read64_prefix nth_append not_less split: if_splits)
qed

lemma parse_mask_key_bounds:
  "off \<le> length buf \<Longrightarrow> fst (parse_mask_key buf off h) = 0 \<or>
     int off \<le> fst (parse_mask_key buf off h) \<and> fst (parse_mask_key buf off h) \<le> int off + 4 \<and>
     fst (parse_mask_key buf off h) \<le> int (length buf)"
  by (auto simp: parse_mask_key_def)

lemma parse_bounds:
  "fst (ws_frame_parse_header buf hdr) \<in> {-1, 0} \<union> {2..min 14 (int (length buf))}"
  using parse_mask_key_bounds [of 2 buf] parse_mask_key_bounds [of 4 buf] parse_mask_key_bounds [of 10 buf]
  unfolding parse_header_cases Let_def
  by (auto simp: not_less min_def) (fastforce+)?

lemma parse_proper_prefix:
  assumes k: "int k < fst (ws_frame_parse_header buf hdr)"
  shows "fst (ws_frame_parse_header (take k buf) hdr) = 0"
proof (rule ccontr)
  assume nz: "fst (ws_frame_parse_header (take k buf) hdr) \<noteq> 0"
  from parse_prefix [OF nz, of "drop k buf"]
  have "ws_frame_parse_header buf hdr = ws_frame_parse_header (take k buf) hdr" by simp
  with parse_bounds [of "take k buf" hdr] k nz show False by auto
qed

section \<open>Properties\<close>

text \<open>
  C32. Round trip of the frame header: what \<open>ws_frame_build_header\<close> writes (with a 4-byte
  key or none, and a length below \<open>2 ^ 63\<close>) is parsed back, whatever bytes follow, to
  exactly the fields it was given, consuming exactly the bytes it wrote.
\<close>

theorem frame_header_roundtrip:
  assumes "ws_frame_build_header fin rsv1 opcode key len = Some h" and "len < 2 ^ 63"
    and "\<forall>k. key = Some k \<longrightarrow> length k = 4"
  shows "ws_frame_parse_header (h @ rest) hdr =
    (int (length h), header_of (fin \<noteq> 0) (rsv1 \<noteq> 0) opcode key len hdr)"
  using assms by (rule parse_build)

theorem frame_header_roundtrip_witness:
  "\<forall>hdr. ws_frame_parse_header ([0xC1, 0xFE, 0x01, 0x00, 1, 2, 3, 4] @ [7, 8]) hdr =
     (8, header_of True True 1 (Some [1, 2, 3, 4]) 256 hdr)"
  using frame_header_roundtrip [of 1 1 1 "Some [1, 2, 3, 4]" 256 "[0xC1, 0xFE, 0x01, 0x00, 1, 2, 3, 4]" "[7, 8]"]
  by (simp add: ws_frame_build_header_def)

text \<open>
  C33. The parser is incremental: it returns \<open>-1\<close>, \<open>0\<close> or a header size between 2 and
  14 that does not exceed the input; once the result is not 0, more input does not change
  it; and every proper prefix of a complete header gives 0.
\<close>

theorem frame_parse_incremental:
  "fst (ws_frame_parse_header buf hdr) \<in> {-1, 0} \<union> {2..min 14 (int (length buf))}
   \<and> (fst (ws_frame_parse_header buf hdr) \<noteq> 0 \<longrightarrow>
        ws_frame_parse_header (buf @ rest) hdr = ws_frame_parse_header buf hdr)
   \<and> (int k < fst (ws_frame_parse_header buf hdr) \<longrightarrow> fst (ws_frame_parse_header (take k buf) hdr) = 0)"
  using parse_bounds parse_prefix parse_proper_prefix by blast

theorem frame_parse_incremental_witness:
  "\<forall>hdr. fst (ws_frame_parse_header (take 3 [0x81, 0x7E, 0, 200, 5]) hdr) = 0
   \<and> ws_frame_parse_header ([0x81, 0x7E, 0, 200, 5] @ [9]) hdr = ws_frame_parse_header [0x81, 0x7E, 0, 200, 5] hdr"
  using frame_parse_incremental [of "[0x81, 0x7E, 0, 200, 5]" _ "[9]" 3]
  by (simp add: ws_frame_parse_header_def parse_mask_key_def)

text \<open>
  The only header the parser rejects is one with a 64-bit length whose most
  significant bit is set; reserved bits and unknown opcodes are reported in the header and
  left to the caller, although \<^verbatim>\<open>ws_frame.h\<close> lists them as parse errors.
\<close>

theorem frame_parse_reject_iff:
  "fst (ws_frame_parse_header buf hdr) = -1 \<longleftrightarrow>
     10 \<le> length buf \<and> buf ! 1 AND 0x7F = 127 \<and> bit (buf ! 2) 7"
proof -
  have "l < 126 \<or> l = 126 \<or> l = 127" if "unat l < 128" for l :: byte
    using that by (auto simp: word_less_nat_alt word_unat_eq_iff)
  moreover have "unat (buf ! 1 AND 0x7F) < 128"
    unfolding and_masks using unat_take_bit_less [of 7 "take_bit 7 (buf ! 1)"] by simp
  ultimately have l: "buf ! 1 AND 0x7F < 126 \<or> buf ! 1 AND 0x7F = 126 \<or> buf ! 1 AND 0x7F = 127" by blast
  have k: "fst (parse_mask_key buf off h) \<noteq> -1" for off h by (simp add: parse_mask_key_def)
  show ?thesis using l by (auto simp: parse_header_cases Let_def k byte_test_bits)
qed

text \<open>
  The payload mask is its own inverse at every offset, keeps the length, and masking a
  payload in two pieces, the second at the offset where the first ended, is masking it
  whole: streamed unmasking agrees with unmasking the complete frame.
\<close>

theorem mask_laws:
  "ws_frame_apply_mask_offset (ws_frame_apply_mask_offset p k off) k off = p
   \<and> length (ws_frame_apply_mask_offset p k off) = length p
   \<and> ws_frame_apply_mask (p @ q) k = ws_frame_apply_mask p k @ ws_frame_apply_mask_offset q k (of_nat (length p))"
  by (simp add: apply_mask_offset_involutive ws_frame_apply_mask_def apply_mask_offset_append)

end
