(* ===== verification/Ws_Utf8.thy ===== *)
theory Ws_Utf8
  imports Sevent_Prelude
begin

unbundle bit_operations_syntax

text \<open>
  The text checks of \<^verbatim>\<open>src/websockets/ws_conn.c\<close>: \<open>ws_utf8_validate\<close> (the build with
  \<open>SEVENT_WS_UTF8_CHECK\<close>, the default) branch by branch on the rest of the buffer. The
  reference is the encoding of Unicode scalar values of RFC 3629; the lemmas show that the
  validator accepts exactly the concatenations of encoded scalar values.
\<close>

section \<open>The code\<close>

text \<open>\<open>i + k < len && (data[i + k] & 0xC0) == 0x80\<close>, \<open>r\<close> the bytes after position \<open>i\<close>.\<close>

definition is_cont :: "byte \<Rightarrow> bool" where
  "is_cont b \<longleftrightarrow> b AND 0xC0 = 0x80"

definition cont_at :: "nat \<Rightarrow> bytes \<Rightarrow> bool" where
  "cont_at n r \<longleftrightarrow> n \<le> length r \<and> list_all is_cont (take n r)"

function ws_utf8_validate :: "bytes \<Rightarrow> bool" where
  "ws_utf8_validate [] = True"
| "ws_utf8_validate (b # r) =
     (if b \<le> 0x7F then ws_utf8_validate r
      else if 0xC2 \<le> b \<and> b \<le> 0xDF then
        if \<not> cont_at 1 r then False else ws_utf8_validate (drop 1 r)
      else if b = 0xE0 then
        if \<not> cont_at 2 r then False
        else if r ! 0 < 0xA0 then False
        else ws_utf8_validate (drop 2 r)
      else if 0xE1 \<le> b \<and> b \<le> 0xEC then
        if \<not> cont_at 2 r then False else ws_utf8_validate (drop 2 r)
      else if b = 0xED then
        if \<not> cont_at 2 r then False
        else if 0x9F < r ! 0 then False
        else ws_utf8_validate (drop 2 r)
      else if 0xEE \<le> b \<and> b \<le> 0xEF then
        if \<not> cont_at 2 r then False else ws_utf8_validate (drop 2 r)
      else if b = 0xF0 then
        if \<not> cont_at 3 r then False
        else if r ! 0 < 0x90 then False
        else ws_utf8_validate (drop 3 r)
      else if 0xF1 \<le> b \<and> b \<le> 0xF3 then
        if \<not> cont_at 3 r then False else ws_utf8_validate (drop 3 r)
      else if b = 0xF4 then
        if \<not> cont_at 3 r then False
        else if 0x8F < r ! 0 then False
        else ws_utf8_validate (drop 3 r)
      else False)"
  by pat_completeness auto
termination
  by (relation "measure length") auto

declare ws_utf8_validate.simps(2) [simp del]

section \<open>RFC 3629\<close>

definition scalar :: "nat \<Rightarrow> bool" where
  "scalar c \<longleftrightarrow> c < 0xD800 \<or> 0xE000 \<le> c \<and> c \<le> 0x10FFFF"

definition utf8_enc :: "nat \<Rightarrow> bytes" where
  "utf8_enc c =
     (if c < 0x80 then [of_nat c]
      else if c < 0x800 then [of_nat (0xC0 + c div 64), of_nat (0x80 + c mod 64)]
      else if c < 0x10000 then
        [of_nat (0xE0 + c div 4096), of_nat (0x80 + c div 64 mod 64), of_nat (0x80 + c mod 64)]
      else
        [of_nat (0xF0 + c div 262144), of_nat (0x80 + c div 4096 mod 64),
         of_nat (0x80 + c div 64 mod 64), of_nat (0x80 + c mod 64)])"

definition utf8_text :: "bytes \<Rightarrow> bool" where
  "utf8_text bs \<longleftrightarrow> (\<exists>cs. list_all scalar cs \<and> bs = concat (map utf8_enc cs))"

section \<open>The validator is exact\<close>

lemma is_cont_iff: "is_cont b \<longleftrightarrow> 128 \<le> unat b \<and> unat b < 192"
proof -
  have "b AND 0xC0 = push_bit 6 (drop_bit 6 b)"
    by (rule byte_eqI; simp add: bit_simps bit_numeral_rec)
  also have "\<dots> = 0x80 \<longleftrightarrow> drop_bit 6 b = 2"
  proof
    assume "push_bit 6 (drop_bit 6 b) = 0x80"
    then have "bit (push_bit 6 (drop_bit 6 b)) n = bit (0x80 :: byte) n" for n by simp
    from this [of 6] this [of 7] show "drop_bit 6 b = 2"
      by (intro byte_eqI; simp add: bit_simps bit_numeral_rec)
  qed simp
  also have "\<dots> \<longleftrightarrow> unat b div 64 = 2"
    by (simp only: word_unat_eq_iff unsigned_drop_bit_eq) (simp add: drop_bit_eq_div take_bit_eq_mod)
  also have "\<dots> \<longleftrightarrow> 128 \<le> unat b \<and> unat b < 192" by auto
  finally show ?thesis by (simp add: is_cont_def)
qed

lemma unat_of_nat_byte: "n < 256 \<Longrightarrow> unat (of_nat n :: byte) = n"
  by (simp add: unat_of_nat take_bit_nat_eq_self)

lemmas byte_order = word_le_nat_alt word_less_nat_alt word_unat_eq_iff

lemma cont_at_Suc_iff: "cont_at (Suc n) r \<longleftrightarrow> (\<exists>x r'. r = x # r' \<and> is_cont x \<and> cont_at n r')"
  by (cases r) (auto simp: cont_at_def)

lemma cont_at_0 [simp]: "cont_at 0 r" by (simp add: cont_at_def)


text \<open>Well-formed sequences of two, three and four bytes (RFC 3629, section 4).\<close>

definition ok2 :: "nat \<Rightarrow> nat \<Rightarrow> bool" where
  "ok2 p q \<longleftrightarrow> 194 \<le> p \<and> p < 224 \<and> 128 \<le> q \<and> q < 192"

definition ok3 :: "nat \<Rightarrow> nat \<Rightarrow> nat \<Rightarrow> bool" where
  "ok3 p q r \<longleftrightarrow> 224 \<le> p \<and> p < 240 \<and> 128 \<le> q \<and> q < 192 \<and> 128 \<le> r \<and> r < 192
     \<and> (p = 224 \<longrightarrow> 160 \<le> q) \<and> (p = 237 \<longrightarrow> q < 160)"

definition ok4 :: "nat \<Rightarrow> nat \<Rightarrow> nat \<Rightarrow> nat \<Rightarrow> bool" where
  "ok4 p q r t \<longleftrightarrow> 240 \<le> p \<and> p < 245 \<and> 128 \<le> q \<and> q < 192 \<and> 128 \<le> r \<and> r < 192 \<and> 128 \<le> t \<and> t < 192
     \<and> (p = 240 \<longrightarrow> 144 \<le> q) \<and> (p = 244 \<longrightarrow> q < 144)"

lemmas ok_defs = ok2_def ok3_def ok4_def

lemma cont_at_1: "cont_at (Suc 0) r \<longleftrightarrow> (\<exists>x s. r = x # s \<and> 128 \<le> unat x \<and> unat x < 192)"
  by (auto simp: cont_at_Suc_iff is_cont_iff)
lemma cont_at_2: "cont_at 2 r \<longleftrightarrow> (\<exists>x y s. r = x # y # s \<and> 128 \<le> unat x \<and> unat x < 192 \<and> 128 \<le> unat y \<and> unat y < 192)"
  by (auto simp: cont_at_Suc_iff is_cont_iff numeral_2_eq_2)
lemma cont_at_3: "cont_at 3 r \<longleftrightarrow> (\<exists>x y z s. r = x # y # z # s \<and> 128 \<le> unat x \<and> unat x < 192
    \<and> 128 \<le> unat y \<and> unat y < 192 \<and> 128 \<le> unat z \<and> unat z < 192)"
  by (auto simp: cont_at_Suc_iff is_cont_iff numeral_3_eq_3)

lemma validate_Cons:
  "ws_utf8_validate (b # r) \<longleftrightarrow>
     unat b < 128 \<and> ws_utf8_validate r
     \<or> (\<exists>x s. r = x # s \<and> ok2 (unat b) (unat x) \<and> ws_utf8_validate s)
     \<or> (\<exists>x y s. r = x # y # s \<and> ok3 (unat b) (unat x) (unat y) \<and> ws_utf8_validate s)
     \<or> (\<exists>x y z s. r = x # y # z # s \<and> ok4 (unat b) (unat x) (unat y) (unat z) \<and> ws_utf8_validate s)"
proof -
  define n where "n = unat b"
  have n: "(b \<le> 0x7F) = (n < 128)" "(0xC2 \<le> b) = (194 \<le> n)" "(b \<le> 0xDF) = (n < 224)" "(b = 0xE0) = (n = 224)"
    "(0xE1 \<le> b) = (225 \<le> n)" "(b \<le> 0xEC) = (n < 237)" "(b = 0xED) = (n = 237)" "(0xEE \<le> b) = (238 \<le> n)"
    "(b \<le> 0xEF) = (n < 240)" "(b = 0xF0) = (n = 240)" "(0xF1 \<le> b) = (241 \<le> n)" "(b \<le> 0xF3) = (n < 244)"
    "(b = 0xF4) = (n = 244)"
    unfolding n_def byte_order by (auto simp: le_eq_less_or_eq)
  have "(\<forall>y. unat y < 192 \<longrightarrow> 128 \<le> unat y \<longrightarrow> x \<noteq> y) \<longleftrightarrow> \<not> (unat x < 192 \<and> 128 \<le> unat x)" for x :: byte
    by auto
  note cs = cont_at_1 cont_at_2 cont_at_3 this
  consider "n < 128" | "128 \<le> n" "n < 194" | "194 \<le> n" "n < 224" | "n = 224" | "225 \<le> n" "n < 237" | "n = 237"
    | "238 \<le> n" "n < 240" | "n = 240" | "241 \<le> n" "n < 244" | "n = 244" | "245 \<le> n" by linarith
  then show ?thesis
    unfolding ws_utf8_validate.simps(2) n n_def [symmetric] ok_defs One_nat_def
    by cases (auto simp: cs word_less_nat_alt)
qed

lemma split64: "y < 64 \<Longrightarrow> (64 * x + y) div 64 = x" "y < 64 \<Longrightarrow> (64 * x + y) mod 64 = y" for x y :: nat
  by simp_all

lemma div4096: "c div 4096 = c div 64 div 64" and div262144: "c div 262144 = c div 64 div 64 div 64" for c :: nat
  by (simp_all flip: div_mult2_eq)

lemma ok2_iff: "ok2 p q \<longleftrightarrow> (\<exists>c. 128 \<le> c \<and> c < 2048 \<and> p = 192 + c div 64 \<and> q = 128 + c mod 64)"
proof
  assume "ok2 p q"
  then obtain x y where "p = 192 + x" "q = 128 + y" "2 \<le> x" "x < 32" "y < 64"
    by (intro that [of "p - 192" "q - 128"]) (auto simp: ok2_def)
  then show "\<exists>c. 128 \<le> c \<and> c < 2048 \<and> p = 192 + c div 64 \<and> q = 128 + c mod 64"
    by (intro exI [of _ "64 * x + y"]) (simp add: split64)
next
  assume "\<exists>c. 128 \<le> c \<and> c < 2048 \<and> p = 192 + c div 64 \<and> q = 128 + c mod 64"
  then obtain c where c: "128 \<le> c" "c < 2048" "p = 192 + c div 64" "q = 128 + c mod 64" by blast
  then have "c div 64 < 32" "2 \<le> c div 64" by linarith+
  with c show "ok2 p q" by (simp add: ok2_def)
qed

lemma ok3_iff: "ok3 p q r \<longleftrightarrow> (\<exists>c. 2048 \<le> c \<and> c < 65536 \<and> scalar c \<and>
   p = 224 + c div 4096 \<and> q = 128 + c div 64 mod 64 \<and> r = 128 + c mod 64)"
proof
  assume ok: "ok3 p q r"
  then obtain x y z where e: "p = 224 + x" "q = 128 + y" "r = 128 + z" "x < 16" "y < 64" "z < 64"
    by (intro that [of "p - 224" "q - 128" "r - 128"]) (auto simp: ok3_def)
  with ok have "x = 0 \<longrightarrow> 32 \<le> y" "x = 13 \<longrightarrow> y < 32" by (auto simp: ok3_def)
  with e have "scalar (64 * (64 * x + y) + z)" "2048 \<le> 64 * (64 * x + y) + z"
    unfolding scalar_def by (cases "x = 0"; cases "x = 13"; cases "x < 13"; simp; linarith)+
  moreover have "x \<le> 15" "y \<le> 63" "z \<le> 63" using e by simp_all
  then have "64 * (64 * x + y) + z < 65536" by (simp; linarith)
  ultimately show "\<exists>c. 2048 \<le> c \<and> c < 65536 \<and> scalar c \<and> p = 224 + c div 4096 \<and> q = 128 + c div 64 mod 64 \<and> r = 128 + c mod 64"
    using e by (intro exI [of _ "64 * (64 * x + y) + z"]) (simp add: split64 div4096 del: distrib_left_numeral)
next
  assume "\<exists>c. 2048 \<le> c \<and> c < 65536 \<and> scalar c \<and> p = 224 + c div 4096 \<and> q = 128 + c div 64 mod 64 \<and> r = 128 + c mod 64"
  then obtain c where c: "2048 \<le> c" "c < 65536" "scalar c" "p = 224 + c div 64 div 64" "q = 128 + c div 64 mod 64" "r = 128 + c mod 64"
    by (auto simp: div4096)
  define d where "d = c div 64"
  have "32 \<le> d" "d < 1024" using c(1,2) unfolding d_def by linarith+
  moreover have "d < 864 \<or> 896 \<le> d" using c(3) unfolding d_def scalar_def by linarith
  moreover define k m where "k = d div 64" and "m = d mod 64"
  moreover have "d = 64 * k + m" "m < 64" unfolding k_def m_def by simp_all
  ultimately have "d div 64 < 16" "d div 64 = 0 \<longrightarrow> 32 \<le> d mod 64" "d div 64 = 13 \<longrightarrow> d mod 64 < 32"
    unfolding k_def [symmetric] m_def [symmetric] by auto
  with c show "ok3 p q r" by (simp add: ok3_def d_def)
qed

lemma ok4_iff: "ok4 p q r t \<longleftrightarrow> (\<exists>c. 65536 \<le> c \<and> c \<le> 0x10FFFF \<and>
   p = 240 + c div 262144 \<and> q = 128 + c div 4096 mod 64 \<and> r = 128 + c div 64 mod 64 \<and> t = 128 + c mod 64)"
proof
  assume ok: "ok4 p q r t"
  then obtain x y z w where e: "p = 240 + x" "q = 128 + y" "r = 128 + z" "t = 128 + w" "x < 5" "y < 64" "z < 64" "w < 64"
    by (intro that [of "p - 240" "q - 128" "r - 128" "t - 128"]) (auto simp: ok4_def)
  with ok have "x = 0 \<longrightarrow> 16 \<le> y" "x = 4 \<longrightarrow> y < 16" by (auto simp: ok4_def)
  with e have "65536 \<le> 64 * (64 * (64 * x + y) + z) + w" "64 * (64 * (64 * x + y) + z) + w \<le> 0x10FFFF"
    by (cases "x = 0"; cases "x = 4"; simp; linarith)+
  with e show "\<exists>c. 65536 \<le> c \<and> c \<le> 0x10FFFF \<and>
   p = 240 + c div 262144 \<and> q = 128 + c div 4096 mod 64 \<and> r = 128 + c div 64 mod 64 \<and> t = 128 + c mod 64"
    by (intro exI [of _ "64 * (64 * (64 * x + y) + z) + w"]) (simp add: split64 div4096 div262144 del: distrib_left_numeral)
next
  assume "\<exists>c. 65536 \<le> c \<and> c \<le> 0x10FFFF \<and>
   p = 240 + c div 262144 \<and> q = 128 + c div 4096 mod 64 \<and> r = 128 + c div 64 mod 64 \<and> t = 128 + c mod 64"
  then obtain c where c: "65536 \<le> c" "c \<le> 0x10FFFF" "p = 240 + c div 64 div 64 div 64" "q = 128 + c div 64 div 64 mod 64"
    "r = 128 + c div 64 mod 64" "t = 128 + c mod 64"
    by (auto simp: div4096 div262144)
  define d where "d = c div 64 div 64"
  have "16 \<le> d" "d < 272" using c(1-2) unfolding d_def by linarith+
  moreover define k m where "k = d div 64" and "m = d mod 64"
  moreover have "d = 64 * k + m" unfolding k_def m_def by simp
  ultimately have "d div 64 < 5" "d div 64 = 0 \<longrightarrow> 16 \<le> d mod 64" "d div 64 = 4 \<longrightarrow> d mod 64 < 16"
    unfolding k_def [symmetric] m_def [symmetric] by simp_all
  with c show "ok4 p q r t" by (simp add: ok4_def d_def)
qed

lemma byte_nat: "n < 256 \<Longrightarrow> b = of_nat n \<longleftrightarrow> unat (b :: byte) = n"
  by (auto simp: unat_of_nat_byte)

lemma enc_append_iff:
  assumes "scalar c"
  shows "b # r = utf8_enc c @ s \<longleftrightarrow>
     c < 128 \<and> unat b = c \<and> r = s
     \<or> (\<exists>x. 128 \<le> c \<and> c < 2048 \<and> r = x # s \<and> unat b = 192 + c div 64 \<and> unat x = 128 + c mod 64)
     \<or> (\<exists>x y. 2048 \<le> c \<and> c < 65536 \<and> r = x # y # s \<and> unat b = 224 + c div 4096 \<and>
          unat x = 128 + c div 64 mod 64 \<and> unat y = 128 + c mod 64)
     \<or> (\<exists>x y z. 65536 \<le> c \<and> r = x # y # z # s \<and> unat b = 240 + c div 262144 \<and>
          unat x = 128 + c div 4096 mod 64 \<and> unat y = 128 + c div 64 mod 64 \<and> unat z = 128 + c mod 64)"
proof -
  have m: "128 + n mod 64 < 256" for n :: nat by simp
  consider "c < 128" | "128 \<le> c" "c < 2048" | "2048 \<le> c" "c < 65536" | "65536 \<le> c" by linarith
  then show ?thesis
  proof cases
    case 1
    then show ?thesis by (auto simp: utf8_enc_def byte_nat)
  next
    case 2
    then have "192 + c div 64 < 256" by linarith
    with 2 show ?thesis by (auto simp: utf8_enc_def byte_nat m unat_of_nat_byte simp del: of_nat_add)
  next
    case 3
    then have "224 + c div 4096 < 256" by linarith
    with 3 show ?thesis by (auto simp: utf8_enc_def byte_nat m unat_of_nat_byte simp del: of_nat_add)
  next
    case 4
    then have "240 + c div 262144 < 256" using assms unfolding scalar_def by linarith
    with 4 show ?thesis by (auto simp: utf8_enc_def byte_nat m unat_of_nat_byte simp del: of_nat_add)
  qed
qed

lemma validate_Cons_enc:
  "ws_utf8_validate (b # r) \<longleftrightarrow> (\<exists>c s. scalar c \<and> b # r = utf8_enc c @ s \<and> ws_utf8_validate s)"
proof
  assume "ws_utf8_validate (b # r)"
  then consider "unat b < 128" "ws_utf8_validate r"
    | x s where "r = x # s" "ok2 (unat b) (unat x)" "ws_utf8_validate s"
    | x y s where "r = x # y # s" "ok3 (unat b) (unat x) (unat y)" "ws_utf8_validate s"
    | x y z s where "r = x # y # z # s" "ok4 (unat b) (unat x) (unat y) (unat z)" "ws_utf8_validate s"
    unfolding validate_Cons by blast
  then show "\<exists>c s. scalar c \<and> b # r = utf8_enc c @ s \<and> ws_utf8_validate s"
  proof cases
    case 1
    then have "scalar (unat b)" by (simp add: scalar_def)
    with 1 show ?thesis using enc_append_iff [of "unat b" b r r] by blast
  next
    case 2
    then obtain c where c: "128 \<le> c" "c < 2048" "unat b = 192 + c div 64" "unat x = 128 + c mod 64"
      by (auto simp: ok2_iff)
    then have "scalar c" by (simp add: scalar_def)
    with c 2 show ?thesis using enc_append_iff [of c b r s] by blast
  next
    case 3
    then obtain c where "2048 \<le> c" "c < 65536" "scalar c"  "unat b = 224 + c div 4096"
        "unat x = 128 + c div 64 mod 64" "unat y = 128 + c mod 64"
      by (auto simp: ok3_iff)
    with 3 show ?thesis using enc_append_iff [of c b r s] by blast
  next
    case 4
    then obtain c where c: "65536 \<le> c" "c \<le> 0x10FFFF" "unat b = 240 + c div 262144"
        "unat x = 128 + c div 4096 mod 64" "unat y = 128 + c div 64 mod 64" "unat z = 128 + c mod 64"
      by (auto simp: ok4_iff)
    then have "scalar c" by (simp add: scalar_def)
    with c 4 show ?thesis using enc_append_iff [of c b r s] by blast
  qed
next
  assume "\<exists>c s. scalar c \<and> b # r = utf8_enc c @ s \<and> ws_utf8_validate s"
  then obtain c s where c: "scalar c" "b # r = utf8_enc c @ s" "ws_utf8_validate s" by blast
  have "65536 \<le> c \<Longrightarrow> c \<le> 0x10FFFF" using c(1) by (simp add: scalar_def)
  with c enc_append_iff [OF c(1), of b r s] show "ws_utf8_validate (b # r)"
    unfolding validate_Cons ok2_iff ok3_iff ok4_iff by blast
qed

lemma validate_iff_text: "ws_utf8_validate bs \<longleftrightarrow> utf8_text bs"
proof
  show "ws_utf8_validate bs \<Longrightarrow> utf8_text bs"
  proof (induction "length bs" arbitrary: bs rule: less_induct)
    case less
    show ?case
    proof (cases bs)
      case Nil
      then show ?thesis by (auto simp: utf8_text_def intro: exI [of _ "[]"])
    next
      case (Cons b r)
      with less(2) obtain c s where c: "scalar c" "bs = utf8_enc c @ s" "ws_utf8_validate s"
        by (auto simp: validate_Cons_enc)
      moreover have "utf8_enc c \<noteq> []" by (simp add: utf8_enc_def)
      ultimately have "utf8_text s" by (intro less(1)) (simp_all)
      then obtain cs where "list_all scalar cs" "s = concat (map utf8_enc cs)" by (auto simp: utf8_text_def)
      with c show ?thesis by (auto simp: utf8_text_def intro: exI [of _ "c # cs"])
    qed
  qed
  have "list_all scalar cs \<Longrightarrow> ws_utf8_validate (concat (map utf8_enc cs))" for cs
  proof (induction cs)
    case (Cons c cs)
    obtain b r where "utf8_enc c = b # r" by (cases "utf8_enc c") (auto simp: utf8_enc_def split: if_splits)
    with Cons show ?case using validate_Cons_enc [of b "r @ concat (map utf8_enc cs)"] by auto
  qed simp
  then show "utf8_text bs \<Longrightarrow> ws_utf8_validate bs" by (auto simp: utf8_text_def)
qed
section \<open>Properties\<close>

text \<open>
  C36. The validator accepts exactly the byte strings that are concatenations of RFC 3629
  encodings of Unicode scalar values: no overlong form, no surrogate, nothing above
  U+10FFFF, no stray or missing continuation byte.
\<close>

theorem utf8_validate_exact:
  "ws_utf8_validate bs \<longleftrightarrow> (\<exists>cs. list_all scalar cs \<and> bs = concat (map utf8_enc cs))"
  by (simp add: validate_iff_text utf8_text_def)

end
