(* ===== verification/Http_Parse.thy ===== *)
theory Http_Parse
  imports Sevent_Prelude
begin

text \<open>
  \<^verbatim>\<open>src/http_parse.c\<close> and the inline helpers of \<^verbatim>\<open>include/sevent_http_parse.h\<close>: framing
  and lazy parsing of HTTP/1.x messages, and the skeleton builders. A pointer into the
  input with its length is the string it denotes; the body pointer, whose distance to the
  start of the buffer callers use, is an offset. Buffers and results are not NULL (the
  code answers \<open>-1\<close> before anything else otherwise). \<open>size_t\<close> has 64 bits and plain
  \<open>char\<close> is signed. C strings are their characters before the NUL. The lemmas show what
  the header and token searches find, that parsing is incremental, which Content-Length
  headers are accepted, and that a built message is parsed back.
\<close>

section \<open>Data\<close>

datatype sevent_http_method =
    HTTP_METHOD_UNKNOWN | HTTP_METHOD_GET | HTTP_METHOD_HEAD | HTTP_METHOD_POST | HTTP_METHOD_PUT
  | HTTP_METHOD_DELETE | HTTP_METHOD_OPTIONS | HTTP_METHOD_PATCH | HTTP_METHOD_CONNECT | HTTP_METHOD_TRACE

record sevent_http_msg =
  hm_is_response :: bool
  hm_method :: sevent_http_method
  hm_method_ref :: "string option"
  hm_target :: "string option"
  hm_status_code :: nat
  hm_upgrade :: bool
  hm_keep_alive :: bool
  hm_content_length :: nat
  hm_body :: "nat option"
  hm_body_len :: nat
  hm_chunked :: bool
  hm_headers :: "string option"

definition http_msg0 :: sevent_http_msg where
  "http_msg0 = \<lparr>hm_is_response = False, hm_method = HTTP_METHOD_UNKNOWN, hm_method_ref = None,
     hm_target = None, hm_status_code = 0, hm_upgrade = False, hm_keep_alive = False,
     hm_content_length = 0, hm_body = None, hm_body_len = 0, hm_chunked = False, hm_headers = None\<rparr>"

section \<open>Searching\<close>

definition ci_eq :: "string \<Rightarrow> string \<Rightarrow> bool" where
  "ci_eq a b \<longleftrightarrow> length a = length b \<and> list_all2 (\<lambda>x y. ascii_lower x = ascii_lower y) a b"

text \<open>
  One round of the loop looks at the segment up to the next comma; after trimming, the
  scan goes on behind the trimmed segment, so trailing blanks are visited again as a
  segment of their own.
\<close>

function hdr_has_token :: "string \<Rightarrow> string \<Rightarrow> bool" where
  "hdr_has_token val token =
     (if val = [] then False
      else
        let seg = takeWhile (\<lambda>c. c \<noteq> CHR '','') val;
            lead = takeWhile is_ows seg;
            word = rtrim (ltrim seg)
        in if length word = length token \<and> ci_eq word token then True
           else hdr_has_token (drop (Suc (length lead + length word)) val) token)"
  by pat_completeness auto
termination
  by (relation "measure (\<lambda>(val, token). length val)") (auto simp: less_Suc_eq)

declare hdr_has_token.simps [simp del]

function find_header_nth :: "string \<Rightarrow> string \<Rightarrow> int \<Rightarrow> string option" where
  "find_header_nth hdrs name k =
     (if hdrs = [] then None
      else case memchr LF hdrs of
        None \<Rightarrow> None
      | Some eol \<Rightarrow>
          let line = strip_cr (take eol hdrs); rest = drop (Suc eol) hdrs
          in case memchr (CHR '':'') line of
               None \<Rightarrow> find_header_nth rest name k
             | Some colon \<Rightarrow>
                 let v = rtrim (ltrim (drop (Suc colon) line))
                 in if ci_eq (take colon line) name
                    then if k = 0 then Some v else find_header_nth rest name (k - 1)
                    else find_header_nth rest name k)"
  by pat_completeness auto
termination
  by (relation "measure (\<lambda>(hdrs, name, k). length hdrs)") auto

declare find_header_nth.simps [simp del]

definition find_header_in :: "string \<Rightarrow> string \<Rightarrow> string option" where
  "find_header_in hdrs name = find_header_nth hdrs name 0"

section \<open>Parsing\<close>

definition parse_method :: "string \<Rightarrow> sevent_http_method" where
  "parse_method p =
     (if p = ''GET'' then HTTP_METHOD_GET
      else if p = ''HEAD'' then HTTP_METHOD_HEAD
      else if p = ''POST'' then HTTP_METHOD_POST
      else if p = ''PUT'' then HTTP_METHOD_PUT
      else if p = ''DELETE'' then HTTP_METHOD_DELETE
      else if p = ''OPTIONS'' then HTTP_METHOD_OPTIONS
      else if p = ''PATCH'' then HTTP_METHOD_PATCH
      else if p = ''CONNECT'' then HTTP_METHOD_CONNECT
      else if p = ''TRACE'' then HTTP_METHOD_TRACE
      else HTTP_METHOD_UNKNOWN)"

text \<open>The first position of \<open>\r\n\r\n\<close>.\<close>

fun find_crlf2 :: "string \<Rightarrow> nat option" where
  "find_crlf2 (a # b # c # d # r) =
     (if a = CR \<and> b = LF \<and> c = CR \<and> d = LF then Some 0
      else map_option Suc (find_crlf2 (b # c # d # r)))"
| "find_crlf2 _ = None"

definition HTTP_PREFIX :: string where "HTTP_PREFIX = ''HTTP/''"
definition HTTP_VERSION_11 :: string where "HTTP_VERSION_11 = ''HTTP/1.1''"

text \<open>\<open>Inl\<close> is the return of \<open>-1\<close> with what had been written, \<open>Inr\<close> the fall through.\<close>

definition parse_status_line :: "string \<Rightarrow> sevent_http_msg \<Rightarrow> sevent_http_msg + sevent_http_msg" where
  "parse_status_line line out0 =
     (let out = out0\<lparr>hm_is_response := True\<rparr>
      in case memchr SP line of
           None \<Rightarrow> Inl out
         | Some sp1 \<Rightarrow>
             let rest = drop (Suc sp1) line;
                 st = (case memchr SP rest of None \<Rightarrow> rest | Some sp2 \<Rightarrow> take sp2 rest);
                 ver = drop (length HTTP_PREFIX) (take sp1 line)
             in if st = [] \<or> 3 < length st then Inl out
                else if \<not> list_all is_digit st then Inl out
                else Inr (out\<lparr>hm_status_code := dec_value st,
                              hm_keep_alive := length ver = 3 \<and> ver ! 0 = CHR ''1'' \<and> ver ! 1 = CHR ''.''
                                 \<and> 49 \<le> (of_char (ver ! 2) :: nat) \<and> (of_char (ver ! 2) :: nat) < 128\<rparr>))"

definition parse_request_line :: "string \<Rightarrow> sevent_http_msg \<Rightarrow> sevent_http_msg + sevent_http_msg" where
  "parse_request_line line out0 =
     (let out = out0\<lparr>hm_is_response := False\<rparr>
      in case memchr SP line of
           None \<Rightarrow> Inl out
         | Some sp1 \<Rightarrow>
             let rest = drop (Suc sp1) line
             in case memchr SP rest of
                  None \<Rightarrow> Inl out
                | Some sp2 \<Rightarrow>
                    if sp1 = 0 then Inl out
                    else
                      let mth = take sp1 line;
                          out = out\<lparr>hm_method := parse_method mth, hm_method_ref := Some mth\<rparr>
                      in if sp2 = 0 then Inl out
                         else Inr (out\<lparr>hm_target := Some (take sp2 rest),
                                       hm_keep_alive := drop (Suc sp2) rest = HTTP_VERSION_11\<rparr>))"

definition SIZE_MAX :: nat where "SIZE_MAX = 2 ^ 64 - 1"

fun parse_cl_from :: "nat \<Rightarrow> string \<Rightarrow> nat option" where
  "parse_cl_from cl [] = Some cl"
| "parse_cl_from cl (c # cs) =
     (if \<not> is_digit c then None
      else if (SIZE_MAX - digit_val c) div 10 < cl then None
      else parse_cl_from (cl * 10 + digit_val c) cs)"

definition parse_cl :: "string \<Rightarrow> nat option" where
  "parse_cl v = parse_cl_from 0 v"

definition parse_connection :: "string \<Rightarrow> sevent_http_msg \<Rightarrow> sevent_http_msg" where
  "parse_connection hdrs out =
     (let conn = find_header_in hdrs ''connection'';
          conn_upgrade = (case conn of None \<Rightarrow> False | Some v \<Rightarrow> hdr_has_token v ''upgrade'');
          conn_close = (case conn of None \<Rightarrow> False | Some v \<Rightarrow> hdr_has_token v ''close'');
          out = (if conn_close then out\<lparr>hm_keep_alive := False\<rparr> else out)
      in if conn_upgrade \<and> find_header_in hdrs ''upgrade'' \<noteq> None then out\<lparr>hm_upgrade := True\<rparr> else out)"

definition parse_content_length :: "string \<Rightarrow> sevent_http_msg \<Rightarrow> sevent_http_msg + sevent_http_msg" where
  "parse_content_length hdrs out =
     (case find_header_in hdrs ''content-length'' of
        None \<Rightarrow> Inr out
      | Some v \<Rightarrow>
          case parse_cl v of
            None \<Rightarrow> Inl out
          | Some cl \<Rightarrow>
              let out = out\<lparr>hm_content_length := cl\<rparr>
              in case find_header_nth hdrs ''content-length'' 1 of
                   None \<Rightarrow> Inr out
                 | Some v2 \<Rightarrow>
                     case parse_cl v2 of
                       None \<Rightarrow> Inl out
                     | Some cl2 \<Rightarrow> if cl2 \<noteq> cl then Inl out else Inr out)"

definition parse_chunked :: "string \<Rightarrow> sevent_http_msg \<Rightarrow> sevent_http_msg + sevent_http_msg" where
  "parse_chunked hdrs out =
     (case find_header_in hdrs ''transfer-encoding'' of
        None \<Rightarrow> Inr out
      | Some v \<Rightarrow> if hdr_has_token v ''chunked'' then Inl (out\<lparr>hm_chunked := True\<rparr>) else Inr out)"

definition sevent_http_parse :: "string \<Rightarrow> int \<times> sevent_http_msg" where
  "sevent_http_parse buf =
     (case find_crlf2 buf of
        None \<Rightarrow> (0, http_msg0)
      | Some hdr_end \<Rightarrow>
        case memchr LF buf of
          None \<Rightarrow> (0, http_msg0)
        | Some line_end \<Rightarrow>
          let line = strip_cr (take line_end buf)
          in case (if take (length HTTP_PREFIX) line = HTTP_PREFIX then parse_status_line line http_msg0
                   else parse_request_line line http_msg0) of
               Inl out \<Rightarrow> (-1, out)
             | Inr out \<Rightarrow>
               let hdrs = take (hdr_end + 2 - Suc line_end) (drop (Suc line_end) buf);
                   out = parse_connection hdrs (out\<lparr>hm_headers := Some hdrs\<rparr>)
               in case parse_content_length hdrs out of
                    Inl out \<Rightarrow> (-1, out)
                  | Inr out \<Rightarrow>
                    case parse_chunked hdrs out of
                      Inl out \<Rightarrow> (-1, out)
                    | Inr out \<Rightarrow>
                        if length buf - (hdr_end + 4) < hm_content_length out then (0, out)
                        else (1, out\<lparr>hm_body := Some (hdr_end + 4), hm_body_len := hm_content_length out\<rparr>))"

definition sevent_http_find_header :: "sevent_http_msg \<Rightarrow> string \<Rightarrow> string option" where
  "sevent_http_find_header m name =
     (case hm_headers m of None \<Rightarrow> None | Some hdrs \<Rightarrow> find_header_in hdrs name)"

section \<open>Inline helpers\<close>

definition sevent_http_str_eq :: "string \<Rightarrow> string \<Rightarrow> bool" where
  "sevent_http_str_eq p s \<longleftrightarrow> length p = length s \<and> take (length s) p = s"

definition sevent_http_target_split :: "string option \<Rightarrow> string option \<times> string option" where
  "sevent_http_target_split target =
     (case target of
        None \<Rightarrow> (None, None)
      | Some t \<Rightarrow>
          case memchr (CHR ''?'') t of
            None \<Rightarrow> (Some t, None)
          | Some q \<Rightarrow> (Some (take q t), Some (drop (Suc q) t)))"

function query_scan :: "string \<Rightarrow> string \<Rightarrow> string option" where
  "query_scan p name =
     (if p = [] then None
      else
        let q = (case memchr (CHR ''&'') p of None \<Rightarrow> length p | Some q \<Rightarrow> q);
            seg = take q p
        in case memchr (CHR ''='') seg of
             None \<Rightarrow> query_scan (drop (Suc q) p) name
           | Some eq \<Rightarrow> if eq = length name \<and> take eq seg = name then Some (drop (Suc eq) seg)
                        else query_scan (drop (Suc q) p) name)"
  by pat_completeness auto
termination
  by (relation "measure (\<lambda>(p, name). length p)") auto

declare query_scan.simps [simp del]

definition sevent_http_query_get :: "string option \<Rightarrow> string \<Rightarrow> string option" where
  "sevent_http_query_get query name = (case query of None \<Rightarrow> None | Some q \<Rightarrow> query_scan q name)"

section \<open>Building\<close>

text \<open>\<open>append_str\<close>: whether it fitted, and what the buffer holds.\<close>

definition append_str :: "nat \<Rightarrow> string \<Rightarrow> string \<Rightarrow> bool \<times> string" where
  "append_str cap buf s = (if cap \<le> length buf + length s then (False, buf) else (True, buf @ s))"

text \<open>A chain of \<open>append_str\<close> calls that stops at the first failure.\<close>

fun append_all :: "nat \<Rightarrow> string \<Rightarrow> string list \<Rightarrow> bool \<times> string" where
  "append_all cap buf [] = (True, buf)"
| "append_all cap buf (s # ss) =
     (case append_str cap buf s of (ok, buf') \<Rightarrow> if ok then append_all cap buf' ss else (False, buf'))"

definition build_result :: "bool \<times> string \<Rightarrow> int \<times> string" where
  "build_result r = (if fst r then int (length (snd r)) else -1, snd r)"

text \<open>The return value and the characters in the buffer (before the NUL).\<close>

definition sevent_http_build_request ::
  "nat \<Rightarrow> string \<Rightarrow> string \<Rightarrow> string \<Rightarrow> 16 word \<Rightarrow> string option \<Rightarrow> int \<times> string" where
  "sevent_http_build_request cap mth target host port extra =
     (case append_all cap [] [mth, '' '', target, '' HTTP/1.1'' @ CRLF @ ''Host: '', host] of
        (ok, buf) \<Rightarrow>
          if \<not> ok then (-1, buf)
          else
            let port_buf = '':'' @ dec (unat port) @ CRLF
            in if 16 \<le> length port_buf then (-1, buf)
               else build_result (append_all cap buf
                      (port_buf # (case extra of None \<Rightarrow> [] | Some e \<Rightarrow> [e]) @ [CRLF])))"

text \<open>\<open>%s\<close>; a NULL argument prints as the C library's \<open>(null)\<close>.\<close>

definition pr_str :: "string option \<Rightarrow> string" where
  "pr_str s = (case s of None \<Rightarrow> ''(null)'' | Some t \<Rightarrow> t)"

definition sevent_http_build_response ::
  "nat \<Rightarrow> int \<Rightarrow> string option \<Rightarrow> string option \<Rightarrow> int \<times> string" where
  "sevent_http_build_response cap status text extra =
     (let head = ''HTTP/1.1 '' @ dec_int status @ '' '' @ pr_str text @ CRLF
      in if 64 \<le> length head then (-1, [])
         else build_result (append_all cap [] (head # (case extra of None \<Rightarrow> [] | Some e \<Rightarrow> [e]) @ [CRLF])))"

section \<open>Lists of tokens\<close>

fun split_on :: "char \<Rightarrow> string \<Rightarrow> string list" where
  "split_on c [] = [[]]"
| "split_on c (x # xs) =
     (if x = c then [] # split_on c xs
      else case split_on c xs of [] \<Rightarrow> [[x]] | y # ys \<Rightarrow> (x # y) # ys)"

lemma split_on_Cons: "c \<notin> set a \<Longrightarrow> split_on c (a @ c # b) = a # split_on c b"
  by (induction a) auto

lemma split_on_single: "c \<notin> set a \<Longrightarrow> split_on c a = [a]"
  by (induction a) auto

lemma split_first:
  obtains seg s where "val = seg @ s" "c \<notin> set seg" "s = [] \<or> (\<exists>r. s = c # r)"
proof (cases "c \<in> set val")
  case True
  then obtain ys zs where "val = ys @ c # zs" "c \<notin> set ys" by (meson split_list_first)
  with that show ?thesis by blast
next
  case False
  with that [of val "[]"] show ?thesis by simp
qed

lemma not_ows [simp]: "\<not> is_ows (CHR '','')" "\<not> is_ows (CHR '';'')"
  by (simp_all add: is_ows_def SP_def TAB_def)

lemma comma_not_ows: "list_all is_ows w \<Longrightarrow> CHR '','' \<notin> set w"
  unfolding list_all_iff using not_ows(1) by blast

lemma trim_split:
  obtains w where "seg = takeWhile is_ows seg @ rtrim (ltrim seg) @ w" "list_all is_ows w"
proof -
  obtain w where w: "ltrim seg = rtrim (ltrim seg) @ w" "list_all is_ows w" by (rule rtrim_split)
  have "seg = takeWhile is_ows seg @ ltrim seg" by (rule ltrim_split)
  also have "ltrim seg = rtrim (ltrim seg) @ w" by (rule w(1))
  finally have "seg = takeWhile is_ows seg @ rtrim (ltrim seg) @ w" .
  with w(2) that show ?thesis by blast
qed

lemma ci_eq_Nil [simp]: "ci_eq [] t \<longleftrightarrow> t = []" by (auto simp: ci_eq_def)

lemma takeWhile_seg:
  "c \<notin> set seg \<Longrightarrow> s = [] \<or> (\<exists>r. s = c # r) \<Longrightarrow> takeWhile (\<lambda>x. x \<noteq> c) (seg @ s) = seg"
  by (induction seg) auto

lemma hdr_has_token_step:
  assumes "CHR '','' \<notin> set seg" "s = [] \<or> (\<exists>r. s = CHR '','' # r)" "seg @ s \<noteq> []"
  obtains w where "list_all is_ows w" "length w \<le> length seg"
    "hdr_has_token (seg @ s) token \<longleftrightarrow> ci_eq (rtrim (ltrim seg)) token \<or> hdr_has_token (drop 1 (w @ s)) token"
proof -
  have tw: "takeWhile (\<lambda>c. c \<noteq> CHR '','') (seg @ s) = seg"
    by (rule takeWhile_seg [OF assms(1,2)])
  define a b where "a = takeWhile is_ows seg" and "b = rtrim (ltrim seg)"
  obtain w where w: "seg = a @ b @ w" "list_all is_ows w"
    using trim_split [of seg] unfolding a_def [symmetric] b_def [symmetric] by blast
  then have "drop (Suc (length a + length b)) (seg @ s) = drop 1 (w @ s)" by simp
  then have "hdr_has_token (seg @ s) token \<longleftrightarrow> ci_eq b token \<or> hdr_has_token (drop 1 (w @ s)) token"
    using assms(3) unfolding a_def b_def by (subst hdr_has_token.simps) (auto simp: Let_def tw ci_eq_def)
  moreover have "length w \<le> length seg" using w(1) by simp
  ultimately show ?thesis using w(2) that unfolding b_def by blast
qed

lemma hdr_has_token_iff:
  assumes "token \<noteq> []"
  shows "hdr_has_token val token \<longleftrightarrow> (\<exists>seg \<in> set (split_on (CHR '','') val). ci_eq (rtrim (ltrim seg)) token)"
proof (induction "length val" arbitrary: val rule: less_induct)
  case less
  let ?P = "\<lambda>seg. ci_eq (rtrim (ltrim seg)) token"
  have P0: "list_all is_ows u \<Longrightarrow> \<not> ?P u" for u using assms by (simp add: trim_ows)
  obtain seg s where v: "val = seg @ s" "CHR '','' \<notin> set seg" "s = [] \<or> (\<exists>r. s = CHR '','' # r)"
    by (rule split_first)
  show ?case
  proof (cases "val = []")
    case True
    then show ?thesis using P0 [of "[]"] by (simp add: hdr_has_token.simps [of "[]"])
  next
    case False
    obtain w where w: "list_all is_ows w" "length w \<le> length seg"
      "hdr_has_token val token \<longleftrightarrow> ?P seg \<or> hdr_has_token (drop 1 (w @ s)) token"
      using hdr_has_token_step [of seg s token] v False by metis
    have W: "list_all is_ows (drop 1 w)" using w(1) by (auto simp: list_all_iff dest: in_set_dropD)
    have "0 < length val" using False by simp
    moreover have "length (w @ s) \<le> length val" using w(2) v(1) by simp
    ultimately have "length (drop 1 (w @ s)) < length val" unfolding length_drop by linarith
    then have IH: "hdr_has_token (drop 1 (w @ s)) token \<longleftrightarrow> (\<exists>seg \<in> set (split_on (CHR '','') (drop 1 (w @ s))). ?P seg)"
      by (rule less)
    from v(3) show ?thesis
    proof
      assume "s = []"
      then show ?thesis using w(3) IH P0 [OF W] v by (simp add: split_on_single comma_not_ows [OF W, simplified])
    next
      assume "\<exists>r. s = CHR '','' # r"
      then obtain r where r: "s = CHR '','' # r" by blast
      have "drop 1 (w @ s) = r \<or> drop 1 (w @ s) = drop 1 w @ CHR '','' # r" by (cases w) (simp_all add: r)
      then have "(\<exists>seg \<in> set (split_on (CHR '','') (drop 1 (w @ s))). ?P seg)
          \<longleftrightarrow> (\<exists>seg \<in> set (split_on (CHR '','') r). ?P seg)"
        using split_on_Cons [OF comma_not_ows [OF W], of r] P0 [OF W] by auto
      then show ?thesis using w(3) IH v by (simp add: r split_on_Cons)
    qed
  qed
qed
section \<open>Header fields\<close>

text \<open>The fields of a header block: one per line with a colon.\<close>

definition field_of :: "string \<Rightarrow> (string \<times> string) list" where
  "field_of line = (case memchr (CHR '':'') line of
     None \<Rightarrow> [] | Some c \<Rightarrow> [(take c line, rtrim (ltrim (drop (Suc c) line)))])"

function header_fields :: "string \<Rightarrow> (string \<times> string) list" where
  "header_fields hdrs = (case memchr LF hdrs of
     None \<Rightarrow> []
   | Some eol \<Rightarrow> field_of (strip_cr (take eol hdrs)) @ header_fields (drop (Suc eol) hdrs))"
  by pat_completeness auto
termination
  by (relation "measure length") (auto dest: memchr_SomeD)

declare header_fields.simps [simp del]

definition field_values :: "string \<Rightarrow> (string \<times> string) list \<Rightarrow> string list" where
  "field_values name fs = map snd (filter (\<lambda>f. ci_eq (fst f) name) fs)"

definition nth_opt :: "'a list \<Rightarrow> nat \<Rightarrow> 'a option" where
  "nth_opt xs n = (if n < length xs then Some (xs ! n) else None)"

lemma nth_opt_simps [simp]:
  "nth_opt [] n = None" "nth_opt (x # xs) 0 = Some x" "nth_opt (x # xs) (Suc n) = nth_opt xs n"
  by (simp_all add: nth_opt_def)

lemma find_header_nth_spec:
  "find_header_nth hdrs name (int n) = nth_opt (field_values name (header_fields hdrs)) n"
proof (induction hdrs name "int n" arbitrary: n rule: find_header_nth.induct)
  case (1 hdrs name n)
  show ?case
  proof (cases "memchr LF hdrs")
    case None
    then show ?thesis
      by (simp add: find_header_nth.simps [of hdrs] header_fields.simps [of hdrs] field_values_def)
  next
    case (Some eol)
    then have ne: "hdrs \<noteq> []" by auto
    note IH = 1 [OF ne Some refl refl]
    show ?thesis
    proof (cases "memchr (CHR '':'') (strip_cr (take eol hdrs))")
      case None
      with Some ne IH(1) [OF None refl] show ?thesis
        by (simp add: find_header_nth.simps [of hdrs] header_fields.simps [of hdrs] field_values_def field_of_def Let_def)
    next
      case colon: (Some c)
      note IH' = IH(2,3) [OF colon refl]
      show ?thesis
      proof (cases "ci_eq (take c (strip_cr (take eol hdrs))) name")
        case False
        with Some ne colon IH'(2) show ?thesis
          by (simp add: find_header_nth.simps [of hdrs] header_fields.simps [of hdrs] field_values_def field_of_def Let_def)
      next
        case True
        show ?thesis
        proof (cases n)
          case 0
          with Some ne colon True show ?thesis
            by (simp add: find_header_nth.simps [of hdrs] header_fields.simps [of hdrs] field_values_def field_of_def Let_def)
        next
          case (Suc m)
          have "find_header_nth (drop (Suc eol) hdrs) name (int m) = nth_opt (field_values name (header_fields (drop (Suc eol) hdrs))) m"
            using IH'(1) [of m] True Suc by simp
          with Some ne colon True show ?thesis
            unfolding Suc by (simp add: find_header_nth.simps [of hdrs] header_fields.simps [of hdrs] field_values_def field_of_def Let_def)
        qed
      qed
    qed
  qed
qed

lemma find_header_in_spec: "find_header_in hdrs name = nth_opt (field_values name (header_fields hdrs)) 0"
  using find_header_nth_spec [of hdrs name 0] by (simp add: find_header_in_def)

lemma find_header_second: "find_header_nth hdrs name 1 = nth_opt (field_values name (header_fields hdrs)) 1"
  using find_header_nth_spec [of hdrs name 1] by simp

section \<open>Content-Length\<close>

lemma parse_cl_from_iff:
  "cl \<le> SIZE_MAX \<Longrightarrow> parse_cl_from cl v = Some n \<longleftrightarrow>
     list_all is_digit v \<and> n = foldl (\<lambda>acc c. acc * 10 + digit_val c) cl v \<and> n \<le> SIZE_MAX"
proof (induction v arbitrary: cl)
  case (Cons c v)
  have mono: "cl' \<le> foldl (\<lambda>acc c. acc * 10 + digit_val c) cl' v" for cl'
  proof (induction v arbitrary: cl')
    case (Cons d v)
    have "cl' \<le> cl' * 10 + digit_val d" by simp
    also have "\<dots> \<le> foldl (\<lambda>acc c. acc * 10 + digit_val c) (cl' * 10 + digit_val d) v" by (rule Cons)
    finally show ?case by simp
  qed simp
  have d: "is_digit c \<Longrightarrow> digit_val c \<le> 9" by (auto simp: is_digit_def digit_val_def Let_def)
  have le: "is_digit c \<Longrightarrow> (SIZE_MAX - digit_val c) div 10 < cl \<longleftrightarrow> \<not> cl * 10 + digit_val c \<le> SIZE_MAX"
  proof -
    assume "is_digit c"
    then have "digit_val c \<le> SIZE_MAX" using d by (simp add: SIZE_MAX_def)
    then show ?thesis by (auto simp: div_less_iff_less_mult not_le)
  qed
  show ?case
  proof (cases "is_digit c \<and> cl * 10 + digit_val c \<le> SIZE_MAX")
    case True
    then show ?thesis using Cons.IH le by simp
  next
    case False
    then show ?thesis using le mono [of "cl * 10 + digit_val c"] by auto
  qed
qed auto

lemma parse_cl_iff: "parse_cl v = Some n \<longleftrightarrow> list_all is_digit v \<and> n = dec_value v \<and> n \<le> SIZE_MAX"
  by (simp add: parse_cl_def parse_cl_from_iff dec_value_def)

section \<open>Framing\<close>

lemma find_crlf2_bound: "find_crlf2 s = Some i \<Longrightarrow> i + 4 \<le> length s \<and> s ! (i + 1) = LF"
  by (induction s arbitrary: i rule: find_crlf2.induct) (auto split: if_splits)

lemma find_crlf2_append: "find_crlf2 s = Some i \<Longrightarrow> find_crlf2 (s @ t) = Some i"
  by (induction s arbitrary: i rule: find_crlf2.induct) (auto split: if_splits)

lemma find_crlf2_take: "find_crlf2 s = Some i \<Longrightarrow> i + 4 \<le> n \<Longrightarrow> find_crlf2 (take n s) = Some i"
proof (induction s arbitrary: i n rule: find_crlf2.induct)
  case (1 a b c d r)
  define m where "m = n - 4"
  have m: "n = Suc (Suc (Suc (Suc m)))" using 1(3) by (simp add: m_def)
  show ?case
  proof (cases "a = CR \<and> b = LF \<and> c = CR \<and> d = LF")
    case True
    with 1 m show ?thesis by auto
  next
    case False
    with 1(2) obtain j where j: "find_crlf2 (b # c # d # r) = Some j" "i = Suc j" by auto
    with 1(1) [OF False j(1), of "n - 1"] 1(3) m False show ?thesis by simp
  qed
qed auto

lemma memchr_le: "s ! k = c \<Longrightarrow> k < length s \<Longrightarrow> \<exists>i \<le> k. memchr c s = Some i"
proof (induction s arbitrary: k)
  case (Cons x s)
  then show ?case by (cases k) fastforce+
qed simp

lemma memchr_take: "memchr c s = Some i \<Longrightarrow> i < n \<Longrightarrow> memchr c (take n s) = Some i"
proof (induction s arbitrary: i n)
  case (Cons x s)
  then show ?case by (cases n) (auto split: if_splits)
qed simp
text \<open>The parser as a function of the first line and the header block, then of the body.\<close>

definition http_head :: "string \<Rightarrow> string \<Rightarrow> sevent_http_msg + sevent_http_msg" where
  "http_head line hdrs =
     (case (if take (length HTTP_PREFIX) line = HTTP_PREFIX then parse_status_line line http_msg0
            else parse_request_line line http_msg0) of
        Inl out \<Rightarrow> Inl out
      | Inr out \<Rightarrow>
          case parse_content_length hdrs (parse_connection hdrs (out\<lparr>hm_headers := Some hdrs\<rparr>)) of
            Inl out \<Rightarrow> Inl out
          | Inr out \<Rightarrow> parse_chunked hdrs out)"

definition http_body :: "nat \<Rightarrow> nat \<Rightarrow> sevent_http_msg + sevent_http_msg \<Rightarrow> int \<times> sevent_http_msg" where
  "http_body len he r =
     (case r of
        Inl out \<Rightarrow> (-1, out)
      | Inr out \<Rightarrow>
          if len - (he + 4) < hm_content_length out then (0, out)
          else (1, out\<lparr>hm_body := Some (he + 4), hm_body_len := hm_content_length out\<rparr>))"

lemma parse_by_parts:
  "find_crlf2 buf = Some he \<Longrightarrow> memchr LF buf = Some le \<Longrightarrow>
     sevent_http_parse buf = http_body (length buf) he
       (http_head (strip_cr (take le buf)) (take (he + 2 - Suc le) (drop (Suc le) buf)))"
  by (simp add: sevent_http_parse_def http_head_def http_body_def Let_def split: sum.split)

lemma crlf2_line:
  assumes "find_crlf2 buf = Some he"
  obtains le where "memchr LF buf = Some le" "le \<le> he + 1" "he + 4 \<le> length buf"
  using find_crlf2_bound [OF assms] memchr_le [of buf "he + 1" LF] by fastforce

lemma parse_zero_cases: "find_crlf2 buf = None \<Longrightarrow> sevent_http_parse buf = (0, http_msg0)"
  by (simp add: sevent_http_parse_def)

lemma http_parse_stable:
  assumes "fst (sevent_http_parse buf) \<noteq> 0"
  shows "sevent_http_parse (buf @ rest) = sevent_http_parse buf"
proof -
  obtain he where he: "find_crlf2 buf = Some he"
    using assms parse_zero_cases by (cases "find_crlf2 buf") auto
  obtain le where le: "memchr LF buf = Some le" "le \<le> he + 1" "he + 4 \<le> length buf"
    using crlf2_line [OF he] by blast
  have "take le (buf @ rest) = take le buf"
    "take (he + 2 - Suc le) (drop (Suc le) (buf @ rest)) = take (he + 2 - Suc le) (drop (Suc le) buf)"
    using le(2,3) by simp_all
  then have "sevent_http_parse (buf @ rest) = http_body (length buf + length rest) he
       (http_head (strip_cr (take le buf)) (take (he + 2 - Suc le) (drop (Suc le) buf)))"
    using parse_by_parts [OF find_crlf2_append [OF he] memchr_append_Some [OF le(1)], of rest]
    by (simp only: length_append)
  with assms show ?thesis
    unfolding parse_by_parts [OF he le(1)] http_body_def by (auto split: sum.splits if_splits)
qed

lemma http_parse_complete:
  assumes "fst (sevent_http_parse buf) = 1"
  obtains off where "hm_body (snd (sevent_http_parse buf)) = Some off"
    "4 \<le> off" "off + hm_body_len (snd (sevent_http_parse buf)) \<le> length buf"
    "sevent_http_parse (take (off + hm_body_len (snd (sevent_http_parse buf))) buf) = sevent_http_parse buf"
    "hm_body_len (snd (sevent_http_parse buf)) = hm_content_length (snd (sevent_http_parse buf))"
proof -
  obtain he where he: "find_crlf2 buf = Some he"
    using assms parse_zero_cases by (cases "find_crlf2 buf") auto
  obtain le where le: "memchr LF buf = Some le" "le \<le> he + 1" "he + 4 \<le> length buf"
    using crlf2_line [OF he] by blast
  let ?h = "http_head (strip_cr (take le buf)) (take (he + 2 - Suc le) (drop (Suc le) buf))"
  note eq = parse_by_parts [OF he le(1)]
  obtain out where out: "?h = Inr out" using assms eq by (auto simp: http_body_def split: sum.splits)
  then have cl: "hm_content_length out \<le> length buf - (he + 4)"
    and res: "sevent_http_parse buf = (1, out\<lparr>hm_body := Some (he + 4), hm_body_len := hm_content_length out\<rparr>)"
    using assms eq by (auto simp: http_body_def split: if_splits)
  let ?n = "he + 4 + hm_content_length out"
  have n: "?n \<le> length buf" using cl le(3) by simp
  have "take le (take ?n buf) = take le buf"
    "take (he + 2 - Suc le) (drop (Suc le) (take ?n buf)) = take (he + 2 - Suc le) (drop (Suc le) buf)"
    using le(2) by (simp_all add: drop_take min_def)
  then have "sevent_http_parse (take ?n buf) = http_body ?n he ?h"
    using parse_by_parts [OF find_crlf2_take [OF he, of ?n] memchr_take [OF le(1), of ?n]] n le(2)
    by (simp add: min_def)
  then have "sevent_http_parse (take ?n buf) = sevent_http_parse buf"
    unfolding res http_body_def out by simp
  then show ?thesis using that [of "he + 4"] res n by simp
qed

lemma http_parse_prefix_zero:
  assumes "fst (sevent_http_parse buf) = 1" "hm_body (snd (sevent_http_parse buf)) = Some off"
    "k < off + hm_body_len (snd (sevent_http_parse buf))"
  shows "fst (sevent_http_parse (take k buf)) = 0"
proof (rule ccontr)
  assume nz: "fst (sevent_http_parse (take k buf)) \<noteq> 0"
  from http_parse_stable [OF nz, of "drop k buf"]
  have eq: "sevent_http_parse (take k buf) = sevent_http_parse buf" by simp
  from http_parse_complete [of "take k buf"] assms eq show False by auto
qed

section \<open>Messages on the wire\<close>

definition clean :: "string \<Rightarrow> bool" where
  "clean l \<longleftrightarrow> CR \<notin> set l \<and> LF \<notin> set l"

definition wire_lines :: "string list \<Rightarrow> string" where
  "wire_lines ls = concat (map (\<lambda>l. l @ CRLF) ls)"

definition wire_head :: "string \<Rightarrow> string list \<Rightarrow> string" where
  "wire_head line ls = line @ CRLF @ wire_lines ls @ CRLF"

lemma CR_LF [simp]: "CR \<noteq> LF" "LF \<noteq> CR" by (simp_all add: CR_def LF_def)

lemma wire_lines_simps [simp]:
  "wire_lines [] = []" "wire_lines (l # ls) = l @ CRLF @ wire_lines ls"
  "wire_lines (ls @ ms) = wire_lines ls @ wire_lines ms"
  by (simp_all add: wire_lines_def)

lemma crlf2_Cons: "x \<noteq> CR \<Longrightarrow> find_crlf2 (x # s) = map_option Suc (find_crlf2 s)"
proof (cases s rule: find_crlf2.cases)
  case (1 a b c d r)
  then show "x \<noteq> CR \<Longrightarrow> ?thesis" by (simp del: find_crlf2.simps(1)) (simp)
qed auto

lemma crlf2_skip: "CR \<notin> set l \<Longrightarrow> find_crlf2 (l @ s) = map_option ((+) (length l)) (find_crlf2 s)"
proof (induction l)
  case Nil
  show ?case by (cases "find_crlf2 s") simp_all
next
  case (Cons x l)
  then have "x \<noteq> CR" by auto
  with Cons show ?case by (cases "find_crlf2 s") (simp_all add: crlf2_Cons)
qed

lemma crlf2_next: "y \<noteq> CR \<Longrightarrow> find_crlf2 (CR # LF # y # s) = map_option (\<lambda>i. i + 2) (find_crlf2 (y # s))"
proof -
  assume y: "y \<noteq> CR"
  have "find_crlf2 (CR # LF # y # s) = map_option Suc (find_crlf2 (LF # y # s))"
    using y by (cases s) simp_all
  then show ?thesis using y by (simp add: crlf2_Cons option.map_comp comp_def)
qed

lemma crlf2_wire:
  assumes "CR \<notin> set line" "\<forall>l\<in>set ls. clean l \<and> l \<noteq> []"
  shows "find_crlf2 (line @ CRLF @ wire_lines ls @ CRLF @ body) = Some (length line + length (wire_lines ls))"
  using assms
proof (induction ls arbitrary: line)
  case Nil
  then show ?case by (simp add: crlf2_skip CRLF_def)
next
  case (Cons l ls)
  then obtain y l' where l: "l = y # l'" by (cases l) auto
  then have "y \<noteq> CR" "CR \<notin> set l" using Cons(3) by (auto simp: clean_def)
  have "find_crlf2 (CRLF @ (l @ CRLF @ wire_lines ls @ CRLF @ body))
      = map_option (\<lambda>i. i + 2) (find_crlf2 (l @ CRLF @ wire_lines ls @ CRLF @ body))"
    unfolding l using crlf2_next [OF \<open>y \<noteq> CR\<close>] by (simp add: CRLF_def)
  also have "find_crlf2 (l @ CRLF @ wire_lines ls @ CRLF @ body) = Some (length l + length (wire_lines ls))"
    using Cons \<open>CR \<notin> set l\<close> by simp
  finally show ?case using Cons(2) by (simp add: crlf2_skip CRLF_def)
qed

lemma header_fields_wire:
  "\<forall>l\<in>set ls. clean l \<Longrightarrow> header_fields (wire_lines ls) = concat (map field_of ls)"
proof (induction ls)
  case Nil
  show ?case by (simp add: header_fields.simps)
next
  case (Cons l ls)
  then have "LF \<notin> set (l @ [CR])" by (auto simp: clean_def)
  then have m: "memchr LF ((l @ [CR]) @ LF # wire_lines ls) = Some (Suc (length l))"
    using memchr_hit [of LF "l @ [CR]" "wire_lines ls"] by simp
  have e: "wire_lines (l # ls) = (l @ [CR]) @ LF # wire_lines ls" by (simp add: CRLF_def)
  show ?case unfolding e using Cons m by (subst header_fields.simps) simp
qed

lemma parse_wire:
  assumes "clean line" "\<forall>l\<in>set ls. clean l \<and> l \<noteq> []"
  shows "sevent_http_parse (wire_head line ls @ body) =
    http_body (length (wire_head line ls @ body)) (length line + length (wire_lines ls))
      (http_head line (wire_lines ls))"
proof -
  let ?buf = "wire_head line ls @ body"
  have c: "find_crlf2 ?buf = Some (length line + length (wire_lines ls))"
    using crlf2_wire [of line ls body] assms by (simp add: wire_head_def clean_def)
  have e: "?buf = (line @ [CR]) @ LF # wire_lines ls @ CRLF @ body" by (simp add: wire_head_def CRLF_def)
  have "LF \<notin> set (line @ [CR])" using assms(1) by (auto simp: clean_def)
  then have m: "memchr LF ?buf = Some (length (line @ [CR]))" unfolding e by (rule memchr_hit)
  have "strip_cr (take (length (line @ [CR])) ?buf) = line" unfolding e by (simp del: append_assoc)
  moreover have "take (length line + length (wire_lines ls) + 2 - Suc (length (line @ [CR])))
      (drop (Suc (length (line @ [CR]))) ?buf) = wire_lines ls"
    unfolding e by simp
  ultimately show ?thesis using parse_by_parts [OF c m] by simp
qed
section \<open>Built messages\<close>

lemma append_all_ok:
  "fst (append_all cap buf ss) \<longleftrightarrow> ss = [] \<or> length buf + length (concat ss) < cap"
  "fst (append_all cap buf ss) \<Longrightarrow> snd (append_all cap buf ss) = buf @ concat ss"
  by (induction ss arbitrary: buf) (auto simp: append_str_def)

lemma length_dec_port: "length (dec (unat (port :: 16 word))) \<le> 5"
proof -
  have b: "n < 10 ^ k \<Longrightarrow> 0 < k \<Longrightarrow> length (dec n) \<le> k" for n k
  proof (induction k arbitrary: n)
    case (Suc k)
    show ?case
    proof (cases "n < 10")
      case True
      then show ?thesis by (simp add: dec.simps)
    next
      case False
      then have "0 < k" using Suc(2) by (cases k) auto
      moreover have "n div 10 < 10 ^ k" using Suc(2) by (simp add: less_mult_imp_div_less)
      ultimately show ?thesis using Suc(1) False by (simp add: dec.simps [of n])
    qed
  qed simp
  have "unat port < 65536" using unsigned_less [of port] by simp
  then show ?thesis by (intro b) simp_all
qed

definition request_line :: "string \<Rightarrow> string \<Rightarrow> string" where
  "request_line mth target = mth @ SP # target @ SP # HTTP_VERSION_11"

definition host_line :: "string \<Rightarrow> 16 word \<Rightarrow> string" where
  "host_line host port = ''Host: '' @ host @ '':'' @ dec (unat port)"

lemma build_request_iff:
  "sevent_http_build_request cap mth target host port (Some (wire_lines ls)) = (n, text) \<Longrightarrow> 0 \<le> n \<Longrightarrow>
     text = wire_head (request_line mth target) (host_line host port # ls) \<and> n = int (length text) \<and> n < int cap"
  using length_dec_port [of port]
    append_all_ok [of cap "[]" "[mth, '' '', target, '' HTTP/1.1'' @ CRLF @ ''Host: '', host]"]
    append_all_ok [of cap "mth @ '' '' @ target @ '' HTTP/1.1'' @ CRLF @ ''Host: '' @ host"
      "['':'' @ dec (unat port) @ CRLF, wire_lines ls, CRLF]"]
  by (auto simp: sevent_http_build_request_def build_result_def Let_def wire_head_def request_line_def
      host_line_def HTTP_VERSION_11_def CRLF_def SP_def split: prod.splits if_splits)

lemma build_request_fits:
  "length (wire_head (request_line mth target) (host_line host port # ls)) < cap \<Longrightarrow>
     sevent_http_build_request cap mth target host port (Some (wire_lines ls)) =
       (int (length (wire_head (request_line mth target) (host_line host port # ls))),
        wire_head (request_line mth target) (host_line host port # ls))"
  using length_dec_port [of port]
  by (auto simp: sevent_http_build_request_def build_result_def Let_def wire_head_def request_line_def append_str_def
      host_line_def HTTP_VERSION_11_def CRLF_def SP_def)

definition status_line :: "int \<Rightarrow> string \<Rightarrow> string" where
  "status_line status text = HTTP_VERSION_11 @ SP # dec_int status @ SP # text"

lemma build_response_eq:
  "length (status_line status text) < 62 \<Longrightarrow> length (wire_head (status_line status text) ls) < cap \<Longrightarrow>
     sevent_http_build_response cap status (Some text) (Some (wire_lines ls)) =
       (int (length (wire_head (status_line status text) ls)), wire_head (status_line status text) ls)"
  by (auto simp: sevent_http_build_response_def build_result_def Let_def wire_head_def status_line_def append_str_def
      pr_str_def HTTP_VERSION_11_def CRLF_def SP_def)

lemma parse_request_line_ok:
  assumes "SP \<notin> set mth" "mth \<noteq> []" "SP \<notin> set target" "target \<noteq> []"
  shows "parse_request_line (request_line mth target) m =
    Inr (m\<lparr>hm_is_response := False, hm_method := parse_method mth, hm_method_ref := Some mth,
           hm_target := Some target, hm_keep_alive := True\<rparr>)"
  using assms by (simp add: parse_request_line_def request_line_def memchr_hit Let_def)

lemma digit_not_SP: "list_all is_digit s \<Longrightarrow> SP \<notin> set s"
  by (auto simp: list_all_iff is_digit_def SP_def)

lemma parse_status_line_ok:
  assumes "0 \<le> status" "status < 1000"
  shows "parse_status_line (status_line status text) m =
    Inr (m\<lparr>hm_is_response := True, hm_status_code := nat status, hm_keep_alive := True\<rparr>)"
proof -
  have "SP \<notin> set HTTP_VERSION_11" by (simp add: SP_def HTTP_VERSION_11_def)
  then have m1: "memchr SP (status_line status text) = Some 8"
    unfolding status_line_def by (subst memchr_hit) (simp_all add: HTTP_VERSION_11_def)
  have d: "dec_int status = dec (nat status)" using assms by (simp add: dec_int_def)
  have m2: "memchr SP (dec (nat status) @ SP # text) = Some (length (dec (nat status)))"
    by (rule memchr_hit [OF digit_not_SP [OF dec_digits]])
  have l: "dec (nat status) \<noteq> []" "length (dec (nat status)) \<le> 3"
  proof -
    show "dec (nat status) \<noteq> []" by (simp add: dec.simps)
    have "nat status < 1000" using assms by simp
    then show "length (dec (nat status)) \<le> 3"
      by (auto simp: dec.simps)
  qed
  have dr: "drop (Suc 8) (status_line status text) = dec (nat status) @ SP # text"
    by (simp add: status_line_def HTTP_VERSION_11_def d)
  have v: "drop (length HTTP_PREFIX) (take 8 (status_line status text)) = ''1.1''"
    by (simp add: status_line_def HTTP_VERSION_11_def HTTP_PREFIX_def)
  show ?thesis
    unfolding parse_status_line_def m1 Let_def option.case dr m2 v
    using l dec_digits [of "nat status"] by (simp add: dec_value_dec)
qed
text \<open>For evaluation, the overflow test over the integers, whose numerals are binary.\<close>

lemma parse_cl_from_eval [code]:
  "parse_cl_from cl [] = Some cl"
  "parse_cl_from cl (c # cs) =
     (if \<not> is_digit c then None
      else if (18446744073709551615 - int (digit_val c)) div 10 < int cl then None
      else parse_cl_from (cl * 10 + digit_val c) cs)"
proof -
  have "int ((SIZE_MAX - digit_val c) div 10) = (18446744073709551615 - int (digit_val c)) div 10" if "is_digit c"
  proof -
    have "digit_val c \<le> SIZE_MAX" using that by (auto simp: is_digit_def digit_val_def Let_def SIZE_MAX_def)
    then show ?thesis by (simp add: zdiv_int of_nat_diff SIZE_MAX_def)
  qed
  then have "is_digit c \<Longrightarrow> (SIZE_MAX - digit_val c) div 10 < cl \<longleftrightarrow> (18446744073709551615 - int (digit_val c)) div 10 < int cl"
    by (metis of_nat_less_iff)
  then show "parse_cl_from cl (c # cs) =
     (if \<not> is_digit c then None
      else if (18446744073709551615 - int (digit_val c)) div 10 < int cl then None
      else parse_cl_from (cl * 10 + digit_val c) cs)" by simp
qed simp
lemma http_head_plain:
  assumes first: "(if take (length HTTP_PREFIX) line = HTTP_PREFIX then parse_status_line line http_msg0
      else parse_request_line line http_msg0) = Inr m"
    and "field_values ''content-length'' (header_fields hdrs) = []"
    and "field_values ''transfer-encoding'' (header_fields hdrs) = []"
  shows "http_head line hdrs = Inr (parse_connection hdrs (m\<lparr>hm_headers := Some hdrs\<rparr>))"
  unfolding http_head_def first
  using assms(2,3) by (simp add: parse_content_length_def parse_chunked_def find_header_in_spec)

lemma parse_connection_keeps [simp]:
  "hm_is_response (parse_connection hdrs m) = hm_is_response m"
  "hm_method (parse_connection hdrs m) = hm_method m" "hm_method_ref (parse_connection hdrs m) = hm_method_ref m"
  "hm_target (parse_connection hdrs m) = hm_target m" "hm_status_code (parse_connection hdrs m) = hm_status_code m"
  "hm_content_length (parse_connection hdrs m) = hm_content_length m"
  "hm_headers (parse_connection hdrs m) = hm_headers m"
  by (simp_all add: parse_connection_def Let_def)

lemma field_of_host: "field_of (host_line host port) = [(''Host'', rtrim (ltrim ('' '' @ host @ '':'' @ dec (unat port))))]"
  by (simp add: field_of_def host_line_def)

lemma ci_eq_length: "length a \<noteq> length b \<Longrightarrow> \<not> ci_eq a b" by (simp add: ci_eq_def)

lemma clean_append [simp]: "clean (a @ b) \<longleftrightarrow> clean a \<and> clean b" and clean_Nil [simp]: "clean []"
  by (auto simp: clean_def)

lemma clean_Cons [simp]: "clean (x # s) \<longleftrightarrow> x \<noteq> CR \<and> x \<noteq> LF \<and> clean s"
  by (auto simp: clean_def)

lemma clean_digits: "list_all is_digit s \<Longrightarrow> clean s"
  by (auto simp: clean_def list_all_iff is_digit_def CR_def LF_def)

text \<open>What a complete message without a body is parsed to.\<close>

lemma parse_wire_plain:
  assumes "clean line" "\<forall>l\<in>set ls. clean l \<and> l \<noteq> []"
    and "(if take (length HTTP_PREFIX) line = HTTP_PREFIX then parse_status_line line http_msg0
      else parse_request_line line http_msg0) = Inr m" "hm_content_length m = 0"
    and "field_values ''content-length'' (concat (map field_of ls)) = []"
    and "field_values ''transfer-encoding'' (concat (map field_of ls)) = []"
  shows "sevent_http_parse (wire_head line ls @ body) =
    (1, (parse_connection (wire_lines ls) (m\<lparr>hm_headers := Some (wire_lines ls)\<rparr>))
          \<lparr>hm_body := Some (length (wire_head line ls)), hm_body_len := 0\<rparr>)"
proof -
  have hf: "header_fields (wire_lines ls) = concat (map field_of ls)"
    using assms(2) by (intro header_fields_wire) blast
  have "http_head line (wire_lines ls) = Inr (parse_connection (wire_lines ls) (m\<lparr>hm_headers := Some (wire_lines ls)\<rparr>))"
    using assms(3,5,6) by (intro http_head_plain) (simp_all add: hf)
  then show ?thesis
    unfolding parse_wire [OF assms(1,2)] http_body_def using assms(4)
    by (simp add: wire_head_def CRLF_def)
qed

lemma find_header_wire:
  assumes "\<forall>l\<in>set ls. clean l" "hm_headers m = Some (wire_lines ls)"
  shows "sevent_http_find_header m name = nth_opt (field_values name (concat (map field_of ls))) 0"
  using assms by (simp add: sevent_http_find_header_def find_header_in_spec header_fields_wire)

lemma first_line_no_length:
  "(if b then parse_status_line line http_msg0 else parse_request_line line http_msg0) = Inr out
     \<Longrightarrow> hm_content_length out = 0"
  by (auto simp: parse_status_line_def parse_request_line_def Let_def http_msg0_def
      split: if_splits option.splits)

definition lengths_agree :: "string \<Rightarrow> nat \<Rightarrow> bool" where
  "lengths_agree hdrs n \<longleftrightarrow>
     (\<forall>v \<in> set (take 2 (field_values ''content-length'' (header_fields hdrs))).
        list_all is_digit v \<and> dec_value v = n \<and> dec_value v \<le> SIZE_MAX)
     \<and> (field_values ''content-length'' (header_fields hdrs) = [] \<longrightarrow> n = 0)"

lemma parse_content_length_agrees:
  assumes "parse_content_length hdrs out = Inr m" "hm_content_length out = 0"
  shows "lengths_agree hdrs (hm_content_length m) \<and> hm_headers m = hm_headers out"
proof -
  let ?vs = "field_values ''content-length'' (header_fields hdrs)"
  consider "?vs = []" | v where "?vs = [v]" | v w us where "?vs = v # w # us" by (metis neq_Nil_conv)
  then show ?thesis
    using assms
    by cases (auto simp: parse_content_length_def find_header_in_spec find_header_second lengths_agree_def Let_def
        parse_cl_iff nth_opt_def numeral_2_eq_2 split: option.splits if_splits)
qed

lemma http_head_agrees:
  assumes "http_head line hdrs = Inr m"
  shows "hm_headers m = Some hdrs \<and> lengths_agree hdrs (hm_content_length m)
    \<and> (\<forall>v. nth_opt (field_values ''transfer-encoding'' (header_fields hdrs)) 0 = Some v \<longrightarrow> \<not> hdr_has_token v ''chunked'')"
proof -
  obtain out out' where o: "(if take (length HTTP_PREFIX) line = HTTP_PREFIX then parse_status_line line http_msg0
      else parse_request_line line http_msg0) = Inr out"
    "parse_content_length hdrs (parse_connection hdrs (out\<lparr>hm_headers := Some hdrs\<rparr>)) = Inr out'"
    "parse_chunked hdrs out' = Inr m"
    using assms unfolding http_head_def by (auto split: sum.splits)
  have "m = out'" and "\<forall>v. nth_opt (field_values ''transfer-encoding'' (header_fields hdrs)) 0 = Some v \<longrightarrow>
      \<not> hdr_has_token v ''chunked''"
    using o(3) by (auto simp: parse_chunked_def find_header_in_spec split: option.splits if_splits)
  moreover have "lengths_agree hdrs (hm_content_length out') \<and> hm_headers out' = Some hdrs"
    using parse_content_length_agrees [OF o(2)] first_line_no_length [OF o(1)] by simp
  ultimately show ?thesis by blast
qed

text \<open>What a built request is parsed to.\<close>

lemma parse_built_request:
  fixes port :: "16 word"
  assumes "SP \<notin> set mth" "mth \<noteq> []" "clean mth"
      "take (length HTTP_PREFIX) (request_line mth target) \<noteq> HTTP_PREFIX"
    and "SP \<notin> set target" "target \<noteq> []" "clean target" "clean host"
    and "\<forall>l \<in> set ls. clean l \<and> l \<noteq> []"
    and "field_values ''content-length'' (concat (map field_of ls)) = []"
    and "field_values ''transfer-encoding'' (concat (map field_of ls)) = []"
  defines "msg \<equiv> wire_head (request_line mth target) (host_line host port # ls)"
  shows "\<exists>m. sevent_http_parse (msg @ rest) = (1, m) \<and> \<not> hm_is_response m
    \<and> hm_method_ref m = Some mth \<and> hm_method m = parse_method mth \<and> hm_target m = Some target
    \<and> hm_body m = Some (length msg) \<and> hm_body_len m = 0
    \<and> (\<forall>name. sevent_http_find_header m name =
          nth_opt (field_values name (concat (map field_of (host_line host port # ls)))) 0)"
proof -
  let ?line = "request_line mth target" and ?ls = "host_line host port # ls"
  let ?m = "http_msg0\<lparr>hm_is_response := False, hm_method := parse_method mth, hm_method_ref := Some mth,
           hm_target := Some target, hm_keep_alive := True\<rparr>"
  have cl: "clean ?line" using assms(3,7)
    by (simp add: request_line_def HTTP_VERSION_11_def SP_def CR_def LF_def)
  have ch: "clean (host_line host port) \<and> host_line host port \<noteq> []"
    using assms(8) clean_digits [OF dec_digits] by (simp add: host_line_def CR_def LF_def)
  have ls: "\<forall>l \<in> set ?ls. clean l \<and> l \<noteq> []" using ch assms(9) by simp
  have "sevent_http_parse (wire_head ?line ?ls @ rest) =
    (1, (parse_connection (wire_lines ?ls) (?m\<lparr>hm_headers := Some (wire_lines ?ls)\<rparr>))
          \<lparr>hm_body := Some (length (wire_head ?line ?ls)), hm_body_len := 0\<rparr>)"
    using assms(1,2,4-6,10,11) parse_request_line_ok [OF assms(1,2,5,6)]
    by (intro parse_wire_plain [OF cl ls])
      (simp_all add: field_values_def field_of_host ci_eq_length http_msg0_def)
  moreover have "\<forall>l \<in> set ?ls. clean l" using ls by blast
  note fh = find_header_wire [OF this]
  ultimately show ?thesis by (simp add: msg_def fh del: list.map concat.simps wire_lines_simps)
qed

section \<open>Query strings\<close>

text \<open>The parameters of a query: the segments between ampersands that have an equals sign.\<close>

definition param_of :: "string \<Rightarrow> (string \<times> string) list" where
  "param_of seg = (case memchr (CHR ''='') seg of None \<Rightarrow> [] | Some e \<Rightarrow> [(take e seg, drop (Suc e) seg)])"

lemma query_scan_step:
  assumes "CHR ''&'' \<notin> set seg" "s = [] \<or> (\<exists>r. s = CHR ''&'' # r)" "seg @ s \<noteq> []"
  shows "query_scan (seg @ s) name =
    (case map_of (param_of seg) name of Some v \<Rightarrow> Some v | None \<Rightarrow> query_scan (drop 1 s) name)"
proof -
  have q: "(case memchr (CHR ''&'') (seg @ s) of None \<Rightarrow> length (seg @ s) | Some q \<Rightarrow> q) = length seg"
    using assms(1,2) memchr_None [of "CHR ''&''" seg] by (auto simp: memchr_hit)
  have l: "memchr (CHR ''='') seg = Some e \<Longrightarrow> length (take e seg) = e" for e
    using memchr_SomeD [of "CHR ''=''" seg e] by simp
  show ?thesis
    using assms(3) l
    by (subst query_scan.simps) (auto simp: Let_def q param_of_def split: option.split)
qed

lemma query_scan_spec:
  "query_scan p name = map_of (concat (map param_of (split_on (CHR ''&'') p))) name"
proof (induction "length p" arbitrary: p rule: less_induct)
  case less
  obtain seg s where v: "p = seg @ s" "CHR ''&'' \<notin> set seg" "s = [] \<or> (\<exists>r. s = CHR ''&'' # r)"
    by (rule split_first)
  show ?case
  proof (cases "p = []")
    case True
    then show ?thesis by (simp add: query_scan.simps [of "[]"] param_of_def)
  next
    case False
    note st = query_scan_step [OF v(2,3), of name]
    from v(3) show ?thesis
    proof
      assume s: "s = []"
      have "query_scan [] name = None" by (simp add: query_scan.simps)
      then show ?thesis using st False v s by (simp add: split_on_single split: option.split)
    next
      assume "\<exists>r. s = CHR ''&'' # r"
      then obtain r where r: "s = CHR ''&'' # r" by blast
      then have "query_scan r name = map_of (concat (map param_of (split_on (CHR ''&'') r))) name"
        using v(1) by (intro less) simp
      then show ?thesis using st False v r by (simp add: split_on_Cons map_add_def split: option.split)
    qed
  qed
qed
section \<open>Properties\<close>

text \<open>
  C39. Framing: when the parser reports a complete message, the body lies inside the input
  and has the announced length; the result depends on those bytes only, whatever follows
  (pipelined requests); and every shorter prefix is answered \<open>0\<close>, so feeding the bytes one
  by one finds the same message at the same place.
\<close>

theorem http_parse_framing:
  assumes "sevent_http_parse buf = (1, m)"
  shows "\<exists>off. hm_body m = Some off \<and> hm_body_len m = hm_content_length m \<and> off + hm_body_len m \<le> length buf
    \<and> (\<forall>rest. sevent_http_parse (take (off + hm_body_len m) buf @ rest) = (1, m))
    \<and> (\<forall>k < off + hm_body_len m. fst (sevent_http_parse (take k buf)) = 0)"
proof -
  have f: "fst (sevent_http_parse buf) = 1" and m: "snd (sevent_http_parse buf) = m" using assms by simp_all
  obtain off where off: "hm_body m = Some off" "off + hm_body_len m \<le> length buf"
    "sevent_http_parse (take (off + hm_body_len m) buf) = (1, m)" "hm_body_len m = hm_content_length m"
    using http_parse_complete [OF f] assms by (auto simp: m)
  have "sevent_http_parse (take (off + hm_body_len m) buf @ rest) = (1, m)" for rest
    using http_parse_stable [of "take (off + hm_body_len m) buf" rest] off(3) by simp
  moreover have "fst (sevent_http_parse (take k buf)) = 0" if "k < off + hm_body_len m" for k
    using http_parse_prefix_zero [OF f, of off k] off(1) that by (simp add: m)
  ultimately show ?thesis using off by blast
qed

theorem http_parse_framing_witness:
  "\<exists>m off. sevent_http_parse (''POST /a HTTP/1.1'' @ CRLF @ ''Content-Length: 2'' @ CRLF @ CRLF @ ''hiNEXT'') = (1, m)
    \<and> hm_body m = Some off \<and> off + hm_body_len m = 41"
proof -
  let ?b = "''POST /a HTTP/1.1'' @ CRLF @ ''Content-Length: 2'' @ CRLF @ CRLF @ ''hiNEXT''"
  have f: "fst (sevent_http_parse ?b) = 1" and c: "hm_content_length (snd (sevent_http_parse ?b)) = 2"
    and o: "hm_body (snd (sevent_http_parse ?b)) = Some 39" by code_simp+
  obtain m where m: "sevent_http_parse ?b = (1, m)" using f by (metis prod.collapse)
  from http_parse_framing [OF m] m c o show ?thesis by auto
qed

text \<open>
  Header lookup: \<open>find_header_nth\<close> returns exactly the n-th value, blanks trimmed, among
  the lines with a colon whose name equals the wanted one up to ASCII case.
\<close>

theorem http_find_header_spec:
  "find_header_nth hdrs name (int n) =
     (let vs = map snd (filter (\<lambda>f. ci_eq (fst f) name) (header_fields hdrs))
      in if n < length vs then Some (vs ! n) else None)"
  by (simp add: find_header_nth_spec field_values_def nth_opt_def Let_def)

text \<open>
  A comma-separated header value has a token exactly when one of its comma-separated
  elements, without surrounding blanks, equals the token up to ASCII case.
\<close>

theorem http_token_spec:
  assumes "token \<noteq> []"
  shows "hdr_has_token val token \<longleftrightarrow>
    (\<exists>seg \<in> set (split_on (CHR '','') val). ci_eq (rtrim (ltrim seg)) token)"
  using assms by (rule hdr_has_token_iff)

theorem http_token_spec_witness:
  "hdr_has_token ''keep-alive ,  UpGrade '' ''upgrade''"
  using http_token_spec [of "''upgrade''" "''keep-alive ,  UpGrade ''"] by code_simp

text \<open>
  Request smuggling: in a message the parser accepts, the first two Content-Length
  headers, if present, are strings of digits (an empty one counts as 0) with the value used for
  framing, at most \<open>SIZE_MAX\<close>, without wrap-around; without such a header the body is
  empty; and the first Transfer-Encoding header does not list \<open>chunked\<close>.
\<close>

theorem http_content_length_agrees:
  assumes "sevent_http_parse buf = (1, m)" and "hm_headers m = Some hdrs"
  shows "(\<forall>v \<in> set (take 2 (field_values ''content-length'' (header_fields hdrs))).
       list_all is_digit v \<and> dec_value v = hm_content_length m \<and> dec_value v \<le> SIZE_MAX)
    \<and> (field_values ''content-length'' (header_fields hdrs) = [] \<longrightarrow> hm_content_length m = 0)
    \<and> (\<forall>v. nth_opt (field_values ''transfer-encoding'' (header_fields hdrs)) 0 = Some v \<longrightarrow> \<not> hdr_has_token v ''chunked'')"
proof -
  obtain he where he: "find_crlf2 buf = Some he"
    using assms(1) parse_zero_cases by (cases "find_crlf2 buf") auto
  obtain le where le: "memchr LF buf = Some le" using crlf2_line [OF he] by blast
  obtain out where "http_head (strip_cr (take le buf)) (take (he + 2 - Suc le) (drop (Suc le) buf)) = Inr out"
      "m = out\<lparr>hm_body := Some (he + 4), hm_body_len := hm_content_length out\<rparr>"
    using assms(1) unfolding parse_by_parts [OF he le] http_body_def by (auto split: sum.splits if_splits)
  with http_head_agrees assms(2) show ?thesis unfolding lengths_agree_def by fastforce
qed

theorem http_content_length_agrees_witness:
  "\<exists>m hdrs. sevent_http_parse (''POST / HTTP/1.1'' @ CRLF @ ''Content-Length: 02'' @ CRLF
       @ ''content-length: 2'' @ CRLF @ CRLF @ ''hi'') = (1, m) \<and> hm_headers m = Some hdrs
     \<and> (\<forall>v \<in> set (take 2 (field_values ''content-length'' (header_fields hdrs))). dec_value v = hm_content_length m)
     \<and> hm_content_length m = 2"
proof -
  let ?b = "''POST / HTTP/1.1'' @ CRLF @ ''Content-Length: 02'' @ CRLF @ ''content-length: 2'' @ CRLF @ CRLF @ ''hi''"
  have f: "fst (sevent_http_parse ?b) = 1" and c: "hm_content_length (snd (sevent_http_parse ?b)) = 2"
    and h: "hm_headers (snd (sevent_http_parse ?b)) \<noteq> None" by code_simp+
  obtain m where m: "sevent_http_parse ?b = (1, m)" using f by (metis prod.collapse)
  moreover obtain hdrs where "hm_headers m = Some hdrs" using h m by auto
  ultimately show ?thesis using http_content_length_agrees [OF m] c by auto
qed

text \<open>
  The conflict check stops at the second header: a third, different Content-Length is
  accepted, and an empty value is accepted as 0, although \<^verbatim>\<open>sevent_http_parse.h\<close> promises
  an error for illegal and conflicting values.
\<close>

theorem http_third_content_length_ignored:
  "fst (sevent_http_parse (''POST / HTTP/1.1'' @ CRLF @ ''Content-Length: 0'' @ CRLF @ ''Content-Length: 0'' @ CRLF
       @ ''Content-Length: 9'' @ CRLF @ CRLF)) = 1
   \<and> fst (sevent_http_parse (''POST / HTTP/1.1'' @ CRLF @ ''Content-Length:'' @ CRLF @ CRLF)) = 1"
  by code_simp



text \<open>
  Query lookup: \<open>sevent_http_query_get\<close> on the query part that
  \<open>sevent_http_target_split\<close> cuts off returns the value of the first parameter with that
  name, segments without an equals sign being skipped.
\<close>

theorem http_query_get_spec:
  "sevent_http_query_get (snd (sevent_http_target_split (Some t))) name =
     (case memchr (CHR ''?'') t of
        None \<Rightarrow> None
      | Some q \<Rightarrow> map_of (concat (map param_of (split_on (CHR ''&'') (drop (Suc q) t)))) name)"
  by (simp add: sevent_http_target_split_def sevent_http_query_get_def query_scan_spec split: option.split)
end
