(* ===== verification/Ws_Handshake.thy ===== *)
theory Ws_Handshake
  imports Http_Parse Ws_Base64 Ws_Sha1
begin

unbundle bit_operations_syntax

text \<open>
  \<^verbatim>\<open>src/websockets/ws_handshake.c\<close>: the opening handshake of RFC 6455, both ends, in the
  build with permessage-deflate (\<open>SEVENT_WS_DEFLATE\<close>). Random bytes, the time and the
  process id are arguments. The character arrays of the result structures hold what was
  copied into them; \<open>cstr\<close> is what string functions see of them (up to the first NUL).
  The local SHA-1 context of \<open>ws_compute_accept\<close> starts as \<open>sha_stack\<close>; the digest does
  not depend on it. The lemmas show that the server accepts the request the client
  builds, that the client accepts the response the server builds for its key and no
  response with another accept value, and how the status line of a response with an
  unfinished body is misread.
\<close>

section \<open>Constants and data\<close>

definition WS_GUID :: string where "WS_GUID = ''258EAFA5-E914-47DA-95CA-C5AB0DC85B11''"
definition WS_KEY_BASE64_LEN :: nat where "WS_KEY_BASE64_LEN = 25"
definition WS_ACCEPT_BASE64_LEN :: nat where "WS_ACCEPT_BASE64_LEN = 29"
definition WS_HTTP_STATUS_SWITCHING :: nat where "WS_HTTP_STATUS_SWITCHING = 101"
definition WS_EXT_PMD :: string where "WS_EXT_PMD = ''permessage-deflate''"
definition WS_EXT_SERVER_NO_CTX :: string where "WS_EXT_SERVER_NO_CTX = ''server_no_context_takeover''"
definition WS_EXT_CLIENT_NO_CTX :: string where "WS_EXT_CLIENT_NO_CTX = ''client_no_context_takeover''"
definition WS_EXT_SERVER_MAX_WB :: string where "WS_EXT_SERVER_MAX_WB = ''server_max_window_bits''"
definition WS_EXT_CLIENT_MAX_WB :: string where "WS_EXT_CLIENT_MAX_WB = ''client_max_window_bits''"
definition WS_HDR_EXTENSIONS :: string where "WS_HDR_EXTENSIONS = ''sec-websocket-extensions''"
definition WS_HDR_PROTOCOL :: string where "WS_HDR_PROTOCOL = ''sec-websocket-protocol''"
definition WS_HDR_ACCEPT :: string where "WS_HDR_ACCEPT = ''sec-websocket-accept''"
definition WS_HDR_LOCATION :: string where "WS_HDR_LOCATION = ''location''"
definition WS_HDR_KEY :: string where "WS_HDR_KEY = ''sec-websocket-key''"

lemmas hs_consts = WS_KEY_BASE64_LEN_def WS_ACCEPT_BASE64_LEN_def WS_HTTP_STATUS_SWITCHING_def
  WS_EXT_PMD_def WS_EXT_SERVER_NO_CTX_def WS_EXT_CLIENT_NO_CTX_def WS_EXT_SERVER_MAX_WB_def
  WS_EXT_CLIENT_MAX_WB_def WS_HDR_EXTENSIONS_def WS_HDR_PROTOCOL_def WS_HDR_ACCEPT_def
  WS_HDR_LOCATION_def WS_HDR_KEY_def

record ws_deflate_params =
  dp_server_no_context_takeover :: bool
  dp_client_no_context_takeover :: bool
  dp_server_max_window_bits :: "8 word"
  dp_client_max_window_bits :: "8 word"
  dp_compression_level :: int

record ws_handshake_response =
  hr_status_code :: nat
  hr_accept :: string
  hr_protocol :: string
  hr_location :: string
  hr_extensions :: string

record ws_handshake_request =
  hq_status :: int
  hq_key :: string
  hq_deflate_offered :: bool
  hq_client_no_context_takeover :: bool

definition NUL :: char where "NUL = CHR 0x00"

definition cstr :: "string \<Rightarrow> string" where
  "cstr s = takeWhile (\<lambda>c. c \<noteq> NUL) s"

section \<open>Client side\<close>

definition xorshift32 :: "32 word \<Rightarrow> 32 word" where
  "xorshift32 seed =
     (let x = seed; x = x XOR push_bit 13 x; x = x XOR drop_bit 17 x; x = x XOR push_bit 5 x in x)"

fun xorshift_bytes :: "nat \<Rightarrow> 32 word \<Rightarrow> bytes" where
  "xorshift_bytes 0 seed = []"
| "xorshift_bytes (Suc n) seed = (let x = xorshift32 seed in ucast x # xorshift_bytes n x)"

text \<open>\<open>urandom\<close> is what \<open>read_random\<close> delivered, if it succeeded; \<open>seed\<close> the fallback.\<close>

definition ws_gen_key :: "bytes option \<Rightarrow> 32 word \<Rightarrow> string" where
  "ws_gen_key urandom seed =
     (let raw = (case urandom of Some r \<Rightarrow> r | None \<Rightarrow> xorshift_bytes 16 seed)
      in case ws_base64_encode raw WS_KEY_BASE64_LEN of None \<Rightarrow> [] | Some (n, dst) \<Rightarrow> dst)"

definition pmd_offer_text :: "ws_deflate_params option \<Rightarrow> string" where
  "pmd_offer_text offer =
     WS_EXT_PMD @
     (case offer of
        None \<Rightarrow> ''; '' @ WS_EXT_CLIENT_MAX_WB
      | Some o' \<Rightarrow>
          (if dp_client_max_window_bits o' \<noteq> 0
           then ''; '' @ WS_EXT_CLIENT_MAX_WB @ ''='' @ dec (unat (dp_client_max_window_bits o'))
           else ''; '' @ WS_EXT_CLIENT_MAX_WB) @
          (if dp_server_max_window_bits o' \<noteq> 0
           then ''; '' @ WS_EXT_SERVER_MAX_WB @ ''='' @ dec (unat (dp_server_max_window_bits o')) else []) @
          (if dp_client_no_context_takeover o' then ''; '' @ WS_EXT_CLIENT_NO_CTX else []) @
          (if dp_server_no_context_takeover o' then ''; '' @ WS_EXT_SERVER_NO_CTX else []))"

definition ws_build_request ::
  "nat \<Rightarrow> string \<Rightarrow> 16 word \<Rightarrow> string \<Rightarrow> string \<Rightarrow> string option \<Rightarrow> bool \<Rightarrow> ws_deflate_params option
     \<Rightarrow> int \<times> string" where
  "ws_build_request cap host port path key sub_protocol enable_deflate pmd_offer =
     (let extra = ''Upgrade: websocket'' @ CRLF @ ''Connection: Upgrade'' @ CRLF
                  @ ''Sec-WebSocket-Key: '' @ key @ CRLF @ ''Sec-WebSocket-Version: 13'' @ CRLF
      in if 512 \<le> length extra then (-1, [])
         else
           let proto = (case sub_protocol of
                          None \<Rightarrow> [] | Some [] \<Rightarrow> [] | Some s \<Rightarrow> ''Sec-WebSocket-Protocol: '' @ s @ CRLF)
           in if proto \<noteq> [] \<and> 512 - length extra \<le> length proto then (-1, [])
              else
                let extra = extra @ proto; ext = pmd_offer_text pmd_offer;
                    line = ''Sec-WebSocket-Extensions: '' @ ext @ CRLF
                in if enable_deflate \<and> 192 \<le> length ext then (-1, [])
                   else if enable_deflate \<and> 512 - length extra \<le> length line then (-1, [])
                   else sevent_http_build_request cap ''GET'' path host port
                          (Some (if enable_deflate then extra @ line else extra)))"

definition ws_handshake_response0 :: ws_handshake_response where
  "ws_handshake_response0 =
     \<lparr>hr_status_code = 0, hr_accept = [], hr_protocol = [], hr_location = [], hr_extensions = []\<rparr>"

text \<open>A header value copied into an array of \<open>cap\<close> characters.\<close>

definition copy_value :: "nat \<Rightarrow> string option \<Rightarrow> string \<Rightarrow> string" where
  "copy_value cap v old = (case v of None \<Rightarrow> old | Some s \<Rightarrow> take (cap - 1) s)"

text \<open>The branch for a complete header whose body has not arrived: return value only.\<close>

definition parse_response_head :: "string \<Rightarrow> int" where
  "parse_response_head buf =
     (case find_crlf2 buf of
        None \<Rightarrow> 0
      | Some hdr_end \<Rightarrow>
          if 4096 \<le> hdr_end then -1
          else
            let head = take hdr_end buf
            in case memchr SP head of
                 None \<Rightarrow> -1
               | Some sp1 \<Rightarrow>
                   case memchr SP (drop (Suc sp1) head) of
                     None \<Rightarrow> -1
                   | Some sp2 \<Rightarrow>
                       let st = drop (Suc sp2) (drop (Suc sp1) head);
                           digits = take 5 (takeWhile is_digit st);
                           p = drop (length digits) st
                       in if digits = [] \<or> p \<noteq> [] \<and> hd p \<noteq> SP \<and> hd p \<noteq> CR then -1
                          else int hdr_end + 4)"

definition ws_parse_response :: "string \<Rightarrow> int \<times> ws_handshake_response" where
  "ws_parse_response buf =
     (let resp = ws_handshake_response0
      in if length buf < 14 then (0, resp)
         else
           let (r, m) = sevent_http_parse buf
           in if r < 0 then (-1, resp)
              else if 0 < r \<and> \<not> hm_is_response m then (-1, resp)
              else if r = 0 then (parse_response_head buf, resp)
              else
                let resp = resp\<lparr>hr_status_code := hm_status_code m,
                      hr_accept := copy_value WS_ACCEPT_BASE64_LEN (sevent_http_find_header m WS_HDR_ACCEPT) [],
                      hr_protocol := copy_value 64 (sevent_http_find_header m WS_HDR_PROTOCOL) [],
                      hr_location := copy_value 256 (sevent_http_find_header m WS_HDR_LOCATION) [],
                      hr_extensions := copy_value 256 (sevent_http_find_header m WS_HDR_EXTENSIONS) []\<rparr>
                in if hr_status_code resp = WS_HTTP_STATUS_SWITCHING \<and> cstr (hr_accept resp) = [] then (-1, resp)
                   else (case hm_body m of None \<Rightarrow> 0 | Some off \<Rightarrow> int off, resp))"

section \<open>The accept value\<close>

definition sha_stack :: ws_sha1_ctx where
  "sha_stack = \<lparr>sha_state = replicate 5 0, sha_count = 0, sha_buffer = replicate 64 0\<rparr>"

definition ws_compute_accept :: "string \<Rightarrow> string" where
  "ws_compute_accept key =
     (let concat = key @ WS_GUID
      in if 256 \<le> length concat then []
         else case ws_base64_encode (ws_sha1 sha_stack (bytes_of concat)) WS_ACCEPT_BASE64_LEN of
                None \<Rightarrow> [] | Some (n, out) \<Rightarrow> out)"

definition ws_verify_accept :: "string \<Rightarrow> string \<Rightarrow> int" where
  "ws_verify_accept key accept = (if ws_compute_accept key = cstr accept then 0 else -1)"

section \<open>Server side\<close>

definition token_eq :: "string \<Rightarrow> string \<Rightarrow> bool" where
  "token_eq v token \<longleftrightarrow>
     length v = length token \<and> (\<forall>i < length token. ascii_lower (v ! i) = ascii_lower (token ! i))"

function token_list_has :: "string \<Rightarrow> string \<Rightarrow> bool" where
  "token_list_has v token =
     (if v = [] then False
      else
        let p = ltrim v;
            s = takeWhile (\<lambda>c. c \<noteq> CHR '','') p;
            rest = dropWhile (\<lambda>c. c \<noteq> CHR '','') p
        in if token_eq (rtrim s) token then True else token_list_has (drop 1 rest) token)"
  by pat_completeness auto
termination
proof (relation "measure (\<lambda>(v, token). length v)")
  fix v token p s rest :: string
  assume "v \<noteq> []" "p = ltrim v" "rest = dropWhile (\<lambda>c. c \<noteq> CHR '','') p"
  then have "length rest \<le> length v" "0 < length v"
    using length_ltrim [of v] length_dropWhile_le [of "\<lambda>c. c \<noteq> CHR '',''" p] by (auto intro: le_trans)
  then have "length (drop 1 rest) < length v" unfolding length_drop by linarith
  then show "((drop 1 rest, token), v, token) \<in> measure (\<lambda>(v, token). length v)" by simp
qed simp

declare token_list_has.simps [simp del]

definition is_ext_sep :: "char \<Rightarrow> bool" where
  "is_ext_sep c \<longleftrightarrow> is_ows c \<or> c = CHR '',''"

definition is_ext_end :: "char \<Rightarrow> bool" where
  "is_ext_end c \<longleftrightarrow> c = CHR '';'' \<or> c = CHR '',''"

definition skip_semicolon :: "string \<Rightarrow> string" where
  "skip_semicolon s = (case s of [] \<Rightarrow> [] | c # r \<Rightarrow> if c = CHR '';'' then r else s)"

lemma ext_step_shorter:
  assumes "v \<noteq> []"
  shows "length (skip_semicolon (dropWhile (\<lambda>c. \<not> is_ext_end c) (dropWhile is_ext_sep v))) < length v"
proof -
  define p where "p = dropWhile is_ext_sep v"
  have le: "length p \<le> length v" unfolding p_def by (rule length_dropWhile_le)
  show ?thesis
  proof (cases p)
    case Nil
    with assms show ?thesis unfolding p_def [symmetric] by (simp add: skip_semicolon_def)
  next
    case (Cons c r)
    then have "\<not> is_ext_sep c" unfolding p_def by (metis hd_dropWhile list.discI list.sel(1))
    then have c: "c \<noteq> CHR '',''" by (simp add: is_ext_sep_def)
    have "length (skip_semicolon (dropWhile (\<lambda>c. \<not> is_ext_end c) p)) < length p"
    proof (cases "is_ext_end c")
      case True
      with c Cons show ?thesis by (simp add: is_ext_end_def skip_semicolon_def)
    next
      case False
      have "length (skip_semicolon s) \<le> length s" for s by (cases s) (simp_all add: skip_semicolon_def)
      moreover have "length (dropWhile (\<lambda>c. \<not> is_ext_end c) r) \<le> length r" by (rule length_dropWhile_le)
      ultimately show ?thesis using False Cons le_trans by (fastforce simp: le_imp_less_Suc)
    qed
    with le show ?thesis by (simp add: p_def)
  qed
qed

function ext_token_has :: "string \<Rightarrow> string \<Rightarrow> bool" where
  "ext_token_has v token =
     (if v = [] then False
      else
        let p = dropWhile is_ext_sep v;
            s = takeWhile (\<lambda>c. \<not> is_ext_end c) p;
            rest = dropWhile (\<lambda>c. \<not> is_ext_end c) p
        in if token_eq (rtrim s) token then True else ext_token_has (skip_semicolon rest) token)"
  by pat_completeness auto
termination
  by (relation "measure (\<lambda>(v, token). length v)") (simp_all add: ext_step_shorter)

declare ext_token_has.simps [simp del]

definition ws_parse_request :: "string \<Rightarrow> int \<times> ws_handshake_request" where
  "ws_parse_request buf =
     (let req = \<lparr>hq_status = -1, hq_key = [], hq_deflate_offered = False, hq_client_no_context_takeover = False\<rparr>
      in if length buf < 16 then (0, req)
         else
           let (r, m) = sevent_http_parse buf
           in if r < 0 then (-1, req)
              else if r = 0 then (0, req)
              else if hm_is_response m then (-1, req)
              else
                let consumed = (case hm_body m of None \<Rightarrow> 0 | Some off \<Rightarrow> int off) + int (hm_body_len m);
                    hdr = sevent_http_find_header m
                in if hm_method m \<noteq> HTTP_METHOD_GET then (consumed, req\<lparr>hq_status := 400\<rparr>)
                   else if \<not> (case hdr ''upgrade'' of None \<Rightarrow> False | Some v \<Rightarrow> token_eq v ''websocket'')
                   then (consumed, req\<lparr>hq_status := 400\<rparr>)
                   else if \<not> (case hdr ''connection'' of None \<Rightarrow> False | Some v \<Rightarrow> token_list_has v ''upgrade'')
                   then (consumed, req\<lparr>hq_status := 400\<rparr>)
                   else case hdr WS_HDR_KEY of
                     None \<Rightarrow> (consumed, req\<lparr>hq_status := 400\<rparr>)
                   | Some k \<Rightarrow>
                       if length k \<noteq> WS_KEY_BASE64_LEN - 1 then (consumed, req\<lparr>hq_status := 400\<rparr>)
                       else
                         let req = req\<lparr>hq_key := k\<rparr>
                         in if \<not> (case hdr ''sec-websocket-version'' of None \<Rightarrow> False | Some v \<Rightarrow> token_eq v ''13'')
                            then (consumed, req\<lparr>hq_status := 426\<rparr>)
                            else
                              let req = (case hdr WS_HDR_EXTENSIONS of
                                           None \<Rightarrow> req
                                         | Some v \<Rightarrow>
                                             let d = ext_token_has v WS_EXT_PMD
                                             in req\<lparr>hq_deflate_offered := d,
                                                    hq_client_no_context_takeover :=
                                                      d \<and> ext_token_has v WS_EXT_CLIENT_NO_CTX\<rparr>)
                              in (consumed, req\<lparr>hq_status := 0\<rparr>))"

definition ws_build_response :: "nat \<Rightarrow> string \<Rightarrow> bool \<Rightarrow> int \<times> string" where
  "ws_build_response cap key enable_deflate =
     (let extra = ''Upgrade: websocket'' @ CRLF @ ''Connection: Upgrade'' @ CRLF
                  @ ''Sec-WebSocket-Accept: '' @ ws_compute_accept key @ CRLF;
          line = ''Sec-WebSocket-Extensions: '' @ WS_EXT_PMD @ CRLF
      in if 256 \<le> length extra then (-1, [])
         else if enable_deflate \<and> 256 - length extra \<le> length line then (-1, [])
         else sevent_http_build_response cap (int WS_HTTP_STATUS_SWITCHING) (Some ''Switching Protocols'')
                (Some (if enable_deflate then extra @ line else extra)))"

section \<open>Tokens\<close>

lemma token_eq_ci_eq: "token_eq v token = ci_eq v token"
  by (auto simp: token_eq_def ci_eq_def list_all2_conv_all_nth)

lemma token_eq_refl [simp]: "token_eq t t" by (simp add: token_eq_def)

definition ext_word :: "string \<Rightarrow> bool" where
  "ext_word s \<longleftrightarrow> s \<noteq> [] \<and> list_all (\<lambda>c. \<not> is_ext_end c) s \<and> \<not> is_ows (hd s) \<and> \<not> is_ows (last s)"

lemma ext_word_parts:
  assumes "ext_word s" and "r = [] \<or> is_ext_end (hd r)"
  shows "dropWhile is_ext_sep (s @ r) = s @ r" "takeWhile (\<lambda>c. \<not> is_ext_end c) (s @ r) = s"
    "dropWhile (\<lambda>c. \<not> is_ext_end c) (s @ r) = r" "rtrim s = s"
proof -
  obtain c s' where s: "s = c # s'" using assms(1) by (cases s) (auto simp: ext_word_def)
  then have "\<not> is_ext_sep c" using assms(1) by (auto simp: ext_word_def is_ext_sep_def is_ext_end_def)
  then show "dropWhile is_ext_sep (s @ r) = s @ r" by (simp add: s)
  have all: "\<forall>c\<in>set s. \<not> is_ext_end c" using assms(1) by (simp add: ext_word_def list_all_iff)
  show "takeWhile (\<lambda>c. \<not> is_ext_end c) (s @ r) = s" "dropWhile (\<lambda>c. \<not> is_ext_end c) (s @ r) = r"
    using all assms(2) by (cases r; simp add: takeWhile_append dropWhile_append)+
  show "rtrim s = s" using assms(1) by (simp add: ext_word_def rtrim_id)
qed

lemma ext_token_has_Nil [simp]: "\<not> ext_token_has [] token"
  by (simp add: ext_token_has.simps)

lemma ext_token_has_last:
  assumes "ext_word s"
  shows "ext_token_has s token \<longleftrightarrow> token_eq s token"
proof -
  have "s \<noteq> []" using assms by (simp add: ext_word_def)
  then show ?thesis
    by (subst ext_token_has.simps)
      (simp add: Let_def ext_word_parts [OF assms, of "[]", unfolded append_Nil2] skip_semicolon_def)
qed

lemma ext_token_has_semi:
  assumes "ext_word s"
  shows "ext_token_has (s @ CHR '';'' # r) token \<longleftrightarrow> token_eq s token \<or> ext_token_has r token"
  using ext_word_parts [OF assms, of "CHR '';'' # r"]
  by (subst ext_token_has.simps) (simp add: Let_def skip_semicolon_def is_ext_end_def)

lemma ext_token_has_SP:
  assumes "token \<noteq> []"
  shows "ext_token_has (SP # v) token = ext_token_has v token"
proof (cases v)
  case Nil
  then show ?thesis using assms
    by (subst ext_token_has.simps) (simp add: Let_def is_ext_sep_def is_ows_def skip_semicolon_def rtrim_def token_eq_def)
next
  case (Cons c r)
  have "dropWhile is_ext_sep (SP # v) = dropWhile is_ext_sep v" by (simp add: is_ext_sep_def is_ows_def)
  then show ?thesis using Cons
    by (subst (1 2) ext_token_has.simps) (simp only: Let_def list.distinct if_False)
qed

text \<open>A list of extension words joined by semicolons.\<close>

definition ext_join :: "string \<Rightarrow> string list \<Rightarrow> string" where
  "ext_join t ps = t @ concat (map (\<lambda>p. ''; '' @ p) ps)"

lemma ext_token_has_join:
  assumes "ext_word t" "list_all ext_word ps" "token \<noteq> []"
  shows "ext_token_has (ext_join t ps) token \<longleftrightarrow> token_eq t token \<or> (\<exists>p\<in>set ps. token_eq p token)"
  using assms
proof (induction ps arbitrary: t)
  case Nil
  then show ?case by (simp add: ext_join_def ext_token_has_last)
next
  case (Cons p ps)
  have "ext_join t (p # ps) = t @ CHR '';'' # SP # ext_join p ps" by (simp add: ext_join_def SP_def)
  then show ?case using Cons by (simp add: ext_token_has_semi ext_token_has_SP)
qed

definition offer_params :: "ws_deflate_params option \<Rightarrow> string list" where
  "offer_params offer =
     (case offer of
        None \<Rightarrow> [WS_EXT_CLIENT_MAX_WB]
      | Some d \<Rightarrow>
          (if dp_client_max_window_bits d \<noteq> 0
           then [WS_EXT_CLIENT_MAX_WB @ ''='' @ dec (unat (dp_client_max_window_bits d))]
           else [WS_EXT_CLIENT_MAX_WB]) @
          (if dp_server_max_window_bits d \<noteq> 0
           then [WS_EXT_SERVER_MAX_WB @ ''='' @ dec (unat (dp_server_max_window_bits d))] else []) @
          (if dp_client_no_context_takeover d then [WS_EXT_CLIENT_NO_CTX] else []) @
          (if dp_server_no_context_takeover d then [WS_EXT_SERVER_NO_CTX] else []))"

lemma pmd_offer_join: "pmd_offer_text offer = ext_join WS_EXT_PMD (offer_params offer)"
  by (cases offer) (simp_all add: pmd_offer_text_def ext_join_def offer_params_def)

lemma digit_plain: "is_digit c \<Longrightarrow> \<not> is_ext_end c \<and> \<not> is_ows c"
  by (auto simp: is_digit_def is_ext_end_def is_ows_def SP_def TAB_def Let_def)

lemma dec_nonempty [simp]: "dec n \<noteq> []" by (simp add: dec.simps)

lemma ext_word_consts:
  "ext_word WS_EXT_PMD" "ext_word WS_EXT_CLIENT_MAX_WB" "ext_word WS_EXT_CLIENT_NO_CTX"
  "ext_word WS_EXT_SERVER_NO_CTX" "ext_word (WS_EXT_CLIENT_MAX_WB @ ''='')" "ext_word (WS_EXT_SERVER_MAX_WB @ ''='')"
  by code_simp+

lemma ext_word_dec: "ext_word s \<Longrightarrow> ext_word (s @ dec n)"
  using dec_digits [of n] digit_plain last_in_set [OF dec_nonempty]
  by (auto simp: ext_word_def list_all_iff)

lemma offer_words: "list_all ext_word (offer_params offer)"
  using ext_word_consts ext_word_dec [OF ext_word_consts(5)] ext_word_dec [OF ext_word_consts(6)]
  by (cases offer) (auto simp: offer_params_def)
section \<open>The two ends agree\<close>

definition client_lines :: "string \<Rightarrow> string option \<Rightarrow> bool \<Rightarrow> ws_deflate_params option \<Rightarrow> string list" where
  "client_lines key sub deflate offer =
     [''Upgrade: websocket'', ''Connection: Upgrade'', ''Sec-WebSocket-Key: '' @ key, ''Sec-WebSocket-Version: 13''] @
     (case sub of None \<Rightarrow> [] | Some [] \<Rightarrow> [] | Some s \<Rightarrow> [''Sec-WebSocket-Protocol: '' @ s]) @
     (if deflate then [''Sec-WebSocket-Extensions: '' @ pmd_offer_text offer] else [])"

lemma build_request_lines:
  assumes "ws_build_request cap host port path key sub deflate offer = (n, req)" "0 \<le> n"
  shows "sevent_http_build_request cap ''GET'' path host port (Some (wire_lines (client_lines key sub deflate offer))) = (n, req)"
  using assms
  by (auto simp: ws_build_request_def client_lines_def Let_def split: if_splits option.splits list.splits)

definition plain_word :: "string \<Rightarrow> bool" where
  "plain_word s \<longleftrightarrow> s \<noteq> [] \<and> clean s \<and> \<not> is_ows (hd s) \<and> \<not> is_ows (last s)"

lemma ltrim_SP: "ltrim (CHR '' '' # s) = ltrim s"
  by (simp add: ltrim_def is_ows_def SP_def)

lemma trim_plain: "plain_word s \<Longrightarrow> rtrim (ltrim (CHR '' '' # s)) = s"
  by (simp add: plain_word_def ltrim_SP ltrim_id rtrim_id)

lemma field_of_colon:
  "CHR '':'' \<notin> set nm \<Longrightarrow> field_of (nm @ CHR '':'' # v) = [(nm, rtrim (ltrim v))]"
  by (simp add: field_of_def memchr_hit)

definition client_fields :: "string \<Rightarrow> string \<Rightarrow> string option \<Rightarrow> bool \<Rightarrow> ws_deflate_params option \<Rightarrow> (string \<times> string) list" where
  "client_fields hostv key sub deflate offer =
     [(''Host'', hostv), (''Upgrade'', ''websocket''), (''Connection'', ''Upgrade''), (''Sec-WebSocket-Key'', key),
      (''Sec-WebSocket-Version'', ''13'')] @
     (case sub of None \<Rightarrow> [] | Some [] \<Rightarrow> [] | Some s \<Rightarrow> [(''Sec-WebSocket-Protocol'', rtrim (ltrim s))]) @
     (if deflate then [(''Sec-WebSocket-Extensions'', pmd_offer_text offer)] else [])"

lemma ext_join_snoc: "ps \<noteq> [] \<Longrightarrow> last ps \<noteq> [] \<Longrightarrow> last (ext_join t ps) = last (last ps)"
  by (cases ps rule: rev_cases) (simp_all add: ext_join_def)

lemma ext_word_chars: "ext_word s \<Longrightarrow> s \<noteq> [] \<and> \<not> is_ows (last s)"
  by (simp add: ext_word_def)

lemma clean_consts:
  "clean WS_EXT_PMD" "clean WS_EXT_CLIENT_MAX_WB" "clean WS_EXT_SERVER_MAX_WB"
  "clean WS_EXT_CLIENT_NO_CTX" "clean WS_EXT_SERVER_NO_CTX"
  by code_simp+

lemma clean_offer: "clean (pmd_offer_text offer)"
  using clean_consts clean_digits [OF dec_digits]
  by (cases offer) (auto simp: pmd_offer_text_def CR_def LF_def)

lemma plain_offer: "plain_word (pmd_offer_text offer)"
proof -
  have "offer_params offer \<noteq> []" by (cases offer) (simp_all add: offer_params_def)
  moreover from this have "ext_word (last (offer_params offer))"
    using offer_words [of offer] last_in_set by (auto simp: list_all_iff)
  ultimately have "\<not> is_ows (last (pmd_offer_text offer))"
    unfolding pmd_offer_join using ext_word_chars by (simp add: ext_join_snoc)
  moreover have "hd (pmd_offer_text offer) = CHR ''p''" by (simp add: pmd_offer_text_def WS_EXT_PMD_def)
  moreover have "\<not> is_ows (CHR ''p'')" by (simp add: is_ows_def SP_def TAB_def)
  moreover have "pmd_offer_text offer \<noteq> []" by (simp add: pmd_offer_text_def WS_EXT_PMD_def)
  ultimately show ?thesis using clean_offer by (simp add: plain_word_def)
qed

lemma fields_of_client:
  assumes "plain_word key"
  shows "concat (map field_of (host_line host port # client_lines key sub deflate offer)) =
    client_fields (rtrim (ltrim ('' '' @ host @ '':'' @ dec (unat port)))) key sub deflate offer"
proof -
  have f: "field_of ''Upgrade: websocket'' = [(''Upgrade'', ''websocket'')]"
    "field_of ''Connection: Upgrade'' = [(''Connection'', ''Upgrade'')]"
    "field_of ''Sec-WebSocket-Version: 13'' = [(''Sec-WebSocket-Version'', ''13'')]" by code_simp+
  have k: "field_of (''Sec-WebSocket-Key: '' @ key) = [(''Sec-WebSocket-Key'', key)]"
    using field_of_colon [of "''Sec-WebSocket-Key''" "'' '' @ key"] trim_plain [OF assms] by simp
  have e: "field_of (''Sec-WebSocket-Extensions: '' @ pmd_offer_text offer) = [(''Sec-WebSocket-Extensions'', pmd_offer_text offer)]"
    using field_of_colon [of "''Sec-WebSocket-Extensions''" "'' '' @ pmd_offer_text offer"] trim_plain [OF plain_offer] by simp
  have p: "field_of (''Sec-WebSocket-Protocol: '' @ s) = [(''Sec-WebSocket-Protocol'', rtrim (ltrim s))]" for s
    using field_of_colon [of "''Sec-WebSocket-Protocol''" "'' '' @ s"] by (simp add: ltrim_SP)
  show ?thesis
    unfolding client_lines_def client_fields_def
    by (simp add: field_of_host f k [simplified] e [simplified] p [simplified] split: option.split list.split)
qed

lemma clean_client_lines:
  assumes "plain_word key" "\<forall>s. sub = Some s \<longrightarrow> clean s"
  shows "\<forall>l\<in>set (client_lines key sub deflate offer). clean l \<and> l \<noteq> []"
proof -
  have c: "clean ''Upgrade: websocket''" "clean ''Connection: Upgrade''" "clean ''Sec-WebSocket-Version: 13''"
    "clean ''Sec-WebSocket-Key: ''" "clean ''Sec-WebSocket-Protocol: ''" "clean ''Sec-WebSocket-Extensions: ''"
    by code_simp+
  have a: "clean (''Sec-WebSocket-Key: '' @ key)" "clean (''Sec-WebSocket-Extensions: '' @ pmd_offer_text offer)"
    using c clean_offer assms(1) by (simp_all only: clean_append plain_word_def)
  have "s \<noteq> [] \<Longrightarrow> sub = Some s \<Longrightarrow> clean (''Sec-WebSocket-Protocol: '' @ s)" for s
    using c assms(2) by (simp only: clean_append)
  then show ?thesis
    unfolding client_lines_def using a c
    by (auto simp del: clean_Cons append.simps split: option.splits list.splits)
qed

lemma ci_names:
  "ci_eq ''Upgrade'' ''upgrade''" "ci_eq ''Connection'' ''connection''" "ci_eq ''Sec-WebSocket-Key'' WS_HDR_KEY"
  "ci_eq ''Sec-WebSocket-Version'' ''sec-websocket-version''" "ci_eq ''Sec-WebSocket-Extensions'' WS_HDR_EXTENSIONS"
  "ci_eq ''Sec-WebSocket-Accept'' WS_HDR_ACCEPT" "ci_eq ''Sec-WebSocket-Protocol'' WS_HDR_PROTOCOL"
  "\<not> ci_eq ''Sec-WebSocket-Key'' ''transfer-encoding''"
  by code_simp+

lemma client_field_values:
  fixes hostv key sub deflate offer
  defines "fs \<equiv> client_fields hostv key sub deflate offer"
  shows "nth_opt (field_values ''upgrade'' fs) 0 = Some ''websocket''"
    "nth_opt (field_values ''connection'' fs) 0 = Some ''Upgrade''"
    "nth_opt (field_values WS_HDR_KEY fs) 0 = Some key"
    "nth_opt (field_values ''sec-websocket-version'' fs) 0 = Some ''13''"
    "nth_opt (field_values WS_HDR_EXTENSIONS fs) 0 = (if deflate then Some (pmd_offer_text offer) else None)"
    "field_values ''content-length'' fs = []" "field_values ''transfer-encoding'' fs = []"
proof -
  note d = field_values_def fs_def client_fields_def ci_names ci_eq_length
  show "nth_opt (field_values ''upgrade'' fs) 0 = Some ''websocket''" by (simp add: d)
  show "nth_opt (field_values ''connection'' fs) 0 = Some ''Upgrade''" by (simp add: d)
  show "nth_opt (field_values WS_HDR_KEY fs) 0 = Some key" by (simp add: d) (simp add: d WS_HDR_KEY_def)
  show "nth_opt (field_values ''sec-websocket-version'' fs) 0 = Some ''13''" by (simp add: d)
  show "nth_opt (field_values WS_HDR_EXTENSIONS fs) 0 = (if deflate then Some (pmd_offer_text offer) else None)"
    by (simp add: d) (simp add: d WS_HDR_EXTENSIONS_def split: option.splits list.splits)
  show "field_values ''content-length'' fs = []" "field_values ''transfer-encoding'' fs = []"
    by (simp_all add: d split: option.splits list.splits)
qed

lemma offer_nct:
  "ext_token_has (pmd_offer_text offer) WS_EXT_CLIENT_NO_CTX \<longleftrightarrow>
     (case offer of None \<Rightarrow> False | Some d \<Rightarrow> dp_client_no_context_takeover d)"
proof -
  have n: "\<not> token_eq WS_EXT_PMD WS_EXT_CLIENT_NO_CTX" "\<not> token_eq WS_EXT_CLIENT_MAX_WB WS_EXT_CLIENT_NO_CTX"
    "\<not> token_eq WS_EXT_SERVER_NO_CTX WS_EXT_CLIENT_NO_CTX" "WS_EXT_CLIENT_NO_CTX \<noteq> []"
    by (simp_all add: hs_consts token_eq_def) code_simp
  have "ascii_lower (CHR ''m'') \<noteq> ascii_lower (CHR ''n'')" "ascii_lower (CHR ''s'') \<noteq> ascii_lower (CHR ''c'')" by code_simp+
  then have "\<not> token_eq (WS_EXT_CLIENT_MAX_WB @ t) WS_EXT_CLIENT_NO_CTX"
    "\<not> token_eq (WS_EXT_SERVER_MAX_WB @ t) WS_EXT_CLIENT_NO_CTX" for t
    by (auto simp: hs_consts token_eq_def intro: exI [of _ 7] exI [of _ 0])
  with n show ?thesis
    unfolding pmd_offer_join ext_token_has_join [OF ext_word_consts(1) offer_words n(4)]
    by (cases offer) (auto simp: offer_params_def)
qed

lemma offer_pmd: "ext_token_has (pmd_offer_text offer) WS_EXT_PMD"
  unfolding pmd_offer_join
  by (subst ext_token_has_join [OF ext_word_consts(1) offer_words]) (simp_all add: WS_EXT_PMD_def)

lemma server_accepts_client:
  assumes b: "ws_build_request cap host port path key sub deflate offer = (n, req)" "0 \<le> n"
    and k: "plain_word key" "length key = 24"
    and p: "SP \<notin> set path" "path \<noteq> []" "clean path" "clean host" "\<forall>s. sub = Some s \<longrightarrow> clean s"
  shows "ws_parse_request (req @ rest) =
    (n, \<lparr>hq_status = 0, hq_key = key, hq_deflate_offered = deflate,
         hq_client_no_context_takeover =
           deflate \<and> (case offer of None \<Rightarrow> False | Some d \<Rightarrow> dp_client_no_context_takeover d)\<rparr>)"
proof -
  let ?ls = "client_lines key sub deflate offer"
  let ?fs = "concat (map field_of (host_line host port # ?ls))"
  have r: "req = wire_head (request_line ''GET'' path) (host_line host port # ?ls)" "n = int (length req)"
    using build_request_iff [OF build_request_lines [OF b] b(2)] by blast+
  note fs = fields_of_client [OF k(1), of host port sub deflate offer]
  have "field_values ''content-length'' ?fs = []" "field_values ''transfer-encoding'' ?fs = []"
    unfolding fs by (rule client_field_values)+
  then have none: "field_values ''content-length'' (concat (map field_of ?ls)) = []"
    "field_values ''transfer-encoding'' (concat (map field_of ?ls)) = []"
    by (simp_all add: field_values_def)
  have g: "SP \<notin> set ''GET''" "clean ''GET''" "take (length HTTP_PREFIX) (request_line ''GET'' path) \<noteq> HTTP_PREFIX"
    by (simp_all add: SP_def CR_def LF_def request_line_def HTTP_PREFIX_def)
  obtain m where m: "sevent_http_parse (req @ rest) = (1, m)" "\<not> hm_is_response m" "hm_method m = HTTP_METHOD_GET"
    "hm_body m = Some (length req)" "hm_body_len m = 0"
    "\<And>name. sevent_http_find_header m name = nth_opt (field_values name ?fs) 0"
    using parse_built_request [OF g(1) _ g(2,3) p(1-4) clean_client_lines [OF k(1) p(5)] none, of port rest]
    by (auto simp: r parse_method_def simp del: list.map concat.simps)
  have "16 \<le> length req" by (simp add: r wire_head_def request_line_def HTTP_VERSION_11_def host_line_def)
  moreover have "token_list_has ''Upgrade'' ''upgrade''" by code_simp
  ultimately show ?thesis
    unfolding ws_parse_request_def Let_def m(1) prod.case m(6) fs client_field_values
    using m k(2) r(2) offer_pmd [of offer] offer_nct [of offer] by (simp add: WS_KEY_BASE64_LEN_def)
qed
lemma set_b64_pad: "set (b64_pad n dst) \<subseteq> set dst \<union> {CHR ''=''}"
proof (induction n arbitrary: dst)
  case (Suc n)
  have "set (dst[length dst - 1 - n := CHR ''='']) \<subseteq> set dst \<union> {CHR ''=''}"
    by (auto dest: set_update_subset_insert [THEN subsetD])
  then show ?case using Suc [of "dst[length dst - 1 - n := CHR ''='']"] by auto
qed auto

lemma set_b64_text: "set (b64_text raw) \<subseteq> set b64_tab \<union> {CHR ''=''}"
proof -
  have g: "set (b64_group a b c) \<subseteq> set b64_tab" for a b c
    by (auto simp: b64_group_def intro!: nth_mem b64_index_bounds)
  have "set (b64_loop raw) \<subseteq> set b64_tab"
    by (induction raw rule: b64_loop.induct) (use g in \<open>auto simp: subset_iff\<close>)
  then show ?thesis using set_b64_pad [of _ "b64_loop raw"] by (auto simp: b64_text_def)
qed

lemma b64_chars:
  assumes "c \<in> set b64_tab \<union> {CHR ''=''}"
  shows "c \<noteq> CR" "c \<noteq> LF" "c \<noteq> NUL" "\<not> is_ows c"
  using assms by (auto simp: b64_tab_def CR_def LF_def NUL_def is_ows_def SP_def TAB_def)

lemma plain_b64:
  assumes "raw \<noteq> []"
  shows "plain_word (b64_text raw)" "cstr (b64_text raw) = b64_text raw"
proof -
  have "1 \<le> (length raw + 2) div 3" using assms by (cases raw) auto
  then have ne: "b64_text raw \<noteq> []" using length_b64_text [of raw] by auto
  have s: "c \<in> set (b64_text raw) \<Longrightarrow> c \<in> set b64_tab \<union> {CHR ''=''}" for c
    using set_b64_text [of raw] by blast
  show "plain_word (b64_text raw)"
    using ne b64_chars [OF s] hd_in_set [OF ne] last_in_set [OF ne]
    unfolding plain_word_def clean_def by blast
  show "cstr (b64_text raw) = b64_text raw"
    using b64_chars(3) [OF s] by (auto simp: cstr_def takeWhile_eq_all_conv)
qed

lemma length_sha1_fold: "length st = 5 \<Longrightarrow> length (sha1_fold st m) = 5"
proof (induction st m rule: sha1_fold.induct)
  case (1 st m)
  have "length (sha1_compress st b) = 5" for b by (simp add: sha1_compress_def Let_def split: prod.split)
  with 1 show ?case by (subst sha1_fold.simps) simp
qed

lemma length_be_bytes32: "length (be_bytes32 x) = 4" by (simp add: be_bytes32_def)

lemma length_sha1_spec [simp]: "length (sha1_spec m) = 20"
proof -
  have "length (sha1_fold sha1_iv (sha1_pad m)) = 5" by (rule length_sha1_fold) (simp add: sha1_iv_def)
  then obtain a b c d e where "sha1_fold sha1_iv (sha1_pad m) = [a, b, c, d, e]"
    by (auto simp: length_Suc_conv numeral_eq_Suc)
  then show ?thesis by (simp add: sha1_spec_def length_be_bytes32)
qed

lemma ws_sha1_spec: "ws_sha1 sha_stack data = sha1_spec data"
  using absorbed_update [OF absorbed_init, of sha_stack data]
  by (simp add: ws_sha1_def final_absorbed sha_stack_def)

lemma compute_accept_eq:
  "length key \<le> 219 \<Longrightarrow> ws_compute_accept key = b64_text (sha1_spec (bytes_of (key @ WS_GUID)))"
  by (simp add: ws_compute_accept_def Let_def ws_sha1_spec ws_base64_encode_eq ws_base64_encode_size_def
      hs_consts WS_GUID_def)

lemma accept_word:
  assumes "length key \<le> 219"
  shows "plain_word (ws_compute_accept key)" "length (ws_compute_accept key) = 28"
    "cstr (ws_compute_accept key) = ws_compute_accept key"
proof -
  have "sha1_spec (bytes_of (key @ WS_GUID)) \<noteq> []" by (metis length_sha1_spec list.size(3) zero_neq_numeral)
  then show "plain_word (ws_compute_accept key)" "cstr (ws_compute_accept key) = ws_compute_accept key"
    unfolding compute_accept_eq [OF assms] by (rule plain_b64)+
  show "length (ws_compute_accept key) = 28" by (simp add: compute_accept_eq [OF assms] length_b64_text)
qed

definition server_lines :: "string \<Rightarrow> bool \<Rightarrow> string list" where
  "server_lines key deflate =
     [''Upgrade: websocket'', ''Connection: Upgrade'', ''Sec-WebSocket-Accept: '' @ ws_compute_accept key] @
     (if deflate then [''Sec-WebSocket-Extensions: '' @ WS_EXT_PMD] else [])"

lemma build_response_lines:
  assumes "ws_build_response cap key deflate = (n, resp)" "0 \<le> n"
  shows "resp = wire_head (status_line 101 ''Switching Protocols'') (server_lines key deflate) \<and> n = int (length resp)"
proof -
  have d: "dec_int 101 = ''101''" by code_simp
  have "sevent_http_build_response cap 101 (Some ''Switching Protocols'') (Some (wire_lines (server_lines key deflate))) = (n, resp)"
    using assms by (auto simp: ws_build_response_def server_lines_def Let_def hs_consts split: if_splits)
  with assms(2) show ?thesis
    by (auto simp: sevent_http_build_response_def build_result_def Let_def wire_head_def status_line_def append_str_def
      pr_str_def HTTP_VERSION_11_def CRLF_def SP_def d split: if_splits)
qed

lemma server_fields:
  assumes "length key \<le> 219"
  shows "concat (map field_of (server_lines key deflate)) =
    [(''Upgrade'', ''websocket''), (''Connection'', ''Upgrade''), (''Sec-WebSocket-Accept'', ws_compute_accept key)] @
    (if deflate then [(''Sec-WebSocket-Extensions'', WS_EXT_PMD)] else [])"
proof -
  have f: "field_of ''Upgrade: websocket'' = [(''Upgrade'', ''websocket'')]"
    "field_of ''Connection: Upgrade'' = [(''Connection'', ''Upgrade'')]"
    "field_of (''Sec-WebSocket-Extensions: '' @ WS_EXT_PMD) = [(''Sec-WebSocket-Extensions'', WS_EXT_PMD)]" by code_simp+
  have k: "field_of (''Sec-WebSocket-Accept: '' @ ws_compute_accept key) = [(''Sec-WebSocket-Accept'', ws_compute_accept key)]"
    using field_of_colon [of "''Sec-WebSocket-Accept''" "'' '' @ ws_compute_accept key"] trim_plain [OF accept_word(1) [OF assms]]
    by simp
  show ?thesis unfolding server_lines_def by (simp add: f [simplified] k [simplified])
qed

lemma clean_server_lines:
  assumes "length key \<le> 219"
  shows "\<forall>l\<in>set (server_lines key deflate). clean l \<and> l \<noteq> []"
proof -
  have c: "clean ''Upgrade: websocket''" "clean ''Connection: Upgrade''" "clean ''Sec-WebSocket-Accept: ''"
    "clean (''Sec-WebSocket-Extensions: '' @ WS_EXT_PMD)" by code_simp+
  have a: "clean (''Sec-WebSocket-Accept: '' @ ws_compute_accept key)"
    using c accept_word(1) [OF assms] by (simp only: clean_append plain_word_def)
  show ?thesis unfolding server_lines_def using a c by (auto simp del: clean_Cons append.simps)
qed

lemma client_accepts_server:
  assumes b: "ws_build_response cap key deflate = (n, resp)" "0 \<le> n" and k: "length key \<le> 219"
  shows "ws_parse_response (resp @ rest) =
    (n, \<lparr>hr_status_code = 101, hr_accept = ws_compute_accept key, hr_protocol = [], hr_location = [],
         hr_extensions = (if deflate then WS_EXT_PMD else [])\<rparr>)"
proof -
  let ?ls = "server_lines key deflate" and ?line = "status_line 101 ''Switching Protocols''"
  have r: "resp = wire_head ?line ?ls" "n = int (length resp)" using build_response_lines [OF b] by blast+
  note fs = server_fields [OF k, of deflate]
  have p: "take (length HTTP_PREFIX) ?line = HTTP_PREFIX" by (simp add: status_line_def HTTP_VERSION_11_def HTTP_PREFIX_def)
  have cl: "clean ?line" by code_simp
  let ?m = "http_msg0\<lparr>hm_is_response := True, hm_status_code := 101, hm_keep_alive := True\<rparr>"
  have "sevent_http_parse (wire_head ?line ?ls @ rest) =
    (1, (parse_connection (wire_lines ?ls) (?m\<lparr>hm_headers := Some (wire_lines ?ls)\<rparr>))
          \<lparr>hm_body := Some (length (wire_head ?line ?ls)), hm_body_len := 0\<rparr>)"
    using parse_status_line_ok [of 101 "''Switching Protocols''" http_msg0]
    by (intro parse_wire_plain [OF cl clean_server_lines [OF k]])
      (simp_all add: p fs field_values_def ci_eq_length http_msg0_def)
  then obtain m where m: "sevent_http_parse (resp @ rest) = (1, m)" "hm_is_response m" "hm_status_code m = 101"
    "hm_body m = Some (length resp)" "hm_headers m = Some (wire_lines ?ls)"
    by (simp add: r)
  have "\<forall>l\<in>set ?ls. clean l" using clean_server_lines [OF k] by blast
  note fh = find_header_wire [OF this m(5)]
  have v: "sevent_http_find_header m WS_HDR_ACCEPT = Some (ws_compute_accept key)"
    "sevent_http_find_header m WS_HDR_PROTOCOL = None" "sevent_http_find_header m WS_HDR_LOCATION = None"
    "sevent_http_find_header m WS_HDR_EXTENSIONS = (if deflate then Some WS_EXT_PMD else None)"
    unfolding fh fs by (simp_all add: field_values_def ci_names ci_eq_length) (simp_all add: hs_consts ci_eq_length)
  have "14 \<le> length resp" by (simp add: r wire_head_def status_line_def HTTP_VERSION_11_def server_lines_def)
  moreover have "cstr (ws_compute_accept key) \<noteq> []" using accept_word [OF k] by auto
  ultimately show ?thesis
    unfolding ws_parse_response_def Let_def m(1) prod.case v
    using m r(2) accept_word(2) [OF k] by (simp add: copy_value_def hs_consts ws_handshake_response0_def)
qed

section \<open>Properties\<close>

text \<open>
  C37. End to end, client to server: the request that \<open>ws_build_request\<close> builds for a key of
  24 characters without blanks at its ends, and a path, host and protocol without line
  breaks (the path without blanks), is accepted by \<open>ws_parse_request\<close> whatever follows it:
  it consumes exactly the request, reports status 0, the key, and the deflate offer with
  its \<open>client_no_context_takeover\<close> parameter.
\<close>

theorem handshake_request_accepted:
  assumes "ws_build_request cap host port path key sub deflate offer = (n, req)" "0 \<le> n"
    and "plain_word key" "length key = 24"
    and "SP \<notin> set path" "path \<noteq> []" "clean path" "clean host" "\<forall>s. sub = Some s \<longrightarrow> clean s"
  shows "ws_parse_request (req @ rest) =
    (n, \<lparr>hq_status = 0, hq_key = key, hq_deflate_offered = deflate,
         hq_client_no_context_takeover =
           deflate \<and> (case offer of None \<Rightarrow> False | Some d \<Rightarrow> dp_client_no_context_takeover d)\<rparr>)"
  using assms by (rule server_accepts_client)

theorem handshake_request_accepted_witness:
  "\<exists>n req. ws_build_request 1024 ''example.com'' 80 ''/chat'' ''dGhlIHNhbXBsZSBub25jZQ=='' None True None = (n, req) \<and>
     ws_parse_request (req @ ''more'') =
       (n, \<lparr>hq_status = 0, hq_key = ''dGhlIHNhbXBsZSBub25jZQ=='', hq_deflate_offered = True,
            hq_client_no_context_takeover = False\<rparr>)"
proof -
  let ?b = "ws_build_request 1024 ''example.com'' 80 ''/chat'' ''dGhlIHNhbXBsZSBub25jZQ=='' None True None"
  obtain n req where b: "?b = (n, req)" by (rule prod.exhaust)
  have "0 \<le> fst ?b" by code_simp
  with b have n: "0 \<le> n" by simp
  have h: "plain_word ''dGhlIHNhbXBsZSBub25jZQ==''" "SP \<notin> set ''/chat''" "clean ''/chat''" "clean ''example.com''" by code_simp+
  have "ws_parse_request (req @ ''more'') = (n, \<lparr>hq_status = 0, hq_key = ''dGhlIHNhbXBsZSBub25jZQ=='',
      hq_deflate_offered = True, hq_client_no_context_takeover = False\<rparr>)"
    by (subst handshake_request_accepted [OF b n h(1) _ h(2) _ h(3,4)]) simp_all
  with b show ?thesis by blast
qed

text \<open>
  C38. End to end, server to client: the response that \<open>ws_build_response\<close> builds for a key is
  parsed by \<open>ws_parse_response\<close> as a 101 with exactly the response consumed, its accept
  value passes \<open>ws_verify_accept\<close> for that key, and the extension header is there exactly
  when deflate was confirmed.
\<close>

theorem handshake_response_accepted:
  assumes "ws_build_response cap key deflate = (n, resp)" "0 \<le> n" and "length key = 24"
  shows "ws_parse_response (resp @ rest) =
      (n, \<lparr>hr_status_code = 101, hr_accept = ws_compute_accept key, hr_protocol = [], hr_location = [],
           hr_extensions = (if deflate then WS_EXT_PMD else [])\<rparr>)
    \<and> ws_verify_accept key (ws_compute_accept key) = 0"
  using client_accepts_server [OF assms(1,2)] accept_word(3) [of key] assms(3) by (simp add: ws_verify_accept_def)

theorem handshake_response_accepted_witness:
  "\<exists>n resp. ws_build_response 256 ''dGhlIHNhbXBsZSBub25jZQ=='' True = (n, resp) \<and>
     hr_status_code (snd (ws_parse_response (resp @ ''x''))) = 101 \<and> fst (ws_parse_response (resp @ ''x'')) = n"
proof -
  let ?k = "''dGhlIHNhbXBsZSBub25jZQ==''"
  obtain n resp where b: "ws_build_response 256 ?k True = (n, resp)" by (rule prod.exhaust)
  have "length (ws_compute_accept ?k) = 28" by (rule accept_word(2)) simp
  then have "0 \<le> fst (ws_build_response 256 ?k True)"
    by (simp add: ws_build_response_def Let_def sevent_http_build_response_def build_result_def append_str_def
        hs_consts CRLF_def pr_str_def dec_int_def dec.simps)
  with b have n: "0 \<le> n" by simp
  from handshake_response_accepted [OF b n, of "''x''"] b show ?thesis by simp
qed

text \<open>
  The client accepts an accept value exactly when it is the Base64 text of the SHA-1 of
  the key followed by the GUID of RFC 6455 (keys of the length the client generates).
\<close>

theorem verify_accept_iff:
  assumes "length key = 24"
  shows "ws_verify_accept key accept = 0 \<longleftrightarrow> cstr accept = b64_text (sha1_spec (bytes_of (key @ WS_GUID)))"
  using assms by (auto simp: ws_verify_accept_def compute_accept_eq)

theorem verify_accept_iff_witness:
  "ws_verify_accept ''dGhlIHNhbXBsZSBub25jZQ=='' [] = -1"
proof -
  let ?k = "''dGhlIHNhbXBsZSBub25jZQ==''"
  have "length (b64_text (sha1_spec (bytes_of (?k @ WS_GUID)))) = 28"
    unfolding length_b64_text length_sha1_spec by simp
  then have "cstr [] \<noteq> b64_text (sha1_spec (bytes_of (?k @ WS_GUID)))" by (auto simp: cstr_def)
  with verify_accept_iff [of ?k "[]"] show ?thesis by (simp add: ws_verify_accept_def split: if_splits)
qed

text \<open>
  The generated key has the 24 characters the server requires, with or without
  \<open>/dev/urandom\<close>, and is a word the request builder can send.
\<close>

theorem gen_key_wellformed:
  assumes "\<forall>r. urandom = Some r \<longrightarrow> length r = 16"
  shows "length (ws_gen_key urandom seed) = 24 \<and> plain_word (ws_gen_key urandom seed)
    \<and> b64_decode (ws_gen_key urandom seed) = Some (case urandom of Some r \<Rightarrow> r | None \<Rightarrow> xorshift_bytes 16 seed)"
proof -
  have x: "length (xorshift_bytes n s) = n" for n s by (induction n arbitrary: s) (simp_all add: Let_def)
  define raw where "raw = (case urandom of Some r \<Rightarrow> r | None \<Rightarrow> xorshift_bytes 16 seed)"
  have l: "length raw = 16" using assms by (auto simp: raw_def x split: option.split)
  then have "raw \<noteq> []" by auto
  moreover have "ws_gen_key urandom seed = b64_text raw"
    using l by (simp add: ws_gen_key_def raw_def [symmetric] Let_def ws_base64_encode_eq ws_base64_encode_size_def hs_consts)
  ultimately show ?thesis using l plain_b64(1) b64_decode_text by (simp add: length_b64_text raw_def [symmetric])
qed

theorem gen_key_wellformed_witness:
  "length (ws_gen_key None 0x1234) = 24 \<and> length (ws_gen_key (Some (replicate 16 7)) 0) = 24"
  using gen_key_wellformed [of None "0x1234"] gen_key_wellformed [of "Some (replicate 16 7)" 0] by simp

text \<open>
  A complete header with an unfinished body is answered from the wrong word of the
  status line: a regular redirect is refused as a protocol error, while a status line
  whose reason phrase is a number is accepted, and in neither case is the status reported.
  The comment at that place says the headers-only result is restored there.
\<close>

theorem parse_response_unfinished_body:
  "ws_parse_response (''HTTP/1.1 302 Found'' @ CRLF @ ''Content-Length: 9'' @ CRLF @ CRLF) = (-1, ws_handshake_response0)
   \<and> ws_parse_response (''HTTP/1.1 302 7'' @ CRLF @ ''Content-Length: 9'' @ CRLF @ CRLF) = (37, ws_handshake_response0)"
  by code_simp
end
