(* ===== verification/Sevent_Lists.thy ===== *)
theory Sevent_Lists
  imports Main
begin

text \<open>
  The intrusive lists of \<^verbatim>\<open>src/sevent.c\<close> at pointer level: \<open>io_list_add\<close>/\<open>io_list_del\<close>
  and their timer twins, whose \<open>prev\<close> field holds the address of the \<open>next\<close> field (or the
  head) that points to the node, and the singly linked post queue with a tail pointer.
  \<open>linked s xs\<close> says that the store \<open>s\<close> represents the list \<open>xs\<close>. The locale
  \<open>list_store\<close> is the contract the rest of the loop relies on, interpreted for the
  pointer operations; it justifies that the model of the loop keeps lists of node addresses.
\<close>

type_synonym addr = nat

section \<open>Doubly linked lists with a pointer to the previous link\<close>

text \<open>The places a \<open>prev\<close> pointer can point to: the head variable or a node's next field.\<close>

datatype slot = Head | NextOf addr

record link_store =
  ls_head :: "addr option"
  ls_next :: "addr \<Rightarrow> addr option"
  ls_prev :: "addr \<Rightarrow> slot"

definition read_slot :: "link_store \<Rightarrow> slot \<Rightarrow> addr option" where
  "read_slot s l = (case l of Head \<Rightarrow> ls_head s | NextOf p \<Rightarrow> ls_next s p)"

definition write_slot :: "slot \<Rightarrow> addr option \<Rightarrow> link_store \<Rightarrow> link_store" where
  "write_slot l v s = (case l of Head \<Rightarrow> s\<lparr>ls_head := v\<rparr> | NextOf p \<Rightarrow> s\<lparr>ls_next := (ls_next s)(p := v)\<rparr>)"

definition io_list_add :: "addr \<Rightarrow> link_store \<Rightarrow> link_store" where
  "io_list_add n s =
     (let s = s\<lparr>ls_next := (ls_next s)(n := ls_head s)\<rparr>;
          s = (case ls_head s of None \<Rightarrow> s | Some h \<Rightarrow> s\<lparr>ls_prev := (ls_prev s)(h := NextOf n)\<rparr>);
          s = s\<lparr>ls_prev := (ls_prev s)(n := Head)\<rparr>
      in s\<lparr>ls_head := Some n\<rparr>)"

definition io_list_del :: "addr \<Rightarrow> link_store \<Rightarrow> link_store" where
  "io_list_del n s =
     (let s = (case ls_next s n of None \<Rightarrow> s | Some m \<Rightarrow> s\<lparr>ls_prev := (ls_prev s)(m := ls_prev s n)\<rparr>)
      in write_slot (ls_prev s n) (ls_next s n) s)"

definition timer_list_add :: "addr \<Rightarrow> link_store \<Rightarrow> link_store" where
  "timer_list_add n s =
     (let s = s\<lparr>ls_next := (ls_next s)(n := ls_head s)\<rparr>;
          s = (case ls_head s of None \<Rightarrow> s | Some h \<Rightarrow> s\<lparr>ls_prev := (ls_prev s)(h := NextOf n)\<rparr>);
          s = s\<lparr>ls_prev := (ls_prev s)(n := Head)\<rparr>
      in s\<lparr>ls_head := Some n\<rparr>)"

definition timer_list_del :: "addr \<Rightarrow> link_store \<Rightarrow> link_store" where
  "timer_list_del n s =
     (let s = (case ls_next s n of None \<Rightarrow> s | Some m \<Rightarrow> s\<lparr>ls_prev := (ls_prev s)(m := ls_prev s n)\<rparr>)
      in write_slot (ls_prev s n) (ls_next s n) s)"

text \<open>The nodes from a slot on, with matching back pointers.\<close>

fun links :: "link_store \<Rightarrow> slot \<Rightarrow> addr list \<Rightarrow> bool" where
  "links s l [] \<longleftrightarrow> read_slot s l = None"
| "links s l (p # ps) \<longleftrightarrow> read_slot s l = Some p \<and> ls_prev s p = l \<and> links s (NextOf p) ps"

definition linked :: "link_store \<Rightarrow> addr list \<Rightarrow> bool" where
  "linked s xs \<longleftrightarrow> links s Head xs \<and> distinct xs"

section \<open>The post queue\<close>

record post_store =
  pq_head :: "addr option"
  pq_tail :: "addr option"
  pq_next :: "addr \<Rightarrow> addr option"

definition post_enqueue :: "addr \<Rightarrow> post_store \<Rightarrow> post_store" where
  "post_enqueue t s =
     (let s = s\<lparr>pq_next := (pq_next s)(t := None)\<rparr>;
          s = (case pq_tail s of
                 Some l \<Rightarrow> s\<lparr>pq_next := (pq_next s)(l := Some t)\<rparr>
               | None \<Rightarrow> s\<lparr>pq_head := Some t\<rparr>)
      in s\<lparr>pq_tail := Some t\<rparr>)"

text \<open>Taking the whole queue: the local head and the emptied queue.\<close>

definition post_take :: "post_store \<Rightarrow> addr option \<times> post_store" where
  "post_take s = (pq_head s, s\<lparr>pq_head := None, pq_tail := None\<rparr>)"

fun chain :: "(addr \<Rightarrow> addr option) \<Rightarrow> addr option \<Rightarrow> addr list \<Rightarrow> bool" where
  "chain nxt h [] \<longleftrightarrow> h = None"
| "chain nxt h (p # ps) \<longleftrightarrow> h = Some p \<and> chain nxt (nxt p) ps"

definition queued :: "post_store \<Rightarrow> addr list \<Rightarrow> bool" where
  "queued s xs \<longleftrightarrow> chain (pq_next s) (pq_head s) xs \<and> distinct xs
     \<and> pq_tail s = (if xs = [] then None else Some (last xs))"

section \<open>Refinement of the doubly linked lists\<close>

lemma links_cong:
  assumes "links s l ps" "read_slot s' l = read_slot s l"
    and "\<forall>p\<in>set ps. ls_next s' p = ls_next s p" "\<forall>p\<in>set ps. ls_prev s' p = ls_prev s p"
  shows "links s' l ps"
  using assms by (induction ps arbitrary: l) (auto simp: read_slot_def)

lemma io_list_add_links:
  assumes "linked s xs" "n \<notin> set xs"
  shows "linked (io_list_add n s) (n # xs)"
proof (cases xs)
  case Nil
  then show ?thesis using assms by (simp add: linked_def io_list_add_def read_slot_def Let_def)
next
  case (Cons h ys)
  have s: "ls_head s = Some h" "links s (NextOf h) ys" "h \<notin> set ys"
    using assms(1) Cons by (auto simp: linked_def read_slot_def)
  have "links (io_list_add n s) (NextOf h) ys"
    using s assms(2) Cons
    by (intro links_cong [OF s(2)]) (auto simp: io_list_add_def read_slot_def Let_def)
  moreover have "ls_head (io_list_add n s) = Some n" "ls_prev (io_list_add n s) n = Head"
    "ls_next (io_list_add n s) n = Some h" "ls_prev (io_list_add n s) h = NextOf n"
    using s assms(2) Cons by (auto simp: io_list_add_def Let_def)
  ultimately show ?thesis using assms Cons by (simp add: linked_def read_slot_def)
qed

lemma links_prev_in: "links s l (ps @ n # qs) \<Longrightarrow> ls_prev s n \<in> insert l (NextOf ` set ps)"
  by (induction ps arbitrary: l) auto

lemma links_tail: "links s l (ps @ n # qs) \<Longrightarrow> links s (NextOf n) qs"
  by (induction ps arbitrary: l) auto

lemma links_next: "links s (NextOf n) qs \<Longrightarrow> ls_next s n = (case qs of [] \<Rightarrow> None | m # _ \<Rightarrow> Some m)"
  by (cases qs) (auto simp: read_slot_def)

lemma del_links:
  assumes "links s l (ps @ n # qs)" "distinct (ps @ n # qs)" "\<forall>p\<in>set (ps @ n # qs). l \<noteq> NextOf p"
  shows "links (io_list_del n s) l (ps @ qs)"
  using assms
proof (induction ps arbitrary: l)
  case Nil
  then have n: "ls_prev s n = l" "links s (NextOf n) qs" by auto
  note nx = links_next [OF n(2)]
  show ?case
  proof (cases qs)
    case Nil
    then show ?thesis using n nx by (cases l) (auto simp: io_list_del_def write_slot_def read_slot_def)
  next
    case (Cons m r)
    then have m: "links s (NextOf m) r" "m \<notin> set r" using n(2) Nil by auto
    have "links (io_list_del n s) (NextOf m) r"
      using Cons Nil.prems n nx
      by (intro links_cong [OF m(1)])
        (cases l; auto simp: io_list_del_def write_slot_def read_slot_def)+
    moreover have "read_slot (io_list_del n s) l = Some m" "ls_prev (io_list_del n s) m = l"
      using Cons Nil.prems n nx by (cases l; auto simp: io_list_del_def write_slot_def read_slot_def)+
    ultimately show ?thesis using Cons by simp
  qed
next
  case (Cons p ps)
  then have p: "read_slot s l = Some p" "ls_prev s p = l" "links s (NextOf p) (ps @ n # qs)" by auto
  have IH: "links (io_list_del n s) (NextOf p) (ps @ qs)" using Cons by auto
  have k: "ls_prev s n \<noteq> l" using links_prev_in [OF p(3)] Cons.prems(3) by auto
  have "\<forall>m. ls_next s n = Some m \<longrightarrow> m \<noteq> p \<and> m \<noteq> n"
    using links_next [OF links_tail [OF p(3)]] Cons.prems(2) by (auto split: list.splits)
  then have "read_slot (io_list_del n s) l = Some p" "ls_prev (io_list_del n s) p = l"
    using p k by (auto simp: io_list_del_def write_slot_def read_slot_def Let_def split: slot.splits option.splits)
  with IH show ?case by simp
qed

lemma io_list_del_links:
  assumes "linked s xs" "n \<in> set xs"
  shows "linked (io_list_del n s) (remove1 n xs)"
proof -
  obtain ps qs where xs: "xs = ps @ n # qs" "n \<notin> set ps" using assms(2) by (meson split_list_first)
  have "links (io_list_del n s) Head (ps @ qs)"
    using assms(1) xs by (intro del_links) (auto simp: linked_def)
  with assms(1) xs show ?thesis by (simp add: linked_def remove1_append)
qed

lemma timer_list_eqs: "timer_list_add = io_list_add" "timer_list_del = io_list_del"
  by (rule ext, rule ext, simp add: timer_list_add_def io_list_add_def timer_list_del_def io_list_del_def)+

section \<open>The contract of the lists\<close>

locale list_store =
  fixes repr :: "'s \<Rightarrow> addr list \<Rightarrow> bool"
    and add :: "addr \<Rightarrow> 's \<Rightarrow> 's"
    and del :: "addr \<Rightarrow> 's \<Rightarrow> 's"
  assumes repr_unique: "repr s xs \<Longrightarrow> repr s ys \<Longrightarrow> xs = ys"
    and repr_distinct: "repr s xs \<Longrightarrow> distinct xs"
    and add_repr: "repr s xs \<Longrightarrow> n \<notin> set xs \<Longrightarrow> repr (add n s) (n # xs)"
    and del_repr: "repr s xs \<Longrightarrow> n \<in> set xs \<Longrightarrow> repr (del n s) (remove1 n xs)"
begin

lemma del_add: "repr s xs \<Longrightarrow> n \<notin> set xs \<Longrightarrow> repr (del n (add n s)) xs"
  using del_repr [OF add_repr, of s xs n n] by simp

lemma del_gone: "repr s xs \<Longrightarrow> n \<in> set xs \<Longrightarrow> repr (del n s) ys \<Longrightarrow> set ys = set xs - {n}"
  using del_repr [of s xs n] repr_unique [of "del n s"] repr_distinct [of s xs] set_remove1_eq by metis

text \<open>Whatever nodes are added in which order, all of them can be removed again.\<close>

lemma del_all_added:
  "repr s xs \<Longrightarrow> distinct ns \<Longrightarrow> set ns \<inter> set xs = {} \<Longrightarrow> repr (foldr del ns (foldr add (rev ns) s)) xs"
proof (induction ns arbitrary: s xs)
  case (Cons n ns)
  have "repr (add n s) (n # xs)" using Cons by (intro add_repr) auto
  then have "repr (foldr del ns (foldr add (rev ns) (add n s))) (n # xs)"
    using Cons by (intro Cons.IH) auto
  from del_repr [OF this, of n] show ?case using Cons.prems by simp
qed simp

end

lemma links_unique: "links s l xs \<Longrightarrow> links s l ys \<Longrightarrow> xs = ys"
proof (induction xs arbitrary: l ys)
  case Nil
  then show ?case by (cases ys) auto
next
  case (Cons p ps)
  then show ?case by (cases ys) auto
qed

lemma linked_unique: "linked s xs \<Longrightarrow> linked s ys \<Longrightarrow> xs = ys"
  by (auto simp: linked_def intro: links_unique)

lemma linked_distinct: "linked s xs \<Longrightarrow> distinct xs"
  by (simp add: linked_def)

interpretation io_links: list_store linked io_list_add io_list_del
  by unfold_locales (blast intro: linked_unique linked_distinct io_list_add_links io_list_del_links)+

interpretation timer_links: list_store linked timer_list_add timer_list_del
  unfolding timer_list_eqs by (rule io_links.list_store_axioms)

section \<open>Refinement of the post queue\<close>

lemma chain_upd: "chain nxt h xs \<Longrightarrow> t \<notin> set xs \<Longrightarrow> chain (nxt(t := v)) h xs"
  by (induction xs arbitrary: h) auto

lemma chain_snoc:
  "chain nxt h (xs @ [l]) \<Longrightarrow> distinct (xs @ [l]) \<Longrightarrow> t \<notin> set (xs @ [l]) \<Longrightarrow>
     chain (nxt(t := None, l := Some t)) h (xs @ [l, t])"
  by (induction xs arbitrary: h) auto

lemma post_enqueue_queued:
  assumes "queued s xs" "t \<notin> set xs"
  shows "queued (post_enqueue t s) (xs @ [t])"
proof (cases xs rule: rev_cases)
  case Nil
  then show ?thesis using assms by (simp add: queued_def post_enqueue_def Let_def)
next
  case (snoc ys l)
  then have "chain ((pq_next s)(t := None, l := Some t)) (pq_head s) (ys @ [l, t])"
    using assms by (intro chain_snoc) (auto simp: queued_def)
  then show ?thesis using assms snoc by (simp add: queued_def post_enqueue_def Let_def)
qed

lemma post_take_queued:
  "queued s xs \<Longrightarrow> chain (pq_next s) (fst (post_take s)) xs \<and> queued (snd (post_take s)) []"
  by (simp add: queued_def post_take_def)

section \<open>Properties\<close>

text \<open>
  C30. The pointer operations implement lists: adding a fresh node puts it in front, removing
  a node at any position (head, middle, tail) removes it and nothing else, and all \<open>prev\<close>
  pointers stay consistent, for the IO list and for the timer list.
\<close>

theorem intrusive_lists_refine:
  assumes "linked s xs"
  shows "(n \<notin> set xs \<longrightarrow> linked (io_list_add n s) (n # xs) \<and> linked (timer_list_add n s) (n # xs))
    \<and> (n \<in> set xs \<longrightarrow> linked (io_list_del n s) (remove1 n xs) \<and> linked (timer_list_del n s) (remove1 n xs))"
  using assms io_links.add_repr io_links.del_repr timer_links.add_repr timer_links.del_repr by blast

theorem intrusive_lists_refine_witness:
  "\<exists>s. linked s [2, 1] \<and> linked (io_list_add 3 s) [3, 2, 1] \<and> linked (io_list_del 1 s) [2]"
proof -
  let ?s0 = "\<lparr>ls_head = None, ls_next = \<lambda>_. None, ls_prev = \<lambda>_. Head\<rparr>"
  let ?s = "io_list_add 2 (io_list_add 1 ?s0)"
  have l: "linked ?s [2, 1]" by (simp add: linked_def io_list_add_def read_slot_def)
  from intrusive_lists_refine [OF l, of 3] intrusive_lists_refine [OF l, of 1] l show ?thesis by auto
qed

text \<open>
  C31. The post queue is a FIFO queue: \<open>sevent_post\<close> appends at the tail, also to an empty
  queue, and the swap at the start of \<open>run_posts\<close> hands out the whole chain in order and
  leaves an empty queue.
\<close>

theorem post_queue_refines:
  assumes "queued s xs" and "t \<notin> set xs"
  shows "queued (post_enqueue t s) (xs @ [t])
    \<and> chain (pq_next s) (fst (post_take s)) xs \<and> queued (snd (post_take s)) []"
  using assms post_enqueue_queued post_take_queued by blast

theorem post_queue_refines_witness:
  "\<exists>s. queued s [7] \<and> queued (post_enqueue 4 s) [7, 4]"
proof -
  let ?s = "post_enqueue 7 \<lparr>pq_head = None, pq_tail = None, pq_next = \<lambda>_. None\<rparr>"
  have q: "queued ?s [7]" by (simp add: queued_def post_enqueue_def)
  from post_queue_refines [OF q, of 4] q show ?thesis by auto
qed

end
