(* ===== verification/Sevent_Loop.thy ===== *)
theory Sevent_Loop
  imports Sevent_Prelude Sevent_Lists
begin

text \<open>
  \<^verbatim>\<open>src/sevent.c\<close>: the select event loop. A context is a record; the linked lists are lists
  of node addresses (\<^verbatim>\<open>Sevent_Lists\<close> shows that the pointer operations implement them) and
  the nodes live in a heap, so that freeing and use after free are visible: the functions of
  a round return \<open>None\<close> when they would read or free a node that is not there. What is not
  code of the library is a parameter: the allocator \<open>malloc\<close> (any function that does not
  hand out a live address), \<open>select\<close> with the calls other threads make meanwhile, and the
  user's callbacks \<open>call\<close>, which act on the context through the public functions
  (\<open>api_step\<close>) and on the rest of the program state \<open>cx_env\<close> at will. Each locked
  region is one step. The functions return the callbacks they made, in order, in place of
  the flag \<open>fired\<close>. A callback does not call \<open>sevent_run_once\<close> or \<open>sevent_destroy\<close>.
\<close>

section \<open>Nodes and context\<close>

type_synonym cb = nat
type_synonym udata = nat
type_synonym thread_id = int

record sevent_io =
  io_fd :: int
  io_read_cb :: "cb option"
  io_write_cb :: "cb option"
  io_data :: udata
  io_deleted :: bool

record sevent_timer =
  tm_interval_ms :: "32 word"
  tm_remaining_ms :: int
  tm_cb :: cb
  tm_data :: udata
  tm_deleted :: bool

record sevent_post_node =
  po_cb :: cb
  po_data :: udata

datatype node = IoNode sevent_io | TimerNode sevent_timer | PostNode sevent_post_node

record 'u sevent_context =
  cx_running :: bool
  cx_loop_thread :: thread_id
  cx_wake_fd :: int
  cx_wake :: nat
  cx_io_list :: "addr list"
  cx_death_io :: "addr list"
  cx_timer_list :: "addr list"
  cx_death_timer :: "addr list"
  cx_post_pending :: "addr list"
  cx_io_count :: int
  cx_timer_count :: int
  cx_post_pending_count :: int
  cx_heap :: "addr \<Rightarrow> node option"
  cx_env :: 'u

record sevent_io_handler =
  h_fd :: int
  h_io_read :: "cb option"
  h_io_write :: "cb option"
  h_data :: udata

definition FD_SETSIZE :: int where "FD_SETSIZE = 1024"

definition get_io :: "addr \<Rightarrow> 'u sevent_context \<Rightarrow> sevent_io option" where
  "get_io p c = (case cx_heap c p of Some (IoNode n) \<Rightarrow> Some n | _ \<Rightarrow> None)"

definition get_timer :: "addr \<Rightarrow> 'u sevent_context \<Rightarrow> sevent_timer option" where
  "get_timer p c = (case cx_heap c p of Some (TimerNode n) \<Rightarrow> Some n | _ \<Rightarrow> None)"

definition get_post :: "addr \<Rightarrow> 'u sevent_context \<Rightarrow> sevent_post_node option" where
  "get_post p c = (case cx_heap c p of Some (PostNode n) \<Rightarrow> Some n | _ \<Rightarrow> None)"

definition put_node :: "addr \<Rightarrow> node \<Rightarrow> 'u sevent_context \<Rightarrow> 'u sevent_context" where
  "put_node p n c = c\<lparr>cx_heap := (cx_heap c)(p := Some n)\<rparr>"

text \<open>\<open>free\<close>: \<open>None\<close> for a double free.\<close>

definition free_node :: "addr \<Rightarrow> 'u sevent_context \<Rightarrow> 'u sevent_context option" where
  "free_node p c =
     (if cx_heap c p = None then None else Some (c\<lparr>cx_heap := (cx_heap c)(p := None)\<rparr>))"

fun free_nodes :: "addr list \<Rightarrow> 'u sevent_context \<Rightarrow> 'u sevent_context option" where
  "free_nodes [] c = Some c"
| "free_nodes (p # ps) c = (case free_node p c of None \<Rightarrow> None | Some c' \<Rightarrow> free_nodes ps c')"

section \<open>Core functions\<close>

text \<open>
  \<open>sevent_set_allocator\<close> on the pair of the current functions; \<open>libc\<close> is the default pair.
\<close>

definition sevent_set_allocator ::
  "'f \<times> 'g \<Rightarrow> 'f option \<Rightarrow> 'g option \<Rightarrow> 'f \<times> 'g \<Rightarrow> int \<times> ('f \<times> 'g)" where
  "sevent_set_allocator libc mf ff cur =
     (if (mf = None) \<noteq> (ff = None) then (SEVENT_ERR_INVAL, cur)
      else case (mf, ff) of
        (Some m, Some f) \<Rightarrow> (SEVENT_SUCCESS, (m, f))
      | _ \<Rightarrow> (SEVENT_SUCCESS, libc))"

text \<open>The outcomes of the allocation, the two mutexes and the wakeup descriptor are arguments.\<close>

definition sevent_create :: "bool \<Rightarrow> bool \<Rightarrow> int option \<Rightarrow> 'u \<Rightarrow> 'u sevent_context option" where
  "sevent_create alloc_ok mutex_ok wake_fd u =
     (if \<not> alloc_ok then None
      else if \<not> mutex_ok then None
      else case wake_fd of
        None \<Rightarrow> None
      | Some fd \<Rightarrow>
          Some \<lparr>cx_running = False, cx_loop_thread = -1, cx_wake_fd = fd, cx_wake = 0, cx_io_list = [],
                cx_death_io = [], cx_timer_list = [], cx_death_timer = [], cx_post_pending = [],
                cx_io_count = 0, cx_timer_count = 0, cx_post_pending_count = 0,
                cx_heap = (\<lambda>_. None), cx_env = u\<rparr>)"

definition sevent_destroy :: "'u sevent_context \<Rightarrow> 'u sevent_context option" where
  "sevent_destroy c =
     (let c = c\<lparr>cx_running := False\<rparr>
      in case free_nodes (cx_post_pending c) c of None \<Rightarrow> None | Some c \<Rightarrow>
         case free_nodes (cx_io_list c) c of None \<Rightarrow> None | Some c \<Rightarrow>
         case free_nodes (cx_death_io c) c of None \<Rightarrow> None | Some c \<Rightarrow>
         case free_nodes (cx_timer_list c) c of None \<Rightarrow> None | Some c \<Rightarrow>
         free_nodes (cx_death_timer c) c)"

definition sevent_wakeup :: "'u sevent_context \<Rightarrow> 'u sevent_context" where
  "sevent_wakeup c = c\<lparr>cx_wake := Suc (cx_wake c)\<rparr>"

definition sevent_stop :: "'u sevent_context \<Rightarrow> 'u sevent_context" where
  "sevent_stop c = sevent_wakeup (c\<lparr>cx_running := False\<rparr>)"

type_synonym 'u allocator = "'u sevent_context \<Rightarrow> addr option"

text \<open>A callback or handler that may be NULL is an option.\<close>

definition sevent_post ::
  "'u allocator \<Rightarrow> cb option \<Rightarrow> udata \<Rightarrow> 'u sevent_context \<Rightarrow> int \<times> 'u sevent_context" where
  "sevent_post malloc h data c =
     (case h of
        None \<Rightarrow> (SEVENT_ERR_INVAL, c)
      | Some f \<Rightarrow>
          case malloc c of
            None \<Rightarrow> (SEVENT_ERR_NOMEM, c)
          | Some t \<Rightarrow>
              (SEVENT_SUCCESS,
               sevent_wakeup
                 ((put_node t (PostNode \<lparr>po_cb = f, po_data = data\<rparr>) c)
                    \<lparr>cx_post_pending := cx_post_pending c @ [t],
                     cx_post_pending_count := cx_post_pending_count c + 1\<rparr>)))"

type_synonym 'u callbacks = "cb \<Rightarrow> udata \<Rightarrow> 'u sevent_context \<Rightarrow> 'u sevent_context"

definition sevent_dispatch ::
  "'u allocator \<Rightarrow> 'u callbacks \<Rightarrow> thread_id \<Rightarrow> cb option \<Rightarrow> udata \<Rightarrow> 'u sevent_context \<Rightarrow> int \<times> 'u sevent_context" where
  "sevent_dispatch malloc call self h data c =
     (case h of
        None \<Rightarrow> (SEVENT_ERR_INVAL, c)
      | Some f \<Rightarrow>
          if cx_loop_thread c = self then (SEVENT_SUCCESS, call f data c)
          else sevent_post malloc h data c)"

definition sevent_is_running :: "'u sevent_context \<Rightarrow> int" where
  "sevent_is_running c = (if cx_running c then 1 else 0)"

definition sevent_get_counts :: "'u sevent_context \<Rightarrow> int \<times> int \<times> int" where
  "sevent_get_counts c = (cx_io_count c, cx_timer_count c, cx_post_pending_count c)"

section \<open>Registration\<close>

definition fd_registered :: "int \<Rightarrow> 'u sevent_context \<Rightarrow> bool" where
  "fd_registered fd c \<longleftrightarrow>
     list_ex (\<lambda>p. case get_io p c of None \<Rightarrow> False | Some n \<Rightarrow> io_fd n = fd \<and> \<not> io_deleted n) (cx_io_list c)"

definition sevent_io_register ::
  "'u allocator \<Rightarrow> sevent_io_handler \<Rightarrow> 'u sevent_context \<Rightarrow> addr option \<times> 'u sevent_context" where
  "sevent_io_register malloc h c =
     (if h_fd h < 0 \<or> FD_SETSIZE \<le> h_fd h then (None, c)
      else if h_io_read h = None \<and> h_io_write h = None then (None, c)
      else case malloc c of
        None \<Rightarrow> (None, c)
      | Some io \<Rightarrow>
          if fd_registered (h_fd h) c then (None, c)
          else
            (Some io,
             sevent_wakeup
               ((put_node io (IoNode \<lparr>io_fd = h_fd h, io_read_cb = h_io_read h, io_write_cb = h_io_write h,
                                     io_data = h_data h, io_deleted = False\<rparr>) c)
                  \<lparr>cx_io_list := io # cx_io_list c, cx_io_count := cx_io_count c + 1\<rparr>)))"

definition sevent_io_unregister :: "addr \<Rightarrow> 'u sevent_context \<Rightarrow> 'u sevent_context" where
  "sevent_io_unregister h c =
     (if h \<notin> set (cx_io_list c) then c
      else
        let c' = (case get_io h c of None \<Rightarrow> c | Some n \<Rightarrow> put_node h (IoNode (n\<lparr>io_deleted := True\<rparr>)) c)
        in sevent_wakeup
             (c'\<lparr>cx_io_list := remove1 h (cx_io_list c), cx_io_count := cx_io_count c - 1,
                 cx_death_io := h # cx_death_io c\<rparr>))"

definition wrap32 :: "int \<Rightarrow> int" where
  "wrap32 x = (x + 2147483648) mod 4294967296 - 2147483648"

definition sevent_timer_register ::
  "'u allocator \<Rightarrow> 32 word \<Rightarrow> cb option \<Rightarrow> udata \<Rightarrow> 'u sevent_context \<Rightarrow> addr option \<times> 'u sevent_context" where
  "sevent_timer_register malloc interval_ms cb data c =
     (case cb of
        None \<Rightarrow> (None, c)
      | Some f \<Rightarrow>
          if interval_ms = 0 then (None, c)
          else case malloc c of
            None \<Rightarrow> (None, c)
          | Some t \<Rightarrow>
              (Some t,
               sevent_wakeup
                 ((put_node t (TimerNode \<lparr>tm_interval_ms = interval_ms, tm_remaining_ms = wrap32 (uint interval_ms),
                                         tm_cb = f, tm_data = data, tm_deleted = False\<rparr>) c)
                    \<lparr>cx_timer_list := t # cx_timer_list c, cx_timer_count := cx_timer_count c + 1\<rparr>)))"

definition sevent_timer_unregister :: "addr \<Rightarrow> 'u sevent_context \<Rightarrow> 'u sevent_context" where
  "sevent_timer_unregister h c =
     sevent_wakeup
       (if h \<notin> set (cx_timer_list c) then c
        else
          let c' = (case get_timer h c of None \<Rightarrow> c | Some n \<Rightarrow> put_node h (TimerNode (n\<lparr>tm_deleted := True\<rparr>)) c)
          in c'\<lparr>cx_timer_list := remove1 h (cx_timer_list c), cx_timer_count := cx_timer_count c - 1,
                cx_death_timer := h # cx_death_timer c\<rparr>)"

section \<open>One round\<close>

definition run_free_death :: "'u sevent_context \<Rightarrow> 'u sevent_context option" where
  "run_free_death c =
     (let die_io = cx_death_io c; die_tmr = cx_death_timer c;
          c = c\<lparr>cx_death_io := [], cx_death_timer := []\<rparr>
      in case free_nodes die_io c of None \<Rightarrow> None | Some c \<Rightarrow> free_nodes die_tmr c)"

record fdset_plan =
  pl_rfds :: "int list"
  pl_wfds :: "int list"
  pl_iosnap :: "addr list"
  pl_max_fd :: int
  pl_has_io :: bool
  pl_has_timer :: bool
  pl_tv :: "nat \<times> nat"

definition timer_wait :: "sevent_timer \<Rightarrow> nat" where
  "timer_wait t = (if 0 < tm_remaining_ms t then nat (tm_remaining_ms t) else 0)"

definition run_build_fdset :: "'u sevent_context \<Rightarrow> fdset_plan option" where
  "run_build_fdset c =
     (case those (map (\<lambda>p. get_io p c) (cx_io_list c)) of
        None \<Rightarrow> None
      | Some ios \<Rightarrow>
        case those (map (\<lambda>p. get_timer p c) (cx_timer_list c)) of
          None \<Rightarrow> None
        | Some tms \<Rightarrow>
            let next_timer = foldl (\<lambda>m t. if timer_wait t < m then timer_wait t else m) 4294967295 tms
            in Some \<lparr>pl_rfds = cx_wake_fd c # map io_fd (filter (\<lambda>n. io_read_cb n \<noteq> None) ios),
                     pl_wfds = map io_fd (filter (\<lambda>n. io_write_cb n \<noteq> None) ios),
                     pl_iosnap = take (nat FD_SETSIZE) (cx_io_list c),
                     pl_max_fd = foldl (\<lambda>m n. if m < io_fd n then io_fd n else m) (cx_wake_fd c) ios,
                     pl_has_io = (cx_io_list c \<noteq> []), pl_has_timer = (cx_timer_list c \<noteq> []),
                     pl_tv = (next_timer div 1000, (next_timer mod 1000) * 1000)\<rparr>)"

text \<open>A callback that was made: the node, the function, its argument.\<close>

type_synonym firing = "addr \<times> cb \<times> udata"

fun run_io_snap ::
  "'u callbacks \<Rightarrow> int list \<Rightarrow> int list \<Rightarrow> addr list \<Rightarrow> 'u sevent_context \<Rightarrow> ('u sevent_context \<times> firing list) option" where
  "run_io_snap call rfds wfds [] c = Some (c, [])"
| "run_io_snap call rfds wfds (p # ps) c =
     (case get_io p c of
        None \<Rightarrow> None
      | Some io \<Rightarrow>
          if io_deleted io then run_io_snap call rfds wfds ps c
          else if io_fd io < 0 \<or> FD_SETSIZE \<le> io_fd io then run_io_snap call rfds wfds ps c
          else
            let fire = (if io_read_cb io \<noteq> None \<and> io_fd io \<in> set rfds then io_read_cb io
                        else if io_write_cb io \<noteq> None \<and> io_fd io \<in> set wfds then io_write_cb io
                        else None)
            in case fire of
                 None \<Rightarrow> run_io_snap call rfds wfds ps c
               | Some f \<Rightarrow>
                   (case run_io_snap call rfds wfds ps (call f (io_data io) c) of
                      None \<Rightarrow> None
                    | Some (c', log) \<Rightarrow> Some (c', (p, f, io_data io) # log)))"

definition run_io_callbacks ::
  "'u callbacks \<Rightarrow> int \<Rightarrow> int list \<Rightarrow> int list \<Rightarrow> addr list \<Rightarrow> 'u sevent_context \<Rightarrow> ('u sevent_context \<times> firing list) option" where
  "run_io_callbacks call nfds rfds wfds iosnap c =
     (if nfds \<le> 0 then Some (c, [])
      else
        let c = (if cx_wake_fd c \<in> set rfds then c\<lparr>cx_wake := 0\<rparr> else c)
        in run_io_snap call rfds wfds iosnap c)"

fun run_active :: "'u callbacks \<Rightarrow> addr list \<Rightarrow> 'u sevent_context \<Rightarrow> ('u sevent_context \<times> firing list) option" where
  "run_active call [] c = Some (c, [])"
| "run_active call (p # ps) c =
     (case get_post p c of
        None \<Rightarrow> None
      | Some n \<Rightarrow>
          case free_node p (call (po_cb n) (po_data n) c) of
            None \<Rightarrow> None
          | Some c' \<Rightarrow>
              case run_active call ps c' of
                None \<Rightarrow> None
              | Some (c'', log) \<Rightarrow> Some (c'', (p, po_cb n, po_data n) # log))"

definition run_posts :: "'u callbacks \<Rightarrow> 'u sevent_context \<Rightarrow> ('u sevent_context \<times> firing list) option" where
  "run_posts call c =
     run_active call (cx_post_pending c) (c\<lparr>cx_post_pending := [], cx_post_pending_count := 0\<rparr>)"

definition MAX_EXPIRED_PER_TICK :: nat where "MAX_EXPIRED_PER_TICK = 32"
definition MAX_FIRE_PER_TIMER :: nat where "MAX_FIRE_PER_TIMER = 100"

text \<open>The inner loop: how often the timer fires and what is left, at most \<open>k\<close> more times.\<close>

fun fire_loop :: "nat \<Rightarrow> int \<Rightarrow> int \<Rightarrow> nat \<times> int" where
  "fire_loop 0 interval rem = (0, rem)"
| "fire_loop (Suc k) interval rem =
     (if rem \<le> 0 then (case fire_loop k interval (wrap32 (rem + interval)) of (n, r) \<Rightarrow> (Suc n, r))
      else (0, rem))"

text \<open>Phase A for the timers \<open>ps\<close>, with the entries collected so far.\<close>

fun collect_expired ::
  "int \<Rightarrow> addr list \<Rightarrow> (addr \<times> nat) list \<Rightarrow> 'u sevent_context \<Rightarrow> ('u sevent_context \<times> (addr \<times> nat) list) option" where
  "collect_expired delta [] acc c = Some (c, acc)"
| "collect_expired delta (p # ps) acc c =
     (case get_timer p c of
        None \<Rightarrow> None
      | Some t \<Rightarrow>
          if tm_deleted t then collect_expired delta ps acc c
          else
            let (n, rem) = fire_loop MAX_FIRE_PER_TIMER (wrap32 (uint (tm_interval_ms t)))
                             (wrap32 (tm_remaining_ms t - wrap32 delta))
            in if 0 < n \<and> length acc < MAX_EXPIRED_PER_TICK
               then collect_expired delta ps (acc @ [(p, n)]) (put_node p (TimerNode (t\<lparr>tm_remaining_ms := rem\<rparr>)) c)
               else collect_expired delta ps acc
                      (put_node p (TimerNode (t\<lparr>tm_remaining_ms := (if 0 < n then 1 else rem)\<rparr>)) c))"

fun fire_times :: "'u callbacks \<Rightarrow> addr \<Rightarrow> nat \<Rightarrow> 'u sevent_context \<Rightarrow> ('u sevent_context \<times> firing list) option" where
  "fire_times call p 0 c = Some (c, [])"
| "fire_times call p (Suc k) c =
     (case get_timer p c of
        None \<Rightarrow> None
      | Some t \<Rightarrow>
          if tm_deleted t then Some (c, [])
          else case fire_times call p k (call (tm_cb t) (tm_data t) c) of
                 None \<Rightarrow> None
               | Some (c', log) \<Rightarrow> Some (c', (p, tm_cb t, tm_data t) # log))"

text \<open>Phase B; the test before the inner loop and the one in it coincide for positive counts.\<close>

fun fire_expired :: "'u callbacks \<Rightarrow> (addr \<times> nat) list \<Rightarrow> 'u sevent_context \<Rightarrow> ('u sevent_context \<times> firing list) option" where
  "fire_expired call [] c = Some (c, [])"
| "fire_expired call ((p, n) # es) c =
     (case get_timer p c of
        None \<Rightarrow> None
      | Some t \<Rightarrow>
          if tm_deleted t then fire_expired call es c
          else case fire_times call p n c of
                 None \<Rightarrow> None
               | Some (c', log) \<Rightarrow>
                   case fire_expired call es c' of
                     None \<Rightarrow> None
                   | Some (c'', log') \<Rightarrow> Some (c'', log @ log'))"

definition run_timers :: "'u callbacks \<Rightarrow> bool \<Rightarrow> int \<Rightarrow> 'u sevent_context \<Rightarrow> ('u sevent_context \<times> firing list) option" where
  "run_timers call has_timer delta c =
     (if \<not> has_timer \<or> delta \<le> 0 then Some (c, [])
      else case collect_expired delta (cx_timer_list c) [] c of
             None \<Rightarrow> None
           | Some (c', expired) \<Rightarrow> fire_expired call expired c')"

section \<open>The round and the loop\<close>

text \<open>C division of a possibly negative number by a positive one.\<close>

definition tdiv :: "int \<Rightarrow> int \<Rightarrow> int" where
  "tdiv a b = (if a < 0 then - ((- a) div b) else a div b)"

definition ms_elapsed :: "int \<times> int \<Rightarrow> int \<times> int \<Rightarrow> int" where
  "ms_elapsed a b = (fst b - fst a) * 1000 + tdiv (snd b - snd a) 1000000"

datatype select_errno = EINTR | EBADF | EOTHER

record select_result =
  sr_nfds :: int
  sr_errno :: select_errno
  sr_rfds :: "int list"
  sr_wfds :: "int list"
  sr_t0 :: "int \<times> int"
  sr_t1 :: "int \<times> int"

text \<open>\<open>select\<close> with what other threads did to the context meanwhile.\<close>

type_synonym 'u selector =
  "int \<Rightarrow> int list \<Rightarrow> int list \<Rightarrow> nat \<times> nat \<Rightarrow> 'u sevent_context \<Rightarrow> select_result \<times> 'u sevent_context"

text \<open>Phases 4 and 5, after the callbacks \<open>log\<close> of phase 3.\<close>

definition finish_round ::
  "'u callbacks \<Rightarrow> bool \<Rightarrow> int \<Rightarrow> firing list \<Rightarrow> 'u sevent_context \<Rightarrow> (int \<times> 'u sevent_context \<times> firing list) option" where
  "finish_round call has_timer delta log c =
     (case run_posts call c of
        None \<Rightarrow> None
      | Some (c, log') \<Rightarrow>
          case run_timers call has_timer delta c of
            None \<Rightarrow> None
          | Some (c, log'') \<Rightarrow>
              let fired = log @ log' @ log'' in Some (if fired \<noteq> [] then 1 else 0, c, fired))"

definition sevent_run_once ::
  "'u selector \<Rightarrow> 'u callbacks \<Rightarrow> thread_id \<Rightarrow> 'u sevent_context \<Rightarrow> (int \<times> 'u sevent_context \<times> firing list) option" where
  "sevent_run_once sel call self c0 =
     (case run_free_death (c0\<lparr>cx_loop_thread := self\<rparr>) of
        None \<Rightarrow> None
      | Some c \<Rightarrow>
        case run_build_fdset c of
          None \<Rightarrow> None
        | Some pl \<Rightarrow>
            if \<not> (pl_has_io pl \<or> pl_has_timer pl) then finish_round call (pl_has_timer pl) 0 [] c
            else
              let tv = (if pl_has_timer pl then pl_tv pl else (0, 50 * 1000));
                  (r, c) = sel (pl_max_fd pl + 1) (pl_rfds pl) (pl_wfds pl) tv c;
                  delta = (let d = ms_elapsed (sr_t0 r) (sr_t1 r) in if d < 0 then 0 else d)
              in if sr_nfds r < 0 then
                   if sr_errno r \<noteq> EINTR \<and> sr_errno r \<noteq> EBADF then Some (SEVENT_ERR_INVAL, c, [])
                   else finish_round call (pl_has_timer pl)
                          (if sr_errno r = EBADF \<and> delta < 1 then 1 else delta) [] c
                 else case run_io_callbacks call (sr_nfds r) (sr_rfds r) (sr_wfds r) (pl_iosnap pl) c of
                        None \<Rightarrow> None
                      | Some (c, log) \<Rightarrow> finish_round call (pl_has_timer pl) delta log c)"

text \<open>
  \<open>while(ctx->running) sevent_run_once(ctx)\<close>: \<open>None\<close> when it does not end; a memory error
  inside a round is \<open>Some None\<close>.
\<close>

partial_function (option) run_while ::
  "'u selector \<Rightarrow> 'u callbacks \<Rightarrow> thread_id \<Rightarrow> 'u sevent_context \<Rightarrow> 'u sevent_context option option" where
  "run_while sel call self c =
     (if \<not> cx_running c then Some (Some c)
      else case sevent_run_once sel call self c of
             None \<Rightarrow> Some None
           | Some (rc, c', log) \<Rightarrow> run_while sel call self c')"

definition sevent_run ::
  "'u selector \<Rightarrow> 'u callbacks \<Rightarrow> thread_id \<Rightarrow> 'u sevent_context \<Rightarrow> (int \<times> 'u sevent_context) option option" where
  "sevent_run sel call self c =
     (case run_while sel call self (c\<lparr>cx_running := True\<rparr>) of
        None \<Rightarrow> None
      | Some r \<Rightarrow> Some (map_option (\<lambda>c. (SEVENT_SUCCESS, c)) r))"

section \<open>The invariant\<close>

type_synonym heap = "addr \<Rightarrow> node option"

definition io_ok :: "bool \<Rightarrow> heap \<Rightarrow> addr \<Rightarrow> bool" where
  "io_ok dead h p \<longleftrightarrow> (\<exists>n. h p = Some (IoNode n) \<and> io_deleted n = dead \<and> 0 \<le> io_fd n \<and> io_fd n < FD_SETSIZE
     \<and> (io_read_cb n \<noteq> None \<or> io_write_cb n \<noteq> None))"

definition timer_ok :: "bool \<Rightarrow> heap \<Rightarrow> addr \<Rightarrow> bool" where
  "timer_ok dead h p \<longleftrightarrow> (\<exists>n. h p = Some (TimerNode n) \<and> tm_deleted n = dead \<and> tm_interval_ms n \<noteq> 0)"

definition post_ok :: "heap \<Rightarrow> addr \<Rightarrow> bool" where
  "post_ok h p \<longleftrightarrow> (\<exists>n. h p = Some (PostNode n))"

definition fd_of :: "heap \<Rightarrow> addr \<Rightarrow> int" where
  "fd_of h p = (case h p of Some (IoNode n) \<Rightarrow> io_fd n | _ \<Rightarrow> -1)"

definition all_nodes :: "'u sevent_context \<Rightarrow> addr list" where
  "all_nodes c = cx_io_list c @ cx_death_io c @ cx_timer_list c @ cx_death_timer c @ cx_post_pending c"

text \<open>
  \<open>xs\<close> are the posts that were taken from the queue and have not run yet. The heap holds
  exactly the nodes of the lists, once each: nothing leaks and nothing dangles.
\<close>

definition wf_ctx :: "addr list \<Rightarrow> 'u sevent_context \<Rightarrow> bool" where
  "wf_ctx xs c \<longleftrightarrow>
     distinct (all_nodes c @ xs) \<and> dom (cx_heap c) = set (all_nodes c @ xs)
     \<and> (\<forall>p\<in>set (cx_io_list c). io_ok False (cx_heap c) p) \<and> (\<forall>p\<in>set (cx_death_io c). io_ok True (cx_heap c) p)
     \<and> (\<forall>p\<in>set (cx_timer_list c). timer_ok False (cx_heap c) p)
     \<and> (\<forall>p\<in>set (cx_death_timer c). timer_ok True (cx_heap c) p)
     \<and> (\<forall>p\<in>set (cx_post_pending c @ xs). post_ok (cx_heap c) p)
     \<and> distinct (map (fd_of (cx_heap c)) (cx_io_list c))
     \<and> cx_io_count c = int (length (cx_io_list c)) \<and> cx_timer_count c = int (length (cx_timer_list c))
     \<and> cx_post_pending_count c = int (length (cx_post_pending c))"

definition malloc_fresh :: "'u allocator \<Rightarrow> bool" where
  "malloc_fresh malloc \<longleftrightarrow> (\<forall>c p. malloc c = Some p \<longrightarrow> cx_heap c p = None)"

lemmas ok_defs = io_ok_def timer_ok_def post_ok_def

lemma ok_upd [simp]:
  "q \<noteq> p \<Longrightarrow> io_ok d (h(q := x)) p = io_ok d h p" "q \<noteq> p \<Longrightarrow> timer_ok d (h(q := x)) p = timer_ok d h p"
  "q \<noteq> p \<Longrightarrow> post_ok (h(q := x)) p = post_ok h p" "q \<noteq> p \<Longrightarrow> fd_of (h(q := x)) p = fd_of h p"
  by (simp_all add: ok_defs fd_of_def)

lemma map_fd_upd [simp]: "q \<notin> set ps \<Longrightarrow> map (fd_of (h(q := x))) ps = map (fd_of h) ps"
  by (induction ps) auto

lemma put_node_sel [simp]:
  "cx_io_list (put_node p n c) = cx_io_list c" "cx_death_io (put_node p n c) = cx_death_io c"
  "cx_timer_list (put_node p n c) = cx_timer_list c" "cx_death_timer (put_node p n c) = cx_death_timer c"
  "cx_post_pending (put_node p n c) = cx_post_pending c" "cx_io_count (put_node p n c) = cx_io_count c"
  "cx_timer_count (put_node p n c) = cx_timer_count c" "cx_post_pending_count (put_node p n c) = cx_post_pending_count c"
  "cx_heap (put_node p n c) = (cx_heap c)(p := Some n)" "cx_env (put_node p n c) = cx_env c"
  "cx_wake_fd (put_node p n c) = cx_wake_fd c" "cx_running (put_node p n c) = cx_running c"
  by (simp_all add: put_node_def)

lemma wakeup_sel [simp]:
  "cx_io_list (sevent_wakeup c) = cx_io_list c" "cx_death_io (sevent_wakeup c) = cx_death_io c"
  "cx_timer_list (sevent_wakeup c) = cx_timer_list c" "cx_death_timer (sevent_wakeup c) = cx_death_timer c"
  "cx_post_pending (sevent_wakeup c) = cx_post_pending c" "cx_heap (sevent_wakeup c) = cx_heap c"
  "cx_running (sevent_wakeup c) = cx_running c" "cx_io_count (sevent_wakeup c) = cx_io_count c"
  "cx_timer_count (sevent_wakeup c) = cx_timer_count c" "cx_post_pending_count (sevent_wakeup c) = cx_post_pending_count c"
  by (simp_all add: sevent_wakeup_def)

lemma wf_frame [simp]:
  "wf_ctx xs (c\<lparr>cx_env := u\<rparr>) = wf_ctx xs c" "wf_ctx xs (c\<lparr>cx_wake := w\<rparr>) = wf_ctx xs c"
  "wf_ctx xs (c\<lparr>cx_running := r\<rparr>) = wf_ctx xs c" "wf_ctx xs (c\<lparr>cx_loop_thread := t\<rparr>) = wf_ctx xs c"
  "wf_ctx xs (sevent_wakeup c) = wf_ctx xs c"
  by (simp_all add: wf_ctx_def all_nodes_def)

lemma wf_malloc: "wf_ctx xs c \<Longrightarrow> malloc_fresh malloc \<Longrightarrow> malloc c = Some t \<Longrightarrow> t \<notin> set (all_nodes c @ xs)"
  unfolding wf_ctx_def malloc_fresh_def by (metis domIff)

lemma fd_registered_iff:
  assumes "wf_ctx xs c"
  shows "fd_registered fd c \<longleftrightarrow> fd \<in> fd_of (cx_heap c) ` set (cx_io_list c)"
proof -
  have "(case get_io p c of None \<Rightarrow> False | Some n \<Rightarrow> io_fd n = fd \<and> \<not> io_deleted n) \<longleftrightarrow> fd_of (cx_heap c) p = fd"
    if "p \<in> set (cx_io_list c)" for p
    using that assms by (auto simp: wf_ctx_def io_ok_def get_io_def fd_of_def)
  then show ?thesis by (auto simp: fd_registered_def list_ex_iff)
qed

section \<open>The public functions keep it\<close>

lemma wf_post:
  assumes "wf_ctx xs c" "malloc_fresh malloc"
  shows "wf_ctx xs (snd (sevent_post malloc h data c))"
proof (cases "h = None \<or> malloc c = None")
  case True
  then show ?thesis using assms by (auto simp: sevent_post_def split: option.splits)
next
  case False
  then obtain f t where t: "h = Some f" "malloc c = Some t" by auto
  then have n: "t \<notin> set (all_nodes c @ xs)" using assms wf_malloc by blast
  then have "map (fd_of ((cx_heap c)(t := x))) (cx_io_list c) = map (fd_of (cx_heap c)) (cx_io_list c)" for x
    by (intro map_fd_upd) (simp add: all_nodes_def)
  moreover have "post_ok ((cx_heap c)(t := Some (PostNode n))) t" for n by (simp add: post_ok_def)
  moreover have "q \<in> set (all_nodes c @ xs) \<Longrightarrow> t \<noteq> q" for q using n by auto
  ultimately show ?thesis
    using assms(1) n t unfolding sevent_post_def t option.case snd_conv wf_frame
    by (simp add: wf_ctx_def all_nodes_def)
qed

lemma wf_io_register:
  assumes "wf_ctx xs c" "malloc_fresh malloc"
  shows "wf_ctx xs (snd (sevent_io_register malloc h c))"
proof (cases "fst (sevent_io_register malloc h c)")
  case None
  then have "snd (sevent_io_register malloc h c) = c"
    by (auto simp: sevent_io_register_def split: if_splits option.splits)
  with assms show ?thesis by simp
next
  case (Some t)
  then have t: "malloc c = Some t" "0 \<le> h_fd h" "h_fd h < FD_SETSIZE" "h_io_read h \<noteq> None \<or> h_io_write h \<noteq> None"
    "\<not> fd_registered (h_fd h) c"
    by (auto simp: sevent_io_register_def split: if_splits option.splits)
  let ?n = "\<lparr>io_fd = h_fd h, io_read_cb = h_io_read h, io_write_cb = h_io_write h, io_data = h_data h, io_deleted = False\<rparr>"
  have eq: "snd (sevent_io_register malloc h c) = sevent_wakeup ((put_node t (IoNode ?n) c)
      \<lparr>cx_io_list := t # cx_io_list c, cx_io_count := cx_io_count c + 1\<rparr>)"
    using t by (auto simp: sevent_io_register_def)
  have n: "t \<notin> set (all_nodes c @ xs)" using t assms wf_malloc by blast
  then have "map (fd_of ((cx_heap c)(t := x))) (cx_io_list c) = map (fd_of (cx_heap c)) (cx_io_list c)" for x
    by (intro map_fd_upd) (simp add: all_nodes_def)
  moreover have "io_ok False ((cx_heap c)(t := Some (IoNode ?n))) t" using t by (simp add: io_ok_def)
  moreover have "fd_of ((cx_heap c)(t := Some (IoNode ?n))) t \<notin> fd_of (cx_heap c) ` set (cx_io_list c)"
    using t(5) fd_registered_iff [OF assms(1)] by (simp add: fd_of_def)
  moreover have "q \<in> set (all_nodes c @ xs) \<Longrightarrow> t \<noteq> q" for q using n by auto
  ultimately show ?thesis
    using assms(1) n unfolding eq wf_frame
    by (simp add: wf_ctx_def all_nodes_def)
qed

lemma wf_timer_register:
  assumes "wf_ctx xs c" "malloc_fresh malloc"
  shows "wf_ctx xs (snd (sevent_timer_register malloc ms cb data c))"
proof (cases "fst (sevent_timer_register malloc ms cb data c)")
  case None
  then have "snd (sevent_timer_register malloc ms cb data c) = c"
    by (auto simp: sevent_timer_register_def split: if_splits option.splits)
  with assms show ?thesis by simp
next
  case (Some t)
  then obtain f where t: "malloc c = Some t" "ms \<noteq> 0" "cb = Some f"
    by (auto simp: sevent_timer_register_def split: if_splits option.splits)
  let ?n = "\<lparr>tm_interval_ms = ms, tm_remaining_ms = wrap32 (uint ms), tm_cb = f, tm_data = data, tm_deleted = False\<rparr>"
  have eq: "snd (sevent_timer_register malloc ms cb data c) = sevent_wakeup ((put_node t (TimerNode ?n) c)
      \<lparr>cx_timer_list := t # cx_timer_list c, cx_timer_count := cx_timer_count c + 1\<rparr>)"
    using t by (auto simp: sevent_timer_register_def)
  have n: "t \<notin> set (all_nodes c @ xs)" using t assms wf_malloc by blast
  then have "map (fd_of ((cx_heap c)(t := x))) (cx_io_list c) = map (fd_of (cx_heap c)) (cx_io_list c)" for x
    by (intro map_fd_upd) (simp add: all_nodes_def)
  moreover have "timer_ok False ((cx_heap c)(t := Some (TimerNode ?n))) t" using t by (simp add: timer_ok_def)
  moreover have "q \<in> set (all_nodes c @ xs) \<Longrightarrow> t \<noteq> q" for q using n by auto
  ultimately show ?thesis
    using assms(1) n unfolding eq wf_frame
    by (simp add: wf_ctx_def all_nodes_def)
qed

lemma length_remove1_int: "x \<in> set xs \<Longrightarrow> int (length (remove1 x xs)) = int (length xs) - 1"
  by (metis One_nat_def Suc_pred int_ops(2) length_pos_if_in_set length_remove1 of_nat_1 of_nat_diff Suc_leI)

lemma wf_io_unregister:
  assumes "wf_ctx xs c"
  shows "wf_ctx xs (sevent_io_unregister h c)"
proof (cases "h \<in> set (cx_io_list c)")
  case False
  then show ?thesis using assms by (simp add: sevent_io_unregister_def)
next
  case True
  then obtain n where n: "cx_heap c h = Some (IoNode n)" "io_ok False (cx_heap c) h"
    using assms by (auto simp: wf_ctx_def io_ok_def)
  have eq: "sevent_io_unregister h c = sevent_wakeup ((put_node h (IoNode (n\<lparr>io_deleted := True\<rparr>)) c)
      \<lparr>cx_io_list := remove1 h (cx_io_list c), cx_io_count := cx_io_count c - 1, cx_death_io := h # cx_death_io c\<rparr>)"
    using True n by (simp add: sevent_io_unregister_def get_io_def)
  have d: "distinct (cx_io_list c)" "h \<notin> set (cx_death_io c @ cx_timer_list c @ cx_death_timer c @ cx_post_pending c @ xs)"
    using assms True by (auto simp: wf_ctx_def all_nodes_def)
  have "map (fd_of ((cx_heap c)(h := x))) (remove1 h (cx_io_list c)) = map (fd_of (cx_heap c)) (remove1 h (cx_io_list c))" for x
    using d by (intro map_fd_upd) simp
  moreover have "distinct (map (fd_of (cx_heap c)) (remove1 h (cx_io_list c)))"
    using assms d by (simp add: wf_ctx_def distinct_map inj_on_def)
  moreover have "io_ok True ((cx_heap c)(h := Some (IoNode (n\<lparr>io_deleted := True\<rparr>)))) h"
    using n by (simp add: io_ok_def)
  moreover have "int (length (remove1 h (cx_io_list c))) = int (length (cx_io_list c)) - 1"
    using True by (rule length_remove1_int)
  moreover have "q \<in> set (cx_death_io c @ cx_timer_list c @ cx_death_timer c @ cx_post_pending c @ xs) \<Longrightarrow> h \<noteq> q" for q
    using d by auto
  ultimately show ?thesis
    using assms d True n(1) unfolding eq wf_frame
    by (simp add: wf_ctx_def all_nodes_def) auto
qed

lemma wf_timer_unregister:
  assumes "wf_ctx xs c"
  shows "wf_ctx xs (sevent_timer_unregister h c)"
proof (cases "h \<in> set (cx_timer_list c)")
  case False
  then show ?thesis using assms by (simp add: sevent_timer_unregister_def)
next
  case True
  then obtain n where n: "cx_heap c h = Some (TimerNode n)" "timer_ok False (cx_heap c) h"
    using assms by (auto simp: wf_ctx_def timer_ok_def)
  have eq: "sevent_timer_unregister h c = sevent_wakeup ((put_node h (TimerNode (n\<lparr>tm_deleted := True\<rparr>)) c)
      \<lparr>cx_timer_list := remove1 h (cx_timer_list c), cx_timer_count := cx_timer_count c - 1,
       cx_death_timer := h # cx_death_timer c\<rparr>)"
    using True n by (simp add: sevent_timer_unregister_def get_timer_def)
  have d: "distinct (cx_timer_list c)" "h \<notin> set (cx_io_list c @ cx_death_io c @ cx_death_timer c @ cx_post_pending c @ xs)"
    using assms True by (auto simp: wf_ctx_def all_nodes_def)
  have "map (fd_of ((cx_heap c)(h := x))) (cx_io_list c) = map (fd_of (cx_heap c)) (cx_io_list c)" for x
    using d by (intro map_fd_upd) simp
  moreover have "timer_ok True ((cx_heap c)(h := Some (TimerNode (n\<lparr>tm_deleted := True\<rparr>)))) h"
    using n by (simp add: timer_ok_def)
  moreover have "int (length (remove1 h (cx_timer_list c))) = int (length (cx_timer_list c)) - 1"
    using True by (rule length_remove1_int)
  moreover have "q \<in> set (cx_io_list c @ cx_death_io c @ cx_death_timer c @ cx_post_pending c @ xs) \<Longrightarrow> h \<noteq> q" for q
    using d by auto
  ultimately show ?thesis
    using assms d True n(1) unfolding eq wf_frame
    by (simp add: wf_ctx_def all_nodes_def) auto
qed

section \<open>Callbacks and other threads\<close>

text \<open>What user code and other threads can do to a context.\<close>

inductive api_step :: "'u allocator \<Rightarrow> 'u sevent_context \<Rightarrow> 'u sevent_context \<Rightarrow> bool" for malloc where
  api_io_register: "api_step malloc c (snd (sevent_io_register malloc h c))"
| api_io_unregister: "api_step malloc c (sevent_io_unregister p c)"
| api_timer_register: "api_step malloc c (snd (sevent_timer_register malloc ms f d c))"
| api_timer_unregister: "api_step malloc c (sevent_timer_unregister p c)"
| api_post: "api_step malloc c (snd (sevent_post malloc g d c))"
| api_stop: "api_step malloc c (sevent_stop c)"
| api_wakeup: "api_step malloc c (sevent_wakeup c)"
| api_env: "api_step malloc c (c\<lparr>cx_env := u\<rparr>)"

definition api_reach :: "'u allocator \<Rightarrow> 'u sevent_context \<Rightarrow> 'u sevent_context \<Rightarrow> bool" where
  "api_reach malloc = (api_step malloc)\<^sup>*\<^sup>*"

lemma api_step_wf: "api_step malloc c c' \<Longrightarrow> malloc_fresh malloc \<Longrightarrow> wf_ctx xs c \<Longrightarrow> wf_ctx xs c'"
  by (induction rule: api_step.induct)
    (simp_all add: wf_io_register wf_io_unregister wf_timer_register wf_timer_unregister wf_post sevent_stop_def)

lemma api_reach_wf: "api_reach malloc c c' \<Longrightarrow> malloc_fresh malloc \<Longrightarrow> wf_ctx xs c \<Longrightarrow> wf_ctx xs c'"
  unfolding api_reach_def by (induction rule: rtranclp_induct) (auto intro: api_step_wf)

text \<open>
  User code never frees a node: a registered node stays, unregistered ones stay marked,
  posts stay unchanged and new posts go behind the old ones.
\<close>

definition node_le :: "node \<Rightarrow> node \<Rightarrow> bool" where
  "node_le m n = (case m of
      IoNode a \<Rightarrow> (\<exists>b. n = IoNode b \<and> io_fd b = io_fd a \<and> io_read_cb b = io_read_cb a
        \<and> io_write_cb b = io_write_cb a \<and> io_data b = io_data a \<and> (io_deleted a \<longrightarrow> io_deleted b))
    | TimerNode a \<Rightarrow> (\<exists>b. n = TimerNode b \<and> tm_cb b = tm_cb a \<and> tm_data b = tm_data a
        \<and> tm_interval_ms b = tm_interval_ms a \<and> (tm_deleted a \<longrightarrow> tm_deleted b))
    | PostNode a \<Rightarrow> n = m)"

definition heap_le :: "heap \<Rightarrow> heap \<Rightarrow> bool" where
  "heap_le h h' \<longleftrightarrow> (\<forall>p m. h p = Some m \<longrightarrow> (\<exists>n. h' p = Some n \<and> node_le m n))"

definition grows :: "'u sevent_context \<Rightarrow> 'u sevent_context \<Rightarrow> bool" where
  "grows c c' \<longleftrightarrow> heap_le (cx_heap c) (cx_heap c') \<and> (\<exists>ps. cx_post_pending c' = cx_post_pending c @ ps)
     \<and> cx_wake_fd c' = cx_wake_fd c"

lemma node_le_refl [simp]: "node_le m m" by (cases m) (simp_all add: node_le_def)

lemma node_le_trans: "node_le a b \<Longrightarrow> node_le b c \<Longrightarrow> node_le a c"
  by (cases a) (auto simp: node_le_def)

lemma heap_le_refl [simp]: "heap_le h h" by (simp add: heap_le_def)

lemma heap_le_trans: "heap_le a b \<Longrightarrow> heap_le b c \<Longrightarrow> heap_le a c"
  unfolding heap_le_def by (meson node_le_trans)

lemma heap_le_new: "h p = None \<Longrightarrow> heap_le h (h(p := Some n))"
  by (auto simp: heap_le_def)

lemma heap_le_upd: "h p = Some m \<Longrightarrow> node_le m n \<Longrightarrow> heap_le h (h(p := Some n))"
  by (auto simp: heap_le_def)

lemma grows_refl [simp]: "grows c c" by (simp add: grows_def)

lemma grows_trans: "grows a b \<Longrightarrow> grows b c \<Longrightarrow> grows a c"
  unfolding grows_def by (auto intro: heap_le_trans)

lemma grows_frame [simp]:
  "grows c (sevent_wakeup c') = grows c c'" "grows c (c'\<lparr>cx_env := u\<rparr>) = grows c c'"
  "grows c (c'\<lparr>cx_running := r\<rparr>) = grows c c'"
  "grows c (c'\<lparr>cx_io_list := l, cx_io_count := k\<rparr>) = grows c c'"
  "grows c (c'\<lparr>cx_timer_list := l, cx_timer_count := k\<rparr>) = grows c c'"
  "grows c (c'\<lparr>cx_io_list := l, cx_io_count := k, cx_death_io := d\<rparr>) = grows c c'"
  "grows c (c'\<lparr>cx_timer_list := l, cx_timer_count := k, cx_death_timer := d\<rparr>) = grows c c'"
  by (simp_all add: grows_def sevent_wakeup_def)

lemma grows_put_new: "cx_heap c p = None \<Longrightarrow> grows c (put_node p n c)"
  by (simp add: grows_def heap_le_new)

lemma grows_put: "cx_heap c p = Some m \<Longrightarrow> node_le m n \<Longrightarrow> grows c (put_node p n c)"
  by (simp add: grows_def heap_le_upd)

lemma api_step_grows: "api_step malloc c c' \<Longrightarrow> malloc_fresh malloc \<Longrightarrow> grows c c'"
proof (induction rule: api_step.induct)
  case (api_io_register c h)
  then show ?case
    by (auto simp: sevent_io_register_def malloc_fresh_def split: option.splits intro!: grows_put_new)
next
  case (api_io_unregister c p)
  then show ?case
    by (auto simp: sevent_io_unregister_def Let_def get_io_def node_le_def split: option.splits node.splits intro!: grows_put)
next
  case (api_timer_register c ms f d)
  then show ?case
    by (auto simp: sevent_timer_register_def malloc_fresh_def split: option.splits intro!: grows_put_new)
next
  case (api_timer_unregister c p)
  then show ?case
    by (auto simp: sevent_timer_unregister_def Let_def get_timer_def node_le_def split: option.splits node.splits intro!: grows_put)
next
  case (api_post c g d)
  then show ?case
    by (auto simp: sevent_post_def malloc_fresh_def grows_def heap_le_new sevent_wakeup_def split: option.splits)
qed (simp_all add: sevent_stop_def)

lemma api_reach_grows: "api_reach malloc c c' \<Longrightarrow> malloc_fresh malloc \<Longrightarrow> grows c c'"
  unfolding api_reach_def by (induction rule: rtranclp_induct) (auto intro: api_step_grows grows_trans)

text \<open>The assumptions on user code and on \<open>select\<close>.\<close>

definition calls_api :: "'u allocator \<Rightarrow> 'u callbacks \<Rightarrow> bool" where
  "calls_api malloc call \<longleftrightarrow> (\<forall>f d c. api_reach malloc c (call f d c))"

definition select_api :: "'u allocator \<Rightarrow> 'u selector \<Rightarrow> bool" where
  "select_api malloc sel \<longleftrightarrow> (\<forall>n r w tv c. api_reach malloc c (snd (sel n r w tv c)))"

lemma call_keeps:
  assumes "calls_api malloc call" "malloc_fresh malloc"
  shows "grows c (call f d c)" "wf_ctx xs c \<Longrightarrow> wf_ctx xs (call f d c)"
  using assms unfolding calls_api_def by (blast intro: api_reach_grows api_reach_wf)+

section \<open>The phases of a round\<close>

lemma wf_get:
  assumes "wf_ctx xs c"
  shows "p \<in> set (cx_io_list c @ cx_death_io c) \<Longrightarrow> \<exists>n. get_io p c = Some n"
    "p \<in> set (cx_timer_list c @ cx_death_timer c) \<Longrightarrow> \<exists>n. get_timer p c = Some n"
    "p \<in> set (cx_post_pending c @ xs) \<Longrightarrow> \<exists>n. get_post p c = Some n"
proof -
  show "p \<in> set (cx_io_list c @ cx_death_io c) \<Longrightarrow> \<exists>n. get_io p c = Some n"
    using assms by (fastforce simp: wf_ctx_def io_ok_def get_io_def)
  show "p \<in> set (cx_timer_list c @ cx_death_timer c) \<Longrightarrow> \<exists>n. get_timer p c = Some n"
    using assms by (fastforce simp: wf_ctx_def timer_ok_def get_timer_def)
  have "p \<in> set (cx_post_pending c @ xs) \<Longrightarrow> post_ok (cx_heap c) p" using assms by (simp add: wf_ctx_def)
  then show "p \<in> set (cx_post_pending c @ xs) \<Longrightarrow> \<exists>n. get_post p c = Some n"
    by (auto simp: post_ok_def get_post_def)
qed

lemma get_grows:
  assumes "grows c c'"
  shows "get_io p c = Some n \<Longrightarrow> \<exists>n'. get_io p c' = Some n'"
    "get_timer p c = Some t \<Longrightarrow> \<exists>t'. get_timer p c' = Some t' \<and> tm_cb t' = tm_cb t \<and> tm_data t' = tm_data t"
    "get_post p c = Some q \<Longrightarrow> get_post p c' = Some q"
proof -
  have g: "cx_heap c p = Some m \<Longrightarrow> \<exists>n. cx_heap c' p = Some n \<and> node_le m n" for m
    using assms by (simp add: grows_def heap_le_def)
  show "get_io p c = Some n \<Longrightarrow> \<exists>n'. get_io p c' = Some n'"
    using g by (fastforce simp: get_io_def node_le_def split: option.splits node.splits)
  show "get_timer p c = Some t \<Longrightarrow> \<exists>t'. get_timer p c' = Some t' \<and> tm_cb t' = tm_cb t \<and> tm_data t' = tm_data t"
    using g by (fastforce simp: get_timer_def node_le_def split: option.splits node.splits)
  show "get_post p c = Some q \<Longrightarrow> get_post p c' = Some q"
    using g by (fastforce simp: get_post_def node_le_def split: option.splits node.splits)
qed

lemma run_io_snap_safe:
  assumes "calls_api malloc call" "malloc_fresh malloc"
  shows "wf_ctx [] c \<Longrightarrow> \<forall>p\<in>set ps. get_io p c \<noteq> None \<Longrightarrow>
    \<exists>c' log. run_io_snap call rfds wfds ps c = Some (c', log) \<and> wf_ctx [] c' \<and> grows c c'"
proof (induction ps arbitrary: c)
  case (Cons p ps)
  obtain io where io: "get_io p c = Some io" using Cons.prems(2) by auto
  have tl: "\<exists>c'' log. run_io_snap call rfds wfds ps c' = Some (c'', log) \<and> wf_ctx [] c'' \<and> grows c c''"
    if "wf_ctx [] c'" "grows c c'" for c'
  proof -
    have "\<forall>q\<in>set ps. get_io q c' \<noteq> None"
      using Cons.prems(2) get_grows(1) [OF that(2)] by (metis list.set_intros(2) not_None_eq)
    from Cons.IH [OF that(1) this] that(2) grows_trans show ?thesis by blast
  qed
  note same = tl [OF Cons.prems(1) grows_refl]
  note after = tl [OF call_keeps(2) [OF assms Cons.prems(1)] call_keeps(1) [OF assms]]
  show ?case
    using same after [of "the (io_read_cb io)" "io_data io"] after [of "the (io_write_cb io)" "io_data io"] io
    by (auto simp: Let_def split: option.splits)
qed simp

lemma wf_free_post:
  assumes "wf_ctx (p # xs) c"
  shows "\<exists>c'. free_node p c = Some c' \<and> wf_ctx xs c' \<and> cx_post_pending c' = cx_post_pending c
    \<and> (\<forall>q. q \<noteq> p \<longrightarrow> cx_heap c' q = cx_heap c q)"
proof -
  let ?c = "c\<lparr>cx_heap := (cx_heap c)(p := None)\<rparr>"
  have h: "cx_heap c p \<noteq> None" using assms by (auto simp: wf_ctx_def)
  have d: "p \<notin> set (all_nodes c @ xs)" using assms by (simp add: wf_ctx_def)
  moreover have "q \<in> set (all_nodes c @ xs) \<Longrightarrow> p \<noteq> q" for q using d by auto
  ultimately have "wf_ctx xs ?c"
    using assms by (simp add: wf_ctx_def all_nodes_def)
  with h show ?thesis by (simp add: free_node_def)
qed

lemma run_active_safe:
  assumes "calls_api malloc call" "malloc_fresh malloc"
  shows "wf_ctx ps c \<Longrightarrow>
    \<exists>c' qs. run_active call ps c = Some (c', map (\<lambda>p. (p, po_cb (the (get_post p c)), po_data (the (get_post p c)))) ps)
      \<and> wf_ctx [] c' \<and> cx_post_pending c' = cx_post_pending c @ qs"
proof (induction ps arbitrary: c)
  case Nil
  then show ?case by simp
next
  case (Cons p ps)
  obtain n where n: "get_post p c = Some n" using wf_get(3) [OF Cons.prems, of p] by auto
  let ?c1 = "call (po_cb n) (po_data n) c"
  have w1: "wf_ctx (p # ps) ?c1" and g1: "grows c ?c1" using call_keeps [OF assms] Cons.prems by blast+
  obtain c2 where c2: "free_node p ?c1 = Some c2" "wf_ctx ps c2" "cx_post_pending c2 = cx_post_pending ?c1"
    "\<forall>q. q \<noteq> p \<longrightarrow> cx_heap c2 q = cx_heap ?c1 q" using wf_free_post [OF w1] by blast
  have same: "get_post q c2 = get_post q c" if qin: "q \<in> set ps" for q
  proof -
    have "q \<noteq> p" using qin Cons.prems by (auto simp: wf_ctx_def)
    moreover obtain m where "get_post q c = Some m"
      using qin wf_get(3) [OF Cons.prems, of q] by auto
    ultimately show ?thesis using c2(4) get_grows(3) [OF g1] by (simp add: get_post_def)
  qed
  obtain ps1 where "cx_post_pending ?c1 = cx_post_pending c @ ps1" using g1 by (auto simp: grows_def)
  moreover obtain c' qs where "run_active call ps c2 =
      Some (c', map (\<lambda>p. (p, po_cb (the (get_post p c2)), po_data (the (get_post p c2)))) ps)"
    "wf_ctx [] c'" "cx_post_pending c' = cx_post_pending c2 @ qs"
    using Cons.IH [OF c2(2)] by blast
  ultimately show ?case using n c2(1,3) same by (auto cong: map_cong)
qed

lemma run_posts_safe:
  assumes "calls_api malloc call" "malloc_fresh malloc" "wf_ctx [] c"
  shows "\<exists>c'. run_posts call c = Some (c', map (\<lambda>p. (p, po_cb (the (get_post p c)), po_data (the (get_post p c)))) (cx_post_pending c))
      \<and> wf_ctx [] c'"
proof -
  let ?c = "c\<lparr>cx_post_pending := [], cx_post_pending_count := 0\<rparr>"
  have "wf_ctx (cx_post_pending c) ?c" using assms(3) by (simp add: wf_ctx_def all_nodes_def)
  moreover have "get_post p ?c = get_post p c" for p by (simp add: get_post_def)
  ultimately show ?thesis using run_active_safe [OF assms(1,2)] by (fastforce simp: run_posts_def)
qed

lemma wf_put_timer:
  assumes "wf_ctx xs c" "p \<in> set (cx_timer_list c)" "get_timer p c = Some t"
  shows "wf_ctx xs (put_node p (TimerNode (t\<lparr>tm_remaining_ms := r\<rparr>)) c)"
proof -
  have t: "cx_heap c p = Some (TimerNode t)" "timer_ok False (cx_heap c) p"
    using assms by (auto simp: wf_ctx_def get_timer_def split: option.splits node.splits)
  let ?h = "(cx_heap c)(p := Some (TimerNode (t\<lparr>tm_remaining_ms := r\<rparr>)))"
  have d: "p \<notin> set (cx_io_list c @ cx_death_io c @ cx_death_timer c @ cx_post_pending c @ xs)"
    using assms by (auto simp: wf_ctx_def all_nodes_def)
  have "timer_ok False ?h q" if "timer_ok False (cx_heap c) q" for q
    using that t by (cases "q = p") (auto simp: timer_ok_def)
  moreover have "q \<in> set (cx_io_list c @ cx_death_io c @ cx_death_timer c @ cx_post_pending c @ xs) \<Longrightarrow> p \<noteq> q" for q
    using d by auto
  ultimately show ?thesis
    using assms(1,2) d by (simp add: wf_ctx_def all_nodes_def insert_absorb)
qed

lemma collect_expired_safe:
  "wf_ctx [] c \<Longrightarrow> set ps \<subseteq> set (cx_timer_list c) \<Longrightarrow> set (map fst acc) \<subseteq> set (cx_timer_list c) \<Longrightarrow>
    \<exists>c' es. collect_expired delta ps acc c = Some (c', es) \<and> wf_ctx [] c' \<and> cx_timer_list c' = cx_timer_list c
      \<and> set (map fst es) \<subseteq> set (cx_timer_list c) \<and> length es \<le> max (length acc) MAX_EXPIRED_PER_TICK"
proof (induction ps arbitrary: acc c)
  case (Cons p ps)
  have pin: "p \<in> set (cx_timer_list c)" using Cons.prems(2) by simp
  then obtain t where t: "get_timer p c = Some t" using wf_get(2) [OF Cons.prems(1), of p] by auto
  obtain n rem where n: "fire_loop MAX_FIRE_PER_TIMER (wrap32 (uint (tm_interval_ms t)))
      (wrap32 (tm_remaining_ms t - wrap32 delta)) = (n, rem)" by (rule prod.exhaust)
  have w: "wf_ctx [] (put_node p (TimerNode (t\<lparr>tm_remaining_ms := r\<rparr>)) c)" for r
    by (rule wf_put_timer [OF Cons.prems(1) pin t])
  show ?case
    using Cons.IH [OF Cons.prems(1), of acc] Cons.IH [OF w [of rem], of "acc @ [(p, n)]"]
      Cons.IH [OF w [of "if 0 < n then 1 else rem"], of acc] Cons.prems(2,3)
    by (auto simp: t n split: if_splits)
qed simp

lemma fire_times_safe:
  assumes "calls_api malloc call" "malloc_fresh malloc"
  shows "wf_ctx [] c \<Longrightarrow> get_timer p c \<noteq> None \<Longrightarrow>
    \<exists>c' log. fire_times call p n c = Some (c', log) \<and> wf_ctx [] c' \<and> grows c c' \<and> length log \<le> n"
proof (induction n arbitrary: c)
  case (Suc n)
  obtain t where t: "get_timer p c = Some t" using Suc.prems(2) by auto
  let ?c = "call (tm_cb t) (tm_data t) c"
  have g: "grows c ?c" "wf_ctx [] ?c" using call_keeps [OF assms] Suc.prems(1) by blast+
  obtain c' log where "fire_times call p n ?c = Some (c', log)" "wf_ctx [] c'" "grows ?c c'" "length log \<le> n"
    using Suc.IH [OF g(2)] get_grows(2) [OF g(1) t] by auto
  then show ?case using t g(1) Suc.prems(1) grows_trans [OF g(1)] by auto
qed simp

lemma fire_expired_safe:
  assumes "calls_api malloc call" "malloc_fresh malloc"
  shows "wf_ctx [] c \<Longrightarrow> \<forall>p\<in>set (map fst es). get_timer p c \<noteq> None \<Longrightarrow>
    \<exists>c' log. fire_expired call es c = Some (c', log) \<and> wf_ctx [] c'"
proof (induction es arbitrary: c)
  case (Cons e es)
  obtain p n where e: "e = (p, n)" by (rule prod.exhaust)
  obtain t where t: "get_timer p c = Some t" using Cons.prems(2) e by auto
  obtain c1 log where c1: "fire_times call p n c = Some (c1, log)" "wf_ctx [] c1" "grows c c1"
    using fire_times_safe [OF assms Cons.prems(1), of p n] t by auto
  have "\<forall>q\<in>set (map fst es). get_timer q c1 \<noteq> None"
    using Cons.prems(2) get_grows(2) [OF c1(3)] by (metis (no_types, lifting) list.set_intros(2) list.simps(9) not_None_eq)
  from Cons.IH [OF c1(2) this] Cons.IH [OF Cons.prems(1)] Cons.prems(2) c1 t e show ?case by auto
qed simp

lemma run_timers_safe:
  assumes "calls_api malloc call" "malloc_fresh malloc" "wf_ctx [] c"
  shows "\<exists>c' log. run_timers call ht delta c = Some (c', log) \<and> wf_ctx [] c'"
proof (cases "\<not> ht \<or> delta \<le> 0")
  case False
  obtain c1 es where c1: "collect_expired delta (cx_timer_list c) [] c = Some (c1, es)" "wf_ctx [] c1"
    "cx_timer_list c1 = cx_timer_list c" "set (map fst es) \<subseteq> set (cx_timer_list c)"
    using collect_expired_safe [OF assms(3), of "cx_timer_list c" "[]" delta] by auto
  have "\<forall>p\<in>set (map fst es). get_timer p c1 \<noteq> None"
    using wf_get(2) [OF c1(2)] c1(3,4) by (metis Un_iff not_None_eq set_append subsetD)
  from fire_expired_safe [OF assms(1,2) c1(2) this] False c1(1) show ?thesis by (simp add: run_timers_def)
qed (use assms in \<open>auto simp: run_timers_def\<close>)

lemma free_nodes_eq:
  "distinct ps \<Longrightarrow> set ps \<subseteq> dom (cx_heap c) \<Longrightarrow>
     free_nodes ps c = Some (c\<lparr>cx_heap := cx_heap c |` (- set ps)\<rparr>)"
proof (induction ps arbitrary: c)
  case Nil
  have "cx_heap c |` UNIV = cx_heap c" by (rule ext) (simp add: restrict_map_def)
  then show ?case by simp
next
  case (Cons p ps)
  let ?c = "c\<lparr>cx_heap := (cx_heap c)(p := None)\<rparr>"
  have "free_node p c = Some ?c" using Cons.prems by (auto simp: free_node_def)
  moreover have "free_nodes ps ?c = Some (?c\<lparr>cx_heap := cx_heap ?c |` (- set ps)\<rparr>)"
    using Cons.prems by (intro Cons.IH) auto
  moreover have "(cx_heap c)(p := None) |` (- set ps) = cx_heap c |` (- set (p # ps))"
    by (rule ext) (simp add: restrict_map_def)
  ultimately show ?case by (simp del: set_simps)
qed

lemma ok_restrict [simp]:
  "p \<in> A \<Longrightarrow> io_ok d (h |` A) p = io_ok d h p" "p \<in> A \<Longrightarrow> timer_ok d (h |` A) p = timer_ok d h p"
  "p \<in> A \<Longrightarrow> post_ok (h |` A) p = post_ok h p" "p \<in> A \<Longrightarrow> fd_of (h |` A) p = fd_of h p"
  by (simp_all add: ok_defs fd_of_def)

definition after_death :: "'u sevent_context \<Rightarrow> 'u sevent_context" where
  "after_death c = c\<lparr>cx_death_io := [], cx_death_timer := [],
     cx_heap := cx_heap c |` (- set (cx_death_io c @ cx_death_timer c))\<rparr>"

lemma run_free_death_eq:
  assumes "wf_ctx [] c"
  shows "run_free_death c = Some (after_death c)"
proof -
  have d: "distinct (cx_death_io c)" "distinct (cx_death_timer c)" "set (cx_death_io c) \<inter> set (cx_death_timer c) = {}"
    "set (cx_death_io c) \<subseteq> dom (cx_heap c)" "set (cx_death_timer c) \<subseteq> dom (cx_heap c)"
    using assms by (auto simp: wf_ctx_def all_nodes_def)
  let ?c = "c\<lparr>cx_death_io := [], cx_death_timer := []\<rparr>"
  let ?c1 = "?c\<lparr>cx_heap := cx_heap c |` (- set (cx_death_io c))\<rparr>"
  have "free_nodes (cx_death_io c) ?c = Some ?c1" using d by (subst free_nodes_eq) simp_all
  moreover have "free_nodes (cx_death_timer c) ?c1 = Some (?c1\<lparr>cx_heap := cx_heap ?c1 |` (- set (cx_death_timer c))\<rparr>)"
    using d by (intro free_nodes_eq) auto
  moreover have "cx_heap ?c1 |` (- set (cx_death_timer c)) = cx_heap c |` (- set (cx_death_io c @ cx_death_timer c))"
    by (rule ext) (simp add: restrict_map_def)
  ultimately show ?thesis by (simp add: run_free_death_def after_death_def Let_def)
qed

lemma after_death_wf:
  assumes "wf_ctx [] c"
  shows "wf_ctx [] (after_death c)"
proof -
  let ?S = "set (cx_death_io c @ cx_death_timer c)"
  have n: "p \<in> set (cx_io_list c @ cx_timer_list c @ cx_post_pending c) \<Longrightarrow> p \<notin> ?S" for p
    using assms by (auto simp: wf_ctx_def all_nodes_def)
  then have "map (fd_of (cx_heap c |` (- ?S))) (cx_io_list c) = map (fd_of (cx_heap c)) (cx_io_list c)"
    by (intro map_cong) auto
  moreover have "distinct (map (fd_of (cx_heap c)) (cx_io_list c))" using assms by (simp add: wf_ctx_def)
  ultimately have d: "distinct (map (fd_of (cx_heap c |` (- ?S))) (cx_io_list c))" by metis
  with n assms d show ?thesis
    by (simp add: wf_ctx_def all_nodes_def after_death_def dom_restrict) auto
qed

lemma build_fdset_safe:
  assumes "wf_ctx [] c"
  shows "\<exists>pl. run_build_fdset c = Some pl \<and> set (pl_iosnap pl) \<subseteq> set (cx_io_list c)"
proof -
  have t: "\<forall>p\<in>set ps. f p \<noteq> None \<Longrightarrow> \<exists>ys. those (map f ps) = Some ys" for f :: "addr \<Rightarrow> 'b option" and ps
    by (induction ps) (auto split: option.splits)
  obtain ios where "those (map (\<lambda>p. get_io p c) (cx_io_list c)) = Some ios"
    using t [of "cx_io_list c" "\<lambda>p. get_io p c"] wf_get(1) [OF assms] by fastforce
  moreover obtain tms where "those (map (\<lambda>p. get_timer p c) (cx_timer_list c)) = Some tms"
    using t [of "cx_timer_list c" "\<lambda>p. get_timer p c"] wf_get(2) [OF assms] by fastforce
  ultimately show ?thesis by (auto simp: run_build_fdset_def Let_def dest: in_set_takeD)
qed

lemma finish_round_safe:
  assumes "calls_api malloc call" "malloc_fresh malloc" "wf_ctx [] c"
  shows "\<exists>rc c' log'. finish_round call ht delta log c = Some (rc, c', log') \<and> wf_ctx [] c' \<and> rc \<in> {0, 1}"
proof -
  obtain c1 l1 where c1: "run_posts call c = Some (c1, l1)" "wf_ctx [] c1" using run_posts_safe [OF assms] by blast
  obtain c2 l2 where "run_timers call ht delta c1 = Some (c2, l2)" "wf_ctx [] c2"
    using run_timers_safe [OF assms(1,2) c1(2)] by blast
  with c1 show ?thesis by (simp add: finish_round_def Let_def)
qed

lemma run_once_safe:
  assumes a: "calls_api malloc call" "malloc_fresh malloc" and s: "select_api malloc sel" and w: "wf_ctx [] c"
  shows "\<exists>rc c' log. sevent_run_once sel call self c = Some (rc, c', log) \<and> wf_ctx [] c' \<and> rc \<in> {0, 1, SEVENT_ERR_INVAL}"
proof -
  let ?c0 = "after_death (c\<lparr>cx_loop_thread := self\<rparr>)"
  have w0: "wf_ctx [] ?c0" using w by (intro after_death_wf) simp
  have fd: "run_free_death (c\<lparr>cx_loop_thread := self\<rparr>) = Some ?c0" using w by (intro run_free_death_eq) simp
  obtain pl where pl: "run_build_fdset ?c0 = Some pl" "set (pl_iosnap pl) \<subseteq> set (cx_io_list ?c0)"
    using build_fdset_safe [OF w0] by blast
  define tv where "tv = (if pl_has_timer pl then pl_tv pl else (0, 50 * 1000))"
  obtain r c1 where r: "sel (pl_max_fd pl + 1) (pl_rfds pl) (pl_wfds pl) tv ?c0 = (r, c1)" by (rule prod.exhaust)
  have reach: "api_reach malloc ?c0 c1" using s r unfolding select_api_def by (metis snd_conv)
  have w1: "wf_ctx [] c1" and g1: "grows ?c0 c1" using api_reach_wf [OF reach a(2) w0] api_reach_grows [OF reach a(2)] by blast+
  have f: "wf_ctx [] c' \<Longrightarrow> \<exists>rc c'' log'. finish_round call ht d log c' = Some (rc, c'', log') \<and> wf_ctx [] c'' \<and> rc \<in> {0, 1, SEVENT_ERR_INVAL}"
    for c' ht d log using finish_round_safe [OF a, of c' ht d log] by blast
  have "get_io p c1 \<noteq> None" if "p \<in> set (pl_iosnap pl)" for p
    using that pl(2) wf_get(1) [OF w0, of p] get_grows(1) [OF g1, of p] by auto
  then have "\<exists>c2 log. run_io_callbacks call (sr_nfds r) (sr_rfds r) (sr_wfds r) (pl_iosnap pl) c1 = Some (c2, log) \<and> wf_ctx [] c2"
    using run_io_snap_safe [OF a, of "if cx_wake_fd c1 \<in> set (sr_rfds r) then c1\<lparr>cx_wake := 0\<rparr> else c1" "pl_iosnap pl"
        "sr_rfds r" "sr_wfds r"] w1
    by (auto simp: run_io_callbacks_def Let_def get_io_def)
  then obtain c2 log where io: "run_io_callbacks call (sr_nfds r) (sr_rfds r) (sr_wfds r) (pl_iosnap pl) c1 = Some (c2, log)"
    "wf_ctx [] c2" by blast
  show ?thesis
    unfolding sevent_run_once_def fd pl(1) option.case Let_def tv_def [symmetric] r prod.case
    using f [OF w0] f [OF w1] f [OF io(2)] w1 by (simp add: io(1))
qed
section \<open>Reachable contexts\<close>

text \<open>The life of a context between \<open>sevent_create\<close> and \<open>sevent_destroy\<close>.\<close>

inductive ctx_reach :: "'u allocator \<Rightarrow> 'u selector \<Rightarrow> 'u callbacks \<Rightarrow> 'u sevent_context \<Rightarrow> bool"
  for malloc sel call where
  reach_create: "sevent_create a m w u = Some c \<Longrightarrow> ctx_reach malloc sel call c"
| reach_api: "ctx_reach malloc sel call c \<Longrightarrow> api_step malloc c c' \<Longrightarrow> ctx_reach malloc sel call c'"
| reach_dispatch: "ctx_reach malloc sel call c \<Longrightarrow> ctx_reach malloc sel call (snd (sevent_dispatch malloc call t h d c))"
| reach_running: "ctx_reach malloc sel call c \<Longrightarrow> ctx_reach malloc sel call (c\<lparr>cx_running := b\<rparr>)"
| reach_round: "ctx_reach malloc sel call c \<Longrightarrow> sevent_run_once sel call self c = Some (rc, c', log) \<Longrightarrow>
    ctx_reach malloc sel call c'"

lemma create_wf: "sevent_create a m w u = Some c \<Longrightarrow> wf_ctx [] c"
  by (auto simp: sevent_create_def wf_ctx_def all_nodes_def split: if_splits option.splits)

lemma ctx_reach_wf:
  assumes "ctx_reach malloc sel call c" "calls_api malloc call" "malloc_fresh malloc" "select_api malloc sel"
  shows "wf_ctx [] c"
  using assms(1)
proof (induction rule: ctx_reach.induct)
  case (reach_api c c')
  then show ?case using api_step_wf [OF _ assms(3)] by blast
next
  case (reach_dispatch c t h d)
  then show ?case
    using call_keeps(2) [OF assms(2,3)] wf_post [OF _ assms(3)] by (auto simp: sevent_dispatch_def split: option.splits)
next
  case (reach_round c self rc c' log)
  then show ?case using run_once_safe [OF assms(2,3,4), of c self] by auto
qed (auto simp: create_wf)

lemma free_nodes_append:
  "free_nodes (ps @ qs) c = (case free_nodes ps c of None \<Rightarrow> None | Some c' \<Rightarrow> free_nodes qs c')"
  by (induction ps arbitrary: c) (auto split: option.splits)

lemma free_nodes_lists:
  "free_nodes ps c = Some c' \<Longrightarrow> cx_io_list c' = cx_io_list c \<and> cx_death_io c' = cx_death_io c
     \<and> cx_timer_list c' = cx_timer_list c \<and> cx_death_timer c' = cx_death_timer c"
  by (induction ps arbitrary: c) (auto simp: free_node_def split: if_splits)

lemma destroy_frees_all:
  assumes "wf_ctx [] c"
  shows "\<exists>c'. sevent_destroy c = Some c' \<and> cx_heap c' = Map.empty \<and> \<not> cx_running c'"
proof -
  let ?ps = "cx_post_pending c @ cx_io_list c @ cx_death_io c @ cx_timer_list c @ cx_death_timer c"
  let ?c = "c\<lparr>cx_running := False\<rparr>"
  have "sevent_destroy c = free_nodes ?ps ?c"
    unfolding sevent_destroy_def Let_def free_nodes_append
    by (simp add: free_nodes_lists split: option.split)
  also have "\<dots> = Some (?c\<lparr>cx_heap := cx_heap ?c |` (- set ?ps)\<rparr>)"
    using assms by (intro free_nodes_eq) (auto simp: wf_ctx_def all_nodes_def)
  finally have "sevent_destroy c = Some (?c\<lparr>cx_heap := cx_heap ?c |` (- set ?ps)\<rparr>)" .
  moreover have "dom (cx_heap c) = set ?ps" using assms by (auto simp: wf_ctx_def all_nodes_def)
  then have "cx_heap c |` (- set ?ps) = Map.empty" by (metis dom_restrict Compl_disjoint dom_eq_empty_conv)
  ultimately show ?thesis by simp
qed

section \<open>Unregistered handles\<close>

lemma grows_deleted:
  assumes "grows c c'"
  shows "get_io p c = Some n \<Longrightarrow> io_deleted n \<Longrightarrow> \<exists>n'. get_io p c' = Some n' \<and> io_deleted n'"
    "get_timer p c = Some t \<Longrightarrow> tm_deleted t \<Longrightarrow> \<exists>t'. get_timer p c' = Some t' \<and> tm_deleted t'"
proof -
  have g: "cx_heap c p = Some m \<Longrightarrow> \<exists>n. cx_heap c' p = Some n \<and> node_le m n" for m
    using assms by (simp add: grows_def heap_le_def)
  show "get_io p c = Some n \<Longrightarrow> io_deleted n \<Longrightarrow> \<exists>n'. get_io p c' = Some n' \<and> io_deleted n'"
    using g by (fastforce simp: get_io_def node_le_def split: option.splits node.splits)
  show "get_timer p c = Some t \<Longrightarrow> tm_deleted t \<Longrightarrow> \<exists>t'. get_timer p c' = Some t' \<and> tm_deleted t'"
    using g by (fastforce simp: get_timer_def node_le_def split: option.splits node.splits)
qed

lemma deleted_io_silent:
  assumes "calls_api malloc call" "malloc_fresh malloc"
  shows "get_io p c = Some n \<Longrightarrow> io_deleted n \<Longrightarrow> run_io_snap call rfds wfds ps c = Some (c', log) \<Longrightarrow> p \<notin> fst ` set log"
proof (induction ps arbitrary: c n c' log)
  case (Cons q ps)
  obtain io where io: "get_io q c = Some io" using Cons.prems(3) by (cases "get_io q c") auto
  define fire where "fire = (if io_read_cb io \<noteq> None \<and> io_fd io \<in> set rfds then io_read_cb io
      else if io_write_cb io \<noteq> None \<and> io_fd io \<in> set wfds then io_write_cb io else None)"
  show ?case
  proof (cases "io_deleted io \<or> io_fd io < 0 \<or> FD_SETSIZE \<le> io_fd io \<or> fire = None")
    case True
    then have "run_io_snap call rfds wfds ps c = Some (c', log)"
      using Cons.prems(3) io unfolding fire_def by (simp add: Let_def split: if_splits)
    then show ?thesis using Cons.IH Cons.prems by blast
  next
    case False
    then obtain f where f: "fire = Some f" by auto
    have "p \<noteq> q" using False io Cons.prems by auto
    moreover obtain l where l: "run_io_snap call rfds wfds ps (call f (io_data io) c) = Some (c', l)"
      "log = (q, f, io_data io) # l"
      using Cons.prems(3) False io f unfolding fire_def by (auto simp: Let_def split: if_splits option.splits)
    moreover have "p \<notin> fst ` set l"
      using Cons.IH l(1) grows_deleted(1) [OF call_keeps(1) [OF assms] Cons.prems(1,2)] by blast
    ultimately show ?thesis by simp
  qed
qed simp

lemma deleted_times_silent:
  assumes "calls_api malloc call" "malloc_fresh malloc"
  shows "get_timer p c = Some t \<Longrightarrow> tm_deleted t \<Longrightarrow> fire_times call q k c = Some (c', log) \<Longrightarrow>
     p \<notin> fst ` set log \<and> grows c c'"
proof (induction k arbitrary: c t c' log)
  case (Suc k)
  obtain s where s: "get_timer q c = Some s" using Suc.prems(3) by (cases "get_timer q c") auto
  let ?c = "call (tm_cb s) (tm_data s) c"
  show ?case
  proof (cases "tm_deleted s")
    case True
    then show ?thesis using Suc.prems s by simp
  next
    case False
    then obtain l where l: "fire_times call q k ?c = Some (c', l)" "log = (q, tm_cb s, tm_data s) # l"
      using Suc.prems(3) s by (auto split: option.splits)
    obtain t' where d: "get_timer p ?c = Some t'" "tm_deleted t'"
      using grows_deleted(2) [OF call_keeps(1) [OF assms] Suc.prems(1,2)] by blast
    have "p \<noteq> q" using False s Suc.prems by auto
    with Suc.IH [OF d l(1)] l(2) grows_trans [OF call_keeps(1) [OF assms]] show ?thesis by auto
  qed
qed simp

lemma deleted_timer_silent:
  assumes "calls_api malloc call" "malloc_fresh malloc"
  shows "get_timer p c = Some t \<Longrightarrow> tm_deleted t \<Longrightarrow> fire_expired call es c = Some (c', log) \<Longrightarrow> p \<notin> fst ` set log"
proof (induction es arbitrary: c t c' log)
  case (Cons e es)
  obtain q k where e: "e = (q, k)" by (rule prod.exhaust)
  obtain s where s: "get_timer q c = Some s" using Cons.prems(3) e by (cases "get_timer q c") auto
  show ?case
  proof (cases "tm_deleted s")
    case True
    then show ?thesis using Cons.IH [OF Cons.prems(1,2)] Cons.prems(3) e s by simp
  next
    case False
    then obtain c1 l1 c2 l2 where f: "fire_times call q k c = Some (c1, l1)" "fire_expired call es c1 = Some (c2, l2)"
      "log = l1 @ l2" using Cons.prems(3) e s by (auto split: option.splits)
    have q: "p \<notin> fst ` set l1" "grows c c1" using deleted_times_silent [OF assms Cons.prems(1,2) f(1)] by auto
    obtain t' where "get_timer p c1 = Some t'" "tm_deleted t'" using grows_deleted(2) [OF q(2) Cons.prems(1,2)] by blast
    then have "p \<notin> fst ` set l2" using Cons.IH f(2) by blast
    with q f(3) show ?thesis by auto
  qed
qed simp

section \<open>Timer arithmetic\<close>

lemma wrap32_id: "-2147483648 \<le> x \<Longrightarrow> x < 2147483648 \<Longrightarrow> wrap32 x = x"
  unfolding wrap32_def by (subst mod_pos_pos_trivial) auto

text \<open>The deadlines a timer with \<open>rem\<close> left and period \<open>i\<close> passes in \<open>delta\<close> milliseconds.\<close>

definition deadlines :: "int \<Rightarrow> int \<Rightarrow> int \<Rightarrow> nat" where
  "deadlines i rem delta = (if delta < rem then 0 else Suc (nat ((delta - rem) div i)))"

lemma deadlines_step: "0 < i \<Longrightarrow> rem \<le> delta \<Longrightarrow> deadlines i rem delta = Suc (deadlines i (rem + i) delta)"
proof -
  assume a: "0 < i" "rem \<le> delta"
  show ?thesis
  proof (cases "delta < rem + i")
    case True
    then show ?thesis using a by (simp add: deadlines_def div_pos_pos_trivial)
  next
    case False
    have "(delta - rem) div i = (delta - (rem + i)) div i + 1"
      using a div_add_self2 [of i "delta - (rem + i)"] by simp
    moreover have "0 \<le> (delta - (rem + i)) div i" using False a by (simp add: pos_imp_zdiv_nonneg_iff)
    ultimately show ?thesis using False a by (simp add: deadlines_def nat_add_distrib)
  qed
qed

lemma fire_loop_eq:
  "0 < i \<Longrightarrow> i < 2147483648 \<Longrightarrow> -2147483648 \<le> r \<Longrightarrow> r < 2147483648 \<Longrightarrow>
     fire_loop k i r = (let n = min k (deadlines i r 0) in (n, r + int n * i))"
proof (induction k arbitrary: r)
  case (Suc k)
  show ?case
  proof (cases "r \<le> 0")
    case True
    then have "wrap32 (r + i) = r + i" using Suc.prems by (intro wrap32_id) auto
    with Suc.IH [of "r + i"] Suc.prems True deadlines_step [of i r 0] show ?thesis
      by (simp add: Let_def algebra_simps)
  next
    case False
    then show ?thesis by (simp add: deadlines_def)
  qed
qed (simp add: Let_def)

lemma fire_loop_pos: "r \<le> 0 \<Longrightarrow> 0 < k \<Longrightarrow> 0 < fst (fire_loop k i r)"
  by (cases k) (simp_all add: case_prod_unfold)

lemma deadlines_shift: "deadlines i (r - d) 0 = deadlines i r d"
  by (simp add: deadlines_def)

lemma deadlines_rem:
  assumes "0 < i"
  shows "0 < rem - delta + int (deadlines i rem delta) * i"
    "0 < deadlines i rem delta \<Longrightarrow> rem - delta + int (deadlines i rem delta) * i \<le> i"
proof -
  define q where "q = (delta - rem) div i"
  have "0 \<le> (delta - rem) mod i" "(delta - rem) mod i < i" "i * q + (delta - rem) mod i = delta - rem"
    using assms unfolding q_def by simp_all
  then have q: "delta - rem < i * q + i" "i * q \<le> delta - rem" by linarith+
  have "0 \<le> q" if "\<not> delta < rem" using that assms by (simp add: q_def pos_imp_zdiv_nonneg_iff)
  then have d: "int (deadlines i rem delta) * i = i * q + i" if "\<not> delta < rem"
    using that by (simp add: deadlines_def q_def [symmetric] algebra_simps)
  show "0 < rem - delta + int (deadlines i rem delta) * i"
    using q d by (cases "delta < rem") (simp_all add: deadlines_def)
  show "0 < deadlines i rem delta \<Longrightarrow> rem - delta + int (deadlines i rem delta) * i \<le> i"
    using q d by (cases "delta < rem") (simp_all add: deadlines_def)
qed

text \<open>What a tick does to one timer: how often it fires and what is left.\<close>

definition timer_tick :: "int \<Rightarrow> sevent_timer \<Rightarrow> nat \<times> sevent_timer" where
  "timer_tick delta t =
     (let i = uint (tm_interval_ms t);
          n = min MAX_FIRE_PER_TIMER (deadlines i (tm_remaining_ms t) delta)
      in (n, t\<lparr>tm_remaining_ms := tm_remaining_ms t - delta + int n * i\<rparr>))"

definition timer_in_range :: "int \<Rightarrow> sevent_timer \<Rightarrow> bool" where
  "timer_in_range delta t \<longleftrightarrow> uint (tm_interval_ms t) < 2147483648
     \<and> -2147483648 \<le> tm_remaining_ms t - delta \<and> tm_remaining_ms t < 2147483648"

lemma fire_loop_tick:
  assumes "timer_in_range delta t" "tm_interval_ms t \<noteq> 0" "0 < delta" "delta < 2147483648"
  shows "fire_loop MAX_FIRE_PER_TIMER (wrap32 (uint (tm_interval_ms t))) (wrap32 (tm_remaining_ms t - wrap32 delta))
     = (fst (timer_tick delta t), tm_remaining_ms (snd (timer_tick delta t)))"
proof -
  have i: "0 < uint (tm_interval_ms t)" "uint (tm_interval_ms t) < 2147483648"
    using assms by (simp_all add: timer_in_range_def word_less_def order_le_neq_trans uint_0_iff [symmetric] del: uint_0_iff)
  have "wrap32 (uint (tm_interval_ms t)) = uint (tm_interval_ms t)" using i by (intro wrap32_id) auto
  moreover have "wrap32 delta = delta" using assms by (intro wrap32_id) auto
  moreover have "wrap32 (tm_remaining_ms t - delta) = tm_remaining_ms t - delta"
    using assms by (intro wrap32_id) (auto simp: timer_in_range_def)
  ultimately show ?thesis
    using assms i by (simp add: fire_loop_eq timer_in_range_def timer_tick_def deadlines_shift Let_def)
qed

lemma get_timer_put [simp]: "get_timer q (put_node p (TimerNode t) c) = (if q = p then Some t else get_timer q c)"
  by (simp add: get_timer_def)

definition tick_of :: "int \<Rightarrow> 'u sevent_context \<Rightarrow> addr \<Rightarrow> nat \<times> sevent_timer" where
  "tick_of delta c p = timer_tick delta (the (get_timer p c))"

lemma collect_expired_exact:
  assumes "0 < delta" "delta < 2147483648"
  shows "distinct ps \<Longrightarrow> length acc + length ps \<le> MAX_EXPIRED_PER_TICK \<Longrightarrow>
    \<forall>p\<in>set ps. \<exists>t. get_timer p c = Some t \<and> \<not> tm_deleted t \<and> tm_interval_ms t \<noteq> 0 \<and> timer_in_range delta t \<Longrightarrow>
    \<exists>c'. collect_expired delta ps acc c =
        Some (c', acc @ filter (\<lambda>(p, n). 0 < n) (map (\<lambda>p. (p, fst (tick_of delta c p))) ps))
      \<and> (\<forall>q. get_timer q c' = (if q \<in> set ps then Some (snd (tick_of delta c q)) else get_timer q c))"
proof (induction ps arbitrary: acc c)
  case (Cons p ps)
  obtain t where t: "get_timer p c = Some t" "\<not> tm_deleted t" "tm_interval_ms t \<noteq> 0" "timer_in_range delta t"
    using Cons.prems(3) by auto
  let ?n = "fst (timer_tick delta t)" and ?c = "put_node p (TimerNode (snd (timer_tick delta t))) c"
  have upd: "t\<lparr>tm_remaining_ms := tm_remaining_ms (snd (timer_tick delta t))\<rparr> = snd (timer_tick delta t)"
    by (simp add: timer_tick_def Let_def)
  define acc' where "acc' = (if 0 < ?n then acc @ [(p, ?n)] else acc)"
  have step: "collect_expired delta (p # ps) acc c = collect_expired delta ps acc' ?c"
    using Cons.prems(2) t by (simp add: fire_loop_tick [OF t(4,3) assms] upd acc'_def)
  have tick: "tick_of delta ?c q = tick_of delta c q" if "q \<in> set ps" for q
    using that Cons.prems(1) by (auto simp: tick_of_def)
  have e: "map (\<lambda>p. (p, fst (tick_of delta ?c p))) ps = map (\<lambda>p. (p, fst (tick_of delta c p))) ps"
    using tick by simp
  have "\<exists>c'. collect_expired delta ps acc' ?c =
        Some (c', acc' @ filter (\<lambda>(p, n). 0 < n) (map (\<lambda>p. (p, fst (tick_of delta ?c p))) ps))
      \<and> (\<forall>q. get_timer q c' = (if q \<in> set ps then Some (snd (tick_of delta ?c q)) else get_timer q ?c))"
    using Cons.prems by (intro Cons.IH) (auto simp: acc'_def)
  then obtain c' where c': "collect_expired delta ps acc' ?c =
        Some (c', acc' @ filter (\<lambda>(p, n). 0 < n) (map (\<lambda>p. (p, fst (tick_of delta c p))) ps))"
      "\<forall>q. get_timer q c' = (if q \<in> set ps then Some (snd (tick_of delta ?c q)) else get_timer q ?c)" unfolding e by blast
  have p: "tick_of delta c p = timer_tick delta t" using t by (simp add: tick_of_def)
  have "get_timer q c' = (if q \<in> set (p # ps) then Some (snd (tick_of delta c q)) else get_timer q c)" for q
    using c'(2) tick Cons.prems(1) p by (cases "q = p"; cases "q \<in> set ps") simp_all
  moreover have "acc' @ filter (\<lambda>(p, n). 0 < n) (map (\<lambda>p. (p, fst (tick_of delta c p))) ps)
      = acc @ filter (\<lambda>(p, n). 0 < n) (map (\<lambda>p. (p, fst (tick_of delta c p))) (p # ps))"
    by (simp add: acc'_def p)
  ultimately show ?case unfolding step c'(1) by blast
qed simp

lemma tick_below_limit:
  assumes "tm_interval_ms t \<noteq> 0" "fst (timer_tick delta t) < 100"
  shows "0 < tm_remaining_ms (snd (timer_tick delta t))"
    "0 < fst (timer_tick delta t) \<Longrightarrow> tm_remaining_ms (snd (timer_tick delta t)) \<le> uint (tm_interval_ms t)"
proof -
  have "0 < uint (tm_interval_ms t)" using assms(1) by (metis uint_0_iff uint_ge_0 order_le_less)
  moreover have "min MAX_FIRE_PER_TIMER (deadlines (uint (tm_interval_ms t)) (tm_remaining_ms t) delta)
      = deadlines (uint (tm_interval_ms t)) (tm_remaining_ms t) delta"
    using assms(2) by (auto simp: MAX_FIRE_PER_TIMER_def timer_tick_def Let_def)
  ultimately show "0 < tm_remaining_ms (snd (timer_tick delta t))"
    "0 < fst (timer_tick delta t) \<Longrightarrow> tm_remaining_ms (snd (timer_tick delta t)) \<le> uint (tm_interval_ms t)"
    using deadlines_rem [of "uint (tm_interval_ms t)" "tm_remaining_ms t" delta] assms(2)
    by (simp_all add: timer_tick_def Let_def)
qed

lemma io_register_effect:
  assumes "malloc_fresh malloc" "wf_ctx [] c" "fst (sevent_io_register malloc h c) = Some p"
  shows "fd_registered (h_fd h) (snd (sevent_io_register malloc h c)) \<and> p \<notin> set (cx_io_list c)
    \<and> p \<in> set (cx_io_list (snd (sevent_io_register malloc h c)))
    \<and> \<not> fd_registered (h_fd h) (sevent_io_unregister p (snd (sevent_io_register malloc h c)))"
proof -
  let ?c = "snd (sevent_io_register malloc h c)"
  let ?n = "\<lparr>io_fd = h_fd h, io_read_cb = h_io_read h, io_write_cb = h_io_write h, io_data = h_data h, io_deleted = False\<rparr>"
  have m: "malloc c = Some p" and c: "?c = sevent_wakeup ((put_node p (IoNode ?n) c)
      \<lparr>cx_io_list := p # cx_io_list c, cx_io_count := cx_io_count c + 1\<rparr>)" and f: "\<not> fd_registered (h_fd h) c"
    using assms(3) by (auto simp: sevent_io_register_def split: if_splits option.splits)
  have p: "p \<notin> set (cx_io_list c)" using wf_malloc [OF assms(2,1) m] by (simp add: all_nodes_def)
  have w: "wf_ctx [] ?c" "wf_ctx [] (sevent_io_unregister p ?c)" using assms by (blast intro: wf_io_register wf_io_unregister)+
  have l: "cx_io_list ?c = p # cx_io_list c" "cx_io_list (sevent_io_unregister p ?c) = cx_io_list c"
    by (simp_all add: c sevent_io_unregister_def Let_def)
  have h: "fd_of (cx_heap ?c) p = h_fd h" by (simp add: c fd_of_def)
  have "fd_of (cx_heap (sevent_io_unregister p ?c)) q = fd_of (cx_heap c) q" if "q \<noteq> p" for q
    using that by (auto simp: c sevent_io_unregister_def Let_def split: option.splits)
  then have "\<not> fd_registered (h_fd h) (sevent_io_unregister p ?c)"
    using f p by (force simp: fd_registered_iff [OF w(2)] fd_registered_iff [OF assms(2)] l)
  then show ?thesis using p h by (simp add: fd_registered_iff [OF w(1)] l)
qed

section \<open>The loop\<close>

fun run_rounds :: "'u selector \<Rightarrow> 'u callbacks \<Rightarrow> thread_id \<Rightarrow> nat \<Rightarrow> 'u sevent_context \<Rightarrow> 'u sevent_context option" where
  "run_rounds sel call self 0 c = Some c"
| "run_rounds sel call self (Suc n) c =
     (case sevent_run_once sel call self c of None \<Rightarrow> None | Some (rc, c', log) \<Rightarrow> run_rounds sel call self n c')"

definition stops_after :: "'u selector \<Rightarrow> 'u callbacks \<Rightarrow> thread_id \<Rightarrow> nat \<Rightarrow> 'u sevent_context \<Rightarrow> 'u sevent_context \<Rightarrow> bool" where
  "stops_after sel call self n c c' \<longleftrightarrow> run_rounds sel call self n c = Some c' \<and> \<not> cx_running c'
     \<and> (\<forall>m<n. \<exists>d. run_rounds sel call self m c = Some d \<and> cx_running d)"

lemma stops_after_Suc:
  "stops_after sel call self (Suc n) c c' \<longleftrightarrow> cx_running c
     \<and> (\<exists>rc d log. sevent_run_once sel call self c = Some (rc, d, log) \<and> stops_after sel call self n d c')"
  unfolding stops_after_def All_less_Suc2 by (auto split: option.splits)

lemma run_while_complete: "stops_after sel call self n c c' \<Longrightarrow> run_while sel call self c = Some (Some c')"
proof (induction n arbitrary: c)
  case 0
  then show ?case by (subst run_while.simps) (simp add: stops_after_def)
next
  case (Suc n)
  then show ?case by (subst run_while.simps) (auto simp: stops_after_Suc)
qed

lemma run_while_sound:
  assumes "run_while sel call self c = Some r"
  shows "\<forall>c'. r = Some c' \<longrightarrow> (\<exists>n. stops_after sel call self n c c')"
proof (rule run_while.raw_induct [OF _ assms, where P = "\<lambda>sel call self c r. \<forall>c'. r = Some c' \<longrightarrow> (\<exists>n. stops_after sel call self n c c')"])
  fix f :: "'a selector \<Rightarrow> 'a callbacks \<Rightarrow> thread_id \<Rightarrow> 'a sevent_context \<Rightarrow> 'a sevent_context option option"
    and sel :: "'a selector" and call :: "'a callbacks" and self :: thread_id and c :: "'a sevent_context" and r
  assume IH: "\<And>sel call self c y. f sel call self c = Some y \<Longrightarrow> \<forall>c'. y = Some c' \<longrightarrow> (\<exists>n. stops_after sel call self n c c')"
    and body: "(if \<not> cx_running c then Some (Some c)
       else case sevent_run_once sel call self c of None \<Rightarrow> Some None | Some (rc, c', log) \<Rightarrow> f sel call self c') = Some r"
  show "\<forall>c'. r = Some c' \<longrightarrow> (\<exists>n. stops_after sel call self n c c')"
  proof (cases "cx_running c")
    case False
    then have "stops_after sel call self 0 c c" by (simp add: stops_after_def)
    with False body show ?thesis by auto
  next
    case True
    have "\<exists>n. stops_after sel call self n c c'" if some: "r = Some c'" for c'
    proof -
      obtain rc d log where d: "sevent_run_once sel call self c = Some (rc, d, log)" "f sel call self d = Some r"
        using body True some by (auto split: option.splits)
      then obtain n where "stops_after sel call self n d c'" using IH some by blast
      with d True have "stops_after sel call self (Suc n) c c'" by (auto simp: stops_after_Suc)
      then show ?thesis by blast
    qed
    then show ?thesis by blast
  qed
qed

section \<open>Properties of the loop\<close>

text \<open>An allocator, callbacks and a \<open>select\<close> for the examples.\<close>

definition demo_malloc :: "unit allocator" where
  "demo_malloc c = find (\<lambda>p. cx_heap c p = None) [0..<64]"

definition demo_call :: "unit callbacks" where
  "demo_call f d c = (if f = 1 then snd (sevent_post demo_malloc (Some 0) d c)
     else if f = 2 then sevent_timer_unregister d c else if f = 3 then sevent_io_unregister d c else c)"

definition demo_select :: "unit selector" where
  "demo_select n r w tv c =
     (\<lparr>sr_nfds = 1, sr_errno = EOTHER, sr_rfds = r, sr_wfds = [], sr_t0 = (0, 0), sr_t1 = (0, 25000000)\<rparr>, c)"

definition demo_new :: "unit sevent_context" where
  "demo_new = the (sevent_create True True (Some 3) ())"

definition demo_ctx :: "unit sevent_context" where
  "demo_ctx =
     (let c = snd (sevent_io_register demo_malloc \<lparr>h_fd = 5, h_io_read = Some 3, h_io_write = None, h_data = 0\<rparr> demo_new);
          c = snd (sevent_timer_register demo_malloc 10 (Some 1) 42 c)
      in snd (sevent_post demo_malloc (Some 1) 9 c))"

lemma demo_malloc_fresh: "malloc_fresh demo_malloc"
  by (auto simp: malloc_fresh_def demo_malloc_def find_Some_iff)

lemma api_reach_step: "api_step malloc c c' \<Longrightarrow> api_reach malloc c c'"
  by (simp add: api_reach_def r_into_rtranclp)

lemma demo_calls: "calls_api demo_malloc demo_call"
  by (auto simp: calls_api_def demo_call_def api_reach_def
      intro: r_into_rtranclp api_post api_timer_unregister api_io_unregister)

lemma demo_selects: "select_api demo_malloc demo_select"
  by (simp add: select_api_def demo_select_def api_reach_def)

lemma demo_reach: "ctx_reach demo_malloc demo_select demo_call demo_ctx"
proof -
  have "sevent_create True True (Some 3) () = Some demo_new" by (simp add: demo_new_def sevent_create_def)
  then have "ctx_reach demo_malloc demo_select demo_call demo_new" by (rule reach_create)
  then show ?thesis
    unfolding demo_ctx_def Let_def
    by (rule reach_api [OF reach_api [OF reach_api [OF _ api_io_register] api_timer_register] api_post])
qed

lemma demo_wf: "wf_ctx [] demo_ctx"
  using ctx_reach_wf [OF demo_reach demo_calls demo_malloc_fresh demo_selects] .

text \<open>
  C1. The event loop is memory safe and leaks nothing: whatever sequence of public calls,
  dispatches and rounds led to a context, with callbacks and other threads that register,
  unregister and post at will, its invariant holds (every list node is live, of the right
  kind, in one list only, and nothing else is allocated; no descriptor is registered twice;
  the counters are the lengths), the next round reads and frees only live nodes and ends, and
  \<open>sevent_destroy\<close> frees every node exactly once and leaves nothing allocated.
\<close>

theorem loop_memory_safe:
  assumes "malloc_fresh malloc" "calls_api malloc call" "select_api malloc sel" "ctx_reach malloc sel call c"
  shows "wf_ctx [] c \<and> (\<exists>rc c' log. sevent_run_once sel call self c = Some (rc, c', log) \<and> rc \<in> {0, 1, SEVENT_ERR_INVAL})
    \<and> (\<exists>c'. sevent_destroy c = Some c' \<and> cx_heap c' = Map.empty)"
  using ctx_reach_wf [OF assms(4,2,1,3)] run_once_safe [OF assms(2,1,3)] destroy_frees_all by blast

theorem loop_memory_safe_witness:
  "wf_ctx [] demo_ctx \<and> (\<exists>rc c' log. sevent_run_once demo_select demo_call 7 demo_ctx = Some (rc, c', log)
      \<and> rc \<in> {0, 1, SEVENT_ERR_INVAL}) \<and> (\<exists>c'. sevent_destroy demo_ctx = Some c' \<and> cx_heap c' = Map.empty)
    \<and> dom (cx_heap demo_ctx) \<noteq> {}"
proof -
  have "cx_heap demo_ctx 0 \<noteq> None" by code_simp
  then show ?thesis
    using loop_memory_safe [OF demo_malloc_fresh demo_calls demo_selects demo_reach, of 7] by blast
qed

text \<open>
  C4. Posted tasks run exactly once and in the order they were posted: the post phase calls
  the tasks queued at its start, first to last, each with its own function and argument, and
  frees them; what callbacks post meanwhile stays queued for a later round.
\<close>

theorem posts_run_fifo:
  assumes "malloc_fresh malloc" "calls_api malloc call" "wf_ctx [] c"
  shows "\<exists>c'. run_posts call c =
      Some (c', map (\<lambda>p. (p, po_cb (the (get_post p c)), po_data (the (get_post p c)))) (cx_post_pending c)) \<and> wf_ctx [] c'"
  using run_posts_safe [OF assms(2,1,3)] .

theorem posts_run_fifo_witness:
  "\<exists>c'. run_posts demo_call demo_ctx = Some (c', [(2, 1, 9)]) \<and> wf_ctx [] c' \<and> cx_post_pending c' \<noteq> []"
proof -
  have "map (\<lambda>p. (p, po_cb (the (get_post p demo_ctx)), po_data (the (get_post p demo_ctx)))) (cx_post_pending demo_ctx) = [(2, 1, 9)]"
    by code_simp
  moreover have "cx_post_pending (fst (the (run_posts demo_call demo_ctx))) \<noteq> []" by code_simp
  ultimately show ?thesis using posts_run_fifo [OF demo_malloc_fresh demo_calls demo_wf] by auto
qed

text \<open>
  C3. Unregistered handles stay silent: once an io or timer node is marked deleted, neither
  the io phase over the snapshot taken before \<open>select\<close> nor the timer phase over the expired
  entries calls it, whatever the callbacks of the phase do.
\<close>

theorem unregistered_never_called:
  assumes "malloc_fresh malloc" "calls_api malloc call"
  shows "(get_io p c = Some n \<and> io_deleted n \<and> run_io_snap call rfds wfds ps c = Some (c', log) \<longrightarrow> p \<notin> fst ` set log)
    \<and> (get_timer p c = Some t \<and> tm_deleted t \<and> fire_expired call es c = Some (c', log) \<longrightarrow> p \<notin> fst ` set log)"
  using deleted_io_silent [OF assms(2,1)] deleted_timer_silent [OF assms(2,1)] by blast

definition demo_gone :: "unit sevent_context" where
  "demo_gone = sevent_timer_unregister 1 (sevent_io_unregister 0 demo_ctx)"

theorem unregistered_never_called_witness:
  "\<exists>n t c' log c'' log'. get_io 0 demo_gone = Some n \<and> io_deleted n \<and> get_timer 1 demo_gone = Some t \<and> tm_deleted t
     \<and> run_io_snap demo_call [5] [] [0] demo_gone = Some (c', log) \<and> 0 \<notin> fst ` set log
     \<and> fire_expired demo_call [(1, 2)] demo_gone = Some (c'', log') \<and> 1 \<notin> fst ` set log'"
proof -
  have w: "wf_ctx [] demo_gone" unfolding demo_gone_def by (intro wf_timer_unregister wf_io_unregister demo_wf)
  have a: "get_io 0 demo_gone \<noteq> None" "io_deleted (the (get_io 0 demo_gone))"
    "get_timer 1 demo_gone \<noteq> None" "tm_deleted (the (get_timer 1 demo_gone))" by code_simp+
  obtain n t where n: "get_io 0 demo_gone = Some n" "io_deleted n" "get_timer 1 demo_gone = Some t" "tm_deleted t"
    using a by auto
  obtain c' log where r: "run_io_snap demo_call [5] [] [0] demo_gone = Some (c', log)"
    using run_io_snap_safe [OF demo_calls demo_malloc_fresh w, of "[0]"] n by auto
  obtain c'' log' where f: "fire_expired demo_call [(1, 2)] demo_gone = Some (c'', log')"
    using fire_expired_safe [OF demo_calls demo_malloc_fresh w, of "[(1, 2)]"] n by auto
  note u = unregistered_never_called [OF demo_malloc_fresh demo_calls]
  have "0 \<notin> fst ` set log" "1 \<notin> fst ` set log'" using u n r f by blast+
  with n r f show ?thesis by blast
qed



text \<open>
  \<open>sevent_io_register\<close> succeeds exactly for a descriptor in range, with a callback,
  when memory is available and no live registration has the descriptor; then the new
  handle is registered with it, and unregistering it makes the descriptor free again.
\<close>

theorem io_register_spec:
  assumes "malloc_fresh malloc" "wf_ctx [] c"
  shows "(fst (sevent_io_register malloc h c) \<noteq> None \<longleftrightarrow>
      0 \<le> h_fd h \<and> h_fd h < 1024 \<and> (h_io_read h \<noteq> None \<or> h_io_write h \<noteq> None) \<and> malloc c \<noteq> None \<and> \<not> fd_registered (h_fd h) c)
    \<and> (\<forall>p. fst (sevent_io_register malloc h c) = Some p \<longrightarrow>
         fd_registered (h_fd h) (snd (sevent_io_register malloc h c))
         \<and> p \<notin> set (cx_io_list c) \<and> p \<in> set (cx_io_list (snd (sevent_io_register malloc h c)))
         \<and> \<not> fd_registered (h_fd h) (sevent_io_unregister p (snd (sevent_io_register malloc h c))))
    \<and> (fst (sevent_io_register malloc h c) = None \<longrightarrow> snd (sevent_io_register malloc h c) = c)"
proof (intro conjI allI impI)
  show "fst (sevent_io_register malloc h c) \<noteq> None \<longleftrightarrow>
      0 \<le> h_fd h \<and> h_fd h < 1024 \<and> (h_io_read h \<noteq> None \<or> h_io_write h \<noteq> None) \<and> malloc c \<noteq> None \<and> \<not> fd_registered (h_fd h) c"
    by (auto simp: sevent_io_register_def FD_SETSIZE_def split: option.split)
  fix p assume p: "fst (sevent_io_register malloc h c) = Some p"
  note r = io_register_effect [OF assms p]
  show "fd_registered (h_fd h) (snd (sevent_io_register malloc h c))" "p \<notin> set (cx_io_list c)"
    "p \<in> set (cx_io_list (snd (sevent_io_register malloc h c)))"
    "\<not> fd_registered (h_fd h) (sevent_io_unregister p (snd (sevent_io_register malloc h c)))"
    using r by blast+
next
  assume "fst (sevent_io_register malloc h c) = None"
  then show "snd (sevent_io_register malloc h c) = c" by (auto simp: sevent_io_register_def split: if_splits option.splits)
qed

theorem io_register_spec_witness:
  "fst (sevent_io_register demo_malloc \<lparr>h_fd = 5, h_io_read = Some 3, h_io_write = None, h_data = 0\<rparr> demo_ctx) = None
   \<and> fst (sevent_io_register demo_malloc \<lparr>h_fd = 6, h_io_read = Some 3, h_io_write = None, h_data = 0\<rparr> demo_ctx) \<noteq> None"
proof -
  have a: "fd_registered 5 demo_ctx" "\<not> fd_registered 6 demo_ctx" "demo_malloc demo_ctx \<noteq> None" by code_simp+
  show ?thesis
    using io_register_spec [OF demo_malloc_fresh demo_wf, of "\<lparr>h_fd = 5, h_io_read = Some 3, h_io_write = None, h_data = 0\<rparr>"]
      io_register_spec [OF demo_malloc_fresh demo_wf, of "\<lparr>h_fd = 6, h_io_read = Some 3, h_io_write = None, h_data = 0\<rparr>"] a
    by simp
qed


text \<open>
  A timer whose interval does not fit an \<open>int\<close> is not served after its interval: the
  remaining time starts negative, so the first tick, however short, already fires it.
\<close>

theorem huge_interval_fires_at_once:
  assumes "2147483648 \<le> uint (ms :: 32 word)" "0 < delta" "delta \<le> uint ms - 2147483648"
    "sevent_timer_register malloc ms (Some f) d c = (Some p, c')"
  shows "\<exists>t. get_timer p c' = Some t \<and> tm_interval_ms t = ms
    \<and> 0 < fst (fire_loop MAX_FIRE_PER_TIMER (wrap32 (uint (tm_interval_ms t))) (wrap32 (tm_remaining_ms t - wrap32 delta)))"
proof -
  have u: "uint ms < 4294967296" using uint_lt2p [of ms] by simp
  have m: "(uint ms + 2147483648) mod 4294967296 = uint ms - 2147483648"
    using u assms(1) mod_add_self2 [of "uint ms - 2147483648" 4294967296] by (simp add: algebra_simps)
  have r: "wrap32 (uint ms) = uint ms - 4294967296" using m by (simp add: wrap32_def)
  have "wrap32 delta = delta" using assms(2,3) u by (intro wrap32_id) auto
  moreover have "wrap32 (uint ms - 4294967296 - delta) = uint ms - 4294967296 - delta" using assms u by (intro wrap32_id) auto
  ultimately have "wrap32 (wrap32 (uint ms) - wrap32 delta) \<le> 0" using r assms(2) u by simp
  moreover have "0 < fst (fire_loop MAX_FIRE_PER_TIMER i r)" if "r \<le> 0" for i r
    using that by (simp add: MAX_FIRE_PER_TIMER_def fire_loop_pos)
  ultimately have "0 < fst (fire_loop MAX_FIRE_PER_TIMER (wrap32 (uint ms)) (wrap32 (wrap32 (uint ms) - wrap32 delta)))"
    by blast
  moreover have "get_timer p c' = Some \<lparr>tm_interval_ms = ms, tm_remaining_ms = wrap32 (uint ms), tm_cb = f, tm_data = d, tm_deleted = False\<rparr>"
    using assms(4) by (auto simp: sevent_timer_register_def get_timer_def sevent_wakeup_def split: if_splits option.splits)
  ultimately show ?thesis by simp
qed

theorem huge_interval_fires_at_once_witness:
  "\<exists>p c' t. sevent_timer_register demo_malloc 3000000000 (Some 1) 0 demo_new = (Some p, c') \<and> get_timer p c' = Some t
     \<and> 0 < fst (fire_loop MAX_FIRE_PER_TIMER (wrap32 (uint (tm_interval_ms t))) (wrap32 (tm_remaining_ms t - wrap32 10)))"
proof -
  have "demo_malloc demo_new = Some 0" by code_simp
  then have "\<exists>p c'. sevent_timer_register demo_malloc 3000000000 (Some 1) 0 demo_new = (Some p, c')"
    by (simp add: sevent_timer_register_def)
  then obtain p c' where "sevent_timer_register demo_malloc 3000000000 (Some 1) 0 demo_new = (Some p, c')" by blast
  from huge_interval_fires_at_once [OF _ _ _ this, of 10] this show ?thesis by auto
qed
end
