(* ===== verification/Tcp_Conn.thy ===== *)
theory Tcp_Conn
  imports Sevent_Loop
begin

text \<open>
  \<^verbatim>\<open>src/tcp_conn.c\<close>: a TCP connection on the event loop. The connection object is a record,
  the loop is the context of \<^verbatim>\<open>Sevent_Loop\<close>, and the system calls are a parameter \<open>sy\<close> that
  works on the rest of the program state (\<open>cx_env\<close>); \<open>user\<close> is what the user's callbacks do
  to the connection and the context. The singly linked write queue is the list of its nodes.
  The field \<open>tc_trace\<close> is a history variable: it records what the connection did to the
  outside and is never read. Locks are left out: a locked region is one step.
\<close>

section \<open>Types\<close>

datatype tcp_state = TCP_STATE_IDLE | TCP_STATE_OPENING | TCP_STATE_OPEN

record tcp_write_node =
  wn_data :: bytes
  wn_offset :: nat

record sevent_stream_conn_init =
  in_user_data :: udata
  in_on_open :: "cb option"
  in_on_data :: "cb option"
  in_on_close :: "cb option"
  in_on_error :: "cb option"
  in_connect_timeout_ms :: int
  in_recv_buf_size :: nat

datatype stream_event = EvOpen | EvData bytes | EvClose | EvError int

datatype tcp_act = ActStart | ActNotify stream_event | ActAccept bytes | ActSent bytes | ActFin
  | ActDown | ActClose | ActFree

text \<open>\<open>tc_self\<close> is the pointer to the object, \<open>tc_recv_buf\<close> whether the buffer is allocated.\<close>

record tcp_conn =
  tc_self :: udata
  tc_fd :: int
  tc_io_handle :: "addr option"
  tc_state :: tcp_state
  tc_destroyed :: bool
  tc_user_data :: udata
  tc_on_open :: "cb option"
  tc_on_data :: "cb option"
  tc_on_close :: "cb option"
  tc_on_error :: "cb option"
  tc_connect_timeout_ms :: int
  tc_connect_timer :: "addr option"
  tc_shutdown_wr_pending :: bool
  tc_recv_buf :: bool
  tc_recv_cap :: nat
  tc_write_queue :: "tcp_write_node list"
  tc_write_count :: nat
  tc_trace :: "tcp_act list"

definition SEVENT_INVALID_SOCKET :: int where "SEVENT_INVALID_SOCKET = -1"
definition SEVENT_TCP_RECV_DEFAULT :: nat where "SEVENT_TCP_RECV_DEFAULT = 4096"
definition SEVENT_TCP_CONNECT_TIMEOUT_MS :: int where "SEVENT_TCP_CONNECT_TIMEOUT_MS = 10000"
definition SEVENT_SHUT_RD :: int where "SEVENT_SHUT_RD = 1"
definition SEVENT_SHUT_WR :: int where "SEVENT_SHUT_WR = 2"

text \<open>The functions of this file that are handed to the event loop.\<close>

definition on_write_ready_cb :: cb where "on_write_ready_cb = 1"
definition on_readable_cb :: cb where "on_readable_cb = 2"
definition on_connect_ready_cb :: cb where "on_connect_ready_cb = 3"
definition on_connect_timeout_cb :: cb where "on_connect_timeout_cb = 4"
definition on_first_ready_cb :: cb where "on_first_ready_cb = 5"
definition tcp_cleanup_cb :: cb where "tcp_cleanup_cb = 6"

text \<open>
  The results of \<open>send\<close> and \<open>read\<close>: \<open>Again\<close> is \<open>EAGAIN\<close> or \<open>EINTR\<close>, \<open>Fail\<close> any
  other error. \<open>sy_nonblock\<close> is the pair of \<open>fcntl\<close> calls, \<open>sy_connect\<close> tells whether
  \<open>connect\<close> succeeded or is in progress, \<open>sy_so_error\<close> whether the pending error is read
  and zero, \<open>sy_alloc\<close> whether an allocation succeeds.
\<close>

datatype send_result = Sent nat | SendAgain | SendFail
datatype read_result = Got bytes | ReadAgain | ReadFail

record 'u sys =
  sy_malloc :: "'u allocator"
  sy_alloc :: "nat \<Rightarrow> 'u \<Rightarrow> bool \<times> 'u"
  sy_socket :: "'u \<Rightarrow> int \<times> 'u"
  sy_nonblock :: "int \<Rightarrow> 'u \<Rightarrow> bool \<times> 'u"
  sy_pton :: "string \<Rightarrow> bool"
  sy_connect :: "int \<Rightarrow> string \<Rightarrow> 16 word \<Rightarrow> 'u \<Rightarrow> bool \<times> 'u"
  sy_close :: "int \<Rightarrow> 'u \<Rightarrow> 'u"
  sy_send :: "int \<Rightarrow> bytes \<Rightarrow> 'u \<Rightarrow> send_result \<times> 'u"
  sy_read :: "int \<Rightarrow> nat \<Rightarrow> 'u \<Rightarrow> read_result \<times> 'u"
  sy_so_error :: "int \<Rightarrow> 'u \<Rightarrow> bool \<times> 'u"
  sy_shutdown :: "int \<Rightarrow> bool \<Rightarrow> 'u \<Rightarrow> 'u"
  sy_nodelay :: "int \<Rightarrow> bool \<Rightarrow> 'u \<Rightarrow> 'u"

type_synonym 'u tcp_st = "tcp_conn \<times> 'u sevent_context"
type_synonym 'u user = "cb \<Rightarrow> udata \<Rightarrow> stream_event \<Rightarrow> 'u tcp_st \<Rightarrow> 'u tcp_st"

definition env_call :: "('u \<Rightarrow> 'r \<times> 'u) \<Rightarrow> 'u sevent_context \<Rightarrow> 'r \<times> 'u sevent_context" where
  "env_call f c = (case f (cx_env c) of (r, u) \<Rightarrow> (r, c\<lparr>cx_env := u\<rparr>))"

definition env_do :: "('u \<Rightarrow> 'u) \<Rightarrow> 'u sevent_context \<Rightarrow> 'u sevent_context" where
  "env_do f c = c\<lparr>cx_env := f (cx_env c)\<rparr>"

definition act :: "tcp_act \<Rightarrow> tcp_conn \<Rightarrow> tcp_conn" where
  "act a t = t\<lparr>tc_trace := tc_trace t @ [a]\<rparr>"

text \<open>Calling a user callback; \<open>on_close\<close> and \<open>on_error\<close> may be NULL and are then skipped.\<close>

definition tcp_notify :: "'u user \<Rightarrow> cb option \<Rightarrow> stream_event \<Rightarrow> 'u tcp_st \<Rightarrow> 'u tcp_st" where
  "tcp_notify user f ev s =
     (case (f, s) of
        (None, _) \<Rightarrow> s
      | (Some g, (t, c)) \<Rightarrow> user g (tc_user_data t) ev (act (ActNotify ev) t, c))"

section \<open>Internal helpers\<close>

definition tcp_close_io :: "'u sys \<Rightarrow> 'u tcp_st \<Rightarrow> 'u tcp_st" where
  "tcp_close_io sy s =
     (let (t, c) = s;
          (t, c) = (case tc_io_handle t of
                      None \<Rightarrow> (t, c)
                    | Some h \<Rightarrow> (t\<lparr>tc_io_handle := None\<rparr>, sevent_io_unregister h c))
      in if 0 \<le> tc_fd t
         then (t\<lparr>tc_fd := SEVENT_INVALID_SOCKET\<rparr>, env_do (sy_close sy (tc_fd t)) c)
         else (t, c))"

definition tcp_queue_clear :: "tcp_conn \<Rightarrow> tcp_conn" where
  "tcp_queue_clear t = t\<lparr>tc_write_queue := [], tc_write_count := 0\<rparr>"

definition tcp_cancel_timer :: "'u tcp_st \<Rightarrow> 'u tcp_st" where
  "tcp_cancel_timer s =
     (case s of (t, c) \<Rightarrow>
        case tc_connect_timer t of
          None \<Rightarrow> (t, c)
        | Some p \<Rightarrow> (t\<lparr>tc_connect_timer := None\<rparr>, sevent_timer_unregister p c))"

definition tcp_teardown :: "'u sys \<Rightarrow> 'u user \<Rightarrow> int \<Rightarrow> 'u tcp_st \<Rightarrow> 'u tcp_st" where
  "tcp_teardown sy user err s =
     (if tc_destroyed (fst s) \<or> tc_state (fst s) = TCP_STATE_IDLE then s
      else
        let (t, c) = tcp_close_io sy (tcp_cancel_timer s);
            t = act ActDown ((tcp_queue_clear t)\<lparr>tc_state := TCP_STATE_IDLE\<rparr>)
        in if err \<noteq> 0 then tcp_notify user (tc_on_error t) (EvError err) (t, c)
           else tcp_notify user (tc_on_close t) EvClose (t, c))"

definition tcp_update_io :: "'u sys \<Rightarrow> 'u user \<Rightarrow> 'u tcp_st \<Rightarrow> bool \<times> 'u tcp_st" where
  "tcp_update_io sy user s =
     (let (t, c) = s;
          h = \<lparr>h_fd = tc_fd t, h_io_read = Some on_readable_cb,
               h_io_write = (if tc_write_queue t \<noteq> [] then Some on_write_ready_cb else None), h_data = tc_self t\<rparr>;
          c = (case tc_io_handle t of None \<Rightarrow> c | Some p \<Rightarrow> sevent_io_unregister p c);
          (r, c) = sevent_io_register (sy_malloc sy) h c;
          t = t\<lparr>tc_io_handle := r\<rparr>
      in if r = None then (False, tcp_teardown sy user 0 (t, c)) else (True, (t, c)))"

definition tcp_enqueue :: "'u sys \<Rightarrow> bytes \<Rightarrow> 'u tcp_st \<Rightarrow> int \<times> 'u tcp_st" where
  "tcp_enqueue sy data s =
     (let (t, c) = s;
          (ok, c) = env_call (sy_alloc sy 32) c
      in if \<not> ok then (-1, (t, c))
         else (0, (t\<lparr>tc_write_queue := tc_write_queue t @ [\<lparr>wn_data = data, wn_offset = 0\<rparr>],
                     tc_write_count := tc_write_count t + 1\<rparr>, c)))"

function tcp_flush :: "'u sys \<Rightarrow> tcp_conn \<Rightarrow> 'u \<Rightarrow> int \<times> tcp_conn \<times> 'u" where
  "tcp_flush sy t u =
     (case tc_write_queue t of
        [] \<Rightarrow> (0, t, u)
      | n # ns \<Rightarrow>
          let rest = drop (wn_offset n) (wn_data n);
              t' = t\<lparr>tc_write_queue := ns, tc_write_count := tc_write_count t - 1\<rparr>
          in case sy_send sy (tc_fd t) rest u of
               (Sent w, u) \<Rightarrow>
                 if 0 < w then
                   if wn_offset n + w < length (wn_data n) then
                     (int (tc_write_count t),
                      act (ActSent (take w rest)) (t\<lparr>tc_write_queue := n\<lparr>wn_offset := wn_offset n + w\<rparr> # ns\<rparr>), u)
                   else tcp_flush sy (act (ActSent (take w rest)) t') u
                 else tcp_flush sy t' u
             | (SendAgain, u) \<Rightarrow> (int (tc_write_count t), t, u)
             | (SendFail, u) \<Rightarrow> (-1, t', u))"
  by pat_completeness auto

termination tcp_flush
  by (relation "measure (\<lambda>(sy, t, u). length (tc_write_queue t))") (auto simp: act_def)

definition tcp_flush_st :: "'u sys \<Rightarrow> 'u tcp_st \<Rightarrow> int \<times> 'u tcp_st" where
  "tcp_flush_st sy s =
     (case s of (t, c) \<Rightarrow> case tcp_flush sy t (cx_env c) of (rc, t', u) \<Rightarrow> (rc, (t', c\<lparr>cx_env := u\<rparr>)))"

section \<open>Connecting\<close>

definition tcp_socket_connect :: "'u sys \<Rightarrow> string \<Rightarrow> 16 word \<Rightarrow> 'u \<Rightarrow> int \<times> 'u" where
  "tcp_socket_connect sy host port u =
     (let (fd, u) = sy_socket sy u
      in if fd < 0 then (-1, u)
         else
           let (ok, u) = sy_nonblock sy fd u
           in if \<not> ok then (-1, sy_close sy fd u)
              else if \<not> sy_pton sy host then (-1, sy_close sy fd u)
              else
                let (ok, u) = sy_connect sy fd host port u
                in if \<not> ok then (-1, sy_close sy fd u) else (fd, u))"

definition tcp_register_connect_io :: "'u sys \<Rightarrow> int \<Rightarrow> 'u tcp_st \<Rightarrow> bool \<times> 'u tcp_st" where
  "tcp_register_connect_io sy fd s =
     (let (t, c) = s;
          (r, c) = sevent_io_register (sy_malloc sy)
                     \<lparr>h_fd = fd, h_io_read = None, h_io_write = Some on_connect_ready_cb, h_data = tc_self t\<rparr> c;
          t = t\<lparr>tc_io_handle := r\<rparr>
      in if r = None then (False, (t, env_do (sy_close sy fd) c))
         else
           let t = t\<lparr>tc_fd := fd, tc_state := TCP_STATE_OPENING\<rparr>;
               t_ms = (if tc_connect_timeout_ms t = 0 then SEVENT_TCP_CONNECT_TIMEOUT_MS else tc_connect_timeout_ms t)
           in if 0 < t_ms then
                let (p, c) = sevent_timer_register (sy_malloc sy) (word_of_int t_ms) (Some on_connect_timeout_cb) (tc_self t) c;
                    t = t\<lparr>tc_connect_timer := p\<rparr>
                in if p = None then
                     let (t, c) = tcp_close_io sy (t, c) in (False, (t\<lparr>tc_state := TCP_STATE_IDLE\<rparr>, c))
                   else (True, (act ActStart t, c))
              else (True, (act ActStart t, c)))"

section \<open>Handlers called by the event loop\<close>

definition tcp_opened :: "'u sys \<Rightarrow> 'u user \<Rightarrow> 'u tcp_st \<Rightarrow> 'u tcp_st" where
  "tcp_opened sy user s =
     (let (t, c) = s;
          (ok, s) = tcp_update_io sy user (t\<lparr>tc_state := TCP_STATE_OPEN\<rparr>, c)
      in if \<not> ok then s else tcp_notify user (tc_on_open (fst s)) EvOpen s)"

definition on_connect_ready :: "'u sys \<Rightarrow> 'u user \<Rightarrow> 'u tcp_st \<Rightarrow> 'u tcp_st" where
  "on_connect_ready sy user s =
     (if tc_destroyed (fst s) \<or> tc_state (fst s) \<noteq> TCP_STATE_OPENING then s
      else
        let (t, c) = tcp_cancel_timer s;
            (ok, c) = env_call (sy_so_error sy (tc_fd t)) c
        in if \<not> ok then tcp_teardown sy user SEVENT_ERR_CONNECT (t, c) else tcp_opened sy user (t, c))"

definition on_connect_timeout :: "'u sys \<Rightarrow> 'u user \<Rightarrow> 'u tcp_st \<Rightarrow> 'u tcp_st" where
  "on_connect_timeout sy user s =
     (if tc_destroyed (fst s) \<or> tc_state (fst s) \<noteq> TCP_STATE_OPENING then s
      else tcp_teardown sy user SEVENT_ERR_CONNECT (tcp_cancel_timer s))"

definition on_first_ready :: "'u sys \<Rightarrow> 'u user \<Rightarrow> 'u tcp_st \<Rightarrow> 'u tcp_st" where
  "on_first_ready sy user s =
     (if tc_destroyed (fst s) \<or> tc_state (fst s) \<noteq> TCP_STATE_OPENING then s else tcp_opened sy user s)"

definition recv_read :: "'u sys \<Rightarrow> 'u tcp_st \<Rightarrow> read_result \<times> 'u tcp_st" where
  "recv_read sy s =
     (let (t, c) = s; (r, c) = env_call (sy_read sy (tc_fd t) (tc_recv_cap t)) c in (r, (t, c)))"

definition on_readable :: "'u sys \<Rightarrow> 'u user \<Rightarrow> 'u tcp_st \<Rightarrow> 'u tcp_st" where
  "on_readable sy user s =
     (if tc_destroyed (fst s) then s
      else case recv_read sy s of
        (Got [], s) \<Rightarrow> tcp_teardown sy user 0 s
      | (ReadFail, s) \<Rightarrow> tcp_teardown sy user SEVENT_ERR_READ s
      | (ReadAgain, s) \<Rightarrow> s
      | (Got (b # bs), s) \<Rightarrow> tcp_notify user (tc_on_data (fst s)) (EvData (b # bs)) s)"

definition tcp_maybe_shutdown_wr :: "'u sys \<Rightarrow> 'u tcp_st \<Rightarrow> 'u tcp_st" where
  "tcp_maybe_shutdown_wr sy s =
     (case s of (t, c) \<Rightarrow>
        if tc_shutdown_wr_pending t \<and> tc_write_queue t = []
        then (act ActFin (t\<lparr>tc_shutdown_wr_pending := False\<rparr>), env_do (sy_shutdown sy (tc_fd t) True) c)
        else (t, c))"

definition on_write_ready :: "'u sys \<Rightarrow> 'u user \<Rightarrow> 'u tcp_st \<Rightarrow> 'u tcp_st" where
  "on_write_ready sy user s =
     (if tc_destroyed (fst s) \<or> tc_state (fst s) \<noteq> TCP_STATE_OPEN then s
      else
        let (rc, s) = tcp_flush_st sy s
        in if rc < 0 then tcp_teardown sy user SEVENT_ERR_WRITE s
           else if tc_write_queue (fst s) = [] then snd (tcp_update_io sy user (tcp_maybe_shutdown_wr sy s))
           else s)"

section \<open>Public functions\<close>

definition sevent_tcp_conn_create :: "'u sys \<Rightarrow> udata \<Rightarrow> 'u sevent_context \<Rightarrow> tcp_conn option \<times> 'u sevent_context" where
  "sevent_tcp_conn_create sy self c =
     (let (ok, c) = env_call (sy_alloc sy 192) c
      in if \<not> ok then (None, c)
         else (Some \<lparr>tc_self = self, tc_fd = SEVENT_INVALID_SOCKET, tc_io_handle = None, tc_state = TCP_STATE_IDLE,
                     tc_destroyed = False, tc_user_data = 0, tc_on_open = None, tc_on_data = None, tc_on_close = None,
                     tc_on_error = None, tc_connect_timeout_ms = 0, tc_connect_timer = None,
                     tc_shutdown_wr_pending = False, tc_recv_buf = False, tc_recv_cap = 0, tc_write_queue = [],
                     tc_write_count = 0, tc_trace = []\<rparr>, c))"

definition tcp_setup_recv :: "'u sys \<Rightarrow> nat \<Rightarrow> 'u tcp_st \<Rightarrow> int \<times> 'u tcp_st" where
  "tcp_setup_recv sy recv_buf_size s =
     (let (t, c) = s;
          cap = (if recv_buf_size \<noteq> 0 then recv_buf_size else SEVENT_TCP_RECV_DEFAULT)
      in if tc_recv_buf t \<and> tc_recv_cap t = cap then (0, s)
         else
           let (ok, c) = env_call (sy_alloc sy cap) c
           in (if ok then 0 else -1, (t\<lparr>tc_recv_cap := cap, tc_recv_buf := ok\<rparr>, c)))"

definition tcp_set_init :: "sevent_stream_conn_init \<Rightarrow> tcp_conn \<Rightarrow> tcp_conn" where
  "tcp_set_init i t =
     t\<lparr>tc_on_open := in_on_open i, tc_on_data := in_on_data i, tc_on_close := in_on_close i,
       tc_on_error := in_on_error i, tc_user_data := in_user_data i, tc_connect_timeout_ms := in_connect_timeout_ms i\<rparr>"

definition init_refused :: "sevent_stream_conn_init option \<Rightarrow> bool" where
  "init_refused i = (case i of None \<Rightarrow> True | Some i \<Rightarrow> in_on_open i = None \<or> in_on_data i = None)"

definition sevent_tcp_conn_open ::
  "'u sys \<Rightarrow> string option \<Rightarrow> 16 word \<Rightarrow> sevent_stream_conn_init option \<Rightarrow> 'u tcp_st \<Rightarrow> int \<times> 'u tcp_st" where
  "sevent_tcp_conn_open sy host port init s =
     (if host = None \<or> init_refused init \<or> tc_state (fst s) \<noteq> TCP_STATE_IDLE then (SEVENT_ERR_INVAL, s)
      else
        let (rc, (t, c)) = tcp_setup_recv sy (in_recv_buf_size (the init)) s
        in if rc \<noteq> 0 then (SEVENT_ERR_NOMEM, (t, c))
           else
             let (fd, c) = env_call (tcp_socket_connect sy (the host) port) c
             in if fd < 0 then (SEVENT_ERR_CONNECT, (t, c))
                else
                  let (ok, s) = tcp_register_connect_io sy fd (tcp_set_init (the init) t, c)
                  in (if \<not> ok then SEVENT_ERR_NOMEM else 0, s))"

definition sevent_tcp_conn_set_no_delay :: "'u sys \<Rightarrow> bool \<Rightarrow> 'u tcp_st \<Rightarrow> 'u tcp_st" where
  "sevent_tcp_conn_set_no_delay sy on s =
     (case s of (t, c) \<Rightarrow> if tc_fd t < 0 then s else (t, env_do (sy_nodelay sy (tc_fd t) on) c))"

definition tcp_op_set_callbacks :: "sevent_stream_conn_init \<Rightarrow> 'u tcp_st \<Rightarrow> 'u tcp_st" where
  "tcp_op_set_callbacks cb s =
     (case s of (t, c) \<Rightarrow>
        (t\<lparr>tc_user_data := in_user_data cb, tc_on_open := in_on_open cb, tc_on_data := in_on_data cb,
           tc_on_close := in_on_close cb, tc_on_error := in_on_error cb\<rparr>, c))"

definition sevent_tcp_conn_accept ::
  "'u sys \<Rightarrow> int \<Rightarrow> sevent_stream_conn_init option \<Rightarrow> 'u tcp_st \<Rightarrow> int \<times> 'u tcp_st" where
  "sevent_tcp_conn_accept sy fd init s =
     (if fd < 0 \<or> init_refused init \<or> tc_state (fst s) \<noteq> TCP_STATE_IDLE then (SEVENT_ERR_INVAL, s)
      else
        let (t, c) = s;
            (ok, c) = env_call (sy_nonblock sy fd) c
        in if \<not> ok then (SEVENT_ERR_INVAL, (t, c))
           else
             let (rc, (t, c)) = tcp_setup_recv sy (in_recv_buf_size (the init)) (t, c)
             in if rc \<noteq> 0 then (SEVENT_ERR_NOMEM, (t, c))
                else
                  let t = (tcp_set_init (the init) t)\<lparr>tc_state := TCP_STATE_OPENING, tc_fd := fd\<rparr>;
                      (r, c) = sevent_io_register (sy_malloc sy)
                        \<lparr>h_fd = fd, h_io_read = Some on_first_ready_cb, h_io_write = Some on_first_ready_cb, h_data = tc_self t\<rparr> c;
                      t = t\<lparr>tc_io_handle := r\<rparr>
                  in if r = None
                     then (SEVENT_ERR_NOMEM, (t\<lparr>tc_fd := SEVENT_INVALID_SOCKET, tc_state := TCP_STATE_IDLE\<rparr>, c))
                     else (0, (act ActStart t, c)))"

definition sevent_tcp_conn_shutdown :: "'u sys \<Rightarrow> int \<Rightarrow> 'u tcp_st \<Rightarrow> int \<times> 'u tcp_st" where
  "sevent_tcp_conn_shutdown sy flag s =
     (if tc_destroyed (fst s) \<or> tc_state (fst s) \<noteq> TCP_STATE_OPEN then (SEVENT_ERR_INVAL, s)
      else
        let (t, c) = s;
            (t, c) = (if flag AND SEVENT_SHUT_WR \<noteq> 0 then
                        if tc_write_queue t \<noteq> [] then (t\<lparr>tc_shutdown_wr_pending := True\<rparr>, c)
                        else (act ActFin t, env_do (sy_shutdown sy (tc_fd t) True) c)
                      else (t, c));
            c = (if flag AND SEVENT_SHUT_RD \<noteq> 0 then env_do (sy_shutdown sy (tc_fd t) False) c else c)
        in (0, (t, c)))"

text \<open>A buffer that may be NULL is an option; with NULL only the length zero is accepted.\<close>

definition sevent_tcp_conn_write :: "'u sys \<Rightarrow> 'u user \<Rightarrow> bytes option \<Rightarrow> nat \<Rightarrow> 'u tcp_st \<Rightarrow> int \<times> 'u tcp_st" where
  "sevent_tcp_conn_write sy user data len s =
     (if data = None \<and> len \<noteq> 0 then (SEVENT_ERR_INVAL, s)
      else if tc_destroyed (fst s) \<or> tc_state (fst s) \<noteq> TCP_STATE_OPEN then (SEVENT_ERR_INVAL, s)
      else if len = 0 then (0, s)
      else
        let (t, c) = s;
            (ok, c) = env_call (sy_alloc sy len) c
        in if \<not> ok then (SEVENT_ERR_NOMEM, (t, c))
           else
             let buf = take len (the data);
                 (rc, (t, c)) = tcp_enqueue sy buf (t, c)
             in if rc \<noteq> 0 then (SEVENT_ERR_NOMEM, (t, c))
                else
                  let (rc, s) = tcp_flush_st sy (act (ActAccept buf) t, c)
                  in if rc < 0 then (SEVENT_ERR_WRITE, tcp_teardown sy user SEVENT_ERR_WRITE s)
                     else if tc_write_queue (fst s) \<noteq> [] then (0, snd (tcp_update_io sy user s))
                     else (0, tcp_maybe_shutdown_wr sy s))"

definition sevent_tcp_conn_close :: "'u sys \<Rightarrow> 'u tcp_st \<Rightarrow> 'u tcp_st" where
  "sevent_tcp_conn_close sy s =
     (let (t, c) = tcp_close_io sy (tcp_cancel_timer s)
      in (act ActClose ((tcp_queue_clear t)\<lparr>tc_state := TCP_STATE_IDLE\<rparr>), c))"

definition tcp_cleanup :: "tcp_conn \<Rightarrow> tcp_conn" where
  "tcp_cleanup t = act ActFree ((tcp_queue_clear t)\<lparr>tc_recv_buf := False\<rparr>)"

definition sevent_tcp_conn_destroy :: "'u sys \<Rightarrow> 'u tcp_st \<Rightarrow> 'u tcp_st" where
  "sevent_tcp_conn_destroy sy s =
     (let (t, c) = s;
          (t, c) = sevent_tcp_conn_close sy (t\<lparr>tc_destroyed := True\<rparr>, c);
          (rc, c) = sevent_post (sy_malloc sy) (Some tcp_cleanup_cb) (tc_self t) c
      in if rc \<noteq> SEVENT_SUCCESS then (tcp_cleanup t, c) else (t, c))"

section \<open>What a connection has registered\<close>

text \<open>The live io and timer registrations whose data pointer is \<open>self\<close>.\<close>

definition own_io :: "udata \<Rightarrow> 'u sevent_context \<Rightarrow> (addr \<times> cb option \<times> cb option) set" where
  "own_io self c = {(p, r, w). p \<in> set (cx_io_list c) \<and>
     (\<exists>n. get_io p c = Some n \<and> io_data n = self \<and> io_read_cb n = r \<and> io_write_cb n = w)}"

definition own_tm :: "udata \<Rightarrow> 'u sevent_context \<Rightarrow> (addr \<times> cb) set" where
  "own_tm self c = {(p, f). p \<in> set (cx_timer_list c) \<and> (\<exists>n. get_timer p c = Some n \<and> tm_data n = self \<and> tm_cb n = f)}"

definition wfc :: "'u sevent_context \<Rightarrow> bool" where
  "wfc c \<longleftrightarrow> (\<exists>xs. wf_ctx xs c)"

lemma own_frame [simp]:
  "own_io s (sevent_wakeup c) = own_io s c" "own_tm s (sevent_wakeup c) = own_tm s c"
  "own_io s (c\<lparr>cx_env := u\<rparr>) = own_io s c" "own_tm s (c\<lparr>cx_env := u\<rparr>) = own_tm s c"
  "own_io s (c\<lparr>cx_running := r\<rparr>) = own_io s c" "own_tm s (c\<lparr>cx_running := r\<rparr>) = own_tm s c"
  "own_io s (env_do f c) = own_io s c" "own_tm s (env_do f c) = own_tm s c"
  by (simp_all add: own_io_def own_tm_def get_io_def get_timer_def env_do_def)

lemma wfc_frame [simp]: "wfc (env_do f c) = wfc c" "wfc (c\<lparr>cx_env := u\<rparr>) = wfc c"
  by (simp_all add: wfc_def env_do_def)

lemma wfc_api:
  "wfc c \<Longrightarrow> wfc (sevent_io_unregister p c)" "wfc c \<Longrightarrow> wfc (sevent_timer_unregister p c)"
  "wfc c \<Longrightarrow> malloc_fresh m \<Longrightarrow> wfc (snd (sevent_io_register m h c))"
  "wfc c \<Longrightarrow> malloc_fresh m \<Longrightarrow> wfc (snd (sevent_timer_register m ms f d c))"
  "wfc c \<Longrightarrow> malloc_fresh m \<Longrightarrow> wfc (snd (sevent_post m g d c))"
  unfolding wfc_def by (blast intro: wf_io_unregister wf_timer_unregister wf_io_register wf_timer_register wf_post)+

lemma wfc_kinds:
  assumes "wfc c"
  shows "p \<in> set (cx_io_list c) \<Longrightarrow> \<exists>n. cx_heap c p = Some (IoNode n)"
    "p \<in> set (cx_timer_list c) \<Longrightarrow> \<exists>n. cx_heap c p = Some (TimerNode n)"
    "distinct (cx_io_list c)" "distinct (cx_timer_list c)"
    "malloc_fresh m \<Longrightarrow> m c = Some p \<Longrightarrow> p \<notin> set (cx_io_list c) \<and> p \<notin> set (cx_timer_list c)"
proof -
  obtain xs where w: "wf_ctx xs c" using assms by (auto simp: wfc_def)
  show "p \<in> set (cx_io_list c) \<Longrightarrow> \<exists>n. cx_heap c p = Some (IoNode n)"
    "p \<in> set (cx_timer_list c) \<Longrightarrow> \<exists>n. cx_heap c p = Some (TimerNode n)"
    using w unfolding wf_ctx_def io_ok_def timer_ok_def by blast+
  show "distinct (cx_io_list c)" "distinct (cx_timer_list c)" using w by (auto simp: wf_ctx_def all_nodes_def)
  show "malloc_fresh m \<Longrightarrow> m c = Some p \<Longrightarrow> p \<notin> set (cx_io_list c) \<and> p \<notin> set (cx_timer_list c)"
    using wf_malloc [OF w] by (auto simp: all_nodes_def)
qed

lemma own_io_unregister:
  assumes "wfc c"
  shows "own_io s (sevent_io_unregister h c) = {x \<in> own_io s c. fst x \<noteq> h}"
    "own_tm s (sevent_io_unregister h c) = own_tm s c"
proof -
  have "h \<in> set (cx_io_list c) \<Longrightarrow> \<exists>n. cx_heap c h = Some (IoNode n)" by (rule wfc_kinds(1) [OF assms])
  then show "own_io s (sevent_io_unregister h c) = {x \<in> own_io s c. fst x \<noteq> h}"
    "own_tm s (sevent_io_unregister h c) = own_tm s c"
    using wfc_kinds(3) [OF assms]
    by (auto simp: own_io_def own_tm_def sevent_io_unregister_def Let_def get_io_def get_timer_def
        split: if_splits)
qed

lemma own_timer_unregister:
  assumes "wfc c"
  shows "own_tm s (sevent_timer_unregister h c) = {x \<in> own_tm s c. fst x \<noteq> h}"
    "own_io s (sevent_timer_unregister h c) = own_io s c"
proof -
  have "h \<in> set (cx_timer_list c) \<Longrightarrow> \<exists>n. cx_heap c h = Some (TimerNode n)" by (rule wfc_kinds(2) [OF assms])
  then show "own_tm s (sevent_timer_unregister h c) = {x \<in> own_tm s c. fst x \<noteq> h}"
    "own_io s (sevent_timer_unregister h c) = own_io s c"
    using wfc_kinds(4) [OF assms]
    by (auto simp: own_io_def own_tm_def sevent_timer_unregister_def Let_def get_io_def get_timer_def
        split: if_splits)
qed

lemma own_io_register:
  assumes "wfc c" "malloc_fresh m" "sevent_io_register m h c = (r, c')"
  shows "own_io s c' = own_io s c \<union> (case r of Some p \<Rightarrow> if h_data h = s then {(p, h_io_read h, h_io_write h)} else {} | None \<Rightarrow> {})"
    "own_tm s c' = own_tm s c"
proof -
  have n: "m c = Some p \<Longrightarrow> p \<notin> set (cx_io_list c) \<and> p \<notin> set (cx_timer_list c)" for p
    using wfc_kinds(5) [OF assms(1,2)] .
  show "own_io s c' = own_io s c \<union> (case r of Some p \<Rightarrow> if h_data h = s then {(p, h_io_read h, h_io_write h)} else {} | None \<Rightarrow> {})"
    "own_tm s c' = own_tm s c"
    using assms(3) n
    by (auto simp: sevent_io_register_def own_io_def own_tm_def get_io_def get_timer_def
        split: if_splits option.splits)
qed

lemma own_timer_register:
  assumes "wfc c" "malloc_fresh m" "sevent_timer_register m ms (Some f) d c = (r, c')"
  shows "own_tm s c' = own_tm s c \<union> (case r of Some p \<Rightarrow> if d = s then {(p, f)} else {} | None \<Rightarrow> {})"
    "own_io s c' = own_io s c"
proof -
  have n: "m c = Some p \<Longrightarrow> p \<notin> set (cx_io_list c) \<and> p \<notin> set (cx_timer_list c)" for p
    using wfc_kinds(5) [OF assms(1,2)] .
  show "own_tm s c' = own_tm s c \<union> (case r of Some p \<Rightarrow> if d = s then {(p, f)} else {} | None \<Rightarrow> {})"
    "own_io s c' = own_io s c"
    using assms(3) n
    by (auto simp: sevent_timer_register_def own_io_def own_tm_def get_io_def get_timer_def
        split: if_splits option.splits) (metis sevent_timer.select_convs(3))+
qed

lemma own_post:
  assumes "wfc c" "malloc_fresh m"
  shows "own_io s (snd (sevent_post m g d c)) = own_io s c" "own_tm s (snd (sevent_post m g d c)) = own_tm s c"
proof -
  have n: "m c = Some p \<Longrightarrow> p \<notin> set (cx_io_list c) \<and> p \<notin> set (cx_timer_list c)" for p
    using wfc_kinds(5) [OF assms] .
  show "own_io s (snd (sevent_post m g d c)) = own_io s c" "own_tm s (snd (sevent_post m g d c)) = own_tm s c"
    using n by (auto simp: sevent_post_def own_io_def own_tm_def get_io_def get_timer_def split: option.splits if_splits)
qed

section \<open>Life cycle and stream order\<close>

text \<open>The life cycle, as an automaton over the history.\<close>

datatype phase = PIdle | POpening | POpen | PDown | PFreed

fun phase_step :: "phase \<Rightarrow> tcp_act \<Rightarrow> phase option" where
  "phase_step PFreed _ = None"
| "phase_step POpening (ActNotify EvOpen) = Some POpen"
| "phase_step POpening ActDown = Some PDown"
| "phase_step POpening ActClose = Some PIdle"
| "phase_step POpening _ = None"
| "phase_step POpen (ActNotify (EvData bs)) = (if bs = [] then None else Some POpen)"
| "phase_step POpen (ActAccept _) = Some POpen"
| "phase_step POpen (ActSent _) = Some POpen"
| "phase_step POpen ActFin = Some POpen"
| "phase_step POpen ActDown = Some PDown"
| "phase_step POpen ActClose = Some PIdle"
| "phase_step POpen _ = None"
| "phase_step PDown (ActNotify EvClose) = Some PIdle"
| "phase_step PDown (ActNotify (EvError e)) = (if e < 0 then Some PIdle else None)"
| "phase_step _ ActStart = Some POpening"
| "phase_step _ ActClose = Some PIdle"
| "phase_step _ ActFree = Some PFreed"
| "phase_step _ _ = None"

definition phase_of :: "tcp_act list \<Rightarrow> phase option" where
  "phase_of tr = foldl (\<lambda>p a. Option.bind p (\<lambda>p. phase_step p a)) (Some PIdle) tr"

text \<open>The bytes accepted by \<open>write\<close> and those handed to the kernel since the last start.\<close>

fun io_step :: "bytes \<times> bytes \<Rightarrow> tcp_act \<Rightarrow> bytes \<times> bytes" where
  "io_step _ ActStart = ([], [])"
| "io_step (a, s) (ActAccept bs) = (a @ bs, s)"
| "io_step (a, s) (ActSent bs) = (a, s @ bs)"
| "io_step x _ = x"

definition io_of :: "tcp_act list \<Rightarrow> bytes \<times> bytes" where
  "io_of tr = foldl io_step ([], []) tr"

definition pending :: "tcp_write_node list \<Rightarrow> bytes" where
  "pending q = concat (map (\<lambda>n. drop (wn_offset n) (wn_data n)) q)"

lemma phase_of_snoc [simp]: "phase_of (tr @ [a]) = Option.bind (phase_of tr) (\<lambda>p. phase_step p a)"
  by (simp add: phase_of_def)

lemma io_of_snoc [simp]: "io_of (tr @ [a]) = io_step (io_of tr) a"
  by (simp add: io_of_def)

lemma pending_simps [simp]: "pending [] = []" "pending (n # q) = drop (wn_offset n) (wn_data n) @ pending q"
  "pending (q @ q') = pending q @ pending q'"
  by (simp_all add: pending_def)

definition phase_for :: "tcp_state \<Rightarrow> bool \<Rightarrow> phase \<Rightarrow> bool" where
  "phase_for st dead ph = (case st of TCP_STATE_OPENING \<Rightarrow> ph = POpening | TCP_STATE_OPEN \<Rightarrow> ph = POpen
     | TCP_STATE_IDLE \<Rightarrow> ph \<in> {PIdle, PDown} \<or> ph = PFreed \<and> dead)"

text \<open>What holds of the fields in every state.\<close>

definition tcp_fields :: "tcp_conn \<Rightarrow> bool" where
  "tcp_fields t \<longleftrightarrow>
     (tc_destroyed t \<longrightarrow> tc_state t = TCP_STATE_IDLE)
     \<and> (tc_state t = TCP_STATE_IDLE \<longrightarrow> tc_fd t = SEVENT_INVALID_SOCKET \<and> tc_io_handle t = None
          \<and> tc_connect_timer t = None \<and> tc_write_queue t = [])
     \<and> (tc_state t \<noteq> TCP_STATE_IDLE \<longrightarrow> 0 \<le> tc_fd t \<and> tc_io_handle t \<noteq> None \<and> tc_on_open t \<noteq> None
          \<and> tc_on_data t \<noteq> None \<and> tc_recv_buf t)
     \<and> (tc_state t = TCP_STATE_OPENING \<longrightarrow> tc_write_queue t = [])
     \<and> (tc_connect_timer t \<noteq> None \<longrightarrow> tc_state t = TCP_STATE_OPENING)
     \<and> tc_write_count t = length (tc_write_queue t)
     \<and> (\<forall>n\<in>set (tc_write_queue t). wn_offset n < length (wn_data n))"

definition tcp_stream :: "tcp_conn \<Rightarrow> bool" where
  "tcp_stream t \<longleftrightarrow> (\<exists>rest. fst (io_of (tc_trace t)) = snd (io_of (tc_trace t)) @ rest
     \<and> (tc_state t \<noteq> TCP_STATE_IDLE \<longrightarrow> rest = pending (tc_write_queue t)))"

definition handle_cbs :: "tcp_state \<Rightarrow> addr option \<Rightarrow> cb option \<Rightarrow> cb option \<Rightarrow> bool" where
  "handle_cbs st timer r w = (case st of
      TCP_STATE_OPENING \<Rightarrow> r = None \<and> w = Some on_connect_ready_cb
        \<or> r = Some on_first_ready_cb \<and> w = Some on_first_ready_cb \<and> timer = None
    | TCP_STATE_OPEN \<Rightarrow> r = Some on_readable_cb \<and> w \<in> {None, Some on_write_ready_cb}
    | TCP_STATE_IDLE \<Rightarrow> False)"

definition tcp_regs :: "tcp_conn \<Rightarrow> 'u sevent_context \<Rightarrow> bool" where
  "tcp_regs t c \<longleftrightarrow> wfc c
     \<and> (\<forall>p r w. (p, r, w) \<in> own_io (tc_self t) c \<longrightarrow> tc_io_handle t = Some p \<and> handle_cbs (tc_state t) (tc_connect_timer t) r w)
     \<and> (\<forall>p f. (p, f) \<in> own_tm (tc_self t) c \<longrightarrow> tc_connect_timer t = Some p \<and> f = on_connect_timeout_cb)"

definition tcp_inv :: "'u tcp_st \<Rightarrow> bool" where
  "tcp_inv s \<longleftrightarrow> (\<exists>ph. phase_of (tc_trace (fst s)) = Some ph \<and> phase_for (tc_state (fst s)) (tc_destroyed (fst s)) ph)
     \<and> tcp_fields (fst s) \<and> tcp_stream (fst s) \<and> tcp_regs (fst s) (snd s)"

text \<open>The documented behaviour of \<open>send\<close> and \<open>socket\<close> on TCP.\<close>

definition send_ok :: "'u sys \<Rightarrow> bool" where
  "send_ok sy \<longleftrightarrow> (\<forall>fd d u w u'. d \<noteq> [] \<longrightarrow> sy_send sy fd d u = (Sent w, u') \<longrightarrow> 0 < w \<and> w \<le> length d)"

definition user_keeps :: "'u user \<Rightarrow> bool" where
  "user_keeps user \<longleftrightarrow> (\<forall>f d ev s. tcp_inv s \<longrightarrow> tcp_inv (user f d ev s))"

lemmas tcp_defs = tcp_inv_def tcp_fields_def tcp_stream_def tcp_regs_def phase_for_def

lemma act_sel [simp]:
  "tc_trace (act a t) = tc_trace t @ [a]" "tc_state (act a t) = tc_state t" "tc_fd (act a t) = tc_fd t"
  "tc_io_handle (act a t) = tc_io_handle t" "tc_destroyed (act a t) = tc_destroyed t" "tc_self (act a t) = tc_self t"
  "tc_on_open (act a t) = tc_on_open t" "tc_on_data (act a t) = tc_on_data t" "tc_on_close (act a t) = tc_on_close t"
  "tc_on_error (act a t) = tc_on_error t" "tc_connect_timer (act a t) = tc_connect_timer t" "tc_recv_buf (act a t) = tc_recv_buf t"
  "tc_write_queue (act a t) = tc_write_queue t" "tc_write_count (act a t) = tc_write_count t"
  "tc_shutdown_wr_pending (act a t) = tc_shutdown_wr_pending t" "tc_user_data (act a t) = tc_user_data t"
  "tc_recv_cap (act a t) = tc_recv_cap t" "tc_connect_timeout_ms (act a t) = tc_connect_timeout_ms t"
  by (simp_all add: act_def)
section \<open>Preservation\<close>

text \<open>What holds when a connection is about to be torn down.\<close>

definition tcp_pre :: "tcp_conn \<Rightarrow> 'u sevent_context \<Rightarrow> bool" where
  "tcp_pre t c \<longleftrightarrow> phase_of (tc_trace t) \<in> {Some POpening, Some POpen} \<and> \<not> tc_destroyed t \<and> tc_state t \<noteq> TCP_STATE_IDLE
     \<and> 0 \<le> tc_fd t \<and> (\<exists>rest. fst (io_of (tc_trace t)) = snd (io_of (tc_trace t)) @ rest)
     \<and> wfc c \<and> (\<forall>p r w. (p, r, w) \<in> own_io (tc_self t) c \<longrightarrow> tc_io_handle t = Some p)
     \<and> (\<forall>p f. (p, f) \<in> own_tm (tc_self t) c \<longrightarrow> tc_connect_timer t = Some p)"

lemma none_left [simp]:
  "(\<forall>p r w. (p, r, w) \<notin> A) \<longleftrightarrow> A = {}" "(\<forall>p f. (p, f) \<notin> B) \<longleftrightarrow> B = {}"
  by auto

lemma io_step_other [simp]:
  "io_step x (ActNotify e) = x" "io_step x ActDown = x" "io_step x ActClose = x" "io_step x ActFin = x" "io_step x ActFree = x"
  "io_step x (ActAccept bs) = (fst x @ bs, snd x)" "io_step x (ActSent bs) = (fst x, snd x @ bs)"
  by (cases x; simp)+

lemma trace_append [simp]:
  "phase_of (tr @ as) = foldl (\<lambda>p a. Option.bind p (\<lambda>p. phase_step p a)) (phase_of tr) as"
  "io_of (tr @ as) = foldl io_step (io_of tr) as"
  by (simp_all add: phase_of_def io_of_def)

lemma idle_inv:
  assumes "tc_state t = TCP_STATE_IDLE" "tc_fd t = SEVENT_INVALID_SOCKET" "tc_io_handle t = None" "tc_connect_timer t = None"
    "tc_write_queue t = []" "tc_write_count t = 0" "wfc c" "own_io (tc_self t) c = {}" "own_tm (tc_self t) c = {}"
    "phase_of (tc_trace t) = Some ph" "ph \<in> {PIdle, PDown} \<or> ph = PFreed \<and> tc_destroyed t"
    "fst (io_of (tc_trace t)) = snd (io_of (tc_trace t)) @ rest"
  shows "tcp_inv (t, c)"
  using assms by (auto simp: tcp_defs)

lemma upd_same [simp]:
  "tc_connect_timer t = x \<Longrightarrow> t\<lparr>tc_connect_timer := x\<rparr> = t" "tc_io_handle t = h \<Longrightarrow> t\<lparr>tc_io_handle := h\<rparr> = t"
  by (cases t; simp)+

lemma tcp_cancel_timer_eq:
  assumes "wfc c" "\<forall>p f. (p, f) \<in> own_tm (tc_self t) c \<longrightarrow> tc_connect_timer t = Some p"
  shows "\<exists>c'. tcp_cancel_timer (t, c) = (t\<lparr>tc_connect_timer := None\<rparr>, c') \<and> wfc c'
    \<and> own_io (tc_self t) c' = own_io (tc_self t) c \<and> own_tm (tc_self t) c' = {}"
  using assms
  by (cases "tc_connect_timer t") (auto simp: tcp_cancel_timer_def wfc_api own_timer_unregister)

lemma tcp_close_io_eq:
  assumes "wfc c" "\<forall>p r w. (p, r, w) \<in> own_io (tc_self t) c \<longrightarrow> tc_io_handle t = Some p"
  shows "\<exists>c'. tcp_close_io sy (t, c) = (t\<lparr>tc_io_handle := None, tc_fd := (if 0 \<le> tc_fd t then SEVENT_INVALID_SOCKET else tc_fd t)\<rparr>, c')
    \<and> wfc c' \<and> own_io (tc_self t) c' = {} \<and> own_tm (tc_self t) c' = own_tm (tc_self t) c"
proof -
  obtain c1 where c1: "(case tc_io_handle t of None \<Rightarrow> (t, c) | Some h \<Rightarrow> (t\<lparr>tc_io_handle := None\<rparr>, sevent_io_unregister h c))
      = (t\<lparr>tc_io_handle := None\<rparr>, c1)" "wfc c1" "own_io (tc_self t) c1 = {}" "own_tm (tc_self t) c1 = own_tm (tc_self t) c"
    using assms by (cases "tc_io_handle t") (auto simp: wfc_api own_io_unregister)
  have "t\<lparr>tc_io_handle := None, tc_fd := tc_fd t\<rparr> = t\<lparr>tc_io_handle := None\<rparr>" by (cases t) simp
  with c1 show ?thesis by (simp add: tcp_close_io_def)
qed

lemma tcp_notify_keeps:
  assumes "user_keeps user" "\<And>g. f = Some g \<Longrightarrow> tcp_inv (act (ActNotify ev) t, c)" "f = None \<Longrightarrow> tcp_inv (t, c)"
  shows "tcp_inv (tcp_notify user f ev (t, c))"
  using assms by (cases f) (auto simp: tcp_notify_def user_keeps_def)

lemma tcp_pre_inv: "tcp_inv (t, c) \<Longrightarrow> tc_state t \<noteq> TCP_STATE_IDLE \<Longrightarrow> tcp_pre t c"
  by (cases "tc_state t") (auto simp: tcp_defs tcp_pre_def)

lemma tcp_teardown_keeps:
  assumes "user_keeps user" "tcp_pre t c" "err \<le> 0"
  shows "tcp_inv (tcp_teardown sy user err (t, c))"
proof -
  let ?t1 = "t\<lparr>tc_connect_timer := None\<rparr>"
  obtain c1 where c1: "tcp_cancel_timer (t, c) = (?t1, c1)" "wfc c1"
    "own_io (tc_self t) c1 = own_io (tc_self t) c" "own_tm (tc_self t) c1 = {}"
    using tcp_cancel_timer_eq [of c t] assms(2) by (auto simp: tcp_pre_def)
  let ?t2 = "?t1\<lparr>tc_io_handle := None, tc_fd := SEVENT_INVALID_SOCKET\<rparr>"
  obtain c2 where c2: "tcp_close_io sy (?t1, c1) = (?t2, c2)" "wfc c2"
    "own_io (tc_self t) c2 = {}" "own_tm (tc_self t) c2 = {}"
    using tcp_close_io_eq [of c1 ?t1 sy] assms(2) c1 by (auto simp: tcp_pre_def)
  let ?t3 = "act ActDown ((tcp_queue_clear ?t2)\<lparr>tc_state := TCP_STATE_IDLE\<rparr>)"
  obtain rest where rest: "fst (io_of (tc_trace t)) = snd (io_of (tc_trace t)) @ rest" using assms(2) by (auto simp: tcp_pre_def)
  have ph: "phase_of (tc_trace ?t3) = Some PDown" using assms(2) by (auto simp: tcp_pre_def tcp_queue_clear_def)
  have io: "io_of (tc_trace ?t3) = io_of (tc_trace t)" by (simp add: tcp_queue_clear_def)
  have "tcp_inv (?t3, c2)"
    by (rule idle_inv [where ph = PDown and rest = rest]) (use c2 ph io rest in \<open>simp_all add: tcp_queue_clear_def\<close>)
  moreover have "tcp_inv (act (ActNotify EvClose) ?t3, c2)"
    by (rule idle_inv [where ph = PIdle and rest = rest]) (use c2 ph io rest in \<open>simp_all add: tcp_queue_clear_def\<close>)
  moreover have "tcp_inv (act (ActNotify (EvError err)) ?t3, c2)" if "err \<noteq> 0"
    by (rule idle_inv [where ph = PIdle and rest = rest]) (use c2 ph io rest assms(3) that in \<open>simp_all add: tcp_queue_clear_def\<close>)
  ultimately have "tcp_inv (if err \<noteq> 0 then tcp_notify user (tc_on_error ?t3) (EvError err) (?t3, c2)
      else tcp_notify user (tc_on_close ?t3) EvClose (?t3, c2))"
    using tcp_notify_keeps [OF assms(1)] by simp
  moreover have "\<not> (tc_destroyed t \<or> tc_state t = TCP_STATE_IDLE)" using assms(2) by (simp add: tcp_pre_def)
  ultimately show ?thesis unfolding tcp_teardown_def Let_def c1(1) c2(1) by simp
qed

text \<open>The state after flushing: queue, counter and history change, the stream stays in order.\<close>

definition flushed :: "int \<Rightarrow> tcp_conn \<Rightarrow> tcp_conn \<Rightarrow> bool" where
  "flushed rc t t' \<longleftrightarrow>
     t' = t\<lparr>tc_write_queue := tc_write_queue t', tc_write_count := tc_write_count t', tc_trace := tc_trace t'\<rparr>
     \<and> phase_of (tc_trace t') = Some POpen \<and> tc_write_count t' = length (tc_write_queue t')
     \<and> (\<forall>n\<in>set (tc_write_queue t'). wn_offset n < length (wn_data n))
     \<and> (\<exists>rest. fst (io_of (tc_trace t')) = snd (io_of (tc_trace t')) @ rest \<and> (0 \<le> rc \<longrightarrow> rest = pending (tc_write_queue t')))
     \<and> (0 \<le> rc \<longrightarrow> rc = int (length (tc_write_queue t')))"

definition flushable :: "tcp_conn \<Rightarrow> bool" where
  "flushable t \<longleftrightarrow> phase_of (tc_trace t) = Some POpen \<and> tc_write_count t = length (tc_write_queue t)
     \<and> (\<forall>n\<in>set (tc_write_queue t). wn_offset n < length (wn_data n))
     \<and> fst (io_of (tc_trace t)) = snd (io_of (tc_trace t)) @ pending (tc_write_queue t)"

lemma flushed_trans_upd:
  assumes "flushed rc t1 t'" "t1 = t\<lparr>tc_write_queue := q, tc_write_count := k, tc_trace := tr\<rparr>"
  shows "flushed rc t t'"
proof -
  have "t\<lparr>tc_write_queue := q, tc_write_count := k, tc_trace := tr\<rparr>
      \<lparr>tc_write_queue := q', tc_write_count := k', tc_trace := tr'\<rparr>
      = t\<lparr>tc_write_queue := q', tc_write_count := k', tc_trace := tr'\<rparr>" for q' k' tr'
    by (cases t) simp
  with assms show ?thesis unfolding flushed_def by metis
qed

lemma tcp_flush_keeps:
  assumes "send_ok sy"
  shows "flushable t \<Longrightarrow> tcp_flush sy t u = (rc, t', u') \<Longrightarrow> flushed rc t t'"
proof (induction "length (tc_write_queue t)" arbitrary: t u)
  case 0
  have "t\<lparr>tc_write_queue := tc_write_queue t, tc_write_count := tc_write_count t, tc_trace := tc_trace t\<rparr> = t" by (cases t) simp
  with 0 show ?case by (auto simp: flushed_def flushable_def)
next
  case (Suc k)
  have id: "t\<lparr>tc_write_queue := tc_write_queue t, tc_write_count := tc_write_count t, tc_trace := tc_trace t\<rparr> = t" by (cases t) simp
  obtain n ns where q: "tc_write_queue t = n # ns" using Suc.hyps(2) by (cases "tc_write_queue t") auto
  define rest where "rest = drop (wn_offset n) (wn_data n)"
  define t1 where "t1 = t\<lparr>tc_write_queue := ns, tc_write_count := tc_write_count t - 1\<rparr>"
  have off: "wn_offset n < length (wn_data n)" "rest \<noteq> []" using Suc.prems(1) q by (auto simp: flushable_def rest_def)
  have str: "fst (io_of (tc_trace t)) = snd (io_of (tc_trace t)) @ rest @ pending ns"
    using Suc.prems(1) q by (simp add: flushable_def rest_def)
  note step = Suc.prems(2) [unfolded tcp_flush.simps [of sy t u] q list.case Let_def, folded rest_def t1_def]
  obtain r v where r: "sy_send sy (tc_fd t) rest u = (r, v)" by (rule prod.exhaust)
  show ?case
  proof (cases r)
    case SendAgain
    then have "rc = int (tc_write_count t)" "t' = t" using step r by auto
    then show ?thesis using Suc.prems(1) id by (auto simp: flushed_def flushable_def)
  next
    case SendFail
    then have "rc = -1" "t' = t1" using step r by auto
    moreover have "t1 = t\<lparr>tc_write_queue := ns, tc_write_count := tc_write_count t - 1, tc_trace := tc_trace t\<rparr>"
      by (cases t) (simp add: t1_def)
    ultimately show ?thesis using Suc.prems(1) q str by (auto simp: flushed_def flushable_def)
  next
    case (Sent w)
    have w: "0 < w" "w \<le> length rest" using assms off r Sent unfolding send_ok_def by blast+
    show ?thesis
    proof (cases "wn_offset n + w < length (wn_data n)")
      case True
      let ?n = "n\<lparr>wn_offset := wn_offset n + w\<rparr>"
      have t': "rc = int (tc_write_count t)" "t' = act (ActSent (take w rest)) (t\<lparr>tc_write_queue := ?n # ns\<rparr>)"
        using step r Sent w True by auto
      have "take w rest @ pending (?n # ns) = rest @ pending ns"
        using append_take_drop_id [of w rest] unfolding append_assoc [symmetric] pending_simps by (simp add: rest_def add.commute)
      then have "fst (io_of (tc_trace t)) = snd (io_of (tc_trace t)) @ take w rest @ pending (?n # ns)" using str by simp
      moreover have "act a (t\<lparr>tc_write_queue := ?n # ns\<rparr>) = t\<lparr>tc_write_queue := ?n # ns, tc_write_count := tc_write_count t,
          tc_trace := tc_trace t @ [a]\<rparr>" for a by (cases t) (simp add: act_def)
      ultimately show ?thesis
        using Suc.prems(1) t' q True by (simp add: flushed_def flushable_def del: pending_simps(2))
    next
      case False
      then have all: "take w rest = rest" using w by (simp add: rest_def)
      let ?t = "act (ActSent rest) t1"
      have "tcp_flush sy ?t v = (rc, t', u')" using step r Sent w False all by (simp del: tcp_flush.simps)
      moreover have "flushable ?t" using Suc.prems(1) q str by (simp add: flushable_def t1_def)
      moreover have "k = length (tc_write_queue ?t)" using Suc.hyps(2) q by (simp add: t1_def)
      ultimately have "flushed rc ?t t'" using Suc.hyps(1) by blast
      then show ?thesis
        by (rule flushed_trans_upd [where q = ns and k = "tc_write_count t - 1" and tr = "tc_trace t @ [ActSent rest]"])
          (cases t; simp add: t1_def act_def)
    qed
  qed
qed

lemma open_inv:
  assumes "tc_state t = TCP_STATE_OPEN" "\<not> tc_destroyed t" "0 \<le> tc_fd t" "tc_io_handle t = Some p" "tc_on_open t \<noteq> None"
    "tc_on_data t \<noteq> None" "tc_recv_buf t" "tc_connect_timer t = None" "flushable t" "wfc c"
    "own_io (tc_self t) c \<subseteq> {(p, Some on_readable_cb, None), (p, Some on_readable_cb, Some on_write_ready_cb)}"
    "own_tm (tc_self t) c = {}"
  shows "tcp_inv (t, c)"
  using assms by (auto simp: tcp_defs flushable_def handle_cbs_def)

lemma tcp_update_io_keeps:
  assumes "user_keeps user" "malloc_fresh (sy_malloc sy)" "tcp_pre t c" "tcp_update_io sy user (t, c) = (ok, s')"
  shows "(ok \<longrightarrow> (\<exists>p c'. s' = (t\<lparr>tc_io_handle := Some p\<rparr>, c') \<and> wfc c' \<and> own_tm (tc_self t) c' = own_tm (tc_self t) c
        \<and> own_io (tc_self t) c' \<subseteq> {(p, Some on_readable_cb, None), (p, Some on_readable_cb, Some on_write_ready_cb)}))
    \<and> (\<not> ok \<longrightarrow> tcp_inv s')"
proof -
  let ?h = "\<lparr>h_fd = tc_fd t, h_io_read = Some on_readable_cb,
    h_io_write = (if tc_write_queue t \<noteq> [] then Some on_write_ready_cb else None), h_data = tc_self t\<rparr>"
  define c1 where "c1 = (case tc_io_handle t of None \<Rightarrow> c | Some p \<Rightarrow> sevent_io_unregister p c)"
  have c1: "wfc c1" "own_io (tc_self t) c1 = {}" "own_tm (tc_self t) c1 = own_tm (tc_self t) c"
    using assms(3) by (fastforce simp: c1_def tcp_pre_def wfc_api own_io_unregister split: option.splits)+
  obtain r c2 where r: "sevent_io_register (sy_malloc sy) ?h c1 = (r, c2)" by (rule prod.exhaust)
  have c2: "wfc c2" using wfc_api(3) [OF c1(1) assms(2), of ?h] r by simp
  note own = own_io_register [OF c1(1) assms(2) r, of "tc_self t"]
  show ?thesis
  proof (cases r)
    case None
    have "tcp_pre (t\<lparr>tc_io_handle := None\<rparr>) c2" using assms(3) own c1 c2 None by (simp add: tcp_pre_def)
    then have "tcp_inv (tcp_teardown sy user 0 (t\<lparr>tc_io_handle := None\<rparr>, c2))"
      by (rule tcp_teardown_keeps [OF assms(1)]) simp
    with assms(4) r None show ?thesis by (simp add: tcp_update_io_def c1_def [symmetric])
  next
    case (Some p)
    with assms(4) r own c1 c2 show ?thesis by (auto simp: tcp_update_io_def c1_def [symmetric])
  qed
qed

lemma inv_open:
  assumes "tcp_inv (t, c)" "tc_state t = TCP_STATE_OPEN"
  shows "tcp_pre t c" "flushable t" "\<not> tc_destroyed t" "0 \<le> tc_fd t" "tc_io_handle t \<noteq> None" "tc_on_open t \<noteq> None"
    "tc_on_data t \<noteq> None" "tc_recv_buf t" "tc_connect_timer t = None" "wfc c" "own_tm (tc_self t) c = {}"
    "\<And>p. tc_io_handle t = Some p \<Longrightarrow>
       own_io (tc_self t) c \<subseteq> {(p, Some on_readable_cb, None), (p, Some on_readable_cb, Some on_write_ready_cb)}"
proof -
  show "tcp_pre t c" using assms by (intro tcp_pre_inv) simp_all
  show "flushable t" "\<not> tc_destroyed t" "0 \<le> tc_fd t" "tc_io_handle t \<noteq> None" "tc_on_open t \<noteq> None"
    "tc_on_data t \<noteq> None" "tc_recv_buf t" "tc_connect_timer t = None" "wfc c"
    using assms by (auto simp: tcp_defs flushable_def)
  have tm: "tc_connect_timer t = None" "\<forall>p f. (p, f) \<in> own_tm (tc_self t) c \<longrightarrow> tc_connect_timer t = Some p"
    "\<forall>p r w. (p, r, w) \<in> own_io (tc_self t) c \<longrightarrow> tc_io_handle t = Some p \<and> handle_cbs (tc_state t) (tc_connect_timer t) r w"
    using assms by (auto simp: tcp_defs)
  then show "own_tm (tc_self t) c = {}" by auto
  show "own_io (tc_self t) c \<subseteq> {(p, Some on_readable_cb, None), (p, Some on_readable_cb, Some on_write_ready_cb)}"
    if "tc_io_handle t = Some p" for p using tm that assms(2) by (fastforce simp: handle_cbs_def)
qed

text \<open>After a change of the history and the queue only, an open connection stays well formed.\<close>

lemma flushed_inv:
  assumes "tcp_inv (t, c)" "tc_state t = TCP_STATE_OPEN" "flushed rc t t'"
    "own_io (tc_self t) c' = own_io (tc_self t) c" "own_tm (tc_self t) c' = own_tm (tc_self t) c" "wfc c'"
  shows "tcp_pre t' c'" "0 \<le> rc \<Longrightarrow> tcp_inv (t', c')"
proof -
  note o = inv_open [OF assms(1,2)]
  have t': "t' = t\<lparr>tc_write_queue := tc_write_queue t', tc_write_count := tc_write_count t', tc_trace := tc_trace t'\<rparr>"
    using assms(3) unfolding flushed_def by blast
  have sel: "tc_state t' = tc_state t" "tc_destroyed t' = tc_destroyed t" "tc_fd t' = tc_fd t" "tc_io_handle t' = tc_io_handle t"
    "tc_on_open t' = tc_on_open t" "tc_on_data t' = tc_on_data t" "tc_recv_buf t' = tc_recv_buf t"
    "tc_connect_timer t' = tc_connect_timer t" "tc_self t' = tc_self t"
    by (subst t', simp)+
  show "tcp_pre t' c'" using assms(3-6) o(1) by (auto simp: tcp_pre_def sel flushed_def)
  obtain p where p: "tc_io_handle t = Some p" using o(5) by auto
  assume "0 \<le> rc"
  then have "flushable t'" using assms(3) by (auto simp: flushed_def flushable_def)
  then show "tcp_inv (t', c')"
    by (intro open_inv [where p = p]) (use o(3-11) o(12) [OF p] assms(2,4-6) p in \<open>simp_all add: sel\<close>)
qed

section \<open>The handlers keep the invariant\<close>

lemma tcp_inv_env [simp]:
  "tcp_inv (t, c\<lparr>cx_env := u\<rparr>) = tcp_inv (t, c)" "tcp_pre t (c\<lparr>cx_env := u\<rparr>) = tcp_pre t c"
  "tcp_inv (t, env_do f c) = tcp_inv (t, c)"
  by (simp_all add: tcp_inv_def tcp_regs_def tcp_pre_def)

lemma env_callE: "env_call f c = (r, c') \<Longrightarrow> (\<And>u. f (cx_env c) = (r, u) \<Longrightarrow> c' = c\<lparr>cx_env := u\<rparr> \<Longrightarrow> P) \<Longrightarrow> P"
  by (auto simp: env_call_def split: prod.splits)

lemma handle_cbs_no_timer: "handle_cbs st tm r w \<Longrightarrow> handle_cbs st None r w"
  by (auto simp: handle_cbs_def split: tcp_state.splits)

lemma tcp_cancel_keeps:
  assumes "tcp_inv (t, c)" "tcp_cancel_timer (t, c) = (t', c')"
  shows "tcp_inv (t', c')" "t' = t\<lparr>tc_connect_timer := None\<rparr>"
proof -
  have "wfc c" "\<forall>p f. (p, f) \<in> own_tm (tc_self t) c \<longrightarrow> tc_connect_timer t = Some p" using assms(1) by (auto simp: tcp_defs)
  from tcp_cancel_timer_eq [OF this] assms show "tcp_inv (t', c')" "t' = t\<lparr>tc_connect_timer := None\<rparr>"
    by (auto simp: tcp_defs) (blast intro: handle_cbs_no_timer)+
qed

lemma tcp_opened_keeps:
  assumes "user_keeps user" "malloc_fresh (sy_malloc sy)" "tcp_inv (t, c)" "tc_state t = TCP_STATE_OPENING" "tc_connect_timer t = None"
  shows "tcp_inv (tcp_opened sy user (t, c))"
proof -
  let ?t = "t\<lparr>tc_state := TCP_STATE_OPEN\<rparr>"
  have pre: "tcp_pre ?t c" using tcp_pre_inv [OF assms(3)] assms(4) by (simp add: tcp_pre_def)
  obtain ok s where u: "tcp_update_io sy user (?t, c) = (ok, s)" by (rule prod.exhaust)
  note k = tcp_update_io_keeps [OF assms(1,2) pre u]
  show ?thesis
  proof (cases ok)
    case False
    then show ?thesis using k u by (simp add: tcp_opened_def)
  next
    case True
    then obtain p c' where s: "s = (?t\<lparr>tc_io_handle := Some p\<rparr>, c')" "wfc c'" "own_tm (tc_self t) c' = own_tm (tc_self t) c"
      "own_io (tc_self t) c' \<subseteq> {(p, Some on_readable_cb, None), (p, Some on_readable_cb, Some on_write_ready_cb)}"
      using k by auto
    let ?t2 = "act (ActNotify EvOpen) (?t\<lparr>tc_io_handle := Some p\<rparr>)"
    have f: "phase_of (tc_trace t) = Some POpening" "tc_write_queue t = []" "tc_on_open t \<noteq> None" "tc_on_data t \<noteq> None" "tc_recv_buf t"
      "\<not> tc_destroyed t" "0 \<le> tc_fd t" "tc_write_count t = 0" "fst (io_of (tc_trace t)) = snd (io_of (tc_trace t))"
      "own_tm (tc_self t) c = {}"
      using assms(3,4,5) by (auto simp: tcp_defs)
    have "tcp_inv (?t2, c')"
      by (rule open_inv [where p = p]) (use f s assms(5) in \<open>simp_all add: flushable_def\<close>)
    then have "tcp_inv (tcp_notify user (tc_on_open (fst s)) EvOpen s)"
      using assms(1) f(3) s(1) by (auto simp: tcp_notify_def user_keeps_def)
    then show ?thesis using u True by (simp add: tcp_opened_def)
  qed
qed

lemma on_connect_ready_keeps:
  assumes "user_keeps user" "malloc_fresh (sy_malloc sy)" "tcp_inv (t, c)"
  shows "tcp_inv (on_connect_ready sy user (t, c))"
proof (cases "tc_destroyed t \<or> tc_state t \<noteq> TCP_STATE_OPENING")
  case False
  obtain t1 c1 where c1: "tcp_cancel_timer (t, c) = (t1, c1)" by (rule prod.exhaust)
  note k = tcp_cancel_keeps [OF assms(3) c1]
  obtain ok c2 where c2: "env_call (sy_so_error sy (tc_fd t1)) c1 = (ok, c2)" by (rule prod.exhaust)
  then obtain u where u: "c2 = c1\<lparr>cx_env := u\<rparr>" by (rule env_callE)
  have "tcp_inv (tcp_teardown sy user SEVENT_ERR_CONNECT (t1, c2))"
    using k False u by (intro tcp_teardown_keeps [OF assms(1)]) (auto intro: tcp_pre_inv simp: SEVENT_ERR_CONNECT_def)
  moreover have "tcp_inv (tcp_opened sy user (t1, c2))"
    using k False u by (intro tcp_opened_keeps [OF assms(1,2)]) auto
  ultimately show ?thesis using False by (simp add: on_connect_ready_def c1 c2)
qed (simp add: on_connect_ready_def assms(3))

lemma on_connect_timeout_keeps:
  assumes "user_keeps user" "tcp_inv (t, c)"
  shows "tcp_inv (on_connect_timeout sy user (t, c))"
proof (cases "tc_destroyed t \<or> tc_state t \<noteq> TCP_STATE_OPENING")
  case False
  obtain t1 c1 where c1: "tcp_cancel_timer (t, c) = (t1, c1)" by (rule prod.exhaust)
  note k = tcp_cancel_keeps [OF assms(2) c1]
  have "tcp_inv (tcp_teardown sy user SEVENT_ERR_CONNECT (t1, c1))"
    using k False by (intro tcp_teardown_keeps [OF assms(1)]) (auto intro: tcp_pre_inv simp: SEVENT_ERR_CONNECT_def)
  then show ?thesis using False by (simp add: on_connect_timeout_def c1)
qed (simp add: on_connect_timeout_def assms(2))

lemma on_first_ready_keeps:
  assumes "user_keeps user" "malloc_fresh (sy_malloc sy)" "tcp_inv (t, c)" "tc_connect_timer t = None"
  shows "tcp_inv (on_first_ready sy user (t, c))"
  using assms tcp_opened_keeps [OF assms(1,2,3)] by (simp add: on_first_ready_def)

lemma on_readable_keeps:
  assumes "user_keeps user" "tcp_inv (t, c)" "tc_state t = TCP_STATE_OPEN"
  shows "tcp_inv (on_readable sy user (t, c))"
proof -
  obtain r c1 where c1: "env_call (sy_read sy (tc_fd t) (tc_recv_cap t)) c = (r, c1)" by (rule prod.exhaust)
  then obtain u where u: "c1 = c\<lparr>cx_env := u\<rparr>" by (rule env_callE)
  have i: "tcp_inv (t, c1)" "tcp_pre t c1" using assms(2,3) u tcp_pre_inv [OF assms(2)] by auto
  have td: "tcp_inv (tcp_teardown sy user e (t, c1))" if "e \<le> 0" for e
    using that i(2) by (intro tcp_teardown_keeps [OF assms(1)])
  note o = inv_open [OF i(1) assms(3)]
  obtain p where p: "tc_io_handle t = Some p" using o(5) by auto
  have "tcp_inv (act (ActNotify (EvData (b # bs))) t, c1)" for b bs
    by (rule open_inv [where p = p]) (use o(2-11) o(12) [OF p] assms(3) p in \<open>simp_all add: flushable_def\<close>)
  then have nt: "tcp_inv (tcp_notify user (tc_on_data t) (EvData (b # bs)) (t, c1))" for b bs
    using tcp_notify_keeps [OF assms(1)] i(1) by blast
  show ?thesis
    using td [of 0] td [of SEVENT_ERR_READ] nt i(1) c1 assms(2)
    by (auto simp: on_readable_def recv_read_def SEVENT_ERR_READ_def split: read_result.splits list.splits)
qed

lemma tcp_flush_st_keeps:
  assumes "send_ok sy" "tcp_inv (t, c)" "tc_state t = TCP_STATE_OPEN" "tcp_flush_st sy (t, c) = (rc, (t', c'))"
  shows "tcp_pre t' c'" "0 \<le> rc \<Longrightarrow> tcp_inv (t', c')" "tc_state t' = TCP_STATE_OPEN" "\<exists>u. c' = c\<lparr>cx_env := u\<rparr>"
proof -
  obtain u where u: "tcp_flush sy t (cx_env c) = (rc, t', u)" "c' = c\<lparr>cx_env := u\<rparr>"
    using assms(4) by (auto simp: tcp_flush_st_def split: prod.splits)
  have f: "flushed rc t t'" using tcp_flush_keeps [OF assms(1) inv_open(2) [OF assms(2,3)] u(1)] .
  have wf: "wfc c" by (rule inv_open(10) [OF assms(2,3)])
  show "tcp_pre t' c'" "0 \<le> rc \<Longrightarrow> tcp_inv (t', c')"
    using flushed_inv [OF assms(2,3) f, of c'] wf by (simp_all add: u(2))
  have "t' = t\<lparr>tc_write_queue := tc_write_queue t', tc_write_count := tc_write_count t', tc_trace := tc_trace t'\<rparr>"
    using f unfolding flushed_def by blast
  then have "tc_state t' = tc_state t" by (metis tcp_conn.select_convs(4) tcp_conn.surjective tcp_conn.update_convs(16,17,18))
  then show "tc_state t' = TCP_STATE_OPEN" using assms(3) by simp
  show "\<exists>u. c' = c\<lparr>cx_env := u\<rparr>" using u(2) by blast
qed

lemma tcp_maybe_shutdown_keeps:
  assumes "tcp_inv (t, c)" "tc_state t = TCP_STATE_OPEN"
  shows "tcp_inv (tcp_maybe_shutdown_wr sy (t, c))" "tc_state (fst (tcp_maybe_shutdown_wr sy (t, c))) = TCP_STATE_OPEN"
proof -
  note o = inv_open [OF assms]
  obtain p where p: "tc_io_handle t = Some p" using o(5) by auto
  have "tcp_inv (act ActFin (t\<lparr>tc_shutdown_wr_pending := False\<rparr>), c)"
    by (rule open_inv [where p = p]) (use o(2-11) o(12) [OF p] assms(2) p in \<open>simp_all add: flushable_def\<close>)
  then show "tcp_inv (tcp_maybe_shutdown_wr sy (t, c))" "tc_state (fst (tcp_maybe_shutdown_wr sy (t, c))) = TCP_STATE_OPEN"
    using assms by (simp_all add: tcp_maybe_shutdown_wr_def)
qed

lemma tcp_update_open_keeps:
  assumes "user_keeps user" "malloc_fresh (sy_malloc sy)" "tcp_inv (t, c)" "tc_state t = TCP_STATE_OPEN"
  shows "tcp_inv (snd (tcp_update_io sy user (t, c)))"
proof -
  note o = inv_open [OF assms(3,4)]
  obtain ok s where u: "tcp_update_io sy user (t, c) = (ok, s)" by (rule prod.exhaust)
  note k = tcp_update_io_keeps [OF assms(1,2) o(1) u]
  show ?thesis
  proof (cases ok)
    case True
    then obtain p c' where s: "s = (t\<lparr>tc_io_handle := Some p\<rparr>, c')" "wfc c'" "own_tm (tc_self t) c' = own_tm (tc_self t) c"
      "own_io (tc_self t) c' \<subseteq> {(p, Some on_readable_cb, None), (p, Some on_readable_cb, Some on_write_ready_cb)}" using k by blast
    have "tcp_inv (t\<lparr>tc_io_handle := Some p\<rparr>, c')"
      by (rule open_inv [where p = p]) (use o(2-11) s assms(4) in \<open>simp_all add: flushable_def\<close>)
    then show ?thesis using s(1) u by simp
  qed (use k u in auto)
qed

lemma on_write_ready_keeps:
  assumes "user_keeps user" "malloc_fresh (sy_malloc sy)" "send_ok sy" "tcp_inv (t, c)"
  shows "tcp_inv (on_write_ready sy user (t, c))"
proof (cases "tc_destroyed t \<or> tc_state t \<noteq> TCP_STATE_OPEN")
  case False
  then have st: "tc_state t = TCP_STATE_OPEN" by simp
  obtain rc t1 c1 where f: "tcp_flush_st sy (t, c) = (rc, (t1, c1))" by (metis prod.exhaust)
  note k = tcp_flush_st_keeps [OF assms(3,4) st f]
  obtain t2 c2 where m: "tcp_maybe_shutdown_wr sy (t1, c1) = (t2, c2)" by (rule prod.exhaust)
  have "tcp_inv (tcp_teardown sy user SEVENT_ERR_WRITE (t1, c1))"
    using k(1) by (rule tcp_teardown_keeps [OF assms(1)]) (simp add: SEVENT_ERR_WRITE_def)
  moreover have "tcp_inv (snd (tcp_update_io sy user (t2, c2)))" if "0 \<le> rc"
    using tcp_maybe_shutdown_keeps [OF k(2) [OF that] k(3), of sy] m by (intro tcp_update_open_keeps [OF assms(1,2)]) auto
  ultimately show ?thesis using False k(2) by (simp add: on_write_ready_def f m)
qed (simp add: on_write_ready_def assms(4))

section \<open>The public functions keep the invariant\<close>

lemma tcp_close_keeps:
  assumes "tcp_pre t c \<or> tcp_inv (t, c)" "phase_of (tc_trace t) \<noteq> Some PFreed"
  shows "tcp_inv (sevent_tcp_conn_close sy (t, c))"
proof -
  have p: "wfc c" "\<forall>p r w. (p, r, w) \<in> own_io (tc_self t) c \<longrightarrow> tc_io_handle t = Some p"
    "\<forall>p f. (p, f) \<in> own_tm (tc_self t) c \<longrightarrow> tc_connect_timer t = Some p"
    using assms(1) by (auto simp: tcp_pre_def tcp_defs)
  have fd: "tc_fd t = SEVENT_INVALID_SOCKET \<or> 0 \<le> tc_fd t" using assms(1) by (cases "tc_state t") (auto simp: tcp_pre_def tcp_defs)
  obtain ph where ph: "phase_of (tc_trace t) = Some ph" "ph \<noteq> PFreed" using assms by (auto simp: tcp_pre_def tcp_defs)
  obtain rest where rest: "fst (io_of (tc_trace t)) = snd (io_of (tc_trace t)) @ rest" using assms(1) by (auto simp: tcp_pre_def tcp_defs)
  let ?t1 = "t\<lparr>tc_connect_timer := None\<rparr>"
  obtain c1 where c1: "tcp_cancel_timer (t, c) = (?t1, c1)" "wfc c1"
    "own_io (tc_self t) c1 = own_io (tc_self t) c" "own_tm (tc_self t) c1 = {}" using tcp_cancel_timer_eq [OF p(1,3)] by auto
  obtain c2 where c2: "tcp_close_io sy (?t1, c1) = (?t1\<lparr>tc_io_handle := None, tc_fd := SEVENT_INVALID_SOCKET\<rparr>, c2)" "wfc c2"
    "own_io (tc_self t) c2 = {}" "own_tm (tc_self t) c2 = {}"
    using tcp_close_io_eq [of c1 ?t1 sy] p(2) c1 fd by (auto simp: SEVENT_INVALID_SOCKET_def)
  have "phase_step ph ActClose = Some PIdle" using ph(2) by (cases ph) simp_all
  then have "tcp_inv (act ActClose ((tcp_queue_clear (?t1\<lparr>tc_io_handle := None, tc_fd := SEVENT_INVALID_SOCKET\<rparr>))
      \<lparr>tc_state := TCP_STATE_IDLE\<rparr>), c2)"
    by (intro idle_inv [where ph = PIdle and rest = rest]) (use c2 ph rest in \<open>simp_all add: tcp_queue_clear_def\<close>)
  then show ?thesis by (simp add: sevent_tcp_conn_close_def c1(1) c2(1))
qed

lemma close_sel [simp]: "tc_destroyed (fst (sevent_tcp_conn_close sy (t, c))) = tc_destroyed t"
  "tc_state (fst (sevent_tcp_conn_close sy (t, c))) = TCP_STATE_IDLE"
  "phase_of (tc_trace (fst (sevent_tcp_conn_close sy (t, c)))) = Option.bind (phase_of (tc_trace t)) (\<lambda>p. phase_step p ActClose)"
  by (auto simp: sevent_tcp_conn_close_def tcp_cancel_timer_def tcp_close_io_def tcp_queue_clear_def Let_def split: option.splits prod.splits)

lemma tcp_cleanup_keeps:
  assumes "tcp_inv (t, c)" "tc_destroyed t" "phase_of (tc_trace t) \<noteq> Some PFreed"
  shows "tcp_inv (tcp_cleanup t, c)"
proof -
  have st: "tc_state t = TCP_STATE_IDLE" using assms by (simp add: tcp_defs)
  obtain ph where ph: "phase_of (tc_trace t) = Some ph" "ph = PIdle \<or> ph = PDown" using assms(1,3) st by (auto simp: tcp_defs)
  then have f: "phase_step ph ActFree = Some PFreed" by auto
  obtain rest where rest: "fst (io_of (tc_trace t)) = snd (io_of (tc_trace t)) @ rest" using assms(1) by (auto simp: tcp_defs)
  show ?thesis
    by (rule idle_inv [where ph = PFreed and rest = rest]) (use assms(1,2) st ph f rest in \<open>auto simp: tcp_defs tcp_cleanup_def tcp_queue_clear_def\<close>)
qed

lemma tcp_destroy_keeps:
  assumes "malloc_fresh (sy_malloc sy)" "tcp_inv (t, c)" "\<not> tc_destroyed t"
  shows "tcp_inv (sevent_tcp_conn_destroy sy (t, c))"
proof -
  let ?t = "t\<lparr>tc_destroyed := True\<rparr>"
  obtain ph where ph: "phase_of (tc_trace t) = Some ph" "ph \<noteq> PFreed"
    using assms(2,3) by (cases "tc_state t") (auto simp: tcp_defs)
  have ne: "phase_of (tc_trace t) \<noteq> Some PFreed" using ph by simp
  obtain t1 c1 where c0: "sevent_tcp_conn_close sy (t, c) = (t1, c1)" by (rule prod.exhaust)
  have c1: "sevent_tcp_conn_close sy (?t, c) = (t1\<lparr>tc_destroyed := True\<rparr>, c1)"
    using c0 by (cases t) (auto simp: sevent_tcp_conn_close_def tcp_cancel_timer_def tcp_close_io_def tcp_queue_clear_def act_def Let_def
        split: option.splits if_splits)
  have i: "tcp_inv (t1, c1)" using tcp_close_keeps [of t c sy] assms(2) ne c0 by simp
  have idle: "tc_state t1 = TCP_STATE_IDLE" "phase_of (tc_trace t1) = Some PIdle"
    using close_sel(2,3) [of sy t c] c0 ph by (cases ph; simp)+
  have i1: "tcp_inv (t1\<lparr>tc_destroyed := True\<rparr>, c1)" using i idle by (auto simp: tcp_defs)
  obtain rc c2 where p: "sevent_post (sy_malloc sy) (Some tcp_cleanup_cb) (tc_self t1) c1 = (rc, c2)" by (rule prod.exhaust)
  have w: "wfc c1" using i by (simp add: tcp_defs)
  have "own_io s c2 = own_io s c1" "own_tm s c2 = own_tm s c1" "wfc c2" for s
    using own_post [OF w assms(1), of s] wfc_api(5) [OF w assms(1)] p by (metis snd_conv)+
  then have i2: "tcp_inv (t1\<lparr>tc_destroyed := True\<rparr>, c2)" using i1 by (simp add: tcp_inv_def tcp_regs_def)
  have "tcp_inv (tcp_cleanup (t1\<lparr>tc_destroyed := True\<rparr>), c2)" using i2 idle by (intro tcp_cleanup_keeps) simp_all
  with i2 show ?thesis by (simp add: sevent_tcp_conn_destroy_def c1 p)
qed

lemma tcp_shutdown_keeps:
  assumes "tcp_inv (t, c)"
  shows "tcp_inv (snd (sevent_tcp_conn_shutdown sy flag (t, c)))"
proof (cases "tc_destroyed t \<or> tc_state t \<noteq> TCP_STATE_OPEN")
  case False
  then have st: "tc_state t = TCP_STATE_OPEN" by simp
  note o = inv_open [OF assms st]
  obtain p where p: "tc_io_handle t = Some p" using o(5) by auto
  have "tcp_inv (act ActFin t, c)" "tcp_inv (t\<lparr>tc_shutdown_wr_pending := True\<rparr>, c)"
    by (rule open_inv [where p = p], use o(2-11) o(12) [OF p] st p in \<open>simp_all add: flushable_def\<close>)+
  with False assms show ?thesis by (simp add: sevent_tcp_conn_shutdown_def)
qed (use assms in \<open>auto simp: sevent_tcp_conn_shutdown_def\<close>)

lemma tcp_write_keeps:
  assumes "user_keeps user" "malloc_fresh (sy_malloc sy)" "send_ok sy" "tcp_inv (t, c)" "data = None \<or> len \<le> length (the data)"
  shows "tcp_inv (snd (sevent_tcp_conn_write sy user data len (t, c)))"
proof (cases "data = None \<and> len \<noteq> 0 \<or> tc_destroyed t \<or> tc_state t \<noteq> TCP_STATE_OPEN \<or> len = 0")
  case False
  then have st: "tc_state t = TCP_STATE_OPEN" and len: "len \<noteq> 0" "data \<noteq> None" by auto
  note o = inv_open [OF assms(4) st]
  obtain p where p: "tc_io_handle t = Some p" using o(5) by auto
  define buf where "buf = take len (the data)"
  have buf: "0 < length buf" using assms(5) len by (auto simp: buf_def)
  obtain ok c1 where c1: "env_call (sy_alloc sy len) c = (ok, c1)" by (rule prod.exhaust)
  obtain ok2 c2 where c2: "env_call (sy_alloc sy 32) c1 = (ok2, c2)" by (rule prod.exhaust)
  obtain u1 u2 where u: "c1 = c\<lparr>cx_env := u1\<rparr>" "c2 = c1\<lparr>cx_env := u2\<rparr>" using c1 c2 by (metis env_callE)
  define t1 where "t1 = act (ActAccept buf) (t\<lparr>tc_write_queue := tc_write_queue t @ [\<lparr>wn_data = buf, wn_offset = 0\<rparr>],
      tc_write_count := Suc (tc_write_count t)\<rparr>)"
  have i1: "tcp_inv (t1, c2)"
    by (rule open_inv [where p = p])
      (use o(2-11) o(12) [OF p] st p buf u in \<open>auto simp: flushable_def t1_def\<close>)
  have st1: "tc_state t1 = TCP_STATE_OPEN" using st by (simp add: t1_def)
  obtain rc t2 c3 where f: "tcp_flush_st sy (t1, c2) = (rc, (t2, c3))" by (metis prod.exhaust)
  note k = tcp_flush_st_keeps [OF assms(3) i1 st1 f]
  have "tcp_inv (tcp_teardown sy user SEVENT_ERR_WRITE (t2, c3))"
    using k(1) by (rule tcp_teardown_keeps [OF assms(1)]) (simp add: SEVENT_ERR_WRITE_def)
  moreover have "tcp_inv (snd (tcp_update_io sy user (t2, c3)))" if "0 \<le> rc"
    using k(2) [OF that] k(3) by (intro tcp_update_open_keeps [OF assms(1,2)])
  moreover have "tcp_inv (tcp_maybe_shutdown_wr sy (t2, c3))" if "0 \<le> rc"
    using tcp_maybe_shutdown_keeps(1) [OF k(2) [OF that] k(3)] .
  moreover have "tcp_inv (t, c1)" "tcp_inv (t, c2)" using assms(4) u by simp_all
  ultimately show ?thesis
    using False by (auto simp: sevent_tcp_conn_write_def tcp_enqueue_def c1 c2 buf_def [symmetric] t1_def [symmetric] f)
qed (use assms(4) in \<open>auto simp: sevent_tcp_conn_write_def\<close>)

lemma opening_inv:
  assumes "tc_state t = TCP_STATE_OPENING" "\<not> tc_destroyed t" "0 \<le> tc_fd t" "tc_io_handle t = Some p" "tc_on_open t \<noteq> None"
    "tc_on_data t \<noteq> None" "tc_recv_buf t" "tc_write_queue t = []" "tc_write_count t = 0" "phase_of (tc_trace t) = Some POpening"
    "fst (io_of (tc_trace t)) = snd (io_of (tc_trace t))" "wfc c"
    "own_io (tc_self t) c \<subseteq> {(p, None, Some on_connect_ready_cb)}
       \<or> tc_connect_timer t = None \<and> own_io (tc_self t) c \<subseteq> {(p, Some on_first_ready_cb, Some on_first_ready_cb)}"
    "\<forall>q f. (q, f) \<in> own_tm (tc_self t) c \<longrightarrow> tc_connect_timer t = Some q \<and> f = on_connect_timeout_cb"
  shows "tcp_inv (t, c)"
  using assms by (auto simp: tcp_defs handle_cbs_def)

text \<open>An idle connection that is ready to be opened.\<close>

definition tcp_ready :: "'u tcp_st \<Rightarrow> bool" where
  "tcp_ready s \<longleftrightarrow> tcp_inv s \<and> tc_state (fst s) = TCP_STATE_IDLE \<and> \<not> tc_destroyed (fst s) \<and> tc_on_open (fst s) \<noteq> None
     \<and> tc_on_data (fst s) \<noteq> None \<and> tc_recv_buf (fst s)"

lemma tcp_ready_facts:
  assumes "tcp_ready (t, c)"
  shows "tcp_inv (t, c)" "wfc c" "own_io (tc_self t) c = {}" "own_tm (tc_self t) c = {}" "tc_write_queue t = []" "tc_write_count t = 0"
    "tc_connect_timer t = None" "tc_io_handle t = None" "tc_fd t = SEVENT_INVALID_SOCKET"
    "\<exists>ph. phase_of (tc_trace t) = Some ph \<and> phase_step ph ActStart = Some POpening"
  using assms by (auto simp: tcp_ready_def tcp_defs)

lemma tcp_register_connect_keeps:
  assumes "malloc_fresh (sy_malloc sy)" "tcp_ready (t, c)" "0 \<le> fd"
  shows "tcp_inv (snd (tcp_register_connect_io sy fd (t, c)))"
proof -
  note r = tcp_ready_facts [OF assms(2)]
  have d: "\<not> tc_destroyed t" "tc_on_open t \<noteq> None" "tc_on_data t \<noteq> None" "tc_recv_buf t" "tc_state t = TCP_STATE_IDLE"
    using assms(2) by (auto simp: tcp_ready_def)
  obtain ph where ph: "phase_of (tc_trace t) = Some ph" "phase_step ph ActStart = Some POpening" using r(10) by blast
  let ?h = "\<lparr>h_fd = fd, h_io_read = None, h_io_write = Some on_connect_ready_cb, h_data = tc_self t\<rparr>"
  obtain io c1 where c1: "sevent_io_register (sy_malloc sy) ?h c = (io, c1)" by (rule prod.exhaust)
  have w1: "wfc c1" using wfc_api(3) [OF r(2) assms(1), of ?h] c1 by simp
  note o1 = own_io_register [OF r(2) assms(1) c1, of "tc_self t"]
  show ?thesis
  proof (cases io)
    case None
    have "tcp_inv (t, c1)" using r(1) o1 w1 None by (simp add: tcp_inv_def tcp_regs_def)
    then show ?thesis using None c1 r(8) by (simp add: tcp_register_connect_io_def)
  next
    case (Some p)
    let ?t = "t\<lparr>tc_io_handle := Some p, tc_fd := fd, tc_state := TCP_STATE_OPENING\<rparr>"
    define ms where "ms = (if tc_connect_timeout_ms t = 0 then SEVENT_TCP_CONNECT_TIMEOUT_MS else tc_connect_timeout_ms t)"
    have own1: "own_io (tc_self t) c1 = {(p, None, Some on_connect_ready_cb)}" "own_tm (tc_self t) c1 = {}" using o1 r(3,4) Some by simp_all
    have i1: "tcp_inv (act ActStart ?t, c1)"
      by (rule opening_inv [where p = p]) (use r d ph assms(3) w1 own1 in simp_all)
    obtain q c2 where c2: "sevent_timer_register (sy_malloc sy) (word_of_int ms) (Some on_connect_timeout_cb) (tc_self t) c1 = (q, c2)"
      by (rule prod.exhaust)
    note o2 = own_timer_register [OF w1 assms(1) c2, of "tc_self t"]
    have w2: "wfc c2" using wfc_api(4) [OF w1 assms(1)] c2 by (metis snd_conv)
    have i2: "tcp_inv (act ActStart (?t\<lparr>tc_connect_timer := q\<rparr>), c2)"
      by (rule opening_inv [where p = p]) (use r d ph assms(3) w2 own1 o2 in \<open>auto split: option.splits\<close>)
    obtain c3 where c3: "tcp_close_io sy (?t\<lparr>tc_connect_timer := None\<rparr>, c2) = (?t\<lparr>tc_connect_timer := None, tc_io_handle := None,
        tc_fd := SEVENT_INVALID_SOCKET\<rparr>, c3)" "wfc c3" "own_io (tc_self t) c3 = {}" "own_tm (tc_self t) c3 = own_tm (tc_self t) c2"
      using tcp_close_io_eq [OF w2, of "?t\<lparr>tc_connect_timer := None\<rparr>" sy] o2 own1 assms(3) by auto
    have "tcp_inv (?t\<lparr>tc_connect_timer := None, tc_io_handle := None, tc_fd := SEVENT_INVALID_SOCKET, tc_state := TCP_STATE_IDLE\<rparr>, c3)"
      if "q = None" using that c3 o2 own1 r(1) d(5) by (auto simp: tcp_defs)
    with i1 i2 c1 c2 c3(1) Some show ?thesis
      by (cases "tc_connect_timeout_ms t = 0") (auto simp: tcp_register_connect_io_def Let_def ms_def split: if_splits)
  qed
qed

lemma tcp_setup_recv_eq:
  assumes "tcp_setup_recv sy n (t, c) = (rc, (t', c'))"
  shows "\<exists>cap b u. t' = t\<lparr>tc_recv_cap := cap, tc_recv_buf := b\<rparr> \<and> c' = c\<lparr>cx_env := u\<rparr> \<and> (rc = 0 \<longrightarrow> b)"
proof (cases "tc_recv_buf t \<and> tc_recv_cap t = (if n \<noteq> 0 then n else SEVENT_TCP_RECV_DEFAULT)")
  case True
  then have "t' = t\<lparr>tc_recv_cap := tc_recv_cap t, tc_recv_buf := True\<rparr>" "c' = c\<lparr>cx_env := cx_env c\<rparr>"
    using assms by (cases t; simp add: tcp_setup_recv_def split: if_splits)+
  then show ?thesis by blast
next
  case False
  with assms show ?thesis unfolding tcp_setup_recv_def Let_def env_call_def by (auto split: prod.splits if_splits)
qed

lemma tcp_setup_recv_keeps:
  assumes "tcp_inv (t, c)" "tc_state t = TCP_STATE_IDLE" "tcp_setup_recv sy n (t, c) = (rc, (t', c'))"
  shows "tcp_inv (t', c')" "tc_state t' = TCP_STATE_IDLE" "tc_destroyed t' = tc_destroyed t" "rc = 0 \<Longrightarrow> tc_recv_buf t'"
proof -
  obtain cap b u where e: "t' = t\<lparr>tc_recv_cap := cap, tc_recv_buf := b\<rparr>" "c' = c\<lparr>cx_env := u\<rparr>" "rc = 0 \<longrightarrow> b"
    using tcp_setup_recv_eq [OF assms(3)] by blast
  show "tcp_inv (t', c')" using assms(1,2) by (simp add: e tcp_inv_def tcp_fields_def tcp_stream_def tcp_regs_def) auto
qed (use assms(2) tcp_setup_recv_eq [OF assms(3)] in auto)

lemma tcp_set_init_keeps:
  assumes "tcp_inv (t, c)" "tc_state t = TCP_STATE_IDLE" "\<not> tc_destroyed t" "tc_recv_buf t" "\<not> init_refused (Some i)"
  shows "tcp_ready (tcp_set_init i t, c)"
  using assms by (auto simp: tcp_ready_def tcp_set_init_def init_refused_def tcp_defs)

lemma tcp_open_keeps:
  assumes "malloc_fresh (sy_malloc sy)" "tcp_inv (t, c)" "\<not> tc_destroyed t"
  shows "tcp_inv (snd (sevent_tcp_conn_open sy host port init (t, c)))"
proof (cases "host = None \<or> init_refused init \<or> tc_state t \<noteq> TCP_STATE_IDLE")
  case False
  then obtain i where i: "init = Some i" "\<not> init_refused (Some i)" by (cases init) (auto simp: init_refused_def)
  obtain rc t1 c1 where c1: "tcp_setup_recv sy (in_recv_buf_size i) (t, c) = (rc, (t1, c1))" by (metis prod.exhaust)
  note k = tcp_setup_recv_keeps [OF assms(2) _ c1]
  obtain fd c2 where c2: "env_call (tcp_socket_connect sy (the host) port) c1 = (fd, c2)" by (rule prod.exhaust)
  then obtain u where u: "c2 = c1\<lparr>cx_env := u\<rparr>" by (rule env_callE)
  have "tcp_inv (snd (tcp_register_connect_io sy fd (tcp_set_init i t1, c2)))" if "rc = 0" "\<not> fd < 0"
  proof -
    have "tcp_inv (t1, c2)" using k(1) False u by simp
    then have "tcp_ready (tcp_set_init i t1, c2)" by (rule tcp_set_init_keeps) (use that k i False assms(3) in auto)
    then show ?thesis using that by (intro tcp_register_connect_keeps [OF assms(1)]) auto
  qed
  with k(1) False i u show ?thesis
    by (auto simp: sevent_tcp_conn_open_def c1 c2 split: prod.splits)
qed (use assms in \<open>auto simp: sevent_tcp_conn_open_def\<close>)

lemma tcp_accept_keeps:
  assumes "malloc_fresh (sy_malloc sy)" "tcp_inv (t, c)" "\<not> tc_destroyed t"
  shows "tcp_inv (snd (sevent_tcp_conn_accept sy fd init (t, c)))"
proof (cases "fd < 0 \<or> init_refused init \<or> tc_state t \<noteq> TCP_STATE_IDLE")
  case False
  then obtain i where i: "init = Some i" "\<not> init_refused (Some i)" by (cases init) (auto simp: init_refused_def)
  obtain ok c0 where c0: "env_call (sy_nonblock sy fd) c = (ok, c0)" by (rule prod.exhaust)
  then obtain u where u: "c0 = c\<lparr>cx_env := u\<rparr>" by (rule env_callE)
  have i0: "tcp_inv (t, c0)" using assms(2) u by simp
  obtain rc t1 c1 where c1: "tcp_setup_recv sy (in_recv_buf_size i) (t, c0) = (rc, (t1, c1))" by (metis prod.exhaust)
  note k = tcp_setup_recv_keeps [OF i0 _ c1]
  let ?t = "(tcp_set_init i t1)\<lparr>tc_state := TCP_STATE_OPENING, tc_fd := fd\<rparr>"
  let ?h = "\<lparr>h_fd = fd, h_io_read = Some on_first_ready_cb, h_io_write = Some on_first_ready_cb, h_data = tc_self (tcp_set_init i t1)\<rparr>"
  obtain r c2 where c2: "sevent_io_register (sy_malloc sy) ?h c1 = (r, c2)" by (rule prod.exhaust)
  have "tcp_inv (if r = None then (?t\<lparr>tc_io_handle := r, tc_fd := SEVENT_INVALID_SOCKET, tc_state := TCP_STATE_IDLE\<rparr>, c2)
      else (act ActStart (?t\<lparr>tc_io_handle := r\<rparr>), c2))" if "rc = 0"
  proof -
    have rd: "tcp_ready (tcp_set_init i t1, c1)" by (rule tcp_set_init_keeps) (use that k i False assms(3) in auto)
    note f = tcp_ready_facts [OF rd]
    have w2: "wfc c2" using wfc_api(3) [OF f(2) assms(1), of ?h] c2 by simp
    note o2 = own_io_register [OF f(2) assms(1) c2, of "tc_self (tcp_set_init i t1)"]
    obtain ph where ph: "phase_of (tc_trace (tcp_set_init i t1)) = Some ph" "phase_step ph ActStart = Some POpening" using f(10) by blast
    show ?thesis
    proof (cases r)
      case None
      then show ?thesis using rd f o2 w2 by (auto simp: tcp_ready_def tcp_defs)
    next
      case (Some p)
      have "tcp_inv (act ActStart (?t\<lparr>tc_io_handle := Some p\<rparr>), c2)"
        by (rule opening_inv [where p = p]) (use rd f o2 w2 ph Some False in \<open>auto simp: tcp_ready_def\<close>)
      then show ?thesis using Some by simp
    qed
  qed
  with k(1) i0 False i c0 c1 c2 show ?thesis
    by (auto simp: sevent_tcp_conn_accept_def split: if_splits)
qed (use assms in \<open>auto simp: sevent_tcp_conn_accept_def\<close>)

lemma tcp_set_callbacks_keeps:
  "tcp_inv s \<Longrightarrow> \<not> init_refused (Some i) \<Longrightarrow> tcp_inv (tcp_op_set_callbacks i s)"
  by (cases s) (auto simp: tcp_op_set_callbacks_def init_refused_def tcp_defs)

lemma tcp_no_delay_keeps: "tcp_inv s \<Longrightarrow> tcp_inv (sevent_tcp_conn_set_no_delay sy on s)"
  by (cases s) (auto simp: sevent_tcp_conn_set_no_delay_def)

section \<open>Reachable connections\<close>

text \<open>What the rest of the program does to the loop: it adds no registration for this connection.\<close>

definition others_ok :: "udata \<Rightarrow> 'u sevent_context \<Rightarrow> 'u sevent_context \<Rightarrow> bool" where
  "others_ok self c c' \<longleftrightarrow> own_io self c' \<subseteq> own_io self c \<and> own_tm self c' \<subseteq> own_tm self c \<and> (wfc c \<longrightarrow> wfc c')"

inductive tcp_api :: "'u sys \<Rightarrow> 'u user \<Rightarrow> 'u tcp_st \<Rightarrow> 'u tcp_st \<Rightarrow> bool" for sy user where
  api_open: "\<not> tc_destroyed (fst s) \<Longrightarrow> tcp_api sy user s (snd (sevent_tcp_conn_open sy host port init s))"
| api_accept: "\<not> tc_destroyed (fst s) \<Longrightarrow> tcp_api sy user s (snd (sevent_tcp_conn_accept sy fd init s))"
| api_write: "\<not> tc_destroyed (fst s) \<Longrightarrow> data = None \<or> len \<le> length (the data) \<Longrightarrow>
    tcp_api sy user s (snd (sevent_tcp_conn_write sy user data len s))"
| api_shutdown: "\<not> tc_destroyed (fst s) \<Longrightarrow> tcp_api sy user s (snd (sevent_tcp_conn_shutdown sy flag s))"
| api_close: "\<not> tc_destroyed (fst s) \<Longrightarrow> tcp_api sy user s (sevent_tcp_conn_close sy s)"
| api_destroy: "\<not> tc_destroyed (fst s) \<Longrightarrow> tcp_api sy user s (sevent_tcp_conn_destroy sy s)"
| api_callbacks: "\<not> tc_destroyed (fst s) \<Longrightarrow> \<not> init_refused (Some i) \<Longrightarrow> tcp_api sy user s (tcp_op_set_callbacks i s)"
| api_no_delay: "\<not> tc_destroyed (fst s) \<Longrightarrow> tcp_api sy user s (sevent_tcp_conn_set_no_delay sy on s)"
| api_other: "others_ok (tc_self (fst s)) (snd s) c' \<Longrightarrow> tcp_api sy user s (fst s, c')"

text \<open>
  User callbacks: a callback makes any number of public calls. Those calls may lead to
  further notifications, which nest finitely deep: the callbacks of depth \<open>n + 1\<close> run on top
  of callbacks of depth \<open>n\<close>.
\<close>

inductive tcp_user :: "'u sys \<Rightarrow> 'u user \<Rightarrow> bool" for sy where
  user_none: "tcp_user sy (\<lambda>f d ev s. s)"
| user_nest: "tcp_user sy user \<Longrightarrow> (\<And>f d ev s. (tcp_api sy user)\<^sup>*\<^sup>* s (user' f d ev s)) \<Longrightarrow> tcp_user sy user'"

definition tcp_dispatch :: "'u sys \<Rightarrow> 'u user \<Rightarrow> cb \<Rightarrow> 'u tcp_st \<Rightarrow> 'u tcp_st" where
  "tcp_dispatch sy user f s =
     (if f = on_write_ready_cb then on_write_ready sy user s
      else if f = on_readable_cb then on_readable sy user s
      else if f = on_connect_ready_cb then on_connect_ready sy user s
      else if f = on_connect_timeout_cb then on_connect_timeout sy user s
      else if f = on_first_ready_cb then on_first_ready sy user s else s)"

text \<open>
  The life of a connection: created at a fresh address, used through the public functions,
  called by the loop through its live registrations, and cleaned up once after destruction.
\<close>

inductive tcp_reach :: "'u sys \<Rightarrow> 'u user \<Rightarrow> 'u tcp_st \<Rightarrow> bool" for sy user where
  reach_new: "sevent_tcp_conn_create sy self c = (Some t, c') \<Longrightarrow> wfc c \<Longrightarrow> own_io self c = {} \<Longrightarrow> own_tm self c = {} \<Longrightarrow>
    tcp_reach sy user (t, c')"
| reach_call: "tcp_reach sy user s \<Longrightarrow> tcp_api sy user s s' \<Longrightarrow> tcp_reach sy user s'"
| reach_io: "tcp_reach sy user s \<Longrightarrow> (p, r, w) \<in> own_io (tc_self (fst s)) (snd s) \<Longrightarrow> f \<in> set_option r \<union> set_option w \<Longrightarrow>
    tcp_reach sy user (tcp_dispatch sy user f s)"
| reach_timer: "tcp_reach sy user s \<Longrightarrow> (p, f) \<in> own_tm (tc_self (fst s)) (snd s) \<Longrightarrow>
    tcp_reach sy user (tcp_dispatch sy user f s)"
| reach_cleanup: "tcp_reach sy user s \<Longrightarrow> tc_destroyed (fst s) \<Longrightarrow> ActFree \<notin> set (tc_trace (fst s)) \<Longrightarrow>
    tcp_reach sy user (tcp_cleanup (fst s), snd s)"

lemma tcp_others_keeps: "tcp_inv s \<Longrightarrow> others_ok (tc_self (fst s)) (snd s) c' \<Longrightarrow> tcp_inv (fst s, c')"
  unfolding tcp_inv_def tcp_regs_def others_ok_def fst_conv snd_conv by blast

lemma tcp_close_keeps': "tcp_inv s \<Longrightarrow> \<not> tc_destroyed (fst s) \<Longrightarrow> tcp_inv (sevent_tcp_conn_close sy s)"
proof -
  assume a: "tcp_inv s" "\<not> tc_destroyed (fst s)"
  then have "phase_of (tc_trace (fst s)) \<noteq> Some PFreed" by (cases "tc_state (fst s)") (auto simp: tcp_defs)
  with a tcp_close_keeps [of "fst s" "snd s" sy] show ?thesis by simp
qed

lemma tcp_api_keeps:
  assumes "tcp_api sy user s s'" "tcp_inv s" "user_keeps user" "malloc_fresh (sy_malloc sy)" "send_ok sy"
  shows "tcp_inv s'"
  using assms
proof (induction rule: tcp_api.induct)
  case (api_open s host port init)
  then show ?case using tcp_open_keeps [of sy "fst s" "snd s"] by simp
next
  case (api_accept s fd init)
  then show ?case using tcp_accept_keeps [of sy "fst s" "snd s"] by simp
next
  case (api_write s data len)
  then show ?case using tcp_write_keeps [of user sy "fst s" "snd s"] by simp
next
  case (api_shutdown s flag)
  then show ?case using tcp_shutdown_keeps [of "fst s" "snd s"] by simp
next
  case (api_destroy s)
  then show ?case using tcp_destroy_keeps [of sy "fst s" "snd s"] by simp
qed (simp_all add: tcp_close_keeps' tcp_set_callbacks_keeps tcp_no_delay_keeps tcp_others_keeps)

lemma tcp_user_keeps:
  assumes "tcp_user sy user" "malloc_fresh (sy_malloc sy)" "send_ok sy"
  shows "user_keeps user"
  using assms(1)
proof (induction rule: tcp_user.induct)
  case (user_nest user user')
  have "(tcp_api sy user)\<^sup>*\<^sup>* s s' \<Longrightarrow> tcp_inv s \<Longrightarrow> tcp_inv s'" for s s'
    by (induction rule: rtranclp_induct) (auto intro: tcp_api_keeps user_nest.IH assms(2,3))
  then show ?case using user_nest.hyps(2) unfolding user_keeps_def by blast
qed (simp add: user_keeps_def)

lemmas cb_defs = on_write_ready_cb_def on_readable_cb_def on_connect_ready_cb_def on_connect_timeout_cb_def on_first_ready_cb_def

lemma freed_phase: "phase_of tr = Some PFreed \<Longrightarrow> ActFree \<in> set tr"
proof (induction tr rule: rev_induct)
  case (snoc a tr)
  have "phase_step p a = Some PFreed \<Longrightarrow> a = ActFree" for p by (induction p a rule: phase_step.induct) (auto split: if_splits)
  with snoc.prems show ?case by (auto simp: bind_eq_Some_conv)
qed (simp add: phase_of_def)

lemma tcp_dispatch_keeps:
  assumes "user_keeps user" "malloc_fresh (sy_malloc sy)" "send_ok sy" "tcp_inv (t, c)"
    "f = on_readable_cb \<Longrightarrow> tc_state t = TCP_STATE_OPEN" "f = on_first_ready_cb \<Longrightarrow> tc_connect_timer t = None"
  shows "tcp_inv (tcp_dispatch sy user f (t, c))"
  using assms by (simp add: tcp_dispatch_def on_write_ready_keeps on_readable_keeps on_connect_ready_keeps on_connect_timeout_keeps
      on_first_ready_keeps)

lemma tcp_reach_inv:
  assumes "tcp_reach sy user s" "tcp_user sy user" "malloc_fresh (sy_malloc sy)" "send_ok sy"
  shows "tcp_inv s"
  using assms(1)
proof (induction rule: tcp_reach.induct)
  case (reach_new self c t c')
  then obtain u where u: "c' = c\<lparr>cx_env := u\<rparr>" by (auto simp: sevent_tcp_conn_create_def env_call_def split: prod.splits if_splits)
  have "tc_self t = self" "tc_state t = TCP_STATE_IDLE" "tc_fd t = SEVENT_INVALID_SOCKET" "tc_io_handle t = None"
    "tc_connect_timer t = None" "tc_write_queue t = []" "tc_write_count t = 0" "tc_trace t = []"
    using reach_new(1) by (auto simp: sevent_tcp_conn_create_def split: prod.splits if_splits)
  then show ?case
    by (intro idle_inv [where ph = PIdle and rest = "[]"]) (use reach_new u in \<open>simp_all add: phase_of_def io_of_def\<close>)
next
  case (reach_call s s')
  then show ?case using tcp_api_keeps tcp_user_keeps [OF assms(2,3,4)] assms(3,4) by blast
next
  case (reach_io s p r w f)
  have "tcp_regs (fst s) (snd s)" using reach_io.IH by (simp add: tcp_inv_def)
  then have h: "handle_cbs (tc_state (fst s)) (tc_connect_timer (fst s)) r w" using reach_io.hyps(2) unfolding tcp_regs_def by blast
  have "f = on_readable_cb \<Longrightarrow> tc_state (fst s) = TCP_STATE_OPEN" "f = on_first_ready_cb \<Longrightarrow> tc_connect_timer (fst s) = None"
    using h reach_io.hyps(3) by (auto simp: handle_cbs_def cb_defs split: tcp_state.splits)
  then show ?case
    using tcp_dispatch_keeps [OF tcp_user_keeps [OF assms(2,3,4)] assms(3,4), of "fst s" "snd s" f] reach_io.IH by simp
next
  case (reach_timer s p f)
  have "tcp_regs (fst s) (snd s)" using reach_timer.IH by (simp add: tcp_inv_def)
  then have "f = on_connect_timeout_cb" using reach_timer.hyps(2) unfolding tcp_regs_def by blast
  then show ?case
    using tcp_dispatch_keeps [OF tcp_user_keeps [OF assms(2,3,4)] assms(3,4), of "fst s" "snd s" f] reach_timer.IH
    by (simp add: cb_defs)
next
  case (reach_cleanup s)
  then show ?case using tcp_cleanup_keeps [of "fst s" "snd s"] freed_phase by fastforce
qed

section \<open>Properties of connections\<close>

text \<open>A kernel that takes as many bytes as its budget, and a user that closes on errors.\<close>

definition demo_sys :: "nat sys" where
  "demo_sys = \<lparr>sy_malloc = (\<lambda>c. find (\<lambda>p. cx_heap c p = None) [0..<64]), sy_alloc = (\<lambda>n u. (True, u)),
     sy_socket = (\<lambda>u. (7, u)), sy_nonblock = (\<lambda>fd u. (True, u)), sy_pton = (\<lambda>h. True),
     sy_connect = (\<lambda>fd h p u. (True, u)), sy_close = (\<lambda>fd u. u),
     sy_send = (\<lambda>fd d u. if u = 0 then (SendAgain, u) else let n = min u (length d) in (Sent n, u - n)),
     sy_read = (\<lambda>fd n u. (Got [1, 2], u)), sy_so_error = (\<lambda>fd u. (True, u)),
     sy_shutdown = (\<lambda>fd w u. u), sy_nodelay = (\<lambda>fd b u. u)\<rparr>"

definition demo_user :: "nat user" where
  "demo_user f d ev s = (case ev of EvOpen \<Rightarrow> snd (sevent_tcp_conn_write demo_sys (\<lambda>f d ev s. s) (Some [10, 20, 30, 40]) 4 s)
     | EvData bs \<Rightarrow> if tc_destroyed (fst s) then s else sevent_tcp_conn_close demo_sys s | _ \<Rightarrow> s)"

definition demo_init :: sevent_stream_conn_init where
  "demo_init = \<lparr>in_user_data = 0, in_on_open = Some 1, in_on_data = Some 2, in_on_close = None, in_on_error = None,
     in_connect_timeout_ms = 0, in_recv_buf_size = 0\<rparr>"

definition demo_loop :: "nat sevent_context" where
  "demo_loop = the (sevent_create True True (Some 3) 3)"

definition demo_conn :: "nat tcp_st" where
  "demo_conn = (case sevent_tcp_conn_create demo_sys 99 demo_loop of (t, c) \<Rightarrow> (the t, c))"

definition demo_opening :: "nat tcp_st" where
  "demo_opening = snd (sevent_tcp_conn_open demo_sys (Some ''127.0.0.1'') 80 (Some demo_init) demo_conn)"

definition demo_open :: "nat tcp_st" where
  "demo_open = tcp_dispatch demo_sys demo_user on_connect_ready_cb demo_opening"

lemma demo_sys_ok: "malloc_fresh (sy_malloc demo_sys)" "send_ok demo_sys"
  by (auto simp: demo_sys_def malloc_fresh_def send_ok_def find_Some_iff Let_def split: if_splits)

lemma demo_user_ok: "tcp_user demo_sys demo_user"
proof (rule user_nest [OF user_none])
  fix f :: cb and d :: udata and ev :: stream_event and s :: "nat tcp_st"
  have w: "(tcp_api demo_sys (\<lambda>f d ev s. s))\<^sup>*\<^sup>* s (snd (sevent_tcp_conn_write demo_sys (\<lambda>f d ev s. s) (Some [10, 20, 30, 40]) 4 s))"
  proof (cases "tc_destroyed (fst s)")
    case True
    then show ?thesis by (simp add: sevent_tcp_conn_write_def)
  next
    case False
    then show ?thesis by (intro r_into_rtranclp api_write) simp_all
  qed
  have "(tcp_api demo_sys (\<lambda>f d ev s. s))\<^sup>*\<^sup>* s (if tc_destroyed (fst s) then s else sevent_tcp_conn_close demo_sys s)"
    by (auto intro: r_into_rtranclp api_close)
  with w show "(tcp_api demo_sys (\<lambda>f d ev s. s))\<^sup>*\<^sup>* s (demo_user f d ev s)"
    by (cases ev) (simp_all only: demo_user_def stream_event.case rtranclp.rtrancl_refl)
qed

lemma demo_open_reach: "tcp_reach demo_sys demo_user demo_open"
proof -
  have "sevent_create True True (Some 3) (3::nat) = Some demo_loop" by (simp add: demo_loop_def sevent_create_def)
  then have "wf_ctx [] demo_loop" by (rule create_wf)
  then have "wfc demo_loop" unfolding wfc_def by (rule exI)
  moreover have "own_io 99 demo_loop = {}" "own_tm 99 demo_loop = {}"
    by (simp_all add: own_io_def own_tm_def demo_loop_def sevent_create_def)
  moreover have "sevent_tcp_conn_create demo_sys 99 demo_loop = (Some (fst demo_conn), snd demo_conn)"
    by (simp add: demo_conn_def sevent_tcp_conn_create_def env_call_def demo_sys_def)
  ultimately have "tcp_reach demo_sys demo_user demo_conn" by (metis reach_new prod.collapse)
  then have o: "tcp_reach demo_sys demo_user demo_opening"
    unfolding demo_opening_def by (rule reach_call) (intro api_open, simp add: demo_conn_def sevent_tcp_conn_create_def env_call_def demo_sys_def)
  have "cx_io_list (snd demo_opening) = [0]" "tc_self (fst demo_opening) = 99"
    "map_option (\<lambda>n. (io_data n, io_read_cb n, io_write_cb n)) (get_io 0 (snd demo_opening)) = Some (99, None, Some 3)" by code_simp+
  then have "(0, None, Some on_connect_ready_cb) \<in> own_io (tc_self (fst demo_opening)) (snd demo_opening)"
    by (auto simp: own_io_def on_connect_ready_cb_def)
  from reach_io [OF o this, of on_connect_ready_cb] show ?thesis by (simp add: demo_open_def)
qed



text \<open>
  C7. Writes go out in order and without loss or duplication: in every session the bytes
  handed to the kernel are a prefix of the bytes accepted by \<open>sevent_tcp_conn_write\<close>, and
  while the connection is up the write queue holds exactly the rest.
\<close>

theorem tcp_stream_in_order:
  assumes "malloc_fresh (sy_malloc sy)" "send_ok sy" "tcp_user sy user" "tcp_reach sy user (t, c)"
    "io_of (tc_trace t) = (accepted, sent)"
  shows "\<exists>rest. accepted = sent @ rest \<and> (tc_state t \<noteq> TCP_STATE_IDLE \<longrightarrow> rest = pending (tc_write_queue t))"
  using tcp_reach_inv [OF assms(4,3,1,2)] assms(5) by (simp add: tcp_inv_def tcp_stream_def)

theorem tcp_stream_in_order_witness:
  "io_of (tc_trace (fst demo_open)) = ([10, 20, 30, 40], [10, 20, 30]) \<and> pending (tc_write_queue (fst demo_open)) = [40]"
proof -
  have e: "io_of (tc_trace (fst demo_open)) = ([10, 20, 30, 40], [10, 20, 30])" "tc_state (fst demo_open) = TCP_STATE_OPEN" by code_simp+
  then show ?thesis
    using tcp_stream_in_order [OF demo_sys_ok demo_user_ok _ e(1), of "snd demo_open"] demo_open_reach by auto
qed

text \<open>
  C26. Resources follow the state: an idle connection owns no descriptor, no registration, no
  timer and no queued data; a connection that is not idle owns a descriptor, a registration,
  a buffer and its callbacks, and the loop calls only the handler that fits the state. So
  the loop never calls a closed or destroyed connection.
\<close>

theorem tcp_resources:
  assumes "malloc_fresh (sy_malloc sy)" "send_ok sy" "tcp_user sy user" "tcp_reach sy user (t, c)"
  shows "tcp_fields t \<and> (\<forall>p r w. (p, r, w) \<in> own_io (tc_self t) c \<longrightarrow>
      tc_io_handle t = Some p \<and> handle_cbs (tc_state t) (tc_connect_timer t) r w)
    \<and> (tc_state t = TCP_STATE_IDLE \<or> tc_destroyed t \<longrightarrow> own_io (tc_self t) c = {} \<and> own_tm (tc_self t) c = {})"
proof -
  have i: "tcp_fields t" "tcp_regs t c" using tcp_reach_inv [OF assms(4,3,1,2)] by (simp_all add: tcp_inv_def)
  then have "tc_state t = TCP_STATE_IDLE \<or> tc_destroyed t \<Longrightarrow> tc_io_handle t = None \<and> tc_connect_timer t = None"
    by (auto simp: tcp_fields_def)
  with i show ?thesis unfolding tcp_regs_def by fastforce
qed

theorem tcp_resources_witness:
  "tcp_fields (fst demo_open) \<and> 0 \<le> tc_fd (fst demo_open) \<and> tc_io_handle (fst demo_open) \<noteq> None"
proof -
  have "tc_state (fst demo_open) = TCP_STATE_OPEN" by code_simp
  then show ?thesis
    using tcp_resources [OF demo_sys_ok demo_user_ok, of "fst demo_open" "snd demo_open"] demo_open_reach
    by (auto simp: tcp_fields_def)
qed

text \<open>
  A half close that waits for the queue outlives its session: closing and reopening keep
  the mark, so that the first time the queue of the new session is empty after a write, its
  sending side is shut down although nobody asked for it.
\<close>

theorem tcp_stale_shutdown:
  assumes "tc_shutdown_wr_pending t"
  shows "tc_shutdown_wr_pending (fst (sevent_tcp_conn_close sy (t, c)))
    \<and> tc_shutdown_wr_pending (fst (snd (sevent_tcp_conn_accept sy fd init (t, c))))
    \<and> (tc_write_queue t = [] \<longrightarrow> tcp_maybe_shutdown_wr sy (t, c) =
         (act ActFin (t\<lparr>tc_shutdown_wr_pending := False\<rparr>), env_do (sy_shutdown sy (tc_fd t) True) c))"
proof (intro conjI impI)
  show "tc_shutdown_wr_pending (fst (sevent_tcp_conn_close sy (t, c)))"
    using assms by (auto simp: sevent_tcp_conn_close_def tcp_cancel_timer_def tcp_close_io_def tcp_queue_clear_def Let_def
        split: option.splits prod.splits)
  show "tc_shutdown_wr_pending (fst (snd (sevent_tcp_conn_accept sy fd init (t, c))))"
    using assms by (auto simp: sevent_tcp_conn_accept_def tcp_setup_recv_def tcp_set_init_def Let_def split: prod.splits)
qed (simp add: tcp_maybe_shutdown_wr_def assms)

theorem tcp_stale_shutdown_witness:
  "\<exists>t c. t = fst (snd (sevent_tcp_conn_shutdown demo_sys SEVENT_SHUT_WR demo_open)) \<and> tc_shutdown_wr_pending t
     \<and> tc_shutdown_wr_pending (fst (sevent_tcp_conn_close demo_sys (t, c)))"
proof -
  have "tc_shutdown_wr_pending (fst (snd (sevent_tcp_conn_shutdown demo_sys SEVENT_SHUT_WR demo_open)))" by code_simp
  then show ?thesis using tcp_stale_shutdown by blast
qed

end
