(* ===== verification/Ws_Deflate.thy ===== *)
theory Ws_Deflate
  imports Ws_Handshake
begin

text \<open>
  \<^verbatim>\<open>src/websockets/ws_deflate.c\<close>: the permessage-deflate wrapper around zlib. The library is
  a parameter: \<open>zl\<close> holds its functions on an opaque stream state. A call of
  \<open>deflate\<close> or \<open>inflate\<close> gets the input and the room for output and returns its code,
  how much input it took and the bytes it wrote.
\<close>

datatype zrc = Z_OK | Z_STREAM_END | Z_BUF_ERROR | Z_FAIL
datatype zflush = Z_NO_FLUSH | Z_SYNC_FLUSH

record zres =
  zr_rc :: zrc
  zr_in :: nat
  zr_out :: bytes

record 'z zlib =
  zl_deflate_init :: "int \<Rightarrow> int \<Rightarrow> 'z option"
  zl_inflate_init :: "int \<Rightarrow> 'z option"
  zl_deflate :: "zflush \<Rightarrow> bytes \<Rightarrow> nat \<Rightarrow> 'z \<Rightarrow> zres \<times> 'z"
  zl_inflate :: "zflush \<Rightarrow> bytes \<Rightarrow> nat \<Rightarrow> 'z \<Rightarrow> zres \<times> 'z"
  zl_deflate_reset :: "'z \<Rightarrow> 'z"
  zl_inflate_reset :: "'z \<Rightarrow> 'z"
  zl_deflate_bound :: "'z \<Rightarrow> nat \<Rightarrow> nat"

record 'z ws_deflate =
  df_deflate :: 'z
  df_inflate :: 'z
  df_server_no_context_takeover :: bool
  df_client_no_context_takeover :: bool
  df_server_window_bits :: "8 word"
  df_client_window_bits :: "8 word"

definition WS_DEFLATE_TAIL_LEN :: nat where "WS_DEFLATE_TAIL_LEN = 4"
definition UINT_MAX :: nat where "UINT_MAX = 2 ^ 32 - 1"
definition SEVENT_WS_DEFLATE_LEVEL_NONE :: int where "SEVENT_WS_DEFLATE_LEVEL_NONE = 10"
definition Z_NO_COMPRESSION :: int where "Z_NO_COMPRESSION = 0"
definition Z_DEFAULT_COMPRESSION :: int where "Z_DEFAULT_COMPRESSION = -1"

definition deflate_level_to_zlib :: "int \<Rightarrow> int" where
  "deflate_level_to_zlib lvl =
     (if lvl = SEVENT_WS_DEFLATE_LEVEL_NONE then Z_NO_COMPRESSION
      else if lvl \<in> {1, 2, 3, 4, 5, 6, 7, 8, 9} then lvl
      else Z_DEFAULT_COMPRESSION)"

definition ws_deflate_create :: "'z zlib \<Rightarrow> bool \<Rightarrow> ws_deflate_params option \<Rightarrow> 'z ws_deflate option" where
  "ws_deflate_create zl alloc_ok params =
     (if \<not> alloc_ok then None
      else
        let cbw = (case params of Some p \<Rightarrow> if dp_client_max_window_bits p \<noteq> 0 then dp_client_max_window_bits p else 15 | None \<Rightarrow> 15);
            sbw = (case params of Some p \<Rightarrow> if dp_server_max_window_bits p \<noteq> 0 then dp_server_max_window_bits p else 15 | None \<Rightarrow> 15);
            level = (case params of Some p \<Rightarrow> deflate_level_to_zlib (dp_compression_level p) | None \<Rightarrow> Z_DEFAULT_COMPRESSION)
        in case zl_deflate_init zl level (- uint cbw) of
             None \<Rightarrow> None
           | Some d \<Rightarrow>
               case zl_inflate_init zl (- uint sbw) of
                 None \<Rightarrow> None
               | Some i \<Rightarrow>
                   Some \<lparr>df_deflate = d, df_inflate = i,
                         df_server_no_context_takeover = (case params of Some p \<Rightarrow> dp_server_no_context_takeover p | None \<Rightarrow> False),
                         df_client_no_context_takeover = (case params of Some p \<Rightarrow> dp_client_no_context_takeover p | None \<Rightarrow> False),
                         df_server_window_bits = sbw, df_client_window_bits = cbw\<rparr>)"

definition ws_deflate_compress_maxlen :: "'z zlib \<Rightarrow> 'z ws_deflate \<Rightarrow> nat \<Rightarrow> nat" where
  "ws_deflate_compress_maxlen zl df in_len =
     (if UINT_MAX < in_len then 0 else zl_deflate_bound zl (df_deflate df) in_len + WS_DEFLATE_TAIL_LEN)"

text \<open>\<open>None\<close> is the return value \<open>false\<close>; a message that may be NULL is an option.\<close>

definition ws_deflate_compress :: "'z zlib \<Rightarrow> bytes option \<Rightarrow> nat \<Rightarrow> 'z ws_deflate \<Rightarrow> bytes option \<times> 'z ws_deflate" where
  "ws_deflate_compress zl msg cap df =
     (case msg of
        None \<Rightarrow> (None, df)
      | Some input \<Rightarrow>
          if UINT_MAX < length input \<or> UINT_MAX < cap then (None, df)
          else
            let (r, z) = zl_deflate zl Z_SYNC_FLUSH input cap (df_deflate df)
            in if zr_rc r \<noteq> Z_OK then (None, df\<lparr>df_deflate := zl_deflate_reset zl z\<rparr>)
               else if length (zr_out r) < WS_DEFLATE_TAIL_LEN then (None, df\<lparr>df_deflate := zl_deflate_reset zl z\<rparr>)
               else (Some (take (length (zr_out r) - WS_DEFLATE_TAIL_LEN) (zr_out r)),
                     df\<lparr>df_deflate := (if df_client_no_context_takeover df then zl_deflate_reset zl z else z)\<rparr>))"

definition ws_deflate_compress_reset :: "'z zlib \<Rightarrow> 'z ws_deflate \<Rightarrow> 'z ws_deflate" where
  "ws_deflate_compress_reset zl df = df\<lparr>df_deflate := zl_deflate_reset zl (df_deflate df)\<rparr>"

definition ws_deflate_compress_stream :: "'z zlib \<Rightarrow> bytes option \<Rightarrow> nat \<Rightarrow> 'z ws_deflate \<Rightarrow> bytes option \<times> 'z ws_deflate" where
  "ws_deflate_compress_stream zl msg cap df =
     (case msg of
        None \<Rightarrow> (None, df)
      | Some input \<Rightarrow>
          if UINT_MAX < length input \<or> UINT_MAX < cap then (None, df)
          else
            let (r, z) = zl_deflate zl Z_NO_FLUSH input cap (df_deflate df)
            in if zr_rc r \<noteq> Z_OK then (None, df\<lparr>df_deflate := zl_deflate_reset zl z\<rparr>)
               else (Some (zr_out r), df\<lparr>df_deflate := z\<rparr>))"

definition ws_deflate_compress_end :: "'z zlib \<Rightarrow> nat \<Rightarrow> 'z ws_deflate \<Rightarrow> bytes option \<times> 'z ws_deflate" where
  "ws_deflate_compress_end zl cap df =
     (if UINT_MAX < cap then (None, df)
      else
        let (r, z) = zl_deflate zl Z_SYNC_FLUSH [] cap (df_deflate df)
        in if zr_rc r \<noteq> Z_OK then (None, df\<lparr>df_deflate := zl_deflate_reset zl z\<rparr>)
           else if length (zr_out r) < WS_DEFLATE_TAIL_LEN then (None, df\<lparr>df_deflate := zl_deflate_reset zl z\<rparr>)
           else (Some (take (length (zr_out r) - WS_DEFLATE_TAIL_LEN) (zr_out r)),
                 df\<lparr>df_deflate := (if df_client_no_context_takeover df then zl_deflate_reset zl z else z)\<rparr>))"

section \<open>What zlib promises\<close>

text \<open>
  The documented behaviour of the library. \<open>plain z input\<close> is what a decompressor in state
  \<open>z\<close> still has to say once it is given \<open>input\<close>: a call writes as much of it as there is
  room for, and takes all input when room is left. \<open>agree d z input\<close> says that the
  decompressor is in step with the compressor \<open>d\<close> after that. A synchronising flush with the
  room that \<open>deflateBound\<close> asks for ends with the empty stored block, and the decompressor,
  given this output, says the message. A compressor may be reset at any time, a
  decompressor only together with it.
\<close>

definition ws_tail :: bytes where "ws_tail = [0x00, 0x00, 0xFF, 0xFF]"

definition deflate_ok :: "'z zlib \<Rightarrow> ('z \<Rightarrow> bytes \<Rightarrow> bytes) \<Rightarrow> ('z \<Rightarrow> 'z \<Rightarrow> bytes \<Rightarrow> bool) \<Rightarrow> bool" where
  "deflate_ok zl plain agree \<longleftrightarrow>
     (\<forall>d i m cap r d'. agree d i [] \<longrightarrow> plain i [] = [] \<longrightarrow> zl_deflate_bound zl d (length m) \<le> cap \<longrightarrow>
        zl_deflate zl Z_SYNC_FLUSH m cap d = (r, d') \<longrightarrow>
        zr_rc r = Z_OK \<and> (\<exists>body. zr_out r = body @ ws_tail \<and> plain i (body @ ws_tail) = m \<and> agree d' i (body @ ws_tail)))
     \<and> (\<forall>d i input. agree d i input \<longrightarrow> agree (zl_deflate_reset zl d) i input)"

definition inflate_ok :: "'z zlib \<Rightarrow> ('z \<Rightarrow> bytes \<Rightarrow> bytes) \<Rightarrow> ('z \<Rightarrow> 'z \<Rightarrow> bytes \<Rightarrow> bool) \<Rightarrow> bool" where
  "inflate_ok zl plain agree \<longleftrightarrow>
     (\<forall>fl input cap z r z'. 0 < cap \<longrightarrow> zl_inflate zl fl input cap z = (r, z') \<longrightarrow>
        zr_out r = take cap (plain z input) \<and> plain z' (drop (zr_in r) input) = drop cap (plain z input)
        \<and> zr_rc r \<in> {Z_OK, Z_BUF_ERROR} \<and> (zr_rc r = Z_BUF_ERROR \<longrightarrow> drop (zr_in r) input = [])
        \<and> (length (plain z input) < cap \<longrightarrow> drop (zr_in r) input = [])
        \<and> (\<forall>d. agree d z input \<longrightarrow> agree d z' (drop (zr_in r) input)))
     \<and> (\<forall>d i. agree d i [] \<longrightarrow> plain i [] = [] \<longrightarrow>
          agree (zl_deflate_reset zl d) (zl_inflate_reset zl i) [] \<and> plain (zl_inflate_reset zl i) [] = [])"

section \<open>Lemmas\<close>

lemma length_ws_tail [simp]: "length ws_tail = 4" by (simp add: ws_tail_def)

text \<open>A compressed message, with the tail put back, decompresses to the message.\<close>

lemma compress_ok:
  assumes "deflate_ok zl plain agree" "agree (df_deflate df) i []" "plain i [] = []"
    "ws_deflate_compress_maxlen zl df (length m) \<le> cap" "length m \<le> UINT_MAX" "cap \<le> UINT_MAX"
    "ws_deflate_compress zl (Some m) cap df = (out, df')"
  shows "\<exists>body. out = Some body \<and> plain i (body @ ws_tail) = m \<and> agree (df_deflate df') i (body @ ws_tail)
    \<and> df_inflate df' = df_inflate df"
proof -
  obtain r d' where r: "zl_deflate zl Z_SYNC_FLUSH m cap (df_deflate df) = (r, d')" by (rule prod.exhaust)
  have "zl_deflate_bound zl (df_deflate df) (length m) \<le> cap" using assms(4,5) by (simp add: ws_deflate_compress_maxlen_def)
  then obtain body where b: "zr_rc r = Z_OK" "zr_out r = body @ ws_tail" "plain i (body @ ws_tail) = m" "agree d' i (body @ ws_tail)"
    using assms(1,2,3) r unfolding deflate_ok_def by metis
  have "agree (zl_deflate_reset zl d') i (body @ ws_tail)" using assms(1) b(4) unfolding deflate_ok_def by blast
  with assms(5-7) r b show ?thesis by (auto simp: ws_deflate_compress_def WS_DEFLATE_TAIL_LEN_def split: if_splits)
qed

end
