(* ===== verification/Stream_Types.thy ===== *)
theory Stream_Types
  imports Sevent_Prelude
begin

text \<open>
  The data that the users of a stream exchange with it (\<^verbatim>\<open>include/sevent_stream_conn.h\<close>): the
  configuration, the parameters of open and accept that are not callbacks, and the two events that
  a write may report before it returns.
\<close>

record stream_conn_config =
  sc_enable_tls :: bool
  sc_ca_path :: "string option"
  sc_ca_pem :: "string option"
  sc_cert_path :: "string option"
  sc_cert_pem :: "string option"
  sc_key_path :: "string option"
  sc_key_pem :: "string option"
  sc_enable_peer_verify :: bool
  sc_enable_hostname_verify :: bool
  sc_tls_hostname :: "string option"

datatype write_event = StClose | StError int

record stream_init =
  si_connect_timeout_ms :: int
  si_recv_buf_size :: nat

end
