(* ===== verification/Ws_Conn.thy ===== *)
theory Ws_Conn
  imports Ws_Frame Ws_Utf8 Ws_Deflate Stream_Types
begin

unbundle bit_operations_syntax

text \<open>
  \<^verbatim>\<open>src/websockets/ws_conn.c\<close>, the frame layer: closing, sending, decompression and the
  receiving state machine. The struct is two records. \<open>ws_conn\<close> holds what the public
  functions, and so the user's callbacks, can change; \<open>ws_rx\<close> holds the receive buffer
  and the message state, which only the receiving code touches. A callback is an arbitrary
  function on the connection and the world: it may send, close or destroy.

  The stream below, the allocator, the timers and zlib are the fields of \<open>ws_env\<close>. A call
  of \<open>sevent_stream_write\<close> may notify the connection of an error or the end of the stream
  before it returns. A function on the receiving side returns \<open>None\<close> when the C function
  does not return: its loop does not end, or it calls a NULL callback.
\<close>

section \<open>Constants\<close>

definition SEVENT_WS_ERR_HANDSHAKE :: int where "SEVENT_WS_ERR_HANDSHAKE = 0x3001"
definition SEVENT_WS_ERR_PROTOCOL :: int where "SEVENT_WS_ERR_PROTOCOL = 0x3002"
definition SEVENT_WS_ERR_CONNECT :: int where "SEVENT_WS_ERR_CONNECT = 0x3004"
definition SEVENT_WS_ERR_WRITE :: int where "SEVENT_WS_ERR_WRITE = 0x3005"

lemmas ws_err_defs = SEVENT_WS_ERR_HANDSHAKE_def SEVENT_WS_ERR_PROTOCOL_def
  SEVENT_WS_ERR_CONNECT_def SEVENT_WS_ERR_WRITE_def

definition SEVENT_WS_CLOSE_NORMAL :: "16 word" where "SEVENT_WS_CLOSE_NORMAL = 1000"
definition SEVENT_WS_CLOSE_PROTOCOL_ERR :: "16 word" where "SEVENT_WS_CLOSE_PROTOCOL_ERR = 1002"
definition SEVENT_WS_CLOSE_INVALID_PAYLOAD :: "16 word" where "SEVENT_WS_CLOSE_INVALID_PAYLOAD = 1007"
definition SEVENT_WS_CLOSE_ABNORMAL :: "16 word" where "SEVENT_WS_CLOSE_ABNORMAL = 1006"

lemmas close_defs = SEVENT_WS_CLOSE_NORMAL_def SEVENT_WS_CLOSE_PROTOCOL_ERR_def
  SEVENT_WS_CLOSE_INVALID_PAYLOAD_def SEVENT_WS_CLOSE_ABNORMAL_def

definition SEVENT_WS_REASON_EOF :: string where "SEVENT_WS_REASON_EOF = ''connection closed''"
definition SEVENT_WS_REASON_READ_ERR :: string where "SEVENT_WS_REASON_READ_ERR = ''read error''"
definition SEVENT_WS_DECOMP_BATCH :: nat where "SEVENT_WS_DECOMP_BATCH = 4096"

section \<open>Data\<close>

datatype ws_state = WS_STATE_CONNECTING | WS_STATE_HANDSHAKE | WS_STATE_OPEN | WS_STATE_CLOSING | WS_STATE_CLOSED

datatype ws_msg_mode = WS_MSG_NONE | WS_MSG_FRAG | WS_MSG_STREAM

record 'z ws_conn =
  wc_stream :: bool
  wc_stream_cfg :: stream_conn_config
  wc_state :: ws_state
  wc_destroyed :: bool
  wc_is_client :: bool
  wc_host :: string
  wc_port :: "16 word"
  wc_path :: string
  wc_redirect_count :: int
  wc_sub_protocol :: string
  wc_ping_interval_ms :: int
  wc_connect_timeout_ms :: int
  wc_ping_timer :: "nat option"
  wc_enable_deflate :: bool
  wc_deflate_level :: int
  wc_request_client_nct :: bool
  wc_request_server_nct :: bool
  wc_request_client_max_wb :: byte
  wc_request_server_max_wb :: byte
  wc_deflate :: "'z ws_deflate option"
  wc_on_open :: bool
  wc_on_message :: bool
  wc_on_close :: bool
  wc_on_error :: bool
  wc_on_pong :: bool
  wc_on_http_response :: bool
  wc_sec_ws_key :: string
  wc_mask_seed :: "32 word"

text \<open>\<open>rx_buf\<close> is \<open>recv_buf[0 .. recv_len)\<close>, \<open>rx_frag\<close> is \<open>frag_buf[0 .. frag_len)\<close>.\<close>

record ws_rx =
  rx_buf :: bytes
  rx_pos :: nat
  rx_cap :: nat
  rx_mode :: ws_msg_mode
  rx_opcode :: byte
  rx_compressed :: bool
  rx_total :: wlen
  rx_fin_sent :: bool
  rx_stream_remaining :: wlen
  rx_stream_fin :: bool
  rx_stream_mask :: bool
  rx_stream_mask_key :: bytes
  rx_stream_mask_off :: wlen
  rx_frag :: bytes

datatype ws_event =
    WsOpen
  | WsMessage bytes bool bool wlen
  | WsClose "16 word" bytes
  | WsError int
  | WsPong bytes
  | WsHttp int string string

record ('z, 'w) ws_env =
  we_zlib :: "'z zlib"
  we_user :: "ws_event \<Rightarrow> 'z ws_conn \<times> 'w \<Rightarrow> 'z ws_conn \<times> 'w"
  we_alloc :: "nat \<Rightarrow> 'w \<Rightarrow> bytes option \<times> 'w"
  we_write :: "bytes \<Rightarrow> 'w \<Rightarrow> int \<times> write_event option \<times> 'w"
  we_close :: "'w \<Rightarrow> 'w"
  we_shutdown_wr :: "'w \<Rightarrow> 'w"
  we_open :: "string \<Rightarrow> 16 word \<Rightarrow> stream_init \<Rightarrow> 'w \<Rightarrow> int \<times> 'w"
  we_accept :: "int \<Rightarrow> stream_init \<Rightarrow> 'w \<Rightarrow> int \<times> 'w"
  we_create :: "stream_conn_config \<Rightarrow> 'w \<Rightarrow> bool \<times> 'w"
  we_stream_destroy :: "'w \<Rightarrow> 'w"
  we_set_callbacks :: "stream_init \<Rightarrow> 'w \<Rightarrow> 'w"
  we_timer_register :: "32 word \<Rightarrow> 'w \<Rightarrow> nat option \<times> 'w"
  we_timer_unregister :: "nat \<Rightarrow> 'w \<Rightarrow> 'w"
  we_post :: "'w \<Rightarrow> bool \<times> 'w"
  we_new :: "'w \<Rightarrow> 32 word option \<times> 'w"
  we_random :: "'w \<Rightarrow> (bytes option \<times> 32 word) \<times> 'w"

type_synonym ('z, 'w) wcs = "'z ws_conn \<times> 'w"
type_synonym ('z, 'w) wst = "ws_rx \<times> 'z ws_conn \<times> 'w"

section \<open>Close codes and mask keys\<close>

definition gen_mask_key :: "32 word \<Rightarrow> bytes \<times> 32 word" where
  "gen_mask_key seed =
     (let r = xorshift32 seed
      in ([ucast (drop_bit 24 r), ucast (drop_bit 16 r), ucast (drop_bit 8 r), ucast r], r))"

definition ws_close_code_valid :: "16 word \<Rightarrow> bool" where
  "ws_close_code_valid code =
     (if code < SEVENT_WS_CLOSE_NORMAL then False
      else if code = 1004 \<or> code = 1005 \<or> code = 1006 then False
      else if code = 1015 then False
      else if 1016 \<le> code \<and> code \<le> 2999 then False
      else if 4999 < code then False
      else True)"

text \<open>\<open>(uint16_t)(p[0] << 8 | p[1])\<close>, and the two bytes of a code.\<close>

definition be16 :: "byte \<Rightarrow> byte \<Rightarrow> 16 word" where
  "be16 a b = push_bit 8 (ucast a) OR ucast b"

definition code_bytes :: "16 word \<Rightarrow> bytes" where
  "code_bytes code = [ucast (drop_bit 8 code), ucast (code AND 0xFF)]"

section \<open>Closing\<close>

definition ws_close_socket :: "('z, 'w) ws_env \<Rightarrow> ('z, 'w) wcs \<Rightarrow> ('z, 'w) wcs" where
  "ws_close_socket env = (\<lambda>(c, w). if wc_stream c then (c, we_close env w) else (c, w))"

text \<open>\<open>if(c->ping_timer) { sevent_timer_unregister(c->ev, c->ping_timer); c->ping_timer = NULL; }\<close>\<close>

definition ws_stop_ping :: "('z, 'w) ws_env \<Rightarrow> ('z, 'w) wcs \<Rightarrow> ('z, 'w) wcs" where
  "ws_stop_ping env = (\<lambda>(c, w). case wc_ping_timer c of
     None \<Rightarrow> (c, w) | Some t \<Rightarrow> (c\<lparr>wc_ping_timer := None\<rparr>, we_timer_unregister env t w))"

definition ws_enter_closed :: "('z, 'w) ws_env \<Rightarrow> 16 word \<Rightarrow> bytes \<Rightarrow> ('z, 'w) wcs \<Rightarrow> ('z, 'w) wcs" where
  "ws_enter_closed env code reason = (\<lambda>(c, w).
     if wc_state c = WS_STATE_CLOSED \<or> wc_destroyed c then (c, w)
     else
       let cs = ws_close_socket env (ws_stop_ping env (c\<lparr>wc_state := WS_STATE_CLOSED\<rparr>, w))
       in if wc_on_close (fst cs) then we_user env (WsClose code reason) cs else cs)"

text \<open>
  The end of \<open>ws_fatal\<close>, and \<open>ws_fatal\<close> for an error other than a protocol error, which
  sends nothing. The stream callbacks below only need the latter.
\<close>

definition ws_fatal_end :: "('z, 'w) ws_env \<Rightarrow> int \<Rightarrow> ('z, 'w) wcs \<Rightarrow> ('z, 'w) wcs" where
  "ws_fatal_end env err = (\<lambda>(c, w).
     let cs = ws_close_socket env (ws_stop_ping env (c\<lparr>wc_state := WS_STATE_CLOSED\<rparr>, w))
     in if wc_on_error (fst cs) then we_user env (WsError err) cs else cs)"

definition ws_fatal_quiet :: "('z, 'w) ws_env \<Rightarrow> int \<Rightarrow> ('z, 'w) wcs \<Rightarrow> ('z, 'w) wcs" where
  "ws_fatal_quiet env err = (\<lambda>(c, w).
     if wc_destroyed c \<or> wc_state c = WS_STATE_CLOSED then (c, w) else ws_fatal_end env err (c, w))"

definition ws_stream_on_close :: "('z, 'w) ws_env \<Rightarrow> ('z, 'w) wcs \<Rightarrow> ('z, 'w) wcs" where
  "ws_stream_on_close env = (\<lambda>(c, w).
     if wc_destroyed c \<or> wc_state c = WS_STATE_CLOSED then (c, w)
     else if wc_state c = WS_STATE_HANDSHAKE then ws_fatal_quiet env SEVENT_WS_ERR_HANDSHAKE (c, w)
     else ws_enter_closed env SEVENT_WS_CLOSE_ABNORMAL (bytes_of SEVENT_WS_REASON_EOF) (c, w))"

definition ws_stream_on_error :: "('z, 'w) ws_env \<Rightarrow> int \<Rightarrow> ('z, 'w) wcs \<Rightarrow> ('z, 'w) wcs" where
  "ws_stream_on_error env err = (\<lambda>(c, w).
     if wc_destroyed c \<or> wc_state c = WS_STATE_CLOSED then (c, w)
     else if err = SEVENT_ERR_HANDSHAKE then ws_fatal_quiet env SEVENT_WS_ERR_HANDSHAKE (c, w)
     else if err = SEVENT_ERR_CONNECT then ws_fatal_quiet env SEVENT_WS_ERR_CONNECT (c, w)
     else ws_enter_closed env SEVENT_WS_CLOSE_ABNORMAL (bytes_of SEVENT_WS_REASON_READ_ERR) (c, w))"

text \<open>\<open>sevent_stream_write\<close> on the connection's stream, with the callback it may run.\<close>

definition stream_write :: "('z, 'w) ws_env \<Rightarrow> bytes \<Rightarrow> ('z, 'w) wcs \<Rightarrow> int \<times> ('z, 'w) wcs" where
  "stream_write env bs = (\<lambda>(c, w).
     case we_write env bs w of (rc, ev, w) \<Rightarrow>
       (rc, case ev of None \<Rightarrow> (c, w)
                     | Some StClose \<Rightarrow> ws_stream_on_close env (c, w)
                     | Some (StError e) \<Rightarrow> ws_stream_on_error env e (c, w)))"

section \<open>Sending\<close>

text \<open>
  A payload is a pointer, \<open>None\<close> when it is NULL, and a length. A fresh block holds
  whatever the allocator left in it.
\<close>

definition is_ctrl :: "byte \<Rightarrow> bool" where
  "is_ctrl opcode \<longleftrightarrow> opcode = WS_OPCODE_PING \<or> opcode = WS_OPCODE_PONG \<or> opcode = WS_OPCODE_CLOSE"

definition bad_close_payload :: "byte \<Rightarrow> bytes option \<Rightarrow> nat \<Rightarrow> bool" where
  "bad_close_payload opcode payload len \<longleftrightarrow>
     opcode = WS_OPCODE_CLOSE \<and> 2 \<le> len \<and>
     (case payload of Some p \<Rightarrow> \<not> ws_close_code_valid (be16 (p ! 0) (p ! 1)) | None \<Rightarrow> True)"

definition send_frame_raw ::
  "('z, 'w) ws_env \<Rightarrow> byte \<Rightarrow> bytes option \<Rightarrow> nat \<Rightarrow> bool \<Rightarrow> ('z, 'w) wcs \<Rightarrow> int \<times> ('z, 'w) wcs" where
  "send_frame_raw env opcode payload len rsv1 = (\<lambda>(c, w).
     if wc_state c = WS_STATE_CLOSING \<and> \<not> is_ctrl opcode then (SEVENT_ERR_INVAL, (c, w))
     else if wc_state c \<noteq> WS_STATE_OPEN \<and> wc_state c \<noteq> WS_STATE_CLOSING then (SEVENT_ERR_INVAL, (c, w))
     else
       let (mask_key, c) = (if wc_is_client c
                            then let (k, seed) = gen_mask_key (wc_mask_seed c) in (k, c\<lparr>wc_mask_seed := seed\<rparr>)
                            else ([0, 0, 0, 0], c))
       in case ws_frame_build_header 1 (if rsv1 then 1 else 0) opcode
                 (if wc_is_client c then Some mask_key else None) (of_nat len) of
            None \<Rightarrow> (SEVENT_ERR_INVAL, (c, w))
          | Some hdr \<Rightarrow>
              (case we_alloc env (length hdr + len) w of
                (None, w) \<Rightarrow> (SEVENT_ERR_NOMEM, (c, w))
              | (Some block, w) \<Rightarrow>
                  let buf = hdr @ (case payload of
                                     Some p \<Rightarrow> if 0 < len
                                               then if wc_is_client c then ws_frame_apply_mask (take len p) mask_key else take len p
                                               else []
                                   | None \<Rightarrow> take len (drop (length hdr) block))
                  in if is_ctrl opcode \<and> 125 < len then (SEVENT_ERR_INVAL, (c, w))
                     else if bad_close_payload opcode payload len then (SEVENT_ERR_INVAL, (c, w))
                     else
                       let (rc, cs) = stream_write env buf (c, w)
                       in if rc \<noteq> 0 then (if rc = SEVENT_ERR_NOMEM then SEVENT_ERR_NOMEM else SEVENT_WS_ERR_WRITE, cs)
                          else (SEVENT_SUCCESS, cs)))"

definition send_frame :: "('z, 'w) ws_env \<Rightarrow> byte \<Rightarrow> bytes option \<Rightarrow> nat \<Rightarrow> ('z, 'w) wcs \<Rightarrow> int \<times> ('z, 'w) wcs" where
  "send_frame env opcode payload len cs = send_frame_raw env opcode payload len False cs"

definition send_message :: "('z, 'w) ws_env \<Rightarrow> byte \<Rightarrow> bytes option \<Rightarrow> nat \<Rightarrow> ('z, 'w) wcs \<Rightarrow> int \<times> ('z, 'w) wcs" where
  "send_message env opcode payload len = (\<lambda>(c, w).
     case wc_deflate c of
       None \<Rightarrow> send_frame env opcode payload len (c, w)
     | Some df \<Rightarrow>
         if wc_deflate_level c \<noteq> SEVENT_WS_DEFLATE_LEVEL_NONE \<and> (opcode = WS_OPCODE_TEXT \<or> opcode = WS_OPCODE_BINARY) then
           (let cap = ws_deflate_compress_maxlen (we_zlib env) df len
           in case we_alloc env cap w of
                (None, w) \<Rightarrow> (SEVENT_ERR_NOMEM, (c, w))
              | (Some _, w) \<Rightarrow>
                  (case ws_deflate_compress (we_zlib env) payload cap df of
                    (None, df) \<Rightarrow> (SEVENT_WS_ERR_PROTOCOL, (c\<lparr>wc_deflate := Some df\<rparr>, w))
                  | (Some body, df) \<Rightarrow>
                      send_frame_raw env opcode (Some body) (length body) True (c\<lparr>wc_deflate := Some df\<rparr>, w)))
         else send_frame env opcode payload len (c, w))"

definition ws_send_close_code :: "('z, 'w) ws_env \<Rightarrow> 16 word \<Rightarrow> ('z, 'w) wcs \<Rightarrow> ('z, 'w) wcs" where
  "ws_send_close_code env code cs =
     ws_enter_closed env code [] (snd (send_frame env WS_OPCODE_CLOSE (Some (code_bytes code)) 2 cs))"

definition ws_fatal :: "('z, 'w) ws_env \<Rightarrow> int \<Rightarrow> ('z, 'w) wcs \<Rightarrow> ('z, 'w) wcs" where
  "ws_fatal env err = (\<lambda>(c, w).
     if wc_destroyed c \<or> wc_state c = WS_STATE_CLOSED then (c, w)
     else
       let cs = (if err = SEVENT_WS_ERR_PROTOCOL \<and> wc_state c = WS_STATE_OPEN
                 then snd (send_frame env WS_OPCODE_CLOSE
                             (Some [0x03, ucast (SEVENT_WS_CLOSE_PROTOCOL_ERR AND 0xFF)]) 2
                             (c\<lparr>wc_state := WS_STATE_CLOSING\<rparr>, w))
                 else (c, w))
       in ws_fatal_end env err cs)"

section \<open>Decompression\<close>

text \<open>
  The loop that the three decompression functions share: \<open>Z_NO_FLUSH\<close> is the one of
  \<open>decompress_stream_chunk\<close>, \<open>Z_SYNC_FLUSH\<close> that of the other two, with the further
  differences the comment in the source lists. \<open>DecOut\<close> is a jump to \<open>out\<close> with its
  return value, \<open>DecBreak\<close> the regular end.
\<close>

datatype dec_exit = DecOut int | DecBreak

definition set_inflate :: "'z ws_deflate \<Rightarrow> 'z \<Rightarrow> 'z ws_conn \<Rightarrow> 'z ws_conn" where
  "set_inflate df z c = c\<lparr>wc_deflate := Some (df\<lparr>df_inflate := z\<rparr>)\<rparr>"

definition inflate_step ::
  "('z, 'w) ws_env \<Rightarrow> zflush \<Rightarrow> bool \<Rightarrow> bytes \<Rightarrow> 'z ws_deflate \<Rightarrow> ('z, 'w) wcs \<Rightarrow> (dec_exit + bytes) \<times> ('z, 'w) wcs" where
  "inflate_step env fl is_bin input df = (\<lambda>(c, w).
     let (r, z) = zl_inflate (we_zlib env) fl input SEVENT_WS_DECOMP_BATCH (df_inflate df);
         rest = drop (zr_in r) input
     in if zr_rc r = Z_BUF_ERROR \<and> rest \<noteq> []
           \<or> zr_rc r \<noteq> Z_OK \<and> zr_rc r \<noteq> Z_BUF_ERROR \<and> \<not> (fl = Z_SYNC_FLUSH \<and> zr_rc r = Z_STREAM_END)
        then (Inl (DecOut SEVENT_WS_ERR_PROTOCOL), (set_inflate df (zl_inflate_reset (we_zlib env) z) c, w))
        else
          let cs = (if zr_out r \<noteq> [] then we_user env (WsMessage (zr_out r) is_bin False 0) (set_inflate df z c, w)
                    else (set_inflate df z c, w))
          in if zr_out r \<noteq> [] \<and> wc_destroyed (fst cs) then (Inl (DecOut 0), cs)
             else if length (zr_out r) < SEVENT_WS_DECOMP_BATCH \<and> (fl = Z_SYNC_FLUSH \<or> rest = []) then (Inl DecBreak, cs)
             else (Inr rest, cs))"

partial_function (option) inflate_loop ::
  "('z, 'w) ws_env \<Rightarrow> zflush \<Rightarrow> bool \<Rightarrow> bytes \<Rightarrow> ('z, 'w) wcs \<Rightarrow> (dec_exit \<times> ('z, 'w) wcs) option" where
  "inflate_loop env fl is_bin input cs =
     (case wc_deflate (fst cs) of
        None \<Rightarrow> None
      | Some df \<Rightarrow>
          (case inflate_step env fl is_bin input df cs of
             (Inl e, cs) \<Rightarrow> Some (e, cs)
           | (Inr rest, cs) \<Rightarrow> inflate_loop env fl is_bin rest cs))"

text \<open>\<open>(uInt)len\<close> input bytes.\<close>

definition uint_cut :: "bytes \<Rightarrow> bytes" where
  "uint_cut bs = take (unat (of_nat (length bs) :: 32 word)) bs"

definition decompress_stream_chunk ::
  "('z, 'w) ws_env \<Rightarrow> bytes \<Rightarrow> bool \<Rightarrow> ('z, 'w) wcs \<Rightarrow> (int \<times> ('z, 'w) wcs) option" where
  "decompress_stream_chunk env data is_bin = (\<lambda>(c, w).
     if \<not> wc_on_message c then Some (0, (c, w))
     else case we_alloc env SEVENT_WS_DECOMP_BATCH w of
            (None, w) \<Rightarrow> Some (SEVENT_ERR_NOMEM, (c, w))
          | (Some _, w) \<Rightarrow> do {
              (e, cs) \<leftarrow> inflate_loop env Z_NO_FLUSH is_bin (uint_cut data) (c, w);
              Some (case e of DecOut r \<Rightarrow> r | DecBreak \<Rightarrow> 0, cs)
            })"

text \<open>\<open>if(c->deflate->server_no_context_takeover) inflateReset(z);\<close>\<close>

definition end_reset :: "('z, 'w) ws_env \<Rightarrow> ('z, 'w) wcs \<Rightarrow> ('z, 'w) wcs" where
  "end_reset env = (\<lambda>(c, w). case wc_deflate c of
     None \<Rightarrow> (c, w)
   | Some df \<Rightarrow> if df_server_no_context_takeover df
                then (set_inflate df (zl_inflate_reset (we_zlib env) (df_inflate df)) c, w) else (c, w))"

definition decompress_stream_end ::
  "('z, 'w) ws_env \<Rightarrow> bool \<Rightarrow> ('z, 'w) wst \<Rightarrow> (int \<times> ('z, 'w) wst) option" where
  "decompress_stream_end env is_bin = (\<lambda>(rx, c, w).
     if \<not> wc_on_message c then Some (0, (rx, c, w))
     else case we_alloc env SEVENT_WS_DECOMP_BATCH w of
            (None, w) \<Rightarrow> Some (SEVENT_ERR_NOMEM, (rx, c, w))
          | (Some _, w) \<Rightarrow> do {
              (e, cs) \<leftarrow> inflate_loop env Z_SYNC_FLUSH is_bin [0x00, 0x00, 0xFF, 0xFF] (c, w);
              (case e of
                 DecOut r \<Rightarrow> Some (r, (rx, cs))
               | DecBreak \<Rightarrow>
                   let cs = (if rx_fin_sent rx then cs else we_user env (WsMessage [] is_bin True 0) cs)
                   in Some (0, (rx\<lparr>rx_fin_sent := True\<rparr>, end_reset env cs)))
            })"

definition decompress_oneshot ::
  "('z, 'w) ws_env \<Rightarrow> bytes \<Rightarrow> bool \<Rightarrow> ('z, 'w) wcs \<Rightarrow> (int \<times> ('z, 'w) wcs) option" where
  "decompress_oneshot env input is_bin = (\<lambda>(c, w).
     if \<not> wc_on_message c then Some (0, (c, w))
     else case we_alloc env (length input + 4) w of
            (None, w) \<Rightarrow> Some (SEVENT_ERR_NOMEM, (c, w))
          | (Some _, w) \<Rightarrow>
              (case we_alloc env SEVENT_WS_DECOMP_BATCH w of
                 (None, w) \<Rightarrow> Some (SEVENT_ERR_NOMEM, (c, w))
               | (Some _, w) \<Rightarrow> do {
                   (e, cs) \<leftarrow> inflate_loop env Z_SYNC_FLUSH is_bin (uint_cut (input @ [0x00, 0x00, 0xFF, 0xFF])) (c, w);
                   (case e of
                      DecOut r \<Rightarrow> Some (r, cs)
                    | DecBreak \<Rightarrow> Some (0, end_reset env (we_user env (WsMessage [] is_bin True 0) cs)))
                 }))"

section \<open>Messages\<close>

text \<open>\<open>c->on_message(...)\<close> without a test for NULL.\<close>

definition call_message :: "('z, 'w) ws_env \<Rightarrow> bytes \<Rightarrow> bool \<Rightarrow> bool \<Rightarrow> wlen \<Rightarrow> ('z, 'w) wcs \<Rightarrow> ('z, 'w) wcs option" where
  "call_message env data is_bin fin tot cs =
     (if wc_on_message (fst cs) then Some (we_user env (WsMessage data is_bin fin tot) cs) else None)"

definition msg_reset :: "ws_rx \<Rightarrow> ws_rx" where
  "msg_reset rx = rx\<lparr>rx_mode := WS_MSG_NONE, rx_compressed := False, rx_total := 0, rx_fin_sent := False, rx_frag := []\<rparr>"

definition msg_end :: "('z, 'w) ws_env \<Rightarrow> bool \<Rightarrow> ('z, 'w) wst \<Rightarrow> ('z, 'w) wst option" where
  "msg_end env is_bin = (\<lambda>(rx, cs).
     if rx_mode rx \<noteq> WS_MSG_NONE \<and> rx_compressed rx then do {
       (_, rx, cs) \<leftarrow> decompress_stream_end env is_bin (rx, cs);
       Some (msg_reset rx, cs)
     }
     else if rx_mode rx \<noteq> WS_MSG_NONE \<and> \<not> rx_fin_sent rx \<and> wc_on_message (fst cs) then
       Some (msg_reset rx, we_user env (WsMessage [] is_bin True (rx_total rx)) cs)
     else Some (msg_reset rx, cs))"

text \<open>\<open>memcpy\<close> into the buffer: the bytes from \<open>at\<close> on become \<open>bs\<close>.\<close>

definition poke :: "nat \<Rightarrow> bytes \<Rightarrow> bytes \<Rightarrow> bytes" where
  "poke at bs buf = take at buf @ bs @ drop (at + length bs) buf"

definition peek :: "nat \<Rightarrow> nat \<Rightarrow> bytes \<Rightarrow> bytes" where
  "peek at n buf = take n (drop at buf)"

text \<open>The chunk of one round of \<open>stream_consume\<close>, its unmasking, and the move past it.\<close>

definition stream_chunk :: "ws_rx \<Rightarrow> nat" where
  "stream_chunk rx =
     (let avail = length (rx_buf rx) - rx_pos rx;
          chunk = (if avail < rx_cap rx then avail else rx_cap rx)
      in if unat (rx_stream_remaining rx) < chunk then unat (rx_stream_remaining rx) else chunk)"

definition stream_unmask :: "ws_rx \<Rightarrow> ws_rx" where
  "stream_unmask rx =
     (if rx_stream_mask rx
      then rx\<lparr>rx_buf := poke (rx_pos rx)
                (ws_frame_apply_mask_offset (peek (rx_pos rx) (stream_chunk rx) (rx_buf rx))
                   (rx_stream_mask_key rx) (rx_stream_mask_off rx)) (rx_buf rx)\<rparr>
      else rx)"

definition stream_advance :: "nat \<Rightarrow> ws_rx \<Rightarrow> ws_rx" where
  "stream_advance chunk rx =
     rx\<lparr>rx_pos := rx_pos rx + chunk, rx_stream_remaining := rx_stream_remaining rx - of_nat chunk,
        rx_stream_mask_off := rx_stream_mask_off rx + of_nat chunk\<rparr>"

text \<open>The flag of the result says that the function returned from inside the loop.\<close>

partial_function (option) stream_consume_loop ::
  "('z, 'w) ws_env \<Rightarrow> bool \<Rightarrow> ('z, 'w) wst \<Rightarrow> (bool \<times> ('z, 'w) wst) option" where
  "stream_consume_loop env is_bin st = (case st of (rx, cs) \<Rightarrow>
     if \<not> (rx_pos rx < length (rx_buf rx) \<and> 0 < rx_stream_remaining rx) then Some (False, st)
     else if wc_destroyed (fst cs) then Some (True, st)
     else
       let chunk = stream_chunk rx;
           last_chunk = (chunk = unat (rx_stream_remaining rx) \<and> rx_stream_fin rx);
           rx = stream_unmask rx;
           data = peek (rx_pos rx) chunk (rx_buf rx)
       in if rx_compressed rx then do {
            (ret, cs) \<leftarrow> decompress_stream_chunk env data is_bin cs;
            (if ret \<noteq> 0 then Some (True, (rx, cs)) else stream_consume_loop env is_bin (stream_advance chunk rx, cs))
          }
          else
            let told = wc_on_message (fst cs);
                cs = (if told then we_user env (WsMessage data is_bin last_chunk (if last_chunk then rx_total rx else 0)) cs else cs);
                rx = rx\<lparr>rx_fin_sent := rx_fin_sent rx \<or> told \<and> last_chunk\<rparr>
            in if wc_destroyed (fst cs) then Some (True, (rx, cs))
               else stream_consume_loop env is_bin (stream_advance chunk rx, cs))"

definition stream_consume :: "('z, 'w) ws_env \<Rightarrow> ('z, 'w) wst \<Rightarrow> ('z, 'w) wst option" where
  "stream_consume env st = do {
     (returned, rx, cs) \<leftarrow> stream_consume_loop env (rx_opcode (fst st) = WS_OPCODE_BINARY) st;
     (if \<not> returned \<and> rx_stream_remaining rx = 0 \<and> rx_stream_fin rx
      then msg_end env (rx_opcode (fst st) = WS_OPCODE_BINARY) (rx, cs) else Some (rx, cs))
   }"

definition frag_append :: "('z, 'w) ws_env \<Rightarrow> bytes \<Rightarrow> ('z, 'w) wst \<Rightarrow> (int \<times> ('z, 'w) wst) option" where
  "frag_append env data = (\<lambda>(rx, cs).
     if data = [] then Some (0, (rx, cs))
     else if rx_cap rx < length data then Some (-1, (rx, cs))
     else if length (rx_frag rx) + length data \<le> rx_cap rx then
       Some (0, (rx\<lparr>rx_total := rx_total rx + of_nat (length data), rx_frag := rx_frag rx @ data\<rparr>, cs))
     else do {
       let is_bin = (rx_opcode rx = WS_OPCODE_BINARY);
       let flush = (wc_on_message (fst cs) \<and> rx_frag rx \<noteq> []);
       cs \<leftarrow> (if flush then
                if rx_compressed rx then map_option snd (decompress_stream_chunk env (rx_frag rx) is_bin cs)
                else Some (we_user env (WsMessage (rx_frag rx) is_bin False 0) cs)
              else Some cs);
       Some (0, if flush \<and> wc_destroyed (fst cs) then (rx, cs)
                else (rx\<lparr>rx_total := rx_total rx + of_nat (length data), rx_frag := data\<rparr>, cs))
     })"

text \<open>The while loop of \<open>frag_flush\<close>; the flag as above.\<close>

partial_function (option) frag_flush_loop ::
  "('z, 'w) ws_env \<Rightarrow> bool \<Rightarrow> ('z, 'w) wst \<Rightarrow> (bool \<times> ('z, 'w) wst) option" where
  "frag_flush_loop env fin st = (case st of (rx, cs) \<Rightarrow>
     if \<not> (rx_cap rx \<le> length (rx_frag rx) \<and> (fin \<or> rx_cap rx < length (rx_frag rx) \<or> rx_compressed rx))
     then Some (False, st)
     else do {
       let is_bin = (rx_opcode rx = WS_OPCODE_BINARY);
       let last_flag = (fin \<and> length (rx_frag rx) = rx_cap rx);
       let rx = rx\<lparr>rx_fin_sent := rx_fin_sent rx \<or> last_flag\<rparr>;
       cs \<leftarrow> (if rx_compressed rx then map_option snd (decompress_stream_chunk env (take (rx_cap rx) (rx_frag rx)) is_bin cs)
              else call_message env (take (rx_cap rx) (rx_frag rx)) is_bin last_flag (if last_flag then rx_total rx else 0) cs);
       (if wc_destroyed (fst cs) then Some (True, (rx, cs))
        else frag_flush_loop env fin (rx\<lparr>rx_frag := drop (rx_cap rx) (rx_frag rx)\<rparr>, cs))
     })"

text \<open>The part of \<open>frag_flush\<close> for the last fragment.\<close>

definition frag_finish :: "('z, 'w) ws_env \<Rightarrow> ('z, 'w) wst \<Rightarrow> ('z, 'w) wst option" where
  "frag_finish env = (\<lambda>(rx, cs).
     let is_bin = (rx_opcode rx = WS_OPCODE_BINARY)
     in if rx_frag rx = [] then msg_end env is_bin (rx, cs)
        else if rx_compressed rx then do {
          (_, cs) \<leftarrow> decompress_stream_chunk env (rx_frag rx) is_bin cs;
          (if wc_destroyed (fst cs) then Some (rx, cs) else msg_end env is_bin (rx\<lparr>rx_frag := []\<rparr>, cs))
        }
        else if \<not> is_bin \<and> \<not> ws_utf8_validate (rx_frag rx) then
          Some (rx, ws_send_close_code env SEVENT_WS_CLOSE_INVALID_PAYLOAD cs)
        else do {
          let rx = rx\<lparr>rx_fin_sent := True\<rparr>;
          cs \<leftarrow> call_message env (rx_frag rx) is_bin True (rx_total rx) cs;
          (if wc_destroyed (fst cs) then Some (rx, cs) else msg_end env is_bin (rx\<lparr>rx_frag := []\<rparr>, cs))
        })"

definition frag_flush :: "('z, 'w) ws_env \<Rightarrow> bool \<Rightarrow> ('z, 'w) wst \<Rightarrow> ('z, 'w) wst option" where
  "frag_flush env fin st = do {
     (returned, st) \<leftarrow> frag_flush_loop env fin st;
     (if \<not> returned \<and> fin then frag_finish env st else Some st)
   }"

definition frag_flush_tail :: "('z, 'w) ws_env \<Rightarrow> ('z, 'w) wst \<Rightarrow> ('z, 'w) wst option" where
  "frag_flush_tail env = (\<lambda>(rx, cs).
     if rx_frag rx = [] then Some (rx, cs)
     else do {
       let is_bin = (rx_opcode rx = WS_OPCODE_BINARY);
       cs \<leftarrow> (if rx_compressed rx then map_option snd (decompress_stream_chunk env (rx_frag rx) is_bin cs)
              else if wc_on_message (fst cs) then Some (we_user env (WsMessage (rx_frag rx) is_bin False 0) cs)
              else Some cs);
       Some (rx\<lparr>rx_frag := []\<rparr>, cs)
     })"

section \<open>Frames\<close>

definition handle_text_binary ::
  "('z, 'w) ws_env \<Rightarrow> ws_frame_header \<Rightarrow> bytes \<Rightarrow> ('z, 'w) wst \<Rightarrow> (int \<times> ('z, 'w) wst) option" where
  "handle_text_binary env hdr payload = (\<lambda>(rx, cs).
     if rx_mode rx \<noteq> WS_MSG_NONE then Some (SEVENT_WS_ERR_PROTOCOL, (rx, cs))
     else if fh_fin hdr then
       if fh_opcode hdr = WS_OPCODE_TEXT \<and> \<not> ws_utf8_validate payload then
         Some (-1, (rx, ws_send_close_code env SEVENT_WS_CLOSE_INVALID_PAYLOAD cs))
       else if wc_on_message (fst cs) then
         (let cs = we_user env (WsMessage payload (fh_opcode hdr = WS_OPCODE_BINARY) True (fh_payload_len hdr)) cs
          in Some (if wc_destroyed (fst cs) then -1 else 0, (rx, cs)))
       else Some (0, (rx, cs))
     else do {
       (r, st) \<leftarrow> frag_append env payload
         (rx\<lparr>rx_opcode := fh_opcode hdr, rx_total := 0, rx_fin_sent := False, rx_mode := WS_MSG_FRAG\<rparr>, cs);
       (if r \<noteq> 0 then Some (SEVENT_ERR_NOMEM, st)
        else do {
          st \<leftarrow> frag_flush env False st;
          Some (if wc_destroyed (fst (snd st)) then -1 else 0, st)
        })
     })"

definition handle_cont ::
  "('z, 'w) ws_env \<Rightarrow> ws_frame_header \<Rightarrow> bytes \<Rightarrow> ('z, 'w) wst \<Rightarrow> (int \<times> ('z, 'w) wst) option" where
  "handle_cont env hdr payload = (\<lambda>(rx, cs).
     if rx_mode rx = WS_MSG_NONE then Some (SEVENT_WS_ERR_PROTOCOL, (rx, cs))
     else do {
       (r, st) \<leftarrow> frag_append env payload (rx, cs);
       (if r \<noteq> 0 then Some (SEVENT_ERR_NOMEM, st)
        else do {
          st \<leftarrow> frag_flush env (fh_fin hdr) st;
          Some (if wc_destroyed (fst (snd st)) then -1 else 0, st)
        })
     })"

definition handle_ping :: "('z, 'w) ws_env \<Rightarrow> bytes \<Rightarrow> ('z, 'w) wcs \<Rightarrow> int \<times> ('z, 'w) wcs" where
  "handle_ping env payload cs =
     (let (r, cs) = send_frame env WS_OPCODE_PONG (Some payload) (length payload) cs
      in (if r \<noteq> 0 then SEVENT_WS_ERR_WRITE else 0, cs))"

definition handle_pong :: "('z, 'w) ws_env \<Rightarrow> bytes \<Rightarrow> ('z, 'w) wcs \<Rightarrow> int \<times> ('z, 'w) wcs" where
  "handle_pong env payload cs =
     (let cs = (if wc_on_pong (fst cs) then we_user env (WsPong payload) cs else cs)
      in (if wc_destroyed (fst cs) then -1 else 0, cs))"

definition handle_close :: "('z, 'w) ws_env \<Rightarrow> bytes \<Rightarrow> ('z, 'w) wcs \<Rightarrow> int \<times> ('z, 'w) wcs" where
  "handle_close env payload cs =
     (let code = (if 2 \<le> length payload then be16 (payload ! 0) (payload ! 1) else SEVENT_WS_CLOSE_NORMAL);
          reason = drop 2 payload
      in if 2 \<le> length payload \<and> \<not> ws_close_code_valid code then (SEVENT_WS_ERR_PROTOCOL, cs)
         else if reason \<noteq> [] \<and> \<not> ws_utf8_validate reason then
           (0, ws_send_close_code env SEVENT_WS_CLOSE_INVALID_PAYLOAD cs)
         else if wc_state (fst cs) = WS_STATE_CLOSING then (0, ws_enter_closed env code reason cs)
         else (0, ws_enter_closed env code reason
                    (snd (send_frame env WS_OPCODE_CLOSE (Some payload) (length payload) cs))))"

text \<open>
  One round of the loop of \<open>process_frames\<close>: \<open>Some r\<close> says that the function returns
  \<open>r\<close>, \<open>None\<close> that the loop goes on. First a frame that is not complete yet and too
  large to wait for, then a complete one.
\<close>

definition process_big ::
  "('z, 'w) ws_env \<Rightarrow> ws_frame_header \<Rightarrow> nat \<Rightarrow> ('z, 'w) wst \<Rightarrow> (int option \<times> ('z, 'w) wst) option" where
  "process_big env hdr n = (\<lambda>(rx, cs).
     if fh_rsv2 hdr \<or> fh_rsv3 hdr then Some (Some SEVENT_WS_ERR_PROTOCOL, (rx, cs))
     else if fh_rsv1 hdr \<and> wc_deflate (fst cs) = None then Some (Some SEVENT_WS_ERR_PROTOCOL, (rx, cs))
     else if fh_rsv1 hdr \<and> fh_opcode hdr = WS_OPCODE_CONT then Some (Some SEVENT_WS_ERR_PROTOCOL, (rx, cs))
     else if fh_mask hdr = wc_is_client (fst cs) then Some (Some SEVENT_WS_ERR_PROTOCOL, (rx, cs))
     else if rx_mode rx \<noteq> WS_MSG_NONE \<and> fh_opcode hdr \<noteq> WS_OPCODE_CONT then Some (Some SEVENT_WS_ERR_PROTOCOL, (rx, cs))
     else if rx_mode rx = WS_MSG_NONE \<and> fh_opcode hdr \<noteq> WS_OPCODE_TEXT \<and> fh_opcode hdr \<noteq> WS_OPCODE_BINARY
          then Some (Some SEVENT_WS_ERR_PROTOCOL, (rx, cs))
     else do {
       (rx, cs) \<leftarrow> (if rx_mode rx = WS_MSG_FRAG then frag_flush_tail env (rx, cs)
                    else if rx_mode rx = WS_MSG_NONE then
                      Some (rx\<lparr>rx_opcode := fh_opcode hdr, rx_total := 0, rx_fin_sent := False,
                               rx_compressed := rx_compressed rx \<or> fh_rsv1 hdr\<rparr>, cs)
                    else Some (rx, cs));
       (if rx_mode rx = WS_MSG_FRAG \<and> wc_destroyed (fst cs) then Some (Some 0, (rx, cs))
        else do {
          st \<leftarrow> stream_consume env
            (rx\<lparr>rx_mode := WS_MSG_STREAM, rx_stream_remaining := fh_payload_len hdr, rx_stream_fin := fh_fin hdr,
                rx_stream_mask := fh_mask hdr,
                rx_stream_mask_key := (if fh_mask hdr then fh_mask_key hdr else rx_stream_mask_key rx),
                rx_stream_mask_off := 0, rx_total := rx_total rx + fh_payload_len hdr, rx_pos := rx_pos rx + n\<rparr>, cs);
          Some (Some 0, st)
        })
     })"

definition rsv_violation :: "ws_frame_header \<Rightarrow> 'z ws_conn \<Rightarrow> bool" where
  "rsv_violation hdr c \<longleftrightarrow>
     fh_rsv2 hdr \<or> fh_rsv3 hdr \<or> fh_rsv1 hdr \<and> fh_opcode hdr AND 0x08 \<noteq> 0
     \<or> fh_rsv1 hdr \<and> wc_deflate c = None \<or> fh_rsv1 hdr \<and> fh_opcode hdr = WS_OPCODE_CONT"

definition dispatch_frame ::
  "('z, 'w) ws_env \<Rightarrow> ws_frame_header \<Rightarrow> nat \<Rightarrow> bytes \<Rightarrow> ('z, 'w) wst \<Rightarrow> (int option \<times> ('z, 'w) wst) option" where
  "dispatch_frame env hdr frame_size payload = (\<lambda>(rx, cs).
     if fh_opcode hdr = WS_OPCODE_CLOSE then
       (let (r, cs) = handle_close env payload cs in Some (Some r, (rx, cs)))
     else do {
       (ret, rx, cs) \<leftarrow>
         (if fh_opcode hdr = WS_OPCODE_TEXT \<or> fh_opcode hdr = WS_OPCODE_BINARY then handle_text_binary env hdr payload (rx, cs)
          else if fh_opcode hdr = WS_OPCODE_CONT then handle_cont env hdr payload (rx, cs)
          else if fh_opcode hdr = WS_OPCODE_PING then (let (r, cs) = handle_ping env payload cs in Some (r, (rx, cs)))
          else if fh_opcode hdr = WS_OPCODE_PONG then (let (r, cs) = handle_pong env payload cs in Some (r, (rx, cs)))
          else Some (SEVENT_WS_ERR_PROTOCOL, (rx, cs)));
       Some (if ret < 0 then (Some (-1), (rx, cs))
             else if 0 < ret then (Some ret, (rx, cs))
             else (None, (rx\<lparr>rx_pos := rx_pos rx + frame_size\<rparr>, cs)))
     })"

definition process_whole ::
  "('z, 'w) ws_env \<Rightarrow> ws_frame_header \<Rightarrow> nat \<Rightarrow> nat \<Rightarrow> ('z, 'w) wst \<Rightarrow> (int option \<times> ('z, 'w) wst) option" where
  "process_whole env hdr n frame_size = (\<lambda>(rx, cs).
     if fh_mask hdr = wc_is_client (fst cs) then Some (Some SEVENT_WS_ERR_PROTOCOL, (rx, cs))
     else
       let raw = peek (rx_pos rx + n) (unat (fh_payload_len hdr)) (rx_buf rx);
           payload = (if fh_mask hdr then ws_frame_apply_mask raw (fh_mask_key hdr) else raw);
           rx = (if fh_mask hdr then rx\<lparr>rx_buf := poke (rx_pos rx + n) payload (rx_buf rx)\<rparr> else rx)
       in if rsv_violation hdr (fst cs) then Some (Some SEVENT_WS_ERR_PROTOCOL, (rx, cs))
          else if fh_rsv1 hdr \<and> fh_fin hdr \<and> fh_opcode hdr \<noteq> WS_OPCODE_CONT then
            if rx_mode rx \<noteq> WS_MSG_NONE then Some (Some SEVENT_WS_ERR_PROTOCOL, (rx, cs))
            else do {
              (r, cs) \<leftarrow> decompress_oneshot env payload (fh_opcode hdr = WS_OPCODE_BINARY) cs;
              Some (if r \<noteq> 0 then (Some r, (rx, cs))
                    else if wc_destroyed (fst cs) then (Some 0, (rx, cs))
                    else (None, (rx\<lparr>rx_pos := rx_pos rx + frame_size\<rparr>, cs)))
            }
          else
            let rx = (if fh_rsv1 hdr \<and> \<not> fh_fin hdr \<and> (fh_opcode hdr = WS_OPCODE_TEXT \<or> fh_opcode hdr = WS_OPCODE_BINARY)
                      then rx\<lparr>rx_compressed := True\<rparr> else rx)
            in if fh_opcode hdr AND 0x08 \<noteq> 0 \<and> (125 < fh_payload_len hdr \<or> \<not> fh_fin hdr)
               then Some (Some SEVENT_WS_ERR_PROTOCOL, (rx, cs))
               else dispatch_frame env hdr frame_size payload (rx, cs))"

definition hdr_stack :: ws_frame_header where
  "hdr_stack = \<lparr>fh_fin = False, fh_rsv1 = False, fh_rsv2 = False, fh_rsv3 = False, fh_opcode = 0,
     fh_mask = False, fh_payload_len = 0, fh_mask_key = [0, 0, 0, 0]\<rparr>"

definition process_one :: "('z, 'w) ws_env \<Rightarrow> ('z, 'w) wst \<Rightarrow> (int option \<times> ('z, 'w) wst) option" where
  "process_one env = (\<lambda>(rx, cs).
     if wc_destroyed (fst cs) then Some (Some 0, (rx, cs))
     else
       let avail = length (rx_buf rx) - rx_pos rx;
           (n, hdr) = ws_frame_parse_header (drop (rx_pos rx) (rx_buf rx)) hdr_stack
       in if n = 0 then Some (Some 0, (rx, cs))
          else if n < 0 then Some (Some SEVENT_WS_ERR_PROTOCOL, (rx, cs))
          else if - 1 - of_int n < fh_payload_len hdr then Some (Some SEVENT_WS_ERR_PROTOCOL, (rx, cs))
          else
            let frame_size = nat n + unat (fh_payload_len hdr)
            in if avail < frame_size then
                 if rx_cap rx div 2 < frame_size then process_big env hdr (nat n) (rx, cs)
                 else Some (Some 0, (rx, cs))
               else process_whole env hdr (nat n) frame_size (rx, cs))"

partial_function (option) process_frames :: "('z, 'w) ws_env \<Rightarrow> ('z, 'w) wst \<Rightarrow> (int \<times> ('z, 'w) wst) option" where
  "process_frames env st =
     (if rx_pos (fst st) < length (rx_buf (fst st)) \<and> wc_state (fst (snd st)) \<noteq> WS_STATE_CLOSED then do {
        (r, st) \<leftarrow> process_one env st;
        (case r of Some r \<Rightarrow> Some (r, st) | None \<Rightarrow> process_frames env st)
      }
      else Some (0, st))"

text \<open>The loop of \<open>ws_frame_data\<close> in streaming mode.\<close>

partial_function (option) frame_data_loop :: "('z, 'w) ws_env \<Rightarrow> ('z, 'w) wst \<Rightarrow> (int \<times> ('z, 'w) wst) option" where
  "frame_data_loop env st =
     (if rx_pos (fst st) < length (rx_buf (fst st)) then do {
        let prev = rx_pos (fst st);
        st \<leftarrow> (if 0 < rx_stream_remaining (fst st) then stream_consume env st else Some st);
        (err, st) \<leftarrow> (if rx_stream_remaining (fst st) = 0 then process_frames env st else Some (0, st));
        (if rx_pos (fst st) = prev \<or> err \<noteq> 0 then Some (err, st) else frame_data_loop env st)
      }
      else Some (0, st))"

definition ws_frame_data :: "('z, 'w) ws_env \<Rightarrow> ('z, 'w) wst \<Rightarrow> ('z, 'w) wst option" where
  "ws_frame_data env st = do {
     (err, rx, cs) \<leftarrow> (if rx_mode (fst st) = WS_MSG_STREAM then frame_data_loop env st else process_frames env st);
     Some (rx, if err \<noteq> 0 then ws_fatal env err cs else cs)
   }"

end
