(* ===== verification/Ws_Session.thy ===== *)
theory Ws_Session
  imports Ws_Conn
begin

text \<open>
  \<^verbatim>\<open>src/websockets/ws_conn.c\<close>, the session layer: the opening handshake of both roles,
  redirects, the callbacks of the stream, the ping timer and the public functions, on the
  frame layer of \<open>Ws_Conn\<close>.
\<close>

section \<open>Constants and the C library\<close>

definition SEVENT_WS_RECV_MIN :: nat where "SEVENT_WS_RECV_MIN = 1024"
definition SEVENT_WS_RECV_DEFAULT :: nat where "SEVENT_WS_RECV_DEFAULT = 4096"
definition SEVENT_WS_MAX_REDIRECTS :: int where "SEVENT_WS_MAX_REDIRECTS = 5"
definition WS_HTTP_STATUS_REDIRECT_MIN :: nat where "WS_HTTP_STATUS_REDIRECT_MIN = 300"
definition WS_HTTP_STATUS_REDIRECT_MAX :: nat where "WS_HTTP_STATUS_REDIRECT_MAX = 399"
definition WS_DEFAULT_PORT :: "16 word" where "WS_DEFAULT_PORT = 80"

text \<open>\<open>strstr\<close>: the text from the first occurrence on.\<close>

fun strstr :: "string \<Rightarrow> string \<Rightarrow> string option" where
  "strstr [] needle = (if needle = [] then Some [] else None)"
| "strstr (x # xs) needle =
     (if take (length needle) (x # xs) = needle then Some (x # xs) else strstr xs needle)"

text \<open>\<open>strtol(s, &end, 10)\<close>: \<open>None\<close> when there are no digits, which leaves \<open>end\<close> at \<open>s\<close>.\<close>

definition is_space :: "char \<Rightarrow> bool" where
  "is_space c \<longleftrightarrow> c = SP \<or> (let n = of_char c :: nat in 9 \<le> n \<and> n \<le> 13)"

definition strtol10 :: "string \<Rightarrow> int option" where
  "strtol10 s =
     (let s = dropWhile is_space s;
          neg = (s \<noteq> [] \<and> hd s = CHR ''-'');
          s = (if s \<noteq> [] \<and> (hd s = CHR ''-'' \<or> hd s = CHR ''+'') then tl s else s);
          digits = takeWhile is_digit s;
          v = (if neg then - int (dec_value digits) else int (dec_value digits))
      in if digits = [] then None else Some (max (- (2 ^ 63)) (min (2 ^ 63 - 1) v)))"

section \<open>Extensions and redirects\<close>

function ext_ok_loop :: "string \<Rightarrow> bool" where
  "ext_ok_loop p =
     (let p = dropWhile is_ows p
      in if p = [] then True
         else if rtrim (takeWhile (\<lambda>c. c \<noteq> CHR '';'' \<and> c \<noteq> CHR '','') p) \<noteq> WS_EXT_PMD then False
         else case memchr (CHR '','') p of None \<Rightarrow> True | Some i \<Rightarrow> ext_ok_loop (drop (Suc i) p))"
  by pat_completeness auto
termination
proof (relation "measure length", goal_cases)
  case 1 then show ?case by simp
next
  case (2 p q i)
  then have "length (drop (Suc i) q) < length q" by simp
  also have "length q \<le> length p" using 2(1) by (simp add: length_dropWhile_le)
  finally show ?case by simp
qed

declare ext_ok_loop.simps [simp del]

definition ws_extensions_ok :: "string \<Rightarrow> bool \<Rightarrow> bool" where
  "ws_extensions_ok extensions offered_deflate =
     (if extensions = [] then True else if \<not> offered_deflate then False else ext_ok_loop extensions)"

text \<open>The digits of the port: \<open>None\<close> is the early exit above 65535.\<close>

fun redirect_port :: "nat \<Rightarrow> string \<Rightarrow> (nat \<times> string) option" where
  "redirect_port port [] = Some (port, [])"
| "redirect_port port (c # cs) =
     (if is_digit c then
        let port = port * 10 + digit_val c in if 65535 < port then None else redirect_port port cs
      else Some (port, c # cs))"

definition ws_redirect_parse :: "string \<Rightarrow> 'z ws_conn \<Rightarrow> int \<times> 'z ws_conn" where
  "ws_redirect_parse loc c =
     (if loc \<noteq> [] \<and> hd loc = CHR ''/'' then (0, c\<lparr>wc_path := take 255 loc\<rparr>)
      else if take 5 loc \<noteq> ''ws://'' then (-1, c)
      else
        let loc = drop 5 loc;
            host = takeWhile (\<lambda>x. x \<noteq> CHR '':'' \<and> x \<noteq> CHR ''/'') loc;
            p = drop (length host) loc
        in if host = [] \<or> 256 \<le> length host then (-1, c)
           else
             let c = c\<lparr>wc_host := host\<rparr>;
                 port = (if p \<noteq> [] \<and> hd p = CHR '':''
                         then case redirect_port 0 (tl p) of
                                None \<Rightarrow> None | Some (v, q) \<Rightarrow> if v = 0 then None else Some (of_nat v, q)
                         else Some (WS_DEFAULT_PORT, p))
             in case port of
                  None \<Rightarrow> (-1, c)
                | Some (v, q) \<Rightarrow>
                    (0, c\<lparr>wc_port := v,
                          wc_path := (if q \<noteq> [] \<and> hd q = CHR ''/'' then take 255 q else ''/'')\<rparr>))"

section \<open>Stream callbacks\<close>

definition ws_stream_init :: "ws_rx \<Rightarrow> 'z ws_conn \<Rightarrow> stream_init" where
  "ws_stream_init rx c = \<lparr>si_connect_timeout_ms = wc_connect_timeout_ms c, si_recv_buf_size = rx_cap rx div 2\<rparr>"

definition on_ping_timer :: "('z, 'w) ws_env \<Rightarrow> ('z, 'w) wcs \<Rightarrow> ('z, 'w) wcs" where
  "on_ping_timer env = (\<lambda>(c, w).
     if wc_destroyed c \<or> wc_state c \<noteq> WS_STATE_OPEN then (c, w)
     else snd (send_frame env WS_OPCODE_PING None 0 (c, w)))"

definition ws_redirect_reconnect :: "('z, 'w) ws_env \<Rightarrow> ('z, 'w) wst \<Rightarrow> bool \<times> ('z, 'w) wst" where
  "ws_redirect_reconnect env = (\<lambda>(rx, cs).
     let (c, w) = ws_close_socket env cs;
         rx = (msg_reset rx)\<lparr>rx_buf := [], rx_pos := 0, rx_stream_remaining := 0, rx_stream_fin := False\<rparr>;
         c = c\<lparr>wc_state := WS_STATE_CONNECTING\<rparr>;
         (r, w) = we_open env (wc_host c) (wc_port c) (ws_stream_init rx c) w
     in (\<not> r < 0, (rx, c, w)))"

definition ws_server_handshake_fail :: "('z, 'w) ws_env \<Rightarrow> int \<Rightarrow> ('z, 'w) wcs \<Rightarrow> ('z, 'w) wcs" where
  "ws_server_handshake_fail env status cs =
     (let (n, resp) = sevent_http_build_response 256 status
            (if status = 426 then Some ''Upgrade Required'' else None)
            (Some (if status = 426 then ''Connection: close'' @ CRLF @ ''Sec-WebSocket-Version: 13'' @ CRLF
                   else ''Connection: close'' @ CRLF));
          (c, w) = (if 0 < n then snd (stream_write env (bytes_of resp) cs) else cs);
          cs = (c\<lparr>wc_state := WS_STATE_CLOSING\<rparr>, we_shutdown_wr env w)
      in if wc_on_error (fst cs) then we_user env (WsError SEVENT_WS_ERR_HANDSHAKE) cs else cs)"

text \<open>
  The end of both handshakes: the connection is open, the bytes after the head are frames.
  An error code below zero of \<open>process_frames\<close> is dropped here.
\<close>

definition start_ping :: "('z, 'w) ws_env \<Rightarrow> ('z, 'w) wcs \<Rightarrow> ('z, 'w) wcs" where
  "start_ping env = (\<lambda>(c, w).
     if 0 < wc_ping_interval_ms c \<and> wc_ping_timer c = None
     then let (t, w) = we_timer_register env (of_int (wc_ping_interval_ms c)) w in (c\<lparr>wc_ping_timer := t\<rparr>, w)
     else (c, w))"

definition ws_opened :: "('z, 'w) ws_env \<Rightarrow> nat \<Rightarrow> ('z, 'w) wst \<Rightarrow> ('z, 'w) wst option" where
  "ws_opened env skip = (\<lambda>(rx, c, w).
     let rx = rx\<lparr>rx_pos := skip\<rparr>;
         cs = (c\<lparr>wc_state := WS_STATE_OPEN\<rparr>, w);
         cs = (if wc_on_open (fst cs) then we_user env WsOpen cs else cs)
     in if wc_destroyed (fst cs) then Some (rx, cs)
        else
          let cs = start_ping env cs
          in if rx_pos rx < length (rx_buf rx) then do {
               (err, rx, cs) \<leftarrow> process_frames env (rx, cs);
               Some (rx, if 0 < err then ws_fatal env err cs else cs)
             }
             else Some (rx, cs))"

text \<open>\<open>ws_deflate_create(&c->deflate, p)\<close>, which leaves the field alone when it fails.\<close>

definition new_deflate :: "('z, 'w) ws_env \<Rightarrow> ws_deflate_params \<Rightarrow> ('z, 'w) wcs \<Rightarrow> bool \<times> ('z, 'w) wcs" where
  "new_deflate env p = (\<lambda>(c, w).
     let (block, w) = we_alloc env 0 w
     in case ws_deflate_create (we_zlib env) (block \<noteq> None) (Some p) of
          None \<Rightarrow> (False, (c, w)) | Some df \<Rightarrow> (True, (c\<lparr>wc_deflate := Some df\<rparr>, w)))"

definition no_params :: ws_deflate_params where
  "no_params = \<lparr>dp_server_no_context_takeover = False, dp_client_no_context_takeover = False,
     dp_server_max_window_bits = 0, dp_client_max_window_bits = 0, dp_compression_level = 0\<rparr>"

definition ws_server_establish ::
  "('z, 'w) ws_env \<Rightarrow> string \<Rightarrow> nat \<Rightarrow> bool \<Rightarrow> bool \<Rightarrow> ('z, 'w) wst \<Rightarrow> ('z, 'w) wst option" where
  "ws_server_establish env key skip deflate_offered client_nct = (\<lambda>(rx, c, w).
     let (confirm_pmd, cs) =
           (if wc_enable_deflate c \<and> deflate_offered
            then new_deflate env (no_params\<lparr>dp_client_no_context_takeover := client_nct,
                   dp_compression_level := wc_deflate_level c\<rparr>) (c, w)
            else (False, (c, w)));
         (n, resp) = ws_build_response 512 key confirm_pmd
     in if n < 0 then Some (rx, ws_fatal env SEVENT_ERR_NOMEM cs)
        else
          let (rc, cs) = stream_write env (bytes_of resp) cs
          in if rc \<noteq> 0 then Some (rx, ws_fatal env SEVENT_WS_ERR_WRITE cs) else ws_opened env skip (rx, cs))"

definition ws_handshake_data_server :: "('z, 'w) ws_env \<Rightarrow> ('z, 'w) wst \<Rightarrow> ('z, 'w) wst option" where
  "ws_handshake_data_server env = (\<lambda>(rx, cs).
     let (ret, req) = ws_parse_request (chars_of (rx_buf rx))
     in if ret = 0 then Some (rx, cs)
        else if ret < 0 \<or> hq_status req \<noteq> 0 then
          Some (rx, ws_server_handshake_fail env (if 0 < ret \<and> hq_status req = 426 then 426 else 400) cs)
        else ws_server_establish env (hq_key req) (nat ret) (hq_deflate_offered req)
               (hq_client_no_context_takeover req) (rx, cs))"

text \<open>
  The window that a response parameter \<open>name=N\<close> sets: 0 when it is absent or has no
  value, \<open>None\<close> when its value breaks the protocol.
\<close>

definition window_param :: "string \<Rightarrow> byte \<Rightarrow> string \<Rightarrow> byte option" where
  "window_param name req extensions =
     (case strstr extensions name of
        None \<Rightarrow> Some 0
      | Some at \<Rightarrow>
          let after = drop (length name) at
          in if after \<noteq> [] \<and> hd after = CHR ''='' then
               (case strtol10 (tl after) of
                  None \<Rightarrow> None
                | Some v \<Rightarrow> if v < 8 \<or> 15 < v \<or> req \<noteq> 0 \<and> uint req < v then None else Some (of_int v))
             else Some 0)"

definition client_deflate_params :: "'z ws_conn \<Rightarrow> string \<Rightarrow> ws_deflate_params option" where
  "client_deflate_params c extensions =
     (let creq = wc_request_client_max_wb c
      in case window_param WS_EXT_CLIENT_MAX_WB creq extensions of
           None \<Rightarrow> None
         | Some cw \<Rightarrow>
             (let cw = (if cw = 0 \<and> 8 \<le> creq \<and> creq \<le> 15 then creq else cw)
              in case window_param WS_EXT_SERVER_MAX_WB (wc_request_server_max_wb c) extensions of
                   None \<Rightarrow> None
                 | Some sw \<Rightarrow>
                     Some \<lparr>dp_server_no_context_takeover = (strstr extensions WS_EXT_SERVER_NO_CTX \<noteq> None),
                           dp_client_no_context_takeover = wc_request_client_nct c,
                           dp_server_max_window_bits = sw, dp_client_max_window_bits = cw,
                           dp_compression_level = wc_deflate_level c\<rparr>))"

text \<open>The part of \<open>ws_handshake_data\<close> after the accept value is checked: extensions.\<close>

definition ws_client_negotiate ::
  "('z, 'w) ws_env \<Rightarrow> string \<Rightarrow> nat \<Rightarrow> ('z, 'w) wst \<Rightarrow> ('z, 'w) wst option" where
  "ws_client_negotiate env extensions skip = (\<lambda>(rx, c, w).
     if \<not> ws_extensions_ok extensions (wc_enable_deflate c) then Some (rx, ws_fatal env SEVENT_WS_ERR_HANDSHAKE (c, w))
     else if wc_enable_deflate c \<and> strstr extensions WS_EXT_PMD \<noteq> None then
       (case client_deflate_params c extensions of
          None \<Rightarrow> Some (rx, ws_fatal env SEVENT_WS_ERR_PROTOCOL (c, w))
        | Some p \<Rightarrow> ws_opened env skip (rx, snd (new_deflate env p (c, w))))
     else ws_opened env skip (rx, c, w))"

text \<open>Following a redirect.\<close>

definition ws_follow :: "('z, 'w) ws_env \<Rightarrow> string \<Rightarrow> ('z, 'w) wst \<Rightarrow> ('z, 'w) wst" where
  "ws_follow env location = (\<lambda>(rx, c, w).
     if SEVENT_WS_MAX_REDIRECTS \<le> wc_redirect_count c then (rx, ws_fatal env SEVENT_WS_ERR_HANDSHAKE (c, w))
     else
       let (r, c) = ws_redirect_parse location c
       in if r \<noteq> 0 then (rx, ws_fatal env SEVENT_WS_ERR_HANDSHAKE (c, w))
          else
            let (ok, rx, cs) = ws_redirect_reconnect env (rx, c\<lparr>wc_redirect_count := wc_redirect_count c + 1\<rparr>, w)
            in if ok then (rx, cs) else (rx, ws_fatal env SEVENT_WS_ERR_CONNECT cs))"

definition ws_handshake_data :: "('z, 'w) ws_env \<Rightarrow> ('z, 'w) wst \<Rightarrow> ('z, 'w) wst option" where
  "ws_handshake_data env = (\<lambda>(rx, c, w).
     if \<not> wc_is_client c then ws_handshake_data_server env (rx, c, w)
     else
       let buf = chars_of (rx_buf rx);
           (ret, resp) = ws_parse_response buf
       in if ret = 0 then Some (rx, c, w)
          else if ret < 0 then
            (let cs = (if wc_on_http_response c then we_user env (WsHttp (int (hr_status_code resp)) buf []) (c, w) else (c, w))
             in Some (rx, ws_fatal env SEVENT_WS_ERR_HANDSHAKE cs))
          else if WS_HTTP_STATUS_REDIRECT_MIN \<le> hr_status_code resp \<and> hr_status_code resp < WS_HTTP_STATUS_REDIRECT_MAX
                  \<and> cstr (hr_location resp) \<noteq> [] then Some (ws_follow env (cstr (hr_location resp)) (rx, c, w))
          else if wc_on_http_response c then
            (if hr_status_code resp \<noteq> WS_HTTP_STATUS_SWITCHING \<or> ws_verify_accept (wc_sec_ws_key c) (cstr (hr_accept resp)) \<noteq> 0 then
               (let cs = we_user env (WsHttp (int (hr_status_code resp)) (take (nat ret) buf) (drop (nat ret) buf)) (c, w)
                in Some (rx, if wc_destroyed (fst cs) then cs else ws_enter_closed env 0 [] cs))
             else ws_client_negotiate env (cstr (hr_extensions resp)) (nat ret) (rx, c, w))
          else if ws_verify_accept (wc_sec_ws_key c) (cstr (hr_accept resp)) \<noteq> 0 then
            Some (rx, ws_fatal env SEVENT_WS_ERR_HANDSHAKE (c, w))
          else ws_client_negotiate env (cstr (hr_extensions resp)) (nat ret) (rx, c, w))"

definition ws_stream_on_data :: "('z, 'w) ws_env \<Rightarrow> bytes \<Rightarrow> ('z, 'w) wst \<Rightarrow> ('z, 'w) wst option" where
  "ws_stream_on_data env data = (\<lambda>(rx, cs).
     if wc_destroyed (fst cs) \<or> wc_state (fst cs) = WS_STATE_CLOSED then Some (rx, cs)
     else
       let rx = (if 0 < rx_pos rx then rx\<lparr>rx_buf := drop (rx_pos rx) (rx_buf rx), rx_pos := 0\<rparr> else rx)
       in if rx_cap rx < length (rx_buf rx) + length data then Some (rx, ws_fatal env SEVENT_WS_ERR_PROTOCOL cs)
          else
            let rx = rx\<lparr>rx_buf := rx_buf rx @ data\<rparr>
            in if wc_state (fst cs) = WS_STATE_HANDSHAKE then ws_handshake_data env (rx, cs) else ws_frame_data env (rx, cs))"

definition offer_of :: "'z ws_conn \<Rightarrow> ws_deflate_params" where
  "offer_of c =
     (let ok = (\<lambda>b :: byte. 8 \<le> b \<and> b \<le> 15)
      in \<lparr>dp_server_no_context_takeover = wc_request_server_nct c,
          dp_client_no_context_takeover = wc_request_client_nct c,
          dp_server_max_window_bits = (if ok (wc_request_server_max_wb c) then wc_request_server_max_wb c else 0),
          dp_client_max_window_bits = (if ok (wc_request_client_max_wb c) then wc_request_client_max_wb c else 0),
          dp_compression_level = 0\<rparr>)"

definition ws_stream_on_open :: "('z, 'w) ws_env \<Rightarrow> ('z, 'w) wcs \<Rightarrow> ('z, 'w) wcs" where
  "ws_stream_on_open env = (\<lambda>(c, w).
     if \<not> wc_is_client c then (c\<lparr>wc_state := WS_STATE_HANDSHAKE\<rparr>, w)
     else
       let ((urandom, seed), w) = we_random env w;
           c = c\<lparr>wc_sec_ws_key := ws_gen_key urandom seed\<rparr>;
           (n, req) = ws_build_request 1024 (wc_host c) (wc_port c) (wc_path c) (wc_sec_ws_key c)
             (if wc_sub_protocol c \<noteq> [] then Some (wc_sub_protocol c) else None) (wc_enable_deflate c)
             (if wc_enable_deflate c then Some (offer_of c) else None)
       in if n < 0 then ws_fatal env SEVENT_ERR_NOMEM (c, w)
          else
            let (rc, cs) = stream_write env (bytes_of req) (c\<lparr>wc_state := WS_STATE_HANDSHAKE\<rparr>, w)
            in if rc \<noteq> 0 then ws_fatal env SEVENT_WS_ERR_CONNECT cs else cs)"

section \<open>Public functions\<close>

record ws_config =
  cf_host :: "string option"
  cf_port :: "16 word"
  cf_path :: "string option"
  cf_sub_protocol :: "string option"
  cf_ping_interval_ms :: int
  cf_connect_timeout_ms :: int
  cf_recv_buf_size :: nat
  cf_enable_deflate :: bool
  cf_deflate_level :: int
  cf_request_client_nct :: bool
  cf_request_server_nct :: bool
  cf_request_client_max_wb :: byte
  cf_request_server_max_wb :: byte
  cf_stream :: stream_conn_config
  cf_on_open :: bool
  cf_on_message :: bool
  cf_on_close :: bool
  cf_on_error :: bool
  cf_on_pong :: bool
  cf_on_http_response :: bool

text \<open>\<open>strncpy(dst, src, n - 1)\<close> into a zeroed array of \<open>n\<close> characters.\<close>

definition copy_str :: "nat \<Rightarrow> string option \<Rightarrow> string" where
  "copy_str n s = (case s of None \<Rightarrow> [] | Some s \<Rightarrow> take (n - 1) s)"

definition rx0 :: ws_rx where
  "rx0 = \<lparr>rx_buf = [], rx_pos = 0, rx_cap = 0, rx_mode = WS_MSG_NONE, rx_opcode = 0, rx_compressed = False,
     rx_total = 0, rx_fin_sent = False, rx_stream_remaining = 0, rx_stream_fin = False, rx_stream_mask = False,
     rx_stream_mask_key = [0, 0, 0, 0], rx_stream_mask_off = 0, rx_frag = []\<rparr>"

text \<open>\<open>we_new\<close> allocates the struct, prepares its lock and gives the seed made from its address, the time and the process.\<close>

definition ws_conn_new :: "('z, 'w) ws_env \<Rightarrow> ws_config \<Rightarrow> bool \<Rightarrow> 'w \<Rightarrow> 'z ws_conn option \<times> 'w" where
  "ws_conn_new env cfg is_client w =
     (case we_new env w of
        (None, w) \<Rightarrow> (None, w)
      | (Some seed, w) \<Rightarrow>
          (Some \<lparr>wc_stream = False, wc_stream_cfg = cf_stream cfg, wc_state = WS_STATE_CONNECTING, wc_destroyed = False,
             wc_is_client = is_client, wc_host = copy_str 256 (cf_host cfg), wc_port = cf_port cfg,
             wc_path = copy_str 256 (cf_path cfg), wc_redirect_count = 0,
             wc_sub_protocol = copy_str 64 (cf_sub_protocol cfg), wc_ping_interval_ms = cf_ping_interval_ms cfg,
             wc_connect_timeout_ms = cf_connect_timeout_ms cfg, wc_ping_timer = None,
             wc_enable_deflate = cf_enable_deflate cfg, wc_deflate_level = cf_deflate_level cfg,
             wc_request_client_nct = cf_request_client_nct cfg, wc_request_server_nct = cf_request_server_nct cfg,
             wc_request_client_max_wb = cf_request_client_max_wb cfg,
             wc_request_server_max_wb = cf_request_server_max_wb cfg, wc_deflate = None,
             wc_on_open = cf_on_open cfg, wc_on_message = cf_on_message cfg, wc_on_close = cf_on_close cfg,
             wc_on_error = cf_on_error cfg, wc_on_pong = cf_on_pong cfg,
             wc_on_http_response = cf_on_http_response cfg, wc_sec_ws_key = [], wc_mask_seed = seed\<rparr>, w))"

text \<open>Both buffers are asked for before the results are looked at; \<open>None\<close> is \<open>SEVENT_ERR_NOMEM\<close>.\<close>

definition two_bufs :: "('z, 'w) ws_env \<Rightarrow> nat \<Rightarrow> 'w \<Rightarrow> bool \<times> 'w" where
  "two_bufs env n w = (let (a, w) = we_alloc env n w; (b, w) = we_alloc env n w in (a \<noteq> None \<and> b \<noteq> None, w))"

definition ws_conn_alloc_bufs :: "('z, 'w) ws_env \<Rightarrow> nat \<Rightarrow> 'w \<Rightarrow> ws_rx option \<times> 'w" where
  "ws_conn_alloc_bufs env cfg_bufsz w =
     (let bufsz = (if cfg_bufsz = 0 then SEVENT_WS_RECV_DEFAULT else cfg_bufsz);
          bufsz = (if bufsz < SEVENT_WS_RECV_MIN then SEVENT_WS_RECV_MIN else bufsz);
          (ok, w) = two_bufs env bufsz w
      in if ok then (Some (rx0\<lparr>rx_cap := bufsz\<rparr>), w) else (None, w))"

definition ws_conn_abort :: "('z, 'w) ws_env \<Rightarrow> ('z, 'w) wcs \<Rightarrow> 'w" where
  "ws_conn_abort env = (\<lambda>(c, w). if wc_stream c then we_stream_destroy env w else w)"

text \<open>The common part of \<open>sevent_ws_connect\<close> and \<open>sevent_ws_accept\<close>, up to the new stream.\<close>

definition ws_prepare :: "('z, 'w) ws_env \<Rightarrow> ws_config \<Rightarrow> bool \<Rightarrow> 'w \<Rightarrow> (ws_rx \<times> 'z ws_conn) option \<times> 'w" where
  "ws_prepare env cfg is_client w =
     (case ws_conn_new env cfg is_client w of
        (None, w) \<Rightarrow> (None, w)
      | (Some c, w) \<Rightarrow>
          (case ws_conn_alloc_bufs env (cf_recv_buf_size cfg) w of
             (None, w) \<Rightarrow> (None, ws_conn_abort env (c, w))
           | (Some rx, w) \<Rightarrow>
               (let (ok, w) = we_create env (wc_stream_cfg c) w
                in if ok then (Some (rx, c\<lparr>wc_stream := True\<rparr>), w) else (None, ws_conn_abort env (c, w)))))"

definition sevent_ws_connect :: "('z, 'w) ws_env \<Rightarrow> ws_config \<Rightarrow> 'w \<Rightarrow> (ws_rx \<times> 'z ws_conn) option \<times> 'w" where
  "sevent_ws_connect env cfg w =
     (if cf_host cfg = None \<or> cf_path cfg = None \<or> \<not> cf_on_open cfg \<and> \<not> cf_on_error cfg then (None, w)
      else case ws_prepare env cfg True w of
             (None, w) \<Rightarrow> (None, w)
           | (Some (rx, c), w) \<Rightarrow>
               (let (r, w) = we_open env (wc_host c) (wc_port c) (ws_stream_init rx c) w
                in if r < 0 then (None, ws_conn_abort env (c, w)) else (Some (rx, c), w)))"

definition sevent_ws_accept :: "('z, 'w) ws_env \<Rightarrow> int \<Rightarrow> ws_config \<Rightarrow> 'w \<Rightarrow> (ws_rx \<times> 'z ws_conn) option \<times> 'w" where
  "sevent_ws_accept env fd cfg w =
     (if fd < 0 \<or> \<not> cf_on_open cfg \<and> \<not> cf_on_error cfg then (None, w)
      else case ws_prepare env cfg False w of
             (None, w) \<Rightarrow> (None, w)
           | (Some (rx, c), w) \<Rightarrow>
               (let (r, w) = we_accept env fd (ws_stream_init rx c) w
                in if r < 0 then (None, ws_conn_abort env (c, w)) else (Some (rx, c), w)))"

text \<open>What \<open>sevent_ws_upgrade\<close> calls of the HTTP server to take a connection over.\<close>

record 'w http_handoff =
  ho_release :: "'w \<Rightarrow> int \<times> 'w"
  ho_detach_stream :: "'w \<Rightarrow> bool \<times> 'w"
  ho_ev :: "'w \<Rightarrow> bool"
  ho_take_recv :: "'w \<Rightarrow> (bytes \<times> nat) option \<times> 'w"
  ho_destroy :: "'w \<Rightarrow> 'w"

definition upgrade_cap :: "nat \<Rightarrow> nat" where
  "upgrade_cap rcap =
     (let n = (if rcap = 0 then SEVENT_WS_RECV_DEFAULT else rcap) * 2
      in if n < SEVENT_WS_RECV_MIN * 2 then SEVENT_WS_RECV_MIN * 2 else n)"

definition sevent_ws_upgrade ::
  "('z, 'w) ws_env \<Rightarrow> 'w http_handoff \<Rightarrow> ws_config \<Rightarrow> 'w \<Rightarrow> ((ws_rx \<times> 'z ws_conn) option \<times> 'w) option" where
  "sevent_ws_upgrade env ho cfg w =
     (let (r, w) = ho_release ho w
      in if r \<noteq> 0 then Some (None, w)
         else
           let (have, w) = ho_detach_stream ho w
           in if \<not> have then Some (None, w)
              else if \<not> ho_ev ho w then Some (None, we_stream_destroy env w)
              else
                (case ws_conn_new env cfg False w of
                   (None, w) \<Rightarrow> Some (None, ho_destroy ho (we_stream_destroy env w))
                 | (Some c, w) \<Rightarrow>
                     (let (taken, w) = ho_take_recv ho w;
                          (rbuf, rcap) = (case taken of None \<Rightarrow> ([], 0) | Some t \<Rightarrow> t);
                          newcap = upgrade_cap rcap;
                          (ok, w) = two_bufs env newcap w;
                          c = c\<lparr>wc_stream := True\<rparr>
                      in if \<not> ok then Some (None, ho_destroy ho (ws_conn_abort env (c, w)))
                         else do {
                           let rx = rx0\<lparr>rx_buf := rbuf, rx_cap := newcap\<rparr>;
                           (rx, c, w) \<leftarrow> ws_handshake_data_server env (rx, c, we_set_callbacks env (ws_stream_init rx c) w);
                           Some (if wc_destroyed c then None else Some (rx, c), ho_destroy ho w)
                         })))"

text \<open>\<open>if(r == SEVENT_WS_ERR_WRITE) ws_fatal(c, r); return r;\<close>\<close>

definition report_write :: "('z, 'w) ws_env \<Rightarrow> int \<times> ('z, 'w) wcs \<Rightarrow> int \<times> ('z, 'w) wcs" where
  "report_write env = (\<lambda>(r, cs). (r, if r = SEVENT_WS_ERR_WRITE then ws_fatal env r cs else cs))"

definition sevent_ws_send_text :: "('z, 'w) ws_env \<Rightarrow> bytes option \<Rightarrow> nat \<Rightarrow> ('z, 'w) wcs \<Rightarrow> int \<times> ('z, 'w) wcs" where
  "sevent_ws_send_text env data len cs =
     (if data = None \<and> 0 < len then (SEVENT_ERR_INVAL, cs)
      else if 0 < len \<and> \<not> ws_utf8_validate (take len (the data)) then (SEVENT_ERR_INVAL, cs)
      else report_write env (send_message env WS_OPCODE_TEXT data len cs))"

definition sevent_ws_send_binary :: "('z, 'w) ws_env \<Rightarrow> bytes option \<Rightarrow> nat \<Rightarrow> ('z, 'w) wcs \<Rightarrow> int \<times> ('z, 'w) wcs" where
  "sevent_ws_send_binary env data len cs =
     report_write env (if data \<noteq> None \<or> len = 0 then send_message env WS_OPCODE_BINARY data len cs
                       else (SEVENT_ERR_INVAL, cs))"

definition sevent_ws_ping :: "('z, 'w) ws_env \<Rightarrow> bytes option \<Rightarrow> nat \<Rightarrow> ('z, 'w) wcs \<Rightarrow> int \<times> ('z, 'w) wcs" where
  "sevent_ws_ping env payload len cs =
     (if 125 < len then (SEVENT_ERR_INVAL, cs)
      else report_write env (send_frame env WS_OPCODE_PING payload len cs))"

definition sevent_ws_shutdown :: "('z, 'w) ws_env \<Rightarrow> 16 word \<Rightarrow> string option \<Rightarrow> ('z, 'w) wcs \<Rightarrow> int \<times> ('z, 'w) wcs" where
  "sevent_ws_shutdown env code reason = (\<lambda>(c, w).
     if wc_state c \<noteq> WS_STATE_OPEN then (SEVENT_ERR_INVAL, (c, w))
     else
       let text' = bytes_of (take 123 (case reason of None \<Rightarrow> [] | Some r \<Rightarrow> r));
           (ret, (c, w)) = send_frame env WS_OPCODE_CLOSE
             (Some ([ucast (drop_bit 8 code), ucast code] @ text')) (2 + length text') (c, w);
           c = (if ret = SEVENT_SUCCESS \<and> \<not> wc_destroyed c \<and> wc_state c \<noteq> WS_STATE_CLOSED
                then c\<lparr>wc_state := WS_STATE_CLOSING\<rparr> else c)
       in report_write env (ret, (c, w)))"

definition sevent_ws_close :: "('z, 'w) ws_env \<Rightarrow> ('z, 'w) wcs \<Rightarrow> ('z, 'w) wcs" where
  "sevent_ws_close env = (\<lambda>(c, w).
     ws_stop_ping env (ws_close_socket env (c\<lparr>wc_destroyed := True, wc_state := WS_STATE_CLOSED\<rparr>, w)))"

text \<open>The struct itself is gone after \<open>ws_cleanup_conn\<close>; what is left here is what it owned.\<close>

definition ws_cleanup_conn :: "('z, 'w) ws_env \<Rightarrow> ('z, 'w) wcs \<Rightarrow> ('z, 'w) wcs" where
  "ws_cleanup_conn env = (\<lambda>(c, w).
     (c\<lparr>wc_deflate := None, wc_stream := False\<rparr>, if wc_stream c then we_stream_destroy env w else w))"

definition sevent_ws_destroy :: "('z, 'w) ws_env \<Rightarrow> ('z, 'w) wcs \<Rightarrow> ('z, 'w) wcs" where
  "sevent_ws_destroy env cs =
     (let (c, w) = sevent_ws_close env cs;
          (ok, w) = we_post env w
      in if ok then (c, w) else ws_cleanup_conn env (c, w))"

fun sevent_ws_get_state :: "'z ws_conn option \<Rightarrow> nat" where
  "sevent_ws_get_state None = 3"
| "sevent_ws_get_state (Some c) =
     (case wc_state c of
        WS_STATE_CONNECTING \<Rightarrow> 0 | WS_STATE_HANDSHAKE \<Rightarrow> 0 | WS_STATE_OPEN \<Rightarrow> 1 | WS_STATE_CLOSING \<Rightarrow> 2
      | WS_STATE_CLOSED \<Rightarrow> 3)"

end
