(* ===== verification/Ws_Receive.thy ===== *)
theory Ws_Receive
  imports Ws_Session
begin

unbundle bit_operations_syntax

text \<open>
  Sending and receiving of \<^verbatim>\<open>ws_conn.c\<close> together. The bytes that a send function writes
  for a message, cut into arbitrary chunks by the stream, reach the peer as that message:
  as one callback, or, when the frame is too large to wait for, as a sequence of pieces that
  ends with the only one marked final.
\<close>

section \<open>What a send function writes\<close>

definition wire_frame :: "byte \<Rightarrow> bool \<Rightarrow> bytes option \<Rightarrow> bytes \<Rightarrow> bytes" where
  "wire_frame opcode rsv1 key p =
     the (ws_frame_build_header 1 (if rsv1 then 1 else 0) opcode key (of_nat (length p)))
     @ (case key of None \<Rightarrow> p | Some k \<Rightarrow> ws_frame_apply_mask p k)"

definition send_key :: "'z ws_conn \<Rightarrow> bytes option" where
  "send_key c = (if wc_is_client c then Some (fst (gen_mask_key (wc_mask_seed c))) else None)"

definition after_key :: "'z ws_conn \<Rightarrow> 'z ws_conn" where
  "after_key c = (if wc_is_client c then c\<lparr>wc_mask_seed := snd (gen_mask_key (wc_mask_seed c))\<rparr> else c)"

lemma length_gen_mask_key [simp]: "length (fst (gen_mask_key s)) = 4"
  by (simp add: gen_mask_key_def Let_def)

lemma length_apply_mask [simp]: "length (ws_frame_apply_mask p k) = length p"
  by (simp add: ws_frame_apply_mask_def)

lemma send_key_length: "\<forall>k. send_key c = Some k \<longrightarrow> length k = 4"
  by (simp add: send_key_def)

lemma build_header_ok:
  "\<not> 0x0F < opcode \<Longrightarrow> ws_frame_build_header 1 (if rsv1 then 1 else 0) opcode key len \<noteq> None"
  by (simp add: build_header_eq)

lemma send_frame_raw_wire:
  assumes "wc_state c = WS_STATE_OPEN \<or> wc_state c = WS_STATE_CLOSING \<and> is_ctrl opcode"
    "\<not> 0x0F < opcode" "is_ctrl opcode \<longrightarrow> length p \<le> 125" "\<not> bad_close_payload opcode (Some p) (length p)"
    "we_alloc env (length (wire_frame opcode rsv1 (send_key c) p)) w = (Some block, w1)"
  shows "send_frame_raw env opcode (Some p) (length p) rsv1 (c, w) =
    (case stream_write env (wire_frame opcode rsv1 (send_key c) p) (after_key c, w1) of (rc, cs) \<Rightarrow>
       (if rc = 0 then SEVENT_SUCCESS else if rc = SEVENT_ERR_NOMEM then SEVENT_ERR_NOMEM else SEVENT_WS_ERR_WRITE, cs))"
proof -
  obtain h where h: "ws_frame_build_header 1 (if rsv1 then 1 else 0) opcode (send_key c) (of_nat (length p)) = Some h"
    using build_header_ok [OF assms(2)] by blast
  obtain k s where ks: "gen_mask_key (wc_mask_seed c) = (k, s)" by (rule prod.exhaust)
  have w: "wire_frame opcode rsv1 (send_key c) p = h @ (if wc_is_client c then ws_frame_apply_mask p k else p)"
    using h ks by (simp add: wire_frame_def send_key_def)
  have [simp]: "length p = 0 \<Longrightarrow> ws_frame_apply_mask p k = []" by (simp add: ws_frame_apply_mask_def)
  have ctl: "\<not> (is_ctrl opcode \<and> 125 < length p)" using assms(3) by auto
  obtain rc cs where sw: "stream_write env (wire_frame opcode rsv1 (send_key c) p) (after_key c, w1) = (rc, cs)"
    by (rule prod.exhaust)
  have [simp]: "ws_frame_apply_mask [] k = []" by (simp add: ws_frame_apply_mask_def)
  have st: "(wc_state c = WS_STATE_CLOSING \<and> \<not> is_ctrl opcode) = False"
    "(wc_state c \<noteq> WS_STATE_OPEN \<and> wc_state c \<noteq> WS_STATE_CLOSING) = False"
    "(is_ctrl opcode \<and> 125 < length p) = False" "bad_close_payload opcode (Some p) (length p) = False"
    using assms(1,3,4) by auto
  show ?thesis
  proof (cases "wc_is_client c")
    case True
    note e = True h [unfolded send_key_def] ks assms(5) [unfolded w] sw [unfolded w]
    show ?thesis unfolding send_frame_raw_def w prod.case st if_False
      using e by (cases "p = []"; cases rsv1) (simp_all add: send_key_def after_key_def)
  next
    case False
    note e = False h [unfolded send_key_def] ks assms(5) [unfolded w] sw [unfolded w]
    show ?thesis unfolding send_frame_raw_def w prod.case st if_False
      using e by (cases "p = []"; cases rsv1) (simp_all add: send_key_def after_key_def)
  qed
qed


section \<open>Receiving a frame\<close>

definition quiet :: "('z, 'w) ws_env \<Rightarrow> (ws_event \<Rightarrow> 'w \<Rightarrow> 'w) \<Rightarrow> bool" where
  "quiet env f \<longleftrightarrow> (\<forall>ev cs. we_user env ev cs = (fst cs, f ev (snd cs)))"

lemma quietD: "quiet env f \<Longrightarrow> we_user env ev (c, w) = (c, f ev w)"
  by (simp add: quiet_def)

definition alive :: "'z ws_conn \<Rightarrow> bool" where
  "alive c \<longleftrightarrow> \<not> wc_destroyed c \<and> wc_state c \<noteq> WS_STATE_CLOSED"

definition idle :: "ws_rx \<Rightarrow> bool" where
  "idle rx \<longleftrightarrow> rx_mode rx = WS_MSG_NONE \<and> \<not> rx_compressed rx \<and> rx_pos rx \<le> length (rx_buf rx)"

lemma rx_same [simp]: "rx_pos rx = 0 \<Longrightarrow> rx\<lparr>rx_pos := 0\<rparr> = rx" "rx\<lparr>rx_buf := rx_buf rx\<rparr> = rx"
  by (cases rx; simp)+

lemma on_data_compact:
  assumes "alive c" "wc_state c \<noteq> WS_STATE_HANDSHAKE" "rx_pos rx \<le> length (rx_buf rx)"
    "length (rx_buf rx) - rx_pos rx + length d \<le> rx_cap rx"
  shows "ws_stream_on_data env d (rx, c, w) =
    ws_frame_data env (rx\<lparr>rx_buf := drop (rx_pos rx) (rx_buf rx) @ d, rx_pos := 0\<rparr>, c, w)"
proof (cases "rx_pos rx = 0")
  case True
  have "rx\<lparr>rx_buf := rx_buf rx @ d, rx_pos := 0\<rparr> = rx\<lparr>rx_buf := rx_buf rx @ d\<rparr>" using True by (cases rx) simp
  with True assms show ?thesis by (simp add: ws_stream_on_data_def alive_def)
next
  case False
  with assms have "ws_stream_on_data env d (rx, c, w) =
    ws_frame_data env (rx\<lparr>rx_pos := 0, rx_buf := drop (rx_pos rx) (rx_buf rx) @ d\<rparr>, c, w)"
    by (simp add: ws_stream_on_data_def alive_def)
  also have "rx\<lparr>rx_pos := 0, rx_buf := b\<rparr> = rx\<lparr>rx_buf := b, rx_pos := 0\<rparr>" for b by (cases rx) simp
  finally show ?thesis .
qed

text \<open>The loop of \<open>process_frames\<close> by its rounds.\<close>

lemma process_frames_end:
  "\<not> rx_pos rx < length (rx_buf rx) \<or> wc_state (fst cs) = WS_STATE_CLOSED \<Longrightarrow> process_frames env (rx, cs) = Some (0, (rx, cs))"
  by (subst process_frames.simps) auto

lemma process_frames_step:
  assumes "rx_pos rx < length (rx_buf rx)" "wc_state (fst cs) \<noteq> WS_STATE_CLOSED"
  shows "process_frames env (rx, cs) =
    process_one env (rx, cs) \<bind> (\<lambda>(r, st). case r of Some r \<Rightarrow> Some (r, st) | None \<Rightarrow> process_frames env st)"
  using assms by (subst process_frames.simps) simp

lemma idle_wait:
  assumes "alive c" "rx_pos rx \<le> length (rx_buf rx)"
    "ws_frame_parse_header (drop (rx_pos rx) (rx_buf rx)) hdr_stack = (n, hdr)"
    "n = 0 \<or> 0 < n \<and> \<not> - 1 - of_int n < fh_payload_len hdr
       \<and> length (rx_buf rx) - rx_pos rx < nat n + unat (fh_payload_len hdr) \<and> nat n + unat (fh_payload_len hdr) \<le> rx_cap rx div 2"
  shows "process_frames env (rx, c, w) = Some (0, (rx, c, w))"
proof (cases "rx_pos rx < length (rx_buf rx)")
  case True
  have "process_one env (rx, c, w) = Some (Some 0, (rx, c, w))"
    using assms by (auto simp: process_one_def alive_def)
  with True assms(1) show ?thesis by (simp add: process_frames_step alive_def)
qed (simp add: process_frames_end)

text \<open>A complete unfragmented data frame is one message.\<close>

lemma whole_message:
  assumes q: "quiet env f" and c: "alive c" "wc_on_message c" "fh_mask hdr \<noteq> wc_is_client c"
    and i: "rx_mode rx = WS_MSG_NONE"
    and h: "fh_fin hdr" "\<not> fh_rsv1 hdr" "\<not> fh_rsv2 hdr" "\<not> fh_rsv3 hdr" "fh_opcode hdr \<in> {WS_OPCODE_TEXT, WS_OPCODE_BINARY}"
    and p: "p = (let raw = peek (rx_pos rx + n) (unat (fh_payload_len hdr)) (rx_buf rx)
       in if fh_mask hdr then ws_frame_apply_mask raw (fh_mask_key hdr) else raw)"
      "fh_opcode hdr = WS_OPCODE_TEXT \<longrightarrow> ws_utf8_validate p"
  shows "process_whole env hdr n sz (rx, c, w) =
    Some (None, (rx\<lparr>rx_buf := (if fh_mask hdr then poke (rx_pos rx + n) p (rx_buf rx) else rx_buf rx), rx_pos := rx_pos rx + sz\<rparr>, c,
       f (WsMessage p (fh_opcode hdr = WS_OPCODE_BINARY) True (fh_payload_len hdr)) w))"
proof -
  have op: "fh_opcode hdr AND 0x08 = 0" "fh_opcode hdr \<noteq> WS_OPCODE_CONT" "fh_opcode hdr \<noteq> WS_OPCODE_CLOSE"
    using h(5) by (auto simp: opcode_defs)
  have "rx\<lparr>rx_pos := rx_pos rx + sz\<rparr> = rx\<lparr>rx_buf := rx_buf rx, rx_pos := rx_pos rx + sz\<rparr>" by (cases rx) simp
  moreover have "\<not> wc_destroyed c" "wc_is_client c = (\<not> fh_mask hdr)" using c by (auto simp: alive_def)
  ultimately show ?thesis
    using h op i c(2) p quietD [OF q]
    by (auto simp: process_whole_def rsv_violation_def dispatch_frame_def handle_text_binary_def Let_def)
qed


section \<open>A large frame\<close>

definition unmask :: "bytes option \<Rightarrow> bytes \<Rightarrow> nat \<Rightarrow> bytes" where
  "unmask key bs off = (case key of None \<Rightarrow> bs | Some k \<Rightarrow> ws_frame_apply_mask_offset bs k (of_nat off))"

definition streaming :: "byte \<Rightarrow> bytes option \<Rightarrow> nat \<Rightarrow> nat \<Rightarrow> wlen \<Rightarrow> ws_rx \<Rightarrow> bool" where
  "streaming op key off rem tot rx \<longleftrightarrow>
     rx_mode rx = WS_MSG_STREAM \<and> rx_opcode rx = op \<and> \<not> rx_compressed rx \<and> rx_total rx = tot \<and> \<not> rx_fin_sent rx
     \<and> unat (rx_stream_remaining rx) = rem \<and> rx_stream_fin rx \<and> rx_stream_mask rx = (key \<noteq> None)
     \<and> (\<forall>k. key = Some k \<longrightarrow> rx_stream_mask_key rx = k) \<and> rx_stream_mask_off rx = of_nat off
     \<and> rx_pos rx \<le> length (rx_buf rx)"

lemma streamingD:
  assumes "streaming op key off rem tot rx"
  shows "rx_mode rx = WS_MSG_STREAM" "rx_opcode rx = op" "\<not> rx_compressed rx" "rx_total rx = tot" "\<not> rx_fin_sent rx"
    "rx_stream_fin rx" "rx_stream_remaining rx = of_nat rem" "rem < 2 ^ 64" "unat (rx_stream_remaining rx) = rem"
    "rx_pos rx \<le> length (rx_buf rx)"
proof -
  have "unat (rx_stream_remaining rx) < 2 ^ 64" using unsigned_less [of "rx_stream_remaining rx"] by simp
  moreover have "of_nat (unat (rx_stream_remaining rx)) = rx_stream_remaining rx" by simp
  ultimately show "rx_stream_remaining rx = of_nat rem" "rem < 2 ^ 64" using assms unfolding streaming_def by metis+
qed (use assms in \<open>unfold streaming_def, blast\<close>)+

lemma length_unmask [simp]: "length (unmask key bs off) = length bs"
  by (simp add: unmask_def split: option.split)

lemma stream_unmask_eq:
  assumes "streaming op key off rem tot rx" "stream_chunk rx = length (rx_buf rx) - rx_pos rx"
  shows "stream_unmask rx = rx\<lparr>rx_buf := take (rx_pos rx) (rx_buf rx) @ unmask key (drop (rx_pos rx) (rx_buf rx)) off\<rparr>"
  using assms by (cases key) (auto simp: stream_unmask_def streaming_def unmask_def poke_def peek_def)

lemma stream_round:
  assumes s: "streaming op key off rem tot rx" and q: "quiet env f" and c: "\<not> wc_destroyed c" "wc_on_message c"
    and a: "length (rx_buf rx) = rx_pos rx + a" "0 < a" "a \<le> rx_cap rx" "a \<le> rem"
  defines "rx1 \<equiv> rx\<lparr>rx_buf := take (rx_pos rx) (rx_buf rx) @ unmask key (drop (rx_pos rx) (rx_buf rx)) off,
      rx_fin_sent := (a = rem), rx_pos := length (rx_buf rx), rx_stream_remaining := of_nat (rem - a), rx_stream_mask_off := of_nat (off + a)\<rparr>"
  shows "stream_consume_loop env b (rx, c, w) = Some (False, (rx1, c,
    f (WsMessage (unmask key (drop (rx_pos rx) (rx_buf rx)) off) b (a = rem) (if a = rem then tot else 0)) w))"
proof -
  note st = streamingD [OF s]
  have off: "rx_stream_mask_off rx = of_nat off" using s by (simp add: streaming_def)
  have ch: "stream_chunk rx = a" using a st(9) by (simp add: stream_chunk_def Let_def)
  have pos: "rx_pos rx < length (rx_buf rx)" "0 < rx_stream_remaining rx"
    using a st(9) by (simp_all add: word_less_nat_alt)
  have un: "stream_unmask rx = rx\<lparr>rx_buf := take (rx_pos rx) (rx_buf rx) @ unmask key (drop (rx_pos rx) (rx_buf rx)) off\<rparr>"
    by (rule stream_unmask_eq [OF s]) (simp add: ch a(1))
  have d: "peek (rx_pos rx) a (rx_buf (stream_unmask rx)) = unmask key (drop (rx_pos rx) (rx_buf rx)) off"
    using a(1) by (simp add: un peek_def)
  have adv: "stream_advance a (stream_unmask rx\<lparr>rx_fin_sent := (a = rem)\<rparr>) = rx1"
    unfolding un rx1_def stream_advance_def by (simp add: off st(7) a(1) of_nat_diff [OF a(4)])
  have stop: "stream_consume_loop env b (rx1, c, w') = Some (False, (rx1, c, w'))" for w'
    by (subst stream_consume_loop.simps) (simp add: rx1_def)
  have "rx_compressed (stream_unmask rx) = False" "rx_fin_sent (stream_unmask rx) = False" "rx_total (stream_unmask rx) = tot"
    "rx_pos (stream_unmask rx) = rx_pos rx" using st by (simp_all add: un)
  then show ?thesis
    using adv d by (subst stream_consume_loop.simps; cases "a = rem")
      (simp_all add: pos c quietD [OF q] ch st(1-6,9) stop)
qed

lemma stream_consume_more:
  assumes s: "streaming op key off rem tot rx" and q: "quiet env f" and c: "\<not> wc_destroyed c" "wc_on_message c"
    and a: "length (rx_buf rx) = rx_pos rx + a" "0 < a" "a \<le> rx_cap rx" "a < rem"
  shows "\<exists>rx'. stream_consume env (rx, c, w) =
      Some (rx', c, f (WsMessage (unmask key (drop (rx_pos rx) (rx_buf rx)) off) (op = WS_OPCODE_BINARY) False 0) w)
    \<and> streaming op key (off + a) (rem - a) tot rx' \<and> rx_pos rx' = length (rx_buf rx') \<and> rx_cap rx' = rx_cap rx"
proof -
  have u: "unat (of_nat (rem - a) :: wlen) = rem - a"
    using streamingD(8) [OF s] by (simp add: unat_of_nat take_bit_nat_eq_self)
  then have nz: "of_nat (rem - a) \<noteq> (0 :: wlen)" using a(4) by (metis unsigned_0 zero_less_diff less_numeral_extra(3))
  let ?rx = "rx\<lparr>rx_buf := take (rx_pos rx) (rx_buf rx) @ unmask key (drop (rx_pos rx) (rx_buf rx)) off,
      rx_fin_sent := False, rx_pos := length (rx_buf rx), rx_stream_remaining := of_nat (rem - a), rx_stream_mask_off := of_nat (off + a)\<rparr>"
  have "streaming op key (off + a) (rem - a) tot ?rx"
    using s u unfolding streaming_def by (simp del: of_nat_diff)
  moreover have "length (rx_buf ?rx) = length (rx_buf rx)" using a(1) by simp
  moreover have "stream_consume env (rx, c, w) =
      Some (?rx, c, f (WsMessage (unmask key (drop (rx_pos rx) (rx_buf rx)) off) (op = WS_OPCODE_BINARY) False 0) w)"
    using stream_round [OF s q c a(1-3), of "op = WS_OPCODE_BINARY" w] a(4) nz streamingD(2) [OF s]
    by (simp add: stream_consume_def del: of_nat_diff)
  ultimately show ?thesis by (intro exI [of _ ?rx]) simp
qed

lemma stream_consume_last:
  assumes s: "streaming op key off rem tot rx" and q: "quiet env f" and c: "\<not> wc_destroyed c" "wc_on_message c"
    and a: "length (rx_buf rx) = rx_pos rx + rem" "0 < rem" "rem \<le> rx_cap rx"
  shows "\<exists>rx'. stream_consume env (rx, c, w) =
      Some (rx', c, f (WsMessage (unmask key (drop (rx_pos rx) (rx_buf rx)) off) (op = WS_OPCODE_BINARY) True tot) w)
    \<and> idle rx' \<and> rx_pos rx' = length (rx_buf rx') \<and> rx_cap rx' = rx_cap rx \<and> rx_stream_remaining rx' = 0"
  using stream_round [OF s q c a, of "op = WS_OPCODE_BINARY" w] streamingD [OF s] a(1)
  by (simp add: stream_consume_def msg_end_def msg_reset_def idle_def)

text \<open>Data that arrives while a large frame is being read.\<close>

lemma on_data_streaming:
  assumes s: "streaming op key off rem tot rx" "rx_pos rx = length (rx_buf rx)" and q: "quiet env f"
    and c: "alive c" "wc_state c \<noteq> WS_STATE_HANDSHAKE" "wc_on_message c"
    and d: "length d \<le> rem" "length d \<le> rx_cap rx" "0 < rem"
  shows "\<exists>rx' evs. ws_stream_on_data env d (rx, c, w) = Some (rx', c, fold f evs w) \<and> rx_cap rx' = rx_cap rx
    \<and> rx_pos rx' = length (rx_buf rx')
    \<and> (if length d < rem then streaming op key (off + length d) (rem - length d) tot rx'
         \<and> evs = (if d = [] then [] else [WsMessage (unmask key d off) (op = WS_OPCODE_BINARY) False 0])
       else idle rx' \<and> evs = [WsMessage (unmask key d off) (op = WS_OPCODE_BINARY) True tot])"
proof -
  let ?rx = "rx\<lparr>rx_buf := d, rx_pos := 0\<rparr>"
  have c': "\<not> wc_destroyed c" "wc_state c \<noteq> WS_STATE_CLOSED" using c(1) by (auto simp: alive_def)
  have s': "streaming op key off rem tot ?rx" using s(1) by (simp add: streaming_def)
  have rem: "0 < rx_stream_remaining ?rx" using streamingD(9) [OF s'] d(3) by (simp add: word_less_nat_alt)
  have eq: "ws_stream_on_data env d (rx, c, w) = frame_data_loop env (?rx, c, w) \<bind> (\<lambda>(err, rx, cs). Some (rx, if err \<noteq> 0 then ws_fatal env err cs else cs))"
    using on_data_compact [OF c(1,2), of rx d env w] s(2) d streamingD(1) [OF s(1)] by (simp add: ws_frame_data_def)
  have fin: "frame_data_loop env (rx', c, w') = Some (0, (rx', c, w'))" if "rx_pos rx' = length (rx_buf rx')" for rx' w'
    using that by (subst frame_data_loop.simps) simp
  show ?thesis
  proof (cases "d = []")
    case True
    with fin [of ?rx] s' eq s d(3) show ?thesis by (intro exI [of _ ?rx] exI [of _ "[]"]) simp
  next
    case False
    show ?thesis
    proof (cases "length d < rem")
      case True
      obtain rx' where r: "stream_consume env (?rx, c, w) = Some (rx', c, f (WsMessage (unmask key d off) (op = WS_OPCODE_BINARY) False 0) w)"
        "streaming op key (off + length d) (rem - length d) tot rx'" "rx_pos rx' = length (rx_buf rx')" "rx_cap rx' = rx_cap rx"
        using stream_consume_more [OF s' q c'(1) c(3), of "length d" w] False True d by auto
      have "rx_stream_remaining rx' \<noteq> 0" using streamingD(9) [OF r(2)] True by auto
      then have "frame_data_loop env (?rx, c, w) = Some (0, (rx', c, f (WsMessage (unmask key d off) (op = WS_OPCODE_BINARY) False 0) w))"
        using r False rem fin [OF r(3)] by (subst frame_data_loop.simps) simp
      with r True False eq show ?thesis
        by (intro exI [of _ rx'] exI [of _ "[WsMessage (unmask key d off) (op = WS_OPCODE_BINARY) False 0]"]) simp
    next
      case F: False
      obtain rx' where r: "stream_consume env (?rx, c, w) = Some (rx', c, f (WsMessage (unmask key d off) (op = WS_OPCODE_BINARY) True tot) w)"
        "idle rx'" "rx_pos rx' = length (rx_buf rx')" "rx_cap rx' = rx_cap rx" "rx_stream_remaining rx' = 0"
        using stream_consume_last [OF s' q c'(1) c(3), of w] F d by auto
      have "frame_data_loop env (?rx, c, w) = Some (0, (rx', c, f (WsMessage (unmask key d off) (op = WS_OPCODE_BINARY) True tot) w))"
        using r False rem fin [OF r(3)] by (subst frame_data_loop.simps) (simp add: process_frames_end)
      with r F eq show ?thesis
        by (intro exI [of _ rx'] exI [of _ "[WsMessage (unmask key d off) (op = WS_OPCODE_BINARY) True tot]"]) simp
    qed
  qed
qed


text \<open>What the stream pushes, chunk by chunk.\<close>

fun deliver :: "('z, 'w) ws_env \<Rightarrow> bytes list \<Rightarrow> ('z, 'w) wst \<Rightarrow> ('z, 'w) wst option" where
  "deliver env [] st = Some st"
| "deliver env (d # ds) st = ws_stream_on_data env d st \<bind> deliver env ds"

definition message_events :: "bool \<Rightarrow> bytes \<Rightarrow> wlen \<Rightarrow> ws_event list \<Rightarrow> bool" where
  "message_events b p tot evs \<longleftrightarrow>
     (\<exists>parts l. evs = map (\<lambda>d. WsMessage d b False 0) parts @ [WsMessage l b True tot] \<and> concat parts @ l = p)"

lemma message_events_last: "message_events b p tot [WsMessage p b True tot]"
  unfolding message_events_def by (rule exI [of _ "[]"]) simp

lemma message_events_more:
  "message_events b p tot evs \<Longrightarrow> message_events b (a @ p) tot (WsMessage a b False 0 # evs)"
  unfolding message_events_def by (metis (no_types) append_Cons append_assoc concat.simps(2) list.simps(9))

lemma unmask_append: "unmask key (a @ b) off = unmask key a off @ unmask key b (off + length a)"
  by (simp add: unmask_def apply_mask_offset_append split: option.split)

lemma take_mask: "take n (ws_frame_apply_mask_offset p k off) = ws_frame_apply_mask_offset (take n p) k off"
  by (induction p k off arbitrary: n rule: ws_frame_apply_mask_offset.induct) (simp_all add: take_Cons split: nat.split)

lemma deliver_nothing:
  assumes "alive c" "wc_state c \<noteq> WS_STATE_HANDSHAKE" "concat ds = []"
  shows "idle rx \<Longrightarrow> rx_pos rx = length (rx_buf rx) \<Longrightarrow>
    \<exists>rx'. deliver env ds (rx, c, w) = Some (rx', c, w) \<and> idle rx' \<and> rx_pos rx' = length (rx_buf rx') \<and> rx_cap rx' = rx_cap rx"
  using assms(3)
proof (induction ds arbitrary: rx)
  case (Cons d ds)
  then have d: "d = []" "concat ds = []" by simp_all
  let ?rx = "rx\<lparr>rx_buf := [], rx_pos := 0\<rparr>"
  have "ws_stream_on_data env d (rx, c, w) = Some (?rx, c, w)"
    using on_data_compact [OF assms(1,2), of rx d env w] Cons.prems d
    by (simp add: ws_frame_data_def process_frames_end idle_def)
  moreover have "idle ?rx" using Cons.prems by (simp add: idle_def)
  ultimately show ?case using Cons.IH [of ?rx] d(2) by auto
qed simp

lemma deliver_streaming:
  assumes q: "quiet env f" and c: "alive c" "wc_state c \<noteq> WS_STATE_HANDSHAKE" "wc_on_message c"
    and "\<forall>d \<in> set ds. length d \<le> cap"
  shows "streaming op key off rem tot rx \<Longrightarrow> rx_pos rx = length (rx_buf rx) \<Longrightarrow> rx_cap rx = cap \<Longrightarrow>
    length (concat ds) = rem \<Longrightarrow> 0 < rem \<Longrightarrow>
    \<exists>rx' evs. deliver env ds (rx, c, w) = Some (rx', c, fold f evs w) \<and> idle rx' \<and> rx_pos rx' = length (rx_buf rx')
      \<and> rx_cap rx' = cap \<and> message_events (op = WS_OPCODE_BINARY) (unmask key (concat ds) off) tot evs"
  using assms(5)
proof (induction ds arbitrary: rx off rem w)
  case (Cons d ds)
  have d: "length d \<le> rem" "length d \<le> rx_cap rx" "0 < rem" using Cons.prems by auto
  let ?m = "\<lambda>fin t. WsMessage (unmask key d off) (op = WS_OPCODE_BINARY) fin t"
  obtain rx1 evs1 where r: "ws_stream_on_data env d (rx, c, w) = Some (rx1, c, fold f evs1 w)" "rx_cap rx1 = cap"
    "rx_pos rx1 = length (rx_buf rx1)"
    "if length d < rem then streaming op key (off + length d) (rem - length d) tot rx1 \<and> evs1 = (if d = [] then [] else [?m False 0])
       else idle rx1 \<and> evs1 = [?m True tot]"
    using on_data_streaming [OF Cons.prems(1,2) q c d, of w] Cons.prems(3) by auto
  show ?case
  proof (cases "length d < rem")
    case True
    then obtain rx' evs where i: "deliver env ds (rx1, c, fold f evs1 w) = Some (rx', c, fold f evs (fold f evs1 w))" "idle rx'"
      "rx_pos rx' = length (rx_buf rx')" "rx_cap rx' = cap"
      "message_events (op = WS_OPCODE_BINARY) (unmask key (concat ds) (off + length d)) tot evs"
      using Cons.IH [of "off + length d" "rem - length d" rx1 "fold f evs1 w"] r Cons.prems(4,6) by auto
    have "message_events (op = WS_OPCODE_BINARY) (unmask key (concat (d # ds)) off) tot (evs1 @ evs)"
      using i(5) r(4) True message_events_more [OF i(5)] by (cases "d = []") (auto simp: unmask_append)
    with i r(1) show ?thesis by (intro exI [of _ rx'] exI [of _ "evs1 @ evs"]) simp
  next
    case False
    then have nil: "concat ds = []" and e: "idle rx1" "evs1 = [?m True tot]" using Cons.prems(4) r(4) d by auto
    obtain rx' where "deliver env ds (rx1, c, fold f evs1 w) = Some (rx', c, fold f evs1 w)" "idle rx'"
      "rx_pos rx' = length (rx_buf rx')" "rx_cap rx' = cap"
      using deliver_nothing [OF c(1,2) nil e(1) r(3), of env "fold f evs1 w"] r(2) by auto
    moreover have "message_events (op = WS_OPCODE_BINARY) (unmask key (concat (d # ds)) off) tot evs1"
      using nil e(2) message_events_last by (simp only: concat.simps append_Nil2)
    ultimately show ?thesis using r(1) by (intro exI [of _ rx'] exI [of _ evs1]) simp
  qed
qed simp

lemma size_check:
  assumes "n \<le> 14" "unat (len :: wlen) < 2 ^ 63"
  shows "\<not> - 1 - of_int (int n) < len"
proof -
  define m :: nat where "m = 2 ^ 64 - 1 - n"
  have "(of_nat m :: wlen) = of_nat (2 ^ 64 - 1) - of_nat n"
    unfolding m_def using assms(1) by (intro of_nat_diff) simp
  then have "- 1 - of_int (int n) = (of_nat m :: wlen)" by simp
  moreover have "unat (of_nat m :: wlen) = m" by (simp add: unat_of_nat take_bit_nat_eq_self m_def)
  moreover have "2 ^ 63 \<le> m" using assms(1) by (simp add: m_def)
  ultimately show ?thesis using assms(2) by (simp add: word_less_nat_alt)
qed

section \<open>The frame of one message\<close>

lemma wire_frame_parse:
  assumes "op \<in> {WS_OPCODE_TEXT, WS_OPCODE_BINARY}" "length p < 2 ^ 63" "\<forall>k. key = Some k \<longrightarrow> length k = 4"
  obtains h where "wire_frame op rsv1 key p = h @ unmask key p 0" "2 \<le> length h" "length h \<le> 14"
    "\<And>rest. ws_frame_parse_header (h @ rest) hdr_stack = (int (length h), header_of True rsv1 op key (of_nat (length p)) hdr_stack)"
    "\<And>k. k < length h \<Longrightarrow> fst (ws_frame_parse_header (take k h) hdr_stack) = 0"
proof -
  have op: "\<not> 0x0F < op" using assms(1) by (auto simp: opcode_defs)
  obtain h where h: "ws_frame_build_header 1 (if rsv1 then 1 else 0) op key (of_nat (length p)) = Some h"
    using build_header_ok [OF op] by blast
  have "(of_nat (length p) :: wlen) < 2 ^ 63"
    using assms(2) by (simp add: word_less_nat_alt unat_of_nat take_bit_nat_eq_self)
  note pb = parse_build [OF h this assms(3), where hdr = hdr_stack]
  show thesis
  proof
    show "wire_frame op rsv1 key p = h @ unmask key p 0"
      using h by (simp add: wire_frame_def unmask_def ws_frame_apply_mask_def split: option.split)
    show "ws_frame_parse_header (h @ rest) hdr_stack = (int (length h), header_of True rsv1 op key (of_nat (length p)) hdr_stack)" for rest
      using pb by simp
    have "h \<noteq> []" using h by (auto simp: build_header_eq split: if_splits)
    then show "2 \<le> length h" "length h \<le> 14" using parse_bounds [of h hdr_stack] pb [of "[]"] by auto
    show "fst (ws_frame_parse_header (take k h) hdr_stack) = 0" if "k < length h" for k
      using that parse_proper_prefix [of k h hdr_stack] pb [of "[]"] by simp
  qed
qed


text \<open>Data that arrives while a frame is waited for.\<close>

lemma on_data_waiting:
  assumes fr: "wire_frame op False key p = h @ unmask key p 0" "length h \<le> 14" "length p < 2 ^ 63"
      "\<And>rest. ws_frame_parse_header (h @ rest) hdr_stack = (int (length h), header_of True False op key (of_nat (length p)) hdr_stack)"
      "\<And>k. k < length h \<Longrightarrow> fst (ws_frame_parse_header (take k h) hdr_stack) = 0" "0 < length h"
    and op: "op \<in> {WS_OPCODE_TEXT, WS_OPCODE_BINARY}" "op = WS_OPCODE_TEXT \<longrightarrow> ws_utf8_validate p"
    and q: "quiet env f" and c: "alive c" "wc_state c \<noteq> WS_STATE_HANDSHAKE" "wc_on_message c" "wc_is_client c = (key = None)"
    and i: "idle rx" "28 \<le> rx_cap rx" and b: "drop (rx_pos rx) (rx_buf rx) = take k F" "k < length F"
      "k < length h \<or> length F \<le> rx_cap rx div 2"
    and d: "take k F @ d = take (k + length d) F" "length d \<le> rx_cap rx div 2" "k + length d \<le> length F"
    and F: "F = wire_frame op False key p"
  defines "n \<equiv> k + length d - length h"
  shows "\<exists>rx' evs. ws_stream_on_data env d (rx, c, w) = Some (rx', c, fold f evs w) \<and> rx_cap rx' = rx_cap rx
    \<and> (if k + length d = length F then idle rx' \<and> rx_pos rx' = length (rx_buf rx')
         \<and> evs = [WsMessage p (op = WS_OPCODE_BINARY) True (of_nat (length p))]
       else if k + length d < length h \<or> length F \<le> rx_cap rx div 2
       then idle rx' \<and> drop (rx_pos rx') (rx_buf rx') = take (k + length d) F \<and> evs = []
       else streaming op key n (length F - (k + length d)) (of_nat (length p)) rx' \<and> rx_pos rx' = length (rx_buf rx')
         \<and> evs = (if n = 0 then [] else [WsMessage (take n p) (op = WS_OPCODE_BINARY) False 0]))"
    (is "\<exists>rx' evs. _ \<and> _ \<and> ?concl rx' evs")
proof -
  let ?k = "k + length d"
  let ?rx = "rx\<lparr>rx_buf := take ?k F, rx_pos := 0\<rparr>"
  let ?H = "header_of True False op key (of_nat (length p)) hdr_stack"
  have F': "F = h @ unmask key p 0" using F fr(1) by simp
  have len: "unat (of_nat (length p) :: wlen) = length p"
    using fr(3) by (simp add: unat_of_nat take_bit_nat_eq_self)
  have "length (drop (rx_pos rx) (rx_buf rx)) = k" unfolding b(1) using b(2) by simp
  then have kc: "length (rx_buf rx) - rx_pos rx \<le> rx_cap rx div 2" "k \<le> rx_cap rx div 2" using b(2,3) i(2) fr(2) by auto
  have eq: "ws_stream_on_data env d (rx, c, w) = process_frames env (?rx, c, w) \<bind> (\<lambda>(err, rx, cs). Some (rx, if err \<noteq> 0 then ws_fatal env err cs else cs))"
    using on_data_compact [OF c(1,2), of rx d env w] kc i d b(1) by (simp add: ws_frame_data_def idle_def)
  have parse: "ws_frame_parse_header (take ?k F) hdr_stack = (int (length h), ?H)" if "length h \<le> ?k"
    using that fr(4) [of "take (?k - length h) (unmask key p 0)"] by (simp add: F')
  note small = size_check [OF fr(2), of "of_nat (length p)", unfolded len, OF fr(3)]
  consider (full) "?k = length F" | (wait) "?k < length F" "?k < length h \<or> length F \<le> rx_cap rx div 2"
    | (big) "?k < length F" "length h \<le> ?k" "rx_cap rx div 2 < length F" using d(3) by linarith
  then show ?thesis
  proof cases
    case full
    then have rx: "?rx = rx\<lparr>rx_buf := F, rx_pos := 0\<rparr>" and ne: "0 < length F" and hk: "length h \<le> ?k" using F' fr(6) by auto
    let ?w = "f (WsMessage p (op = WS_OPCODE_BINARY) True (of_nat (length p))) w"
    let ?buf = "if fh_mask ?H then poke (length h) p F else F"
    have "p = (let raw = peek (rx_pos ?rx + length h) (unat (fh_payload_len ?H)) (rx_buf ?rx)
       in if fh_mask ?H then ws_frame_apply_mask raw (fh_mask_key ?H) else raw)"
      unfolding rx by (cases key) (simp_all add: peek_def F' len header_of_def unmask_def ws_frame_apply_mask_def apply_mask_offset_involutive)
    from whole_message [OF q c(1,3) _ _ _ _ _ _ _ this, of "length F" w] op c(4) i(1)
    have "process_whole env ?H (length h) (length F) (?rx, c, w) = Some (None, (?rx\<lparr>rx_buf := ?buf, rx_pos := length F\<rparr>, c, ?w))"
      unfolding rx by (auto simp: header_of_def idle_def)
    moreover have "process_one env (?rx, c, w) = process_whole env ?H (length h) (length F) (?rx, c, w)"
      using parse [OF hk] small c(1) fr(6) full unfolding process_one_def
      by (simp add: alive_def header_of_def len F')
    moreover have "length ?buf = length F" by (auto simp: poke_def F')
    ultimately have "process_frames env (?rx, c, w) = Some (0, (?rx\<lparr>rx_buf := ?buf, rx_pos := length F\<rparr>, c, ?w))"
      using ne c(1) unfolding rx by (simp add: process_frames_step process_frames_end alive_def)
    moreover have "idle (?rx\<lparr>rx_buf := ?buf, rx_pos := length F\<rparr>)" "length ?buf = length F"
      using i(1) by (auto simp: idle_def poke_def F')
    ultimately show ?thesis using full
      by (intro exI [of _ "?rx\<lparr>rx_buf := ?buf, rx_pos := length F\<rparr>"] exI [of _ "[WsMessage p (op = WS_OPCODE_BINARY) True (of_nat (length p))]"])
        (simp add: eq)
  next
    case wait
    have "process_frames env (?rx, c, w) = Some (0, (?rx, c, w))"
    proof (cases "?k < length h")
      case True
      then obtain hdr where "ws_frame_parse_header (take ?k F) hdr_stack = (0, hdr)"
        using fr(5) F' by (metis append_eq_append_conv2 prod.collapse take_append diff_is_0_eq less_imp_le_nat take0 append_Nil2)
      then show ?thesis by (intro idle_wait [OF c(1), where hdr = hdr and n = 0]) simp_all
    next
      case False
      with parse wait small show ?thesis
        by (intro idle_wait [OF c(1)]) (auto simp: F' header_of_def len)
    qed
    with wait i(1) show ?thesis
      by (intro exI [of _ ?rx] exI [of _ "[]"]) (auto simp: eq idle_def)
  next
    case big
    let ?big = "?rx\<lparr>rx_opcode := op, rx_fin_sent := False, rx_compressed := False, rx_mode := WS_MSG_STREAM,
      rx_stream_remaining := of_nat (length p), rx_stream_fin := True, rx_stream_mask := (key \<noteq> None),
      rx_stream_mask_key := (case key of None \<Rightarrow> rx_stream_mask_key rx | Some k \<Rightarrow> k), rx_stream_mask_off := 0,
      rx_total := of_nat (length p), rx_pos := length h\<rparr>"
    have k: "?k = length h + n" "n < length p" "length F = length h + length p" using big by (auto simp: n_def F')
    have buf: "take ?k F = h @ take n (unmask key p 0)" by (simp add: F' k(1))
    have s0: "streaming op key 0 (length p) (of_nat (length p)) ?big"
      using i(1) big(2) by (auto simp: streaming_def idle_def len buf split: option.split)
    have "process_big env ?H (length h) (?rx, c, w) = stream_consume env (?big, c, w) \<bind> (\<lambda>st. Some (Some 0, st))"
      using i(1) op(1) c(4) by (cases key) (auto simp: process_big_def header_of_def idle_def opcode_defs)
    moreover have "process_one env (?rx, c, w) = process_big env ?H (length h) (?rx, c, w)"
      using parse [OF big(2)] small c(1) fr(6) big k unfolding process_one_def
      by (simp add: alive_def header_of_def len)
    moreover have "rx_pos ?rx < length (rx_buf ?rx)" using big fr(6) by auto
    ultimately have pf: "process_frames env (?rx, c, w) = stream_consume env (?big, c, w) \<bind> (\<lambda>st. Some (0, st))"
      using c(1) process_frames_step [of ?rx "(c, w)" env] by (simp add: alive_def)
    have data: "unmask key (drop (rx_pos ?big) (rx_buf ?big)) 0 = take n p"
      using k(2) by (cases key) (simp_all add: buf unmask_def take_mask apply_mask_offset_involutive)
    have "\<exists>rx'. stream_consume env (?big, c, w) = Some (rx', c, fold f (if n = 0 then [] else [WsMessage (take n p) (op = WS_OPCODE_BINARY) False 0]) w)
      \<and> streaming op key n (length p - n) (of_nat (length p)) rx' \<and> rx_pos rx' = length (rx_buf rx') \<and> rx_cap rx' = rx_cap rx"
    proof (cases "n = 0")
      case True
      then have "stream_consume env (?big, c, w) = Some (?big, c, w)"
        using k(2) len by (auto simp: stream_consume_def stream_consume_loop.simps buf)
      with True s0 show ?thesis by (intro exI [of _ ?big]) (simp add: buf)
    next
      case False
      have "length (rx_buf ?big) = rx_pos ?big + n" "n \<le> rx_cap ?big" using k kc(2) d(2) by (auto simp: buf)
      with stream_consume_more [OF s0 q _ c(3), of n w] False k(2) c(1) data show ?thesis by (auto simp: alive_def)
    qed
    then obtain rx' where r: "stream_consume env (?big, c, w) = Some (rx', c, fold f (if n = 0 then [] else [WsMessage (take n p) (op = WS_OPCODE_BINARY) False 0]) w)"
      "streaming op key n (length p - n) (of_nat (length p)) rx'" "rx_pos rx' = length (rx_buf rx')" "rx_cap rx' = rx_cap rx" by blast
    let ?evs = "if n = 0 then [] else [WsMessage (take n p) (op = WS_OPCODE_BINARY) False 0]"
    have "ws_stream_on_data env d (rx, c, w) = Some (rx', c, fold f ?evs w)" unfolding eq pf r(1) by simp
    moreover have "?k \<noteq> length F" "\<not> (?k < length h \<or> length F \<le> rx_cap rx div 2)" "length F - ?k = length p - n" using big k by auto
    ultimately show ?thesis using r(2-4) by (intro exI [of _ rx'] exI [of _ ?evs]) simp
  qed
qed

section \<open>One message, however it is cut\<close>

lemma deliver_message:
  assumes op: "op \<in> {WS_OPCODE_TEXT, WS_OPCODE_BINARY}" "op = WS_OPCODE_TEXT \<longrightarrow> ws_utf8_validate p"
    and p: "length p < 2 ^ 63" "\<forall>k. key = Some k \<longrightarrow> length k = 4"
    and q: "quiet env f" and c: "alive c" "wc_state c \<noteq> WS_STATE_HANDSHAKE" "wc_on_message c" "wc_is_client c = (key = None)"
    and cap: "28 \<le> cap" and F: "F = wire_frame op False key p"
  shows "idle rx \<Longrightarrow> rx_cap rx = cap \<Longrightarrow> drop (rx_pos rx) (rx_buf rx) = take k F \<Longrightarrow> k < length F \<Longrightarrow>
    k < length F - length p \<or> length F \<le> cap div 2 \<Longrightarrow> concat ds = drop k F \<Longrightarrow> \<forall>d \<in> set ds. length d \<le> cap div 2 \<Longrightarrow>
    \<exists>rx' evs. deliver env ds (rx, c, w) = Some (rx', c, fold f evs w) \<and> idle rx' \<and> rx_pos rx' = length (rx_buf rx')
      \<and> rx_cap rx' = cap \<and> message_events (op = WS_OPCODE_BINARY) p (of_nat (length p)) evs"
proof (induction ds arbitrary: rx k w)
  case Nil
  then show ?case by simp
next
  case (Cons d ds)
  obtain h where h: "wire_frame op False key p = h @ unmask key p 0" "2 \<le> length h" "length h \<le> 14"
    "\<And>rest. ws_frame_parse_header (h @ rest) hdr_stack = (int (length h), header_of True False op key (of_nat (length p)) hdr_stack)"
    "\<And>k. k < length h \<Longrightarrow> fst (ws_frame_parse_header (take k h) hdr_stack) = 0"
    using wire_frame_parse [OF op(1) p] by metis
  have Fl: "length F - length p = length h" "length F = length h + length p" "0 < length h" using F h(1,2) by auto
  have tk: "take k F @ d @ concat ds = F" using Cons.prems(6) by (metis append_take_drop_id concat.simps(2))
  have lenF: "k + length d + length (concat ds) = length F" using arg_cong [OF tk, of length] Cons.prems(4) by simp
  have dk: "drop k F = d @ concat ds" using Cons.prems(6) by simp
  have d: "take k F @ d = take (k + length d) F" "length d \<le> rx_cap rx div 2" "k + length d \<le> length F"
    using lenF Cons.prems(2,7) by (auto simp: take_add dk)
  have rest: "concat ds = drop (k + length d) F"
    using drop_drop [of "length d" k F] by (simp add: dk add.commute)
  define n where "n = k + length d - length h"
  obtain rx1 evs1 where r: "ws_stream_on_data env d (rx, c, w) = Some (rx1, c, fold f evs1 w)" "rx_cap rx1 = cap"
    "if k + length d = length F then idle rx1 \<and> rx_pos rx1 = length (rx_buf rx1)
         \<and> evs1 = [WsMessage p (op = WS_OPCODE_BINARY) True (of_nat (length p))]
       else if k + length d < length h \<or> length F \<le> cap div 2
       then idle rx1 \<and> drop (rx_pos rx1) (rx_buf rx1) = take (k + length d) F \<and> evs1 = []
       else streaming op key n (length F - (k + length d)) (of_nat (length p)) rx1 \<and> rx_pos rx1 = length (rx_buf rx1)
         \<and> evs1 = (if n = 0 then [] else [WsMessage (take n p) (op = WS_OPCODE_BINARY) False 0])"
    using on_data_waiting [OF h(1,3) p(1) h(4,5) Fl(3) op q c Cons.prems(1) _ Cons.prems(3,4) _ d F, of w, folded n_def] Cons.prems(2,5) cap Fl(1)
    by auto
  consider (full) "k + length d = length F" | (wait) "k + length d < length F" "k + length d < length h \<or> length F \<le> cap div 2"
    | (big) "k + length d < length F" "length h \<le> k + length d" "\<not> length F \<le> cap div 2" using d(3) by linarith
  then show ?case
  proof cases
    case full
    then have nil: "concat ds = []" using lenF by simp
    have e: "idle rx1" "rx_pos rx1 = length (rx_buf rx1)" "evs1 = [WsMessage p (op = WS_OPCODE_BINARY) True (of_nat (length p))]"
      using r(3) full by auto
    obtain rx' where "deliver env ds (rx1, c, fold f evs1 w) = Some (rx', c, fold f evs1 w)" "idle rx'"
      "rx_pos rx' = length (rx_buf rx')" "rx_cap rx' = cap"
      using deliver_nothing [OF c(1,2) nil e(1,2), of env "fold f evs1 w"] r(2) by auto
    with r(1) e(3) message_events_last show ?thesis by (intro exI [of _ rx'] exI [of _ evs1]) simp
  next
    case wait
    then have e: "idle rx1" "drop (rx_pos rx1) (rx_buf rx1) = take (k + length d) F" "evs1 = []" using r(3) by (auto split: if_splits)
    have w': "k + length d < length F - length p \<or> length F \<le> cap div 2" using wait(2) Fl(1) by simp
    show ?thesis using Cons.IH [OF e(1) r(2) e(2) wait(1) w' rest, of w] Cons.prems(7) r(1) e(3) by auto
  next
    case big
    then have e: "streaming op key n (length F - (k + length d)) (of_nat (length p)) rx1" "rx_pos rx1 = length (rx_buf rx1)"
      "evs1 = (if n = 0 then [] else [WsMessage (take n p) (op = WS_OPCODE_BINARY) False 0])" using r(3) by auto
    have "\<forall>d\<in>set ds. length d \<le> cap" using Cons.prems(7) by auto
    moreover have "length (concat ds) = length F - (k + length d)" "0 < length F - (k + length d)" using lenF big(1) by auto
    ultimately obtain rx' evs where i: "deliver env ds (rx1, c, fold f evs1 w) = Some (rx', c, fold f evs (fold f evs1 w))" "idle rx'"
      "rx_pos rx' = length (rx_buf rx')" "rx_cap rx' = cap"
      "message_events (op = WS_OPCODE_BINARY) (unmask key (concat ds) n) (of_nat (length p)) evs"
      using deliver_streaming [OF q c(1-3) _ e(1,2) r(2), of ds "fold f evs1 w"] by blast
    have "unmask key (concat ds) n = drop n p"
    proof -
      have "concat ds = drop n (unmask key p 0)" using rest h(1) F big(2) by (simp add: n_def)
      moreover have "unmask key (drop n (unmask key p 0)) n = drop n p"
      proof -
        have "unmask key p 0 = unmask key (take n p) 0 @ unmask key (drop n p) (length (take n p))"
          using unmask_append [of key "take n p" "drop n p" 0] by simp
        moreover have "length (take n p) = n" using big(1) Fl(2) by (simp add: n_def)
        ultimately show ?thesis by (cases key) (simp_all add: unmask_def apply_mask_offset_involutive)
      qed
      ultimately show ?thesis by simp
    qed
    with i(5) e(3) message_events_more [of _ "drop n p" _ evs "take n p"]
    have "message_events (op = WS_OPCODE_BINARY) p (of_nat (length p)) (evs1 @ evs)" by (cases "n = 0") auto
    with i r(1) show ?thesis by (intro exI [of _ rx'] exI [of _ "evs1 @ evs"]) simp
  qed
qed

section \<open>Examples\<close>

text \<open>A world that logs: what was written, what the user was told.\<close>

record demo_world =
  dw_sent :: "bytes list"
  dw_told :: "ws_event list"

definition demo_zlib :: "unit zlib" where
  "demo_zlib = \<lparr>zl_deflate_init = (\<lambda>_ _. None), zl_inflate_init = (\<lambda>_. None),
     zl_deflate = (\<lambda>_ _ _ z. (\<lparr>zr_rc = Z_FAIL, zr_in = 0, zr_out = []\<rparr>, z)),
     zl_inflate = (\<lambda>_ _ _ z. (\<lparr>zr_rc = Z_FAIL, zr_in = 0, zr_out = []\<rparr>, z)),
     zl_deflate_reset = (\<lambda>z. z), zl_inflate_reset = (\<lambda>z. z), zl_deflate_bound = (\<lambda>_ n. n)\<rparr>"

definition demo_env :: "(unit, demo_world) ws_env" where
  "demo_env =
     \<lparr>we_zlib = demo_zlib,
      we_user = (\<lambda>ev (c, w). (c, w\<lparr>dw_told := dw_told w @ [ev]\<rparr>)),
      we_alloc = (\<lambda>n w. (Some (replicate n 0), w)),
      we_write = (\<lambda>bs w. (0, None, w\<lparr>dw_sent := dw_sent w @ [bs]\<rparr>)),
      we_close = (\<lambda>w. w), we_shutdown_wr = (\<lambda>w. w),
      we_open = (\<lambda>_ _ _ w. (0, w)), we_accept = (\<lambda>_ _ w. (0, w)), we_create = (\<lambda>_ w. (True, w)),
      we_stream_destroy = (\<lambda>w. w), we_set_callbacks = (\<lambda>_ w. w),
      we_timer_register = (\<lambda>_ w. (Some 1, w)), we_timer_unregister = (\<lambda>_ w. w),
      we_post = (\<lambda>w. (True, w)), we_new = (\<lambda>w. (Some 1, w)), we_random = (\<lambda>w. ((None, 1), w))\<rparr>"

definition demo_cfg :: ws_config where
  "demo_cfg =
     \<lparr>cf_host = Some ''127.0.0.1'', cf_port = 80, cf_path = Some ''/ws'', cf_sub_protocol = None,
      cf_ping_interval_ms = 0, cf_connect_timeout_ms = 0, cf_recv_buf_size = 0, cf_enable_deflate = False,
      cf_deflate_level = 0, cf_request_client_nct = False, cf_request_server_nct = False,
      cf_request_client_max_wb = 0, cf_request_server_max_wb = 0,
      cf_stream = \<lparr>sc_enable_tls = False, sc_ca_path = None, sc_ca_pem = None, sc_cert_path = None, sc_cert_pem = None,
        sc_key_path = None, sc_key_pem = None, sc_enable_peer_verify = False, sc_enable_hostname_verify = False,
        sc_tls_hostname = None\<rparr>,
      cf_on_open = True, cf_on_message = True, cf_on_close = True, cf_on_error = True, cf_on_pong = True,
      cf_on_http_response = False\<rparr>"

definition demo_world0 :: demo_world where "demo_world0 = \<lparr>dw_sent = [], dw_told = []\<rparr>"

definition demo_conn :: "bool \<Rightarrow> ws_state \<Rightarrow> unit ws_conn" where
  "demo_conn is_client st = (the (fst (ws_conn_new demo_env demo_cfg is_client demo_world0)))\<lparr>wc_stream := True, wc_state := st\<rparr>"

lemmas demo_defs = demo_env_def demo_zlib_def demo_cfg_def demo_world0_def demo_conn_def ws_conn_new_def copy_str_def

lemma demo_conn_sel [simp]:
  "wc_state (demo_conn r st) = st" "wc_is_client (demo_conn r st) = r" "\<not> wc_destroyed (demo_conn r st)"
  "wc_on_message (demo_conn r st)" "wc_deflate (demo_conn r st) = None" "wc_mask_seed (demo_conn r st) = 1"
  by (simp_all add: demo_defs)

lemma demo_env_sel [simp]:
  "we_alloc demo_env n w = (Some (replicate n 0), w)" "we_write demo_env bs w = (0, None, w\<lparr>dw_sent := dw_sent w @ [bs]\<rparr>)"
  "we_user demo_env ev cs = (fst cs, (snd cs)\<lparr>dw_told := dw_told (snd cs) @ [ev]\<rparr>)" "we_close demo_env w = w"
  by (simp_all add: demo_env_def case_prod_beta)

lemma demo_quiet: "quiet demo_env (\<lambda>ev w. w\<lparr>dw_told := dw_told w @ [ev]\<rparr>)"
  by (simp add: quiet_def)

section \<open>Properties\<close>

text \<open>
  C27. A message that is sent is the message that is received. On an open connection without
  compression \<open>sevent_ws_send_text\<close> and \<open>sevent_ws_send_binary\<close> succeed and hand one
  frame to the stream. Whichever way the stream cuts these bytes into chunks of at most half
  the receive buffer, a peer of the other role whose callback does not call back returns from
  \<open>ws_stream_on_data\<close> for every chunk, reports exactly this payload with exactly one final
  callback that carries its length, and is ready for the next message. Text is valid UTF-8.
\<close>

theorem ws_message_roundtrip:
  assumes snd: "wc_state s = WS_STATE_OPEN" "wc_deflate s = None" "length p < 2 ^ 63" "\<not> bin \<longrightarrow> ws_utf8_validate p"
    "bs = wire_frame (if bin then WS_OPCODE_BINARY else WS_OPCODE_TEXT) False (send_key s) p"
    "we_alloc env1 (length bs) u = (Some block, u1)" "we_write env1 bs u1 = (0, None, u2)"
    and rcv: "quiet env2 f" "alive c" "wc_state c \<noteq> WS_STATE_HANDSHAKE" "wc_on_message c" "wc_is_client c \<noteq> wc_is_client s"
    "idle rx" "rx_pos rx = length (rx_buf rx)" "28 \<le> rx_cap rx"
    and cut: "concat ds = bs" "\<forall>d \<in> set ds. length d \<le> rx_cap rx div 2"
  shows "(if bin then sevent_ws_send_binary else sevent_ws_send_text) env1 (Some p) (length p) (s, u)
      = (SEVENT_SUCCESS, (after_key s, u2))
    \<and> (\<exists>rx' evs. deliver env2 ds (rx, c, w) = Some (rx', c, fold f evs w)
         \<and> message_events bin p (of_nat (length p)) evs \<and> idle rx' \<and> rx_pos rx' = length (rx_buf rx') \<and> rx_cap rx' = rx_cap rx)"
proof -
  let ?op = "if bin then WS_OPCODE_BINARY else WS_OPCODE_TEXT"
  have op: "?op \<in> {WS_OPCODE_TEXT, WS_OPCODE_BINARY}" "\<not> is_ctrl ?op" "\<not> 0x0F < ?op" "(?op = WS_OPCODE_BINARY) = bin" "?op \<noteq> WS_OPCODE_CLOSE"
    by (auto simp: is_ctrl_def opcode_defs)
  have "send_frame_raw env1 ?op (Some p) (length p) False (s, u) = (SEVENT_SUCCESS, (after_key s, u2))"
    using send_frame_raw_wire [of s ?op p env1 False u block u1] snd op(2,3,5)
    by (simp add: bad_close_payload_def stream_write_def)
  then have "send_message env1 ?op (Some p) (length p) (s, u) = (SEVENT_SUCCESS, (after_key s, u2))"
    using snd(2) by (simp add: send_message_def send_frame_def)
  moreover have "SEVENT_SUCCESS \<noteq> SEVENT_WS_ERR_WRITE" by (simp add: err_defs ws_err_defs)
  ultimately have "(if bin then sevent_ws_send_binary else sevent_ws_send_text) env1 (Some p) (length p) (s, u)
      = (SEVENT_SUCCESS, (after_key s, u2))"
    using snd(4) by (simp add: sevent_ws_send_binary_def sevent_ws_send_text_def report_write_def split: if_splits)
  moreover obtain h where "bs = h @ unmask (send_key s) p 0" "2 \<le> length h"
    using wire_frame_parse [OF op(1) snd(3) send_key_length [of s], of False] snd(5) by metis
  then have "0 < length bs" "0 < length bs - length p" by auto
  moreover have "?op = WS_OPCODE_TEXT \<longrightarrow> ws_utf8_validate p" "wc_is_client c = (send_key s = None)"
    using snd(4) rcv(5) by (auto simp: opcode_defs send_key_def)
  ultimately show ?thesis
    using deliver_message [OF op(1) _ snd(3) send_key_length rcv(1-4) _ rcv(8) snd(5) rcv(6) refl, of 0 ds w] rcv(7) cut
    unfolding op(4) by auto
qed

theorem ws_message_roundtrip_witness:
  "\<exists>rx' evs. deliver demo_env (map (\<lambda>b. [b]) (wire_frame WS_OPCODE_TEXT False (send_key (demo_conn True WS_STATE_OPEN)) [72, 105]))
        (rx0\<lparr>rx_cap := 1024\<rparr>, demo_conn False WS_STATE_OPEN, demo_world0) =
      Some (rx', demo_conn False WS_STATE_OPEN, fold (\<lambda>ev w. w\<lparr>dw_told := dw_told w @ [ev]\<rparr>) evs demo_world0)
    \<and> message_events False [72, 105] 2 evs"
proof -
  let ?s = "demo_conn True WS_STATE_OPEN" and ?c = "demo_conn False WS_STATE_OPEN" and ?rx = "rx0\<lparr>rx_cap := 1024\<rparr>"
  let ?bs = "wire_frame WS_OPCODE_TEXT False (send_key ?s) [72, 105]"
  have cut: "concat (map (\<lambda>b. [b]) xs) = xs" for xs :: bytes by (induction xs) simp_all
  have utf: "ws_utf8_validate [72, 105]" by code_simp
  have rx: "alive ?c" "idle ?rx" "rx_pos ?rx = length (rx_buf ?rx)" "28 \<le> rx_cap ?rx" "\<forall>d \<in> set (map (\<lambda>b. [b]) ?bs). length d \<le> rx_cap ?rx div 2"
    by (auto simp: alive_def idle_def rx0_def)
  show ?thesis
    using ws_message_roundtrip [of ?s "[72, 105]" False ?bs demo_env demo_world0 _ _ _ demo_env _ ?c ?rx "map (\<lambda>b. [b]) ?bs" demo_world0,
        OF _ _ _ _ _ demo_env_sel(1) demo_env_sel(2) demo_quiet rx(1)] rx(2-) utf cut
    by auto
qed

end
