(* ===== verification/Ws_Safety.thy ===== *)
theory Ws_Safety
  imports Ws_Receive
begin

unbundle bit_operations_syntax

text \<open>
  Safety of the receive side of \<^verbatim>\<open>ws_conn.c\<close>. Whatever bytes arrive and whatever the callbacks
  do through the public functions, the receive function returns and the indices and lengths it
  leaves in its buffers stay within their capacity; a frame that breaks the protocol closes the
  connection. A small calculus for functions that may not return carries the proofs through the
  receive state machine.
\<close>

section \<open>What callbacks may change\<close>

text \<open>
  A callback reaches the connection through the public functions only. It does not change the
  role, the callbacks or whether there is compression; it never brings a closed or destroyed
  connection back, nor an open one into the handshake. \<open>api_keeps\<close> below shows this for every
  public function.
\<close>

definition framing :: "'z ws_conn \<Rightarrow> bool" where
  "framing c \<longleftrightarrow> wc_state c \<in> {WS_STATE_OPEN, WS_STATE_CLOSING, WS_STATE_CLOSED}"

definition keeps :: "'z ws_conn \<Rightarrow> 'z ws_conn \<Rightarrow> bool" where
  "keeps c c' \<longleftrightarrow> wc_is_client c' = wc_is_client c \<and> wc_on_message c' = wc_on_message c
     \<and> (wc_deflate c' = None) = (wc_deflate c = None) \<and> (alive c' \<longrightarrow> alive c) \<and> (framing c \<longrightarrow> framing c')"

definition user_ok :: "('z, 'w) ws_env \<Rightarrow> bool" where
  "user_ok env \<longleftrightarrow> (\<forall>ev cs. keeps (fst cs) (fst (we_user env ev cs)))"

lemma keeps_refl [simp]: "keeps c c" by (simp add: keeps_def)

lemma keeps_trans: "keeps a b \<Longrightarrow> keeps b c \<Longrightarrow> keeps a c" by (auto simp: keeps_def)

lemma user_keeps: "user_ok env \<Longrightarrow> keeps c (fst cs) \<Longrightarrow> keeps c (fst (we_user env ev cs))"
  unfolding user_ok_def using keeps_trans by blast

lemma keeps_upd:
  "keeps c c' \<Longrightarrow> keeps c (c'\<lparr>wc_state := WS_STATE_CLOSED\<rparr>)" "keeps c c' \<Longrightarrow> keeps c (c'\<lparr>wc_ping_timer := t\<rparr>)"
  "keeps c c' \<Longrightarrow> keeps c (c'\<lparr>wc_mask_seed := s\<rparr>)" "keeps c c' \<Longrightarrow> wc_deflate c' \<noteq> None \<Longrightarrow> keeps c (c'\<lparr>wc_deflate := Some df\<rparr>)"
  "keeps c c' \<Longrightarrow> alive c' \<Longrightarrow> keeps c (c'\<lparr>wc_state := WS_STATE_CLOSING\<rparr>)" "keeps c c' \<Longrightarrow> keeps c (c'\<lparr>wc_destroyed := True\<rparr>)"
  by (auto simp: keeps_def alive_def framing_def)

lemma shut_keeps:
  "keeps c (fst cs) \<Longrightarrow> keeps c (fst (ws_close_socket env (ws_stop_ping env (fst cs\<lparr>wc_state := WS_STATE_CLOSED\<rparr>, snd cs))))"
  "\<not> alive (fst (ws_close_socket env (ws_stop_ping env (c0\<lparr>wc_state := WS_STATE_CLOSED\<rparr>, w))))"
  by (auto simp: ws_close_socket_def ws_stop_ping_def keeps_upd alive_def split: option.split prod.split)

lemma told_keeps:
  assumes "user_ok env" "keeps c (fst cs)" "\<not> alive (fst cs)"
  shows "keeps c (fst (we_user env ev cs)) \<and> \<not> alive (fst (we_user env ev cs))"
  using assms user_keeps [OF assms(1,2)] unfolding user_ok_def keeps_def by blast

lemma enter_closed_keeps:
  assumes "user_ok env" "keeps c (fst cs)"
  shows "keeps c (fst (ws_enter_closed env code reason cs)) \<and> \<not> alive (fst (ws_enter_closed env code reason cs))"
proof -
  obtain c0 w where cs: "cs = (c0, w)" by (rule prod.exhaust)
  let ?s = "ws_close_socket env (ws_stop_ping env (c0\<lparr>wc_state := WS_STATE_CLOSED\<rparr>, w))"
  have k: "keeps c (fst ?s)" "\<not> alive (fst ?s)" using shut_keeps(1) [OF assms(2)] shut_keeps(2) cs by simp_all
  note told_keeps [OF assms(1) k, of "WsClose code reason"]
  with k assms(2) cs show ?thesis unfolding ws_enter_closed_def by (simp add: Let_def alive_def)
qed

lemma fatal_end_keeps:
  assumes "user_ok env" "keeps c (fst cs)"
  shows "keeps c (fst (ws_fatal_end env err cs)) \<and> \<not> alive (fst (ws_fatal_end env err cs))"
proof -
  obtain c0 w where cs: "cs = (c0, w)" by (rule prod.exhaust)
  let ?s = "ws_close_socket env (ws_stop_ping env (c0\<lparr>wc_state := WS_STATE_CLOSED\<rparr>, w))"
  have k: "keeps c (fst ?s)" "\<not> alive (fst ?s)" using shut_keeps(1) [OF assms(2)] shut_keeps(2) cs by simp_all
  note told_keeps [OF assms(1) k, of "WsError err"]
  with k cs show ?thesis unfolding ws_fatal_end_def by (simp add: Let_def)
qed

lemma stream_events_keep:
  assumes "user_ok env" "keeps c (fst cs)"
  shows "keeps c (fst (ws_stream_on_close env cs))" "keeps c (fst (ws_stream_on_error env e cs))"
  using assms enter_closed_keeps [OF assms] fatal_end_keeps [OF assms]
  by (auto simp: ws_stream_on_close_def ws_stream_on_error_def ws_fatal_quiet_def case_prod_beta)

lemma stream_write_keeps:
  assumes "user_ok env" "keeps c (fst cs)"
  shows "keeps c (fst (snd (stream_write env bs cs)))"
  using assms stream_events_keep [OF assms(1)]
  by (auto simp: stream_write_def split: prod.split option.split write_event.split)

lemma send_frame_raw_keeps:
  assumes "user_ok env" "keeps c (fst cs)"
  shows "keeps c (fst (snd (send_frame_raw env opcode payload len rsv1 cs)))"
proof -
  obtain c1 w where cs: "cs = (c1, w)" by (rule prod.exhaust)
  obtain mk c2 where mk: "(if wc_is_client c1 then let (k, seed) = gen_mask_key (wc_mask_seed c1) in (k, c1\<lparr>wc_mask_seed := seed\<rparr>)
      else ([0, 0, 0, 0], c1)) = (mk, c2)" by (rule prod.exhaust)
  have k: "keeps c c1" "keeps c c2" using assms(2) mk cs by (auto simp: keeps_upd split: prod.splits if_splits)
  show ?thesis
  proof (cases "ws_frame_build_header 1 (if rsv1 then 1 else 0) opcode (if wc_is_client c2 then Some mk else None) (of_nat len)")
    case None
    with k show ?thesis unfolding send_frame_raw_def cs prod.case mk by (simp add: Let_def)
  next
    case (Some h)
    obtain b w2 where al: "we_alloc env (length h + len) w = (b, w2)" by (rule prod.exhaust)
    have w: "keeps c (fst (snd (stream_write env bs (c2, w2))))" for bs using stream_write_keeps [OF assms(1)] k(2) by simp
    show ?thesis
    proof (cases b)
      case None
      with Some al k show ?thesis unfolding send_frame_raw_def cs prod.case mk by (simp add: Let_def)
    next
      case (Some block)
      with \<open>_ = Some h\<close> al k w show ?thesis unfolding send_frame_raw_def cs prod.case mk
        by (cases rsv1; cases "wc_is_client c2") (simp_all add: Let_def case_prod_beta)
    qed
  qed
qed

lemma send_close_code_keeps:
  assumes "user_ok env" "keeps c (fst cs)"
  shows "keeps c (fst (ws_send_close_code env code cs)) \<and> \<not> alive (fst (ws_send_close_code env code cs))"
  unfolding ws_send_close_code_def send_frame_def
  by (rule enter_closed_keeps [OF assms(1) send_frame_raw_keeps [OF assms]])

lemma fatal_keeps:
  assumes "user_ok env" "keeps c (fst cs)"
  shows "keeps c (fst (ws_fatal env err cs)) \<and> \<not> alive (fst (ws_fatal env err cs))"
proof -
  obtain c0 w where cs: "cs = (c0, w)" by (rule prod.exhaust)
  let ?p = "err = SEVENT_WS_ERR_PROTOCOL \<and> wc_state c0 = WS_STATE_OPEN"
  let ?s = "if ?p then snd (send_frame env WS_OPCODE_CLOSE (Some [0x03, ucast (SEVENT_WS_CLOSE_PROTOCOL_ERR AND 0xFF)]) 2
      (c0\<lparr>wc_state := WS_STATE_CLOSING\<rparr>, w)) else (c0, w)"
  show ?thesis
  proof (cases "alive c0")
    case True
    then have "keeps c (c0\<lparr>wc_state := WS_STATE_CLOSING\<rparr>)" using assms(2) cs keeps_upd(5) by simp
    then have "keeps c (fst ?s)" using assms(2) cs send_frame_raw_keeps [OF assms(1)] by (simp add: send_frame_def)
    from fatal_end_keeps [OF assms(1) this, of err] True cs show ?thesis
      unfolding ws_fatal_def by (simp add: Let_def alive_def)
  next
    case False
    then show ?thesis using assms(2) cs unfolding ws_fatal_def by (simp add: alive_def)
  qed
qed

section \<open>The receive buffers\<close>

definition rx_ok :: "ws_rx \<Rightarrow> bool" where
  "rx_ok rx \<longleftrightarrow> 28 \<le> rx_cap rx \<and> length (rx_buf rx) \<le> rx_cap rx \<and> rx_pos rx \<le> length (rx_buf rx)
     \<and> length (rx_frag rx) \<le> rx_cap rx \<and> \<not> rx_compressed rx"

definition plain_conn :: "'z ws_conn \<Rightarrow> bool" where
  "plain_conn c \<longleftrightarrow> wc_on_message c \<and> wc_deflate c = None"

definition residual :: "ws_rx \<Rightarrow> nat" where
  "residual rx = length (rx_buf rx) - rx_pos rx"

text \<open>From one state of the receiver to a later one: the buffer is only read, the position only moves on.\<close>

definition moved :: "('z, 'w) wst \<Rightarrow> ('z, 'w) wst \<Rightarrow> bool" where
  "moved st st' \<longleftrightarrow> rx_ok (fst st') \<and> rx_cap (fst st') = rx_cap (fst st) \<and> length (rx_buf (fst st')) = length (rx_buf (fst st))
     \<and> rx_pos (fst st) \<le> rx_pos (fst st') \<and> keeps (fst (snd st)) (fst (snd st'))"

definition stays :: "('z, 'w) wst \<Rightarrow> ('z, 'w) wst \<Rightarrow> bool" where
  "stays st st' \<longleftrightarrow> moved st st' \<and> rx_pos (fst st') = rx_pos (fst st)
     \<and> rx_stream_remaining (fst st') = rx_stream_remaining (fst st)"

abbreviation live :: "('z, 'w) wst \<Rightarrow> bool" where
  "live st \<equiv> alive (fst (snd st))"

lemma plain_keeps: "keeps c c' \<Longrightarrow> plain_conn c \<Longrightarrow> plain_conn c'"
  by (simp add: keeps_def plain_conn_def)

lemma moved_trans: "moved a b \<Longrightarrow> moved b c \<Longrightarrow> moved a c"
  unfolding moved_def using keeps_trans by fastforce

lemma stays_trans: "stays a b \<Longrightarrow> stays b c \<Longrightarrow> stays a c"
  unfolding stays_def using moved_trans by fastforce

lemma stays_refl: "rx_ok (fst st) \<Longrightarrow> stays st st"
  by (simp add: stays_def moved_def)

lemma stays_cs:
  "stays st (rx, cs) \<Longrightarrow> keeps (fst cs) (fst cs') \<Longrightarrow> stays st (rx, cs')"
  unfolding stays_def moved_def using keeps_trans by (metis fst_conv snd_conv)

lemma stays_rx:
  assumes "stays st (rx, cs)" "rx_ok rx'" "rx_buf rx' = rx_buf rx" "rx_pos rx' = rx_pos rx" "rx_cap rx' = rx_cap rx"
    "rx_stream_remaining rx' = rx_stream_remaining rx"
  shows "stays st (rx', cs)"
  using assms by (simp add: stays_def moved_def)

lemma stays_plain: "stays (rx, c, w) (rx', cs') \<Longrightarrow> plain_conn c \<Longrightarrow> plain_conn (fst cs')"
  using plain_keeps by (fastforce simp: stays_def moved_def)

lemma stays_ok: "stays st (rx', cs') \<Longrightarrow> rx_ok rx'" by (simp add: stays_def moved_def)

lemma user_step: "user_ok env \<Longrightarrow> keeps (fst cs) (fst (we_user env ev cs))"
  unfolding user_ok_def by blast

lemma msg_end_ok:
  assumes u: "user_ok env" and r: "rx_ok rx"
  shows "returns (msg_end env b (rx, cs)) (stays (rx, cs))"
proof -
  have m: "stays (rx, cs) (msg_reset rx, cs)"
    using r by (intro stays_rx [OF stays_refl]) (auto simp: msg_reset_def rx_ok_def)
  moreover have "\<not> rx_compressed rx" using r by (simp add: rx_ok_def)
  ultimately show ?thesis using stays_cs [OF m user_step [OF u]] by (simp add: msg_end_def)
qed

lemma frag_append_ok:
  assumes u: "user_ok env" and r: "rx_ok rx"
  shows "returns (frag_append env data (rx, cs)) (\<lambda>x. stays (rx, cs) (snd x))"
proof -
  let ?full = "rx\<lparr>rx_total := rx_total rx + of_nat (length data), rx_frag := rx_frag rx @ data\<rparr>"
  let ?new = "rx\<lparr>rx_total := rx_total rx + of_nat (length data), rx_frag := data\<rparr>"
  have 0: "stays (rx, cs) (rx, cs)" by (rule stays_refl) (simp add: r)
  note told = stays_cs [OF 0 user_step [OF u]]
  have "stays (rx, cs) (?full, cs)" if "length (rx_frag rx) + length data \<le> rx_cap rx"
    using r that by (intro stays_rx [OF 0]) (auto simp: rx_ok_def)
  moreover have "stays (rx, cs) (?new, cs')" if "stays (rx, cs) (rx, cs')" "\<not> rx_cap rx < length data" for cs'
    using r that by (intro stays_rx [OF that(1)]) (auto simp: rx_ok_def)
  ultimately show ?thesis using r 0 told by (simp add: frag_append_def rx_ok_def Let_def)
qed

lemma frag_finish_ok:
  assumes u: "user_ok env" and r: "rx_ok rx" and c: "plain_conn (fst cs)"
  shows "returns (frag_finish env (rx, cs)) (stays (rx, cs))"
proof -
  let ?b = "rx_opcode rx = WS_OPCODE_BINARY"
  let ?rx = "rx\<lparr>rx_fin_sent := True\<rparr>"
  let ?u = "we_user env (WsMessage (rx_frag rx) ?b True (rx_total rx)) cs"
  have 0: "stays (rx, cs) (rx, cs)" by (rule stays_refl) (simp add: r)
  have 1: "stays (rx, cs) (?rx, ?u)" using r by (intro stays_cs [OF stays_rx [OF 0] user_step [OF u]]) (auto simp: rx_ok_def)
  then have 2: "stays (rx, cs) (?rx\<lparr>rx_frag := []\<rparr>, ?u)" using stays_ok [OF 1] by (intro stays_rx [OF 1]) (auto simp: rx_ok_def)
  have 3: "returns (msg_end env ?b (?rx\<lparr>rx_frag := []\<rparr>, ?u)) (stays (rx, cs))"
    by (rule returns_mono [OF msg_end_ok [OF u stays_ok [OF 2]] stays_trans [OF 2]])
  have 4: "stays (rx, cs) (rx, ws_send_close_code env SEVENT_WS_CLOSE_INVALID_PAYLOAD cs)"
    using stays_cs [OF 0] send_close_code_keeps [OF u keeps_refl] by blast
  have "\<not> rx_compressed rx" "wc_on_message (fst cs)" using r c by (auto simp: rx_ok_def plain_conn_def)
  then show ?thesis using msg_end_ok [OF u r, of ?b cs] 1 3 4
    by (cases "rx_opcode rx = WS_OPCODE_BINARY") (simp_all add: frag_finish_def Let_def call_message_def)
qed

lemma frag_flush_ok:
  assumes u: "user_ok env" and r: "rx_ok rx" and c: "plain_conn (fst cs)"
  shows "returns (frag_flush env fin (rx, cs)) (stays (rx, cs))"
proof -
  have cmp: "\<not> rx_compressed rx" "0 < rx_cap rx" "length (rx_frag rx) \<le> rx_cap rx" "wc_on_message (fst cs)"
    using r c by (auto simp: rx_ok_def plain_conn_def)
  show ?thesis
  proof (cases "fin \<and> length (rx_frag rx) = rx_cap rx")
    case False
    then have "frag_flush_loop env fin (rx, cs) = Some (False, (rx, cs))"
      using cmp by (subst frag_flush_loop.simps) auto
    then show ?thesis using frag_finish_ok [OF u r c] stays_refl [of "(rx, cs)"] r by (simp add: frag_flush_def)
  next
    case True
    let ?u = "we_user env (WsMessage (rx_frag rx) (rx_opcode rx = WS_OPCODE_BINARY) True (rx_total rx)) cs"
    let ?rx = "rx\<lparr>rx_fin_sent := True\<rparr>"
    have 1: "stays (rx, cs) (?rx, ?u)"
      using r by (intro stays_cs [OF stays_rx [OF stays_refl] user_step [OF u]]) (auto simp: rx_ok_def)
    then have 2: "stays (rx, cs) (?rx\<lparr>rx_frag := []\<rparr>, ?u)" using stays_ok [OF 1] by (intro stays_rx [OF 1]) (auto simp: rx_ok_def)
    have stop: "frag_flush_loop env fin (?rx\<lparr>rx_frag := []\<rparr>, ?u) = Some (False, (?rx\<lparr>rx_frag := []\<rparr>, ?u))"
      using cmp(2) by (subst frag_flush_loop.simps) simp
    have "frag_flush_loop env fin (rx, cs) = (if wc_destroyed (fst ?u) then Some (True, (?rx, ?u)) else Some (False, (?rx\<lparr>rx_frag := []\<rparr>, ?u)))"
      using True cmp stop by (subst frag_flush_loop.simps) (simp add: call_message_def)
    moreover have "returns (frag_finish env (?rx\<lparr>rx_frag := []\<rparr>, ?u)) (stays (rx, cs))"
      by (rule returns_mono [OF frag_finish_ok [OF u stays_ok [OF 2] plain_keeps [OF user_step [OF u] c]] stays_trans [OF 2]])
    ultimately show ?thesis using True 1 by (simp add: frag_flush_def)
  qed
qed


lemma handle_data_ok:
  assumes u: "user_ok env" and r: "rx_ok rx" and c: "plain_conn (fst cs)"
  shows "returns (handle_text_binary env hdr payload (rx, cs)) (\<lambda>x. stays (rx, cs) (snd x))" (is ?tb)
    and "returns (handle_cont env hdr payload (rx, cs)) (\<lambda>x. stays (rx, cs) (snd x))" (is ?ct)
proof -
  have 0: "stays (rx, cs) (rx, cs)" by (rule stays_refl) (simp add: r)
  have append: "returns (frag_append env payload (rx1, cs)) (\<lambda>x :: int \<times> _. returns
      (case x of (r, st) \<Rightarrow> if r \<noteq> 0 then Some (SEVENT_ERR_NOMEM, st)
         else frag_flush env fin st \<bind> (\<lambda>st. Some (if wc_destroyed (fst (snd st)) then - 1 else 0, st)))
      (\<lambda>x. stays (rx, cs) (snd x)))" if "stays (rx, cs) (rx1, cs)" for rx1 fin
  proof (rule returns_mono [OF frag_append_ok [OF u stays_ok [OF that]]])
    fix x :: "int \<times> _" assume x: "stays (rx1, cs) (snd x)"
    obtain ret rx2 cs2 where eq: "x = (ret, rx2, cs2)" by (metis prod.exhaust)
    have s: "stays (rx, cs) (rx2, cs2)" using stays_trans [OF that] x eq by simp
    then have "plain_conn (fst cs2)" using stays_plain c by (metis prod.collapse)
    then have "returns (frag_flush env fin (rx2, cs2)) (stays (rx, cs))"
      by (rule returns_mono [OF frag_flush_ok [OF u stays_ok [OF s]] stays_trans [OF s]])
    then show "returns (case x of (r, st) \<Rightarrow> if r \<noteq> 0 then Some (SEVENT_ERR_NOMEM, st)
         else frag_flush env fin st \<bind> (\<lambda>st. Some (if wc_destroyed (fst (snd st)) then - 1 else 0, st)))
      (\<lambda>x. stays (rx, cs) (snd x))" using s eq by simp
  qed
  have 1: "stays (rx, cs) (rx\<lparr>rx_opcode := fh_opcode hdr, rx_total := 0, rx_fin_sent := False, rx_mode := WS_MSG_FRAG\<rparr>, cs)"
    using r by (intro stays_rx [OF 0]) (auto simp: rx_ok_def)
  have 2: "stays (rx, cs) (rx, ws_send_close_code env SEVENT_WS_CLOSE_INVALID_PAYLOAD cs)"
    using stays_cs [OF 0] send_close_code_keeps [OF u keeps_refl] by blast
  show ?tb using 0 append [OF 1, of False] 2 stays_cs [OF 0 user_step [OF u]]
    by (simp add: handle_text_binary_def Let_def)
  show ?ct using 0 append [OF 0, of "fh_fin hdr"] by (simp add: handle_cont_def)
qed

lemma handle_ctl_ok:
  assumes u: "user_ok env"
  shows "keeps (fst cs) (fst (snd (handle_ping env payload cs)))" "keeps (fst cs) (fst (snd (handle_pong env payload cs)))"
    "keeps (fst cs) (fst (snd (handle_close env payload cs)))"
    "fst (handle_close env payload cs) = 0 \<longrightarrow> \<not> alive (fst (snd (handle_close env payload cs)))"
proof -
  show "keeps (fst cs) (fst (snd (handle_ping env payload cs)))"
    using send_frame_raw_keeps [OF u keeps_refl] by (simp add: handle_ping_def send_frame_def case_prod_beta Let_def)
  show "keeps (fst cs) (fst (snd (handle_pong env payload cs)))"
    using user_step [OF u] by (simp add: handle_pong_def Let_def)
  have "fst (handle_close env payload cs) \<noteq> 0 \<and> snd (handle_close env payload cs) = cs
      \<or> keeps (fst cs) (fst (snd (handle_close env payload cs))) \<and> \<not> alive (fst (snd (handle_close env payload cs)))"
    using enter_closed_keeps [OF u keeps_refl] send_close_code_keeps [OF u keeps_refl]
      enter_closed_keeps [OF u send_frame_raw_keeps [OF u keeps_refl]]
    by (simp add: handle_close_def Let_def send_frame_def ws_err_defs)
  then show "keeps (fst cs) (fst (snd (handle_close env payload cs)))"
    "fst (handle_close env payload cs) = 0 \<longrightarrow> \<not> alive (fst (snd (handle_close env payload cs)))" by auto
qed

text \<open>What a round of \<open>process_frames\<close> does to the state: it moves on, or it ends with the buffer nearly empty.\<close>

definition round_ok :: "('z, 'w) wst \<Rightarrow> int option \<times> ('z, 'w) wst \<Rightarrow> bool" where
  "round_ok st x \<longleftrightarrow> moved st (snd x) \<and> (fst x = None \<longrightarrow> rx_pos (fst st) < rx_pos (fst (snd x)))
     \<and> (fst x = Some 0 \<and> live (snd x) \<longrightarrow> residual (fst (snd x)) \<le> rx_cap (fst st) div 2)"

lemma round_stop: "moved st st' \<Longrightarrow> e \<noteq> 0 \<Longrightarrow> round_ok st (Some e, st')"
  by (simp add: round_ok_def)

lemma dispatch_ok:
  fixes env :: "('z, 'w) ws_env"
  assumes u: "user_ok env" and r: "rx_ok rx" and c: "plain_conn (fst cs)"
    and n: "0 < sz" "rx_pos rx + sz \<le> length (rx_buf rx)"
  shows "returns (dispatch_frame env hdr sz payload (rx, cs)) (round_ok (rx, cs))"
proof -
  have 0: "stays (rx, cs) (rx, cs)" by (rule stays_refl) (simp add: r)
  define k where "k = (\<lambda>x :: int \<times> ('z, 'w) wst. if fst x < 0 then (Some (-1), snd x) else if 0 < fst x then (Some (fst x), snd x)
      else (None, ((fst (snd x))\<lparr>rx_pos := rx_pos (fst (snd x)) + sz\<rparr>, snd (snd x))))"
  have after: "round_ok (rx, cs) (k x)" if "stays (rx, cs) (snd x)" for x
    using that n by (auto simp: k_def round_ok_def stays_def moved_def rx_ok_def)
  have close: "round_ok (rx, cs) (Some (fst (handle_close env payload cs)), rx, snd (handle_close env payload cs))"
    using stays_cs [OF 0 handle_ctl_ok(3) [OF u, of cs payload]] handle_ctl_ok(4) [OF u, of payload cs]
    by (auto simp: round_ok_def stays_def)
  have data: "returns (handle_text_binary env hdr payload (rx, cs)) (\<lambda>x. round_ok (rx, cs) (k x))"
    "returns (handle_cont env hdr payload (rx, cs)) (\<lambda>x. round_ok (rx, cs) (k x))"
    by (rule returns_mono [OF handle_data_ok(1) [OF u r c]], erule after)
      (rule returns_mono [OF handle_data_ok(2) [OF u r c]], erule after)
  have ctl: "stays (rx, cs) (rx, snd (handle_ping env payload cs))" "stays (rx, cs) (rx, snd (handle_pong env payload cs))"
    using stays_cs [OF 0] handle_ctl_ok(1,2) [OF u] by blast+
  have "dispatch_frame env hdr sz payload (rx, cs) =
    (if fh_opcode hdr = WS_OPCODE_CLOSE then Some (Some (fst (handle_close env payload cs)), rx, snd (handle_close env payload cs))
     else (if fh_opcode hdr = WS_OPCODE_TEXT \<or> fh_opcode hdr = WS_OPCODE_BINARY then handle_text_binary env hdr payload (rx, cs)
          else if fh_opcode hdr = WS_OPCODE_CONT then handle_cont env hdr payload (rx, cs)
          else if fh_opcode hdr = WS_OPCODE_PING then Some (fst (handle_ping env payload cs), rx, snd (handle_ping env payload cs))
          else if fh_opcode hdr = WS_OPCODE_PONG then Some (fst (handle_pong env payload cs), rx, snd (handle_pong env payload cs))
          else Some (SEVENT_WS_ERR_PROTOCOL, (rx, cs))) \<bind> (\<lambda>x. Some (k x)))"
    unfolding dispatch_frame_def k_def case_prod_beta Let_def prod.collapse fst_conv snd_conv ..
  then show ?thesis using close data after ctl 0 by simp
qed


lemma process_whole_ok:
  assumes u: "user_ok env" and r: "rx_ok rx" and c: "plain_conn (fst cs)"
    and n: "0 < n" "sz = n + unat (fh_payload_len hdr)" "rx_pos rx + sz \<le> length (rx_buf rx)"
  shows "returns (process_whole env hdr n sz (rx, cs)) (round_ok (rx, cs))"
proof -
  define raw where "raw = peek (rx_pos rx + n) (unat (fh_payload_len hdr)) (rx_buf rx)"
  define payload where "payload = (if fh_mask hdr then ws_frame_apply_mask raw (fh_mask_key hdr) else raw)"
  define rx1 where "rx1 = (if fh_mask hdr then rx\<lparr>rx_buf := poke (rx_pos rx + n) payload (rx_buf rx)\<rparr> else rx)"
  have "length payload = unat (fh_payload_len hdr)" using n by (simp add: payload_def raw_def peek_def)
  then have l: "length (rx_buf rx1) = length (rx_buf rx)" using n by (simp add: rx1_def poke_def)
  have r1: "rx_ok rx1" "rx_cap rx1 = rx_cap rx" "rx_pos rx1 = rx_pos rx" using r l by (auto simp: rx1_def rx_ok_def)
  have m: "moved (rx, cs) (rx, cs)" "moved (rx, cs) (rx1, cs)" using r r1 l by (auto simp: moved_def)
  have p: "SEVENT_WS_ERR_PROTOCOL \<noteq> 0" by (simp add: ws_err_defs)
  have "returns (dispatch_frame env hdr sz payload (rx1, cs)) (round_ok (rx1, cs))"
    using n r1 l by (intro dispatch_ok [OF u r1(1) c]) auto
  then have d: "returns (dispatch_frame env hdr sz payload (rx1, cs)) (round_ok (rx, cs))"
    by (rule returns_mono) (use r1 l in \<open>auto simp: round_ok_def moved_def\<close>)
  have "fh_rsv1 hdr \<Longrightarrow> rsv_violation hdr (fst cs)" using c by (simp add: rsv_violation_def plain_conn_def)
  then have "process_whole env hdr n sz (rx, cs) =
    (if fh_mask hdr = wc_is_client (fst cs) then Some (Some SEVENT_WS_ERR_PROTOCOL, (rx, cs))
     else if rsv_violation hdr (fst cs) \<or> fh_opcode hdr AND 0x08 \<noteq> 0 \<and> (125 < fh_payload_len hdr \<or> \<not> fh_fin hdr)
     then Some (Some SEVENT_WS_ERR_PROTOCOL, (rx1, cs)) else dispatch_frame env hdr sz payload (rx1, cs))"
    unfolding process_whole_def Let_def prod.case raw_def [symmetric] payload_def [symmetric] rx1_def [symmetric] by auto
  then show ?thesis using round_stop [OF m(1) p] round_stop [OF m(2) p] d by simp
qed

lemma stream_loop_ok:
  assumes u: "user_ok env" and r: "rx_ok rx"
  defines "a \<equiv> min (residual rx) (unat (rx_stream_remaining rx))"
  shows "returns (stream_consume_loop env b (rx, cs)) (\<lambda>(ret, rx', cs'). moved (rx, cs) (rx', cs')
    \<and> (ret \<longrightarrow> \<not> alive (fst cs')) \<and> (\<not> ret \<longrightarrow> rx_pos rx' = rx_pos rx + a \<and> unat (rx_stream_remaining rx') = unat (rx_stream_remaining rx) - a))"
proof -
  have m0: "moved (rx, cs) (rx, cs)" using r by (simp add: moved_def)
  consider (stop) "\<not> (rx_pos rx < length (rx_buf rx) \<and> 0 < rx_stream_remaining rx)"
    | (dead) "rx_pos rx < length (rx_buf rx) \<and> 0 < rx_stream_remaining rx" "wc_destroyed (fst cs)"
    | (go) "rx_pos rx < length (rx_buf rx) \<and> 0 < rx_stream_remaining rx" "\<not> wc_destroyed (fst cs)" by blast
  then show ?thesis
  proof cases
    case stop
    then have "a = 0" by (auto simp: a_def residual_def word_less_nat_alt)
    with stop m0 show ?thesis by (subst stream_consume_loop.simps) auto
  next
    case dead
    with m0 show ?thesis by (subst stream_consume_loop.simps) (auto simp: alive_def)
  next
    case go
    have ch: "stream_chunk rx = a" using r by (auto simp: stream_chunk_def a_def residual_def rx_ok_def Let_def)
    have a: "0 < a" "rx_pos rx + a \<le> length (rx_buf rx)" "a \<le> unat (rx_stream_remaining rx)"
      using go(1) by (auto simp: a_def residual_def word_less_nat_alt)
    have u0: "length (rx_buf (stream_unmask rx)) = length (rx_buf rx)" "rx_pos (stream_unmask rx) = rx_pos rx"
      "rx_compressed (stream_unmask rx) = False" "rx_cap (stream_unmask rx) = rx_cap rx" "rx_frag (stream_unmask rx) = rx_frag rx"
      "rx_stream_remaining (stream_unmask rx) = rx_stream_remaining rx" "rx_total (stream_unmask rx) = rx_total rx"
      using r a(2) by (auto simp: stream_unmask_def ch poke_def peek_def rx_ok_def)
    define l where "l = (a = unat (rx_stream_remaining rx) \<and> rx_stream_fin rx)"
    define cs1 where "cs1 = (if wc_on_message (fst cs) then we_user env (WsMessage (peek (rx_pos rx) a (rx_buf (stream_unmask rx))) b l (if l then rx_total rx else 0)) cs else cs)"
    define rx1 where "rx1 = (stream_unmask rx)\<lparr>rx_fin_sent := rx_fin_sent (stream_unmask rx) \<or> wc_on_message (fst cs) \<and> l\<rparr>"
    have k: "keeps (fst cs) (fst cs1)" using user_step [OF u] by (simp add: cs1_def)
    have m1: "moved (rx, cs) (rx1, cs1)" using r k u0 by (auto simp: moved_def rx_ok_def rx1_def)
    have m2: "moved (rx, cs) (stream_advance a rx1, cs1)" using r k u0 a(2) by (auto simp: moved_def rx_ok_def rx1_def stream_advance_def)
    have rem: "unat (rx_stream_remaining rx - of_nat a) = unat (rx_stream_remaining rx) - a"
    proof -
      have "rx_stream_remaining rx - of_nat a = of_nat (unat (rx_stream_remaining rx) - a)" using a(3) by (simp add: of_nat_diff)
      moreover have "unat (rx_stream_remaining rx) - a < 2 ^ 64"
        using unsigned_less [of "rx_stream_remaining rx", where ?'a = nat] by simp
      ultimately show ?thesis by (simp add: unat_of_nat take_bit_nat_eq_self)
    qed
    have "\<not> (rx_pos (stream_advance a rx1) < length (rx_buf (stream_advance a rx1)) \<and> 0 < rx_stream_remaining (stream_advance a rx1))"
      using rem u0 by (auto simp: stream_advance_def rx1_def a_def residual_def word_less_nat_alt min_def split: if_splits)
    then have stop: "stream_consume_loop env b (stream_advance a rx1, cs1) = Some (False, (stream_advance a rx1, cs1))"
      by (subst stream_consume_loop.simps) simp
    have "stream_consume_loop env b (rx, cs) =
      (if wc_destroyed (fst cs1) then Some (True, (rx1, cs1)) else Some (False, (stream_advance a rx1, cs1)))"
      using go stop by (subst stream_consume_loop.simps)
        (simp only: prod.case Let_def ch u0 l_def [symmetric] cs1_def [symmetric] rx1_def [symmetric] if_False not_True_eq_False simp_thms)
    then show ?thesis using m1 m2 rem u0 by (auto simp: alive_def stream_advance_def rx1_def)
  qed
qed


lemma stream_consume_ok:
  assumes u: "user_ok env" and r: "rx_ok rx"
  defines "a \<equiv> min (residual rx) (unat (rx_stream_remaining rx))"
  shows "returns (stream_consume env (rx, cs)) (\<lambda>st'. moved (rx, cs) st' \<and>
    (live st' \<longrightarrow> rx_pos (fst st') = rx_pos rx + a \<and> unat (rx_stream_remaining (fst st')) = unat (rx_stream_remaining rx) - a))"
proof -
  let ?P = "\<lambda>st'. moved (rx, cs) st' \<and>
    (live st' \<longrightarrow> rx_pos (fst st') = rx_pos rx + a \<and> unat (rx_stream_remaining (fst st')) = unat (rx_stream_remaining rx) - a)"
  have tail: "returns (if \<not> ret \<and> rx_stream_remaining rx1 = 0 \<and> rx_stream_fin rx1 then msg_end env b (rx1, cs1) else Some (rx1, cs1)) ?P"
    if l: "moved (rx, cs) (rx1, cs1)" "ret \<longrightarrow> \<not> alive (fst cs1)"
      "\<not> ret \<longrightarrow> rx_pos rx1 = rx_pos rx + a \<and> unat (rx_stream_remaining rx1) = unat (rx_stream_remaining rx) - a" for ret rx1 cs1 b
  proof -
    have "rx_ok rx1" using l(1) by (simp add: moved_def)
    then have "returns (msg_end env b (rx1, cs1)) (\<lambda>st'. ?P st' \<or> ret)"
      by (rule returns_mono [OF msg_end_ok [OF u]]) (use l moved_trans [OF l(1)] in \<open>auto simp: stays_def\<close>)
    with l show ?thesis by (cases ret) auto
  qed
  show ?thesis
    unfolding stream_consume_def returns_bind
  proof (rule returns_mono [OF stream_loop_ok [OF u r, folded a_def]], goal_cases)
    case (1 x)
    obtain ret rx1 cs1 where x: "x = (ret, rx1, cs1)" by (metis prod.exhaust)
    from 1 x have "moved (rx, cs) (rx1, cs1)" "ret \<longrightarrow> \<not> alive (fst cs1)"
      "\<not> ret \<longrightarrow> rx_pos rx1 = rx_pos rx + a \<and> unat (rx_stream_remaining rx1) = unat (rx_stream_remaining rx) - a"
      by simp_all
    then show ?case unfolding x prod.case by (rule tail)
  qed
qed

lemma process_big_ok:
  assumes u: "user_ok env" and r: "rx_ok rx" and c: "plain_conn (fst cs)"
    and n: "rx_pos rx + n \<le> length (rx_buf rx)" "residual rx < n + unat (fh_payload_len hdr)"
  shows "returns (process_big env hdr n (rx, cs)) (round_ok (rx, cs))"
proof -
  have p: "SEVENT_WS_ERR_PROTOCOL \<noteq> 0" by (simp add: ws_err_defs)
  have m0: "stays (rx, cs) (rx, cs)" using stays_refl [of "(rx, cs)"] r by simp
  define first where "first = (if rx_mode rx = WS_MSG_FRAG then frag_flush_tail env (rx, cs)
      else if rx_mode rx = WS_MSG_NONE then
        Some (rx\<lparr>rx_opcode := fh_opcode hdr, rx_total := 0, rx_fin_sent := False, rx_compressed := rx_compressed rx \<or> fh_rsv1 hdr\<rparr>, cs)
      else Some (rx, cs))"
  define start :: "ws_rx \<Rightarrow> ws_rx" where "start = (\<lambda>rx'. rx'\<lparr>rx_mode := WS_MSG_STREAM, rx_stream_remaining := fh_payload_len hdr, rx_stream_fin := fh_fin hdr,
      rx_stream_mask := fh_mask hdr, rx_stream_mask_key := (if fh_mask hdr then fh_mask_key hdr else rx_stream_mask_key rx'),
      rx_stream_mask_off := 0, rx_total := rx_total rx' + fh_payload_len hdr, rx_pos := rx_pos rx' + n\<rparr>)"
  have frag: "returns (frag_flush_tail env (rx, cs)) (stays (rx, cs))"
  proof -
    have "stays (rx, cs) (rx\<lparr>rx_frag := []\<rparr>, cs)" using r by (intro stays_rx [OF m0]) (auto simp: rx_ok_def)
    with stays_cs [OF this user_step [OF u]] m0 r c show ?thesis
      by (simp add: frag_flush_tail_def rx_ok_def plain_conn_def Let_def)
  qed
  have fst_ok: "returns first (stays (rx, cs))" if "\<not> fh_rsv1 hdr"
  proof -
    have "stays (rx, cs) (rx\<lparr>rx_opcode := fh_opcode hdr, rx_total := 0, rx_fin_sent := False, rx_compressed := False\<rparr>, cs)"
      using r by (intro stays_rx [OF m0]) (auto simp: rx_ok_def)
    moreover have "\<not> rx_compressed rx" using r by (simp add: rx_ok_def)
    ultimately show ?thesis using frag m0 that by (simp add: first_def)
  qed
  have stream: "returns (stream_consume env (start rx1, cs1)) (\<lambda>st. round_ok (rx, cs) (Some 0, st))" if s: "stays (rx, cs) (rx1, cs1)" for rx1 cs1
  proof -
    have l: "length (rx_buf rx1) = length (rx_buf rx)" "rx_pos rx1 = rx_pos rx" "rx_cap rx1 = rx_cap rx" "rx_ok rx1"
      using s by (auto simp: stays_def moved_def)
    have ok: "rx_ok (start rx1)" using l n(1) by (auto simp: start_def rx_ok_def)
    have mv: "moved (rx, cs) (start rx1, cs1)" using s ok by (auto simp: stays_def moved_def start_def)
    have "min (residual (start rx1)) (unat (fh_payload_len hdr)) = residual (start rx1)"
      using n l by (auto simp: residual_def start_def)
    then show ?thesis
      by (intro returns_mono [OF stream_consume_ok [OF u ok]])
        (use moved_trans [OF mv] l n in \<open>auto simp: round_ok_def residual_def start_def moved_def\<close>)
  qed
  have eq: "process_big env hdr n (rx, cs) =
     (if fh_rsv2 hdr \<or> fh_rsv3 hdr \<or> fh_rsv1 hdr \<or> fh_mask hdr = wc_is_client (fst cs)
         \<or> rx_mode rx \<noteq> WS_MSG_NONE \<and> fh_opcode hdr \<noteq> WS_OPCODE_CONT
         \<or> rx_mode rx = WS_MSG_NONE \<and> fh_opcode hdr \<noteq> WS_OPCODE_TEXT \<and> fh_opcode hdr \<noteq> WS_OPCODE_BINARY
      then Some (Some SEVENT_WS_ERR_PROTOCOL, (rx, cs))
      else first \<bind> (\<lambda>(rx, cs). if rx_mode rx = WS_MSG_FRAG \<and> wc_destroyed (fst cs) then Some (Some 0, (rx, cs))
        else stream_consume env (start rx, cs) \<bind> (\<lambda>st. Some (Some 0, st))))"
    using c unfolding process_big_def first_def start_def plain_conn_def by auto
  have dead: "round_ok (rx, cs) (Some 0, (rx1, cs1))" if "stays (rx, cs) (rx1, cs1)" "wc_destroyed (fst cs1)" for rx1 cs1
    using that by (auto simp: round_ok_def stays_def alive_def)
  have "returns (first \<bind> (\<lambda>(rx, cs). if rx_mode rx = WS_MSG_FRAG \<and> wc_destroyed (fst cs) then Some (Some 0, (rx, cs))
        else stream_consume env (start rx, cs) \<bind> (\<lambda>st. Some (Some 0, st)))) (round_ok (rx, cs))" if "\<not> fh_rsv1 hdr"
    unfolding returns_bind by (rule returns_mono [OF fst_ok [OF that]]) (use dead stream in auto)
  moreover have "round_ok (rx, cs) (Some SEVENT_WS_ERR_PROTOCOL, (rx, cs))" using m0 p by (simp add: round_ok_def stays_def)
  ultimately show ?thesis unfolding eq by simp
qed

lemma parse_long: "14 \<le> length buf \<Longrightarrow> fst (ws_frame_parse_header buf hdr) \<noteq> 0"
  by (auto simp: parse_header_cases parse_mask_key_def Let_def)

lemma process_one_ok:
  assumes u: "user_ok env" and r: "rx_ok rx" and c: "plain_conn (fst cs)"
  shows "returns (process_one env (rx, cs)) (round_ok (rx, cs))"
proof -
  have p: "SEVENT_WS_ERR_PROTOCOL \<noteq> 0" by (simp add: ws_err_defs)
  have m0: "moved (rx, cs) (rx, cs)" using r by (simp add: moved_def)
  obtain n hdr where h: "ws_frame_parse_header (drop (rx_pos rx) (rx_buf rx)) hdr_stack = (n, hdr)" by (rule prod.exhaust)
  have b: "n \<in> {-1, 0} \<union> {2..min 14 (int (residual rx))}"
    using parse_bounds [of "drop (rx_pos rx) (rx_buf rx)" hdr_stack] h by (simp add: residual_def)
  have wait: "round_ok (rx, cs) (Some 0, (rx, cs))" if "residual rx \<le> rx_cap rx div 2"
    using m0 that by (simp add: round_ok_def)
  have z: "residual rx \<le> rx_cap rx div 2" if "n = 0"
    using that parse_long [of "drop (rx_pos rx) (rx_buf rx)" hdr_stack] h r by (fastforce simp: residual_def rx_ok_def)
  have dead: "round_ok (rx, cs) (Some 0, (rx, cs))" if "wc_destroyed (fst cs)" using m0 that by (simp add: round_ok_def alive_def)
  have eq: "process_one env (rx, cs) =
    (if wc_destroyed (fst cs) \<or> n = 0 then Some (Some 0, (rx, cs))
     else if n < 0 \<or> - 1 - of_int n < fh_payload_len hdr then Some (Some SEVENT_WS_ERR_PROTOCOL, (rx, cs))
     else if residual rx < nat n + unat (fh_payload_len hdr) then
       if rx_cap rx div 2 < nat n + unat (fh_payload_len hdr) then process_big env hdr (nat n) (rx, cs) else Some (Some 0, (rx, cs))
     else process_whole env hdr (nat n) (nat n + unat (fh_payload_len hdr)) (rx, cs))"
    using h unfolding process_one_def residual_def by (auto simp: Let_def)
  have "returns (process_big env hdr (nat n) (rx, cs)) (round_ok (rx, cs))"
    if "0 < n" "residual rx < nat n + unat (fh_payload_len hdr)"
    using that b r by (intro process_big_ok [OF u r c]) (auto simp: residual_def rx_ok_def)
  moreover have "returns (process_whole env hdr (nat n) (nat n + unat (fh_payload_len hdr)) (rx, cs)) (round_ok (rx, cs))"
    if "0 < n" "\<not> residual rx < nat n + unat (fh_payload_len hdr)"
    using that b r by (intro process_whole_ok [OF u r c]) (auto simp: residual_def rx_ok_def)
  ultimately show ?thesis using wait z dead round_stop [OF m0 p] unfolding eq by auto
qed

definition done_ok :: "('z, 'w) wst \<Rightarrow> int \<times> ('z, 'w) wst \<Rightarrow> bool" where
  "done_ok st x \<longleftrightarrow> moved st (snd x) \<and> (fst x = 0 \<and> live (snd x) \<longrightarrow> residual (fst (snd x)) \<le> rx_cap (fst st) div 2)"

lemma moved_plain: "moved st st' \<Longrightarrow> plain_conn (fst (snd st)) \<Longrightarrow> plain_conn (fst (snd st'))"
  using plain_keeps by (auto simp: moved_def)

lemma framing_keeps: "keeps c c' \<Longrightarrow> framing c \<Longrightarrow> framing c'" by (simp add: keeps_def)

lemma moved_ok: "moved st st' \<Longrightarrow> rx_ok (fst st')" by (simp add: moved_def)

lemma done_trans: "moved st st' \<Longrightarrow> done_ok st' x \<Longrightarrow> done_ok st x"
  unfolding done_ok_def using moved_trans by (metis moved_def)

lemma process_frames_ok:
  assumes u: "user_ok env"
  shows "rx_ok (fst st) \<Longrightarrow> plain_conn (fst (snd st)) \<Longrightarrow> returns (process_frames env st) (done_ok st)"
proof (induction "residual (fst st)" arbitrary: st rule: less_induct)
  case less
  obtain rx cs where st: "st = (rx, cs)" by (rule prod.exhaust)
  show ?case
  proof (cases "rx_pos rx < length (rx_buf rx) \<and> wc_state (fst cs) \<noteq> WS_STATE_CLOSED")
    case False
    then have "process_frames env (rx, cs) = Some (0, (rx, cs))" by (intro process_frames_end) auto
    with False less.prems st show ?thesis by (auto simp: done_ok_def moved_def alive_def residual_def)
  next
    case True
    have "returns (process_one env (rx, cs)) (\<lambda>x. returns (case x of (r, st) \<Rightarrow> case r of Some r \<Rightarrow> Some (r, st) | None \<Rightarrow> process_frames env st) (done_ok st))"
    proof (rule returns_mono [OF process_one_ok [OF u]])
      show "rx_ok rx" "plain_conn (fst cs)" using less.prems st by auto
      fix x assume x: "round_ok (rx, cs) x"
      obtain r st' where xe: "x = (r, st')" by (rule prod.exhaust)
      have m: "moved st st'" using x xe st by (simp add: round_ok_def)
      show "returns (case x of (r, st) \<Rightarrow> case r of Some r \<Rightarrow> Some (r, st) | None \<Rightarrow> process_frames env st) (done_ok st)"
      proof (cases r)
        case None
        then have "residual (fst st') < residual (fst st)"
          using x xe st m True by (auto simp: round_ok_def moved_def residual_def)
        from less.hyps [OF this moved_ok [OF m] moved_plain [OF m less.prems(2)]]
        have "returns (process_frames env st') (done_ok st)" by (rule returns_mono) (rule done_trans [OF m])
        then show ?thesis using None xe by simp
      next
        case (Some e)
        then show ?thesis using x xe st by (simp add: done_ok_def round_ok_def)
      qed
    qed
    then show ?thesis using True by (simp add: st process_frames_step)
  qed
qed

lemma frame_data_loop_ok:
  assumes u: "user_ok env"
  shows "rx_ok (fst st) \<Longrightarrow> plain_conn (fst (snd st)) \<Longrightarrow> returns (frame_data_loop env st) (done_ok st)"
proof (induction "residual (fst st)" arbitrary: st rule: less_induct)
  case less
  obtain rx cs where st: "st = (rx, cs)" by (rule prod.exhaust)
  show ?case
  proof (cases "rx_pos rx < length (rx_buf rx)")
    case False
    with less.prems st show ?thesis by (subst frame_data_loop.simps) (auto simp: done_ok_def moved_def residual_def)
  next
    case True
    let ?a = "min (residual rx) (unat (rx_stream_remaining rx))"
    let ?first = "if 0 < rx_stream_remaining rx then stream_consume env st else Some st"
    let ?next = "\<lambda>st. if rx_stream_remaining (fst st) = 0 then process_frames env st else Some (0, st)"
    have first: "returns ?first (\<lambda>st1. moved st st1 \<and> (live st1 \<longrightarrow> rx_pos (fst st1) = rx_pos rx + ?a
        \<and> unat (rx_stream_remaining (fst st1)) = unat (rx_stream_remaining rx) - ?a))"
      using stream_consume_ok [OF u, of rx cs] less.prems st by (auto simp: moved_def word_less_nat_alt)
    have second: "returns (?next st1) (\<lambda>x. moved st (snd x) \<and> (rx_pos (fst (snd x)) = rx_pos rx \<or> fst x \<noteq> 0 \<longrightarrow> done_ok st x))"
      if s1: "moved st st1" "live st1 \<longrightarrow> rx_pos (fst st1) = rx_pos rx + ?a \<and> unat (rx_stream_remaining (fst st1)) = unat (rx_stream_remaining rx) - ?a" for st1
    proof (cases "rx_stream_remaining (fst st1) = 0")
      case True
      have "returns (process_frames env st1) (\<lambda>x. moved st (snd x) \<and> done_ok st x)"
        by (rule returns_mono [OF process_frames_ok [OF u moved_ok [OF s1(1)] moved_plain [OF s1(1) less.prems(2)]]])
          (use done_trans [OF s1(1)] in \<open>auto simp: done_ok_def\<close>)
      then show ?thesis using True by (auto elim: returns_mono)
    next
      case False
      have "\<not> live st1" if "rx_pos (fst st1) = rx_pos rx"
        using that s1(2) False True by (auto simp: residual_def word_unat_eq_iff)
      then show ?thesis using False s1(1) by (auto simp: done_ok_def)
    qed
    have rest: "returns (if rx_pos (fst st2) = rx_pos rx \<or> err \<noteq> 0 then Some (err, st2) else frame_data_loop env st2) (done_ok st)"
      if s2: "moved st st2" "rx_pos (fst st2) = rx_pos rx \<or> err \<noteq> 0 \<longrightarrow> done_ok st (err, st2)" for err st2
    proof (cases "rx_pos (fst st2) = rx_pos rx \<or> err \<noteq> 0")
      case False
      then have "residual (fst st2) < residual (fst st)" using s2(1) st True by (auto simp: moved_def residual_def)
      from less.hyps [OF this moved_ok [OF s2(1)] moved_plain [OF s2(1) less.prems(2)]]
      have "returns (frame_data_loop env st2) (done_ok st)" by (rule returns_mono) (rule done_trans [OF s2(1)])
      then show ?thesis using False by simp
    qed (use s2 in simp)
    have "frame_data_loop env st = ?first \<bind> (\<lambda>st1. ?next st1 \<bind> (\<lambda>(err, st2).
        if rx_pos (fst st2) = rx_pos rx \<or> err \<noteq> 0 then Some (err, st2) else frame_data_loop env st2))"
      using True st by (subst frame_data_loop.simps) simp
    moreover have "returns \<dots> (done_ok st)"
      unfolding returns_bind
    proof (rule returns_mono [OF first], goal_cases)
      case (1 st1)
      show ?case
      proof (rule returns_mono [OF second], goal_cases)
        case (3 x)
        obtain err st2 where x: "x = (err, st2)" by (rule prod.exhaust)
        show ?case unfolding x prod.case by (rule rest) (use 3 x in simp_all)
      qed (use 1 in simp_all)
    qed
    ultimately show ?thesis by simp
  qed
qed

lemma ws_frame_data_ok:
  assumes u: "user_ok env" and r: "rx_ok (fst st)" and c: "plain_conn (fst (snd st))"
  shows "returns (ws_frame_data env st) (\<lambda>st'. moved st st' \<and> (live st' \<longrightarrow> residual (fst st') \<le> rx_cap (fst st) div 2))"
proof -
  have "returns (if rx_mode (fst st) = WS_MSG_STREAM then frame_data_loop env st else process_frames env st) (done_ok st)"
    using frame_data_loop_ok [OF u r c] process_frames_ok [OF u r c] by simp
  then show ?thesis unfolding ws_frame_data_def returns_bind
  proof (rule returns_mono)
    fix x assume x: "done_ok st x"
    obtain err rx cs where xe: "x = (err, rx, cs)" by (metis prod.exhaust)
    have "keeps (fst cs) (fst (ws_fatal env err cs)) \<and> \<not> alive (fst (ws_fatal env err cs))" by (rule fatal_keeps [OF u keeps_refl])
    then show "returns (case x of (err, rx, cs) \<Rightarrow> Some (rx, if err \<noteq> 0 then ws_fatal env err cs else cs))
      (\<lambda>st'. moved st st' \<and> (live st' \<longrightarrow> residual (fst st') \<le> rx_cap (fst st) div 2))"
      using x xe keeps_trans by (auto simp: done_ok_def moved_def)
  qed
qed

text \<open>A receiver between two chunks.\<close>

definition rx_ready :: "('z, 'w) wst \<Rightarrow> bool" where
  "rx_ready st \<longleftrightarrow> rx_ok (fst st) \<and> plain_conn (fst (snd st)) \<and> framing (fst (snd st))
     \<and> (live st \<longrightarrow> residual (fst st) \<le> rx_cap (fst st) div 2)"

lemma on_data_ok:
  assumes u: "user_ok env" and r: "rx_ready st" and d: "length d \<le> rx_cap (fst st) div 2"
  shows "returns (ws_stream_on_data env d st) (\<lambda>st'. rx_ready st' \<and> rx_cap (fst st') = rx_cap (fst st) \<and> keeps (fst (snd st)) (fst (snd st')))"
proof -
  obtain rx c w where st: "st = (rx, c, w)" by (metis prod.exhaust)
  show ?thesis
  proof (cases "alive c")
    case False
    then have "ws_stream_on_data env d st = Some st" by (simp add: st ws_stream_on_data_def alive_def)
    then show ?thesis using r by simp
  next
    case True
    let ?rx = "rx\<lparr>rx_buf := drop (rx_pos rx) (rx_buf rx) @ d, rx_pos := 0\<rparr>"
    have rx: "rx_ok rx" "plain_conn c" "framing c" "residual rx \<le> rx_cap rx div 2" using r True by (auto simp: rx_ready_def st)
    have "ws_stream_on_data env d (rx, c, w) = ws_frame_data env (?rx, c, w)"
      using rx d st True by (intro on_data_compact) (auto simp: framing_def rx_ok_def residual_def)
    moreover have "rx_ok ?rx" using rx d st by (auto simp: rx_ok_def residual_def)
    then have "returns (ws_frame_data env (?rx, c, w)) (\<lambda>st'. moved (?rx, c, w) st' \<and> (live st' \<longrightarrow> residual (fst st') \<le> rx_cap rx div 2))"
      using ws_frame_data_ok [OF u, of "(?rx, c, w)"] rx(2) by simp
    then have "returns (ws_frame_data env (?rx, c, w)) (\<lambda>st'. rx_ready st' \<and> rx_cap (fst st') = rx_cap rx \<and> keeps c (fst (snd st')))"
      by (rule returns_mono) (use rx plain_keeps framing_keeps in \<open>auto simp: rx_ready_def moved_def\<close>)
    ultimately show ?thesis by (simp add: st)
  qed
qed

lemma deliver_ok:
  fixes env :: "('z, 'w) ws_env"
  assumes u: "user_ok env"
  shows "rx_ready st \<Longrightarrow> \<forall>d \<in> set ds. length d \<le> rx_cap (fst st) div 2 \<Longrightarrow>
    returns (deliver env ds st) (\<lambda>st'. rx_ready st' \<and> rx_cap (fst st') = rx_cap (fst st) \<and> keeps (fst (snd st)) (fst (snd st')))"
proof (induction ds arbitrary: st)
  case (Cons d ds)
  have "returns (ws_stream_on_data env d st) (\<lambda>st'. returns (deliver env ds st') (\<lambda>st'. rx_ready st' \<and> rx_cap (fst st') = rx_cap (fst st) \<and> keeps (fst (snd st)) (fst (snd st'))))"
  proof (rule returns_mono [OF on_data_ok [OF u Cons.prems(1)]])
    show "length d \<le> rx_cap (fst st) div 2" using Cons.prems(2) by simp
    fix st1 :: "('z, 'w) wst"
    assume s1: "rx_ready st1 \<and> rx_cap (fst st1) = rx_cap (fst st) \<and> keeps (fst (snd st)) (fst (snd st1))"
    show "returns (deliver env ds st1) (\<lambda>st'. rx_ready st' \<and> rx_cap (fst st') = rx_cap (fst st) \<and> keeps (fst (snd st)) (fst (snd st')))"
      by (rule returns_mono [OF Cons.IH [of st1]]) (use s1 Cons.prems(2) keeps_trans in auto)
  qed
  then show ?case by simp
qed simp

section \<open>The public functions are such callbacks\<close>

lemma report_write_keeps:
  "user_ok env \<Longrightarrow> keeps c (fst (snd r)) \<Longrightarrow> keeps c (fst (snd (report_write env r)))"
  using fatal_keeps [of env c "snd r"] by (auto simp: report_write_def case_prod_beta)

lemma send_message_keeps:
  assumes u: "user_ok env"
  shows "keeps (fst cs) (fst (snd (send_message env opcode payload len cs)))"
proof -
  obtain c w where cs: "cs = (c, w)" by (rule prod.exhaust)
  have s: "keeps c (fst (snd (send_frame env opcode payload len (c, w))))" for w
    using send_frame_raw_keeps [OF u, of c "(c, w)"] by (simp add: send_frame_def)
  show ?thesis
  proof (cases "wc_deflate c")
    case None
    with s cs show ?thesis by (simp add: send_message_def)
  next
    case (Some df)
    obtain b w1 where a: "we_alloc env (ws_deflate_compress_maxlen (we_zlib env) df len) w = (b, w1)" by (rule prod.exhaust)
    obtain out df1 where d: "ws_deflate_compress (we_zlib env) payload (ws_deflate_compress_maxlen (we_zlib env) df len) df = (out, df1)"
      by (rule prod.exhaust)
    have k: "keeps c (c\<lparr>wc_deflate := Some df1\<rparr>)" using Some by (intro keeps_upd(4)) auto
    have "keeps c (fst (snd (send_frame_raw env opcode p l r (c\<lparr>wc_deflate := Some df1\<rparr>, w1))))" for p l r
      by (rule send_frame_raw_keeps [OF u]) (simp add: k)
    with s Some a d k cs show ?thesis
      by (cases b; cases out) (simp_all add: send_message_def Let_def)
  qed
qed

lemma api_keeps:
  assumes u: "user_ok env"
  shows "keeps (fst cs) (fst (snd (sevent_ws_send_text env data len cs)))"
    "keeps (fst cs) (fst (snd (sevent_ws_send_binary env data len cs)))"
    "keeps (fst cs) (fst (snd (sevent_ws_ping env data len cs)))"
    "keeps (fst cs) (fst (snd (sevent_ws_shutdown env code reason cs)))"
    "keeps (fst cs) (fst (sevent_ws_close env cs))"
    "(\<forall>w. fst (we_post env w)) \<longrightarrow> keeps (fst cs) (fst (sevent_ws_destroy env cs))"
proof -
  note m = report_write_keeps [OF u send_message_keeps [OF u]]
  show "keeps (fst cs) (fst (snd (sevent_ws_send_text env data len cs)))" using m by (simp add: sevent_ws_send_text_def)
  show "keeps (fst cs) (fst (snd (sevent_ws_send_binary env data len cs)))"
    using m report_write_keeps [OF u, of "fst cs" "(SEVENT_ERR_INVAL, cs)"] by (simp add: sevent_ws_send_binary_def)
  show "keeps (fst cs) (fst (snd (sevent_ws_ping env data len cs)))"
    using report_write_keeps [OF u send_frame_raw_keeps [OF u keeps_refl]] by (simp add: sevent_ws_ping_def send_frame_def)
  show close: "keeps (fst cs) (fst (sevent_ws_close env cs))"
    by (auto simp: sevent_ws_close_def ws_stop_ping_def ws_close_socket_def keeps_def alive_def framing_def split: option.split prod.split)
  show "(\<forall>w. fst (we_post env w)) \<longrightarrow> keeps (fst cs) (fst (sevent_ws_destroy env cs))"
    using close by (auto simp: sevent_ws_destroy_def case_prod_beta Let_def)
  show "keeps (fst cs) (fst (snd (sevent_ws_shutdown env code reason cs)))"
  proof (cases "wc_state (fst cs) = WS_STATE_OPEN")
    case True
    define r where "r = bytes_of (take 123 (case reason of None \<Rightarrow> [] | Some r \<Rightarrow> r))"
    obtain ret c1 w1 where s: "send_frame env WS_OPCODE_CLOSE (Some ([ucast (drop_bit 8 code), ucast code] @ r)) (2 + length r) cs = (ret, c1, w1)"
      by (metis prod.exhaust)
    have k: "keeps (fst cs) c1" using send_frame_raw_keeps [OF u keeps_refl] s by (metis fst_conv snd_conv send_frame_def)
    let ?c = "if ret = SEVENT_SUCCESS \<and> \<not> wc_destroyed c1 \<and> wc_state c1 \<noteq> WS_STATE_CLOSED then c1\<lparr>wc_state := WS_STATE_CLOSING\<rparr> else c1"
    have "keeps (fst cs) ?c" using k keeps_upd(5) [OF k] by (simp add: alive_def)
    then have "keeps (fst cs) (fst (snd (report_write env (ret, ?c, w1))))" by (intro report_write_keeps [OF u]) simp
    moreover have "sevent_ws_shutdown env code reason cs = report_write env (ret, ?c, w1)"
      using True s unfolding sevent_ws_shutdown_def case_prod_beta Let_def r_def [symmetric] prod.collapse by (simp add: case_prod_beta)
    ultimately show ?thesis by simp
  qed (simp add: sevent_ws_shutdown_def case_prod_beta)
qed

section \<open>Properties\<close>



text \<open>
  Which frames break the protocol, read off the header and the state of the message. A
  reserved opcode is listed without RSV1 only: see \<open>ws_reserved_opcode_delivered\<close> below.
\<close>

definition breaks_protocol :: "ws_frame_header \<Rightarrow> ws_rx \<Rightarrow> 'z ws_conn \<Rightarrow> bool" where
  "breaks_protocol hdr rx c \<longleftrightarrow>
     fh_mask hdr = wc_is_client c
     \<or> fh_rsv2 hdr \<or> fh_rsv3 hdr
     \<or> fh_rsv1 hdr \<and> (wc_deflate c = None \<or> fh_opcode hdr \<in> {WS_OPCODE_CONT, WS_OPCODE_CLOSE, WS_OPCODE_PING, WS_OPCODE_PONG})
     \<or> \<not> fh_rsv1 hdr \<and> fh_opcode hdr \<notin> {WS_OPCODE_CONT, WS_OPCODE_TEXT, WS_OPCODE_BINARY, WS_OPCODE_CLOSE, WS_OPCODE_PING, WS_OPCODE_PONG}
     \<or> fh_opcode hdr \<in> {WS_OPCODE_CLOSE, WS_OPCODE_PING, WS_OPCODE_PONG} \<and> (\<not> fh_fin hdr \<or> 125 < fh_payload_len hdr)
     \<or> fh_opcode hdr \<in> {WS_OPCODE_TEXT, WS_OPCODE_BINARY} \<and> rx_mode rx \<noteq> WS_MSG_NONE
     \<or> fh_opcode hdr = WS_OPCODE_CONT \<and> rx_mode rx = WS_MSG_NONE"

lemma dispatch_rejects:
  assumes "fh_opcode hdr \<notin> {WS_OPCODE_CONT, WS_OPCODE_TEXT, WS_OPCODE_BINARY, WS_OPCODE_CLOSE, WS_OPCODE_PING, WS_OPCODE_PONG}
     \<or> fh_opcode hdr \<in> {WS_OPCODE_TEXT, WS_OPCODE_BINARY} \<and> rx_mode rx \<noteq> WS_MSG_NONE
     \<or> fh_opcode hdr = WS_OPCODE_CONT \<and> rx_mode rx = WS_MSG_NONE"
  shows "dispatch_frame env hdr sz payload (rx, cs) = Some (Some SEVENT_WS_ERR_PROTOCOL, (rx, cs))"
  using assms by (auto simp: dispatch_frame_def handle_text_binary_def handle_cont_def opcode_defs ws_err_defs)

lemma process_whole_rejects:
  assumes "breaks_protocol hdr rx (fst cs)"
  shows "\<exists>rx'. process_whole env hdr n sz (rx, cs) = Some (Some SEVENT_WS_ERR_PROTOCOL, (rx', cs))"
proof -
  define payload where "payload = (let raw = peek (rx_pos rx + n) (unat (fh_payload_len hdr)) (rx_buf rx)
    in if fh_mask hdr then ws_frame_apply_mask raw (fh_mask_key hdr) else raw)"
  define rx1 where "rx1 = (if fh_mask hdr then rx\<lparr>rx_buf := poke (rx_pos rx + n) payload (rx_buf rx)\<rparr> else rx)"
  define rx2 where "rx2 = (if fh_rsv1 hdr \<and> \<not> fh_fin hdr \<and> (fh_opcode hdr = WS_OPCODE_TEXT \<or> fh_opcode hdr = WS_OPCODE_BINARY)
    then rx1\<lparr>rx_compressed := True\<rparr> else rx1)"
  have mode: "rx_mode rx1 = rx_mode rx" "rx_mode rx2 = rx_mode rx" by (simp_all add: rx1_def rx2_def)
  have bit3: "fh_opcode hdr AND 0x08 \<noteq> 0" if "fh_opcode hdr \<in> {WS_OPCODE_CLOSE, WS_OPCODE_PING, WS_OPCODE_PONG}"
    using that by (auto simp: opcode_defs)
  have eq: "process_whole env hdr n sz (rx, cs) =
    (if fh_mask hdr = wc_is_client (fst cs) then Some (Some SEVENT_WS_ERR_PROTOCOL, (rx, cs))
     else if rsv_violation hdr (fst cs) then Some (Some SEVENT_WS_ERR_PROTOCOL, (rx1, cs))
     else if fh_rsv1 hdr \<and> fh_fin hdr \<and> fh_opcode hdr \<noteq> WS_OPCODE_CONT then
       if rx_mode rx1 \<noteq> WS_MSG_NONE then Some (Some SEVENT_WS_ERR_PROTOCOL, (rx1, cs))
       else decompress_oneshot env payload (fh_opcode hdr = WS_OPCODE_BINARY) cs \<bind> (\<lambda>(r, cs).
         Some (if r \<noteq> 0 then (Some r, (rx1, cs)) else if wc_destroyed (fst cs) then (Some 0, (rx1, cs))
           else (None, (rx1\<lparr>rx_pos := rx_pos rx1 + sz\<rparr>, cs))))
     else if fh_opcode hdr AND 0x08 \<noteq> 0 \<and> (125 < fh_payload_len hdr \<or> \<not> fh_fin hdr) then Some (Some SEVENT_WS_ERR_PROTOCOL, (rx2, cs))
     else dispatch_frame env hdr sz payload (rx2, cs))"
    unfolding process_whole_def prod.case Let_def payload_def rx1_def rx2_def ..
  consider (mask) "fh_mask hdr = wc_is_client (fst cs)"
    | (rsv) "rsv_violation hdr (fst cs)"
    | (ctl) "fh_opcode hdr AND 0x08 \<noteq> 0 \<and> (125 < fh_payload_len hdr \<or> \<not> fh_fin hdr)" "\<not> fh_rsv1 hdr"
    | (op) "\<not> fh_rsv1 hdr \<and> fh_opcode hdr \<notin> {WS_OPCODE_CONT, WS_OPCODE_TEXT, WS_OPCODE_BINARY, WS_OPCODE_CLOSE, WS_OPCODE_PING, WS_OPCODE_PONG}
        \<or> fh_opcode hdr \<in> {WS_OPCODE_TEXT, WS_OPCODE_BINARY} \<and> rx_mode rx \<noteq> WS_MSG_NONE
        \<or> \<not> fh_rsv1 hdr \<and> fh_opcode hdr = WS_OPCODE_CONT \<and> rx_mode rx = WS_MSG_NONE"
    using assms bit3 unfolding breaks_protocol_def rsv_violation_def by blast
  then show ?thesis
  proof cases
    case op
    then have "dispatch_frame env hdr sz payload (rx2, cs) = Some (Some SEVENT_WS_ERR_PROTOCOL, (rx2, cs))"
      by (intro dispatch_rejects) (auto simp: mode)
    with op mode show ?thesis unfolding eq by (auto simp: opcode_defs)
  qed (auto simp: eq)
qed

lemma process_big_rejects:
  assumes "breaks_protocol hdr rx (fst cs)"
  shows "process_big env hdr n (rx, cs) = Some (Some SEVENT_WS_ERR_PROTOCOL, (rx, cs))"
  using assms by (auto simp: process_big_def breaks_protocol_def opcode_defs)



text \<open>
  A reserved opcode passes when the frame is compressed: on a connection with compression a
  complete final frame with RSV1 and an opcode between 3 and 7 is decompressed and delivered
  exactly as if it were a text frame, because the branch for compressed frames comes before the
  opcode is looked at.
\<close>

theorem ws_reserved_opcode_delivered:
  assumes "fh_rsv1 hdr" "fh_fin hdr" "fh_opcode hdr \<in> {3, 4, 5, 6, 7}" "wc_deflate (fst cs) \<noteq> None"
  shows "process_whole env hdr n sz (rx, cs) = process_whole env (hdr\<lparr>fh_opcode := WS_OPCODE_TEXT\<rparr>) n sz (rx, cs)"
proof -
  obtain df where df: "wc_deflate (fst cs) = Some df" using assms(4) by auto
  obtain fin r1 r2 r3 oc m pl mk where hdr: "hdr = \<lparr>fh_fin = fin, fh_rsv1 = r1, fh_rsv2 = r2, fh_rsv3 = r3, fh_opcode = oc,
      fh_mask = m, fh_payload_len = pl, fh_mask_key = mk\<rparr>" by (cases hdr)
  have oc: "oc \<noteq> WS_OPCODE_CONT" "oc \<noteq> WS_OPCODE_BINARY" "oc AND 0x08 = 0"
    using assms(3) by (auto simp: hdr opcode_defs)
  have tx: "WS_OPCODE_TEXT \<noteq> WS_OPCODE_CONT" "WS_OPCODE_TEXT \<noteq> WS_OPCODE_BINARY" "WS_OPCODE_TEXT AND 0x08 = 0"
    by (simp_all add: opcode_defs)
  show ?thesis
    using assms(1,2) oc tx df unfolding hdr process_whole_def rsv_violation_def ws_frame_header.simps Let_def prod.case by simp
qed

theorem ws_reserved_opcode_delivered_witness:
  "process_whole demo_env (hdr_stack\<lparr>fh_fin := True, fh_rsv1 := True, fh_opcode := 3\<rparr>) 2 2 (rx0, demo_conn True WS_STATE_OPEN
       \<lparr>wc_deflate := Some \<lparr>df_deflate = (), df_inflate = (), df_server_no_context_takeover = False, df_client_no_context_takeover = False,
          df_server_window_bits = 15, df_client_window_bits = 15\<rparr>\<rparr>, demo_world0) =
   process_whole demo_env (hdr_stack\<lparr>fh_fin := True, fh_rsv1 := True, fh_opcode := WS_OPCODE_TEXT\<rparr>) 2 2 (rx0, demo_conn True WS_STATE_OPEN
       \<lparr>wc_deflate := Some \<lparr>df_deflate = (), df_inflate = (), df_server_no_context_takeover = False, df_client_no_context_takeover = False,
          df_server_window_bits = 15, df_client_window_bits = 15\<rparr>\<rparr>, demo_world0)"
  using ws_reserved_opcode_delivered [of "hdr_stack\<lparr>fh_fin := True, fh_rsv1 := True, fh_opcode := 3\<rparr>"
     "(demo_conn True WS_STATE_OPEN\<lparr>wc_deflate := Some \<lparr>df_deflate = (), df_inflate = (), df_server_no_context_takeover = False, df_client_no_context_takeover = False,
          df_server_window_bits = 15, df_client_window_bits = 15\<rparr>\<rparr>, demo_world0)"] by simp

text \<open>
  A connection without \<open>on_message\<close> does not survive a fragmented message:
  \<open>frag_flush\<close> calls the callback without looking whether it is set, so the last fragment of
  an uncompressed binary message that is waiting in the buffer is a call of NULL.
\<close>

theorem ws_fragment_without_callback:
  assumes "\<not> wc_on_message (fst cs)" "rx_mode rx \<noteq> WS_MSG_NONE" "rx_opcode rx = WS_OPCODE_BINARY" "\<not> rx_compressed rx"
    "fh_fin hdr" "rx_frag rx @ payload \<noteq> []" "length (rx_frag rx @ payload) \<le> rx_cap rx"
  shows "handle_cont env hdr payload (rx, cs) = None"
proof -
  let ?rx = "if payload = [] then rx else rx\<lparr>rx_total := rx_total rx + of_nat (length payload), rx_frag := rx_frag rx @ payload\<rparr>"
  have "frag_append env payload (rx, cs) = Some (0, (?rx, cs))" using assms(7) by (auto simp: frag_append_def)
  moreover have "frag_flush env True (?rx, cs) = None"
  proof (cases "length (rx_frag rx @ payload) = rx_cap rx")
    case True
    then have "frag_flush_loop env True (?rx, cs) = None"
      using assms(1,4) by (subst frag_flush_loop.simps) (auto simp: call_message_def)
    then show ?thesis by (simp add: frag_flush_def)
  next
    case False
    then have "frag_flush_loop env True (?rx, cs) = Some (False, (?rx, cs))"
      using assms(4,7) by (subst frag_flush_loop.simps) auto
    moreover have "frag_finish env (?rx, cs) = None"
      using assms(1,3,4,6) by (auto simp: frag_finish_def call_message_def Let_def)
    ultimately show ?thesis by (simp add: frag_flush_def)
  qed
  ultimately show ?thesis using assms(2,5) by (simp add: handle_cont_def)
qed

theorem ws_fragment_without_callback_witness:
  "handle_cont demo_env (hdr_stack\<lparr>fh_fin := True\<rparr>) [2] (rx0\<lparr>rx_cap := 1024, rx_mode := WS_MSG_FRAG, rx_opcode := WS_OPCODE_BINARY, rx_frag := [1]\<rparr>,
     demo_conn False WS_STATE_OPEN\<lparr>wc_on_message := False\<rparr>, demo_world0) = None"
  by (rule ws_fragment_without_callback) (simp_all add: rx0_def)

end
