(* ===== verification/Http_Server.thy ===== *)
theory Http_Server
  imports Http_Parse Ws_Conn
begin

text \<open>
  \<^verbatim>\<open>src/http_server.c\<close>: the connections of the HTTP server, their state machine, the
  responses and the hand-over to the websocket layer. The state holds the connection objects by
  identity, the list of the server as it is linked through them, the tasks that were posted and
  not yet run, the idle timers and the streams whose callbacks belong to the server. A function
  is \<^term>\<open>None\<close> exactly when it uses an object that was freed. Freed identities are not used
  again, so such a use is never hidden by a new object. The stream of a connection has the
  identity of the connection. Lengths are \<open>size_t\<close> values; \<open>recv_cap - recv_len\<close> does not
  wrap because the invariant of \<^verbatim>\<open>Http_Safety\<close> keeps \<open>recv_len \<le> recv_cap\<close>. Pointer arguments
  are not NULL.
\<close>

section \<open>Data\<close>

datatype http_conn_state =
    HTTP_CONN_NEW | HTTP_CONN_PARSING | HTTP_CONN_REQUEST | HTTP_CONN_AWAIT_RESP
  | HTTP_CONN_RESPONDING | HTTP_CONN_RELEASED | HTTP_CONN_CLOSING | HTTP_CONN_CLOSED

record sevent_http_conn =
  hc_stream :: bool
  hc_state :: http_conn_state
  hc_recv :: bytes
  hc_has_buf :: bool
  hc_cap :: nat
  hc_req_keep_alive :: bool
  hc_close_pending :: bool
  hc_released :: bool
  hc_wrote :: bool
  hc_idle_timer :: "nat option"
  hc_next :: "nat option"

record sevent_http_server_config =
  sg_enable_tls :: bool
  sg_cert_path :: "string option"
  sg_cert_pem :: "string option"
  sg_key_path :: "string option"
  sg_key_pem :: "string option"
  sg_verify_peer :: bool
  sg_ca_path :: "string option"
  sg_ca_pem :: "string option"
  sg_recv_buf_size :: nat
  sg_idle_timeout_ms :: int

text \<open>Callbacks are recorded as set or NULL; what they do is the argument \<open>user\<close> of the functions.\<close>

record http_server =
  sv_cfg :: sevent_http_server_config
  sv_on_accept :: bool
  sv_on_request :: bool
  sv_on_upgrade :: bool
  sv_on_conn_close :: bool
  sv_on_error :: bool
  sv_conns :: "nat option"
  sv_destroyed :: bool

record sevent_http_response =
  rp_status :: int
  rp_text :: "string option"
  rp_close :: bool
  rp_body :: "bytes option"
  rp_body_len :: nat
  rp_headers :: "(string \<times> string) list"

datatype http_event =
    OnAccept nat
  | OnRequest sevent_http_msg nat
  | OnUpgrade sevent_http_msg nat
  | OnConnClose nat
  | OnError int

datatype http_post = ProcessPost nat | ConnCleanup nat | SrvCleanup

text \<open>A history of what the theorems speak about: changes of state, notifications, freed objects.\<close>

datatype http_act = HttpState nat http_conn_state http_conn_state | HttpClosed nat | HttpDispatch nat sevent_http_msg | HttpFree nat

record 'w http_st =
  st_mem :: "nat \<rightharpoonup> sevent_http_conn"
  st_srv :: "http_server option"
  st_posts :: "http_post list"
  st_timers :: "nat \<rightharpoonup> nat"
  st_streams :: "nat \<rightharpoonup> bool"
  st_fresh :: nat
  st_log :: "http_act list"
  st_w :: 'w

record 'w http_env =
  he_malloc :: "nat \<Rightarrow> 'w \<Rightarrow> bool \<times> 'w"
  he_post :: "'w \<Rightarrow> bool \<times> 'w"
  he_timer_register :: "32 word \<Rightarrow> 'w \<Rightarrow> bool \<times> 'w"
  he_stream_create :: "stream_conn_config \<Rightarrow> 'w \<Rightarrow> bool \<times> 'w"
  he_stream_accept :: "nat \<Rightarrow> int \<Rightarrow> stream_init \<Rightarrow> 'w \<Rightarrow> int \<times> 'w"
  he_write :: "nat \<Rightarrow> bytes \<Rightarrow> 'w \<Rightarrow> int \<times> write_event option \<times> 'w"
  he_shutdown_wr :: "nat \<Rightarrow> 'w \<Rightarrow> 'w"
  he_stream_close :: "nat \<Rightarrow> 'w \<Rightarrow> 'w"
  he_stream_destroy :: "nat \<Rightarrow> 'w \<Rightarrow> 'w"
  he_close_fd :: "int \<Rightarrow> 'w \<Rightarrow> 'w"
  he_acc_create :: "'w \<Rightarrow> bool \<times> 'w"
  he_acc_listen :: "string option \<Rightarrow> 16 word \<Rightarrow> int \<Rightarrow> 'w \<Rightarrow> int \<times> 'w"
  he_acc_port :: "'w \<Rightarrow> int"
  he_acc_destroy :: "'w \<Rightarrow> 'w"

type_synonym 'w http_user = "http_event \<Rightarrow> 'w http_st \<Rightarrow> (bool \<times> 'w http_st) option"

definition HTTP_HEADER_BUF_SIZE :: nat where "HTTP_HEADER_BUF_SIZE = 4096"
definition HTTP_PROCESS_BUDGET :: nat where "HTTP_PROCESS_BUDGET = 64"
definition HTTP_RECV_BUF_DEFAULT :: nat where "HTTP_RECV_BUF_DEFAULT = 4096"
definition HTTP_OVERFLOW_PROCESS_LIMIT :: nat where "HTTP_OVERFLOW_PROCESS_LIMIT = 16"
definition HTTP_IDLE_TIMEOUT_DEFAULT_MS :: "32 word" where "HTTP_IDLE_TIMEOUT_DEFAULT_MS = 60000"

section \<open>State\<close>

definition put :: "nat \<Rightarrow> sevent_http_conn \<Rightarrow> 'w http_st \<Rightarrow> 'w http_st" where
  "put p c s = s\<lparr>st_mem := (st_mem s)(p \<mapsto> c)\<rparr>"

definition logged :: "http_act \<Rightarrow> 'w http_st \<Rightarrow> 'w http_st" where
  "logged a s = s\<lparr>st_log := st_log s @ [a]\<rparr>"

definition in_world :: "('w \<Rightarrow> 'w) \<Rightarrow> 'w http_st \<Rightarrow> 'w http_st" where
  "in_world f s = s\<lparr>st_w := f (st_w s)\<rparr>"

definition http_status_text :: "int \<Rightarrow> string option" where
  "http_status_text status =
     (if status = 200 then Some ''OK'' else if status = 201 then Some ''Created''
      else if status = 204 then Some ''No Content'' else if status = 301 then Some ''Moved Permanently''
      else if status = 302 then Some ''Found'' else if status = 304 then Some ''Not Modified''
      else if status = 400 then Some ''Bad Request'' else if status = 401 then Some ''Unauthorized''
      else if status = 403 then Some ''Forbidden'' else if status = 404 then Some ''Not Found''
      else if status = 405 then Some ''Method Not Allowed'' else if status = 409 then Some ''Conflict''
      else if status = 413 then Some ''Payload Too Large'' else if status = 429 then Some ''Too Many Requests''
      else if status = 500 then Some ''Internal Server Error'' else if status = 501 then Some ''Not Implemented''
      else if status = 502 then Some ''Bad Gateway'' else if status = 503 then Some ''Service Unavailable''
      else None)"

definition conn_dying :: "sevent_http_conn \<Rightarrow> bool" where
  "conn_dying c \<longleftrightarrow> hc_state c = HTTP_CONN_CLOSING \<or> hc_state c = HTTP_CONN_CLOSED \<or> hc_state c = HTTP_CONN_RELEASED"

definition conn_dead :: "sevent_http_conn \<Rightarrow> bool" where
  "conn_dead c \<longleftrightarrow> hc_state c = HTTP_CONN_CLOSED \<or> hc_state c = HTTP_CONN_RELEASED"

fun http_state_ok :: "http_conn_state \<Rightarrow> http_conn_state \<Rightarrow> bool" where
  "http_state_ok HTTP_CONN_NEW ns = (ns = HTTP_CONN_PARSING \<or> ns = HTTP_CONN_CLOSING \<or> ns = HTTP_CONN_CLOSED)"
| "http_state_ok HTTP_CONN_PARSING ns = (ns = HTTP_CONN_REQUEST \<or> ns = HTTP_CONN_CLOSING \<or> ns = HTTP_CONN_CLOSED)"
| "http_state_ok HTTP_CONN_REQUEST ns =
     (ns = HTTP_CONN_AWAIT_RESP \<or> ns = HTTP_CONN_RESPONDING \<or> ns = HTTP_CONN_RELEASED
      \<or> ns = HTTP_CONN_PARSING \<or> ns = HTTP_CONN_CLOSING \<or> ns = HTTP_CONN_CLOSED)"
| "http_state_ok HTTP_CONN_AWAIT_RESP ns =
     (ns = HTTP_CONN_PARSING \<or> ns = HTTP_CONN_RESPONDING \<or> ns = HTTP_CONN_CLOSING \<or> ns = HTTP_CONN_CLOSED)"
| "http_state_ok HTTP_CONN_RESPONDING ns = (ns = HTTP_CONN_PARSING \<or> ns = HTTP_CONN_CLOSING \<or> ns = HTTP_CONN_CLOSED)"
| "http_state_ok HTTP_CONN_CLOSING ns = (ns = HTTP_CONN_CLOSED)"
| "http_state_ok HTTP_CONN_RELEASED ns = False"
| "http_state_ok HTTP_CONN_CLOSED ns = False"

text \<open>The transition is recorded; the code prints it, and a warning when \<open>http_state_ok\<close> refuses it.\<close>

definition http_state_set :: "nat \<Rightarrow> http_conn_state \<Rightarrow> 'w http_st \<Rightarrow> 'w http_st option" where
  "http_state_set p ns s = do {
     c \<leftarrow> st_mem s p;
     Some (put p (c\<lparr>hc_state := ns\<rparr>) (logged (HttpState p (hc_state c) ns) s))
   }"

definition http_sevent_post :: "'w http_env \<Rightarrow> http_post \<Rightarrow> 'w http_st \<Rightarrow> bool \<times> 'w http_st" where
  "http_sevent_post env it s =
     (let (ok, w) = he_post env (st_w s)
      in (ok, s\<lparr>st_w := w, st_posts := (if ok then st_posts s @ [it] else st_posts s)\<rparr>))"

text \<open>
  \<open>conn_unlink\<close> walks a pointer to a link: the head of the list (\<^term>\<open>None\<close>) or the \<open>next\<close>
  field of the object \<^term>\<open>q\<close>.
\<close>

partial_function (option) unlink_walk ::
  "nat \<Rightarrow> nat option \<Rightarrow> nat option \<Rightarrow> 'w http_st \<Rightarrow> 'w http_st option" where
  "unlink_walk p link cur s =
     (case cur of
        None \<Rightarrow> Some s
      | Some x \<Rightarrow> do {
          c \<leftarrow> st_mem s x;
          if x \<noteq> p then unlink_walk p (Some x) (hc_next c) s
          else (case link of
                  None \<Rightarrow> do { v \<leftarrow> st_srv s; Some (s\<lparr>st_srv := Some (v\<lparr>sv_conns := hc_next c\<rparr>)\<rparr>) }
                | Some q \<Rightarrow> do { cq \<leftarrow> st_mem s q; Some (put q (cq\<lparr>hc_next := hc_next c\<rparr>) s) })
        })"

definition conn_unlink :: "nat \<Rightarrow> 'w http_st \<Rightarrow> 'w http_st option" where
  "conn_unlink p s = do { v \<leftarrow> st_srv s; unlink_walk p None (sv_conns v) s }"

definition conn_stream_kill :: "'w http_env \<Rightarrow> nat \<Rightarrow> 'w http_st \<Rightarrow> 'w http_st option" where
  "conn_stream_kill env p s = do {
     c \<leftarrow> st_mem s p;
     Some (if hc_stream c
           then put p (c\<lparr>hc_stream := False\<rparr>)
                  (in_world (he_stream_destroy env p) (in_world (he_stream_close env p)
                     (s\<lparr>st_streams := (st_streams s)(p := None)\<rparr>)))
           else s)
   }"

definition conn_idle_stop :: "nat \<Rightarrow> 'w http_st \<Rightarrow> 'w http_st option" where
  "conn_idle_stop p s = do {
     c \<leftarrow> st_mem s p;
     case hc_idle_timer c of
       None \<Rightarrow> Some s
     | Some t \<Rightarrow> do {
         v \<leftarrow> st_srv s;
         Some (put p (c\<lparr>hc_idle_timer := None\<rparr>) (s\<lparr>st_timers := (st_timers s)(t := None)\<rparr>))
       }
   }"

definition conn_idle_reset :: "'w http_env \<Rightarrow> nat \<Rightarrow> 'w http_st \<Rightarrow> 'w http_st option" where
  "conn_idle_reset env p s = do {
     c \<leftarrow> st_mem s p;
     v \<leftarrow> st_srv s;
     if sg_idle_timeout_ms (sv_cfg v) < 0 then Some s
     else do {
       let ms = (if sg_idle_timeout_ms (sv_cfg v) \<noteq> 0 then word_of_int (sg_idle_timeout_ms (sv_cfg v))
                 else HTTP_IDLE_TIMEOUT_DEFAULT_MS);
       s \<leftarrow> conn_idle_stop p s;
       c \<leftarrow> st_mem s p;
       let (ok, w) = he_timer_register env ms (st_w s);
       Some (if ok then put p (c\<lparr>hc_idle_timer := Some (st_fresh s)\<rparr>)
                          (s\<lparr>st_w := w, st_timers := (st_timers s)(st_fresh s \<mapsto> p), st_fresh := Suc (st_fresh s)\<rparr>)
             else put p (c\<lparr>hc_idle_timer := None\<rparr>) (s\<lparr>st_w := w\<rparr>))
     }
   }"

section \<open>End of a connection\<close>

definition conn_close_graceful :: "'w http_env \<Rightarrow> nat \<Rightarrow> 'w http_st \<Rightarrow> 'w http_st option" where
  "conn_close_graceful env p s = do {
     c \<leftarrow> st_mem s p;
     if conn_dying c then Some s
     else do {
       s \<leftarrow> http_state_set p HTTP_CONN_CLOSING s;
       Some (if hc_stream c then in_world (he_shutdown_wr env p) s else s)
     }
   }"

definition conn_cleanup :: "nat \<Rightarrow> 'w http_st \<Rightarrow> 'w http_st option" where
  "conn_cleanup p s = do {
     c \<leftarrow> st_mem s p;
     Some (logged (HttpFree p) (s\<lparr>st_mem := (st_mem s)(p := None)\<rparr>))
   }"

definition post_cleanup :: "'w http_env \<Rightarrow> nat \<Rightarrow> 'w http_st \<Rightarrow> 'w http_st option" where
  "post_cleanup env p s =
     (let (ok, s) = http_sevent_post env (ConnCleanup p) s in if ok then Some s else conn_cleanup p s)"

definition notify_close :: "'w http_user \<Rightarrow> nat \<Rightarrow> 'w http_st \<Rightarrow> 'w http_st option" where
  "notify_close user p s = do {
     v \<leftarrow> st_srv s;
     c \<leftarrow> st_mem s p;
     if sv_on_conn_close v \<and> \<not> hc_released c
     then map_option snd (user (OnConnClose p) (logged (HttpClosed p) s))
     else Some s
   }"

definition conn_notify_deferred_free :: "'w http_env \<Rightarrow> 'w http_user \<Rightarrow> nat \<Rightarrow> 'w http_st \<Rightarrow> 'w http_st option" where
  "conn_notify_deferred_free env user p s = do {
     s \<leftarrow> notify_close user p s;
     v \<leftarrow> st_srv s;
     post_cleanup env p s
   }"

definition conn_free :: "'w http_env \<Rightarrow> 'w http_user \<Rightarrow> nat \<Rightarrow> 'w http_st \<Rightarrow> 'w http_st option" where
  "conn_free env user p s = do {
     c \<leftarrow> st_mem s p;
     s \<leftarrow> conn_unlink p s;
     conn_notify_deferred_free env user p s
   }"

definition conn_terminate :: "'w http_env \<Rightarrow> 'w http_user \<Rightarrow> nat \<Rightarrow> 'w http_st \<Rightarrow> 'w http_st option" where
  "conn_terminate env user p s = do {
     c \<leftarrow> st_mem s p;
     if conn_dead c then Some s
     else do {
       s \<leftarrow> http_state_set p HTTP_CONN_CLOSED s;
       s \<leftarrow> conn_idle_stop p s;
       s \<leftarrow> conn_stream_kill env p s;
       conn_free env user p s
     }
   }"

definition on_idle_timeout :: "'w http_env \<Rightarrow> 'w http_user \<Rightarrow> nat \<Rightarrow> 'w http_st \<Rightarrow> 'w http_st option" where
  "on_idle_timeout env user p s = do {
     s \<leftarrow> conn_idle_stop p s;
     c \<leftarrow> st_mem s p;
     if hc_state c = HTTP_CONN_PARSING \<or> hc_state c = HTTP_CONN_AWAIT_RESP \<or> hc_state c = HTTP_CONN_CLOSING
     then conn_terminate env user p s else Some s
   }"

text \<open>The callbacks the stream is given for the end of a connection.\<close>

definition conn_on_close :: "'w http_env \<Rightarrow> 'w http_user \<Rightarrow> nat \<Rightarrow> 'w http_st \<Rightarrow> 'w http_st option" where
  "conn_on_close env user p s = do {
     c \<leftarrow> st_mem s p;
     if hc_released c then Some s else conn_terminate env user p s
   }"

definition conn_on_error :: "'w http_env \<Rightarrow> 'w http_user \<Rightarrow> nat \<Rightarrow> int \<Rightarrow> 'w http_st \<Rightarrow> 'w http_st option" where
  "conn_on_error env user p err s = do {
     c \<leftarrow> st_mem s p;
     if hc_released c then Some s else conn_terminate env user p s
   }"

text \<open>\<open>sevent_stream_write(c->stream, ...)\<close>: a failing write notifies before it returns.\<close>

definition conn_stream_write ::
  "'w http_env \<Rightarrow> 'w http_user \<Rightarrow> nat \<Rightarrow> bytes \<Rightarrow> 'w http_st \<Rightarrow> (int \<times> 'w http_st) option" where
  "conn_stream_write env user p bs s = do {
     c \<leftarrow> st_mem s p;
     if \<not> hc_stream c then Some (SEVENT_ERR_INVAL, s)
     else do {
       let (rc, ev, w) = he_write env p bs (st_w s);
       s \<leftarrow> (case ev of
               None \<Rightarrow> Some (s\<lparr>st_w := w\<rparr>)
             | Some StClose \<Rightarrow> conn_on_close env user p (s\<lparr>st_w := w\<rparr>)
             | Some (StError e) \<Rightarrow> conn_on_error env user p e (s\<lparr>st_w := w\<rparr>));
       Some (rc, s)
     }
   }"

section \<open>Building responses\<close>

definition head_append :: "nat \<Rightarrow> string \<Rightarrow> string \<Rightarrow> string option" where
  "head_append cap head t = (if cap - length head \<le> length t then None else Some (head @ t))"

definition resp_has_header :: "sevent_http_response \<Rightarrow> string \<Rightarrow> bool" where
  "resp_has_header resp name \<longleftrightarrow> (\<exists>h \<in> set (rp_headers resp). ci_eq (fst h) name)"

fun append_headers :: "nat \<Rightarrow> string \<Rightarrow> (string \<times> string) list \<Rightarrow> string option" where
  "append_headers cap head [] = Some head"
| "append_headers cap head ((n, v) # hs) = do {
     head \<leftarrow> head_append cap head (n @ '': '' @ v @ CRLF);
     append_headers cap head hs
   }"

definition no_body_status :: "int \<Rightarrow> bool" where
  "no_body_status status \<longleftrightarrow> status = 204 \<or> status = 304 \<or> 100 \<le> status \<and> status < 200"

definition respond_head :: "sevent_http_response \<Rightarrow> string \<Rightarrow> bool \<Rightarrow> string option" where
  "respond_head resp reason close_it = do {
     head \<leftarrow> head_append HTTP_HEADER_BUF_SIZE [] (''HTTP/1.1 '' @ dec_int (rp_status resp) @ '' '' @ reason @ CRLF);
     head \<leftarrow> append_headers HTTP_HEADER_BUF_SIZE head (rp_headers resp);
     head \<leftarrow> (if \<not> no_body_status (rp_status resp) \<and> \<not> resp_has_header resp ''Content-Length''
              then head_append HTTP_HEADER_BUF_SIZE head (''Content-Length: '' @ dec (rp_body_len resp) @ CRLF)
              else Some head);
     head \<leftarrow> (if close_it \<and> \<not> resp_has_header resp ''Connection''
              then head_append HTTP_HEADER_BUF_SIZE head (''Connection: close'' @ CRLF) else Some head);
     if HTTP_HEADER_BUF_SIZE < length head + 2 then None else Some (head @ CRLF)
   }"

definition respond_body :: "sevent_http_response \<Rightarrow> bytes" where
  "respond_body resp = take (rp_body_len resp) (the (rp_body resp))"

definition conn_respond_build ::
  "'w http_env \<Rightarrow> 'w http_user \<Rightarrow> nat \<Rightarrow> sevent_http_response \<Rightarrow> bool \<Rightarrow> 'w http_st \<Rightarrow> ((int \<times> bool) \<times> 'w http_st) option" where
  "conn_respond_build env user p resp internal_close s =
     (case (case rp_text resp of Some t \<Rightarrow> Some t | None \<Rightarrow> http_status_text (rp_status resp)) of
        None \<Rightarrow> Some ((SEVENT_ERR_INVAL, False), s)
      | Some reason \<Rightarrow>
          if 0 < rp_body_len resp \<and> rp_body resp = None then Some ((SEVENT_ERR_INVAL, False), s)
          else if no_body_status (rp_status resp) \<and> 0 < rp_body_len resp then Some ((SEVENT_ERR_INVAL, False), s)
          else do {
            let (ok, w) = he_malloc env HTTP_HEADER_BUF_SIZE (st_w s);
            let s = s\<lparr>st_w := w\<rparr>;
            if \<not> ok then Some ((SEVENT_ERR_NOMEM, False), s)
            else do {
              c \<leftarrow> st_mem s p;
              let close_it = (rp_close resp \<or> internal_close \<or> \<not> hc_req_keep_alive c);
              case respond_head resp reason close_it of
                None \<Rightarrow> Some ((SEVENT_ERR_INVAL, False), s)
              | Some head \<Rightarrow> do {
                  (rc, s) \<leftarrow> conn_stream_write env user p (bytes_of head) s;
                  if rc \<noteq> 0 then Some ((SEVENT_ERR_WRITE, False), s)
                  else if 0 < rp_body_len resp then do {
                    (rc, s) \<leftarrow> conn_stream_write env user p (respond_body resp) s;
                    Some (if rc \<noteq> 0 then ((SEVENT_ERR_WRITE, False), s) else ((0, close_it), s))
                  }
                  else Some ((0, close_it), s)
                }
            }
          })"

definition conn_response_complete :: "'w http_env \<Rightarrow> nat \<Rightarrow> bool \<Rightarrow> 'w http_st \<Rightarrow> 'w http_st option" where
  "conn_response_complete env p was_async s = do {
     c \<leftarrow> st_mem s p;
     if hc_close_pending c then conn_close_graceful env p s
     else do {
       s \<leftarrow> http_state_set p HTTP_CONN_PARSING s;
       s \<leftarrow> conn_idle_reset env p s;
       c \<leftarrow> st_mem s p;
       if was_async \<and> hc_recv c \<noteq> []
       then (let (ok, s) = http_sevent_post env (ProcessPost p) s
             in if ok then Some s else conn_close_graceful env p s)
       else Some s
     }
   }"

definition http_response0 :: sevent_http_response where
  "http_response0 = \<lparr>rp_status = 0, rp_text = None, rp_close = False, rp_body = None, rp_body_len = 0, rp_headers = []\<rparr>"

definition http_respond_internal ::
  "'w http_env \<Rightarrow> 'w http_user \<Rightarrow> nat \<Rightarrow> int \<Rightarrow> bool \<Rightarrow> 'w http_st \<Rightarrow> 'w http_st option" where
  "http_respond_internal env user p status close_it s = do {
     c \<leftarrow> st_mem s p;
     if conn_dying c then Some s
     else do {
       ((rc, need_shutdown), s) \<leftarrow> conn_respond_build env user p (http_response0\<lparr>rp_status := status\<rparr>) close_it s;
       if rc \<noteq> 0 then Some s
       else do {
         c \<leftarrow> st_mem s p;
         conn_close_graceful env p (put p (c\<lparr>hc_close_pending := True\<rparr>) s)
       }
     }
   }"

section \<open>Requests\<close>

definition request_after_callback :: "'w http_env \<Rightarrow> nat \<Rightarrow> nat \<Rightarrow> 'w http_st \<Rightarrow> 'w http_st option" where
  "request_after_callback env p consumed s = do {
     c \<leftarrow> st_mem s p;
     let c = c\<lparr>hc_recv := drop consumed (hc_recv c)\<rparr>;
     let s = put p c s;
     if hc_state c = HTTP_CONN_PARSING \<or> conn_dying c \<or> hc_state c = HTTP_CONN_RESPONDING then Some s
     else do {
       s \<leftarrow> (if hc_state c = HTTP_CONN_REQUEST
            then http_state_set p (if hc_wrote c then HTTP_CONN_RESPONDING else HTTP_CONN_AWAIT_RESP) s
            else Some s);
       conn_idle_reset env p s
     }
   }"

definition conn_dispatch ::
  "'w http_env \<Rightarrow> 'w http_user \<Rightarrow> nat \<Rightarrow> sevent_http_msg \<Rightarrow> 'w http_st \<Rightarrow> (bool \<times> 'w http_st) option" where
  "conn_dispatch env user p m s = do {
     c \<leftarrow> st_mem s p;
     v \<leftarrow> st_srv s;
     if hm_upgrade m then
       if sv_on_upgrade v then user (OnUpgrade m p) (logged (HttpDispatch p m) s)
       else do { s \<leftarrow> http_respond_internal env user p 400 True s; Some (False, s) }
     else if sv_on_request v then do {
       (_, s) \<leftarrow> user (OnRequest m p) (logged (HttpDispatch p m) s);
       Some (False, s)
     }
     else Some (False, s)
   }"

text \<open>The loop of \<open>http_process\<close>; the first argument is what is left of the budget.\<close>

fun http_process_loop :: "nat \<Rightarrow> 'w http_env \<Rightarrow> 'w http_user \<Rightarrow> nat \<Rightarrow> 'w http_st \<Rightarrow> 'w http_st option" where
  "http_process_loop budget env user p s = do {
     c \<leftarrow> st_mem s p;
     if hc_recv c = [] \<or> conn_dying c \<or> hc_state c \<noteq> HTTP_CONN_PARSING then Some s
     else (case budget of
       0 \<Rightarrow> do {
         v \<leftarrow> st_srv s;
         let (ok, s) = http_sevent_post env (ProcessPost p) s;
         if ok then Some s else conn_close_graceful env p s
       }
     | Suc left \<Rightarrow>
         (let (r, m) = sevent_http_parse (chars_of (hc_recv c))
          in if r < 0 then http_respond_internal env user p 400 True s
             else if r = 0 then
               if hc_cap c \<le> length (hc_recv c) then http_respond_internal env user p 413 True s else Some s
             else do {
               let consumed = the (hm_body m) + hm_body_len m;
               s \<leftarrow> http_state_set p HTTP_CONN_REQUEST (put p (c\<lparr>hc_req_keep_alive := hm_keep_alive m\<rparr>) s);
               c \<leftarrow> st_mem s p;
               (taken, s) \<leftarrow> conn_dispatch env user p m
                  (put p (c\<lparr>hc_close_pending := \<not> hm_keep_alive m, hc_wrote := False\<rparr>) s);
               if taken then Some s
               else do {
                 c \<leftarrow> st_mem s p;
                 if conn_dying c then Some s
                 else do {
                   s \<leftarrow> request_after_callback env p consumed s;
                   c \<leftarrow> st_mem s p;
                   if hc_state c = HTTP_CONN_PARSING then http_process_loop left env user p s else Some s
                 }
               }
             }))
   }"

declare http_process_loop.simps [simp del]

definition http_process :: "'w http_env \<Rightarrow> 'w http_user \<Rightarrow> nat \<Rightarrow> 'w http_st \<Rightarrow> 'w http_st option" where
  "http_process env user p s = http_process_loop HTTP_PROCESS_BUDGET env user p s"

definition http_process_post :: "'w http_env \<Rightarrow> 'w http_user \<Rightarrow> nat \<Rightarrow> 'w http_st \<Rightarrow> 'w http_st option" where
  "http_process_post env user p s = do {
     c \<leftarrow> st_mem s p;
     if conn_dying c then Some s
     else if hc_recv c \<noteq> [] then http_process env user p s else Some s
   }"

section \<open>The stream's callbacks\<close>

definition conn_on_open :: "'w http_env \<Rightarrow> 'w http_user \<Rightarrow> nat \<Rightarrow> 'w http_st \<Rightarrow> 'w http_st option" where
  "conn_on_open env user p s = do {
     c \<leftarrow> st_mem s p;
     v \<leftarrow> st_srv s;
     if hc_released c then Some s
     else do {
       s \<leftarrow> (if sv_on_accept v then map_option snd (user (OnAccept p) s) else Some s);
       c \<leftarrow> st_mem s p;
       if conn_dying c then conn_idle_reset env p s
       else do { s \<leftarrow> http_state_set p HTTP_CONN_PARSING s; conn_idle_reset env p s }
     }
   }"

text \<open>The loop that makes room, with the number of rounds that are left.\<close>

fun overflow_loop :: "nat \<Rightarrow> 'w http_env \<Rightarrow> 'w http_user \<Rightarrow> nat \<Rightarrow> nat \<Rightarrow> 'w http_st \<Rightarrow> 'w http_st option" where
  "overflow_loop 0 env user p len s = Some s"
| "overflow_loop (Suc k) env user p len s = do {
     c \<leftarrow> st_mem s p;
     if \<not> conn_dying c \<and> hc_state c = HTTP_CONN_PARSING \<and> hc_recv c \<noteq> [] \<and> hc_cap c - length (hc_recv c) < len
     then do { s \<leftarrow> http_process env user p s; overflow_loop k env user p len s }
     else Some s
   }"

definition conn_receive :: "'w http_env \<Rightarrow> 'w http_user \<Rightarrow> nat \<Rightarrow> bytes \<Rightarrow> 'w http_st \<Rightarrow> 'w http_st option" where
  "conn_receive env user p data s = do {
     c \<leftarrow> st_mem s p;
     s \<leftarrow> conn_idle_reset env p (put p (c\<lparr>hc_recv := hc_recv c @ data\<rparr>) s);
     c \<leftarrow> st_mem s p;
     if hc_state c = HTTP_CONN_PARSING then http_process env user p s else Some s
   }"

definition conn_on_data :: "'w http_env \<Rightarrow> 'w http_user \<Rightarrow> nat \<Rightarrow> bytes \<Rightarrow> 'w http_st \<Rightarrow> 'w http_st option" where
  "conn_on_data env user p data s = do {
     c \<leftarrow> st_mem s p;
     if conn_dying c then Some s
     else if hc_cap c - length (hc_recv c) < length data then
       if hc_state c = HTTP_CONN_PARSING then do {
         s \<leftarrow> overflow_loop HTTP_OVERFLOW_PROCESS_LIMIT env user p (length data) s;
         c \<leftarrow> st_mem s p;
         if \<not> conn_dying c \<and> hc_state c = HTTP_CONN_PARSING \<and> length data \<le> hc_cap c - length (hc_recv c)
         then conn_receive env user p data s
         else conn_close_graceful env p s
       }
       else conn_close_graceful env p s
     else conn_receive env user p data s
   }"

definition conn_stream_init :: "sevent_http_conn \<Rightarrow> stream_init" where
  "conn_stream_init c = \<lparr>si_connect_timeout_ms = 0, si_recv_buf_size = hc_cap c\<rparr>"

section \<open>Public functions of a connection\<close>

definition sevent_http_response_clear :: "sevent_http_response \<Rightarrow> sevent_http_response" where
  "sevent_http_response_clear resp = resp\<lparr>rp_headers := []\<rparr>"

definition sevent_http_conn_respond ::
  "'w http_env \<Rightarrow> 'w http_user \<Rightarrow> nat \<Rightarrow> sevent_http_response \<Rightarrow> 'w http_st \<Rightarrow> ((int \<times> sevent_http_response) \<times> 'w http_st) option" where
  "sevent_http_conn_respond env user p resp s = do {
     c \<leftarrow> st_mem s p;
     if hc_state c \<noteq> HTTP_CONN_REQUEST \<and> hc_state c \<noteq> HTTP_CONN_AWAIT_RESP then Some ((SEVENT_ERR_INVAL, resp), s)
     else if hc_wrote c then Some ((SEVENT_ERR_INVAL, resp), s)
     else do {
       ((rc, need_shutdown), s) \<leftarrow> conn_respond_build env user p resp False s;
       let resp = sevent_http_response_clear resp;
       if rc \<noteq> 0 then Some ((rc, resp), s)
       else do {
         c \<leftarrow> st_mem s p;
         let was_await = (hc_state c = HTTP_CONN_AWAIT_RESP);
         s \<leftarrow> conn_response_complete env p was_await
                (put p (c\<lparr>hc_close_pending := hc_close_pending c \<or> need_shutdown\<rparr>) s);
         Some ((0, resp), s)
       }
     }
   }"

definition sevent_http_conn_write ::
  "'w http_env \<Rightarrow> 'w http_user \<Rightarrow> nat \<Rightarrow> bytes option \<Rightarrow> nat \<Rightarrow> 'w http_st \<Rightarrow> (int \<times> 'w http_st) option" where
  "sevent_http_conn_write env user p buf len s =
     (if buf = None \<and> len \<noteq> 0 then Some (SEVENT_ERR_INVAL, s)
      else do {
        c \<leftarrow> st_mem s p;
        if hc_state c \<noteq> HTTP_CONN_REQUEST \<and> hc_state c \<noteq> HTTP_CONN_AWAIT_RESP \<and> hc_state c \<noteq> HTTP_CONN_RESPONDING
        then Some (SEVENT_ERR_INVAL, s)
        else if len = 0 then Some (0, s)
        else do {
          (rc, s) \<leftarrow> conn_stream_write env user p (take len (the buf)) s;
          if rc \<noteq> 0 then Some (SEVENT_ERR_WRITE, s)
          else do {
            c \<leftarrow> st_mem s p;
            let s = put p (c\<lparr>hc_wrote := True\<rparr>) s;
            s \<leftarrow> (if hc_state c = HTTP_CONN_AWAIT_RESP then http_state_set p HTTP_CONN_RESPONDING s else Some s);
            Some (0, s)
          }
        }
      })"

definition sevent_http_conn_write_end :: "'w http_env \<Rightarrow> nat \<Rightarrow> 'w http_st \<Rightarrow> (int \<times> 'w http_st) option" where
  "sevent_http_conn_write_end env p s = do {
     c \<leftarrow> st_mem s p;
     if hc_state c \<noteq> HTTP_CONN_REQUEST \<and> hc_state c \<noteq> HTTP_CONN_RESPONDING then Some (SEVENT_ERR_INVAL, s)
     else do {
       s \<leftarrow> conn_response_complete env p (hc_state c = HTTP_CONN_RESPONDING) s;
       Some (0, s)
     }
   }"

definition sevent_http_conn_close :: "'w http_env \<Rightarrow> nat \<Rightarrow> 'w http_st \<Rightarrow> 'w http_st option" where
  "sevent_http_conn_close env p s = do {
     c \<leftarrow> st_mem s p;
     if conn_dying c then Some s
     else conn_close_graceful env p (put p (c\<lparr>hc_close_pending := True\<rparr>) s)
   }"

definition sevent_http_conn_get_stream :: "nat \<Rightarrow> 'w http_st \<Rightarrow> bool option" where
  "sevent_http_conn_get_stream p s = do { c \<leftarrow> st_mem s p; Some (\<not> conn_dying c \<and> hc_stream c) }"

definition sevent_http_conn_state :: "nat \<Rightarrow> 'w http_st \<Rightarrow> http_conn_state option" where
  "sevent_http_conn_state p s = do { c \<leftarrow> st_mem s p; Some (hc_state c) }"

section \<open>Hand-over to the websocket layer\<close>

definition sevent_http_conn_i_release :: "nat \<Rightarrow> 'w http_st \<Rightarrow> (int \<times> 'w http_st) option" where
  "sevent_http_conn_i_release p s = do {
     c \<leftarrow> st_mem s p;
     if hc_released c then Some (SEVENT_ERR_INVAL, s)
     else if hc_state c \<noteq> HTTP_CONN_REQUEST then Some (SEVENT_ERR_INVAL, s)
     else do {
       s \<leftarrow> http_state_set p HTTP_CONN_RELEASED (put p (c\<lparr>hc_released := True\<rparr>) s);
       s \<leftarrow> conn_idle_stop p s;
       s \<leftarrow> conn_unlink p s;
       Some (0, s)
     }
   }"

text \<open>The stream gets the callbacks of the websocket layer before it can call again.\<close>

definition sevent_http_conn_i_detach_stream :: "nat \<Rightarrow> 'w http_st \<Rightarrow> (bool \<times> 'w http_st) option" where
  "sevent_http_conn_i_detach_stream p s = do {
     c \<leftarrow> st_mem s p;
     Some (if \<not> hc_released c then (False, s)
           else (hc_stream c, put p (c\<lparr>hc_stream := False\<rparr>) (s\<lparr>st_streams := (st_streams s)(p := None)\<rparr>)))
   }"

definition sevent_http_conn_i_take_recv :: "nat \<Rightarrow> 'w http_st \<Rightarrow> ((bytes \<times> nat) option \<times> 'w http_st) option" where
  "sevent_http_conn_i_take_recv p s = do {
     c \<leftarrow> st_mem s p;
     Some (if \<not> hc_released c \<or> \<not> hc_has_buf c then (None, s)
           else (Some (hc_recv c, hc_cap c), put p (c\<lparr>hc_has_buf := False, hc_recv := [], hc_cap := 0\<rparr>) s))
   }"

definition sevent_http_conn_i_destroy :: "'w http_env \<Rightarrow> nat \<Rightarrow> 'w http_st \<Rightarrow> 'w http_st option" where
  "sevent_http_conn_i_destroy env p s = do {
     c \<leftarrow> st_mem s p;
     if \<not> hc_released c then Some s else do { v \<leftarrow> st_srv s; post_cleanup env p s }
   }"

definition sevent_http_conn_i_ev :: "nat \<Rightarrow> 'w http_st \<Rightarrow> bool option" where
  "sevent_http_conn_i_ev p s = do {
     c \<leftarrow> st_mem s p;
     if \<not> hc_released c then Some False else do { v \<leftarrow> st_srv s; Some True }
   }"

section \<open>Header lists\<close>

definition sevent_http_response_init :: sevent_http_response where
  "sevent_http_response_init = http_response0"

fun set_first :: "string \<Rightarrow> string \<Rightarrow> (string \<times> string) list \<Rightarrow> (string \<times> string) list option" where
  "set_first n v [] = None"
| "set_first n v ((n', v') # hs) = (if n' = n then Some ((n', v) # hs) else map_option ((#) (n', v')) (set_first n v hs))"

text \<open>The three allocations (both copies are made before either is checked) as arguments.\<close>

definition response_header_add_node ::
  "bool \<Rightarrow> bool \<Rightarrow> bool \<Rightarrow> sevent_http_response \<Rightarrow> string option \<Rightarrow> string option \<Rightarrow> bool \<Rightarrow> int \<times> sevent_http_response" where
  "response_header_add_node name_ok value_ok node_ok resp name val dedup =
     (case (name, val) of
        (Some n, Some v) \<Rightarrow>
          if \<not> name_ok \<or> \<not> value_ok then (SEVENT_ERR_NOMEM, resp)
          else (case (if dedup then set_first n v (rp_headers resp) else None) of
                  Some hs \<Rightarrow> (0, resp\<lparr>rp_headers := hs\<rparr>)
                | None \<Rightarrow> if \<not> node_ok then (SEVENT_ERR_NOMEM, resp)
                          else (0, resp\<lparr>rp_headers := (n, v) # rp_headers resp\<rparr>))
      | _ \<Rightarrow> (SEVENT_ERR_INVAL, resp))"

definition sevent_http_response_header_set ::
  "bool \<Rightarrow> bool \<Rightarrow> bool \<Rightarrow> sevent_http_response \<Rightarrow> string option \<Rightarrow> string option \<Rightarrow> int \<times> sevent_http_response" where
  "sevent_http_response_header_set a b d resp name val = response_header_add_node a b d resp name val True"

definition sevent_http_response_header_add ::
  "bool \<Rightarrow> bool \<Rightarrow> bool \<Rightarrow> sevent_http_response \<Rightarrow> string option \<Rightarrow> string option \<Rightarrow> int \<times> sevent_http_response" where
  "sevent_http_response_header_add a b d resp name val = response_header_add_node a b d resp name val False"

fun del_walk :: "string \<Rightarrow> (string \<times> string) list \<Rightarrow> nat \<times> (string \<times> string) list" where
  "del_walk n [] = (0, [])"
| "del_walk n ((n', v) # hs) = (let (k, hs') = del_walk n hs in if n' = n then (Suc k, hs') else (k, (n', v) # hs'))"

definition sevent_http_response_header_del :: "sevent_http_response \<Rightarrow> string option \<Rightarrow> nat \<times> sevent_http_response" where
  "sevent_http_response_header_del resp name =
     (case name of None \<Rightarrow> (0, resp)
      | Some n \<Rightarrow> (let (k, hs) = del_walk n (rp_headers resp) in (k, resp\<lparr>rp_headers := hs\<rparr>)))"

section \<open>The server\<close>

definition http_conn0 :: sevent_http_conn where
  "http_conn0 = \<lparr>hc_stream = False, hc_state = HTTP_CONN_NEW, hc_recv = [], hc_has_buf = False, hc_cap = 0,
     hc_req_keep_alive = False, hc_close_pending = False, hc_released = False, hc_wrote = False,
     hc_idle_timer = None, hc_next = None\<rparr>"

definition srv_conn_abort :: "'w http_env \<Rightarrow> nat \<Rightarrow> 'w http_st \<Rightarrow> 'w http_st option" where
  "srv_conn_abort env p s = do { s \<leftarrow> conn_stream_kill env p s; conn_cleanup p s }"

definition srv_stream_config :: "sevent_http_server_config \<Rightarrow> stream_conn_config" where
  "srv_stream_config cfg =
     \<lparr>sc_enable_tls = sg_enable_tls cfg, sc_ca_path = sg_ca_path cfg, sc_ca_pem = sg_ca_pem cfg,
      sc_cert_path = sg_cert_path cfg, sc_cert_pem = sg_cert_pem cfg, sc_key_path = sg_key_path cfg,
      sc_key_pem = sg_key_pem cfg, sc_enable_peer_verify = sg_verify_peer cfg,
      sc_enable_hostname_verify = False, sc_tls_hostname = None\<rparr>"

definition srv_recv_cap :: "sevent_http_server_config \<Rightarrow> nat" where
  "srv_recv_cap cfg = (if sg_recv_buf_size cfg \<noteq> 0 then sg_recv_buf_size cfg else HTTP_RECV_BUF_DEFAULT)"

definition srv_on_accept :: "'w http_env \<Rightarrow> 'w http_user \<Rightarrow> int \<Rightarrow> 'w http_st \<Rightarrow> 'w http_st option" where
  "srv_on_accept env user fd s = do {
     let p = st_fresh s;
     let (ok, w) = he_malloc env 1 (st_w s);
     let s = s\<lparr>st_w := w, st_fresh := Suc p\<rparr>;
     if \<not> ok then Some (in_world (he_close_fd env fd) s)
     else do {
       v \<leftarrow> st_srv s;
       let cap = srv_recv_cap (sv_cfg v);
       let (ok, w) = he_malloc env cap (st_w s);
       let c = http_conn0\<lparr>hc_cap := cap, hc_has_buf := ok\<rparr>;
       let s = put p c (s\<lparr>st_w := w\<rparr>);
       if \<not> ok then srv_conn_abort env p (in_world (he_close_fd env fd) s)
       else do {
         let (ok, w) = he_stream_create env (srv_stream_config (sv_cfg v)) (st_w s);
         let c = c\<lparr>hc_stream := ok\<rparr>;
         let s = put p c (s\<lparr>st_w := w\<rparr>);
         if \<not> ok then srv_conn_abort env p (in_world (he_close_fd env fd) s)
         else do {
           let (rc, w) = he_stream_accept env p fd (conn_stream_init c) (st_w s);
           let s = s\<lparr>st_w := w\<rparr>;
           if rc < 0 then do {
             s \<leftarrow> srv_conn_abort env p s;
             let s = in_world (he_close_fd env fd) s;
             v \<leftarrow> st_srv s;
             if sv_on_error v then map_option snd (user (OnError rc) s) else Some s
           }
           else Some (put p (c\<lparr>hc_next := sv_conns v\<rparr>)
                  (s\<lparr>st_streams := (st_streams s)(p \<mapsto> False), st_srv := Some (v\<lparr>sv_conns := Some p\<rparr>)\<rparr>))
         }
       }
     }
   }"

text \<open>The copies of the six strings: those that are given and cannot be allocated end the creation.\<close>

definition sevent_http_server_create ::
  "'w http_env \<Rightarrow> sevent_http_server_config \<Rightarrow> 'w \<Rightarrow> http_server option \<times> 'w" where
  "sevent_http_server_create env cfg w =
     (let (ok, w) = he_malloc env 1 w
      in if \<not> ok then (None, w)
         else
           let (copied, w) = fold (\<lambda>x (ok, w). case x of None \<Rightarrow> (ok, w)
                 | Some t \<Rightarrow> let (ok', w) = he_malloc env (Suc (length t)) w in (ok \<and> ok', w))
               [sg_cert_path cfg, sg_cert_pem cfg, sg_key_path cfg, sg_key_pem cfg, sg_ca_path cfg, sg_ca_pem cfg] (True, w)
           in if \<not> copied then (None, w)
              else
                let (ok, w) = he_acc_create env w
                in if \<not> ok then (None, w)
                   else (Some \<lparr>sv_cfg = cfg, sv_on_accept = False, sv_on_request = False, sv_on_upgrade = False,
                           sv_on_conn_close = False, sv_on_error = False, sv_conns = None, sv_destroyed = False\<rparr>, w))"

definition sevent_http_server_listen ::
  "'w http_env \<Rightarrow> string option \<Rightarrow> 16 word \<Rightarrow> int \<Rightarrow> bool \<Rightarrow> bool \<Rightarrow> bool \<Rightarrow> bool \<Rightarrow> bool \<Rightarrow> 'w http_st \<Rightarrow> (int \<times> 'w http_st) option" where
  "sevent_http_server_listen env host port backlog on_accept on_request on_upgrade on_conn_close on_error s = do {
     v \<leftarrow> st_srv s;
     if \<not> on_request \<and> \<not> on_upgrade then Some (SEVENT_ERR_INVAL, s)
     else do {
       let v = v\<lparr>sv_on_accept := on_accept, sv_on_request := on_request, sv_on_upgrade := on_upgrade,
                 sv_on_conn_close := on_conn_close, sv_on_error := on_error\<rparr>;
       let (rc, w) = he_acc_listen env host port backlog (st_w s);
       Some (rc, s\<lparr>st_srv := Some v, st_w := w\<rparr>)
     }
   }"

definition sevent_http_server_port :: "'w http_env \<Rightarrow> 'w http_st \<Rightarrow> 16 word option" where
  "sevent_http_server_port env s = do {
     v \<leftarrow> st_srv s;
     let port = he_acc_port env (st_w s);
     Some (if 0 < port then word_of_int port else 0)
   }"

text \<open>The loop of \<open>srv_cleanup\<close>: the successor is read before the callback runs.\<close>

partial_function (option) srv_cleanup_loop ::
  "'w http_env \<Rightarrow> 'w http_user \<Rightarrow> nat option \<Rightarrow> 'w http_st \<Rightarrow> 'w http_st option" where
  "srv_cleanup_loop env user cur s =
     (case cur of
        None \<Rightarrow> Some s
      | Some p \<Rightarrow> do {
          c \<leftarrow> st_mem s p;
          s \<leftarrow> http_state_set p HTTP_CONN_CLOSED s;
          s \<leftarrow> conn_idle_stop p s;
          s \<leftarrow> notify_close user p s;
          s \<leftarrow> conn_stream_kill env p s;
          s \<leftarrow> post_cleanup env p s;
          srv_cleanup_loop env user (hc_next c) s
        })"

definition srv_cleanup :: "'w http_env \<Rightarrow> 'w http_user \<Rightarrow> 'w http_st \<Rightarrow> 'w http_st option" where
  "srv_cleanup env user s = do {
     v \<leftarrow> st_srv s;
     s \<leftarrow> srv_cleanup_loop env user (sv_conns v) s;
     v \<leftarrow> st_srv s;
     Some (in_world (he_acc_destroy env) (s\<lparr>st_srv := None\<rparr>))
   }"

definition sevent_http_server_destroy :: "'w http_env \<Rightarrow> 'w http_user \<Rightarrow> 'w http_st \<Rightarrow> 'w http_st option" where
  "sevent_http_server_destroy env user s = do {
     v \<leftarrow> st_srv s;
     if sv_destroyed v then Some s
     else do {
       let s = s\<lparr>st_srv := Some (v\<lparr>sv_destroyed := True\<rparr>)\<rparr>;
       let (ok, s) = http_sevent_post env SrvCleanup s;
       if ok then Some s else srv_cleanup env user s
     }
   }"

text \<open>What the loop runs for a posted task.\<close>

definition http_run_post :: "'w http_env \<Rightarrow> 'w http_user \<Rightarrow> http_post \<Rightarrow> 'w http_st \<Rightarrow> 'w http_st option" where
  "http_run_post env user it s =
     (case it of ProcessPost p \<Rightarrow> http_process_post env user p s | ConnCleanup p \<Rightarrow> conn_cleanup p s
      | SrvCleanup \<Rightarrow> srv_cleanup env user s)"

end
