(* ===== verification/Http_Inv.thy ===== *)
theory Http_Inv
  imports Http_Server
begin

text \<open>
  The invariant of \<^verbatim>\<open>src/http_server.c\<close>: the list of the server holds exactly the connections
  that are not closed, every closed connection has its release posted or pending, timers, streams
  and tasks belong to connections that exist, and the history follows the state machine. The
  operations that every path shares (changing a connection, taking it down, posting its release,
  writing) keep it.
\<close>

section \<open>The list of connections\<close>

fun conn_list :: "(nat \<rightharpoonup> sevent_http_conn) \<Rightarrow> nat option \<Rightarrow> nat list \<Rightarrow> bool" where
  "conn_list m h [] \<longleftrightarrow> h = None"
| "conn_list m h (x # xs) \<longleftrightarrow> h = Some x \<and> (\<exists>c. m x = Some c \<and> conn_list m (hc_next c) xs)"

lemma conn_list_cong:
  "(\<And>x. x \<in> set xs \<Longrightarrow> map_option hc_next (m' x) = map_option hc_next (m x)) \<Longrightarrow> conn_list m' h xs = conn_list m h xs"
proof (induction xs arbitrary: h)
  case (Cons x xs)
  have "map_option hc_next (m' x) = map_option hc_next (m x)" using Cons(2) by simp
  then show ?case using Cons by (cases "m x"; cases "m' x") auto
qed simp

lemma conn_list_upd:
  "m p = Some c \<Longrightarrow> hc_next c' = hc_next c \<Longrightarrow> conn_list (m(p \<mapsto> c')) h xs = conn_list m h xs"
  by (rule conn_list_cong) auto

lemma conn_list_new: "p \<notin> set xs \<Longrightarrow> conn_list (m(p := x)) h xs = conn_list m h xs"
  by (rule conn_list_cong) auto

lemma conn_list_mem: "conn_list m h xs \<Longrightarrow> x \<in> set xs \<Longrightarrow> \<exists>c. m x = Some c"
  by (induction xs arbitrary: h) auto

text \<open>The two memories agree but for the links.\<close>

definition same_but_next :: "(nat \<rightharpoonup> sevent_http_conn) \<Rightarrow> (nat \<rightharpoonup> sevent_http_conn) \<Rightarrow> bool" where
  "same_but_next m m' \<longleftrightarrow> (\<forall>x. rel_option (\<lambda>c c'. c'\<lparr>hc_next := None\<rparr> = c\<lparr>hc_next := None\<rparr>) (m x) (m' x))"

lemma same_refl [simp]: "same_but_next m m"
  by (simp add: same_but_next_def option.rel_refl)

lemma unlink_walk_ok:
  assumes "st_mem s q = Some cq" "conn_list (st_mem s) (hc_next cq) xs" "distinct (q # xs)" "p \<noteq> q"
  shows "\<exists>m'. unlink_walk p (Some q) (hc_next cq) s = Some (s\<lparr>st_mem := m'\<rparr>) \<and> same_but_next (st_mem s) m'
    \<and> conn_list m' (Some q) (q # remove1 p xs) \<and> (\<forall>x. x \<notin> set (q # xs) \<longrightarrow> m' x = st_mem s x)"
  using assms
proof (induction xs arbitrary: q cq)
  case Nil
  then show ?case by (subst unlink_walk.simps) (auto intro!: exI [of _ "st_mem s"])
next
  case (Cons x xs)
  then obtain cx where x: "hc_next cq = Some x" "st_mem s x = Some cx" "conn_list (st_mem s) (hc_next cx) xs" by auto
  show ?case
  proof (cases "x = p")
    case True
    let ?m = "(st_mem s)(q \<mapsto> cq\<lparr>hc_next := hc_next cx\<rparr>)"
    have "unlink_walk p (Some q) (hc_next cq) s = Some (s\<lparr>st_mem := ?m\<rparr>)"
      using x True Cons(2) by (subst unlink_walk.simps) (simp add: put_def)
    moreover have "same_but_next (st_mem s) ?m" using Cons(2) by (auto simp: same_but_next_def option.rel_refl)
    moreover have "conn_list ?m (Some q) (q # xs)"
      using Cons(4) x(3) by (simp add: conn_list_new)
    ultimately show ?thesis using True by auto
  next
    case False
    have "unlink_walk p (Some q) (hc_next cq) s = unlink_walk p (Some x) (hc_next cx) s"
      using x False by (subst unlink_walk.simps) simp
    moreover obtain m' where m': "unlink_walk p (Some x) (hc_next cx) s = Some (s\<lparr>st_mem := m'\<rparr>)" "same_but_next (st_mem s) m'"
      "conn_list m' (Some x) (x # remove1 p xs)" "\<forall>y. y \<notin> set (x # xs) \<longrightarrow> m' y = st_mem s y"
      using Cons(1) [of x cx] x False Cons(4) by auto
    moreover have "m' q = Some cq" using m'(4) Cons(2,4) by auto
    ultimately show ?thesis using x False by auto
  qed
qed

lemma conn_unlink_ok:
  assumes "st_srv s = Some v" "conn_list (st_mem s) (sv_conns v) xs" "distinct xs"
  shows "\<exists>m' h. conn_unlink p s = Some (s\<lparr>st_mem := m', st_srv := Some (v\<lparr>sv_conns := h\<rparr>)\<rparr>) \<and> same_but_next (st_mem s) m'
    \<and> conn_list m' h (remove1 p xs)"
proof (cases xs)
  case Nil
  then show ?thesis using assms
    by (intro exI [of _ "st_mem s"] exI [of _ None]) (simp add: conn_unlink_def unlink_walk.simps)
next
  case (Cons x ys)
  then obtain cx where x: "sv_conns v = Some x" "st_mem s x = Some cx" "conn_list (st_mem s) (hc_next cx) ys" using assms(2) by auto
  show ?thesis
  proof (cases "x = p")
    case True
    then show ?thesis using x assms Cons
      by (intro exI [of _ "st_mem s"] exI [of _ "hc_next cx"]) (simp add: conn_unlink_def unlink_walk.simps)
  next
    case False
    have "conn_unlink p s = unlink_walk p (Some x) (hc_next cx) s"
      using x assms(1) False by (simp add: conn_unlink_def unlink_walk.simps [of p None])
    then show ?thesis
      using unlink_walk_ok [of s x cx ys p] x assms Cons False by (fastforce intro: exI [of _ "Some x"])
  qed
qed

section \<open>The invariant\<close>

definition list_ok :: "'w http_st \<Rightarrow> bool" where
  "list_ok s \<longleftrightarrow> (\<exists>v xs. st_srv s = Some v \<and> conn_list (st_mem s) (sv_conns v) xs \<and> distinct xs
     \<and> (\<forall>p. p \<in> set xs \<longleftrightarrow> (\<exists>c. st_mem s p = Some c \<and> \<not> conn_dead c))
     \<and> (\<not> sv_destroyed v \<longrightarrow> SrvCleanup \<notin> set (st_posts s)))"

lemma list_ok_posts:
  assumes "list_ok s" "st_mem s' = st_mem s" "st_srv s' = st_srv s"
    "\<And>v. st_srv s = Some v \<Longrightarrow> \<not> sv_destroyed v \<Longrightarrow> SrvCleanup \<in> set (st_posts s') \<Longrightarrow> SrvCleanup \<in> set (st_posts s)"
  shows "list_ok s'"
  using assms unfolding list_ok_def by metis

lemma list_ok_destroyed: "list_ok s \<Longrightarrow> st_srv s = Some v \<Longrightarrow> \<not> sv_destroyed v \<Longrightarrow> SrvCleanup \<notin> set (st_posts s)"
  by (auto simp: list_ok_def)

text \<open>
  What holds of one connection. \<^term>\<open>D\<close> are the connections that are just being taken down:
  closed or released, off the list, but the task that frees them is not yet posted.
\<close>

definition conn_ok :: "nat set \<Rightarrow> 'w http_st \<Rightarrow> nat \<Rightarrow> sevent_http_conn \<Rightarrow> bool" where
  "conn_ok D s p c \<longleftrightarrow>
     length (hc_recv c) \<le> hc_cap c \<and> (hc_released c \<longleftrightarrow> hc_state c = HTTP_CONN_RELEASED) \<and> p < st_fresh s
     \<and> (\<forall>t. hc_idle_timer c = Some t \<longrightarrow> st_timers s t = Some p)
     \<and> (st_streams s p \<noteq> None \<longrightarrow> hc_stream c)
     \<and> (st_streams s p = Some False \<longrightarrow> hc_state c = HTTP_CONN_NEW \<or> hc_state c = HTTP_CONN_CLOSING)
     \<and> (conn_dead c \<longrightarrow> hc_idle_timer c = None \<and> (ConnCleanup p \<in> set (st_posts s) \<longleftrightarrow> p \<notin> D))
     \<and> (\<not> conn_dead c \<longrightarrow> ConnCleanup p \<notin> set (st_posts s) \<and> p \<notin> D)
     \<and> (hc_state c \<noteq> HTTP_CONN_CLOSED \<longrightarrow> HttpClosed p \<notin> set (st_log s))
     \<and> (ConnCleanup p \<in> set (st_posts s) \<or> hc_state c = HTTP_CONN_CLOSED \<longrightarrow> st_streams s p = None)
     \<and> HttpFree p \<notin> set (st_log s)"

text \<open>A connection is freed by the last task posted for it; the server is cleaned up once.\<close>

fun post_order :: "http_post list \<Rightarrow> bool" where
  "post_order [] \<longleftrightarrow> True"
| "post_order (x # xs) \<longleftrightarrow> (\<forall>p. x = ConnCleanup p \<longrightarrow> ProcessPost p \<notin> set xs \<and> ConnCleanup p \<notin> set xs)
     \<and> (x = SrvCleanup \<longrightarrow> SrvCleanup \<notin> set xs) \<and> post_order xs"

definition log_ok :: "http_act list \<Rightarrow> bool" where
  "log_ok l \<longleftrightarrow> (\<forall>p a b. HttpState p a b \<in> set l \<longrightarrow> http_state_ok a b)
     \<and> (\<forall>p. count_list l (HttpClosed p) \<le> 1 \<and> count_list l (HttpFree p) \<le> 1)"

definition gone_ok :: "nat set \<Rightarrow> 'w http_st \<Rightarrow> nat \<Rightarrow> bool" where
  "gone_ok D s p \<longleftrightarrow> ConnCleanup p \<notin> set (st_posts s) \<and> ProcessPost p \<notin> set (st_posts s) \<and> st_streams s p = None \<and> p \<notin> D"

definition http_inv :: "nat set \<Rightarrow> 'w http_st \<Rightarrow> bool" where
  "http_inv D s \<longleftrightarrow> list_ok s
     \<and> (\<forall>p. case st_mem s p of None \<Rightarrow> gone_ok D s p | Some c \<Rightarrow> conn_ok D s p c)
     \<and> (\<forall>t p. st_timers s t = Some p \<longrightarrow> t < st_fresh s \<and> (\<exists>c. st_mem s p = Some c \<and> hc_idle_timer c = Some t))
     \<and> (\<forall>p. st_fresh s \<le> p \<longrightarrow> HttpClosed p \<notin> set (st_log s) \<and> HttpFree p \<notin> set (st_log s))
     \<and> post_order (st_posts s) \<and> log_ok (st_log s)"

lemma http_invD:
  assumes "http_inv D s"
  shows "list_ok s" "\<exists>v. st_srv s = Some v" "st_mem s p = Some c \<Longrightarrow> conn_ok D s p c" "st_mem s p = None \<Longrightarrow> gone_ok D s p"
    "st_timers s t = Some p \<Longrightarrow> t < st_fresh s \<and> (\<exists>c. st_mem s p = Some c \<and> hc_idle_timer c = Some t)"
    "post_order (st_posts s)" "log_ok (st_log s)"
    "st_fresh s \<le> p \<Longrightarrow> HttpClosed p \<notin> set (st_log s) \<and> HttpFree p \<notin> set (st_log s)"
  using assms unfolding http_inv_def list_ok_def by (auto dest: spec [of _ p] split: option.splits)

lemma http_invI:
  assumes "list_ok s" "\<And>p c. st_mem s p = Some c \<Longrightarrow> conn_ok D s p c" "\<And>p. st_mem s p = None \<Longrightarrow> gone_ok D s p"
    "\<And>t p. st_timers s t = Some p \<Longrightarrow> t < st_fresh s \<and> (\<exists>c. st_mem s p = Some c \<and> hc_idle_timer c = Some t)"
    "\<And>p. st_fresh s \<le> p \<Longrightarrow> HttpClosed p \<notin> set (st_log s) \<and> HttpFree p \<notin> set (st_log s)"
    "post_order (st_posts s)" "log_ok (st_log s)"
  shows "http_inv D s"
  using assms unfolding http_inv_def by (auto split: option.splits)

lemma http_inv_srv: "http_inv D s \<Longrightarrow> \<exists>v. st_srv s = Some v" by (rule http_invD)

lemma post_order_snoc_process: "post_order (xs @ [ProcessPost p]) \<longleftrightarrow> post_order xs \<and> ConnCleanup p \<notin> set xs"
  by (induction xs) auto

lemma post_order_snoc_cleanup: "post_order (xs @ [ConnCleanup p]) \<longleftrightarrow> post_order xs \<and> ConnCleanup p \<notin> set xs"
  by (induction xs) auto

lemma post_order_snoc_srv: "post_order (xs @ [SrvCleanup]) \<longleftrightarrow> post_order xs \<and> SrvCleanup \<notin> set xs"
  by (induction xs) auto

lemmas post_order_simps = post_order_snoc_process post_order_snoc_cleanup post_order_snoc_srv

lemma count_snoc: "count_list (l @ [a]) b = (if a = b then Suc (count_list l b) else count_list l b)"
  by simp

lemma count_zero: "a \<notin> set l \<Longrightarrow> count_list l a = 0" by (simp add: count_list_0_iff)

lemma log_ok_snoc:
  "log_ok (l @ [HttpState p a b]) \<longleftrightarrow> log_ok l \<and> http_state_ok a b"
  "log_ok (l @ [HttpDispatch p m]) \<longleftrightarrow> log_ok l"
  "HttpClosed p \<notin> set l \<Longrightarrow> log_ok (l @ [HttpClosed p]) \<longleftrightarrow> log_ok l"
  "HttpFree p \<notin> set l \<Longrightarrow> log_ok (l @ [HttpFree p]) \<longleftrightarrow> log_ok l"
  by (auto simp: log_ok_def count_zero)

text \<open>Only the parts the invariant speaks about matter.\<close>

lemma http_inv_world [simp]: "http_inv D (s\<lparr>st_w := w\<rparr>) = http_inv D s" "http_inv D (in_world f s) = http_inv D s"
  by (simp_all add: http_inv_def list_ok_def conn_ok_def [abs_def] gone_ok_def [abs_def] in_world_def cong: option.case_cong)

lemma http_inv_srv_flags:
  assumes "http_inv D s" "st_srv s = Some v" "sv_conns v' = sv_conns v" "sv_destroyed v \<longrightarrow> sv_destroyed v'"
  shows "http_inv D (s\<lparr>st_srv := Some v'\<rparr>)"
proof -
  have "list_ok (s\<lparr>st_srv := Some v'\<rparr>)" using http_invD(1) [OF assms(1)] assms(2-) by (auto simp: list_ok_def)
  then show ?thesis using assms(1) by (simp add: http_inv_def conn_ok_def [abs_def] gone_ok_def [abs_def] cong: option.case_cong)
qed

text \<open>What is said of a connection depends on a few things only.\<close>

definition agree :: "nat set \<Rightarrow> nat set \<Rightarrow> 'w http_st \<Rightarrow> 'w http_st \<Rightarrow> nat \<Rightarrow> bool" where
  "agree D D' s s' q \<longleftrightarrow> st_fresh s \<le> st_fresh s' \<and> (\<forall>t. st_timers s t = Some q \<longrightarrow> st_timers s' t = Some q)
     \<and> st_streams s' q = st_streams s q \<and> (ConnCleanup q \<in> set (st_posts s') \<longleftrightarrow> ConnCleanup q \<in> set (st_posts s))
     \<and> (ProcessPost q \<in> set (st_posts s') \<longleftrightarrow> ProcessPost q \<in> set (st_posts s)) \<and> (q \<in> D' \<longleftrightarrow> q \<in> D)
     \<and> (HttpClosed q \<in> set (st_log s') \<longleftrightarrow> HttpClosed q \<in> set (st_log s)) \<and> (HttpFree q \<in> set (st_log s') \<longleftrightarrow> HttpFree q \<in> set (st_log s))"

lemma agree_ok: "agree D D' s s' q \<Longrightarrow> conn_ok D s q c \<Longrightarrow> conn_ok D' s' q c"
  unfolding agree_def conn_ok_def by auto

lemma agree_gone: "agree D D' s s' q \<Longrightarrow> gone_ok D s q \<Longrightarrow> gone_ok D' s' q"
  unfolding agree_def gone_ok_def by auto

text \<open>A change of one connection that stays alive or stays dead.\<close>

lemma list_ok_upd:
  fixes s s' :: "'w http_st"
  assumes "list_ok s" "st_mem s p = Some c" "hc_next c' = hc_next c" "conn_dead c' = conn_dead c"
    "st_mem s' = (st_mem s)(p \<mapsto> c')" "st_srv s' = st_srv s" "st_posts s' = st_posts s"
  shows "list_ok s'"
proof -
  obtain v xs where "st_srv s = Some v" "conn_list (st_mem s) (sv_conns v) xs" "distinct xs"
    "\<forall>p. p \<in> set xs \<longleftrightarrow> (\<exists>c. st_mem s p = Some c \<and> \<not> conn_dead c)" "\<not> sv_destroyed v \<longrightarrow> SrvCleanup \<notin> set (st_posts s)"
    using assms(1) unfolding list_ok_def by blast
  then show ?thesis using assms(2-) unfolding list_ok_def by (intro exI [of _ v] exI [of _ xs]) (auto simp: conn_list_upd)
qed

lemma http_inv_upd:
  fixes s s' :: "'w http_st"
  assumes i: "http_inv D s" and p: "st_mem s p = Some c" "hc_next c' = hc_next c" "conn_dead c' = conn_dead c"
    and s': "st_mem s' = (st_mem s)(p \<mapsto> c')" "st_srv s' = st_srv s" "st_fresh s' = st_fresh s"
      "st_posts s' = st_posts s" "st_streams s' = st_streams s"
    and t: "st_timers s' = st_timers s" "hc_idle_timer c' = hc_idle_timer c"
    and l: "st_log s' = st_log s \<or> (\<exists>a b. st_log s' = st_log s @ [HttpState p a b] \<and> http_state_ok a b)"
    and c': "length (hc_recv c') \<le> hc_cap c'" "hc_released c' \<longleftrightarrow> hc_state c' = HTTP_CONN_RELEASED" "hc_stream c' = hc_stream c"
      "hc_state c' = hc_state c \<or> \<not> conn_dead c \<and> hc_state c' \<noteq> HTTP_CONN_NEW \<and> (hc_state c' = HTTP_CONN_CLOSING \<or> st_streams s p \<noteq> Some False)"
  shows "http_inv D s'"
proof -
  have la: "HttpClosed q \<in> set (st_log s') \<longleftrightarrow> HttpClosed q \<in> set (st_log s)" "HttpFree q \<in> set (st_log s') \<longleftrightarrow> HttpFree q \<in> set (st_log s)"
    "log_ok (st_log s')" for q
    using l http_invD(7) [OF i] by (auto simp: log_ok_snoc)
  have pc: "conn_ok D s' p c'"
  proof (cases "hc_state c' = hc_state c")
    case True
    then show ?thesis using http_invD(3) [OF i p(1)] c'(1-3) unfolding conn_ok_def s' t la(1,2) conn_dead_def by simp
  next
    case False
    then have n: "\<not> conn_dead c" "\<not> conn_dead c'" "hc_state c' \<noteq> HTTP_CONN_CLOSED" "hc_state c' \<noteq> HTTP_CONN_RELEASED"
      "hc_state c \<noteq> HTTP_CONN_CLOSED" "st_streams s p = Some False \<Longrightarrow> hc_state c' = HTTP_CONN_CLOSING"
      using c'(4) p(3) by (auto simp: conn_dead_def)
    then show ?thesis using http_invD(3) [OF i p(1)] c'(1-3) unfolding conn_ok_def s' t la(1,2) by simp
  qed
  show ?thesis
  proof (rule http_invI)
    show "list_ok s'" by (rule list_ok_upd [OF http_invD(1) [OF i] p s'(1,2,4)])
    have ag: "agree D D s s' q" for q using la by (simp add: agree_def s' t)
    show "conn_ok D s' q cq" if "st_mem s' q = Some cq" for q cq
      using that pc agree_ok [OF ag http_invD(3) [OF i, of q cq]] by (cases "q = p") (simp_all add: s')
    show "gone_ok D s' q" if "st_mem s' q = None" for q
      using that agree_gone [OF ag http_invD(4) [OF i, of q]] by (simp add: s' split: if_splits)
    show "u < st_fresh s' \<and> (\<exists>c. st_mem s' q = Some c \<and> hc_idle_timer c = Some u)" if "st_timers s' u = Some q" for u q
      using that http_invD(5) [OF i, of u q] p(1) unfolding s' t by (auto simp: t)
    show "HttpClosed q \<notin> set (st_log s') \<and> HttpFree q \<notin> set (st_log s')" if "st_fresh s' \<le> q" for q
      using that http_invD(8) [OF i, of q] la s'(3) by simp
    show "post_order (st_posts s')" using http_invD(6) [OF i] s'(4) by simp
    show "log_ok (st_log s')" by (rule la(3))
  qed
qed

section \<open>What callbacks may do to a connection\<close>

definition moves :: "http_conn_state \<Rightarrow> http_conn_state \<Rightarrow> bool" where
  "moves a b \<longleftrightarrow> a = b \<or> (case a of
       HTTP_CONN_NEW \<Rightarrow> b = HTTP_CONN_CLOSING
     | HTTP_CONN_PARSING \<Rightarrow> b = HTTP_CONN_CLOSING
     | HTTP_CONN_REQUEST \<Rightarrow> b \<in> {HTTP_CONN_PARSING, HTTP_CONN_CLOSING, HTTP_CONN_CLOSED, HTTP_CONN_RELEASED}
     | HTTP_CONN_AWAIT_RESP \<Rightarrow> b \<in> {HTTP_CONN_RESPONDING, HTTP_CONN_PARSING, HTTP_CONN_CLOSING, HTTP_CONN_CLOSED}
     | HTTP_CONN_RESPONDING \<Rightarrow> b \<in> {HTTP_CONN_PARSING, HTTP_CONN_CLOSING, HTTP_CONN_CLOSED}
     | _ \<Rightarrow> False)"

lemma moves_refl [simp]: "moves a a" by (simp add: moves_def)

lemma moves_trans: "moves a b \<Longrightarrow> moves b c \<Longrightarrow> moves a c"
  by (cases a; cases b) (auto simp: moves_def)

definition later_at :: "nat \<Rightarrow> 'w http_st \<Rightarrow> 'w http_st \<Rightarrow> bool" where
  "later_at p s s' \<longleftrightarrow> (\<forall>c. st_mem s p = Some c \<longrightarrow> (\<exists>c'. st_mem s' p = Some c' \<and> moves (hc_state c) (hc_state c')
     \<and> (hc_recv c' = hc_recv c \<or> conn_dead c') \<and> (st_streams s' p = None \<or> st_streams s' p = st_streams s p)))"

definition later :: "'w http_st \<Rightarrow> 'w http_st \<Rightarrow> bool" where
  "later s s' \<longleftrightarrow> (\<forall>p. later_at p s s')"

lemma dead_moves: "conn_dead c \<Longrightarrow> moves (hc_state c) (hc_state c') \<Longrightarrow> conn_dead c' \<and> hc_state c' = hc_state c"
  by (auto simp: conn_dead_def moves_def)

lemma later_at_trans: "later_at p s s' \<Longrightarrow> later_at p s' s'' \<Longrightarrow> later_at p s s''"
proof (unfold later_at_def, intro allI impI)
  fix c assume a: "\<forall>c. st_mem s p = Some c \<longrightarrow> (\<exists>c'. st_mem s' p = Some c' \<and> moves (hc_state c) (hc_state c')
     \<and> (hc_recv c' = hc_recv c \<or> conn_dead c') \<and> (st_streams s' p = None \<or> st_streams s' p = st_streams s p))"
    and b: "\<forall>c. st_mem s' p = Some c \<longrightarrow> (\<exists>c'. st_mem s'' p = Some c' \<and> moves (hc_state c) (hc_state c')
     \<and> (hc_recv c' = hc_recv c \<or> conn_dead c') \<and> (st_streams s'' p = None \<or> st_streams s'' p = st_streams s' p))"
    and c: "st_mem s p = Some c"
  from a c obtain c1 where 1: "st_mem s' p = Some c1" "moves (hc_state c) (hc_state c1)" "hc_recv c1 = hc_recv c \<or> conn_dead c1"
    "st_streams s' p = None \<or> st_streams s' p = st_streams s p" by blast
  from b 1(1) obtain c2 where 2: "st_mem s'' p = Some c2" "moves (hc_state c1) (hc_state c2)" "hc_recv c2 = hc_recv c1 \<or> conn_dead c2"
    "st_streams s'' p = None \<or> st_streams s'' p = st_streams s' p" by blast
  have "hc_recv c2 = hc_recv c \<or> conn_dead c2" using 1(3) 2(2,3) dead_moves by metis
  moreover have "st_streams s'' p = None \<or> st_streams s'' p = st_streams s p" using 1(4) 2(4) by auto
  ultimately show "\<exists>c'. st_mem s'' p = Some c' \<and> moves (hc_state c) (hc_state c') \<and> (hc_recv c' = hc_recv c \<or> conn_dead c')
    \<and> (st_streams s'' p = None \<or> st_streams s'' p = st_streams s p)" using 2(1) moves_trans [OF 1(2) 2(2)] by blast
qed

lemma later_refl [simp]: "later s s" by (simp add: later_def later_at_def)

lemma later_trans: "later s s' \<Longrightarrow> later s' s'' \<Longrightarrow> later s s''"
  unfolding later_def using later_at_trans by blast

lemma laterD: "later s s' \<Longrightarrow> st_mem s p = Some c \<Longrightarrow>
  \<exists>c'. st_mem s' p = Some c' \<and> moves (hc_state c) (hc_state c') \<and> (hc_recv c' = hc_recv c \<or> conn_dead c')
    \<and> (st_streams s' p = None \<or> st_streams s' p = st_streams s p)"
  by (simp add: later_def later_at_def)

lemma later_upd:
  assumes "st_mem s p = Some c" "st_mem s' = (st_mem s)(p \<mapsto> c')" "st_streams s' = st_streams s"
    "moves (hc_state c) (hc_state c')" "hc_recv c' = hc_recv c"
  shows "later s s'"
  using assms by (auto simp: later_def later_at_def)

text \<open>Connections other than \<^term>\<open>p\<close> only move as callbacks may move them.\<close>

definition later_but :: "nat \<Rightarrow> 'w http_st \<Rightarrow> 'w http_st \<Rightarrow> bool" where
  "later_but p s s' \<longleftrightarrow> (\<forall>q. q \<noteq> p \<longrightarrow> later_at q s s')"

lemma later_but_trans: "later_but p s s' \<Longrightarrow> later_but p s' s'' \<Longrightarrow> later_but p s s''"
  unfolding later_but_def using later_at_trans by blast

lemma later_but_later [simp]: "later s s' \<Longrightarrow> later_but p s s'" by (simp add: later_def later_but_def)

lemma later_but_upd: "st_mem s' = (st_mem s)(p \<mapsto> c') \<Longrightarrow> st_streams s' = st_streams s \<Longrightarrow> later_but p s s'"
  by (auto simp: later_but_def later_at_def)

section \<open>Environment and user\<close>

definition env_ok :: "'w http_env \<Rightarrow> bool" where
  "env_ok env \<longleftrightarrow> (\<forall>w. fst (he_post env w)) \<and> (\<forall>p bs w. fst (snd (he_write env p bs w)) \<noteq> None \<longrightarrow> fst (he_write env p bs w) \<noteq> 0)"

definition callbacks_ok :: "'w http_user \<Rightarrow> bool" where
  "callbacks_ok user \<longleftrightarrow> (\<forall>D ev s. http_inv D s \<longrightarrow> returns (user ev s) (\<lambda>x. http_inv D (snd x) \<and> later s (snd x)))"

lemma callbackD: "callbacks_ok user \<Longrightarrow> http_inv D s \<Longrightarrow> returns (user ev s) (\<lambda>x. http_inv D (snd x) \<and> later s (snd x))"
  by (simp add: callbacks_ok_def)

section \<open>Operations on one connection\<close>

text \<open>Only the connection \<^term>\<open>p\<close> changes, to \<^term>\<open>c'\<close>.\<close>

definition becomes :: "nat set \<Rightarrow> 'w http_st \<Rightarrow> nat \<Rightarrow> sevent_http_conn \<Rightarrow> 'w http_st \<Rightarrow> bool" where
  "becomes D s p c' s' \<longleftrightarrow> http_inv D s' \<and> st_mem s' = (st_mem s)(p \<mapsto> c') \<and> st_streams s' = st_streams s \<and> st_srv s' = st_srv s"

lemma becomesD:
  assumes "becomes D s p c' s'"
  shows "http_inv D s'" "st_mem s' p = Some c'" "later_but p s s'"
    "st_mem s p = Some c \<Longrightarrow> moves (hc_state c) (hc_state c') \<Longrightarrow> hc_recv c' = hc_recv c \<Longrightarrow> later s s'"
    "st_streams s' = st_streams s" "st_srv s' = st_srv s"
  using assms later_upd [of s p c s' c'] by (auto simp: becomes_def later_but_upd)

lemma becomes_trans: "becomes D s p c s' \<Longrightarrow> becomes D s' p c' s'' \<Longrightarrow> becomes D s p c' s''"
  by (simp add: becomes_def)

lemma put_ok:
  assumes "http_inv D s" "st_mem s p = Some c" "hc_next c' = hc_next c" "hc_state c' = hc_state c"
    "hc_idle_timer c' = hc_idle_timer c" "length (hc_recv c') \<le> hc_cap c'" "hc_released c' = hc_released c" "hc_stream c' = hc_stream c"
  shows "becomes D s p c' (put p c' s)"
proof -
  have "hc_released c' \<longleftrightarrow> hc_state c' = HTTP_CONN_RELEASED" "conn_dead c' = conn_dead c"
    using http_invD(3) [OF assms(1,2)] assms(4,7) by (auto simp: conn_ok_def conn_dead_def)
  then have "http_inv D (put p c' s)"
    using assms by (intro http_inv_upd [OF assms(1,2), where c' = c']) (simp_all add: put_def)
  then show ?thesis by (simp add: becomes_def put_def)
qed

lemma logged_ok: "http_inv D s \<Longrightarrow> http_inv D (logged (HttpDispatch p m) s)" "later s (logged (HttpDispatch p m) s)"
proof -
  assume i: "http_inv D s"
  show "http_inv D (logged (HttpDispatch p m) s)"
  proof (rule http_invI)
    have ag: "agree D D s (logged (HttpDispatch p m) s) q" for q by (simp add: agree_def logged_def)
    show "conn_ok D (logged (HttpDispatch p m) s) q c" if "st_mem (logged (HttpDispatch p m) s) q = Some c" for q c
      using that agree_ok [OF ag http_invD(3) [OF i]] by (simp add: logged_def)
    show "gone_ok D (logged (HttpDispatch p m) s) q" if "st_mem (logged (HttpDispatch p m) s) q = None" for q
      using that agree_gone [OF ag http_invD(4) [OF i]] by (simp add: logged_def)
  qed (use http_invD [OF i] in \<open>auto simp: logged_def list_ok_def log_ok_snoc\<close>)
qed (simp add: later_def later_at_def logged_def)

lemma state_set_ok:
  assumes i: "http_inv D s" and p: "st_mem s p = Some c" and ok: "http_state_ok (hc_state c) ns" "ns \<noteq> HTTP_CONN_CLOSED" "ns \<noteq> HTTP_CONN_RELEASED"
    and op: "ns = HTTP_CONN_CLOSING \<or> st_streams s p \<noteq> Some False"
  shows "returns (http_state_set p ns s) (becomes D s p (c\<lparr>hc_state := ns\<rparr>))"
proof -
  let ?s = "put p (c\<lparr>hc_state := ns\<rparr>) (logged (HttpState p (hc_state c) ns) s)"
  have a: "\<not> conn_dead c" "\<not> conn_dead (c\<lparr>hc_state := ns\<rparr>)" "ns \<noteq> HTTP_CONN_NEW"
    using ok by (cases "hc_state c"; auto simp: conn_dead_def)+
  moreover have "\<not> hc_released c" using http_invD(3) [OF i p] a by (auto simp: conn_ok_def conn_dead_def)
  ultimately have "http_inv D ?s"
    using http_invD(3) [OF i p] ok op
    by (intro http_inv_upd [OF i p, where c' = "c\<lparr>hc_state := ns\<rparr>"]) (simp_all add: put_def logged_def conn_ok_def)
  then show ?thesis by (simp add: http_state_set_def p becomes_def put_def logged_def)
qed

lemma dead_upd [simp]:
  "conn_dead (c\<lparr>hc_idle_timer := t\<rparr>) = conn_dead c" "conn_dead (c\<lparr>hc_recv := r\<rparr>) = conn_dead c"
  "conn_dead (c\<lparr>hc_close_pending := b\<rparr>) = conn_dead c" "conn_dead (c\<lparr>hc_wrote := b\<rparr>) = conn_dead c"
  "conn_dead (c\<lparr>hc_req_keep_alive := b\<rparr>) = conn_dead c" "conn_dead (c\<lparr>hc_stream := b\<rparr>) = conn_dead c"
  "conn_dead (c\<lparr>hc_next := x\<rparr>) = conn_dead c"
  "conn_dying (c\<lparr>hc_idle_timer := t\<rparr>) = conn_dying c" "conn_dying (c\<lparr>hc_recv := r\<rparr>) = conn_dying c"
  "conn_dying (c\<lparr>hc_close_pending := b\<rparr>) = conn_dying c" "conn_dying (c\<lparr>hc_wrote := b\<rparr>) = conn_dying c"
  "conn_dying (c\<lparr>hc_req_keep_alive := b\<rparr>) = conn_dying c"
  by (simp_all add: conn_dead_def conn_dying_def)

lemma idle_stop_eq:
  assumes "http_inv D s" "st_mem s p = Some c"
  shows "conn_idle_stop p s = Some (put p (c\<lparr>hc_idle_timer := None\<rparr>)
    (s\<lparr>st_timers := (\<lambda>t. if hc_idle_timer c = Some t then None else st_timers s t)\<rparr>))"
proof (cases "hc_idle_timer c")
  case None
  then have e: "c\<lparr>hc_idle_timer := None\<rparr> = c" "(st_mem s)(p \<mapsto> c) = st_mem s" using assms(2) by (cases c, auto)
  show ?thesis unfolding e(1) put_def using None assms(2) e(2) by (simp add: conn_idle_stop_def)
next
  case (Some t)
  obtain v where "st_srv s = Some v" using http_inv_srv [OF assms(1)] by blast
  moreover have "(st_timers s)(t := None) = (\<lambda>u. if t = u then None else st_timers s u)" by auto
  ultimately show ?thesis using Some assms(2) by (simp add: conn_idle_stop_def)
qed

lemma idle_stop_ok:
  assumes i: "http_inv D s" and p: "st_mem s p = Some c"
  shows "returns (conn_idle_stop p s) (\<lambda>s'. becomes D s p (c\<lparr>hc_idle_timer := None\<rparr>) s' \<and> st_posts s' = st_posts s)"
proof -
  let ?s = "put p (c\<lparr>hc_idle_timer := None\<rparr>) (s\<lparr>st_timers := (\<lambda>t. if hc_idle_timer c = Some t then None else st_timers s t)\<rparr>)"
  have own: "st_timers s t = Some q \<Longrightarrow> hc_idle_timer c = Some t \<Longrightarrow> q = p" for t q
    using http_invD(3) [OF i p] by (auto simp: conn_ok_def)
  have ag: "agree D D s ?s q" if "q \<noteq> p" for q using that own by (auto simp: agree_def put_def)
  have "http_inv D ?s"
  proof (rule http_invI)
    show "list_ok ?s" by (rule list_ok_upd [OF http_invD(1) [OF i] p]) (simp_all add: put_def conn_dead_def)
    show "conn_ok D ?s q cq" if "st_mem ?s q = Some cq" for q cq
    proof (cases "q = p")
      case True
      have "conn_ok D ?s p (c\<lparr>hc_idle_timer := None\<rparr>)" using http_invD(3) [OF i p] unfolding conn_ok_def put_def by simp
      then show ?thesis using that True by (simp add: put_def)
    next
      case False
      then show ?thesis using that agree_ok [OF ag http_invD(3) [OF i]] by (simp add: put_def)
    qed
    show "gone_ok D ?s q" if "st_mem ?s q = None" for q
      using that agree_gone [OF ag http_invD(4) [OF i], of q] by (simp add: put_def split: if_splits)
    show "t < st_fresh ?s \<and> (\<exists>c. st_mem ?s q = Some c \<and> hc_idle_timer c = Some t)" if "st_timers ?s t = Some q" for t q
      using that http_invD(5) [OF i, of t q] p by (cases "q = p") (auto simp: put_def split: if_splits)
  qed (use http_invD(6-8) [OF i] in \<open>simp_all add: put_def\<close>)
  then show ?thesis by (simp add: idle_stop_eq [OF i p] becomes_def put_def)
qed

lemma timer_set_ok:
  assumes i: "http_inv D s" and p: "st_mem s p = Some c" "\<not> conn_dead c" "hc_idle_timer c = None"
  shows "http_inv D (put p (c\<lparr>hc_idle_timer := Some (st_fresh s)\<rparr>)
    (s\<lparr>st_w := w, st_timers := (st_timers s)(st_fresh s \<mapsto> p), st_fresh := Suc (st_fresh s)\<rparr>))" (is "http_inv D ?s")
proof (rule http_invI)
  have fr: "st_timers s (st_fresh s) = None" using http_invD(5) [OF i, of "st_fresh s"] by (cases "st_timers s (st_fresh s)") auto
  have ag: "agree D D s ?s q" for q using fr by (auto simp: agree_def put_def)
  show "list_ok ?s" by (rule list_ok_upd [OF http_invD(1) [OF i] p(1)]) (simp_all add: put_def conn_dead_def)
  show "conn_ok D ?s q cq" if "st_mem ?s q = Some cq" for q cq
  proof (cases "q = p")
    case True
    then show ?thesis using that p agree_ok [OF ag http_invD(3) [OF i p(1)]] by (auto simp: conn_ok_def put_def conn_dead_def)
  next
    case False
    then show ?thesis using that agree_ok [OF ag http_invD(3) [OF i]] by (simp add: put_def)
  qed
  show "gone_ok D ?s q" if "st_mem ?s q = None" for q
    using that agree_gone [OF ag http_invD(4) [OF i], of q] by (simp add: put_def split: if_splits)
  show "t < st_fresh ?s \<and> (\<exists>c. st_mem ?s q = Some c \<and> hc_idle_timer c = Some t)" if "st_timers ?s t = Some q" for t q
    using that http_invD(5) [OF i, of t q] p by (auto simp: put_def split: if_splits)
qed (use http_invD(6-8) [OF i] in \<open>simp_all add: put_def\<close>)

lemma idle_reset_ok:
  assumes i: "http_inv D s" and p: "st_mem s p = Some c" "\<not> conn_dead c"
  shows "returns (conn_idle_reset env p s) (\<lambda>s'. (\<exists>t. becomes D s p (c\<lparr>hc_idle_timer := t\<rparr>) s') \<and> st_posts s' = st_posts s)"
proof -
  obtain v where v: "st_srv s = Some v" using http_inv_srv [OF i] by blast
  show ?thesis
  proof (cases "sg_idle_timeout_ms (sv_cfg v) < 0")
    case True
    have "becomes D s p (c\<lparr>hc_idle_timer := hc_idle_timer c\<rparr>) s" using i p(1) by (auto simp: becomes_def)
    then have "\<exists>t. becomes D s p (c\<lparr>hc_idle_timer := t\<rparr>) s" by blast
    then show ?thesis using True v p by (simp add: conn_idle_reset_def)
  next
    case False
    define ms where "ms = (if sg_idle_timeout_ms (sv_cfg v) \<noteq> 0 then word_of_int (sg_idle_timeout_ms (sv_cfg v))
                 else HTTP_IDLE_TIMEOUT_DEFAULT_MS)"
    have eq: "conn_idle_reset env p s = conn_idle_stop p s \<bind> (\<lambda>s. st_mem s p \<bind> (\<lambda>c.
      let (ok, w) = he_timer_register env ms (st_w s) in
       Some (if ok then put p (c\<lparr>hc_idle_timer := Some (st_fresh s)\<rparr>)
                          (s\<lparr>st_w := w, st_timers := (st_timers s)(st_fresh s \<mapsto> p), st_fresh := Suc (st_fresh s)\<rparr>)
             else put p (c\<lparr>hc_idle_timer := None\<rparr>) (s\<lparr>st_w := w\<rparr>))))"
      using False v p(1) unfolding ms_def by (simp add: conn_idle_reset_def Let_def)
    show ?thesis unfolding eq returns_bind
    proof (rule returns_mono [OF idle_stop_ok [OF i p(1)]])
      fix s1 assume "becomes D s p (c\<lparr>hc_idle_timer := None\<rparr>) s1 \<and> st_posts s1 = st_posts s"
      then have b: "becomes D s p (c\<lparr>hc_idle_timer := None\<rparr>) s1" and po: "st_posts s1 = st_posts s" by simp_all
      note 1 = becomesD(1,2) [OF b]
      obtain ok w where r: "he_timer_register env ms (st_w s1) = (ok, w)" by (rule prod.exhaust)
      have d: "\<not> conn_dead (c\<lparr>hc_idle_timer := None\<rparr>)" using p(2) by (simp add: conn_dead_def)
      have "becomes D s p (c\<lparr>hc_idle_timer := Some (st_fresh s1)\<rparr>) (put p (c\<lparr>hc_idle_timer := Some (st_fresh s1)\<rparr>)
         (s1\<lparr>st_w := w, st_timers := (st_timers s1)(st_fresh s1 \<mapsto> p), st_fresh := Suc (st_fresh s1)\<rparr>))"
        using timer_set_ok [OF 1 d, of w] b by (simp add: becomes_def put_def)
      moreover have "becomes D s p (c\<lparr>hc_idle_timer := None\<rparr>) (put p (c\<lparr>hc_idle_timer := None\<rparr>) (s1\<lparr>st_w := w\<rparr>))"
      proof -
        have "put p (c\<lparr>hc_idle_timer := None\<rparr>) (s1\<lparr>st_w := w\<rparr>) = s1\<lparr>st_w := w\<rparr>" using 1(2) by (cases s1) (auto simp: put_def)
        then show ?thesis using b by (simp add: becomes_def)
      qed
      ultimately show "returns (st_mem s1 p) (\<lambda>x. returns (let (ok, w) = he_timer_register env ms (st_w s1) in
         Some (if ok then put p (x\<lparr>hc_idle_timer := Some (st_fresh s1)\<rparr>)
                 (s1\<lparr>st_w := w, st_timers := (st_timers s1)(st_fresh s1 \<mapsto> p), st_fresh := Suc (st_fresh s1)\<rparr>)
               else put p (x\<lparr>hc_idle_timer := None\<rparr>) (s1\<lparr>st_w := w\<rparr>)))
         (\<lambda>s'. (\<exists>t. becomes D s p (c\<lparr>hc_idle_timer := t\<rparr>) s') \<and> st_posts s' = st_posts s))"
        using 1(2) r po by (cases ok) (auto simp: put_def)
    qed
  qed
qed

lemma close_graceful_ok:
  assumes i: "http_inv D s" and p: "st_mem s p = Some c"
  shows "returns (conn_close_graceful env p s)
    (becomes D s p (if conn_dying c then c else c\<lparr>hc_state := HTTP_CONN_CLOSING\<rparr>))"
proof (cases "conn_dying c")
  case True
  then show ?thesis using i p by (auto simp: conn_close_graceful_def becomes_def)
next
  case False
  then have "http_state_ok (hc_state c) HTTP_CONN_CLOSING" by (cases "hc_state c") (auto simp: conn_dying_def)
  note b = state_set_ok [OF i p this]
  have "becomes D s p c' s1 \<Longrightarrow> becomes D s p c' (in_world f s1)" for c' s1 f
    by (simp add: becomes_def) (simp add: in_world_def)
  then show ?thesis using False p
    by (auto simp: conn_close_graceful_def intro!: returns_mono [OF b])
qed

lemma dying_moves: "moves (hc_state c) (hc_state (if conn_dying c then c else c\<lparr>hc_state := HTTP_CONN_CLOSING\<rparr>))"
  by (cases "hc_state c") (auto simp: moves_def conn_dying_def)

lemma close_graceful_later:
  assumes "http_inv D s" "st_mem s p = Some c"
  shows "returns (conn_close_graceful env p s) (\<lambda>s'. http_inv D s' \<and> later s s' \<and> (\<exists>c'. st_mem s' p = Some c' \<and> conn_dying c'))"
proof (rule returns_mono [OF close_graceful_ok [OF assms]])
  let ?c = "if conn_dying c then c else c\<lparr>hc_state := HTTP_CONN_CLOSING\<rparr>"
  fix s' assume b: "becomes D s p ?c s'"
  have "later s s'" by (rule becomesD(4) [OF b assms(2) dying_moves]) simp
  moreover have "conn_dying ?c" by (simp add: conn_dying_def)
  ultimately show "http_inv D s' \<and> later s s' \<and> (\<exists>c'. st_mem s' p = Some c' \<and> conn_dying c')"
    using becomesD(1,2) [OF b] by blast
qed

text \<open>Posting.\<close>

lemma posted_ok:
  assumes i: "http_inv D s" and e: "env_ok env"
  shows "st_mem s p = Some c \<Longrightarrow> \<not> conn_dead c \<Longrightarrow>
      \<exists>s'. http_sevent_post env (ProcessPost p) s = (True, s') \<and> http_inv D s' \<and> later s s' \<and> st_mem s' = st_mem s"
    and "st_mem s p = Some c \<Longrightarrow> p \<in> D \<Longrightarrow> st_streams s p = None \<Longrightarrow>
      \<exists>s'. http_sevent_post env (ConnCleanup p) s = (True, s') \<and> http_inv (D - {p}) s' \<and> later s s' \<and> st_mem s' = st_mem s"
    and "st_srv s = Some v \<Longrightarrow> sv_destroyed v \<Longrightarrow> SrvCleanup \<notin> set (st_posts s) \<Longrightarrow>
      \<exists>s'. http_sevent_post env SrvCleanup s = (True, s') \<and> http_inv D s' \<and> later s s' \<and> st_mem s' = st_mem s"
proof -
  obtain w where w: "he_post env (st_w s) = (True, w)" using e by (metis (full_types) env_ok_def prod.collapse)
  have post: "http_sevent_post env it s = (True, s\<lparr>st_w := w, st_posts := st_posts s @ [it]\<rparr>)" for it
    using w by (simp add: http_sevent_post_def)
  have later: "later s (s\<lparr>st_w := w, st_posts := st_posts s @ [it]\<rparr>)" for it by (simp add: later_def later_at_def)
  have inv: "http_inv D' (s\<lparr>st_w := w, st_posts := st_posts s @ [it]\<rparr>)" (is "http_inv D' ?s")
    if c: "\<And>q c. st_mem s q = Some c \<Longrightarrow> conn_ok D' (s\<lparr>st_w := w, st_posts := st_posts s @ [it]\<rparr>) q c"
      and g: "\<And>q. st_mem s q = None \<Longrightarrow> gone_ok D' (s\<lparr>st_w := w, st_posts := st_posts s @ [it]\<rparr>) q"
      and o: "post_order (st_posts s @ [it])" and d: "it = SrvCleanup \<Longrightarrow> st_srv s = Some v \<and> sv_destroyed v" for D' it v
    proof (rule http_invI)
    show "list_ok ?s" by (rule list_ok_posts [OF http_invD(1) [OF i]]) (use d in auto)
  qed (use http_invD [OF i] c g o in auto)
  show "\<exists>s'. http_sevent_post env (ProcessPost p) s = (True, s') \<and> http_inv D s' \<and> later s s' \<and> st_mem s' = st_mem s"
    if p: "st_mem s p = Some c" "\<not> conn_dead c"
  proof -
    let ?s = "s\<lparr>st_w := w, st_posts := st_posts s @ [ProcessPost p]\<rparr>"
    have "conn_ok D ?s q c" if "st_mem s q = Some c" for q c
      using http_invD(3) [OF i that] unfolding conn_ok_def by simp
    moreover have "gone_ok D ?s q" if "st_mem s q = None" for q
      using http_invD(4) [OF i that] that p by (auto simp: gone_ok_def)
    moreover have "ConnCleanup p \<notin> set (st_posts s)" using http_invD(3) [OF i p(1)] p(2) by (simp add: conn_ok_def)
    ultimately have "http_inv D ?s" using http_invD(6) [OF i] by (intro inv) (simp_all add: post_order_simps)
    then show ?thesis using post later by auto
  qed
  show "\<exists>s'. http_sevent_post env (ConnCleanup p) s = (True, s') \<and> http_inv (D - {p}) s' \<and> later s s' \<and> st_mem s' = st_mem s"
    if p: "st_mem s p = Some c" "p \<in> D" "st_streams s p = None"
  proof -
    let ?s = "s\<lparr>st_w := w, st_posts := st_posts s @ [ConnCleanup p]\<rparr>"
    have "conn_ok (D - {p}) ?s q c" if "st_mem s q = Some c" for q c
      using http_invD(3) [OF i that] http_invD(3) [OF i p(1)] p that unfolding conn_ok_def by (cases "q = p") auto
    moreover have "gone_ok (D - {p}) ?s q" if "st_mem s q = None" for q
      using http_invD(4) [OF i that] that p by (auto simp: gone_ok_def)
    moreover have "ConnCleanup p \<notin> set (st_posts s)" using http_invD(3) [OF i p(1)] p(2) by (auto simp: conn_ok_def)
    ultimately have "http_inv (D - {p}) ?s" using http_invD(6) [OF i] by (intro inv) (simp_all add: post_order_simps)
    then show ?thesis using post later by auto
  qed
  show "\<exists>s'. http_sevent_post env SrvCleanup s = (True, s') \<and> http_inv D s' \<and> later s s' \<and> st_mem s' = st_mem s"
    if dv: "st_srv s = Some v" "sv_destroyed v" "SrvCleanup \<notin> set (st_posts s)"
  proof -
    let ?s = "s\<lparr>st_w := w, st_posts := st_posts s @ [SrvCleanup]\<rparr>"
    have "conn_ok D ?s q c" if "st_mem s q = Some c" for q c
      using http_invD(3) [OF i that] unfolding conn_ok_def by simp
    moreover have "gone_ok D ?s q" if "st_mem s q = None" for q
      using http_invD(4) [OF i that] by (simp add: gone_ok_def)
    ultimately have "http_inv D ?s" using http_invD(6) [OF i] dv by (intro inv [of _ _ v]) (simp_all add: post_order_simps)
    then show ?thesis using post later by auto
  qed
qed

section \<open>Taking a connection down\<close>

lemma same_next_Some:
  assumes "same_but_next m m'" "m' q = Some c'"
  obtains c where "m q = Some c" "c'\<lparr>hc_next := None\<rparr> = c\<lparr>hc_next := None\<rparr>"
proof -
  have r: "rel_option (\<lambda>c c'. c'\<lparr>hc_next := None\<rparr> = c\<lparr>hc_next := None\<rparr>) (m q) (m' q)" using assms(1) by (simp add: same_but_next_def)
  obtain c where "m q = Some c" using r assms(2) by (cases "m q") auto
  with r assms(2) that show ?thesis by simp
qed

lemma same_next_None: "same_but_next m m' \<Longrightarrow> m' q = None \<longleftrightarrow> m q = None"
  unfolding same_but_next_def by (drule spec [of _ q]) (auto elim: option.rel_cases)

lemma next_eq:
  assumes "c'\<lparr>hc_next := None\<rparr> = c\<lparr>hc_next := None\<rparr>"
  obtains x where "c' = c\<lparr>hc_next := x\<rparr>"
proof -
  have "c' = (c'\<lparr>hc_next := None\<rparr>)\<lparr>hc_next := hc_next c'\<rparr>" by (cases c') simp
  then have "c' = c\<lparr>hc_next := hc_next c'\<rparr>" unfolding assms by simp
  then show ?thesis using that by blast
qed

lemma conn_ok_next [simp]: "conn_ok D s p (c\<lparr>hc_next := x\<rparr>) = conn_ok D s p c"
  by (simp add: conn_ok_def)

lemma takedown:
  fixes s s' :: "'w http_st"
  assumes i: "http_inv D s" and p: "st_mem s p = Some c" "\<not> conn_dead c"
    and c3: "conn_dead c3" "hc_idle_timer c3 = None" "length (hc_recv c3) \<le> hc_cap c3"
      "hc_released c3 \<longleftrightarrow> hc_state c3 = HTTP_CONN_RELEASED" "http_state_ok (hc_state c) (hc_state c3)"
    and m: "same_but_next ((st_mem s)(p \<mapsto> c3)) (st_mem s')"
    and v: "st_srv s = Some v" "st_srv s' = Some v'" "conn_list (st_mem s) (sv_conns v) xs" "distinct xs"
      "\<forall>p. p \<in> set xs \<longleftrightarrow> (\<exists>c. st_mem s p = Some c \<and> \<not> conn_dead c)" "conn_list (st_mem s') (sv_conns v') (remove1 p xs)"
      "sv_destroyed v' = sv_destroyed v"
    and s': "st_timers s' = (\<lambda>t. if hc_idle_timer c = Some t then None else st_timers s t)"
      "\<forall>q. q \<noteq> p \<longrightarrow> st_streams s' q = st_streams s q" "st_posts s' = st_posts s" "st_fresh s' = st_fresh s"
      "st_log s' = st_log s @ [HttpState p (hc_state c) (hc_state c3)]"
    and st: "st_streams s' p = None \<or> st_streams s' p = Some True \<and> hc_state c3 = HTTP_CONN_RELEASED \<and> hc_stream c3"
  shows "http_inv (insert p D) s'"
proof -
  have cp: "conn_ok D s p c" by (rule http_invD(3) [OF i p(1)])
  have own: "st_timers s t = Some q \<Longrightarrow> hc_idle_timer c = Some t \<Longrightarrow> q = p" for t q using cp by (auto simp: conn_ok_def)
  have la: "HttpClosed q \<in> set (st_log s') \<longleftrightarrow> HttpClosed q \<in> set (st_log s)" "HttpFree q \<in> set (st_log s') \<longleftrightarrow> HttpFree q \<in> set (st_log s)" for q
    by (simp_all add: s')
  have ag: "agree D (insert p D) s s' q" if "q \<noteq> p" for q
  proof -
    have "st_timers s' t = Some q" if t: "st_timers s t = Some q" for t
      using own [OF t] t \<open>q \<noteq> p\<close> unfolding s'(1) by (cases "hc_idle_timer c = Some t") simp_all
    then show ?thesis using that la [of q] s'(2) [rule_format, OF that] by (simp add: agree_def s'(3,4))
  qed
  have pc: "conn_ok (insert p D) s' p c3"
    using cp p(2) c3 st by (auto simp: conn_ok_def la s'(3,4))
  have mem: "\<exists>x c0. cq = c0\<lparr>hc_next := x\<rparr> \<and> ((st_mem s)(p \<mapsto> c3)) q = Some c0" if "st_mem s' q = Some cq" for q cq
    using same_next_Some [OF m that] next_eq by metis
  have fwd: "\<exists>x. st_mem s' q = Some (c0\<lparr>hc_next := x\<rparr>)" if "((st_mem s)(p \<mapsto> c3)) q = Some c0" for q c0
  proof -
    have "st_mem s' q \<noteq> None" using same_next_None [OF m, of q] that by simp
    then obtain cq where "st_mem s' q = Some cq" by blast
    with mem [OF this] that show ?thesis by auto
  qed
  show ?thesis
  proof (rule http_invI)
    show "list_ok s'"
      unfolding list_ok_def
    proof (intro exI conjI allI)
      show "st_srv s' = Some v'" "conn_list (st_mem s') (sv_conns v') (remove1 p xs)" "distinct (remove1 p xs)"
        using v by (simp_all add: distinct_remove1)
      show "\<not> sv_destroyed v' \<longrightarrow> SrvCleanup \<notin> set (st_posts s')" using list_ok_destroyed [OF http_invD(1) [OF i] v(1)] v(7) s'(3) by simp
      show "q \<in> set (remove1 p xs) \<longleftrightarrow> (\<exists>c. st_mem s' q = Some c \<and> \<not> conn_dead c)" for q
      proof (cases "q = p")
        case True
        then show ?thesis using v(4) mem [of p] c3(1) by (auto simp: set_remove1_eq)
      next
        case False
        then have "q \<in> set (remove1 p xs) \<longleftrightarrow> (\<exists>c. st_mem s q = Some c \<and> \<not> conn_dead c)" using v(5) by simp
        also have "\<dots> \<longleftrightarrow> (\<exists>c. st_mem s' q = Some c \<and> \<not> conn_dead c)"
          using False mem [of q] fwd [of q] by (metis dead_upd(7) fun_upd_other)
        finally show ?thesis .
      qed
    qed
    show "conn_ok (insert p D) s' q cq" if q: "st_mem s' q = Some cq" for q cq
    proof -
      obtain x c0 where 0: "cq = c0\<lparr>hc_next := x\<rparr>" "((st_mem s)(p \<mapsto> c3)) q = Some c0" using mem [OF q] by blast
      show ?thesis
      proof (cases "q = p")
        case True
        then show ?thesis using 0 pc by simp
      next
        case False
        then show ?thesis using 0 agree_ok [OF ag http_invD(3) [OF i]] by simp
      qed
    qed
    show "gone_ok (insert p D) s' q" if "st_mem s' q = None" for q
      using that same_next_None [OF m, of q] agree_gone [OF ag http_invD(4) [OF i], of q] by (auto split: if_splits)
    show "t < st_fresh s' \<and> (\<exists>c. st_mem s' q = Some c \<and> hc_idle_timer c = Some t)" if "st_timers s' t = Some q" for t q
    proof -
      have t: "st_timers s t = Some q" "hc_idle_timer c \<noteq> Some t" using that s'(1) by (auto split: if_splits)
      then obtain c0 where c0: "t < st_fresh s" "st_mem s q = Some c0" "hc_idle_timer c0 = Some t" using http_invD(5) [OF i] by blast
      then have "q \<noteq> p" using t p by auto
      then obtain x where "st_mem s' q = Some (c0\<lparr>hc_next := x\<rparr>)" using fwd [of q c0] c0(2) by auto
      with c0 s'(4) show ?thesis by simp
    qed
    show "HttpClosed q \<notin> set (st_log s') \<and> HttpFree q \<notin> set (st_log s')" if "st_fresh s' \<le> q" for q
      using that http_invD(8) [OF i, of q] la s'(4) by simp
    show "post_order (st_posts s')" using http_invD(6) [OF i] s'(3) by simp
    show "log_ok (st_log s')" using http_invD(7) [OF i] c3(5) s'(5) by (simp add: log_ok_snoc)
  qed
qed

lemma takedown_later:
  assumes "same_but_next ((st_mem s)(p \<mapsto> c3)) (st_mem s')" "\<forall>q. q \<noteq> p \<longrightarrow> st_streams s' q = st_streams s q"
  shows "later_but p s s'" "\<exists>x. st_mem s' p = Some (c3\<lparr>hc_next := x\<rparr>)"
proof -
  have fwd: "\<exists>x. st_mem s' q = Some (c0\<lparr>hc_next := x\<rparr>)" if "((st_mem s)(p \<mapsto> c3)) q = Some c0" for q c0
  proof -
    have "st_mem s' q \<noteq> None" using same_next_None [OF assms(1), of q] that by simp
    then obtain cq where cq: "st_mem s' q = Some cq" by blast
    then show ?thesis using same_next_Some [OF assms(1) cq] next_eq that by (metis option.inject)
  qed
  then show "\<exists>x. st_mem s' p = Some (c3\<lparr>hc_next := x\<rparr>)" by simp
  show "later_but p s s'"
    unfolding later_but_def later_at_def
  proof (intro allI impI)
    fix q c assume q: "q \<noteq> p" "st_mem s q = Some c"
    then obtain x where "st_mem s' q = Some (c\<lparr>hc_next := x\<rparr>)" using fwd [of q c] by auto
    then show "\<exists>c'. st_mem s' q = Some c' \<and> moves (hc_state c) (hc_state c') \<and> (hc_recv c' = hc_recv c \<or> conn_dead c')
      \<and> (st_streams s' q = None \<or> st_streams s' q = st_streams s q)" using assms(2) q by auto
  qed
qed

lemma closed_logged:
  assumes i: "http_inv D s" and p: "st_mem s p = Some c" "hc_state c = HTTP_CONN_CLOSED" "HttpClosed p \<notin> set (st_log s)"
  shows "http_inv D (logged (HttpClosed p) s)" (is "http_inv D ?s")
proof (rule http_invI)
  have ag: "agree D D s ?s q" if "q \<noteq> p" for q using that by (simp add: agree_def logged_def)
  show "conn_ok D ?s q cq" if "st_mem ?s q = Some cq" for q cq
  proof (cases "q = p")
    case True
    then show ?thesis using that p http_invD(3) [OF i p(1)] by (simp add: conn_ok_def logged_def)
  next
    case False
    then show ?thesis using that agree_ok [OF ag http_invD(3) [OF i]] by (simp add: logged_def)
  qed
  show "gone_ok D ?s q" if "st_mem ?s q = None" for q
    using that agree_gone [OF ag http_invD(4) [OF i], of q] p by (simp add: logged_def) (metis option.distinct(1))
  show "HttpClosed q \<notin> set (st_log ?s) \<and> HttpFree q \<notin> set (st_log ?s)" if "st_fresh ?s \<le> q" for q
  proof -
    have "p < st_fresh s" using http_invD(3) [OF i p(1)] by (simp add: conn_ok_def)
    then show ?thesis using that http_invD(8) [OF i, of q] by (simp add: logged_def)
  qed
qed (use http_invD [OF i] p(3) in \<open>auto simp: logged_def list_ok_def log_ok_snoc\<close>)

lemma idle_stop_raw:
  assumes "st_srv s = Some v" "st_mem s p = Some c"
  shows "conn_idle_stop p s = Some (put p (c\<lparr>hc_idle_timer := None\<rparr>)
    (s\<lparr>st_timers := (\<lambda>t. if hc_idle_timer c = Some t then None else st_timers s t)\<rparr>))"
proof (cases "hc_idle_timer c")
  case None
  then have e: "c\<lparr>hc_idle_timer := None\<rparr> = c" "(st_mem s)(p \<mapsto> c) = st_mem s" using assms(2) by (cases c, auto)
  show ?thesis unfolding e(1) put_def using None assms(2) e(2) by (simp add: conn_idle_stop_def)
next
  case (Some t)
  have "(st_timers s)(t := None) = (\<lambda>u. if t = u then None else st_timers s u)" by auto
  then show ?thesis using Some assms by (simp add: conn_idle_stop_def)
qed

lemma stream_kill_raw:
  assumes "st_mem s p = Some c" "\<not> hc_stream c \<longrightarrow> st_streams s p = None"
  shows "\<exists>w. conn_stream_kill env p s = Some (s\<lparr>st_mem := (st_mem s)(p \<mapsto> c\<lparr>hc_stream := False\<rparr>), st_streams := (st_streams s)(p := None), st_w := w\<rparr>)"
proof (cases "hc_stream c")
  case True
  then show ?thesis using assms
    by (intro exI [of _ "he_stream_destroy env p (he_stream_close env p (st_w s))"], cases s)
      (simp add: conn_stream_kill_def put_def in_world_def)
next
  case False
  then have "c\<lparr>hc_stream := False\<rparr> = c" "(st_streams s)(p := None) = st_streams s" using assms by (cases c, auto)
  moreover have "(st_mem s)(p \<mapsto> c) = st_mem s" using assms(1) by auto
  ultimately have "s\<lparr>st_mem := (st_mem s)(p \<mapsto> c\<lparr>hc_stream := False\<rparr>), st_streams := (st_streams s)(p := None), st_w := st_w s\<rparr> = s"
    by (simp only:) simp
  then show ?thesis using False assms(1) by (intro exI [of _ "st_w s"]) (simp add: conn_stream_kill_def)
qed

text \<open>Up to the callback: the connection is off the list and has neither timer nor stream.\<close>

lemma terminate_prepare:
  assumes i: "http_inv D s" and p: "st_mem s p = Some c" "\<not> conn_dead c"
  shows "\<exists>s'. http_state_set p HTTP_CONN_CLOSED s \<bind> (\<lambda>s. conn_idle_stop p s \<bind> (\<lambda>s. conn_stream_kill env p s \<bind>
      (\<lambda>s. conn_free env user p s))) = conn_notify_deferred_free env user p s'
    \<and> http_inv (insert p D) s' \<and> later_but p s s' \<and> HttpClosed p \<notin> set (st_log s')
    \<and> (\<exists>c'. st_mem s' p = Some c' \<and> hc_state c' = HTTP_CONN_CLOSED)"
proof -
  obtain v xs where v: "st_srv s = Some v" "conn_list (st_mem s) (sv_conns v) xs" "distinct xs"
    "\<forall>p. p \<in> set xs \<longleftrightarrow> (\<exists>c. st_mem s p = Some c \<and> \<not> conn_dead c)" using http_invD(1) [OF i] unfolding list_ok_def by blast
  have cp: "conn_ok D s p c" by (rule http_invD(3) [OF i p(1)])
  let ?c1 = "c\<lparr>hc_state := HTTP_CONN_CLOSED\<rparr>"
  let ?tm = "\<lambda>t. if hc_idle_timer c = Some t then None else st_timers s t"
  let ?c2 = "?c1\<lparr>hc_idle_timer := None\<rparr>" and ?c3 = "?c1\<lparr>hc_idle_timer := None, hc_stream := False\<rparr>"
  let ?s1 = "put p ?c1 (logged (HttpState p (hc_state c) HTTP_CONN_CLOSED) s)"
  let ?s2 = "put p ?c2 (?s1\<lparr>st_timers := ?tm\<rparr>)"
  have 1: "http_state_set p HTTP_CONN_CLOSED s = Some ?s1" using p by (simp add: http_state_set_def)
  have 2: "conn_idle_stop p ?s1 = Some ?s2"
    using v(1) by (subst idle_stop_raw [of _ v _ ?c1]) (simp_all add: put_def logged_def cong: if_cong)
  have a3: "st_mem ?s2 p = Some ?c2" "st_streams ?s2 = st_streams s" by (simp_all add: put_def logged_def)
  have b3: "\<not> hc_stream ?c2 \<longrightarrow> st_streams ?s2 p = None" unfolding a3 using cp by (auto simp: conn_ok_def)
  obtain w where 3: "conn_stream_kill env p ?s2 = Some (?s2\<lparr>st_mem := (st_mem ?s2)(p \<mapsto> ?c3), st_streams := (st_streams s)(p := None), st_w := w\<rparr>)" (is "_ = Some ?s3")
    using stream_kill_raw [OF a3(1) b3, of env] unfolding a3(2) by blast
  have m3: "st_mem ?s3 = (st_mem s)(p \<mapsto> ?c3)" "st_srv ?s3 = Some v" using v(1) by (simp_all add: put_def logged_def)
  have "conn_list (st_mem ?s3) (sv_conns v) xs" unfolding m3 using v(2) p(1) by (subst conn_list_upd [of _ _ c]) simp_all
  then obtain m' h where 4: "conn_unlink p ?s3 = Some (?s3\<lparr>st_mem := m', st_srv := Some (v\<lparr>sv_conns := h\<rparr>)\<rparr>)" (is "_ = Some ?s4")
    "same_but_next (st_mem ?s3) m'" "conn_list m' h (remove1 p xs)"
    using conn_unlink_ok [of ?s3 v xs p] m3(2) v(3) by blast
  have s4: "same_but_next ((st_mem s)(p \<mapsto> ?c3)) (st_mem ?s4)" using 4(2) unfolding m3 by simp
  have ok: "http_state_ok (hc_state c) HTTP_CONN_CLOSED" using p(2) by (cases "hc_state c") (auto simp: conn_dead_def)
  have "http_inv (insert p D) ?s4"
    by (rule takedown [OF i p _ _ _ _ _ s4 v(1) _ v(2-4), where v' = "v\<lparr>sv_conns := h\<rparr>"])
      (use cp p(2) ok 4(3) in \<open>auto simp: put_def logged_def conn_ok_def conn_dead_def\<close>)
  moreover have "later_but p s ?s4" "\<exists>c'. st_mem ?s4 p = Some c' \<and> hc_state c' = HTTP_CONN_CLOSED"
    using takedown_later [OF s4] by (auto simp: put_def logged_def)
  moreover have "HttpClosed p \<notin> set (st_log ?s4)"
    using cp p(2) by (auto simp: put_def logged_def conn_ok_def conn_dead_def)
  moreover have "http_state_set p HTTP_CONN_CLOSED s \<bind> (\<lambda>s. conn_idle_stop p s \<bind> (\<lambda>s. conn_stream_kill env p s \<bind>
      (\<lambda>s. conn_free env user p s))) = conn_notify_deferred_free env user p ?s4"
    unfolding 1 bind.bind_lunit 2 3 conn_free_def using 4(1) m3(1) by simp
  ultimately show ?thesis by blast
qed

lemma terminate_ok:
  assumes i: "http_inv D s" and p: "st_mem s p = Some c" and e: "env_ok env" and u: "callbacks_ok user"
  shows "returns (conn_terminate env user p s) (\<lambda>s'. http_inv D s' \<and> later_but p s s'
    \<and> (\<exists>c'. st_mem s' p = Some c' \<and> (if conn_dead c then s' = s else hc_state c' = HTTP_CONN_CLOSED)))"
proof (cases "conn_dead c")
  case True
  then show ?thesis using i p by (simp add: conn_terminate_def)
next
  case False
  obtain s1 c1 where 1: "conn_terminate env user p s = conn_notify_deferred_free env user p s1"
    "http_inv (insert p D) s1" "later_but p s s1" "HttpClosed p \<notin> set (st_log s1)"
    "st_mem s1 p = Some c1" "hc_state c1 = HTTP_CONN_CLOSED"
    using terminate_prepare [OF i p False, of env user] p False unfolding conn_terminate_def by auto
  obtain v where v: "st_srv s1 = Some v" using http_inv_srv [OF 1(2)] by blast
  have pD: "p \<notin> D" using http_invD(3) [OF i p] False by (simp add: conn_ok_def)
  have n: "returns (notify_close user p s1) (\<lambda>s2. http_inv (insert p D) s2 \<and> later s1 s2)"
  proof (cases "sv_on_conn_close v \<and> \<not> hc_released c1")
    case True
    have "later s1 (logged (HttpClosed p) s1)" by (simp add: later_def later_at_def logged_def)
    note t = later_trans [OF this]
    have "returns (user (OnConnClose p) (logged (HttpClosed p) s1)) (\<lambda>x. http_inv (insert p D) (snd x) \<and> later s1 (snd x))"
      by (rule returns_mono [OF callbackD [OF u closed_logged [OF 1(2,5,6,4)]]]) (simp add: t)
    then show ?thesis using True v 1(5) by (simp add: notify_close_def)
  next
    case False
    then show ?thesis using v 1(2,5) by (auto simp: notify_close_def)
  qed
  have "returns (conn_notify_deferred_free env user p s1) (\<lambda>s'. http_inv D s' \<and> later s1 s')"
    unfolding conn_notify_deferred_free_def returns_bind
  proof (rule returns_mono [OF n])
    fix s2 assume a: "http_inv (insert p D) s2 \<and> later s1 s2"
    obtain v2 where v2: "st_srv s2 = Some v2" using http_inv_srv a by blast
    obtain c2 where c2: "st_mem s2 p = Some c2" "hc_state c2 = HTTP_CONN_CLOSED"
      using laterD [of s1 s2, OF _ 1(5)] a 1(6) by (auto simp: moves_def)
    have "st_streams s2 p = None" using http_invD(3) [of "insert p D" s2 p c2] a c2 by (simp add: conn_ok_def)
    then obtain s3 where "http_sevent_post env (ConnCleanup p) s2 = (True, s3)" "http_inv (insert p D - {p}) s3" "later s2 s3"
      using posted_ok(2) [of "insert p D" s2 env p c2] a e c2 by auto
    then show "returns (st_srv s2) (\<lambda>x. returns (post_cleanup env p s2) (\<lambda>s'. http_inv D s' \<and> later s1 s'))"
      using a v2 pD later_trans [of s1 s2 s3] by (auto simp: post_cleanup_def)
  qed
  then show ?thesis
    unfolding 1(1)
  proof (rule returns_mono)
    fix s' assume a: "http_inv D s' \<and> later s1 s'"
    then have "\<exists>c'. st_mem s' p = Some c' \<and> hc_state c' = HTTP_CONN_CLOSED"
      using laterD [of s1 s', OF _ 1(5)] 1(6) by (auto simp: moves_def)
    then show "http_inv D s' \<and> later_but p s s' \<and> (\<exists>c'. st_mem s' p = Some c' \<and> (if conn_dead c then s' = s else hc_state c' = HTTP_CONN_CLOSED))"
      using a False later_but_trans [OF 1(3) later_but_later] by auto
  qed
qed

end
