(* ===== verification/Http_Safety.thy ===== *)
theory Http_Safety
  imports Http_Inv
begin

text \<open>
  Safety of the HTTP server: every public function and every callback of the event loop returns
  from every reachable state and keeps the invariant of theory \<open>Http_Inv\<close>, for user callbacks that
  call the public functions to any depth.
\<close>

section \<open>Writing and responding\<close>

definition unchanged :: "'w http_st \<Rightarrow> 'w http_st \<Rightarrow> bool" where
  "unchanged s s' \<longleftrightarrow> (\<exists>w. s' = s\<lparr>st_w := w\<rparr>)"

lemma unchanged_world [simp]: "unchanged s (s\<lparr>st_w := w\<rparr>)" "unchanged s s"
proof -
  have "s = s\<lparr>st_w := st_w s\<rparr>" by simp
  then show "unchanged s s" unfolding unchanged_def by blast
qed (auto simp: unchanged_def)

lemma unchangedD:
  assumes "unchanged s s'"
  shows "later s s'" "st_mem s' = st_mem s" "st_streams s' = st_streams s" "http_inv D s' = http_inv D s" "st_srv s' = st_srv s"
  using assms by (auto simp: unchanged_def later_def later_at_def)

lemma unchanged_trans: "unchanged s s' \<Longrightarrow> unchanged s' s'' \<Longrightarrow> unchanged s s''"
  by (auto simp: unchanged_def)

text \<open>The write succeeded or failed quietly, or it failed and took the connection down.\<close>

definition wrote_or_closed :: "nat set \<Rightarrow> nat \<Rightarrow> 'w http_st \<Rightarrow> int \<Rightarrow> 'w http_st \<Rightarrow> bool" where
  "wrote_or_closed D p s rc s' \<longleftrightarrow> http_inv D s' \<and> later_but p s s'
     \<and> (unchanged s s' \<or> rc \<noteq> 0 \<and> (\<exists>c'. st_mem s' p = Some c' \<and> hc_state c' = HTTP_CONN_CLOSED))"

lemma wrote_trans:
  "unchanged s s1 \<Longrightarrow> wrote_or_closed D p s1 rc s' \<Longrightarrow> wrote_or_closed D p s rc s'"
  unfolding wrote_or_closed_def using unchanged_trans later_but_trans [OF later_but_later [OF unchangedD(1)]] by blast

lemma wrote_fail: "wrote_or_closed D p s rc s' \<Longrightarrow> e \<noteq> 0 \<Longrightarrow> wrote_or_closed D p s e s'"
  by (auto simp: wrote_or_closed_def)

lemma stream_write_ok:
  assumes i: "http_inv D s" and p: "st_mem s p = Some c" and e: "env_ok env" and u: "callbacks_ok user"
  shows "returns (conn_stream_write env user p bs s) (\<lambda>x. wrote_or_closed D p s (fst x) (snd x))"
proof -
  obtain rc ev w where wr: "he_write env p bs (st_w s) = (rc, ev, w)" by (metis prod.exhaust)
  let ?s = "s\<lparr>st_w := w\<rparr>"
  have t: "returns (conn_terminate env user p ?s) (wrote_or_closed D p s rc)" if "ev \<noteq> None"
  proof (rule returns_mono [OF terminate_ok [of D ?s, OF _ _ e u]])
    have "rc \<noteq> 0" using e wr that unfolding env_ok_def by (metis fst_conv snd_conv)
    fix s' assume a: "http_inv D s' \<and> later_but p ?s s' \<and> (\<exists>c'. st_mem s' p = Some c' \<and> (if conn_dead c then s' = ?s else hc_state c' = HTTP_CONN_CLOSED))"
    have "later_but p s s'" using a later_but_trans [of p s ?s s'] unchangedD(1) [of s ?s] by auto
    then show "wrote_or_closed D p s rc s'" using a \<open>rc \<noteq> 0\<close> by (auto simp: wrote_or_closed_def split: if_splits)
  qed (use i p in simp_all)
  have q: "wrote_or_closed D p s r ?s" for r using i unchangedD(1) [of s ?s] by (simp add: wrote_or_closed_def)
  have r: "wrote_or_closed D p s r s" for r using i by (simp add: wrote_or_closed_def)
  show ?thesis
    using t q r p wr by (auto simp: conn_stream_write_def conn_on_close_def conn_on_error_def split: option.split write_event.split)
qed

lemma respond_build_ok:
  assumes i: "http_inv D s" and p: "st_mem s p = Some c" and e: "env_ok env" and u: "callbacks_ok user"
  shows "returns (conn_respond_build env user p resp b s) (\<lambda>x. wrote_or_closed D p s (fst (fst x)) (snd x))"
proof -
  obtain ok w where al: "he_malloc env HTTP_HEADER_BUF_SIZE (st_w s) = (ok, w)" by (rule prod.exhaust)
  let ?s = "s\<lparr>st_w := w\<rparr>"
  have q: "wrote_or_closed D p s r s" "wrote_or_closed D p s r ?s" for r
    using i unchangedD(1) [of s ?s] by (simp_all add: wrote_or_closed_def)
  have w1: "returns (conn_stream_write env user p bs ?s) (\<lambda>x. wrote_or_closed D p s (fst x) (snd x))" for bs
    by (rule returns_mono [OF stream_write_ok [of D ?s, OF _ _ e u]]) (use i p wrote_trans [of s ?s] in simp_all)
  have two: "returns (conn_stream_write env user p b1 ?s) (\<lambda>x. returns (case x of (rc, s) \<Rightarrow>
      if rc \<noteq> 0 then Some ((SEVENT_ERR_WRITE, False), s)
      else if 0 < rp_body_len resp then conn_stream_write env user p (respond_body resp) s \<bind>
        (\<lambda>(rc, s). Some (if rc \<noteq> 0 then ((SEVENT_ERR_WRITE, False), s) else ((0, cl), s)))
      else Some ((0, cl), s)) (\<lambda>x. wrote_or_closed D p s (fst (fst x)) (snd x)))" for b1 cl
  proof (rule returns_mono [OF w1])
    fix x assume a: "wrote_or_closed D p s (fst x) (snd x)"
    obtain rc s1 where x: "x = (rc, s1)" by (rule prod.exhaust)
    show "returns (case x of (rc, s) \<Rightarrow> if rc \<noteq> 0 then Some ((SEVENT_ERR_WRITE, False), s)
      else if 0 < rp_body_len resp then conn_stream_write env user p (respond_body resp) s \<bind>
        (\<lambda>(rc, s). Some (if rc \<noteq> 0 then ((SEVENT_ERR_WRITE, False), s) else ((0, cl), s)))
      else Some ((0, cl), s)) (\<lambda>x. wrote_or_closed D p s (fst (fst x)) (snd x))"
    proof (cases "rc = 0")
      case True
      then have un: "unchanged s s1" using a x by (simp add: wrote_or_closed_def)
      have s1: "http_inv D s1" "st_mem s1 p = Some c" using unchangedD [OF un] i p by simp_all
      have "returns (conn_stream_write env user p (respond_body resp) s1) (\<lambda>x. wrote_or_closed D p s (fst x) (snd x))"
        by (rule returns_mono [OF stream_write_ok [OF s1 e u]]) (rule wrote_trans [OF un])
      then have "returns (conn_stream_write env user p (respond_body resp) s1) (\<lambda>x. returns (case x of
          (rc, s) \<Rightarrow> Some (if rc \<noteq> 0 then ((SEVENT_ERR_WRITE, False), s) else ((0, cl), s))) (\<lambda>x. wrote_or_closed D p s (fst (fst x)) (snd x)))"
        by (rule returns_mono) (auto simp: err_defs dest: wrote_fail [of _ _ _ _ _ "-6"] split: prod.split)
      then show ?thesis using True x a by simp
    next
      case False
      then show ?thesis using x a by (auto simp: err_defs dest: wrote_fail [of _ _ _ _ _ "-6"])
    qed
  qed
  show ?thesis
    using q two p al
    by (auto simp: conn_respond_build_def Let_def split: option.split)
qed

lemma writable_later:
  assumes "wrote_or_closed D p s rc s'" "st_mem s p = Some c"
    "hc_state c \<in> {HTTP_CONN_REQUEST, HTTP_CONN_AWAIT_RESP, HTTP_CONN_RESPONDING}"
  shows "later s s'"
proof -
  have "later_at p s s'"
  proof (cases "unchanged s s'")
    case True
    then show ?thesis using unchangedD(1) by (auto simp: later_def)
  next
    case False
    then obtain c' where c': "st_mem s' p = Some c'" "hc_state c' = HTTP_CONN_CLOSED" using assms(1) by (auto simp: wrote_or_closed_def)
    then have "st_streams s' p = None" using http_invD(3) [of D s' p c'] assms(1) by (auto simp: wrote_or_closed_def conn_ok_def)
    then show ?thesis using assms(2,3) c' by (auto simp: later_at_def moves_def conn_dead_def)
  qed
  then show ?thesis using assms(1) by (auto simp: later_def later_but_def wrote_or_closed_def)
qed

lemma streams_known: "http_inv D s \<Longrightarrow> st_mem s p = Some c \<Longrightarrow> hc_state c \<noteq> HTTP_CONN_NEW \<Longrightarrow> hc_state c \<noteq> HTTP_CONN_CLOSING \<Longrightarrow>
  st_streams s p \<noteq> Some False"
  using http_invD(3) [of D s p c] by (auto simp: conn_ok_def)

lemma response_complete_ok:
  assumes i: "http_inv D s" and p: "st_mem s p = Some c" and e: "env_ok env"
    and st: "hc_state c \<in> {HTTP_CONN_REQUEST, HTTP_CONN_AWAIT_RESP, HTTP_CONN_RESPONDING}"
  shows "returns (conn_response_complete env p was_async s) (\<lambda>s'. http_inv D s' \<and> later s s')"
proof (cases "hc_close_pending c")
  case True
  then show ?thesis using p returns_mono [OF close_graceful_later [OF i p, of env]] by (simp add: conn_response_complete_def)
next
  case False
  have st': "http_state_ok (hc_state c) HTTP_CONN_PARSING" "st_streams s p \<noteq> Some False" "moves (hc_state c) HTTP_CONN_PARSING"
    using st streams_known [OF i p] by (auto simp: moves_def)
  have "returns (http_state_set p HTTP_CONN_PARSING s) (\<lambda>s. returns (conn_idle_reset env p s) (\<lambda>s. returns (st_mem s p) (\<lambda>c.
       returns (if was_async \<and> hc_recv c \<noteq> []
       then (let (ok, s) = http_sevent_post env (ProcessPost p) s
             in if ok then Some s else conn_close_graceful env p s)
       else Some s) (\<lambda>s'. http_inv D s' \<and> later s0 s'))))" if "s0 = s" for s0
  proof (rule returns_mono [OF state_set_ok [OF i p st'(1)]])
    let ?c = "c\<lparr>hc_state := HTTP_CONN_PARSING\<rparr>"
    fix s1 assume b: "becomes D s p ?c s1"
    have d: "\<not> conn_dead ?c" by (simp add: conn_dead_def)
    show "returns (conn_idle_reset env p s1) (\<lambda>s. returns (st_mem s p) (\<lambda>c.
       returns (if was_async \<and> hc_recv c \<noteq> []
       then (let (ok, s) = http_sevent_post env (ProcessPost p) s
             in if ok then Some s else conn_close_graceful env p s)
       else Some s) (\<lambda>s'. http_inv D s' \<and> later s0 s')))"
    proof (rule returns_mono [OF idle_reset_ok [OF becomesD(1,2) [OF b] d]])
      fix s2 assume "(\<exists>t. becomes D s1 p (?c\<lparr>hc_idle_timer := t\<rparr>) s2) \<and> st_posts s2 = st_posts s1"
      then obtain t where "becomes D s1 p (?c\<lparr>hc_idle_timer := t\<rparr>) s2" by blast
      then have b2: "becomes D s p (?c\<lparr>hc_idle_timer := t\<rparr>) s2" by (rule becomes_trans [OF b])
      have l: "later s s2" by (rule becomesD(4) [OF b2 p]) (simp_all add: st'(3))
      obtain s3 where s3: "http_sevent_post env (ProcessPost p) s2 = (True, s3)" "http_inv D s3" "later s2 s3"
        using posted_ok(1) [OF becomesD(1) [OF b2] e becomesD(2) [OF b2]] d by auto
      show "returns (st_mem s2 p) (\<lambda>c. returns (if was_async \<and> hc_recv c \<noteq> []
       then (let (ok, s) = http_sevent_post env (ProcessPost p) s2
             in if ok then Some s else conn_close_graceful env p s)
       else Some s2) (\<lambda>s'. http_inv D s' \<and> later s0 s'))"
        using s3 b2 becomesD(1,2) [OF b2] l later_trans [OF l s3(3)] that by simp
    qed
  qed (use st' in simp_all)
  then show ?thesis using False p by (simp add: conn_response_complete_def)
qed

section \<open>The public functions\<close>

definition keeps_http :: "nat set \<Rightarrow> 'w http_st \<Rightarrow> 'w http_st \<Rightarrow> bool" where
  "keeps_http D s s' \<longleftrightarrow> http_inv D s' \<and> later s s'"

lemma keeps_httpI [intro]: "http_inv D s' \<Longrightarrow> later s s' \<Longrightarrow> keeps_http D s s'" by (simp add: keeps_http_def)

lemma keeps_http_trans: "later s s1 \<Longrightarrow> keeps_http D s1 s' \<Longrightarrow> keeps_http D s s'"
  using later_trans by (auto simp: keeps_http_def)

lemma becomes_keeps: "becomes D s p c' s' \<Longrightarrow> st_mem s p = Some c \<Longrightarrow> moves (hc_state c) (hc_state c') \<Longrightarrow> hc_recv c' = hc_recv c \<Longrightarrow> keeps_http D s s'"
  by (auto simp: keeps_http_def becomesD)

lemma put_flags:
  assumes "http_inv D s" "st_mem s p = Some c"
  shows "becomes D s p (c\<lparr>hc_close_pending := b\<rparr>) (put p (c\<lparr>hc_close_pending := b\<rparr>) s)"
    "becomes D s p (c\<lparr>hc_wrote := b\<rparr>) (put p (c\<lparr>hc_wrote := b\<rparr>) s)"
    "becomes D s p (c\<lparr>hc_req_keep_alive := b\<rparr>) (put p (c\<lparr>hc_req_keep_alive := b\<rparr>) s)"
    "becomes D s p (c\<lparr>hc_close_pending := b, hc_wrote := b'\<rparr>) (put p (c\<lparr>hc_close_pending := b, hc_wrote := b'\<rparr>) s)"
proof -
  have "length (hc_recv c) \<le> hc_cap c" using http_invD(3) [OF assms] by (simp add: conn_ok_def)
  then show "becomes D s p (c\<lparr>hc_close_pending := b\<rparr>) (put p (c\<lparr>hc_close_pending := b\<rparr>) s)"
    "becomes D s p (c\<lparr>hc_wrote := b\<rparr>) (put p (c\<lparr>hc_wrote := b\<rparr>) s)"
    "becomes D s p (c\<lparr>hc_req_keep_alive := b\<rparr>) (put p (c\<lparr>hc_req_keep_alive := b\<rparr>) s)"
    "becomes D s p (c\<lparr>hc_close_pending := b, hc_wrote := b'\<rparr>) (put p (c\<lparr>hc_close_pending := b, hc_wrote := b'\<rparr>) s)"
    using assms by (intro put_ok [where c = c]; simp)+
qed

lemma http_conn_respond_ok:
  assumes i: "http_inv D s" and p: "st_mem s p = Some c" and e: "env_ok env" and u: "callbacks_ok user"
  shows "returns (sevent_http_conn_respond env user p resp s) (\<lambda>x. keeps_http D s (snd x))"
proof (cases "(hc_state c = HTTP_CONN_REQUEST \<or> hc_state c = HTTP_CONN_AWAIT_RESP) \<and> \<not> hc_wrote c")
  case True
  obtain rc n s1 where bld: "conn_respond_build env user p resp False s = Some ((rc, n), s1)" and x: "wrote_or_closed D p s rc s1"
    using respond_build_ok [OF i p e u, of resp False] by (auto elim!: returnsE)
  have l: "later s s1" and i1: "http_inv D s1" using writable_later [OF x p] True x by (auto simp: wrote_or_closed_def)
  show ?thesis
  proof (cases "rc = 0")
    case rc: True
    then have "unchanged s s1" using x by (simp add: wrote_or_closed_def)
    then have p1: "st_mem s1 p = Some c" using p unchangedD(2) by metis
    note b = put_flags(1) [OF i1 p1, of "hc_close_pending c \<or> n"]
    have "later s1 (put p (c\<lparr>hc_close_pending := hc_close_pending c \<or> n\<rparr>) s1)" by (rule becomesD(4) [OF b p1]) simp_all
    note t = later_trans [OF l this]
    have "returns (conn_response_complete env p (hc_state c = HTTP_CONN_AWAIT_RESP)
              (put p (c\<lparr>hc_close_pending := hc_close_pending c \<or> n\<rparr>) s1)) (keeps_http D s)"
      by (rule returns_mono [OF response_complete_ok [OF becomesD(1,2) [OF b] e]]) (use True later_trans [OF t] in auto)
    then show ?thesis using p True bld rc p1 by (auto simp: sevent_http_conn_respond_def)
  next
    case False
    then show ?thesis using p True bld l i1 by (auto simp: sevent_http_conn_respond_def)
  qed
next
  case False
  then show ?thesis using p i by (auto simp: sevent_http_conn_respond_def)
qed

lemma http_conn_write_ok:
  assumes i: "http_inv D s" and p: "st_mem s p = Some c" and e: "env_ok env" and u: "callbacks_ok user"
  shows "returns (sevent_http_conn_write env user p buf len s) (\<lambda>x. keeps_http D s (snd x))"
proof (cases "\<not> (buf = None \<and> len \<noteq> 0) \<and> hc_state c \<in> {HTTP_CONN_REQUEST, HTTP_CONN_AWAIT_RESP, HTTP_CONN_RESPONDING} \<and> len \<noteq> 0")
  case True
  obtain rc s1 where wr: "conn_stream_write env user p (take len (the buf)) s = Some (rc, s1)" and x: "wrote_or_closed D p s rc s1"
    using stream_write_ok [OF i p e u, of "take len (the buf)"] by (auto elim!: returnsE)
  have l: "later s s1" and i1: "http_inv D s1" using writable_later [OF x p] True x by (auto simp: wrote_or_closed_def)
  show ?thesis
  proof (cases "rc = 0")
    case rc: True
    then have "unchanged s s1" using x by (simp add: wrote_or_closed_def)
    then have p1: "st_mem s1 p = Some c" using p unchangedD(2) by metis
    note b = put_flags(2) [OF i1 p1, of True]
    let ?s2 = "put p (c\<lparr>hc_wrote := True\<rparr>) s1"
    have k: "keeps_http D s s'" if "becomes D ?s2 p c' s'" "moves (hc_state c) (hc_state c')" "hc_recv c' = hc_recv c" for c' s'
      using becomes_keeps [OF becomes_trans [OF b that(1)] p1 that(2,3)] keeps_http_trans [OF l] by blast
    have "keeps_http D s ?s2" using becomes_keeps [OF b p1] keeps_http_trans [OF l] by simp
    moreover have "returns (http_state_set p HTTP_CONN_RESPONDING ?s2) (keeps_http D s)" if aw: "hc_state c = HTTP_CONN_AWAIT_RESP"
    proof (rule returns_mono [OF state_set_ok [OF becomesD(1,2) [OF b]]])
      show "HTTP_CONN_RESPONDING = HTTP_CONN_CLOSING \<or> st_streams ?s2 p \<noteq> Some False"
        using streams_known [OF becomesD(1,2) [OF b]] aw by simp
    qed (use aw in \<open>auto intro!: k simp: moves_def\<close>)
    ultimately show ?thesis using p True wr rc p1 by (auto simp: sevent_http_conn_write_def Let_def)
  next
    case False
    then show ?thesis using p True wr l i1 by (auto simp: sevent_http_conn_write_def)
  qed
next
  case False
  then show ?thesis using p i by (auto simp: sevent_http_conn_write_def)
qed

lemma http_conn_write_end_ok:
  assumes i: "http_inv D s" and p: "st_mem s p = Some c" and e: "env_ok env"
  shows "returns (sevent_http_conn_write_end env p s) (\<lambda>x. keeps_http D s (snd x))"
proof (cases "hc_state c = HTTP_CONN_REQUEST \<or> hc_state c = HTTP_CONN_RESPONDING")
  case True
  then have "returns (conn_response_complete env p (hc_state c = HTTP_CONN_RESPONDING) s) (keeps_http D s)"
    by (intro returns_mono [OF response_complete_ok [OF i p e]]) auto
  then show ?thesis using True p by (auto simp: sevent_http_conn_write_end_def)
next
  case False
  then show ?thesis using p i by (auto simp: sevent_http_conn_write_end_def)
qed

lemma http_conn_close_ok:
  assumes i: "http_inv D s" and p: "st_mem s p = Some c"
  shows "returns (sevent_http_conn_close env p s) (keeps_http D s)"
proof -
  note b = put_flags(1) [OF i p, of True]
  have l: "later s (put p (c\<lparr>hc_close_pending := True\<rparr>) s)" by (rule becomesD(4) [OF b p]) simp_all
  have "returns (conn_close_graceful env p (put p (c\<lparr>hc_close_pending := True\<rparr>) s)) (keeps_http D s)"
    by (rule returns_mono [OF close_graceful_later [OF becomesD(1,2) [OF b]]]) (use later_trans [OF l] in auto)
  then show ?thesis using p i by (auto simp: sevent_http_conn_close_def)
qed

lemma server_destroy_ok:
  assumes i: "http_inv D s" and e: "env_ok env"
  shows "returns (sevent_http_server_destroy env user s) (keeps_http D s)"
proof -
  obtain v where v: "st_srv s = Some v" using http_inv_srv [OF i] by blast
  show ?thesis
proof (cases "sv_destroyed v")
  case False
  let ?s = "s\<lparr>st_srv := Some (v\<lparr>sv_destroyed := True\<rparr>)\<rparr>"
  have n: "SrvCleanup \<notin> set (st_posts ?s)" using list_ok_destroyed [OF http_invD(1) [OF i] v False] by simp
  have i1: "http_inv D ?s" by (rule http_inv_srv_flags [OF i v]) simp_all
  obtain s' where s': "http_sevent_post env SrvCleanup ?s = (True, s')" "http_inv D s'" "later ?s s'" using posted_ok(3) [OF i1 e] n by auto
  have "later s ?s" by (simp add: later_def later_at_def)
  then show ?thesis using v s' False later_trans [OF _ s'(3)] by (auto simp: sevent_http_server_destroy_def)
next
  case True
  then show ?thesis using v i by (auto simp: sevent_http_server_destroy_def)
qed
qed

lemma server_listen_ok:
  assumes i: "http_inv D s"
  shows "returns (sevent_http_server_listen env host port backlog a b c d e s) (\<lambda>x. keeps_http D s (snd x))"
proof -
  obtain v where v: "st_srv s = Some v" using http_inv_srv [OF i] by blast
  obtain rc w where r: "he_acc_listen env host port backlog (st_w s) = (rc, w)" by (rule prod.exhaust)
  let ?v = "v\<lparr>sv_on_accept := a, sv_on_request := b, sv_on_upgrade := c, sv_on_conn_close := d, sv_on_error := e\<rparr>"
  have "http_inv D (s\<lparr>st_srv := Some ?v\<rparr>\<lparr>st_w := w\<rparr>)" using http_inv_srv_flags [OF i v, of ?v] by simp
  moreover have "later s (s\<lparr>st_srv := Some ?v, st_w := w\<rparr>)" by (simp add: later_def later_at_def)
  ultimately show ?thesis using v r i by (auto simp: sevent_http_server_listen_def)
qed

section \<open>The hand-over\<close>

lemma release_ok:
  assumes i: "http_inv D s" and p: "st_mem s p = Some c"
  shows "returns (sevent_http_conn_i_release p s) (\<lambda>x.
    if fst x \<noteq> 0 then snd x = s else p \<notin> D \<and> http_inv (insert p D) (snd x) \<and> later s (snd x)
      \<and> (\<exists>c'. st_mem (snd x) p = Some c' \<and> hc_state c' = HTTP_CONN_RELEASED))"
proof (cases "\<not> hc_released c \<and> hc_state c = HTTP_CONN_REQUEST")
  case True
  have d: "\<not> conn_dead c" using True by (simp add: conn_dead_def)
  obtain v xs where v: "st_srv s = Some v" "conn_list (st_mem s) (sv_conns v) xs" "distinct xs"
    "\<forall>p. p \<in> set xs \<longleftrightarrow> (\<exists>c. st_mem s p = Some c \<and> \<not> conn_dead c)" using http_invD(1) [OF i] unfolding list_ok_def by blast
  have cp: "conn_ok D s p c" by (rule http_invD(3) [OF i p])
  let ?c1 = "c\<lparr>hc_released := True, hc_state := HTTP_CONN_RELEASED\<rparr>"
  let ?tm = "\<lambda>t. if hc_idle_timer c = Some t then None else st_timers s t"
  let ?c3 = "?c1\<lparr>hc_idle_timer := None\<rparr>"
  let ?s1 = "put p ?c1 (logged (HttpState p HTTP_CONN_REQUEST HTTP_CONN_RELEASED) (put p (c\<lparr>hc_released := True\<rparr>) s))"
  let ?s2 = "put p ?c3 (?s1\<lparr>st_timers := ?tm\<rparr>)"
  have 1: "http_state_set p HTTP_CONN_RELEASED (put p (c\<lparr>hc_released := True\<rparr>) s) = Some ?s1"
    using True by (simp add: http_state_set_def put_def)
  have 2: "conn_idle_stop p ?s1 = Some ?s2"
    using v(1) by (subst idle_stop_raw [of _ v _ ?c1]) (simp_all add: put_def logged_def cong: if_cong)
  have m2: "st_mem ?s2 = (st_mem s)(p \<mapsto> ?c3)" "st_srv ?s2 = Some v" using v(1) by (simp_all add: put_def logged_def)
  have "conn_list (st_mem ?s2) (sv_conns v) xs" unfolding m2 using v(2) p by (subst conn_list_upd [of _ _ c]) simp_all
  then obtain m' h where 4: "conn_unlink p ?s2 = Some (?s2\<lparr>st_mem := m', st_srv := Some (v\<lparr>sv_conns := h\<rparr>)\<rparr>)" (is "_ = Some ?s4")
    "same_but_next (st_mem ?s2) m'" "conn_list m' h (remove1 p xs)"
    using conn_unlink_ok [of ?s2 v xs p] m2(2) v(3) by blast
  have s4: "same_but_next ((st_mem s)(p \<mapsto> ?c3)) (st_mem ?s4)" using 4(2) unfolding m2 by simp
  have st: "st_streams s p = None \<or> st_streams s p = Some True \<and> hc_stream c"
    using cp True streams_known [OF i p] unfolding conn_ok_def by (cases "st_streams s p") auto
  have "http_inv (insert p D) ?s4"
    by (rule takedown [OF i p d _ _ _ _ _ s4 v(1) _ v(2-4), where v' = "v\<lparr>sv_conns := h\<rparr>"])
      (use cp True st 4(3) in \<open>auto simp: put_def logged_def conn_ok_def conn_dead_def\<close>)
  moreover have "later_but p s ?s4" and p4: "\<exists>x. st_mem ?s4 p = Some (?c3\<lparr>hc_next := x\<rparr>)"
    using takedown_later [OF s4] by (auto simp: put_def logged_def)
  moreover have "later_at p s ?s4"
    using p4 p True by (auto simp: later_at_def moves_def conn_dead_def put_def logged_def)
  ultimately have "http_inv (insert p D) ?s4 \<and> later s ?s4 \<and> (\<exists>c'. st_mem ?s4 p = Some c' \<and> hc_state c' = HTTP_CONN_RELEASED)"
    by (auto simp: later_def later_but_def)
  moreover have "sevent_http_conn_i_release p s = Some (0, ?s4)"
    unfolding sevent_http_conn_i_release_def p bind.bind_lunit using True 1 2 4(1) by simp
  moreover have "p \<notin> D" using cp d by (simp add: conn_ok_def)
  ultimately show ?thesis by simp
next
  case False
  then show ?thesis using p by (auto simp: sevent_http_conn_i_release_def err_defs)
qed

lemma released_upd:
  assumes i: "http_inv D s" and p: "st_mem s p = Some c" "hc_state c = HTTP_CONN_RELEASED" "p \<in> D"
    and c': "hc_next c' = hc_next c" "hc_state c' = hc_state c" "hc_idle_timer c' = hc_idle_timer c"
      "length (hc_recv c') \<le> hc_cap c'" "hc_released c' = hc_released c"
    and st: "b = st_streams s p \<and> hc_stream c' = hc_stream c \<or> b = None"
  shows "http_inv D (put p c' (s\<lparr>st_streams := (st_streams s)(p := b)\<rparr>))" (is "http_inv D ?s")
    "later s (put p c' (s\<lparr>st_streams := (st_streams s)(p := b)\<rparr>))"
proof -
  have dd: "conn_dead c' = conn_dead c" "conn_dead c'" using c'(2) p(2) by (simp_all add: conn_dead_def)
  have ag: "agree D D s ?s q" if "q \<noteq> p" for q using that by (simp add: agree_def put_def)
  show "http_inv D ?s"
  proof (rule http_invI)
    show "list_ok ?s" by (rule list_ok_upd [OF http_invD(1) [OF i] p(1) c'(1) dd(1)]) (simp_all add: put_def)
    show "conn_ok D ?s q cq" if "st_mem ?s q = Some cq" for q cq
    proof (cases "q = p")
      case True
      have "conn_ok D ?s p c'"
        using http_invD(3) [OF i p(1)] dd p c' st unfolding conn_ok_def put_def by auto
      then show ?thesis using that True by (simp add: put_def)
    next
      case False
      then show ?thesis using that agree_ok [OF ag http_invD(3) [OF i]] by (simp add: put_def)
    qed
    show "gone_ok D ?s q" if "st_mem ?s q = None" for q
      using that agree_gone [OF ag http_invD(4) [OF i], of q] by (simp add: put_def split: if_splits)
    show "t < st_fresh ?s \<and> (\<exists>c. st_mem ?s q = Some c \<and> hc_idle_timer c = Some t)" if "st_timers ?s t = Some q" for t q
      using that http_invD(5) [OF i, of t q] p c'(3) by (auto simp: put_def)
  qed (use http_invD(6-8) [OF i] in \<open>simp_all add: put_def\<close>)
  show "later s ?s" using p dd c' st by (auto simp: later_def later_at_def put_def)
qed

text \<open>
  What \<open>sevent_ws_upgrade\<close> does first and last with the connection it takes over; it takes
  the buffer unless it cannot allocate its own object.
\<close>

definition upgrade_begin :: "nat \<Rightarrow> bool \<Rightarrow> 'w http_st \<Rightarrow> (bool \<times> 'w http_st) option" where
  "upgrade_begin p take_buf s = do {
     (r, s) \<leftarrow> sevent_http_conn_i_release p s;
     if r \<noteq> 0 then Some (False, s)
     else do {
       (have_stream, s) \<leftarrow> sevent_http_conn_i_detach_stream p s;
       if take_buf then do { (_, s) \<leftarrow> sevent_http_conn_i_take_recv p s; Some (True, s) } else Some (True, s)
     }
   }"

lemma upgrade_begin_ok:
  assumes i: "http_inv D s" and p: "st_mem s p = Some c"
  shows "returns (upgrade_begin p b s) (\<lambda>x. if fst x then p \<notin> D \<and> http_inv (insert p D) (snd x) \<and> later s (snd x)
      \<and> st_streams (snd x) p = None \<and> (\<exists>c'. st_mem (snd x) p = Some c' \<and> hc_state c' = HTTP_CONN_RELEASED) else snd x = s)"
proof -
  obtain r s1 where r: "sevent_http_conn_i_release p s = Some (r, s1)" and x: "if r \<noteq> 0 then s1 = s else p \<notin> D \<and> http_inv (insert p D) s1 \<and> later s s1
      \<and> (\<exists>c'. st_mem s1 p = Some c' \<and> hc_state c' = HTTP_CONN_RELEASED)"
    using release_ok [OF i p] by (auto elim!: returnsE split: if_splits)
  show ?thesis
  proof (cases "r = 0")
    case True
    then obtain c1 where s1: "p \<notin> D" "http_inv (insert p D) s1" "later s s1" "st_mem s1 p = Some c1" "hc_state c1 = HTTP_CONN_RELEASED"
      using x by auto
    have rel: "hc_released c1" "length (hc_recv c1) \<le> hc_cap c1" using http_invD(3) [OF s1(2,4)] s1(5) by (simp_all add: conn_ok_def)
    let ?c2 = "c1\<lparr>hc_stream := False\<rparr>" and ?s2 = "put p (c1\<lparr>hc_stream := False\<rparr>) (s1\<lparr>st_streams := (st_streams s1)(p := None)\<rparr>)"
    have 2: "sevent_http_conn_i_detach_stream p s1 = Some (hc_stream c1, ?s2)"
      using s1(4) rel by (simp add: sevent_http_conn_i_detach_stream_def)
    have i2: "http_inv (insert p D) ?s2" "later s1 ?s2"
      using s1(5) rel by (intro released_upd [OF s1(2,4)]; simp)+
    have p2: "st_mem ?s2 p = Some ?c2" "st_streams ?s2 p = None" "hc_state ?c2 = HTTP_CONN_RELEASED" using s1(5) by (simp_all add: put_def)
    have "returns (sevent_http_conn_i_take_recv p ?s2) (\<lambda>x. http_inv (insert p D) (snd x) \<and> later s1 (snd x)
      \<and> st_streams (snd x) p = None \<and> (\<exists>c'. st_mem (snd x) p = Some c' \<and> hc_state c' = HTTP_CONN_RELEASED))"
    proof (cases "hc_has_buf ?c2")
      case True
      let ?c3 = "?c2\<lparr>hc_has_buf := False, hc_recv := [], hc_cap := 0\<rparr>"
      have e: "put p ?c3 ?s2 = put p ?c3 (?s2\<lparr>st_streams := (st_streams ?s2)(p := None)\<rparr>)" by (simp add: put_def)
      have "http_inv (insert p D) (put p ?c3 ?s2)" "later ?s2 (put p ?c3 ?s2)"
        unfolding e using p2(3) by (intro released_upd [OF i2(1) p2(1)]; simp)+
      then show ?thesis
        using True rel p2 later_trans [OF i2(2)] by (auto simp: sevent_http_conn_i_take_recv_def) (auto simp: put_def)
    next
      case False
      then show ?thesis using i2 p2 rel by (auto simp: sevent_http_conn_i_take_recv_def)
    qed
    then obtain y s3 where 3: "sevent_http_conn_i_take_recv p ?s2 = Some (y, s3)" "http_inv (insert p D) s3" "later s1 s3"
      "st_streams s3 p = None" "\<exists>c'. st_mem s3 p = Some c' \<and> hc_state c' = HTTP_CONN_RELEASED" by (auto elim!: returnsE)
    have "upgrade_begin p b s = Some (True, if b then s3 else ?s2)"
      unfolding upgrade_begin_def r bind.bind_lunit prod.case using True 2 3(1) by simp
    then show ?thesis using s1(1) i2 p2 3(2-) later_trans [OF s1(3) i2(2)] later_trans [OF s1(3) 3(3)] by auto
  next
    case False
    then show ?thesis using r x by (simp add: upgrade_begin_def)
  qed
qed

lemma i_destroy_ok:
  assumes i: "http_inv (insert p D) s" and p: "st_mem s p = Some c" "hc_state c = HTTP_CONN_RELEASED" "st_streams s p = None" "p \<notin> D"
    and e: "env_ok env"
  shows "returns (sevent_http_conn_i_destroy env p s) (\<lambda>s'. http_inv D s' \<and> later s s')"
proof -
  obtain v where v: "st_srv s = Some v" using http_inv_srv [OF i] by blast
  have "hc_released c" using http_invD(3) [OF i p(1)] p(2) by (simp add: conn_ok_def)
  moreover obtain s' where "http_sevent_post env (ConnCleanup p) s = (True, s')" "http_inv (insert p D - {p}) s'" "later s s'"
    using posted_ok(2) [OF i e p(1) insertI1 p(3)] by blast
  moreover have "insert p D - {p} = D" using p(4) by blast
  ultimately show ?thesis using p(1) v by (simp add: sevent_http_conn_i_destroy_def post_cleanup_def)
qed

section \<open>What a callback does\<close>

datatype http_call =
    CallRespond nat sevent_http_response
  | CallWrite nat "bytes option" nat
  | CallWriteEnd nat
  | CallClose nat
  | CallDestroy
  | CallListen "string option" "16 word" int bool bool bool bool bool

fun run_call :: "'w http_env \<Rightarrow> 'w http_user \<Rightarrow> http_call \<Rightarrow> 'w http_st \<Rightarrow> 'w http_st option" where
  "run_call env user (CallRespond p resp) s = map_option snd (sevent_http_conn_respond env user p resp s)"
| "run_call env user (CallWrite p buf len) s = map_option snd (sevent_http_conn_write env user p buf len s)"
| "run_call env user (CallWriteEnd p) s = map_option snd (sevent_http_conn_write_end env p s)"
| "run_call env user (CallClose p) s = sevent_http_conn_close env p s"
| "run_call env user CallDestroy s = sevent_http_server_destroy env user s"
| "run_call env user (CallListen host port backlog a b c d e) s =
     map_option snd (sevent_http_server_listen env host port backlog a b c d e s)"

fun call_conn :: "http_call \<Rightarrow> nat option" where
  "call_conn (CallRespond p resp) = Some p"
| "call_conn (CallWrite p buf len) = Some p"
| "call_conn (CallWriteEnd p) = Some p"
| "call_conn (CallClose p) = Some p"
| "call_conn call = None"

text \<open>The caller names a connection that was not freed.\<close>

definition call_valid :: "http_call \<Rightarrow> 'w http_st \<Rightarrow> bool" where
  "call_valid call s \<longleftrightarrow> (\<forall>p. call_conn call = Some p \<longrightarrow> st_mem s p \<noteq> None)"

text \<open>
  One action of user code: a public call, or an upgrade, during which the callbacks of the
  websocket layer may act in turn. Everything else user code does is a change of the world.
\<close>

inductive http_api :: "'w http_env \<Rightarrow> 'w http_user \<Rightarrow> 'w http_st \<Rightarrow> 'w http_st \<Rightarrow> bool" for env user where
  api_call: "call_valid call s \<Longrightarrow> run_call env user call s = Some s' \<Longrightarrow> http_api env user s s'"
| api_refused: "st_mem s p \<noteq> None \<Longrightarrow> upgrade_begin p b s = Some (False, s') \<Longrightarrow> http_api env user s s'"
| api_upgrade: "st_mem s p \<noteq> None \<Longrightarrow> upgrade_begin p b s = Some (True, s1) \<Longrightarrow> (http_api env user)\<^sup>*\<^sup>* s1 s2 \<Longrightarrow>
    sevent_http_conn_i_destroy env p s2 = Some s3 \<Longrightarrow> http_api env user s s3"
| api_world: "http_api env user s (s\<lparr>st_w := w\<rparr>)"

text \<open>A call that uses a freed object.\<close>

inductive http_stuck :: "'w http_env \<Rightarrow> 'w http_user \<Rightarrow> 'w http_st \<Rightarrow> bool" for env user where
  stuck_call: "call_valid call s \<Longrightarrow> run_call env user call s = None \<Longrightarrow> http_stuck env user s"
| stuck_begin: "st_mem s p \<noteq> None \<Longrightarrow> upgrade_begin p b s = None \<Longrightarrow> http_stuck env user s"
| stuck_within: "st_mem s p \<noteq> None \<Longrightarrow> upgrade_begin p b s = Some (True, s1) \<Longrightarrow> (http_api env user)\<^sup>*\<^sup>* s1 s2 \<Longrightarrow>
    http_stuck env user s2 \<or> sevent_http_conn_i_destroy env p s2 = None \<Longrightarrow> http_stuck env user s"

text \<open>
  User callbacks: any sequence of such actions. The calls may lead to further callbacks, which
  nest finitely deep: callbacks of depth \<open>n + 1\<close> run on top of callbacks of depth \<open>n\<close>. A callback
  fails only when one of its actions does.
\<close>

inductive http_callbacks :: "'w http_env \<Rightarrow> 'w http_user \<Rightarrow> bool" for env where
  cb_none: "http_callbacks env (\<lambda>ev s. Some (b, s))"
| cb_nest: "http_callbacks env user \<Longrightarrow>
    (\<And>ev s. case user' ev s of Some (b, s') \<Rightarrow> (http_api env user)\<^sup>*\<^sup>* s s'
       | None \<Rightarrow> \<exists>s1. (http_api env user)\<^sup>*\<^sup>* s s1 \<and> http_stuck env user s1) \<Longrightarrow> http_callbacks env user'"

lemma run_call_ok:
  assumes "http_inv D s" "call_valid call s" "env_ok env" "callbacks_ok user"
  shows "returns (run_call env user call s) (keeps_http D s)"
proof (cases call)
  case (CallRespond p resp)
  then show ?thesis using assms http_conn_respond_ok [of D s p _ env user resp] by (auto simp: call_valid_def)
next
  case (CallWrite p buf len)
  then show ?thesis using assms http_conn_write_ok [of D s p _ env user buf len] by (auto simp: call_valid_def)
next
  case (CallWriteEnd p)
  then show ?thesis using assms http_conn_write_end_ok [of D s p _ env] by (auto simp: call_valid_def)
next
  case (CallClose p)
  then show ?thesis using assms http_conn_close_ok [of D s p _ env] by (auto simp: call_valid_def)
next
  case CallDestroy
  then show ?thesis using assms server_destroy_ok [of D s env user] by simp
next
  case (CallListen host port backlog a b c d e)
  then show ?thesis using assms server_listen_ok [of D s env host port backlog a b c d e] by simp
qed

lemma keeps_rtrancl:
  assumes "(\<lambda>a b. http_api env user a b \<and> (\<forall>D. http_inv D a \<longrightarrow> keeps_http D a b))\<^sup>*\<^sup>* s s'" "http_inv D s"
  shows "keeps_http D s s'"
  using assms
proof (induction rule: rtranclp_induct)
  case (step y z)
  then show ?case using keeps_http_trans [of s y D z] by (auto simp: keeps_http_def)
qed auto

lemma upgrade_rest:
  assumes i: "http_inv D s" and p: "st_mem s p \<noteq> None" "upgrade_begin p b s = Some (True, s1)"
    and k: "\<And>D. http_inv D s1 \<Longrightarrow> keeps_http D s1 s2" and e: "env_ok env"
  shows "returns (sevent_http_conn_i_destroy env p s2) (keeps_http D s)" "\<exists>D'. http_inv D' s2"
proof -
  obtain c where c: "st_mem s p = Some c" using p(1) by blast
  have s1: "p \<notin> D" "http_inv (insert p D) s1" "later s s1" "st_streams s1 p = None" "\<exists>c'. st_mem s1 p = Some c' \<and> hc_state c' = HTTP_CONN_RELEASED"
    using upgrade_begin_ok [OF i c, of b] p(2) by simp_all
  then have k2: "http_inv (insert p D) s2" "later s1 s2" using k by (auto simp: keeps_http_def)
  then show "\<exists>D'. http_inv D' s2" by blast
  obtain c1 where c1: "st_mem s1 p = Some c1" "hc_state c1 = HTTP_CONN_RELEASED" using s1(5) by blast
  obtain c2 where c2: "st_mem s2 p = Some c2" "hc_state c2 = HTTP_CONN_RELEASED" "st_streams s2 p = None"
    using laterD [OF k2(2) c1(1)] c1(2) s1(4) by (auto simp: moves_def)
  show "returns (sevent_http_conn_i_destroy env p s2) (keeps_http D s)"
    by (rule returns_mono [OF i_destroy_ok [OF k2(1) c2 s1(1) e]])
      (use later_trans [OF s1(3) later_trans [OF k2(2)]] in auto)
qed

lemma http_api_keeps:
  assumes "http_api env user s s'" "env_ok env" "callbacks_ok user" "http_inv D s"
  shows "keeps_http D s s'"
proof -
  have "\<forall>D. http_inv D s \<longrightarrow> keeps_http D s s'"
    using assms(1)
  proof (induction rule: http_api.induct)
    case (api_call call s s')
    then show ?case using run_call_ok [of _ s call env user] assms(2,3) by fastforce
  next
    case (api_refused s p b s')
    then show ?case using upgrade_begin_ok [of _ s p _ b] by fastforce
  next
    case (api_upgrade s p b s1 s2 s3)
    then show ?case using upgrade_rest(1) [of _ s p b s1 s2 env] keeps_rtrancl [OF api_upgrade.IH] assms(2) by fastforce
  next
    case (api_world s w)
    then show ?case using unchangedD(1) [of s "s\<lparr>st_w := w\<rparr>"] by auto
  qed
  then show ?thesis using assms(4) by blast
qed

lemma http_apis_keep:
  assumes "(http_api env user)\<^sup>*\<^sup>* s s'" "env_ok env" "callbacks_ok user" "http_inv D s"
  shows "keeps_http D s s'"
proof (rule keeps_rtrancl [OF _ assms(4)])
  show "(\<lambda>a b. http_api env user a b \<and> (\<forall>D. http_inv D a \<longrightarrow> keeps_http D a b))\<^sup>*\<^sup>* s s'"
    using assms(1) by (rule rtranclp_mono [THEN predicate2D, rotated]) (use http_api_keeps [OF _ assms(2,3)] in auto)
qed

lemma never_stuck: "http_stuck env user s \<Longrightarrow> env_ok env \<Longrightarrow> callbacks_ok user \<Longrightarrow> \<not> http_inv D s"
proof (induction arbitrary: D rule: http_stuck.induct)
  case (stuck_call call s)
  then show ?case using run_call_ok [of D s call env user] by auto
next
  case (stuck_begin s p b)
  then show ?case using upgrade_begin_ok [of D s p _ b] by auto
next
  case (stuck_within s p b s1 s2)
  show ?case
  proof
    assume i: "http_inv D s"
    have k: "\<And>D. http_inv D s1 \<Longrightarrow> keeps_http D s1 s2" using http_apis_keep [OF stuck_within(3)] stuck_within by blast
    note r = upgrade_rest [OF i stuck_within(1,2) k]
    from stuck_within(4) show False using r [OF _ stuck_within(5)] stuck_within(5,6) by fastforce
  qed
qed

lemma http_callbacks_ok:
  fixes user :: "'w http_user"
  assumes "http_callbacks env user" "env_ok env"
  shows "callbacks_ok user"
  using assms
proof (induction rule: http_callbacks.induct)
  case (cb_none b)
  then show ?case by (simp add: callbacks_ok_def)
next
  case (cb_nest user user')
  show ?case
    unfolding callbacks_ok_def
  proof (intro allI impI)
    fix D ev and s :: "'w http_st" assume i: "http_inv D s"
    show "returns (user' ev s) (\<lambda>x. http_inv D (snd x) \<and> later s (snd x))"
    proof (cases "user' ev s")
      case None
      then obtain s1 where "(http_api env user)\<^sup>*\<^sup>* s s1" "http_stuck env user s1" using cb_nest(2) [where ev = ev and s = s] by auto
      then show ?thesis using http_apis_keep [of env user s s1 D] never_stuck cb_nest i by (metis keeps_http_def)
    next
      case (Some x)
      then have "(http_api env user)\<^sup>*\<^sup>* s (snd x)" using cb_nest(2) [where ev = ev and s = s] by (auto split: prod.splits)
      then show ?thesis using Some http_apis_keep [of env user s "snd x" D] cb_nest i by (simp add: keeps_http_def)
    qed
  qed
qed

section \<open>The loop's side\<close>

text \<open>What every entry from the event loop leaves behind.\<close>

definition goes_on :: "nat set \<Rightarrow> 'w http_st \<Rightarrow> 'w http_st \<Rightarrow> bool" where
  "goes_on D s s' \<longleftrightarrow> http_inv D s' \<and> (\<forall>q. st_mem s q \<noteq> None \<longrightarrow> st_mem s' q \<noteq> None)"

lemma goes_on_refl: "http_inv D s \<Longrightarrow> goes_on D s s" by (simp add: goes_on_def)

lemma goes_on_trans: "goes_on D s s1 \<Longrightarrow> goes_on D s1 s' \<Longrightarrow> goes_on D s s'" by (auto simp: goes_on_def)

lemma keeps_goes_on: "keeps_http D s s' \<Longrightarrow> goes_on D s s'"
  unfolding keeps_http_def goes_on_def using laterD by fastforce

lemma but_goes_on: "http_inv D s' \<Longrightarrow> later_but p s s' \<Longrightarrow> st_mem s' p = Some c' \<Longrightarrow> goes_on D s s'"
  unfolding goes_on_def later_but_def later_at_def by (metis option.exhaust option.distinct(1))

lemma becomes_goes_on: "becomes D s p c' s' \<Longrightarrow> goes_on D s s'"
  by (rule but_goes_on [OF becomesD(1) becomesD(3) becomesD(2)])

lemma terminate_goes_on:
  assumes "http_inv D s" "st_mem s p = Some c" "env_ok env" "callbacks_ok user"
  shows "returns (conn_terminate env user p s) (goes_on D s)"
  by (rule returns_mono [OF terminate_ok [OF assms]]) (auto intro: but_goes_on)

lemma respond_internal_ok:
  assumes i: "http_inv D s" and p: "st_mem s p = Some c" and e: "env_ok env" and u: "callbacks_ok user"
  shows "returns (http_respond_internal env user p status b s) (\<lambda>s'. goes_on D s s' \<and> (hc_state c = HTTP_CONN_REQUEST \<longrightarrow> later s s'))"
proof (cases "conn_dying c")
  case True
  then show ?thesis using p i by (simp add: http_respond_internal_def goes_on_refl)
next
  case False
  obtain rc n s1 where bld: "conn_respond_build env user p (http_response0\<lparr>rp_status := status\<rparr>) b s = Some ((rc, n), s1)"
    and x: "wrote_or_closed D p s rc s1"
    using respond_build_ok [OF i p e u, of "http_response0\<lparr>rp_status := status\<rparr>" b] by (auto elim!: returnsE)
  have i1: "http_inv D s1" and but: "later_but p s s1" using x by (simp_all add: wrote_or_closed_def)
  have lr: "hc_state c = HTTP_CONN_REQUEST \<longrightarrow> later s s1" using writable_later [OF x p] by simp
  obtain c1 where c1: "st_mem s1 p = Some c1" using x p unchangedD(2) [of s s1] by (auto simp: wrote_or_closed_def)
  have g1: "goes_on D s s1" by (rule but_goes_on [OF i1 but c1])
  show ?thesis
  proof (cases "rc = 0")
    case True
    note b1 = put_flags(1) [OF i1 c1, of True]
    have l: "later s1 (put p (c1\<lparr>hc_close_pending := True\<rparr>) s1)" by (rule becomesD(4) [OF b1 c1]) simp_all
    have "returns (conn_close_graceful env p (put p (c1\<lparr>hc_close_pending := True\<rparr>) s1)) (keeps_http D s1)"
      by (rule returns_mono [OF close_graceful_later [OF becomesD(1,2) [OF b1]]]) (use later_trans [OF l] in auto)
    then have "returns (conn_close_graceful env p (put p (c1\<lparr>hc_close_pending := True\<rparr>) s1)) (\<lambda>s'. goes_on D s s' \<and> (hc_state c = HTTP_CONN_REQUEST \<longrightarrow> later s s'))"
      by (rule returns_mono) (use goes_on_trans [OF g1 keeps_goes_on] lr later_trans [of s s1] in \<open>auto simp: keeps_http_def\<close>)
    then show ?thesis using False True bld p c1 by (simp add: http_respond_internal_def)
  next
    case rc: False
    then show ?thesis using False bld p g1 lr by (simp add: http_respond_internal_def)
  qed
qed

lemma http_dispatch_ok:
  assumes i: "http_inv D s" and p: "st_mem s p = Some c" "hc_state c = HTTP_CONN_REQUEST" and e: "env_ok env" and u: "callbacks_ok user"
  shows "returns (conn_dispatch env user p m s) (\<lambda>x. keeps_http D s (snd x))"
proof -
  obtain v where v: "st_srv s = Some v" using http_inv_srv [OF i] by blast
  have cb: "returns (user ev (logged (HttpDispatch p m) s)) (\<lambda>x. keeps_http D s (snd x))" for ev
    by (rule returns_mono [OF callbackD [OF u logged_ok(1) [OF i]]]) (use later_trans [OF logged_ok(2) [of s p m]] in \<open>simp add: keeps_http_def\<close>)
  have "returns (http_respond_internal env user p 400 True s) (keeps_http D s)"
    by (rule returns_mono [OF respond_internal_ok [OF i p(1) e u]]) (use p(2) in \<open>auto simp: goes_on_def\<close>)
  then show ?thesis using p v cb i
    by (auto simp: conn_dispatch_def case_prod_beta intro: keeps_httpI)
qed

lemma after_callback_ok:
  assumes i: "http_inv D s" and p: "st_mem s p = Some c" "\<not> conn_dying c"
  shows "returns (request_after_callback env p n s) (goes_on D s)"
proof -
  let ?c = "c\<lparr>hc_recv := drop n (hc_recv c)\<rparr>" and ?s = "put p (c\<lparr>hc_recv := drop n (hc_recv c)\<rparr>) s"
  have "length (hc_recv c) \<le> hc_cap c" using http_invD(3) [OF i p(1)] by (simp add: conn_ok_def)
  then have b: "becomes D s p ?c ?s" by (intro put_ok [OF i p(1)]) simp_all
  note g = becomes_goes_on [OF b]
  have reset: "returns (conn_idle_reset env p s1) (goes_on D s)" if "http_inv D s1" "st_mem s1 p = Some c1" "\<not> conn_dead c1" "goes_on D s s1" for s1 c1
    by (rule returns_mono [OF idle_reset_ok [OF that(1-3)]]) (use goes_on_trans [OF that(4)] becomes_goes_on in blast)
  have nd: "\<not> conn_dead ?c" using p(2) by (auto simp: conn_dead_def conn_dying_def)
  have set: "returns (http_state_set p ns ?s) (\<lambda>s1. returns (conn_idle_reset env p s1) (goes_on D s))"
    if "hc_state c = HTTP_CONN_REQUEST" "ns = HTTP_CONN_RESPONDING \<or> ns = HTTP_CONN_AWAIT_RESP" for ns
  proof (rule returns_mono [OF state_set_ok [OF becomesD(1,2) [OF b]]])
    show "ns = HTTP_CONN_CLOSING \<or> st_streams ?s p \<noteq> Some False" using streams_known [OF becomesD(1,2) [OF b]] that(1) by simp
    fix s1 assume b1: "becomes D ?s p (?c\<lparr>hc_state := ns\<rparr>) s1"
    show "returns (conn_idle_reset env p s1) (goes_on D s)"
      by (rule reset [OF becomesD(1,2) [OF b1] _ goes_on_trans [OF g becomes_goes_on [OF b1]]]) (use that in \<open>auto simp: conn_dead_def\<close>)
  qed (use that in auto)
  show ?thesis
  proof (cases "hc_state c = HTTP_CONN_PARSING \<or> hc_state c = HTTP_CONN_RESPONDING")
    case True
    then show ?thesis using p g by (auto simp: request_after_callback_def)
  next
    case False
    then show ?thesis
      using p set reset [OF becomesD(1,2) [OF b] nd g] by (cases "hc_state c = HTTP_CONN_REQUEST") (simp_all add: request_after_callback_def)
  qed
qed

lemma process_loop_ok:
  assumes e: "env_ok env" and u: "callbacks_ok user"
  shows "http_inv D s \<Longrightarrow> st_mem s p = Some c \<Longrightarrow> returns (http_process_loop n env user p s) (goes_on D s)"
proof (induction n arbitrary: s c)
  case 0
  obtain v where v: "st_srv s = Some v" using http_inv_srv [OF 0(1)] by blast
  show ?case
  proof (cases "hc_recv c = [] \<or> conn_dying c \<or> hc_state c \<noteq> HTTP_CONN_PARSING")
    case True
    then show ?thesis using 0 by (subst http_process_loop.simps) (auto simp: goes_on_refl)
  next
    case False
    then obtain s' where "http_sevent_post env (ProcessPost p) s = (True, s')" "http_inv D s'" "later s s'"
      using posted_ok(1) [OF 0(1) e 0(2)] by (auto simp: conn_dead_def)
    then show ?thesis using False 0 v keeps_goes_on [of D s s'] by (subst http_process_loop.simps) auto
  qed
next
  case (Suc n)
  obtain r m where parse: "sevent_http_parse (chars_of (hc_recv c)) = (r, m)" by (rule prod.exhaust)
  consider (idle) "hc_recv c = [] \<or> conn_dying c \<or> hc_state c \<noteq> HTTP_CONN_PARSING"
    | (short) "\<not> (hc_recv c = [] \<or> conn_dying c \<or> hc_state c \<noteq> HTTP_CONN_PARSING)" "r < 0 \<or> r = 0"
    | (full) "\<not> (hc_recv c = [] \<or> conn_dying c \<or> hc_state c \<noteq> HTTP_CONN_PARSING)" "0 < r" by linarith
  then show ?case
  proof cases
    case idle
    then show ?thesis using Suc by (subst http_process_loop.simps) (auto simp: goes_on_refl)
  next
    case short
    have "returns (http_respond_internal env user p st b s) (goes_on D s)" for st b
      by (rule returns_mono [OF respond_internal_ok [OF Suc(2,3) e u]]) simp
    then show ?thesis using short Suc(2,3) parse by (subst http_process_loop.simps) (auto simp: goes_on_refl)
  next
    case full
    let ?c1 = "c\<lparr>hc_req_keep_alive := hm_keep_alive m\<rparr>" let ?s1 = "put p ?c1 s"
    note b1 = put_flags(3) [OF Suc(2,3), of "hm_keep_alive m"]
    have stn: "HTTP_CONN_REQUEST = HTTP_CONN_CLOSING \<or> st_streams ?s1 p \<noteq> Some False"
      using streams_known [OF becomesD(1,2) [OF b1]] full(1) by simp
    have okst: "http_state_ok (hc_state ?c1) HTTP_CONN_REQUEST" using full(1) by simp
    obtain s2 where s2: "http_state_set p HTTP_CONN_REQUEST ?s1 = Some s2" and b2: "becomes D ?s1 p (?c1\<lparr>hc_state := HTTP_CONN_REQUEST\<rparr>) s2"
      by (rule returnsE [OF state_set_ok [OF becomesD(1,2) [OF b1] okst _ _ stn]]) auto
    let ?c2 = "?c1\<lparr>hc_state := HTTP_CONN_REQUEST\<rparr>"
    note b3 = put_flags(4) [OF becomesD(1,2) [OF b2], where b = "\<not> hm_keep_alive m" and b' = False]
    let ?c3 = "?c2\<lparr>hc_close_pending := \<not> hm_keep_alive m, hc_wrote := False\<rparr>" let ?s3 = "put p ?c3 s2"
    have g3: "goes_on D s ?s3" by (rule becomes_goes_on [OF becomes_trans [OF becomes_trans [OF b1 b2] b3]])
    have st3: "hc_state ?c3 = HTTP_CONN_REQUEST" by simp
    obtain taken s4 where d: "conn_dispatch env user p m ?s3 = Some (taken, s4)" and k4: "keeps_http D ?s3 s4"
      using http_dispatch_ok [OF becomesD(1,2) [OF b3] st3 e u, of m] by (auto elim!: returnsE)
    have g4: "goes_on D s s4" by (rule goes_on_trans [OF g3 keeps_goes_on [OF k4]])
    obtain c4 where c4: "st_mem s4 p = Some c4" using laterD [OF _ becomesD(2) [OF b3], of s4] k4 by (auto simp: keeps_http_def)
    have i4: "http_inv D s4" using k4 by (simp add: keeps_http_def)
    have eq: "http_process_loop (Suc n) env user p s = (if taken then Some s4 else if conn_dying c4 then Some s4
      else request_after_callback env p (the (hm_body m) + hm_body_len m) s4 \<bind> (\<lambda>s. st_mem s p \<bind> (\<lambda>c.
        if hc_state c = HTTP_CONN_PARSING then http_process_loop n env user p s else Some s)))"
      using full Suc(3) parse s2 becomesD(2) [OF b2] d c4 by (subst http_process_loop.simps) simp
    have "returns (request_after_callback env p k s4 \<bind> (\<lambda>s. st_mem s p \<bind> (\<lambda>c.
        if hc_state c = HTTP_CONN_PARSING then http_process_loop n env user p s else Some s))) (goes_on D s)" if "\<not> conn_dying c4" for k
      unfolding returns_bind
    proof (rule returns_mono [OF after_callback_ok [OF i4 c4 that]])
      fix s5 assume g5: "goes_on D s4 s5"
      then obtain c5 where c5: "st_mem s5 p = Some c5" using c4 by (auto simp: goes_on_def)
      have i5: "http_inv D s5" using g5 by (simp add: goes_on_def)
      have "returns (http_process_loop n env user p s5) (goes_on D s)"
        by (rule returns_mono [OF Suc(1) [OF i5 c5] goes_on_trans [OF goes_on_trans [OF g4 g5]]])
      then show "returns (st_mem s5 p) (\<lambda>c. returns (if hc_state c = HTTP_CONN_PARSING then http_process_loop n env user p s5 else Some s5) (goes_on D s))"
        using c5 goes_on_trans [OF g4 g5] by simp
    qed
    then show ?thesis unfolding eq using g4 by simp
  qed
qed

lemma process_ok:
  assumes "env_ok env" "callbacks_ok user" "http_inv D s" "st_mem s p = Some c"
  shows "returns (http_process env user p s) (goes_on D s)"
  unfolding http_process_def by (rule process_loop_ok [OF assms])

lemma process_post_ok:
  assumes "env_ok env" "callbacks_ok user" "http_inv D s" "st_mem s p = Some c"
  shows "returns (http_process_post env user p s) (goes_on D s)"
  using process_ok [OF assms] assms(3,4) by (simp add: http_process_post_def goes_on_refl)

lemma receive_ok:
  assumes e: "env_ok env" and u: "callbacks_ok user" and i: "http_inv D s" and p: "st_mem s p = Some c" "\<not> conn_dead c"
    and l: "length data \<le> hc_cap c - length (hc_recv c)"
  shows "returns (conn_receive env user p data s) (goes_on D s)"
proof -
  let ?c = "c\<lparr>hc_recv := hc_recv c @ data\<rparr>"
  have "length (hc_recv c) \<le> hc_cap c" using http_invD(3) [OF i p(1)] by (simp add: conn_ok_def)
  then have b: "becomes D s p ?c (put p ?c s)" using l by (intro put_ok [OF i p(1)]) simp_all
  have nd: "\<not> conn_dead ?c" using p(2) by simp
  obtain s1 t where s1: "conn_idle_reset env p (put p ?c s) = Some s1" "becomes D (put p ?c s) p (?c\<lparr>hc_idle_timer := t\<rparr>) s1"
    using idle_reset_ok [OF becomesD(1,2) [OF b] nd, of env] by (auto elim!: returnsE)
  note b1 = becomes_trans [OF b s1(2)]
  have "returns (http_process env user p s1) (goes_on D s)"
    by (rule returns_mono [OF process_ok [OF e u becomesD(1,2) [OF b1]] goes_on_trans [OF becomes_goes_on [OF b1]]])
  then show ?thesis using p s1 becomesD(2) [OF b1] becomes_goes_on [OF b1] by (simp add: conn_receive_def)
qed

lemma overflow_loop_ok:
  assumes e: "env_ok env" and u: "callbacks_ok user"
  shows "http_inv D s \<Longrightarrow> st_mem s p = Some c \<Longrightarrow> returns (overflow_loop k env user p len s) (goes_on D s)"
proof (induction k arbitrary: s c)
  case (Suc k)
  show ?case
  proof (cases "\<not> conn_dying c \<and> hc_state c = HTTP_CONN_PARSING \<and> hc_recv c \<noteq> [] \<and> hc_cap c - length (hc_recv c) < len")
    case True
    obtain s1 where s1: "http_process env user p s = Some s1" "goes_on D s s1" by (rule returnsE [OF process_ok [OF e u Suc(2,3)]]) blast
    obtain c1 where "st_mem s1 p = Some c1" "http_inv D s1" using s1(2) Suc(3) by (auto simp: goes_on_def)
    then have "returns (overflow_loop k env user p len s1) (goes_on D s)"
      by (intro returns_mono [OF Suc(1) goes_on_trans [OF s1(2)]])
    then show ?thesis using True Suc(3) s1(1) by simp
  next
    case False
    then show ?thesis using Suc by (auto simp: goes_on_refl)
  qed
qed (simp add: goes_on_refl)

lemma close_graceful_goes_on:
  "http_inv D s \<Longrightarrow> st_mem s p = Some c \<Longrightarrow> returns (conn_close_graceful env p s) (goes_on D s)"
  by (rule returns_mono [OF close_graceful_later]) (auto intro: keeps_goes_on)

lemma conn_on_data_ok:
  assumes e: "env_ok env" and u: "callbacks_ok user" and i: "http_inv D s" and p: "st_mem s p = Some c"
  shows "returns (conn_on_data env user p data s) (goes_on D s)"
proof -
  have nd: "\<not> conn_dying c' \<Longrightarrow> \<not> conn_dead c'" for c' by (auto simp: conn_dying_def conn_dead_def)
  obtain s1 where s1: "overflow_loop HTTP_OVERFLOW_PROCESS_LIMIT env user p (length data) s = Some s1" "goes_on D s s1"
    by (rule returnsE [OF overflow_loop_ok [OF e u i p, of HTTP_OVERFLOW_PROCESS_LIMIT "length data"]]) blast
  obtain c1 where c1: "st_mem s1 p = Some c1" "http_inv D s1" using s1(2) p by (auto simp: goes_on_def)
  have "returns (conn_receive env user p data s1) (goes_on D s)" if "\<not> conn_dying c1" "length data \<le> hc_cap c1 - length (hc_recv c1)"
    using that by (intro returns_mono [OF receive_ok [OF e u c1(2,1) nd] goes_on_trans [OF s1(2)]])
  moreover have "returns (conn_close_graceful env p s1) (goes_on D s)"
    by (intro returns_mono [OF close_graceful_goes_on [OF c1(2,1)] goes_on_trans [OF s1(2)]])
  ultimately show ?thesis
    using p i s1(1) c1(1) receive_ok [OF e u i p nd, of data] close_graceful_goes_on [OF i p, of env]
    by (auto simp: conn_on_data_def goes_on_refl)
qed

lemma idle_timeout_ok:
  assumes "env_ok env" "callbacks_ok user" "http_inv D s" "st_mem s p = Some c"
  shows "returns (on_idle_timeout env user p s) (goes_on D s)"
proof -
  obtain s1 where s1: "conn_idle_stop p s = Some s1" "becomes D s p (c\<lparr>hc_idle_timer := None\<rparr>) s1"
    by (rule returnsE [OF idle_stop_ok [OF assms(3,4)]]) blast
  have "returns (conn_terminate env user p s1) (goes_on D s)"
    by (rule returns_mono [OF terminate_goes_on [OF becomesD(1,2) [OF s1(2)] assms(1,2)] goes_on_trans [OF becomes_goes_on [OF s1(2)]]])
  then show ?thesis using s1(1) becomesD(2) [OF s1(2)] becomes_goes_on [OF s1(2)] by (simp add: on_idle_timeout_def)
qed

lemma on_end_ok:
  assumes "env_ok env" "callbacks_ok user" "http_inv D s" "st_mem s p = Some c"
  shows "returns (conn_on_close env user p s) (goes_on D s)" "returns (conn_on_error env user p err s) (goes_on D s)"
  using terminate_goes_on [OF assms(3,4,1,2)] assms(3,4) by (simp_all add: conn_on_close_def conn_on_error_def goes_on_refl)

lemma mark_open:
  assumes i: "http_inv D s" and st: "st_streams s p = Some False"
  shows "http_inv D (s\<lparr>st_streams := (st_streams s)(p \<mapsto> True)\<rparr>)" (is "http_inv D ?s")
proof (rule http_invI)
  have ag: "agree D D s ?s q" if "q \<noteq> p" for q using that by (simp add: agree_def)
  show "list_ok ?s" using http_invD(1) [OF i] by (simp add: list_ok_def)
  show "conn_ok D ?s q cq" if "st_mem ?s q = Some cq" for q cq
  proof (cases "q = p")
    case True
    then show ?thesis using that http_invD(3) [OF i, of p cq] st unfolding conn_ok_def by auto
  next
    case False
    then show ?thesis using that agree_ok [OF ag http_invD(3) [OF i]] by simp
  qed
  show "gone_ok D ?s q" if "st_mem ?s q = None" for q
    using that agree_gone [OF ag http_invD(4) [OF i], of q] http_invD(4) [OF i, of p] st by (cases "q = p") (auto simp: gone_ok_def)
  show "t < st_fresh ?s \<and> (\<exists>c. st_mem ?s q = Some c \<and> hc_idle_timer c = Some t)" if "st_timers ?s t = Some q" for t q
    using that http_invD(5) [OF i, of t q] by simp
qed (use http_invD(6-8) [OF i] in simp_all)

lemma on_open_ok:
  assumes e: "env_ok env" and u: "callbacks_ok user" and i: "http_inv D s" and st: "st_streams s p = Some False"
  shows "returns (conn_on_open env user p (s\<lparr>st_streams := (st_streams s)(p \<mapsto> True)\<rparr>)) (goes_on D s)"
proof -
  let ?s = "s\<lparr>st_streams := (st_streams s)(p \<mapsto> True)\<rparr>"
  have i1: "http_inv D ?s" by (rule mark_open [OF i st])
  obtain c where p: "st_mem s p = Some c" using http_invD(4) [OF i, of p] st by (cases "st_mem s p") (auto simp: gone_ok_def)
  have c: "hc_state c = HTTP_CONN_NEW \<or> hc_state c = HTTP_CONN_CLOSING" "\<not> hc_released c"
    using http_invD(3) [OF i p] st by (auto simp: conn_ok_def)
  obtain v where v: "st_srv s = Some v" using http_inv_srv [OF i] by blast
  have "returns (if sv_on_accept v then map_option snd (user (OnAccept p) ?s) else Some ?s) (keeps_http D ?s)"
    using returns_mono [OF callbackD [OF u i1, of "OnAccept p"], of "\<lambda>x. keeps_http D ?s (snd x)"] i1 by auto
  then obtain s1 where s1: "(if sv_on_accept v then map_option snd (user (OnAccept p) ?s) else Some ?s) = Some s1" "keeps_http D ?s s1"
    by (rule returnsE)
  obtain c1 where c1: "st_mem s1 p = Some c1" "moves (hc_state c) (hc_state c1)" "st_streams s1 p = None \<or> st_streams s1 p = Some True"
    using laterD [of ?s s1 p c] s1(2) p by (auto simp: keeps_http_def)
  have st1: "hc_state c1 = HTTP_CONN_NEW \<or> hc_state c1 = HTTP_CONN_CLOSING" using c(1) c1(2) by (auto simp: moves_def)
  have g1: "goes_on D s s1" using keeps_goes_on [OF s1(2)] by (simp add: goes_on_def)
  have i2: "http_inv D s1" using s1(2) by (simp add: keeps_http_def)
  have reset: "returns (conn_idle_reset env p s2) (goes_on D s)" if "http_inv D s2" "st_mem s2 p = Some c2" "\<not> conn_dead c2" "goes_on D s s2" for s2 c2
    by (rule returns_mono [OF idle_reset_ok [OF that(1-3)]]) (use goes_on_trans [OF that(4)] becomes_goes_on in blast)
  have eq: "conn_on_open env user p ?s = (if conn_dying c1 then conn_idle_reset env p s1
      else http_state_set p HTTP_CONN_PARSING s1 \<bind> (\<lambda>s. conn_idle_reset env p s))"
    unfolding conn_on_open_def using p v c(2) s1(1) c1(1) by simp
  show ?thesis
  proof (cases "conn_dying c1")
    case True
    have "\<not> conn_dead c1" using st1 by (auto simp: conn_dead_def)
    from reset [OF i2 c1(1) this g1] show ?thesis unfolding eq using True by simp
  next
    case False
    then have ok: "http_state_ok (hc_state c1) HTTP_CONN_PARSING" using st1 by (auto simp: conn_dying_def)
    have "returns (http_state_set p HTTP_CONN_PARSING s1) (\<lambda>s2. returns (conn_idle_reset env p s2) (goes_on D s))"
    proof (rule returns_mono [OF state_set_ok [OF i2 c1(1) ok]])
      fix s2 assume b: "becomes D s1 p (c1\<lparr>hc_state := HTTP_CONN_PARSING\<rparr>) s2"
      show "returns (conn_idle_reset env p s2) (goes_on D s)"
        by (rule reset [OF becomesD(1,2) [OF b] _ goes_on_trans [OF g1 becomes_goes_on [OF b]]]) (simp add: conn_dead_def)
    qed (use c1(3) in auto)
    then show ?thesis unfolding eq using False by simp
  qed
qed

text \<open>Freeing a connection: its task was the last to mention it.\<close>

lemma cleanup_ok:
  assumes i: "http_inv D s" and po: "st_posts s = ConnCleanup p # rest"
  shows "returns (conn_cleanup p (s\<lparr>st_posts := rest\<rparr>)) (http_inv D)"
proof -
  obtain c where p: "st_mem s p = Some c" using http_invD(4) [OF i, of p] po by (cases "st_mem s p") (auto simp: gone_ok_def)
  have cp: "conn_ok D s p c" by (rule http_invD(3) [OF i p])
  have d: "conn_dead c" "p \<notin> D" "st_streams s p = None" "hc_idle_timer c = None" "HttpFree p \<notin> set (st_log s)" "p < st_fresh s"
    using cp po by (auto simp: conn_ok_def)
  have np: "ConnCleanup p \<notin> set rest" "ProcessPost p \<notin> set rest" "post_order rest" using http_invD(6) [OF i] po by simp_all
  let ?s = "logged (HttpFree p) (s\<lparr>st_posts := rest, st_mem := (st_mem s)(p := None)\<rparr>)"
  have ag: "agree D D s ?s q" if "q \<noteq> p" for q using that po by (simp add: agree_def logged_def)
  have "http_inv D ?s"
  proof (rule http_invI)
    obtain v xs where v: "st_srv s = Some v" "conn_list (st_mem s) (sv_conns v) xs" "distinct xs"
      "\<forall>p. p \<in> set xs \<longleftrightarrow> (\<exists>c. st_mem s p = Some c \<and> \<not> conn_dead c)" using http_invD(1) [OF i] unfolding list_ok_def by blast
    have "p \<notin> set xs" using v(4) p d(1) by simp
    then show "list_ok ?s" unfolding list_ok_def using v list_ok_destroyed [OF http_invD(1) [OF i] v(1)] po
      by (intro exI [of _ v] exI [of _ xs]) (auto simp: logged_def conn_list_new)
    show "conn_ok D ?s q cq" if "st_mem ?s q = Some cq" for q cq
      using that agree_ok [OF ag http_invD(3) [OF i, of q cq]] by (cases "q = p") (simp_all add: logged_def)
    show "gone_ok D ?s q" if "st_mem ?s q = None" for q
    proof (cases "q = p")
      case True
      then show ?thesis using np d by (simp add: gone_ok_def logged_def)
    next
      case False
      then show ?thesis using that agree_gone [OF ag http_invD(4) [OF i, of q]] by (simp add: logged_def)
    qed
    show "t < st_fresh ?s \<and> (\<exists>c. st_mem ?s q = Some c \<and> hc_idle_timer c = Some t)" if "st_timers ?s t = Some q" for t q
      using that http_invD(5) [OF i, of t q] p d(4) by (auto simp: logged_def)
    show "HttpClosed q \<notin> set (st_log ?s) \<and> HttpFree q \<notin> set (st_log ?s)" if "st_fresh ?s \<le> q" for q
      using that http_invD(8) [OF i, of q] d(6) by (simp add: logged_def)
    show "post_order (st_posts ?s)" "log_ok (st_log ?s)" using np(3) http_invD(7) [OF i] d(5) by (simp_all add: logged_def log_ok_snoc)
  qed
  then show ?thesis using p by (simp add: conn_cleanup_def)
qed

lemma pop_process_ok:
  assumes i: "http_inv D s" and po: "st_posts s = ProcessPost p # rest"
  shows "http_inv D (s\<lparr>st_posts := rest\<rparr>)" "\<exists>c. st_mem s p = Some c"
proof -
  show "\<exists>c. st_mem s p = Some c" using http_invD(4) [OF i, of p] po by (cases "st_mem s p") (auto simp: gone_ok_def)
  show "http_inv D (s\<lparr>st_posts := rest\<rparr>)" (is "http_inv D ?s")
  proof (rule http_invI)
    show "list_ok ?s" by (rule list_ok_posts [OF http_invD(1) [OF i]]) (simp_all add: po)
    show "conn_ok D ?s q cq" if "st_mem ?s q = Some cq" for q cq
      using that http_invD(3) [OF i, of q cq] po unfolding conn_ok_def by simp
    show "gone_ok D ?s q" if "st_mem ?s q = None" for q
      using that http_invD(4) [OF i, of q] po by (simp add: gone_ok_def)
    show "t < st_fresh ?s \<and> (\<exists>c. st_mem ?s q = Some c \<and> hc_idle_timer c = Some t)" if "st_timers ?s t = Some q" for t q
      using that http_invD(5) [OF i, of t q] by simp
  qed (use http_invD(6-8) [OF i] po in simp_all)
qed

section \<open>New connections\<close>

lemma fresh_ok:
  assumes i: "http_inv D s" and l: "l = st_log s \<or> l = st_log s @ [HttpFree (st_fresh s)]"
  shows "http_inv D (s\<lparr>st_w := w, st_fresh := Suc (st_fresh s), st_log := l\<rparr>)" (is "http_inv D ?s")
proof -
  have un: "st_mem s (st_fresh s) = None" using http_invD(3) [OF i, of "st_fresh s"] by (cases "st_mem s (st_fresh s)") (auto simp: conn_ok_def)
  have la: "q \<noteq> st_fresh s \<Longrightarrow> HttpFree q \<in> set l \<longleftrightarrow> HttpFree q \<in> set (st_log s)" "HttpClosed q \<in> set l \<longleftrightarrow> HttpClosed q \<in> set (st_log s)" for q
    using l by auto
  have ag: "agree D D s ?s q" if "q \<noteq> st_fresh s" for q using that la by (simp add: agree_def)
  show ?thesis
  proof (rule http_invI)
    show "list_ok ?s" using http_invD(1) [OF i] by (simp add: list_ok_def)
    show "conn_ok D ?s q cq" if "st_mem ?s q = Some cq" for q cq
      using that un agree_ok [OF ag http_invD(3) [OF i, of q cq]] by (cases "q = st_fresh s") simp_all
    show "gone_ok D ?s q" if "st_mem ?s q = None" for q
      using that http_invD(4) [OF i, of q] by (simp add: gone_ok_def)
    show "t < st_fresh ?s \<and> (\<exists>c. st_mem ?s q = Some c \<and> hc_idle_timer c = Some t)" if "st_timers ?s t = Some q" for t q
      using that http_invD(5) [OF i, of t q] by auto
    show "HttpClosed q \<notin> set (st_log ?s) \<and> HttpFree q \<notin> set (st_log ?s)" if "st_fresh ?s \<le> q" for q
      using that http_invD(8) [OF i, of q] la by simp
    show "log_ok (st_log ?s)" using http_invD(7) [OF i] http_invD(8) [OF i, of "st_fresh s"] l by (auto simp: log_ok_snoc)
  qed (use http_invD(6) [OF i] in simp_all)
qed

lemma link_ok:
  assumes i: "http_inv D s" and v: "st_srv s = Some v" and f: "p = st_fresh s"
    and c: "hc_state c = HTTP_CONN_NEW" "hc_idle_timer c = None" "hc_recv c = []" "hc_stream c" "\<not> hc_released c" "hc_next c = sv_conns v"
  shows "http_inv D (put p c (s\<lparr>st_w := w, st_fresh := Suc p, st_streams := (st_streams s)(p \<mapsto> False), st_srv := Some (v\<lparr>sv_conns := Some p\<rparr>)\<rparr>))"
    (is "http_inv D ?s")
proof -
  have un: "st_mem s p = None" using http_invD(3) [OF i, of p] f by (cases "st_mem s p") (auto simp: conn_ok_def)
  have g: "gone_ok D s p" by (rule http_invD(4) [OF i un])
  have ag: "agree D D s ?s q" if "q \<noteq> p" for q using that f by (simp add: agree_def put_def)
  show ?thesis
  proof (rule http_invI)
    obtain xs where xs: "conn_list (st_mem s) (sv_conns v) xs" "distinct xs"
      "\<forall>p. p \<in> set xs \<longleftrightarrow> (\<exists>c. st_mem s p = Some c \<and> \<not> conn_dead c)" using http_invD(1) [OF i] v unfolding list_ok_def by auto
    have np: "p \<notin> set xs" using xs(3) un by simp
    show "list_ok ?s" unfolding list_ok_def
      by (intro exI [of _ "v\<lparr>sv_conns := Some p\<rparr>"] exI [of _ "p # xs"])
        (use xs np c list_ok_destroyed [OF http_invD(1) [OF i] v] in \<open>auto simp: put_def conn_list_new conn_dead_def\<close>)
    show "conn_ok D ?s q cq" if "st_mem ?s q = Some cq" for q cq
    proof (cases "q = p")
      case True
      have "HttpClosed p \<notin> set (st_log s)" "HttpFree p \<notin> set (st_log s)" using http_invD(8) [OF i, of p] f by simp_all
      then show ?thesis using that True c g by (auto simp: put_def conn_ok_def gone_ok_def conn_dead_def)
    next
      case False
      then show ?thesis using that agree_ok [OF ag http_invD(3) [OF i]] by (simp add: put_def)
    qed
    show "gone_ok D ?s q" if "st_mem ?s q = None" for q
      using that agree_gone [OF ag http_invD(4) [OF i], of q] by (simp add: put_def split: if_splits)
    show "t < st_fresh ?s \<and> (\<exists>c. st_mem ?s q = Some c \<and> hc_idle_timer c = Some t)" if "st_timers ?s t = Some q" for t q
      using that http_invD(5) [OF i, of t q] un f by (auto simp: put_def)
    show "HttpClosed q \<notin> set (st_log ?s) \<and> HttpFree q \<notin> set (st_log ?s)" if "st_fresh ?s \<le> q" for q
      using that http_invD(8) [OF i, of q] f by (simp add: put_def)
  qed (use http_invD(6,7) [OF i] in \<open>simp_all add: put_def\<close>)
qed

lemma abort_eq:
  assumes "st_mem s p = None" "st_streams s p = None"
  shows "\<exists>w. srv_conn_abort env p (put p c s) = Some (s\<lparr>st_w := w, st_log := st_log s @ [HttpFree p]\<rparr>)"
proof -
  have "(st_mem s)(p := None) = st_mem s" "(st_streams s)(p := None) = st_streams s" using assms by auto
  then show ?thesis
    by (cases "hc_stream c"; cases s)
      (auto simp: srv_conn_abort_def conn_stream_kill_def conn_cleanup_def put_def logged_def in_world_def intro: exI)
qed

lemma srv_on_accept_ok:
  assumes e: "env_ok env" and u: "callbacks_ok user" and i: "http_inv D s"
  shows "returns (srv_on_accept env user fd s) (goes_on D s)"
proof -
  define p where "p = st_fresh s"
  obtain v where v: "st_srv s = Some v" using http_inv_srv [OF i] by blast
  have un: "st_mem s p = None" using http_invD(3) [OF i, of p] by (cases "st_mem s p") (auto simp: conn_ok_def p_def)
  have ns: "st_streams s p = None" using http_invD(4) [OF i un] by (simp add: gone_ok_def)
  have fr: "goes_on D s (s\<lparr>st_fresh := Suc p, st_w := w, st_log := l\<rparr>)" if "l = st_log s \<or> l = st_log s @ [HttpFree p]" for w l
    using fresh_ok [OF i, of l w] that by (cases s) (simp add: goes_on_def p_def)
  have fr0: "goes_on D s (s\<lparr>st_fresh := Suc p, st_w := w\<rparr>)" for w using fr [of "st_log s" w] by (cases s) simp
  have ab: "returns (srv_conn_abort env p (put p c (s\<lparr>st_fresh := Suc p, st_w := w\<rparr>))) (\<lambda>s'. goes_on D s s')" for c w
  proof -
    obtain w' where "srv_conn_abort env p (put p c (s\<lparr>st_fresh := Suc p, st_w := w\<rparr>))
        = Some (s\<lparr>st_fresh := Suc p, st_w := w', st_log := st_log s @ [HttpFree p]\<rparr>)"
      using abort_eq [of "s\<lparr>st_fresh := Suc p, st_w := w\<rparr>" p env c] un ns by (cases s) auto
    then show ?thesis using fr by simp
  qed
  obtain a1 w1 where 1: "he_malloc env 1 (st_w s) = (a1, w1)" by (rule prod.exhaust)
  define cap where "cap = srv_recv_cap (sv_cfg v)"
  obtain a2 w2 where 2: "he_malloc env cap w1 = (a2, w2)" by (rule prod.exhaust)
  obtain a3 w3 where 3: "he_stream_create env (srv_stream_config (sv_cfg v)) w2 = (a3, w3)" by (rule prod.exhaust)
  let ?c = "http_conn0\<lparr>hc_cap := cap, hc_has_buf := True, hc_stream := True\<rparr>"
  obtain rc w4 where 4: "he_stream_accept env p fd (conn_stream_init ?c) w3 = (rc, w4)" by (rule prod.exhaust)
  consider "\<not> a1" | "a1" "\<not> a2" | "a1" "a2" "\<not> a3" | "a1" "a2" "a3" "rc < 0" | "a1" "a2" "a3" "\<not> rc < 0" by blast
  then show ?thesis
  proof cases
    case 1
    then show ?thesis using \<open>he_malloc env 1 (st_w s) = (a1, w1)\<close> fr0 by (simp add: srv_on_accept_def p_def Let_def in_world_def)
  next
    case c2: 2
    have "srv_on_accept env user fd s = srv_conn_abort env p
        (put p (http_conn0\<lparr>hc_cap := cap, hc_has_buf := False\<rparr>) (s\<lparr>st_fresh := Suc p, st_w := he_close_fd env fd w2\<rparr>))"
      unfolding srv_on_accept_def using c2 1 2 v by (cases s) (simp add: p_def cap_def Let_def put_def in_world_def)
    then show ?thesis using ab by simp
  next
    case c3: 3
    have "srv_on_accept env user fd s = srv_conn_abort env p
        (put p (http_conn0\<lparr>hc_cap := cap, hc_has_buf := True, hc_stream := False\<rparr>) (s\<lparr>st_fresh := Suc p, st_w := he_close_fd env fd w3\<rparr>))"
      unfolding srv_on_accept_def using c3 1 2 3 v by (cases s) (simp add: p_def cap_def Let_def put_def in_world_def)
    then show ?thesis using ab by simp
  next
    case c4: 4
    have "srv_on_accept env user fd s = srv_conn_abort env p (put p ?c (s\<lparr>st_fresh := Suc p, st_w := w4\<rparr>)) \<bind> (\<lambda>s.
        let s = in_world (he_close_fd env fd) s in st_srv s \<bind> (\<lambda>v. if sv_on_error v then map_option snd (user (OnError rc) s) else Some s))"
      unfolding srv_on_accept_def using c4 1 2 3 4 v by (cases s) (simp add: p_def cap_def Let_def put_def in_world_def)
    moreover have "returns (srv_conn_abort env p (put p ?c (s\<lparr>st_fresh := Suc p, st_w := w4\<rparr>)) \<bind> (\<lambda>s.
        let s = in_world (he_close_fd env fd) s in st_srv s \<bind> (\<lambda>v. if sv_on_error v then map_option snd (user (OnError rc) s) else Some s))) (goes_on D s)"
      unfolding returns_bind
    proof (rule returns_mono [OF ab])
      fix s1 assume g: "goes_on D s s1"
      let ?s1 = "in_world (he_close_fd env fd) s1"
      have i1: "http_inv D ?s1" and g1: "goes_on D s ?s1" using g by (simp_all add: goes_on_def) (simp add: in_world_def)
      obtain v1 where v1: "st_srv ?s1 = Some v1" using http_inv_srv [OF i1] by blast
      have "returns (user (OnError rc) ?s1) (\<lambda>x. goes_on D s (snd x))"
        by (rule returns_mono [OF callbackD [OF u i1]]) (rule goes_on_trans [OF g1 keeps_goes_on], simp add: keeps_http_def)
      then show "returns (let s = ?s1 in st_srv s \<bind> (\<lambda>v. if sv_on_error v then map_option snd (user (OnError rc) s) else Some s)) (goes_on D s)"
        using v1 g1 by (simp add: Let_def)
    qed
    ultimately show ?thesis by simp
  next
    case c5: 5
    have "srv_on_accept env user fd s = Some (put p (?c\<lparr>hc_next := sv_conns v\<rparr>)
        (s\<lparr>st_fresh := Suc p, st_w := w4, st_streams := (st_streams s)(p \<mapsto> False), st_srv := Some (v\<lparr>sv_conns := Some p\<rparr>)\<rparr>))"
      unfolding srv_on_accept_def using c5 1 2 3 4 v by (cases s) (simp add: p_def cap_def Let_def put_def in_world_def)
    moreover have "http_inv D (put p (?c\<lparr>hc_next := sv_conns v\<rparr>)
        (s\<lparr>st_fresh := Suc p, st_w := w4, st_streams := (st_streams s)(p \<mapsto> False), st_srv := Some (v\<lparr>sv_conns := Some p\<rparr>)\<rparr>))"
      using link_ok [OF i v p_def, of "?c\<lparr>hc_next := sv_conns v\<rparr>" w4] by (cases s) (simp add: http_conn0_def put_def)
    ultimately show ?thesis by (simp add: goes_on_def put_def)
  qed
qed

section \<open>Reachable states\<close>

text \<open>What the event loop can do next: the callbacks of live streams, timers and posted tasks.\<close>

datatype http_input = InAccept int | InOpen nat | InData nat bytes | InClose nat | InError nat int | InTimer nat | InPost

fun http_enabled :: "http_input \<Rightarrow> 'w http_st \<Rightarrow> bool" where
  "http_enabled (InAccept fd) s \<longleftrightarrow> True"
| "http_enabled (InOpen p) s \<longleftrightarrow> st_streams s p = Some False"
| "http_enabled (InData p data) s \<longleftrightarrow> st_streams s p = Some True"
| "http_enabled (InClose p) s \<longleftrightarrow> st_streams s p \<noteq> None"
| "http_enabled (InError p err) s \<longleftrightarrow> st_streams s p \<noteq> None"
| "http_enabled (InTimer t) s \<longleftrightarrow> st_timers s t \<noteq> None"
| "http_enabled InPost s \<longleftrightarrow> st_posts s \<noteq> [] \<and> hd (st_posts s) \<noteq> SrvCleanup"

fun http_step :: "'w http_env \<Rightarrow> 'w http_user \<Rightarrow> http_input \<Rightarrow> 'w http_st \<Rightarrow> 'w http_st option" where
  "http_step env user (InAccept fd) s = srv_on_accept env user fd s"
| "http_step env user (InOpen p) s = conn_on_open env user p (s\<lparr>st_streams := (st_streams s)(p \<mapsto> True)\<rparr>)"
| "http_step env user (InData p data) s = conn_on_data env user p data s"
| "http_step env user (InClose p) s = conn_on_close env user p s"
| "http_step env user (InError p err) s = conn_on_error env user p err s"
| "http_step env user (InTimer t) s = on_idle_timeout env user (the (st_timers s t)) s"
| "http_step env user InPost s = http_run_post env user (hd (st_posts s)) (s\<lparr>st_posts := tl (st_posts s)\<rparr>)"

text \<open>A server as created, and everything that user code and the loop make of it until it is cleaned up.\<close>

inductive http_reach :: "'w http_env \<Rightarrow> 'w http_user \<Rightarrow> 'w http_st \<Rightarrow> bool" for env user where
  reach_created: "sevent_http_server_create env cfg w = (Some v, w') \<Longrightarrow>
    http_reach env user \<lparr>st_mem = Map.empty, st_srv = Some v, st_posts = [], st_timers = Map.empty, st_streams = Map.empty,
      st_fresh = 0, st_log = [], st_w = w'\<rparr>"
| reach_user: "http_reach env user s \<Longrightarrow> http_api env user s s' \<Longrightarrow> http_reach env user s'"
| reach_loop: "http_reach env user s \<Longrightarrow> http_enabled inp s \<Longrightarrow> http_step env user inp s = Some s' \<Longrightarrow> http_reach env user s'"

lemma enabled_conn:
  assumes "http_inv D s"
  shows "st_streams s p \<noteq> None \<Longrightarrow> \<exists>c. st_mem s p = Some c" "st_timers s t = Some p \<Longrightarrow> \<exists>c. st_mem s p = Some c"
proof -
  show "\<exists>c. st_mem s p = Some c" if "st_streams s p \<noteq> None"
    using http_invD(4) [OF assms, of p] that by (cases "st_mem s p") (simp_all add: gone_ok_def)
  show "\<exists>c. st_mem s p = Some c" if "st_timers s t = Some p" using http_invD(5) [OF assms that] by blast
qed

lemma http_step_ok:
  assumes e: "env_ok env" and u: "callbacks_ok user" and i: "http_inv D s" and en: "http_enabled inp s"
  shows "returns (http_step env user inp s) (http_inv D)"
proof (cases inp)
  case (InAccept fd)
  then show ?thesis using returns_mono [OF srv_on_accept_ok [OF e u i, of fd]] by (auto simp: goes_on_def)
next
  case (InOpen p)
  then show ?thesis using returns_mono [OF on_open_ok [OF e u i, of p]] en by (auto simp: goes_on_def)
next
  case (InData p data)
  then obtain c where "st_mem s p = Some c" using enabled_conn(1) [OF i, of p] en by auto
  then show ?thesis using InData returns_mono [OF conn_on_data_ok [OF e u i, of p c data]] by (auto simp: goes_on_def)
next
  case (InClose p)
  then obtain c where "st_mem s p = Some c" using enabled_conn(1) [OF i, of p] en by auto
  then show ?thesis using InClose returns_mono [OF on_end_ok(1) [OF e u i, of p c]] by (auto simp: goes_on_def)
next
  case (InError p err)
  then obtain c where "st_mem s p = Some c" using enabled_conn(1) [OF i, of p] en by auto
  then show ?thesis using InError returns_mono [OF on_end_ok(2) [OF e u i, of p c err]] by (auto simp: goes_on_def)
next
  case (InTimer t)
  then obtain p where "st_timers s t = Some p" using en by auto
  moreover from enabled_conn(2) [OF i this] obtain c where "st_mem s p = Some c" by blast
  ultimately show ?thesis using InTimer returns_mono [OF idle_timeout_ok [OF e u i, of p c]] by (auto simp: goes_on_def)
next
  case InPost
  then obtain it rest where po: "st_posts s = it # rest" "it \<noteq> SrvCleanup" using en by (cases "st_posts s") auto
  show ?thesis
  proof (cases it)
    case (ProcessPost p)
    then have q: "http_inv D (s\<lparr>st_posts := rest\<rparr>)" "\<exists>c. st_mem s p = Some c" using pop_process_ok [OF i] po(1) by auto
    then obtain c where "st_mem (s\<lparr>st_posts := rest\<rparr>) p = Some c" by auto
    then show ?thesis
      using InPost ProcessPost po returns_mono [OF process_post_ok [OF e u q(1), of p c]] by (auto simp: goes_on_def http_run_post_def)
  next
    case (ConnCleanup p)
    then show ?thesis using InPost po cleanup_ok [OF i] by (simp add: http_run_post_def)
  qed (use po in simp)
qed

lemma http_reach_inv:
  assumes "http_reach env user s" "env_ok env" "callbacks_ok user"
  shows "http_inv {} s"
  using assms
proof (induction rule: http_reach.induct)
  case (reach_created cfg w v w')
  then have "sv_conns v = None" by (auto simp: sevent_http_server_create_def Let_def split: prod.splits if_splits)
  then show ?case by (intro http_invI) (auto simp: list_ok_def gone_ok_def log_ok_def intro: exI [of _ "[]"])
next
  case (reach_user s s')
  then show ?case using http_api_keeps [of env user s s' "{}"] by (simp add: keeps_http_def)
next
  case (reach_loop s inp s')
  then show ?case using http_step_ok [of env user "{}" s inp] by simp
qed

section \<open>Properties\<close>


end
