(* ===== verification/Http_Shutdown.thy ===== *)
theory Http_Shutdown
  imports Http_Safety
begin

text \<open>
  The end of an HTTP server: the task that \<open>sevent_http_server_destroy\<close> posts releases every
  connection when the user's \<open>on_conn_close\<close> makes no calls, and a run in which it frees a
  connection twice when the callback writes to another connection.
\<close>

section \<open>Concrete runs\<close>

fun http_run :: "'w http_env \<Rightarrow> 'w http_user \<Rightarrow> http_input list \<Rightarrow> 'w http_st \<Rightarrow> 'w http_st option" where
  "http_run env user [] s = Some s"
| "http_run env user (inp # inps) s =
     (if http_enabled inp s then http_step env user inp s \<bind> http_run env user inps else None)"

lemma http_run_reach: "http_reach env user s \<Longrightarrow> http_run env user inps s = Some s' \<Longrightarrow> http_reach env user s'"
proof (induction inps arbitrary: s)
  case (Cons inp inps)
  then obtain s1 where "http_enabled inp s" "http_step env user inp s = Some s1" "http_run env user inps s1 = Some s'"
    by (auto split: if_splits bind_splits)
  then show ?case using Cons.IH [OF reach_loop [OF Cons.prems(1)]] by blast
qed simp

text \<open>A world where everything can be allocated and every write finds the peer gone.\<close>

definition demo_henv :: "unit http_env" where
  "demo_henv = \<lparr>he_malloc = (\<lambda>_ w. (True, w)), he_post = (\<lambda>w. (True, w)), he_timer_register = (\<lambda>_ w. (True, w)),
     he_stream_create = (\<lambda>_ w. (True, w)), he_stream_accept = (\<lambda>_ _ _ w. (0, w)),
     he_write = (\<lambda>_ _ w. (SEVENT_ERR_WRITE, Some (StError SEVENT_ERR_WRITE), w)), he_shutdown_wr = (\<lambda>_ w. w),
     he_stream_close = (\<lambda>_ w. w), he_stream_destroy = (\<lambda>_ w. w), he_close_fd = (\<lambda>_ w. w),
     he_acc_create = (\<lambda>w. (True, w)), he_acc_listen = (\<lambda>_ _ _ w. (0, w)), he_acc_port = (\<lambda>_. 8080), he_acc_destroy = (\<lambda>w. w)\<rparr>"

definition demo_hcfg :: sevent_http_server_config where
  "demo_hcfg = \<lparr>sg_enable_tls = False, sg_cert_path = None, sg_cert_pem = None, sg_key_path = None, sg_key_pem = None,
     sg_verify_peer = False, sg_ca_path = None, sg_ca_pem = None, sg_recv_buf_size = 64, sg_idle_timeout_ms = -1\<rparr>"

definition demo_start :: "unit http_st" where
  "demo_start = \<lparr>st_mem = Map.empty, st_srv = fst (sevent_http_server_create demo_henv demo_hcfg ()), st_posts = [],
     st_timers = Map.empty, st_streams = Map.empty, st_fresh = 0, st_log = [], st_w = ()\<rparr>"

text \<open>When connection 1 is closed, the user tells connection 0.\<close>

definition idle_user :: "'w http_user" where
  "idle_user ev s = Some (False, s)"

definition telling_user :: "unit http_user" where
  "telling_user ev s =
     (if ev = OnConnClose 1 \<and> st_mem s 0 \<noteq> None
      then map_option (\<lambda>s. (False, s)) (run_call demo_henv idle_user (CallWrite 0 (Some [33]) 1) s) else Some (False, s))"

lemma demo_env_ok: "env_ok demo_henv" by (simp add: env_ok_def demo_henv_def err_defs)

lemma idle_callbacks: "http_callbacks env idle_user"
  using cb_none [of env False] by (simp add: idle_user_def [abs_def])

lemma telling_callbacks: "http_callbacks demo_henv telling_user"
proof (rule cb_nest [OF idle_callbacks])
  fix ev and s :: "unit http_st"
  have v: "call_valid (CallWrite 0 (Some [33]) 1) s" if "st_mem s 0 \<noteq> None" using that by (simp add: call_valid_def)
  show "case telling_user ev s of None \<Rightarrow> \<exists>s1. (http_api demo_henv idle_user)\<^sup>*\<^sup>* s s1 \<and> http_stuck demo_henv idle_user s1
    | Some (b, s') \<Rightarrow> (http_api demo_henv idle_user)\<^sup>*\<^sup>* s s'"
    using api_call [OF v, of demo_henv idle_user] stuck_call [OF v, of demo_henv idle_user]
    by (auto simp: telling_user_def simp del: run_call.simps split: option.splits if_splits)
qed

definition demo_get :: bytes where "demo_get = bytes_of (''GET / HTTP/1.1'' @ CRLF @ CRLF)"

definition two_conns :: "unit http_st option" where
  "two_conns = run_call demo_henv telling_user (CallListen None 80 8 False True False True False) demo_start \<bind>
     http_run demo_henv telling_user [InAccept 5, InAccept 6, InOpen 0, InOpen 1, InData 0 demo_get] \<bind>
     run_call demo_henv telling_user CallDestroy"

lemmas [code] = srv_cleanup_loop.simps unlink_walk.simps

lemma demo_start_reach: "http_reach demo_henv user demo_start"
proof -
  have "fst (sevent_http_server_create demo_henv demo_hcfg ()) \<noteq> None" by code_simp
  then obtain v where v: "sevent_http_server_create demo_henv demo_hcfg () = (Some v, ())" by (metis old.unit.exhaust option.exhaust prod.collapse)
  show ?thesis using reach_created [OF v, of user] v by (simp add: demo_start_def)
qed

lemma served_reach:
  assumes r: "run_call demo_henv user (CallListen None 80 8 False True False True False) demo_start = Some s1"
    "http_run demo_henv user inps s1 = Some s2" "run_call demo_henv user CallDestroy s2 = Some s"
  shows "http_reach demo_henv user s"
proof -
  have "http_reach demo_henv user s1"
    by (rule reach_user [OF demo_start_reach api_call [OF _ r(1)]]) (simp add: call_valid_def demo_start_def)
  then have r2: "http_reach demo_henv user s2" by (rule http_run_reach [OF _ r(2)])
  show ?thesis by (rule reach_user [OF r2 api_call [OF _ r(3)]]) (simp add: call_valid_def)
qed

lemma two_conns_posts: "map_option st_posts two_conns = Some [SrvCleanup]" by code_simp

lemma two_conns_reach:
  obtains s where "two_conns = Some s" "http_reach demo_henv telling_user s" "st_posts s = [SrvCleanup]"
proof -
  obtain s where s: "two_conns = Some s" "st_posts s = [SrvCleanup]" using two_conns_posts by auto
  obtain s1 s2 where r: "run_call demo_henv telling_user (CallListen None 80 8 False True False True False) demo_start = Some s1"
    "http_run demo_henv telling_user [InAccept 5, InAccept 6, InOpen 0, InOpen 1, InData 0 demo_get] s1 = Some s2"
    "run_call demo_henv telling_user CallDestroy s2 = Some s"
    using s(1) unfolding two_conns_def by (auto split: bind_splits simp del: run_call.simps http_run.simps)
  show ?thesis using that [OF s(1) served_reach [OF r] s(2)] .
qed

definition cleaned_up :: "unit http_st option" where
  "cleaned_up = two_conns \<bind> (\<lambda>s. http_run_post demo_henv telling_user SrvCleanup (s\<lparr>st_posts := []\<rparr>))"

lemma cleaned_up_counts:
  "map_option (\<lambda>s. (st_posts s, count_list (st_log s) (HttpClosed 0))) cleaned_up
     = Some ([ConnCleanup 0, ConnCleanup 1, ConnCleanup 0], 2)"
  by code_simp

lemma cleaned_up_stuck:
  "map_option (\<lambda>s. (st_posts s, HttpFree 0 \<in> set (st_log s), http_step demo_henv telling_user InPost s = None))
     (cleaned_up \<bind> http_run demo_henv telling_user [InPost, InPost]) = Some ([ConnCleanup 0], True, True)"
  by code_simp

section \<open>The end of a server\<close>

definition quiet_close :: "'w http_user \<Rightarrow> bool" where
  "quiet_close user \<longleftrightarrow> (\<forall>p s. \<exists>b w. user (OnConnClose p) s = Some (b, s\<lparr>st_w := w\<rparr>))"

definition at_conns :: "nat option \<Rightarrow> 'w http_st \<Rightarrow> 'w http_st" where
  "at_conns h s = s\<lparr>st_srv := map_option (\<lambda>v. v\<lparr>sv_conns := h\<rparr>) (st_srv s)\<rparr>"

text \<open>One round of the loop of \<open>srv_cleanup\<close>: what it makes of the state.\<close>

definition closed_by_cleanup :: "nat \<Rightarrow> sevent_http_conn \<Rightarrow> http_act list \<Rightarrow> 'w \<Rightarrow> 'w http_st \<Rightarrow> 'w http_st" where
  "closed_by_cleanup p c l w s = s\<lparr>
     st_mem := (st_mem s)(p \<mapsto> c\<lparr>hc_state := HTTP_CONN_CLOSED, hc_idle_timer := None, hc_stream := False\<rparr>),
     st_timers := (\<lambda>t. if hc_idle_timer c = Some t then None else st_timers s t),
     st_streams := (st_streams s)(p := None),
     st_log := st_log s @ [HttpState p (hc_state c) HTTP_CONN_CLOSED] @ l, st_w := w\<rparr>"

lemma cleanup_round_eq:
  assumes e: "env_ok env" and q: "quiet_close user" and v: "st_srv s = Some v" and p: "st_mem s p = Some c" "\<not> hc_released c"
    "\<not> hc_stream c \<longrightarrow> st_streams s p = None"
  shows "\<exists>w w'. srv_cleanup_loop env user (Some p) s = srv_cleanup_loop env user (hc_next c)
      ((closed_by_cleanup p c (if sv_on_conn_close v then [HttpClosed p] else []) w s)\<lparr>st_w := w', st_posts := st_posts s @ [ConnCleanup p]\<rparr>)
    \<and> he_post env w = (True, w')"
proof -
  let ?c1 = "c\<lparr>hc_state := HTTP_CONN_CLOSED\<rparr>" let ?c2 = "?c1\<lparr>hc_idle_timer := None\<rparr>"
  let ?tm = "\<lambda>t. if hc_idle_timer c = Some t then None else st_timers s t"
  let ?s1 = "put p ?c1 (logged (HttpState p (hc_state c) HTTP_CONN_CLOSED) s)"
  let ?s2 = "put p ?c2 (?s1\<lparr>st_timers := ?tm\<rparr>)"
  have 1: "http_state_set p HTTP_CONN_CLOSED s = Some ?s1" using p by (simp add: http_state_set_def)
  have 2: "conn_idle_stop p ?s1 = Some ?s2"
    using v by (subst idle_stop_raw [of _ v _ ?c1]) (simp_all add: put_def logged_def cong: if_cong)
  define l where "l = (if sv_on_conn_close v then [HttpClosed p] else [])"
  obtain w where 3: "notify_close user p ?s2 = Some (?s2\<lparr>st_w := w, st_log := st_log ?s2 @ l\<rparr>)"
  proof -
    obtain b w where "user (OnConnClose p) (logged (HttpClosed p) ?s2) = Some (b, (logged (HttpClosed p) ?s2)\<lparr>st_w := w\<rparr>)"
      using q unfolding quiet_close_def by blast
    then show ?thesis
      using that [of w] that [of "st_w ?s2"] v p by (cases "sv_on_conn_close v"; cases s) (simp_all add: notify_close_def l_def put_def logged_def)
  qed
  let ?s3 = "?s2\<lparr>st_w := w, st_log := st_log ?s2 @ l\<rparr>"
  have a4: "st_mem ?s3 p = Some ?c2" "st_streams ?s3 = st_streams s" by (simp_all add: put_def logged_def)
  have b4: "\<not> hc_stream ?c2 \<longrightarrow> st_streams ?s3 p = None" unfolding a4 using p by simp
  obtain w4 where 4: "conn_stream_kill env p ?s3
      = Some (?s3\<lparr>st_mem := (st_mem ?s3)(p \<mapsto> ?c2\<lparr>hc_stream := False\<rparr>), st_streams := (st_streams s)(p := None), st_w := w4\<rparr>)" (is "_ = Some ?s4")
    using stream_kill_raw [OF a4(1) b4, of env] unfolding a4(2) by blast
  have s4: "?s4 = closed_by_cleanup p c l w4 s" by (cases s) (simp add: closed_by_cleanup_def put_def logged_def cong: if_cong)
  obtain w5 where w5: "he_post env w4 = (True, w5)" using e by (metis (full_types) env_ok_def prod.collapse)
  have "post_cleanup env p ?s4 = Some ((closed_by_cleanup p c l w4 s)\<lparr>st_w := w5, st_posts := st_posts s @ [ConnCleanup p]\<rparr>)"
    unfolding s4 using w5 by (simp add: post_cleanup_def http_sevent_post_def closed_by_cleanup_def)
  then have "srv_cleanup_loop env user (Some p) s = srv_cleanup_loop env user (hc_next c)
      ((closed_by_cleanup p c l w4 s)\<lparr>st_w := w5, st_posts := st_posts s @ [ConnCleanup p]\<rparr>)"
    by (subst srv_cleanup_loop.simps) (simp add: p 1 2 3 4)
  then show ?thesis using w5 unfolding l_def by blast
qed

text \<open>For the invariant it takes the head off the list.\<close>

lemma cleanup_round_inv:
  assumes i: "http_inv {} (at_conns (Some p) s)" and v: "st_srv s = Some v" and l: "l = [] \<or> l = [HttpClosed p]"
  shows "\<exists>c. st_mem s p = Some c \<and> \<not> conn_dead c \<and> \<not> hc_released c \<and> (\<not> hc_stream c \<longrightarrow> st_streams s p = None)
    \<and> http_inv {p} (at_conns (hc_next c) (closed_by_cleanup p c l w s))"
proof -
  let ?a = "at_conns (Some p) s"
  have va: "st_srv ?a = Some (v\<lparr>sv_conns := Some p\<rparr>)" "st_mem ?a = st_mem s" using v by (simp_all add: at_conns_def)
  obtain xs where xs: "conn_list (st_mem s) (Some p) xs" "distinct xs" "\<forall>p. p \<in> set xs \<longleftrightarrow> (\<exists>c. st_mem s p = Some c \<and> \<not> conn_dead c)"
    using http_invD(1) [OF i] va unfolding list_ok_def by auto
  obtain ys c where ys: "xs = p # ys" "st_mem s p = Some c" "conn_list (st_mem s) (hc_next c) ys" using xs(1) by (cases xs) auto
  have d: "\<not> conn_dead c" using xs(3) [rule_format, of p] ys(1,2) by simp
  have cp: "conn_ok {} ?a p c" using http_invD(3) [OF i] ys(2) va by simp
  have rel: "\<not> hc_released c" "\<not> hc_stream c \<longrightarrow> st_streams s p = None"
    using cp d by (auto simp: conn_ok_def conn_dead_def at_conns_def)
  let ?c3 = "c\<lparr>hc_state := HTTP_CONN_CLOSED, hc_idle_timer := None, hc_stream := False\<rparr>"
  let ?g = "at_conns (hc_next c) (closed_by_cleanup p c [] w s)"
  have mg: "st_mem ?g = (st_mem ?a)(p \<mapsto> ?c3)" "st_srv ?g = Some (v\<lparr>sv_conns := hc_next c\<rparr>)"
    using v va by (simp_all add: at_conns_def closed_by_cleanup_def)
  have sg: "same_but_next ((st_mem ?a)(p \<mapsto> ?c3)) (st_mem ?g)" unfolding mg by simp
  have lg: "conn_list (st_mem ?g) (sv_conns (v\<lparr>sv_conns := hc_next c\<rparr>)) (remove1 p xs)"
    unfolding mg using ys xs(2) va(2) by (simp add: conn_list_new)
  have ok: "http_state_ok (hc_state c) HTTP_CONN_CLOSED" using d by (cases "hc_state c") (auto simp: conn_dead_def)
  have ig: "http_inv {p} ?g"
  proof (rule takedown [OF i _ d _ _ _ _ _ sg va(1) mg(2)])
    show "st_mem ?a p = Some c" "conn_list (st_mem ?a) (sv_conns (v\<lparr>sv_conns := Some p\<rparr>)) xs" "distinct xs"
      "\<forall>p. p \<in> set xs \<longleftrightarrow> (\<exists>c. st_mem ?a p = Some c \<and> \<not> conn_dead c)" using va ys xs by simp_all
  qed (use cp ok rel lg in \<open>simp_all add: conn_dead_def conn_ok_def closed_by_cleanup_def at_conns_def cong: if_cong\<close>)
  have pg: "st_mem ?g p = Some ?c3" unfolding mg by simp
  have lp: "HttpClosed p \<notin> set (st_log ?g)" using cp d by (auto simp: conn_ok_def conn_dead_def at_conns_def closed_by_cleanup_def)
  have "http_inv {p} (logged (HttpClosed p) ?g)" by (rule closed_logged [OF ig pg _ lp]) simp
  moreover have "at_conns (hc_next c) (closed_by_cleanup p c [HttpClosed p] w s) = logged (HttpClosed p) ?g"
    by (simp add: logged_def at_conns_def closed_by_cleanup_def)
  ultimately show ?thesis using ig l ys(2) d rel by auto
qed

lemma cleanup_round:
  assumes e: "env_ok env" and q: "quiet_close user" and i: "http_inv {} (at_conns (Some p) s)" and v: "st_srv s = Some v"
  shows "\<exists>c s'. st_mem s p = Some c \<and> srv_cleanup_loop env user (Some p) s = srv_cleanup_loop env user (hc_next c) s'
     \<and> http_inv {} (at_conns (hc_next c) s')
     \<and> st_srv s' = Some v \<and> (SrvCleanup \<in> set (st_posts s') \<longrightarrow> SrvCleanup \<in> set (st_posts s))
     \<and> (\<forall>a. count_list (st_log s') a \<ge> count_list (st_log s) a) \<and> (sv_on_conn_close v \<longrightarrow> count_list (st_log s') (HttpClosed p) \<ge> 1)
     \<and> (\<forall>x cx. x \<noteq> p \<longrightarrow> st_mem s x = Some cx \<longrightarrow> st_mem s' x = Some cx)"
proof -
  define l where "l = (if sv_on_conn_close v then [HttpClosed p] else [])"
  have l: "l = [] \<or> l = [HttpClosed p]" by (simp add: l_def)
  obtain c where c: "st_mem s p = Some c" "\<not> hc_released c" "\<not> hc_stream c \<longrightarrow> st_streams s p = None"
    using cleanup_round_inv [OF i v l] by blast
  obtain w w' where 1: "srv_cleanup_loop env user (Some p) s = srv_cleanup_loop env user (hc_next c)
      ((closed_by_cleanup p c l w s)\<lparr>st_w := w', st_posts := st_posts s @ [ConnCleanup p]\<rparr>)" "he_post env w = (True, w')"
    using cleanup_round_eq [OF e q v c] unfolding l_def by blast
  let ?g = "at_conns (hc_next c) (closed_by_cleanup p c l w s)"
  let ?s5 = "(closed_by_cleanup p c l w s)\<lparr>st_w := w', st_posts := st_posts s @ [ConnCleanup p]\<rparr>"
  have ig: "http_inv {p} ?g" using cleanup_round_inv [OF i v l, of w] c(1) by auto
  have m: "st_mem ?g p = Some (c\<lparr>hc_state := HTTP_CONN_CLOSED, hc_idle_timer := None, hc_stream := False\<rparr>)" "st_streams ?g p = None"
    by (simp_all add: at_conns_def closed_by_cleanup_def)
  have "http_sevent_post env (ConnCleanup p) ?g = (True, at_conns (hc_next c) ?s5)"
    using 1(2) by (simp add: http_sevent_post_def at_conns_def closed_by_cleanup_def)
  then have i5: "http_inv {} (at_conns (hc_next c) ?s5)" using posted_ok(2) [OF ig e m(1) _ m(2)] by auto
  have log: "st_log ?s5 = st_log s @ [HttpState p (hc_state c) HTTP_CONN_CLOSED] @ l" by (simp add: closed_by_cleanup_def)
  show ?thesis
  proof (intro exI conjI)
    show "srv_cleanup_loop env user (Some p) s = srv_cleanup_loop env user (hc_next c) ?s5" by (rule 1)
    show "http_inv {} (at_conns (hc_next c) ?s5)" by (rule i5)
    show "\<forall>a. count_list (st_log s) a \<le> count_list (st_log ?s5) a" unfolding log by simp
    show "sv_on_conn_close v \<longrightarrow> 1 \<le> count_list (st_log ?s5) (HttpClosed p)" unfolding log by (simp add: l_def)
  qed (use c v in \<open>simp_all add: closed_by_cleanup_def\<close>)
qed

lemma cleanup_loop_ok:
  assumes e: "env_ok env" and q: "quiet_close user"
  shows "http_inv {} (at_conns h s) \<Longrightarrow> st_srv s = Some v \<Longrightarrow> conn_list (st_mem s) h xs \<Longrightarrow> distinct xs \<Longrightarrow>
    returns (srv_cleanup_loop env user h s) (\<lambda>s'. http_inv {} (at_conns None s') \<and> st_srv s' = Some v
      \<and> (SrvCleanup \<in> set (st_posts s') \<longrightarrow> SrvCleanup \<in> set (st_posts s))
      \<and> (\<forall>a. count_list (st_log s') a \<ge> count_list (st_log s) a)
      \<and> (sv_on_conn_close v \<longrightarrow> (\<forall>p \<in> set xs. count_list (st_log s') (HttpClosed p) \<ge> 1)))"
proof (induction xs arbitrary: h s)
  case Nil
  then show ?case by (subst srv_cleanup_loop.simps) simp
next
  case (Cons p xs)
  then have h: "h = Some p" by simp
  obtain c s1 where r: "st_mem s p = Some c" "srv_cleanup_loop env user h s = srv_cleanup_loop env user (hc_next c) s1"
    "http_inv {} (at_conns (hc_next c) s1)" "st_srv s1 = Some v" "SrvCleanup \<in> set (st_posts s1) \<longrightarrow> SrvCleanup \<in> set (st_posts s)"
    "\<forall>a. count_list (st_log s1) a \<ge> count_list (st_log s) a" "sv_on_conn_close v \<longrightarrow> count_list (st_log s1) (HttpClosed p) \<ge> 1"
    "\<forall>x cx. x \<noteq> p \<longrightarrow> st_mem s x = Some cx \<longrightarrow> st_mem s1 x = Some cx"
    using cleanup_round [OF e q Cons(2) [unfolded h] Cons(3)] h by blast
  have l: "conn_list (st_mem s) (hc_next c) xs" "p \<notin> set xs" "distinct xs" using Cons(4,5) r(1) by auto
  have "conn_list (st_mem s1) (hc_next c) xs"
    using l(1) conn_list_cong [of xs "st_mem s1" "st_mem s" "hc_next c"] r(8) l(2) conn_list_mem [OF l(1)] by (metis option.simps(9))
  from Cons(1) [OF r(3,4) this l(3)] show ?case
    unfolding r(2) by (rule returns_mono) (use r(5-7) order_trans in \<open>fastforce\<close>)
qed

text \<open>Once every connection is closed the posted tasks free them all.\<close>

definition only_cleanup :: "'w http_st \<Rightarrow> bool" where
  "only_cleanup s \<longleftrightarrow> (\<forall>p c. st_mem s p = Some c \<longrightarrow> conn_dead c \<and> ConnCleanup p \<in> set (st_posts s))
     \<and> (\<forall>p. ProcessPost p \<in> set (st_posts s) \<or> ConnCleanup p \<in> set (st_posts s) \<longrightarrow> st_mem s p \<noteq> None)
     \<and> post_order (st_posts s) \<and> SrvCleanup \<notin> set (st_posts s)"

lemma only_cleanup_runs:
  "only_cleanup s \<Longrightarrow> returns (http_run env user (replicate (length (st_posts s)) InPost) s) (\<lambda>s'. st_mem s' = Map.empty \<and> st_posts s' = []
     \<and> st_timers s' = st_timers s \<and> st_streams s' = st_streams s \<and> (\<forall>p. count_list (st_log s') (HttpClosed p) = count_list (st_log s) (HttpClosed p)))"
proof (induction "length (st_posts s)" arbitrary: s)
  case 0
  then have "st_mem s p = None" for p by (cases "st_mem s p") (auto simp: only_cleanup_def)
  with 0 show ?case by (auto intro: ext)
next
  case (Suc n)
  then obtain it rest where po: "st_posts s = it # rest" by (cases "st_posts s") auto
  have n: "n = length rest" using Suc(2) po by simp
  let ?s = "s\<lparr>st_posts := rest\<rparr>"
  have step: "returns (http_run env user (replicate (length (st_posts s1)) InPost) s1) (\<lambda>s'. st_mem s' = Map.empty \<and> st_posts s' = []
     \<and> st_timers s' = st_timers s \<and> st_streams s' = st_streams s \<and> (\<forall>p. count_list (st_log s') (HttpClosed p) = count_list (st_log s) (HttpClosed p)))"
    if "only_cleanup s1" "st_posts s1 = rest" "st_timers s1 = st_timers s" "st_streams s1 = st_streams s"
      "\<forall>p. count_list (st_log s1) (HttpClosed p) = count_list (st_log s) (HttpClosed p)" for s1
    using Suc(1) [of s1] that n by auto
  show ?case
  proof (cases it)
    case (ProcessPost p)
    then obtain c where "st_mem s p = Some c" "conn_dead c" using Suc(3) po by (auto simp: only_cleanup_def)
    then have "http_run_post env user it ?s = Some ?s"
      using ProcessPost by (auto simp: http_run_post_def http_process_post_def conn_dying_def conn_dead_def)
    moreover have "only_cleanup ?s" using Suc(3) po ProcessPost by (auto simp: only_cleanup_def)
    ultimately show ?thesis using step [of ?s] po ProcessPost by simp
  next
    case (ConnCleanup p)
    then obtain c where c: "st_mem s p = Some c" using Suc(3) po by (auto simp: only_cleanup_def)
    let ?f = "logged (HttpFree p) (?s\<lparr>st_mem := (st_mem s)(p := None)\<rparr>)"
    have "http_run_post env user it ?s = Some ?f" using ConnCleanup c by (simp add: http_run_post_def conn_cleanup_def)
    moreover have "only_cleanup ?f" using Suc(3) po ConnCleanup by (auto simp: only_cleanup_def logged_def)
    ultimately show ?thesis using step [of ?f] po ConnCleanup by (simp add: logged_def)
  next
    case SrvCleanup
    then show ?thesis using Suc(3) po by (simp add: only_cleanup_def)
  qed
qed

lemma no_conns_left:
  assumes i: "http_inv {} s" and v: "st_srv s = Some v" "sv_conns v = None" and n: "SrvCleanup \<notin> set (st_posts s)"
  shows "only_cleanup s" "st_timers s = Map.empty" "st_streams s = Map.empty"
proof -
  have d: "conn_dead c" if "st_mem s p = Some c" for p c
  proof -
    obtain xs where "conn_list (st_mem s) None xs" "\<forall>p. p \<in> set xs \<longleftrightarrow> (\<exists>c. st_mem s p = Some c \<and> \<not> conn_dead c)"
      using http_invD(1) [OF i] v unfolding list_ok_def by auto
    then show ?thesis using that by (cases xs) auto
  qed
  have cp: "conn_ok {} s p c" if "st_mem s p = Some c" for p c by (rule http_invD(3) [OF i that])
  have g: "gone_ok {} s p" if "st_mem s p = None" for p by (rule http_invD(4) [OF i that])
  show "only_cleanup s"
    unfolding only_cleanup_def
  proof (intro conjI allI impI)
    fix p c assume "st_mem s p = Some c"
    then show "conn_dead c" "ConnCleanup p \<in> set (st_posts s)" using d cp [of p c] by (simp_all add: conn_ok_def)
  next
    fix p assume "ProcessPost p \<in> set (st_posts s) \<or> ConnCleanup p \<in> set (st_posts s)"
    then show "st_mem s p \<noteq> None" using g [of p] by (auto simp: gone_ok_def)
  qed (use n http_invD(6) [OF i] in simp_all)
  show "st_streams s = Map.empty"
  proof
    fix p show "st_streams s p = None" using d [of p] cp [of p] g [of p] by (cases "st_mem s p") (auto simp: conn_ok_def gone_ok_def)
  qed
  show "st_timers s = Map.empty"
  proof (rule ext, rule ccontr)
    fix t assume "st_timers s t \<noteq> None"
    then obtain p c where "st_mem s p = Some c" "hc_idle_timer c = Some t" using http_invD(5) [OF i] by blast
    then show False using d cp by (fastforce simp: conn_ok_def)
  qed
qed



definition quiet_conns :: "unit http_st option" where
  "quiet_conns = run_call demo_henv idle_user (CallListen None 80 8 False True False True False) demo_start \<bind>
     http_run demo_henv idle_user [InAccept 5, InAccept 6, InOpen 0, InData 0 demo_get] \<bind> run_call demo_henv idle_user CallDestroy"

lemma quiet_conns_posts:
  "map_option (\<lambda>s. (st_posts s, map_option hc_state (st_mem s 0), map_option sv_on_conn_close (st_srv s))) quiet_conns
     = Some ([SrvCleanup], Some HTTP_CONN_AWAIT_RESP, Some True)"
  by code_simp

text \<open>
  C13. Finding: a server that is destroyed can free a connection twice. When the cleanup task calls
  \<open>on_conn_close\<close> for one connection and the callback writes to another connection that is still
  listed, whose peer is gone, that connection is taken down and its release posted; the loop then
  reaches it as well, announces it a second time and posts a second release. Of the three tasks
  the last finds the connection already freed.
\<close>

theorem http_server_destroy_frees_twice:
  "\<exists>s s1 s2. http_callbacks demo_henv telling_user \<and> env_ok demo_henv \<and> http_reach demo_henv telling_user s
    \<and> st_posts s = [SrvCleanup] \<and> http_run_post demo_henv telling_user SrvCleanup (s\<lparr>st_posts := []\<rparr>) = Some s1
    \<and> count_list (st_log s1) (HttpClosed 0) = 2 \<and> st_posts s1 = [ConnCleanup 0, ConnCleanup 1, ConnCleanup 0]
    \<and> http_run demo_henv telling_user [InPost, InPost] s1 = Some s2 \<and> HttpFree 0 \<in> set (st_log s2)
    \<and> http_enabled InPost s2 \<and> http_step demo_henv telling_user InPost s2 = None"
proof -
  obtain s where s: "two_conns = Some s" "http_reach demo_henv telling_user s" "st_posts s = [SrvCleanup]" by (rule two_conns_reach)
  obtain s1 where s1: "cleaned_up = Some s1" "st_posts s1 = [ConnCleanup 0, ConnCleanup 1, ConnCleanup 0]" "count_list (st_log s1) (HttpClosed 0) = 2"
    using cleaned_up_counts by auto
  obtain s2 where s2: "http_run demo_henv telling_user [InPost, InPost] s1 = Some s2" "st_posts s2 = [ConnCleanup 0]" "HttpFree 0 \<in> set (st_log s2)"
    "http_step demo_henv telling_user InPost s2 = None"
    using cleaned_up_stuck unfolding s1(1) by (auto simp del: http_run.simps http_step.simps)
  have "http_run_post demo_henv telling_user SrvCleanup (s\<lparr>st_posts := []\<rparr>) = Some s1" using s1(1) unfolding cleaned_up_def s(1) by simp
  moreover have "http_enabled InPost s2" using s2(2) by simp
  ultimately show ?thesis using telling_callbacks demo_env_ok s(2,3) s1(2,3) s2(1,3,4) by blast
qed


end
