(* ===== verification/Http_Order.thy ===== *)
theory Http_Order
  imports Http_Server "HOL-Library.Sublist"
begin

text \<open>
  Requests on one connection of \<^verbatim>\<open>src/http_server.c\<close>: the bytes that arrive are cut into requests in one
  way only, and the server gives exactly these requests to the user, in order, however the bytes
  were split into reads, whether they are handled at once, from a posted task or while making room,
  and whether the user answers at once or later.
\<close>

section \<open>Framing\<close>

text \<open>
  \<open>frame x m\<close>: the bytes \<open>x\<close> are one message \<open>m\<close>, and no proper prefix of \<open>x\<close> is one. Then a stream can be
  cut into messages in one way only.
\<close>

locale framed_stream =
  fixes frame :: "'b list \<Rightarrow> 'm \<Rightarrow> bool"
  assumes frame_prefix_free: "frame x m \<Longrightarrow> frame y m' \<Longrightarrow> x @ a = y @ b \<Longrightarrow> x = y \<and> m = m'"
    and frame_nonempty: "\<not> frame [] m"
begin

lemma cut_unique:
  assumes "list_all2 frame xs ms" "list_all2 frame ys ns" "concat xs @ a = concat ys @ b" "length ms \<le> length ns"
  shows "prefix ms ns"
  using assms
proof (induction xs ms arbitrary: ys ns rule: list_all2_induct)
  case (Cons x xs m ms)
  then obtain n ns' y ys' where e: "ns = n # ns'" "ys = y # ys'" "frame y n" "list_all2 frame ys' ns'"
    by (auto simp: list_all2_Cons2 Suc_le_length_iff)
  have xy: "x = y \<and> m = n"
    by (rule frame_prefix_free [OF Cons.hyps(1) e(3), of "concat xs @ a" "concat ys' @ b"]) (use Cons.prems(2) e(2) in simp)
  then have "prefix ms ns'" by (intro Cons.IH [OF e(4)]) (use Cons.prems e in simp_all)
  then show ?case using xy e(1) by simp
qed simp

text \<open>When neither rest holds a further message, both cuts are the same.\<close>

lemma cut_complete:
  assumes "list_all2 frame xs ms" "list_all2 frame ys ns" "concat xs @ a = concat ys @ b"
    "\<nexists>x m r. frame x m \<and> a = x @ r" "\<nexists>x m r. frame x m \<and> b = x @ r"
  shows "ms = ns \<and> a = b"
  using assms
proof (induction xs ms arbitrary: ys ns rule: list_all2_induct)
  case Nil
  then show ?case by (cases ys; cases ns) auto
next
  case (Cons x xs m ms)
  show ?case
  proof (cases ys)
    case Nil
    then show ?thesis using Cons.prems Cons.hyps(1) by auto
  next
    case (Cons y ys')
    then obtain n ns' where e: "ns = n # ns'" "frame y n" "list_all2 frame ys' ns'" using \<open>list_all2 frame ys ns\<close>
      by (auto simp: list_all2_Cons1)
    have xy: "x = y \<and> m = n"
      by (rule frame_prefix_free [OF \<open>frame x m\<close> e(2), of "concat xs @ a" "concat ys' @ b"]) (use Cons \<open>concat (x # xs) @ a = concat ys @ b\<close> in simp)
    have "ms = ns' \<and> a = b"
      by (rule Cons.IH [OF e(3)]) (use Cons.prems Cons xy in simp_all)
    then show ?thesis using xy e(1) by simp
  qed
qed

end

definition http_frame :: "bytes \<Rightarrow> sevent_http_msg \<Rightarrow> bool" where
  "http_frame x m \<longleftrightarrow> sevent_http_parse (chars_of x) = (1, m) \<and> the (hm_body m) + hm_body_len m = length x"

lemma parse_first_frame:
  assumes "sevent_http_parse (chars_of bs) = (r, m)" "0 < r"
  defines "n \<equiv> the (hm_body m) + hm_body_len m"
  shows "http_frame (take n bs) m" "0 < n" "n \<le> length bs"
proof -
  have "r = 1" using assms(1,2) by (auto simp: sevent_http_parse_def Let_def split: option.splits sum.splits if_splits)
  then have "fst (sevent_http_parse (chars_of bs)) = 1" using assms(1) by simp
  then obtain off where off: "hm_body m = Some off" "4 \<le> off" "off + hm_body_len m \<le> length (chars_of bs)"
    "sevent_http_parse (take (off + hm_body_len m) (chars_of bs)) = (1, m)"
    by (rule http_parse_complete) (use assms(1) \<open>r = 1\<close> in simp)
  moreover have "n = off + hm_body_len m" using off(1) by (simp add: n_def)
  moreover have "chars_of (take n bs) = take n (chars_of bs)" by (simp add: chars_of_def take_map)
  ultimately show "http_frame (take n bs) m" "0 < n" "n \<le> length bs" by (simp_all add: http_frame_def)
qed

interpretation http: framed_stream http_frame
proof (unfold_locales, goal_cases)
  case (1 x m y m' a b)
  have "sevent_http_parse (chars_of (x @ a)) = (1, m)" "sevent_http_parse (chars_of (y @ b)) = (1, m')"
    using 1(1,2) http_parse_stable by (auto simp: http_frame_def)
  then have "m = m'" using 1(3) by simp
  then have "length x = length y" using 1(1,2) by (simp add: http_frame_def)
  then show ?case using 1(3) \<open>m = m'\<close> by simp
next
  case (2 m)
  have "sevent_http_parse [] \<noteq> (1, m)" by code_simp
  then show ?case by (simp add: http_frame_def chars_of_def)
qed

section \<open>What a step does to one connection\<close>

text \<open>The requests of the connection \<open>p\<close> that were given to the user, in order.\<close>

definition requests :: "nat \<Rightarrow> http_act list \<Rightarrow> sevent_http_msg list" where
  "requests p log = concat (map (\<lambda>a. case a of HttpDispatch q m \<Rightarrow> if q = p then [m] else [] | _ \<Rightarrow> []) log)"

definition both_handlers :: "'w http_st \<Rightarrow> bool" where
  "both_handlers s \<longleftrightarrow> (\<exists>v. st_srv s = Some v \<and> sv_on_request v \<and> sv_on_upgrade v)"

text \<open>
  Nothing happened to what \<open>p\<close> has received and was given to the user; a connection that is ending
  does not come back.
\<close>

definition leaves :: "nat \<Rightarrow> 'w http_st \<Rightarrow> 'w http_st \<Rightarrow> bool" where
  "leaves p s s' \<longleftrightarrow> (\<exists>c c'. st_mem s p = Some c \<and> st_mem s' p = Some c' \<and> hc_recv c' = hc_recv c
     \<and> (conn_dying c \<longrightarrow> conn_dying c')) \<and> requests p (st_log s') = requests p (st_log s) \<and> (both_handlers s \<longrightarrow> both_handlers s')"

text \<open>
  The user: a callback leaves the connection's buffer alone, and takes a request over only by taking
  the whole connection. The network: writing succeeds.
\<close>

definition fair_user :: "nat \<Rightarrow> 'w http_user \<Rightarrow> bool" where
  "fair_user p user \<longleftrightarrow> (\<forall>ev s taken s'. st_mem s p \<noteq> None \<longrightarrow> user ev s = Some (taken, s') \<longrightarrow>
     leaves p s s' \<and> (taken \<longrightarrow> (\<exists>c. st_mem s' p = Some c \<and> conn_dying c)))"

definition calm_net :: "'w http_env \<Rightarrow> bool" where
  "calm_net env \<longleftrightarrow> (\<forall>p bs w. \<exists>w'. he_write env p bs w = (0, None, w'))"

lemma requests_simps [simp]: "requests p [] = []" "requests p (l @ l') = requests p l @ requests p l'"
  "requests p [HttpState q x y] = []" "requests p [HttpClosed q] = []" "requests p [HttpFree q] = []"
  "requests p [HttpDispatch q m] = (if q = p then [m] else [])"
  by (simp_all add: requests_def)

lemma st_sel [simp]:
  "st_mem (put p c s) = (st_mem s)(p \<mapsto> c)" "st_log (put p c s) = st_log s" "st_srv (put p c s) = st_srv s"
  "st_mem (logged a s) = st_mem s" "st_log (logged a s) = st_log s @ [a]" "st_srv (logged a s) = st_srv s"
  "st_mem (in_world f s) = st_mem s" "st_log (in_world f s) = st_log s" "st_srv (in_world f s) = st_srv s"
  by (simp_all add: put_def logged_def in_world_def)

lemma leaves_refl: "st_mem s p \<noteq> None \<Longrightarrow> leaves p s s"
  by (auto simp: leaves_def)

lemma leaves_trans: "leaves p a b \<Longrightarrow> leaves p b c \<Longrightarrow> leaves p a c"
  by (auto simp: leaves_def)

lemma state_set_leaves:
  "http_state_set q ns s = Some s' \<Longrightarrow> st_mem s p \<noteq> None \<Longrightarrow> q = p \<longrightarrow> (\<exists>c. st_mem s p = Some c \<and> \<not> conn_dying c) \<Longrightarrow> leaves p s s'"
  by (auto simp: http_state_set_def leaves_def both_handlers_def split: bind_splits)

lemma close_graceful_leaves: "conn_close_graceful env q s = Some s' \<Longrightarrow> st_mem s p \<noteq> None \<Longrightarrow> leaves p s s'"
  by (auto simp: conn_close_graceful_def http_state_set_def leaves_def both_handlers_def split: bind_splits if_splits)

lemma idle_stop_leaves: "conn_idle_stop q s = Some s' \<Longrightarrow> st_mem s p \<noteq> None \<Longrightarrow> leaves p s s'"
  by (auto simp: conn_idle_stop_def leaves_def both_handlers_def conn_dying_def split: bind_splits option.splits)

lemma idle_reset_leaves:
  assumes "conn_idle_reset env q s = Some s'" "st_mem s p \<noteq> None"
  shows "leaves p s s'"
proof (cases "s' = s")
  case True
  then show ?thesis using assms(2) leaves_refl by blast
next
  case False
  then obtain s1 where stop: "conn_idle_stop q s = Some s1"
    using assms(1) by (cases "conn_idle_stop q s") (auto simp: conn_idle_reset_def Let_def split: bind_splits if_splits)
  then obtain c where c: "st_mem s1 q = Some c"
    using assms(1) False by (cases "st_mem s1 q") (auto simp: conn_idle_reset_def Let_def split: bind_splits if_splits)
  have "(\<exists>t. st_mem s' = (st_mem s1)(q \<mapsto> c\<lparr>hc_idle_timer := t\<rparr>)) \<and> st_log s' = st_log s1 \<and> st_srv s' = st_srv s1"
    using assms(1) False stop c by (auto simp: conn_idle_reset_def Let_def split: bind_splits if_splits prod.splits)
  note s1 = stop c this
  have "leaves p s s1" using idle_stop_leaves [OF s1(1) assms(2)] .
  moreover have "leaves p s1 s'" using calculation s1(2-3) by (auto simp: leaves_def both_handlers_def conn_dying_def)
  ultimately show ?thesis by (rule leaves_trans)
qed

lemma same_world [simp]: "\<exists>w. (s :: 'w http_st) = s\<lparr>st_w := w\<rparr>"
  by (rule exI [of _ "st_w s"]) simp

lemma stream_write_calm:
  assumes "calm_net env" "conn_stream_write env user p bs s = Some (rc, s')"
  shows "\<exists>w. s' = s\<lparr>st_w := w\<rparr>"
proof -
  obtain w' where "he_write env p bs (st_w s) = (0, None, w')" using assms(1) unfolding calm_net_def by blast
  then show ?thesis using assms(2) by (auto simp: conn_stream_write_def split: bind_splits if_splits)
qed

lemma respond_build_calm:
  assumes "calm_net env" "conn_respond_build env user p resp ic s = Some (x, s')"
  shows "\<exists>w. s' = s\<lparr>st_w := w\<rparr>"
  using assms(2)
  by (auto simp: conn_respond_build_def Let_def dest!: stream_write_calm [OF assms(1)]
      split: option.splits if_splits prod.splits bind_splits)

lemma leaves_world [simp]: "leaves p (s\<lparr>st_w := w\<rparr>) s' = leaves p s s'" "leaves p s (s'\<lparr>st_w := w\<rparr>) = leaves p s s'"
  by (simp_all add: leaves_def both_handlers_def)

lemma respond_internal_leaves:
  assumes "calm_net env" "http_respond_internal env user p status cl s = Some s'"
  shows "leaves p s s'"
proof -
  obtain c where c: "st_mem s p = Some c" using assms(2) by (auto simp: http_respond_internal_def split: bind_splits)
  show ?thesis
  proof (cases "conn_dying c")
    case True
    then show ?thesis using assms(2) c leaves_refl [of s p] by (simp add: http_respond_internal_def)
  next
    case False
    then obtain rc ns s1 where b: "conn_respond_build env user p (http_response0\<lparr>rp_status := status\<rparr>) cl s = Some ((rc, ns), s1)"
      and r: "(if rc \<noteq> 0 then Some s1 else do { c \<leftarrow> st_mem s1 p; conn_close_graceful env p (put p (c\<lparr>hc_close_pending := True\<rparr>) s1) }) = Some s'"
      using assms(2) c by (auto simp: http_respond_internal_def split: bind_splits)
    obtain w where w: "s1 = s\<lparr>st_w := w\<rparr>" using respond_build_calm [OF assms(1) b] by blast
    have "leaves p s (put p (c\<lparr>hc_close_pending := True\<rparr>) s1)" using c w by (auto simp: leaves_def both_handlers_def conn_dying_def)
    then show ?thesis using r c w leaves_refl [of s p] leaves_trans [OF _ close_graceful_leaves [where q = p and p = p]]
      by (fastforce split: if_splits)
  qed
qed

text \<open>Answering, at once or later, on this or on another connection, leaves the input alone.\<close>

lemma http_sevent_post_leaves: "http_sevent_post env it s = (ok, s') \<Longrightarrow> st_mem s p \<noteq> None \<Longrightarrow> leaves p s s'"
  by (auto simp: http_sevent_post_def leaves_def both_handlers_def split: prod.splits)

lemma leaves_alive: "leaves p s s' \<Longrightarrow> st_mem s' p \<noteq> None"
  by (auto simp: leaves_def)

lemma response_complete_leaves:
  assumes "conn_response_complete env q a s = Some s'" "st_mem s p \<noteq> None" "\<exists>c. st_mem s q = Some c \<and> \<not> conn_dying c"
  shows "leaves p s s'"
proof -
  obtain c where c: "st_mem s q = Some c" "\<not> conn_dying c" using assms(3) by blast
  show ?thesis
  proof (cases "hc_close_pending c")
    case True
    then show ?thesis using assms(1) c(1) close_graceful_leaves [OF _ assms(2)] by (simp add: conn_response_complete_def)
  next
    case False
    obtain s1 s2 where s12: "http_state_set q HTTP_CONN_PARSING s = Some s1" "conn_idle_reset env q s1 = Some s2"
      "s' = s2 \<or> (\<exists>ok s3. http_sevent_post env (ProcessPost q) s2 = (ok, s3) \<and> (s' = s3 \<or> conn_close_graceful env q s3 = Some s'))"
      using assms(1) c(1) False by (auto simp: conn_response_complete_def split: bind_splits if_splits prod.splits)
    have "leaves p s s1" by (rule state_set_leaves [OF s12(1) assms(2)]) (use c in auto)
    then have "leaves p s s2" using leaves_trans idle_reset_leaves [OF s12(2)] leaves_alive by blast
    then show ?thesis using s12(3) leaves_trans http_sevent_post_leaves close_graceful_leaves leaves_alive by metis
  qed
qed

lemma respond_leaves:
  assumes "calm_net env" "sevent_http_conn_respond env user q resp s = Some (r, s')" "st_mem s p \<noteq> None"
  shows "leaves p s s'"
proof -
  obtain c where c: "st_mem s q = Some c" using assms(2) by (auto simp: sevent_http_conn_respond_def split: bind_splits)
  show ?thesis
  proof (cases "hc_state c \<noteq> HTTP_CONN_REQUEST \<and> hc_state c \<noteq> HTTP_CONN_AWAIT_RESP \<or> hc_wrote c")
    case True
    then show ?thesis using assms(2,3) c leaves_refl by (auto simp: sevent_http_conn_respond_def split: if_splits)
  next
    case False
    then obtain rc ns s1 where b: "conn_respond_build env user q resp False s = Some ((rc, ns), s1)"
      using assms(2) c by (cases "conn_respond_build env user q resp False s") (auto simp: sevent_http_conn_respond_def)
    then obtain w where w: "s1 = s\<lparr>st_w := w\<rparr>" using respond_build_calm [OF assms(1)] by blast
    let ?c = "c\<lparr>hc_close_pending := hc_close_pending c \<or> ns\<rparr>"
    have "s' = s1 \<or> conn_response_complete env q (hc_state c = HTTP_CONN_AWAIT_RESP) (put q ?c s1) = Some s'"
      using assms(2) c False b w by (auto simp: sevent_http_conn_respond_def Let_def split: if_splits bind_splits)
    moreover have "leaves p s (put q ?c s1)" using assms(3) c w by (auto simp: leaves_def both_handlers_def conn_dying_def)
    moreover have "\<not> conn_dying ?c" using False by (auto simp: conn_dying_def)
    ultimately show ?thesis
      using leaves_refl [OF assms(3)] w leaves_trans [OF _ response_complete_leaves [where q = q and p = p]] leaves_alive by fastforce
  qed
qed

section \<open>The invariant\<close>

text \<open>
  The bytes \<open>received\<close> on \<open>p\<close> are the requests given to the user, one after the other, and a rest, which
  is what the buffer holds as long as the connection is not ending.
\<close>

definition in_order :: "nat \<Rightarrow> bytes \<Rightarrow> 'w http_st \<Rightarrow> bool" where
  "in_order p received s \<longleftrightarrow> both_handlers s \<and> (\<exists>c xs rest. st_mem s p = Some c \<and> received = concat xs @ rest
     \<and> list_all2 http_frame xs (requests p (st_log s)) \<and> (\<not> conn_dying c \<longrightarrow> rest = hc_recv c))"

lemma in_order_leaves: "in_order p bs s \<Longrightarrow> leaves p s s' \<Longrightarrow> in_order p bs s'"
  by (auto simp: in_order_def leaves_def) blast

lemma in_order_close: "conn_close_graceful env q s = Some s' \<Longrightarrow> in_order p bs s \<Longrightarrow> in_order p bs s'"
  by (rule in_order_leaves [OF _ close_graceful_leaves]) (auto simp: in_order_def)

lemma in_order_idle_reset: "conn_idle_reset env q s = Some s' \<Longrightarrow> in_order p bs s \<Longrightarrow> in_order p bs s'"
  by (rule in_order_leaves [OF _ idle_reset_leaves]) (auto simp: in_order_def)

text \<open>One request: it is recorded when the user gets it, and leaves the buffer after the callback.\<close>

definition got_one :: "nat \<Rightarrow> bytes \<Rightarrow> nat \<Rightarrow> 'w http_st \<Rightarrow> bool" where
  "got_one p received n s \<longleftrightarrow> both_handlers s \<and> (\<exists>c xs rest. st_mem s p = Some c \<and> received = concat xs @ rest
     \<and> list_all2 http_frame xs (requests p (st_log s)) \<and> (\<not> conn_dying c \<longrightarrow> rest = drop n (hc_recv c)))"

lemma after_callback_in_order:
  assumes "got_one p bs n s" "request_after_callback env p n s = Some s'"
  shows "in_order p bs s'"
proof -
  obtain c xs rest where c: "st_mem s p = Some c" "both_handlers s" "bs = concat xs @ rest" "list_all2 http_frame xs (requests p (st_log s))"
    "\<not> conn_dying c \<longrightarrow> rest = drop n (hc_recv c)" using assms(1) by (auto simp: got_one_def)
  let ?c = "c\<lparr>hc_recv := drop n (hc_recv c)\<rparr>"
  have d: "conn_dying ?c = conn_dying c" by (simp add: conn_dying_def)
  have o: "in_order p bs (put p ?c s)" using c d by (auto simp: in_order_def both_handlers_def)
  show ?thesis
  proof (cases "hc_state c = HTTP_CONN_PARSING \<or> conn_dying c \<or> hc_state c = HTTP_CONN_RESPONDING")
    case True
    then show ?thesis using assms(2) c(1) d o by (auto simp: request_after_callback_def Let_def)
  next
    case False
    then obtain s1 where s1: "(if hc_state c = HTTP_CONN_REQUEST
        then http_state_set p (if hc_wrote c then HTTP_CONN_RESPONDING else HTTP_CONN_AWAIT_RESP) (put p ?c s) else Some (put p ?c s)) = Some s1"
      "conn_idle_reset env p s1 = Some s'"
      using assms(2) c(1) d by (auto simp: request_after_callback_def Let_def split: bind_splits if_splits)
    have "leaves p (put p ?c s) s1"
      using s1(1) False d state_set_leaves [of p _ "put p ?c s" s1 p] leaves_refl [of "put p ?c s" p] by (auto split: if_splits)
    then show ?thesis using in_order_idle_reset [OF s1(2) in_order_leaves [OF o]] by blast
  qed
qed

lemma fair_userD:
  "fair_user p user \<Longrightarrow> user ev s = Some (taken, s') \<Longrightarrow> st_mem s p \<noteq> None
    \<Longrightarrow> leaves p s s' \<and> (taken \<longrightarrow> (\<exists>c. st_mem s' p = Some c \<and> conn_dying c))"
  unfolding fair_user_def by blast

lemma dispatch_one:
  assumes "calm_net env" "fair_user p user" "in_order p bs s" "st_mem s p = Some c" "\<not> conn_dying c" "http_frame (take n (hc_recv c)) m"
    "conn_dispatch env user p m s = Some (taken, s')"
  shows "got_one p bs n s' \<and> (taken \<longrightarrow> (\<exists>c. st_mem s' p = Some c \<and> conn_dying c))"
proof -
  obtain v where v: "st_srv s = Some v" "sv_on_request v" "sv_on_upgrade v" using assms(3) by (auto simp: in_order_def both_handlers_def)
  obtain ev b where u: "user ev (logged (HttpDispatch p m) s) = Some (b, s')" "taken \<longrightarrow> b"
    using assms(4,7) v by (auto simp: conn_dispatch_def split: if_splits bind_splits)
  note f = fair_userD [OF assms(2) u(1)]
  obtain xs where xs: "bs = concat xs @ hc_recv c" "list_all2 http_frame xs (requests p (st_log s))"
    using assms(3-5) by (auto simp: in_order_def)
  have "bs = concat (xs @ [take n (hc_recv c)]) @ drop n (hc_recv c)" using xs(1) by simp
  moreover have "list_all2 http_frame (xs @ [take n (hc_recv c)]) (requests p (st_log (logged (HttpDispatch p m) s)))"
    using xs(2) assms(6) by (simp add: list_all2_appendI)
  moreover have "both_handlers (logged (HttpDispatch p m) s)" using v by (simp add: both_handlers_def)
  ultimately show ?thesis using f u(2) assms(4) unfolding got_one_def leaves_def by (auto simp del: concat_append) blast
qed

lemma in_order_put:
  "in_order p bs s \<Longrightarrow> st_mem s p = Some c \<Longrightarrow> hc_recv c' = hc_recv c \<Longrightarrow> hc_state c' = hc_state c \<Longrightarrow> in_order p bs (put p c' s)"
  by (auto simp: in_order_def both_handlers_def conn_dying_def)

lemma http_sevent_post_in_order: "http_sevent_post env it s = (ok, s') \<Longrightarrow> in_order p bs s' = in_order p bs s"
proof -
  assume "http_sevent_post env it s = (ok, s')"
  then have "st_mem s' = st_mem s \<and> st_log s' = st_log s \<and> st_srv s' = st_srv s"
    by (auto simp: http_sevent_post_def split: prod.splits)
  then show "in_order p bs s' = in_order p bs s" by (simp add: in_order_def both_handlers_def)
qed

lemma process_loop_in_order:
  assumes "calm_net env" "fair_user p user" "in_order p bs s" "http_process_loop k env user p s = Some s'"
  shows "in_order p bs s'"
  using assms(3,4)
proof (induction k arbitrary: s)
  case (0 s)
  obtain c where c: "st_mem s p = Some c" using 0 by (auto simp: in_order_def)
  obtain ok s1 where q: "http_sevent_post env (ProcessPost p) s = (ok, s1)" by (rule prod.exhaust)
  then have "in_order p bs s1" using 0 http_sevent_post_in_order by blast
  then show ?case using 0 c q in_order_close
    by (auto simp: http_process_loop.simps Let_def split: if_splits bind_splits)
next
  case (Suc k s)
  obtain c where c: "st_mem s p = Some c" using Suc.prems by (auto simp: in_order_def)
  show ?case
  proof (cases "hc_recv c = [] \<or> conn_dying c \<or> hc_state c \<noteq> HTTP_CONN_PARSING")
    case True
    then show ?thesis using Suc.prems c by (auto simp: http_process_loop.simps)
  next
    case alive: False
    obtain r m where pm: "sevent_http_parse (chars_of (hc_recv c)) = (r, m)" by (rule prod.exhaust)
    show ?thesis
    proof (cases "0 < r")
      case False
      then show ?thesis
        using Suc.prems c alive pm in_order_leaves [OF Suc.prems(1) respond_internal_leaves [OF assms(1)]]
        by (auto simp: http_process_loop.simps split: if_splits)
    next
      case True
      define n where "n = the (hm_body m) + hm_body_len m"
      define c1 where "c1 = c\<lparr>hc_req_keep_alive := hm_keep_alive m\<rparr>"
      define c2 where "c2 = c1\<lparr>hc_state := HTTP_CONN_REQUEST, hc_close_pending := \<not> hm_keep_alive m, hc_wrote := False\<rparr>"
      define s1 where "s1 = put p c2 (logged (HttpState p HTTP_CONN_PARSING HTTP_CONN_REQUEST) s)"
      have fr: "http_frame (take n (hc_recv c2)) m" using parse_first_frame(1) [OF pm True] by (simp add: n_def c2_def c1_def)
      have s1: "in_order p bs s1" "st_mem s1 p = Some c2" "\<not> conn_dying c2"
        using Suc.prems(1) c alive by (auto simp: s1_def c2_def c1_def in_order_def both_handlers_def conn_dying_def)
      have "put p (c1\<lparr>hc_state := HTTP_CONN_REQUEST, hc_close_pending := \<not> hm_keep_alive m, hc_wrote := False\<rparr>)
          (put p (c1\<lparr>hc_state := HTTP_CONN_REQUEST\<rparr>) (logged (HttpState p HTTP_CONN_PARSING HTTP_CONN_REQUEST) (put p c1 s))) = s1"
        by (simp add: s1_def c2_def put_def logged_def)
      then have "http_process_loop (Suc k) env user p s = do { (taken, s2) \<leftarrow> conn_dispatch env user p m s1;
          if taken then Some s2 else do { c \<leftarrow> st_mem s2 p; if conn_dying c then Some s2 else do {
            s \<leftarrow> request_after_callback env p n s2; c \<leftarrow> st_mem s p;
            if hc_state c = HTTP_CONN_PARSING then http_process_loop k env user p s else Some s } } }"
        using c alive pm True
        by (simp add: http_process_loop.simps [of "Suc k"] http_state_set_def c1_def [symmetric] n_def Let_def cong: if_cong)
      then obtain taken s2 where d: "conn_dispatch env user p m s1 = Some (taken, s2)"
        and rest: "(if taken then Some s2 else do { c \<leftarrow> st_mem s2 p; if conn_dying c then Some s2 else do {
            s \<leftarrow> request_after_callback env p n s2; c \<leftarrow> st_mem s p;
            if hc_state c = HTTP_CONN_PARSING then http_process_loop k env user p s else Some s } }) = Some s'"
        using Suc.prems(2) by (cases "conn_dispatch env user p m s1") auto
      have g: "got_one p bs n s2" "taken \<longrightarrow> (\<exists>c. st_mem s2 p = Some c \<and> conn_dying c)"
        using dispatch_one [OF assms(1,2) s1 fr d] by blast+
      have dying: "in_order p bs s2" if "st_mem s2 p = Some x" "conn_dying x" for x
        using g(1) that by (auto simp: got_one_def in_order_def)
      show ?thesis using rest g dying after_callback_in_order [OF g(1)] Suc.IH by (auto split: if_splits bind_splits)
    qed
  qed
qed

lemma process_in_order:
  "calm_net env \<Longrightarrow> fair_user p user \<Longrightarrow> in_order p bs s \<Longrightarrow> http_process env user p s = Some s' \<Longrightarrow> in_order p bs s'"
  by (auto simp: http_process_def intro: process_loop_in_order)

lemma process_post_in_order:
  "calm_net env \<Longrightarrow> fair_user p user \<Longrightarrow> in_order p bs s \<Longrightarrow> http_process_post env user p s = Some s' \<Longrightarrow> in_order p bs s'"
  by (auto simp: http_process_post_def intro: process_in_order split: bind_splits if_splits)

lemma overflow_loop_in_order:
  "calm_net env \<Longrightarrow> fair_user p user \<Longrightarrow> in_order p bs s \<Longrightarrow> overflow_loop k env user p n s = Some s' \<Longrightarrow> in_order p bs s'"
  by (induction k arbitrary: s) (auto intro: process_in_order split: bind_splits if_splits)

text \<open>What arrives for a connection that is ending is not looked at.\<close>

lemma in_order_ignored:
  assumes "in_order p bs s" "st_mem s p = Some c" "conn_dying c"
  shows "in_order p (bs @ data) s"
proof -
  obtain xs rest where "bs = concat xs @ rest" "list_all2 http_frame xs (requests p (st_log s))"
    using assms(1) by (auto simp: in_order_def)
  then have "bs @ data = concat xs @ (rest @ data) \<and> list_all2 http_frame xs (requests p (st_log s))" by simp
  then show ?thesis using assms unfolding in_order_def by blast
qed

lemma close_graceful_dying: "conn_close_graceful env p s = Some s' \<Longrightarrow> \<exists>c. st_mem s' p = Some c \<and> conn_dying c"
  by (auto simp: conn_close_graceful_def http_state_set_def conn_dying_def split: bind_splits if_splits)

lemma receive_in_order:
  assumes "calm_net env" "fair_user p user" "in_order p bs s" "conn_receive env user p data s = Some s'"
    "st_mem s p = Some c" "\<not> conn_dying c"
  shows "in_order p (bs @ data) s'"
proof -
  let ?s = "put p (c\<lparr>hc_recv := hc_recv c @ data\<rparr>) s"
  obtain xs where "bs = concat xs @ hc_recv c" "list_all2 http_frame xs (requests p (st_log s))" "both_handlers s"
    using assms(3,5,6) by (auto simp: in_order_def)
  then have "bs @ data = concat xs @ (hc_recv c @ data) \<and> list_all2 http_frame xs (requests p (st_log ?s)) \<and> both_handlers ?s"
    by (simp add: both_handlers_def)
  then have "in_order p (bs @ data) ?s" unfolding in_order_def by fastforce
  moreover obtain s1 where "conn_idle_reset env p ?s = Some s1" "http_process env user p s1 = Some s' \<or> s1 = s'"
    using assms(4,5) by (auto simp: conn_receive_def split: bind_splits if_splits)
  ultimately show ?thesis
    using in_order_idle_reset process_in_order [OF assms(1,2)] by blast
qed

lemma on_data_in_order:
  assumes "calm_net env" "fair_user p user" "in_order p bs s" "conn_on_data env user p data s = Some s'"
  shows "in_order p (bs @ data) s'"
proof -
  obtain c where c: "st_mem s p = Some c" using assms(3) by (auto simp: in_order_def)
  have closed: "in_order p (bs @ data) s'" if "in_order p bs s1" "conn_close_graceful env p s1 = Some s'" for s1
    using in_order_close [OF that(2,1)] close_graceful_dying [OF that(2)] in_order_ignored by blast
  show ?thesis
  proof (cases "conn_dying c \<or> length data \<le> hc_cap c - length (hc_recv c)")
    case True
    then show ?thesis using assms(4) c in_order_ignored [OF assms(3) c] receive_in_order [OF assms(1-3)]
      by (auto simp: conn_on_data_def split: if_splits)
  next
    case full: False
    show ?thesis
    proof (cases "hc_state c = HTTP_CONN_PARSING")
      case False
      then show ?thesis using assms(4) c full closed [OF assms(3)] by (simp add: conn_on_data_def)
    next
      case True
      then obtain s1 where s1: "overflow_loop HTTP_OVERFLOW_PROCESS_LIMIT env user p (length data) s = Some s1"
        using assms(4) c full by (cases "overflow_loop HTTP_OVERFLOW_PROCESS_LIMIT env user p (length data) s") (auto simp: conn_on_data_def)
      then have s1_order: "in_order p bs s1" using overflow_loop_in_order [OF assms(1-3)] by blast
      then obtain c1 where c1: "st_mem s1 p = Some c1" by (auto simp: in_order_def)
      have "(if \<not> conn_dying c1 \<and> hc_state c1 = HTTP_CONN_PARSING \<and> length data \<le> hc_cap c1 - length (hc_recv c1)
          then conn_receive env user p data s1 else conn_close_graceful env p s1) = Some s'"
        using assms(4) c full True s1 c1 by (simp add: conn_on_data_def)
      then show ?thesis using closed [OF s1_order] receive_in_order [OF assms(1,2) s1_order _ c1] by (auto split: if_splits)
    qed
  qed
qed

section \<open>A connection from its first byte on\<close>

text \<open>
  \<open>http_feed env user p received s\<close>: since it was accepted the connection \<open>p\<close> got the bytes \<open>received\<close>, in
  any number of reads; between them tasks ran, connections were answered and other things happened
  that do not concern the input of \<open>p\<close>.
\<close>

inductive http_feed :: "'w http_env \<Rightarrow> 'w http_user \<Rightarrow> nat \<Rightarrow> bytes \<Rightarrow> 'w http_st \<Rightarrow> bool" for env user p where
  feed_start: "st_mem s p = Some c \<Longrightarrow> hc_recv c = [] \<Longrightarrow> requests p (st_log s) = [] \<Longrightarrow> both_handlers s \<Longrightarrow> http_feed env user p [] s"
| feed_data: "http_feed env user p bs s \<Longrightarrow> conn_on_data env user p data s = Some s' \<Longrightarrow> http_feed env user p (bs @ data) s'"
| feed_task: "http_feed env user p bs s \<Longrightarrow> http_process_post env user p s = Some s' \<Longrightarrow> http_feed env user p bs s'"
| feed_answer: "http_feed env user p bs s \<Longrightarrow> sevent_http_conn_respond env user q resp s = Some (r, s') \<Longrightarrow> http_feed env user p bs s'"
| feed_other: "http_feed env user p bs s \<Longrightarrow> leaves p s s' \<Longrightarrow> http_feed env user p bs s'"

lemma feed_in_order:
  assumes "http_feed env user p bs s" "calm_net env" "fair_user p user"
  shows "in_order p bs s"
  using assms(1)
proof induction
  case (feed_answer bs s q resp r s')
  moreover have "st_mem s p \<noteq> None" using feed_answer.IH by (auto simp: in_order_def)
  ultimately show ?case using in_order_leaves respond_leaves [OF assms(2)] by blast
qed (auto simp: in_order_def [of p "[]"] intro: on_data_in_order [OF assms(2,3)] process_post_in_order [OF assms(2,3)] in_order_leaves)

lemma no_request_no_frame:
  assumes "fst (sevent_http_parse (chars_of rest)) \<noteq> 1"
  shows "\<nexists>x m r. http_frame x m \<and> rest = x @ r"
proof (intro notI, elim exE conjE)
  fix x m r
  assume "http_frame x m" "rest = x @ r"
  then have "sevent_http_parse (chars_of rest) = (1, m)" using http_parse_stable by (auto simp: http_frame_def)
  then show False using assms by simp
qed

text \<open>
  C15. Pipelined requests are delivered exactly. As long as writing succeeds and the callbacks leave the
  input alone, what a connection received is, byte for byte, the requests the user was given, in
  the order of their arrival, followed by a rest; no request is lost, repeated or reordered. The
  rest is what the buffer holds until the connection is being closed.
\<close>

theorem http_requests_in_order:
  assumes "calm_net env" "fair_user p user" "http_feed env user p received s"
  shows "\<exists>c xs rest. st_mem s p = Some c \<and> received = concat xs @ rest
    \<and> list_all2 http_frame xs (requests p (st_log s)) \<and> (\<not> conn_dying c \<longrightarrow> rest = hc_recv c)"
  using feed_in_order [OF assms(3,1,2)] unfolding in_order_def by blast


text \<open>A server that answers 204 from its callback, and two requests in two reads.\<close>

definition order_env :: "unit http_env" where
  "order_env = \<lparr>he_malloc = (\<lambda>_ w. (True, w)), he_post = (\<lambda>w. (True, w)), he_timer_register = (\<lambda>_ w. (True, w)),
     he_stream_create = (\<lambda>_ w. (True, w)), he_stream_accept = (\<lambda>_ _ _ w. (0, w)), he_write = (\<lambda>_ _ w. (0, None, w)),
     he_shutdown_wr = (\<lambda>_ w. w), he_stream_close = (\<lambda>_ w. w), he_stream_destroy = (\<lambda>_ w. w), he_close_fd = (\<lambda>_ w. w),
     he_acc_create = (\<lambda>w. (True, w)), he_acc_listen = (\<lambda>_ _ _ w. (0, w)), he_acc_port = (\<lambda>_. 80), he_acc_destroy = (\<lambda>w. w)\<rparr>"

definition answering_user :: "unit http_user" where
  "answering_user ev s =
     (case ev of
        OnRequest m q \<Rightarrow> map_option (\<lambda>(_, s). (False, s))
          (sevent_http_conn_respond order_env (\<lambda>_ s. Some (False, s)) q (http_response0\<lparr>rp_status := 204\<rparr>) s)
      | _ \<Rightarrow> Some (False, s))"

definition order_start :: "unit http_st" where
  "order_start = \<lparr>st_mem = [0 \<mapsto> \<lparr>hc_stream = True, hc_state = HTTP_CONN_PARSING, hc_recv = [], hc_has_buf = True, hc_cap = 100,
       hc_req_keep_alive = False, hc_close_pending = False, hc_released = False, hc_wrote = False, hc_idle_timer = None, hc_next = None\<rparr>],
     st_srv = Some \<lparr>sv_cfg = \<lparr>sg_enable_tls = False, sg_cert_path = None, sg_cert_pem = None, sg_key_path = None, sg_key_pem = None,
         sg_verify_peer = False, sg_ca_path = None, sg_ca_pem = None, sg_recv_buf_size = 100, sg_idle_timeout_ms = -1\<rparr>,
       sv_on_accept = False, sv_on_request = True, sv_on_upgrade = True, sv_on_conn_close = False, sv_on_error = False,
       sv_conns = Some 0, sv_destroyed = False\<rparr>,
     st_posts = [], st_timers = Map.empty, st_streams = [0 \<mapsto> True], st_fresh = 1, st_log = [], st_w = ()\<rparr>"

definition order_run :: "string list \<Rightarrow> unit http_st option" where
  "order_run = foldl (\<lambda>s d. s \<bind> conn_on_data order_env answering_user 0 (bytes_of d)) (Some order_start)"

lemma order_env_calm: "calm_net order_env" by (simp add: calm_net_def order_env_def)

lemma answering_fair: "fair_user p answering_user"
  unfolding fair_user_def
proof (intro allI impI)
  fix ev s taken s'
  assume s: "st_mem s p \<noteq> None" and u: "answering_user ev s = Some (taken, s')"
  then show "leaves p s s' \<and> (taken \<longrightarrow> (\<exists>c. st_mem s' p = Some c \<and> conn_dying c))"
    using leaves_refl [OF s] respond_leaves [OF order_env_calm _ s] by (auto simp: answering_user_def split: http_event.splits)
qed

lemma order_feed:
  assumes "order_run ds = Some s"
  shows "http_feed order_env answering_user 0 (bytes_of (concat ds)) s"
  using assms
proof (induction ds arbitrary: s rule: rev_induct)
  case Nil
  have e: "map_option hc_recv (st_mem order_start 0) = Some []" by (simp add: order_start_def)
  then obtain c where "st_mem order_start 0 = Some c" "hc_recv c = []" by auto
  then have "http_feed order_env answering_user 0 [] order_start"
    by (rule feed_start) (simp_all add: order_start_def both_handlers_def)
  then show ?case using Nil by (simp add: order_run_def bytes_of_def)
next
  case (snoc d ds)
  then obtain s1 where "order_run ds = Some s1" "conn_on_data order_env answering_user 0 (bytes_of d) s1 = Some s"
    by (auto simp: order_run_def split: bind_splits)
  then show ?case using feed_data snoc.IH by (fastforce simp: bytes_of_def)
qed

definition two_requests :: "string list" where
  "two_requests = [''GET /a HTT'', ''P/1.1'' @ CRLF @ CRLF @ ''GET /b HTTP/1.1'' @ CRLF @ CRLF @ ''GE'']"

definition order_view :: "unit http_st \<Rightarrow> string option list \<times> (bytes \<times> bool \<times> int) option" where
  "order_view s = (map hm_target (requests 0 (st_log s)),
     map_option (\<lambda>c. (hc_recv c, conn_dying c, fst (sevent_http_parse (chars_of (hc_recv c))))) (st_mem s 0))"

lemma two_requests_run:
  "map_option order_view (order_run two_requests) = Some ([Some ''/a'', Some ''/b''], Some (bytes_of ''GE'', False, 0))"
  by code_simp

lemma two_requests_at_once:
  "map_option order_view (order_run [concat two_requests]) = Some ([Some ''/a'', Some ''/b''], Some (bytes_of ''GE'', False, 0))"
  by code_simp

lemma order_run_end:
  assumes "map_option order_view (order_run ds) = Some (ts, Some (rest, False, r))"
  obtains s c where "order_run ds = Some s" "st_mem s 0 = Some c" "\<not> conn_dying c" "hc_recv c = rest"
    "fst (sevent_http_parse (chars_of (hc_recv c))) = r" "map hm_target (requests 0 (st_log s)) = ts"
  using assms by (auto simp: order_view_def)

theorem http_requests_in_order_witness:
  "\<exists>s xs. order_run two_requests = Some s \<and> map hm_target (requests 0 (st_log s)) = [Some ''/a'', Some ''/b'']
    \<and> bytes_of (concat two_requests) = concat xs @ bytes_of ''GE'' \<and> list_all2 http_frame xs (requests 0 (st_log s))"
proof -
  obtain s c where s: "order_run two_requests = Some s" "st_mem s 0 = Some c" "\<not> conn_dying c" "hc_recv c = bytes_of ''GE''"
    "map hm_target (requests 0 (st_log s)) = [Some ''/a'', Some ''/b'']" by (rule order_run_end [OF two_requests_run])
  show ?thesis
    using http_requests_in_order [OF order_env_calm answering_fair order_feed [OF s(1)]] s by fastforce
qed


end
