(* ===== verification/Tls_Conn.thy ===== *)
theory Tls_Conn
  imports Tcp_Conn Stream_Types
begin

text \<open>
  \<^verbatim>\<open>src/tls_conn.c\<close> and the backend-independent part of the TLS layer, \<^verbatim>\<open>src/ssl/ssl.c\<close>: a TLS
  connection is a TCP connection below and a TLS engine that exchanges plain bytes for encrypted
  bytes and never touches the socket. The engine is the record \<open>sevent_ssl_ops\<close> of
  \<^verbatim>\<open>src/ssl/ssl_i.h\<close>; its objects are values of the type \<open>'s\<close>, its contexts of the type \<open>'x\<close>. The
  TCP connection below, the allocator and the post queue are the other fields of \<open>tls_env\<close>.

  A call of \<open>sevent_tcp_conn_write\<close> may call back with an error or the end of the stream before it
  returns, as its last action; \<open>cb\<close> is what that callback does. User callbacks are the argument
  \<open>user\<close>. A function is \<^term>\<open>None\<close> when it uses the object after it was freed, calls the engine
  with a NULL object, reads freed plain text, or does not return.
\<close>

section \<open>The TLS engine\<close>

record sevent_ssl_config =
  sf_ca_path :: "string option"
  sf_ca_pem :: "string option"
  sf_cert_path :: "string option"
  sf_cert_pem :: "string option"
  sf_key_path :: "string option"
  sf_key_pem :: "string option"
  sf_enable_peer_verify :: bool
  sf_enable_hostname_verify :: bool

definition SEVENT_SSL_WANT_READ :: int where "SEVENT_SSL_WANT_READ = 1"
definition SEVENT_SSL_WANT_WRITE :: int where "SEVENT_SSL_WANT_WRITE = 2"

text \<open>\<open>drain\<close> returns the bytes, none for a result that is not positive; \<open>read\<close> the result and what it put into the buffer.\<close>

record ('x, 's, 'w) sevent_ssl_ops =
  so_ctx_new :: "sevent_ssl_config \<Rightarrow> 'w \<Rightarrow> 'x option \<times> 'w"
  so_ssl_new :: "'x \<Rightarrow> bool \<Rightarrow> string option \<Rightarrow> 'w \<Rightarrow> 's option \<times> 'w"
  so_feed :: "bytes \<Rightarrow> 's \<Rightarrow> int \<times> 's"
  so_drain :: "nat \<Rightarrow> 's \<Rightarrow> bytes \<times> 's"
  so_peer_close :: "'s \<Rightarrow> 's"
  so_handshake :: "'s \<Rightarrow> int \<times> 's"
  so_read :: "nat \<Rightarrow> 's \<Rightarrow> int \<times> bytes \<times> 's"
  so_write :: "bytes \<Rightarrow> 's \<Rightarrow> int \<times> 's"
  so_want :: "'s \<Rightarrow> int"

record ('x, 's, 'w) tls_env =
  te_ops :: "('x, 's, 'w) sevent_ssl_ops"
  te_malloc :: "nat \<Rightarrow> 'w \<Rightarrow> bool \<times> 'w"
  te_post :: "'w \<Rightarrow> bool \<times> 'w"
  te_tcp_create :: "'w \<Rightarrow> bool \<times> 'w"
  te_tcp_open :: "string \<Rightarrow> 16 word \<Rightarrow> stream_init \<Rightarrow> 'w \<Rightarrow> int \<times> 'w"
  te_tcp_accept :: "int \<Rightarrow> stream_init \<Rightarrow> 'w \<Rightarrow> int \<times> 'w"
  te_tcp_write :: "bytes \<Rightarrow> 'w \<Rightarrow> int \<times> write_event option \<times> 'w"
  te_tcp_shutdown :: "int \<Rightarrow> 'w \<Rightarrow> int \<times> 'w"
  te_tcp_close :: "'w \<Rightarrow> 'w"
  te_tcp_destroy :: "'w \<Rightarrow> 'w"

section \<open>The shell around the engine\<close>

definition both :: "string option \<Rightarrow> string option \<Rightarrow> bool" where
  "both a b \<longleftrightarrow> a \<noteq> None \<and> b \<noteq> None"

definition ssl_config_check :: "sevent_ssl_config \<Rightarrow> bool" where
  "ssl_config_check cfg =
     (if both (sf_ca_path cfg) (sf_ca_pem cfg) then False
      else if both (sf_cert_path cfg) (sf_cert_pem cfg) then False
      else if both (sf_key_path cfg) (sf_key_pem cfg) then False
      else if sf_cert_path cfg \<noteq> None \<and> sf_key_path cfg = None then False
      else if sf_cert_path cfg = None \<and> sf_key_path cfg \<noteq> None then False
      else if sf_cert_pem cfg \<noteq> None \<and> sf_key_pem cfg = None then False
      else if sf_cert_pem cfg = None \<and> sf_key_pem cfg \<noteq> None then False
      else True)"

definition sevent_ssl_ctx_new :: "('x, 's, 'w) tls_env \<Rightarrow> sevent_ssl_config \<Rightarrow> 'w \<Rightarrow> 'x option \<times> 'w" where
  "sevent_ssl_ctx_new env cfg w =
     (case te_malloc env 1 w of (ok, w) \<Rightarrow>
        if \<not> ok then (None, w)
        else if \<not> ssl_config_check cfg then (None, w)
        else so_ctx_new (te_ops env) cfg w)"

definition sevent_ssl_new :: "('x, 's, 'w) tls_env \<Rightarrow> 'x \<Rightarrow> bool \<Rightarrow> string option \<Rightarrow> 'w \<Rightarrow> 's option \<times> 'w" where
  "sevent_ssl_new env ctx is_server hostname w =
     (case te_malloc env 1 w of (ok, w) \<Rightarrow>
        if \<not> ok then (None, w) else so_ssl_new (te_ops env) ctx is_server hostname w)"

section \<open>The connection\<close>

definition SEVENT_TLS_RECV_DEFAULT :: nat where "SEVENT_TLS_RECV_DEFAULT = 4096"

text \<open>
  \<open>tl_recv_buf\<close> tells whether the buffer is allocated; \<open>tl_pending\<close> is \<open>pending_buf[0 .. pending_len)\<close>.
  The history records what the connection did: plain text given to the engine, encrypted bytes
  given to TCP, calls of the user, and the name a new engine object was created with.
\<close>

record ('x, 's) tls_conn =
  tl_ssl_ctx :: 'x
  tl_ssl :: "'s option"
  tl_is_server :: bool
  tl_established :: bool
  tl_handshake_done :: bool
  tl_closed_notified :: bool
  tl_destroyed :: bool
  tl_hostname :: "string option"
  tl_init :: sevent_stream_conn_init
  tl_recv_buf :: bool
  tl_recv_cap :: nat
  tl_send_cap :: nat
  tl_pending :: bytes
  tl_pending_cap :: nat

datatype tls_act = TlsNotify stream_event | TlsPlain bytes | TlsCipher bytes | TlsNew "string option"

record ('x, 's, 'w) tls_st =
  ts_obj :: "('x, 's) tls_conn option"
  ts_w :: 'w
  ts_log :: "tls_act list"

type_synonym ('x, 's, 'w) tls_user = "stream_event \<Rightarrow> ('x, 's, 'w) tls_st \<Rightarrow> ('x, 's, 'w) tls_st option"
type_synonym ('x, 's, 'w) tls_cb = "write_event \<Rightarrow> ('x, 's, 'w) tls_st \<Rightarrow> ('x, 's, 'w) tls_st option"

definition tls_put :: "('x, 's) tls_conn \<Rightarrow> ('x, 's, 'w) tls_st \<Rightarrow> ('x, 's, 'w) tls_st" where
  "tls_put t s = s\<lparr>ts_obj := Some t\<rparr>"

definition tls_logged :: "tls_act \<Rightarrow> ('x, 's, 'w) tls_st \<Rightarrow> ('x, 's, 'w) tls_st" where
  "tls_logged a s = s\<lparr>ts_log := ts_log s @ [a]\<rparr>"

text \<open>Calling a user callback that may be NULL.\<close>

definition tls_notify ::
  "('x, 's, 'w) tls_user \<Rightarrow> cb option \<Rightarrow> stream_event \<Rightarrow> ('x, 's, 'w) tls_st \<Rightarrow> ('x, 's, 'w) tls_st option" where
  "tls_notify user f ev s = (if f = None then Some s else user ev (tls_logged (TlsNotify ev) s))"

section \<open>The end of a session\<close>

definition tls_reset_after_term :: "('x, 's) tls_conn \<Rightarrow> ('x, 's) tls_conn" where
  "tls_reset_after_term t = t\<lparr>tl_ssl := None, tl_pending := [], tl_pending_cap := 0, tl_established := False,
     tl_handshake_done := False, tl_closed_notified := False\<rparr>"

definition tls_fail :: "('x, 's, 'w) tls_user \<Rightarrow> int \<Rightarrow> ('x, 's, 'w) tls_st \<Rightarrow> ('x, 's, 'w) tls_st option" where
  "tls_fail user err s = do {
     t \<leftarrow> ts_obj s;
     let notify = \<not> tl_closed_notified t;
     let t = tls_reset_after_term t;
     if notify \<and> in_on_error (tl_init t) \<noteq> None
     then tls_notify user (in_on_error (tl_init t)) (EvError err) (tls_put (t\<lparr>tl_closed_notified := True\<rparr>) s)
     else Some (tls_put t s)
   }"

definition tls_notify_close :: "('x, 's, 'w) tls_user \<Rightarrow> ('x, 's, 'w) tls_st \<Rightarrow> ('x, 's, 'w) tls_st option" where
  "tls_notify_close user s = do {
     t \<leftarrow> ts_obj s;
     if tl_closed_notified t then Some s
     else tls_notify user (in_on_close (tl_init t)) EvClose (tls_put ((tls_reset_after_term t)\<lparr>tl_closed_notified := True\<rparr>) s)
   }"

section \<open>Moving encrypted bytes\<close>

text \<open>The loop of \<open>tls_send_cipher\<close>: the first engine object is not NULL, later ones are not looked at.\<close>

partial_function (option) drain_loop ::
  "('x, 's, 'w) tls_env \<Rightarrow> ('x, 's, 'w) tls_cb \<Rightarrow> ('x, 's, 'w) tls_user \<Rightarrow> ('x, 's, 'w) tls_st \<Rightarrow> (int \<times> ('x, 's, 'w) tls_st) option" where
  "drain_loop env cb user s = do {
     t \<leftarrow> ts_obj s;
     x \<leftarrow> tl_ssl t;
     (case so_drain (te_ops env) (tl_send_cap t) x of (out, x) \<Rightarrow>
        if out = [] then Some (0, tls_put (t\<lparr>tl_ssl := Some x\<rparr>) s)
        else (case te_tcp_write env out (ts_w s) of (wrc, ev, w) \<Rightarrow> do {
          let s = (tls_put (t\<lparr>tl_ssl := Some x\<rparr>) s)\<lparr>ts_w := w\<rparr>;
          let s = (if wrc = 0 then tls_logged (TlsCipher out) s else s);
          s \<leftarrow> (case ev of None \<Rightarrow> Some s | Some e \<Rightarrow> cb e s);
          if wrc = SEVENT_ERR_INVAL then Some (1, s)
          else if wrc \<noteq> 0 then do { s \<leftarrow> tls_fail user SEVENT_ERR_WRITE s; Some (-1, s) }
          else drain_loop env cb user s
        }))
   }"

definition tls_send_cipher ::
  "('x, 's, 'w) tls_env \<Rightarrow> ('x, 's, 'w) tls_cb \<Rightarrow> ('x, 's, 'w) tls_user \<Rightarrow> ('x, 's, 'w) tls_st \<Rightarrow> (int \<times> ('x, 's, 'w) tls_st) option" where
  "tls_send_cipher env cb user s = do {
     t \<leftarrow> ts_obj s;
     if tl_ssl t = None then Some (1, s) else drain_loop env cb user s
   }"

section \<open>Reading and the handshake\<close>

partial_function (option) tls_read_plain ::
  "('x, 's, 'w) tls_env \<Rightarrow> ('x, 's, 'w) tls_cb \<Rightarrow> ('x, 's, 'w) tls_user \<Rightarrow> ('x, 's, 'w) tls_st \<Rightarrow> ('x, 's, 'w) tls_st option" where
  "tls_read_plain env cb user s = do {
     t \<leftarrow> ts_obj s;
     (if tl_destroyed t then Some s
      else (case tl_ssl t of
        None \<Rightarrow> Some s
      | Some x \<Rightarrow> (case so_read (te_ops env) (tl_recv_cap t) x of (r, data, x) \<Rightarrow> do {
          (rc, s) \<leftarrow> tls_send_cipher env cb user (tls_put (t\<lparr>tl_ssl := Some x\<rparr>) s);
          if rc < 0 then Some s
          else if 0 < r then do {
            t \<leftarrow> ts_obj s;
            s \<leftarrow> tls_notify user (in_on_data (tl_init t)) (EvData (take (nat r) data)) s;
            tls_read_plain env cb user s
          }
          else if r = 0 then tls_notify_close user s
          else do {
            t \<leftarrow> ts_obj s;
            x \<leftarrow> tl_ssl t;
            if so_want (te_ops env) x \<noteq> 0 then Some s else tls_fail user SEVENT_ERR_READ s
          }
        })))
   }"

partial_function (option) tls_pump_handshake ::
  "('x, 's, 'w) tls_env \<Rightarrow> ('x, 's, 'w) tls_cb \<Rightarrow> ('x, 's, 'w) tls_user \<Rightarrow> ('x, 's, 'w) tls_st \<Rightarrow> ('x, 's, 'w) tls_st option" where
  "tls_pump_handshake env cb user s = do {
     t \<leftarrow> ts_obj s;
     (if tl_destroyed t then Some s
      else (case tl_ssl t of
        None \<Rightarrow> Some s
      | Some x \<Rightarrow> (case so_handshake (te_ops env) x of (rc, x) \<Rightarrow> do {
          (sc, s) \<leftarrow> tls_send_cipher env cb user (tls_put (t\<lparr>tl_ssl := Some x\<rparr>) s);
          if sc < 0 then Some s
          else if rc = 0 then do {
            t \<leftarrow> ts_obj s;
            s \<leftarrow> tls_notify user (in_on_open (tl_init t)) EvOpen (tls_put (t\<lparr>tl_handshake_done := True\<rparr>) s);
            tls_read_plain env cb user s
          }
          else if rc = SEVENT_SSL_WANT_READ then Some s
          else if rc = SEVENT_SSL_WANT_WRITE then tls_pump_handshake env cb user s
          else tls_fail user SEVENT_ERR_HANDSHAKE s
        })))
   }"

definition tls_start_handshake ::
  "('x, 's, 'w) tls_env \<Rightarrow> ('x, 's, 'w) tls_cb \<Rightarrow> ('x, 's, 'w) tls_user \<Rightarrow> ('x, 's, 'w) tls_st \<Rightarrow> ('x, 's, 'w) tls_st option" where
  "tls_start_handshake env cb user s = do {
     t \<leftarrow> ts_obj s;
     if tl_destroyed t then Some s
     else (case sevent_ssl_new env (tl_ssl_ctx t) (tl_is_server t) (tl_hostname t) (ts_w s) of (x, w) \<Rightarrow>
       let s = tls_logged (TlsNew (tl_hostname t)) ((tls_put (t\<lparr>tl_ssl := x\<rparr>) s)\<lparr>ts_w := w\<rparr>) in
       if x = None then tls_fail user SEVENT_ERR_HANDSHAKE s else tls_pump_handshake env cb user s)
   }"

section \<open>Parked plain text\<close>

definition tls_park_write ::
  "('x, 's, 'w) tls_env \<Rightarrow> bytes \<Rightarrow> ('x, 's, 'w) tls_st \<Rightarrow> (bool \<times> ('x, 's, 'w) tls_st) option" where
  "tls_park_write env data s = do {
     t \<leftarrow> ts_obj s;
     if tl_pending_cap t < length data then
       (case te_malloc env (length data) (ts_w s) of (ok, w) \<Rightarrow>
          if \<not> ok then Some (False, s\<lparr>ts_w := w\<rparr>)
          else Some (True, (tls_put (t\<lparr>tl_pending := data, tl_pending_cap := length data\<rparr>) s)\<lparr>ts_w := w\<rparr>))
     else Some (True, tls_put (t\<lparr>tl_pending := data\<rparr>) s)
   }"

text \<open>The loop of \<open>tls_flush_pending\<close>; \<open>off\<close> is how far \<open>p\<close> is into the parked text, \<open>left\<close> what remains.\<close>

partial_function (option) flush_loop ::
  "('x, 's, 'w) tls_env \<Rightarrow> ('x, 's, 'w) tls_cb \<Rightarrow> ('x, 's, 'w) tls_user \<Rightarrow> nat \<Rightarrow> nat \<Rightarrow> ('x, 's, 'w) tls_st \<Rightarrow> ('x, 's, 'w) tls_st option" where
  "flush_loop env cb user off left s =
     (if left = 0 then Some s
      else do {
        t \<leftarrow> ts_obj s;
        (if tl_destroyed t then Some s
         else (case tl_ssl t of
           None \<Rightarrow> Some s
         | Some x \<Rightarrow>
             if length (tl_pending t) < off + left then None
             else (case so_write (te_ops env) (take left (drop off (tl_pending t))) x of (n, x) \<Rightarrow>
               if 0 < n then do {
                 let s = tls_logged (TlsPlain (take (nat n) (drop off (tl_pending t)))) (tls_put (t\<lparr>tl_ssl := Some x\<rparr>) s);
                 (sc, s) \<leftarrow> tls_send_cipher env cb user s;
                 if sc \<noteq> 0 then Some s else flush_loop env cb user (off + nat n) (left - nat n) s
               }
               else if n = 0 then do {
                 (sc, s) \<leftarrow> tls_send_cipher env cb user (tls_put (t\<lparr>tl_ssl := Some x\<rparr>) s);
                 if sc \<noteq> 0 then Some s else flush_loop env cb user off left s
               }
               else tls_fail user SEVENT_ERR_WRITE (tls_put (t\<lparr>tl_ssl := Some x\<rparr>) s))))
      })"

definition tls_flush_pending ::
  "('x, 's, 'w) tls_env \<Rightarrow> ('x, 's, 'w) tls_cb \<Rightarrow> ('x, 's, 'w) tls_user \<Rightarrow> ('x, 's, 'w) tls_st \<Rightarrow> ('x, 's, 'w) tls_st option" where
  "tls_flush_pending env cb user s = do {
     t \<leftarrow> ts_obj s;
     if tl_pending t = [] \<or> tl_destroyed t then Some s
     else do {
       s \<leftarrow> flush_loop env cb user 0 (length (tl_pending t)) s;
       t \<leftarrow> ts_obj s;
       Some (tls_put (t\<lparr>tl_pending := []\<rparr>) s)
     }
   }"

section \<open>The callbacks given to TCP\<close>

definition tcp_cb_open ::
  "('x, 's, 'w) tls_env \<Rightarrow> ('x, 's, 'w) tls_cb \<Rightarrow> ('x, 's, 'w) tls_user \<Rightarrow> ('x, 's, 'w) tls_st \<Rightarrow> ('x, 's, 'w) tls_st option" where
  "tcp_cb_open env cb user s = tls_start_handshake env cb user s"

definition tcp_cb_data ::
  "('x, 's, 'w) tls_env \<Rightarrow> ('x, 's, 'w) tls_cb \<Rightarrow> ('x, 's, 'w) tls_user \<Rightarrow> bytes \<Rightarrow> ('x, 's, 'w) tls_st \<Rightarrow> ('x, 's, 'w) tls_st option" where
  "tcp_cb_data env cb user data s = do {
     t \<leftarrow> ts_obj s;
     if tl_destroyed t then Some s
     else (case tl_ssl t of
       None \<Rightarrow> Some s
     | Some x \<Rightarrow> (case so_feed (te_ops env) data x of (rc, x) \<Rightarrow> do {
         let s = tls_put (t\<lparr>tl_ssl := Some x\<rparr>) s;
         if rc \<noteq> 0 then tls_fail user SEVENT_ERR_READ s
         else if \<not> tl_handshake_done t then tls_pump_handshake env cb user s
         else do {
           s \<leftarrow> tls_read_plain env cb user s;
           tls_flush_pending env cb user s
         }
       }))
   }"

definition tcp_cb_close ::
  "('x, 's, 'w) tls_env \<Rightarrow> ('x, 's, 'w) tls_cb \<Rightarrow> ('x, 's, 'w) tls_user \<Rightarrow> ('x, 's, 'w) tls_st \<Rightarrow> ('x, 's, 'w) tls_st option" where
  "tcp_cb_close env cb user s = do {
     t \<leftarrow> ts_obj s;
     if tl_destroyed t then Some s
     else do {
       let s = tls_put (t\<lparr>tl_ssl := map_option (so_peer_close (te_ops env)) (tl_ssl t)\<rparr>) s;
       if \<not> tl_handshake_done t then tls_fail user SEVENT_ERR_CONNECT s
       else tls_read_plain env cb user s
     }
   }"

definition tcp_cb_error ::
  "('x, 's, 'w) tls_user \<Rightarrow> int \<Rightarrow> ('x, 's, 'w) tls_st \<Rightarrow> ('x, 's, 'w) tls_st option" where
  "tcp_cb_error user err s = do {
     t \<leftarrow> ts_obj s;
     if tl_destroyed t then Some s
     else tls_fail user (if tl_handshake_done t then SEVENT_ERR_READ else SEVENT_ERR_CONNECT) s
   }"

text \<open>What a write on the TCP connection calls when the stream breaks.\<close>

fun tcp_cb :: "('x, 's, 'w) tls_env \<Rightarrow> ('x, 's, 'w) tls_cb \<Rightarrow> ('x, 's, 'w) tls_user \<Rightarrow> ('x, 's, 'w) tls_cb" where
  "tcp_cb env cb user StClose s = tcp_cb_close env cb user s"
| "tcp_cb env cb user (StError err) s = tcp_cb_error user err s"

section \<open>Public functions\<close>

definition tls_setup_recv ::
  "('x, 's, 'w) tls_env \<Rightarrow> nat \<Rightarrow> ('x, 's) tls_conn \<times> 'w \<Rightarrow> int \<times> ('x, 's) tls_conn \<times> 'w" where
  "tls_setup_recv env recv_buf_size = (\<lambda>(t, w).
     let cap = (if recv_buf_size \<noteq> 0 then recv_buf_size else SEVENT_TLS_RECV_DEFAULT)
     in if tl_recv_buf t \<and> tl_recv_cap t = cap then (0, (t, w))
        else (case te_malloc env cap w of (ok, w) \<Rightarrow>
          if \<not> ok then (-1, (t, w)) else (0, (t\<lparr>tl_recv_buf := True, tl_recv_cap := cap\<rparr>, w))))"

definition tls_init_of :: "sevent_stream_conn_init \<Rightarrow> stream_init" where
  "tls_init_of i = \<lparr>si_connect_timeout_ms = in_connect_timeout_ms i, si_recv_buf_size = in_recv_buf_size i\<rparr>"

definition sevent_tls_conn_open ::
  "('x, 's, 'w) tls_env \<Rightarrow> string option \<Rightarrow> 16 word \<Rightarrow> sevent_stream_conn_init option \<Rightarrow> ('x, 's, 'w) tls_st \<Rightarrow> (int \<times> ('x, 's, 'w) tls_st) option" where
  "sevent_tls_conn_open env host port init s = do {
     t \<leftarrow> ts_obj s;
     (if host = None \<or> init_refused init \<or> tl_established t \<or> tl_destroyed t then Some (SEVENT_ERR_INVAL, s)
      else let t = t\<lparr>tl_is_server := False, tl_established := True, tl_init := the init\<rparr> in
        case tls_setup_recv env (in_recv_buf_size (the init)) (t, ts_w s) of (rc, t, w) \<Rightarrow>
        if rc \<noteq> 0 then Some (SEVENT_ERR_NOMEM, (tls_put (tls_reset_after_term t) s)\<lparr>ts_w := w\<rparr>)
        else let verify_name = (case tl_hostname t of Some h \<Rightarrow> h | None \<Rightarrow> the host) in
          case te_malloc env (length verify_name + 1) w of (ok, w) \<Rightarrow>
          if \<not> ok then Some (SEVENT_ERR_NOMEM, (tls_put (tls_reset_after_term t) s)\<lparr>ts_w := w\<rparr>)
          else let t = t\<lparr>tl_hostname := Some verify_name\<rparr> in
            case te_tcp_open env (the host) port (tls_init_of (the init)) w of (rc, w) \<Rightarrow>
            Some (rc, (tls_put (if rc < 0 then tls_reset_after_term t else t) s)\<lparr>ts_w := w\<rparr>))
   }"

definition sevent_tls_conn_accept ::
  "('x, 's, 'w) tls_env \<Rightarrow> int \<Rightarrow> sevent_stream_conn_init option \<Rightarrow> ('x, 's, 'w) tls_st \<Rightarrow> (int \<times> ('x, 's, 'w) tls_st) option" where
  "sevent_tls_conn_accept env fd init s = do {
     t \<leftarrow> ts_obj s;
     (if init_refused init \<or> tl_established t \<or> tl_destroyed t \<or> fd < 0 then Some (SEVENT_ERR_INVAL, s)
      else let t = t\<lparr>tl_is_server := True, tl_established := True, tl_init := the init\<rparr> in
        case tls_setup_recv env (in_recv_buf_size (the init)) (t, ts_w s) of (rc, t, w) \<Rightarrow>
        if rc \<noteq> 0 then Some (SEVENT_ERR_NOMEM, (tls_put (tls_reset_after_term t) s)\<lparr>ts_w := w\<rparr>)
        else case te_tcp_accept env fd (tls_init_of (the init)) w of (rc, w) \<Rightarrow>
          Some (rc, (tls_put (if rc < 0 then tls_reset_after_term t else t) s)\<lparr>ts_w := w\<rparr>))
   }"

text \<open>The loop of \<open>sevent_tls_conn_write\<close> over what is left of the data.\<close>

partial_function (option) write_loop ::
  "('x, 's, 'w) tls_env \<Rightarrow> ('x, 's, 'w) tls_cb \<Rightarrow> ('x, 's, 'w) tls_user \<Rightarrow> bytes \<Rightarrow> ('x, 's, 'w) tls_st \<Rightarrow> (int \<times> ('x, 's, 'w) tls_st) option" where
  "write_loop env cb user data s =
     (if data = [] then Some (0, s)
      else do {
        t \<leftarrow> ts_obj s;
        (if tl_destroyed t then Some (SEVENT_ERR_INVAL, s)
         else (case tl_ssl t of
           None \<Rightarrow> Some (SEVENT_ERR_INVAL, s)
         | Some x \<Rightarrow> (case so_write (te_ops env) data x of (n, x) \<Rightarrow>
             let s = tls_put (t\<lparr>tl_ssl := Some x\<rparr>) s in
             if 0 < n then do {
               (sc, s) \<leftarrow> tls_send_cipher env cb user (tls_logged (TlsPlain (take (nat n) data)) s);
               if sc < 0 then Some (SEVENT_ERR_WRITE, s)
               else if 0 < sc then Some (SEVENT_ERR_INVAL, s)
               else write_loop env cb user (drop (nat n) data) s
             }
             else if n = 0 then
               if so_want (te_ops env) x = SEVENT_SSL_WANT_READ then do {
                 (ok, s) \<leftarrow> tls_park_write env data s;
                 Some (if ok then 0 else SEVENT_ERR_NOMEM, s)
               }
               else do {
                 (sc, s) \<leftarrow> tls_send_cipher env cb user s;
                 if sc < 0 then Some (SEVENT_ERR_WRITE, s)
                 else if 0 < sc then Some (SEVENT_ERR_INVAL, s)
                 else write_loop env cb user data s
               }
             else do { s \<leftarrow> tls_fail user SEVENT_ERR_WRITE s; Some (SEVENT_ERR_WRITE, s) })))
      })"

definition sevent_tls_conn_write ::
  "('x, 's, 'w) tls_env \<Rightarrow> ('x, 's, 'w) tls_cb \<Rightarrow> ('x, 's, 'w) tls_user \<Rightarrow> bytes \<Rightarrow> ('x, 's, 'w) tls_st \<Rightarrow> (int \<times> ('x, 's, 'w) tls_st) option" where
  "sevent_tls_conn_write env cb user data s = do {
     t \<leftarrow> ts_obj s;
     if tl_destroyed t \<or> \<not> tl_established t \<or> \<not> tl_handshake_done t \<or> tl_ssl t = None then Some (SEVENT_ERR_INVAL, s)
     else if tl_pending t \<noteq> [] then Some (SEVENT_ERR_INVAL, s)
     else write_loop env cb user data s
   }"

definition sevent_tls_conn_close :: "('x, 's, 'w) tls_env \<Rightarrow> ('x, 's, 'w) tls_st \<Rightarrow> ('x, 's, 'w) tls_st option" where
  "sevent_tls_conn_close env s = do {
     t \<leftarrow> ts_obj s;
     Some ((tls_put (tls_reset_after_term t) s)\<lparr>ts_w := te_tcp_close env (ts_w s)\<rparr>)
   }"

definition tls_cleanup :: "('x, 's, 'w) tls_env \<Rightarrow> ('x, 's, 'w) tls_st \<Rightarrow> ('x, 's, 'w) tls_st option" where
  "tls_cleanup env s = do {
     t \<leftarrow> ts_obj s;
     Some (s\<lparr>ts_obj := None, ts_w := te_tcp_destroy env (ts_w s)\<rparr>)
   }"

definition sevent_tls_conn_destroy :: "('x, 's, 'w) tls_env \<Rightarrow> ('x, 's, 'w) tls_st \<Rightarrow> ('x, 's, 'w) tls_st option" where
  "sevent_tls_conn_destroy env s = do {
     t \<leftarrow> ts_obj s;
     if tl_destroyed t then Some s
     else do {
       s \<leftarrow> sevent_tls_conn_close env (tls_put (t\<lparr>tl_destroyed := True\<rparr>) s);
       case te_post env (ts_w s) of (ok, w) \<Rightarrow>
         let s = s\<lparr>ts_w := w\<rparr> in if \<not> ok then tls_cleanup env s else Some s
     }
   }"

definition tls_s_shutdown :: "('x, 's, 'w) tls_env \<Rightarrow> int \<Rightarrow> ('x, 's, 'w) tls_st \<Rightarrow> (int \<times> ('x, 's, 'w) tls_st) option" where
  "tls_s_shutdown env flag s = do {
     t \<leftarrow> ts_obj s;
     (case te_tcp_shutdown env flag (ts_w s) of (rc, w) \<Rightarrow> Some (rc, s\<lparr>ts_w := w\<rparr>))
   }"

definition tls_op_set_callbacks :: "sevent_stream_conn_init \<Rightarrow> ('x, 's, 'w) tls_st \<Rightarrow> ('x, 's, 'w) tls_st option" where
  "tls_op_set_callbacks cb s = do {
     t \<leftarrow> ts_obj s;
     Some (tls_put (t\<lparr>tl_init := (tl_init t)\<lparr>in_user_data := in_user_data cb, in_on_open := in_on_open cb,
       in_on_data := in_on_data cb, in_on_close := in_on_close cb, in_on_error := in_on_error cb\<rparr>\<rparr>) s)
   }"

section \<open>Creation\<close>

definition tls_ssl_config :: "stream_conn_config \<Rightarrow> sevent_ssl_config" where
  "tls_ssl_config cfg = \<lparr>sf_ca_path = sc_ca_path cfg, sf_ca_pem = sc_ca_pem cfg, sf_cert_path = sc_cert_path cfg,
     sf_cert_pem = sc_cert_pem cfg, sf_key_path = sc_key_path cfg, sf_key_pem = sc_key_pem cfg,
     sf_enable_peer_verify = sc_enable_peer_verify cfg, sf_enable_hostname_verify = sc_enable_hostname_verify cfg\<rparr>"

definition init_zero :: sevent_stream_conn_init where
  "init_zero = \<lparr>in_user_data = 0, in_on_open = None, in_on_data = None, in_on_close = None, in_on_error = None,
     in_connect_timeout_ms = 0, in_recv_buf_size = 0\<rparr>"

definition sevent_tls_conn_create :: "('x, 's, 'w) tls_env \<Rightarrow> stream_conn_config \<Rightarrow> 'w \<Rightarrow> ('x, 's) tls_conn option \<times> 'w" where
  "sevent_tls_conn_create env cfg w =
     (case te_malloc env 1 w of (ok, w) \<Rightarrow>
      if \<not> ok then (None, w)
      else case te_tcp_create env w of (ok, w) \<Rightarrow>
      if \<not> ok then (None, w)
      else case te_malloc env (16 * 1024) w of (ok, w) \<Rightarrow>
      if \<not> ok then (None, te_tcp_destroy env w)
      else case (case sc_tls_hostname cfg of None \<Rightarrow> (True, w) | Some h \<Rightarrow> te_malloc env (length h + 1) w) of (ok, w) \<Rightarrow>
      if \<not> ok then (None, te_tcp_destroy env w)
      else case sevent_ssl_ctx_new env (tls_ssl_config cfg) w of
        (None, w) \<Rightarrow> (None, te_tcp_destroy env w)
      | (Some x, w) \<Rightarrow>
          (Some \<lparr>tl_ssl_ctx = x, tl_ssl = None, tl_is_server = False, tl_established = False, tl_handshake_done = False,
             tl_closed_notified = False, tl_destroyed = False, tl_hostname = sc_tls_hostname cfg, tl_init = init_zero,
             tl_recv_buf = False, tl_recv_cap = 0, tl_send_cap = 16 * 1024, tl_pending = [], tl_pending_cap = 0\<rparr>, w))"

definition sevent_tls_conn_get_ssl :: "('x, 's, 'w) tls_st \<Rightarrow> 's option option" where
  "sevent_tls_conn_get_ssl s = do { t \<leftarrow> ts_obj s; Some (tl_ssl t) }"

end
