(* ===== verification/Tls_Safety.thy ===== *)
theory Tls_Safety
  imports Tls_Conn
begin

text \<open>
  Lemmas on \<^verbatim>\<open>src/tls_conn.c\<close>: what is assumed of the TCP connection and of the TLS engine, what a
  callback may change, and that every loop and every public function returns with the object intact.
\<close>

section \<open>What is assumed of the layers below\<close>

text \<open>
  The TCP connection: outside the state open a write is refused, a write that notifies also fails
  and leaves the connection closed, and no call opens it before the loop runs. Posting succeeds.
\<close>

definition tls_env_ok :: "('w \<Rightarrow> bool) \<Rightarrow> ('x, 's, 'w) tls_env \<Rightarrow> bool" where
  "tls_env_ok up env \<longleftrightarrow>
     (\<forall>d w. \<not> up w \<longrightarrow> te_tcp_write env d w = (SEVENT_ERR_INVAL, None, w))
   \<and> (\<forall>d w rc e w'. te_tcp_write env d w = (rc, Some e, w') \<longrightarrow> \<not> up w' \<and> rc \<noteq> 0 \<and> rc \<noteq> SEVENT_ERR_INVAL)
   \<and> (\<forall>d w. up (snd (snd (te_tcp_write env d w))) \<longrightarrow> up w)
   \<and> (\<forall>h p i w. up (snd (te_tcp_open env h p i w)) \<longrightarrow> up w)
   \<and> (\<forall>fd i w. up (snd (te_tcp_accept env fd i w)) \<longrightarrow> up w)
   \<and> (\<forall>f w. up (snd (te_tcp_shutdown env f w)) \<longrightarrow> up w)
   \<and> (\<forall>w. up (te_tcp_close env w) \<longrightarrow> up w)
   \<and> (\<forall>n w. up (snd (te_malloc env n w)) \<longrightarrow> up w)
   \<and> (\<forall>w. fst (te_post env w) \<and> (up (snd (te_post env w)) \<longrightarrow> up w))
   \<and> (\<forall>x b h w. up (snd (so_ssl_new (te_ops env) x b h w)) \<longrightarrow> up w)"

lemma tls_env_okD:
  assumes "tls_env_ok up env"
  shows "\<not> up w \<Longrightarrow> te_tcp_write env d w = (SEVENT_ERR_INVAL, None, w)"
    and "te_tcp_write env d w = (rc, Some e, w') \<Longrightarrow> \<not> up w' \<and> rc \<noteq> 0 \<and> rc \<noteq> SEVENT_ERR_INVAL"
    and "up (snd (snd (te_tcp_write env d w))) \<Longrightarrow> up w"
    and "up (snd (te_tcp_open env h p i w)) \<Longrightarrow> up w"
    and "up (snd (te_tcp_accept env fd i w)) \<Longrightarrow> up w"
    and "up (snd (te_tcp_shutdown env f w)) \<Longrightarrow> up w"
    and "up (te_tcp_close env w) \<Longrightarrow> up w"
    and "up (snd (te_malloc env n w)) \<Longrightarrow> up w"
    and "fst (te_post env w)" and "up (snd (te_post env w)) \<Longrightarrow> up w"
    and "up (snd (so_ssl_new (te_ops env) x b host w)) \<Longrightarrow> up w"
  using assms [unfolded tls_env_ok_def] by metis+

text \<open>
  The engine makes progress: it has finitely much output to drain (\<open>dr\<close>) and plain text to read
  (\<open>rd\<close>), asks finitely often for its output to be drained during the handshake (\<open>hs\<close>), and refuses
  finitely often to take more plain text (\<open>wr\<close>). It takes no more than it is given.
\<close>

definition engine_ok :: "('x, 's, 'w) sevent_ssl_ops \<Rightarrow> ('s \<Rightarrow> nat) \<Rightarrow> ('s \<Rightarrow> nat) \<Rightarrow> ('s \<Rightarrow> nat) \<Rightarrow> ('s \<Rightarrow> nat) \<Rightarrow> bool" where
  "engine_ok ops dr rd hs wr \<longleftrightarrow>
     (\<forall>cap x out x'. so_drain ops cap x = (out, x') \<longrightarrow> (out \<noteq> [] \<longrightarrow> dr x' < dr x) \<and> rd x' \<le> rd x \<and> hs x' \<le> hs x \<and> wr x' \<le> wr x)
   \<and> (\<forall>cap x r d x'. so_read ops cap x = (r, d, x') \<longrightarrow> rd x' \<le> rd x \<and> (0 < r \<longrightarrow> rd x' < rd x))
   \<and> (\<forall>x. rd (so_peer_close ops x) \<le> rd x)
   \<and> (\<forall>x rc x'. so_handshake ops x = (rc, x') \<longrightarrow> rc = SEVENT_SSL_WANT_WRITE \<longrightarrow> hs x' < hs x)
   \<and> (\<forall>d x n x'. d \<noteq> [] \<longrightarrow> so_write ops d x = (n, x') \<longrightarrow> n \<le> int (length d) \<and> rd x' \<le> rd x \<and> (n = 0 \<longrightarrow> wr x' < wr x))"

section \<open>What callbacks may change\<close>

text \<open>
  Callbacks reach the connection through its public functions. The object stays allocated, the TCP
  connection is not opened, and an engine object is at most dropped or written to.
\<close>

definition keeps_tls :: "('w \<Rightarrow> bool) \<Rightarrow> ('s \<Rightarrow> nat) \<Rightarrow> ('x, 's, 'w) tls_st \<Rightarrow> ('x, 's, 'w) tls_st \<Rightarrow> bool" where
  "keeps_tls up rd s s' \<longleftrightarrow> (\<exists>t t'. ts_obj s = Some t \<and> ts_obj s' = Some t' \<and> (up (ts_w s') \<longrightarrow> up (ts_w s))
     \<and> (\<forall>x'. tl_ssl t' = Some x' \<longrightarrow> (\<exists>x. tl_ssl t = Some x \<and> rd x' \<le> rd x)))"

lemma keeps_tls_refl [simp]: "ts_obj s = Some t \<Longrightarrow> keeps_tls up rd s s"
  by (auto simp: keeps_tls_def)

lemma keeps_tls_trans: "keeps_tls up rd s s' \<Longrightarrow> keeps_tls up rd s' s'' \<Longrightarrow> keeps_tls up rd s s''"
proof -
  assume "keeps_tls up rd s s'" "keeps_tls up rd s' s''"
  then obtain t t' t'' where o: "ts_obj s = Some t" "ts_obj s' = Some t'" "ts_obj s'' = Some t''" "up (ts_w s') \<longrightarrow> up (ts_w s)"
    "up (ts_w s'') \<longrightarrow> up (ts_w s')" "\<And>x'. tl_ssl t' = Some x' \<Longrightarrow> \<exists>x. tl_ssl t = Some x \<and> rd x' \<le> rd x"
    "\<And>x'. tl_ssl t'' = Some x' \<Longrightarrow> \<exists>x. tl_ssl t' = Some x \<and> rd x' \<le> rd x"
    unfolding keeps_tls_def by auto
  have "\<exists>x. tl_ssl t = Some x \<and> rd x' \<le> rd x" if "tl_ssl t'' = Some x'" for x'
    using o(7) [OF that] o(6) order_trans by blast
  then show ?thesis using o unfolding keeps_tls_def by blast
qed

lemma keeps_tlsI:
  "ts_obj s = Some t \<Longrightarrow> ts_obj s' = Some t' \<Longrightarrow> (up (ts_w s') \<Longrightarrow> up (ts_w s))
    \<Longrightarrow> (\<And>x'. tl_ssl t' = Some x' \<Longrightarrow> \<exists>x. tl_ssl t = Some x \<and> rd x' \<le> rd x) \<Longrightarrow> keeps_tls up rd s s'"
  by (auto simp: keeps_tls_def)

definition tls_callbacks_ok :: "('w \<Rightarrow> bool) \<Rightarrow> ('s \<Rightarrow> nat) \<Rightarrow> ('x, 's, 'w) tls_user \<Rightarrow> bool" where
  "tls_callbacks_ok up rd user \<longleftrightarrow> (\<forall>ev s. ts_obj s \<noteq> None \<longrightarrow> returns (user ev s) (keeps_tls up rd s))"

definition tls_cb_ok :: "('w \<Rightarrow> bool) \<Rightarrow> ('s \<Rightarrow> nat) \<Rightarrow> ('x, 's, 'w) tls_cb \<Rightarrow> bool" where
  "tls_cb_ok up rd cb \<longleftrightarrow> (\<forall>e s. ts_obj s \<noteq> None \<longrightarrow> \<not> up (ts_w s) \<longrightarrow> returns (cb e s) (keeps_tls up rd s))"

lemma tls_put_sel [simp]:
  "ts_obj (tls_put t s) = Some t" "ts_w (tls_put t s) = ts_w s" "ts_log (tls_put t s) = ts_log s"
  "ts_obj (tls_logged a s) = ts_obj s" "ts_w (tls_logged a s) = ts_w s" "ts_log (tls_logged a s) = ts_log s @ [a]"
  by (simp_all add: tls_put_def tls_logged_def)

lemma reset_sel [simp]:
  "tl_ssl (tls_reset_after_term t) = None" "tl_init (tls_reset_after_term t) = tl_init t"
  "tl_destroyed (tls_reset_after_term t) = tl_destroyed t" "tl_pending (tls_reset_after_term t) = []"
  "tl_established (tls_reset_after_term t) = False" "tl_hostname (tls_reset_after_term t) = tl_hostname t"
  by (simp_all add: tls_reset_after_term_def)

lemma tls_notify_ok:
  assumes u: "tls_callbacks_ok up rd user" and k: "keeps_tls up rd s0 s"
  shows "returns (tls_notify user f ev s) (keeps_tls up rd s0)"
proof -
  have o: "ts_obj (tls_logged (TlsNotify ev) s) \<noteq> None" using k by (auto simp: keeps_tls_def)
  have k': "keeps_tls up rd s0 (tls_logged (TlsNotify ev) s)" using k by (simp add: keeps_tls_def)
  have "returns (user ev (tls_logged (TlsNotify ev) s)) (keeps_tls up rd s0)"
    by (rule returns_mono [OF u [unfolded tls_callbacks_ok_def, rule_format, OF o]]) (rule keeps_tls_trans [OF k'])
  then show ?thesis using k by (simp add: tls_notify_def)
qed

text \<open>Anything that drops the engine object and leaves the world alone.\<close>

lemma keeps_dropped: "ts_obj s = Some t \<Longrightarrow> tl_ssl t' = None \<Longrightarrow> keeps_tls up rd s (tls_put t' s)"
  by (auto simp: keeps_tls_def)

lemma tls_fail_ok:
  assumes "tls_callbacks_ok up rd user" "ts_obj s = Some t"
  shows "returns (tls_fail user err s) (keeps_tls up rd s)"
  using assms keeps_dropped [OF assms(2), of "tls_reset_after_term t" up rd]
    tls_notify_ok [OF assms(1) keeps_dropped [OF assms(2)], of "(tls_reset_after_term t)\<lparr>tl_closed_notified := True\<rparr>"]
  by (simp add: tls_fail_def Let_def)

lemma tls_notify_close_ok:
  assumes "tls_callbacks_ok up rd user" "ts_obj s = Some t"
  shows "returns (tls_notify_close user s) (keeps_tls up rd s)"
  using assms tls_notify_ok [OF assms(1) keeps_dropped [OF assms(2)], of "(tls_reset_after_term t)\<lparr>tl_closed_notified := True\<rparr>"]
  by (simp add: tls_notify_close_def)

section \<open>Draining\<close>

text \<open>What a drain that called nobody back leaves: only the engine object and the world moved on.\<close>

definition drained ::
  "('w \<Rightarrow> bool) \<Rightarrow> ('s \<Rightarrow> nat) \<Rightarrow> ('s \<Rightarrow> nat) \<Rightarrow> ('s \<Rightarrow> nat) \<Rightarrow> ('x, 's, 'w) tls_st \<Rightarrow> ('x, 's, 'w) tls_st \<Rightarrow> bool" where
  "drained up rd hs wr s s' \<longleftrightarrow> (\<exists>t x x' l. ts_obj s = Some t \<and> tl_ssl t = Some x \<and> ts_obj s' = Some (t\<lparr>tl_ssl := Some x'\<rparr>)
     \<and> rd x' \<le> rd x \<and> hs x' \<le> hs x \<and> wr x' \<le> wr x \<and> (up (ts_w s') \<longrightarrow> up (ts_w s))
     \<and> ts_log s' = ts_log s @ l \<and> (\<forall>a \<in> set l. \<exists>d. a = TlsCipher d))"

lemma drained_keeps: "drained up rd hs wr s s' \<Longrightarrow> keeps_tls up rd s s'"
  by (auto simp: drained_def keeps_tls_def)

lemma drained_trans:
  assumes "drained up rd hs wr s s'" "drained up rd hs wr s' s''"
  shows "drained up rd hs wr s s''"
proof -
  obtain t x x' l where 1: "ts_obj s = Some t" "tl_ssl t = Some x" "ts_obj s' = Some (t\<lparr>tl_ssl := Some x'\<rparr>)"
    "rd x' \<le> rd x" "hs x' \<le> hs x" "wr x' \<le> wr x" "up (ts_w s') \<longrightarrow> up (ts_w s)" "ts_log s' = ts_log s @ l" "\<forall>a \<in> set l. \<exists>d. a = TlsCipher d"
    using assms(1) unfolding drained_def by blast
  obtain x'' l' where 2: "ts_obj s'' = Some (t\<lparr>tl_ssl := Some x''\<rparr>)"
    "rd x'' \<le> rd x'" "hs x'' \<le> hs x'" "wr x'' \<le> wr x'" "up (ts_w s'') \<longrightarrow> up (ts_w s')" "ts_log s'' = ts_log s' @ l'" "\<forall>a \<in> set l'. \<exists>d. a = TlsCipher d"
    using assms(2) 1(3) unfolding drained_def by auto
  show ?thesis unfolding drained_def
    by (rule exI [of _ t], rule exI [of _ x], rule exI [of _ x''], rule exI [of _ "l @ l'"]) (use 1 2 in auto)
qed

lemma drain_loop_ok:
  fixes s :: "('x, 's, 'w) tls_st"
  assumes e: "tls_env_ok up env" and g: "engine_ok (te_ops env) dr rd hs wr" and u: "tls_callbacks_ok up rd user"
  shows "up (ts_w s) \<longrightarrow> tls_cb_ok up rd cb \<Longrightarrow> ts_obj s = Some t \<Longrightarrow> tl_ssl t = Some x \<Longrightarrow>
    returns (drain_loop env cb user s) (\<lambda>(rc, s'). keeps_tls up rd s s' \<and> (0 \<le> rc \<longrightarrow> drained up rd hs wr s s'))"
proof (induction "dr x" arbitrary: s t x rule: less_induct)
  case (less x)
  obtain out x1 where d: "so_drain (te_ops env) (tl_send_cap t) x = (out, x1)" by (rule prod.exhaust)
  have m: "out \<noteq> [] \<longrightarrow> dr x1 < dr x" "rd x1 \<le> rd x" "hs x1 \<le> hs x" "wr x1 \<le> wr x" using g d unfolding engine_ok_def by blast+
  let ?s1 = "tls_put (t\<lparr>tl_ssl := Some x1\<rparr>) s"
  show ?case
  proof (cases "out = []")
    case True
    have "drained up rd hs wr s ?s1" unfolding drained_def using less.prems m by auto
    then show ?thesis using True d less.prems drained_keeps by (subst drain_loop.simps) auto
  next
    case False
    obtain wrc ev w where w: "te_tcp_write env out (ts_w s) = (wrc, ev, w)" by (metis prod_cases3)
    have up: "up w \<Longrightarrow> up (ts_w s)" using tls_env_okD(3) [OF e, of out "ts_w s"] w by simp
    define s2 where "s2 = (if wrc = 0 then tls_logged (TlsCipher out) (?s1\<lparr>ts_w := w\<rparr>) else ?s1\<lparr>ts_w := w\<rparr>)"
    have o2: "ts_obj s2 = Some (t\<lparr>tl_ssl := Some x1\<rparr>)" "ts_w s2 = w" by (simp_all add: s2_def)
    have d2: "drained up rd hs wr s s2"
      unfolding drained_def using less.prems m up by (auto simp: s2_def)
    have k2: "keeps_tls up rd s s2" by (rule drained_keeps [OF d2])
    show ?thesis
    proof (cases ev)
      case None
      consider "wrc = SEVENT_ERR_INVAL" | "wrc \<noteq> SEVENT_ERR_INVAL" "wrc \<noteq> 0" | "wrc = 0" by (auto simp: err_defs)
      then show ?thesis
      proof cases
        case 1
        then show ?thesis using False d w None less.prems d2 k2 by (subst drain_loop.simps) (simp add: s2_def Let_def err_defs)
      next
        case 2
        have "returns (tls_fail user SEVENT_ERR_WRITE s2) (keeps_tls up rd s)"
          by (rule returns_mono [OF tls_fail_ok [OF u o2(1)]]) (rule keeps_tls_trans [OF k2])
        then show ?thesis using 2 False d w None less.prems by (subst drain_loop.simps) (simp add: s2_def Let_def)
      next
        case 3
        have lt: "dr x1 < dr x" using m False by simp
        have "returns (drain_loop env cb user s2) (\<lambda>(rc, s'). keeps_tls up rd s s' \<and> (0 \<le> rc \<longrightarrow> drained up rd hs wr s s'))"
          by (rule returns_mono [OF less.hyps [OF lt _ o2(1)]])
            (use less.prems(1) up o2 keeps_tls_trans [OF k2] drained_trans [OF d2] in auto)
        then show ?thesis using 3 False d w None less.prems by (subst drain_loop.simps) (simp add: s2_def Let_def err_defs)
      qed
    next
      case (Some e')
      then have b: "\<not> up w \<and> wrc \<noteq> 0 \<and> wrc \<noteq> SEVENT_ERR_INVAL" using tls_env_okD(2) [OF e w [unfolded Some]] by simp
      have us: "up (ts_w s)" using tls_env_okD(1) [OF e, of "ts_w s" out] w Some by auto
      have "returns (cb e' s2) (\<lambda>s3. returns (tls_fail user SEVENT_ERR_WRITE s3) (keeps_tls up rd s))"
      proof (rule returns_mono [where P = "keeps_tls up rd s2"])
        show "returns (cb e' s2) (keeps_tls up rd s2)" using less.prems(1) us b o2 by (simp add: tls_cb_ok_def)
        fix s3 assume k3: "keeps_tls up rd s2 s3"
        then obtain t3 where t3: "ts_obj s3 = Some t3" by (auto simp: keeps_tls_def)
        show "returns (tls_fail user SEVENT_ERR_WRITE s3) (keeps_tls up rd s)"
          by (rule returns_mono [OF tls_fail_ok [OF u t3]]) (rule keeps_tls_trans [OF keeps_tls_trans [OF k2 k3]])
      qed
      then show ?thesis using b False d w Some less.prems by (subst drain_loop.simps) (simp add: s2_def Let_def)
    qed
  qed
qed

lemma send_cipher_ok:
  assumes "tls_env_ok up env" "engine_ok (te_ops env) dr rd hs wr" "tls_callbacks_ok up rd user"
    "up (ts_w s) \<longrightarrow> tls_cb_ok up rd cb" "ts_obj s = Some t" "tl_ssl t = Some x"
  shows "returns (tls_send_cipher env cb user s) (\<lambda>(rc, s'). keeps_tls up rd s s' \<and> (0 \<le> rc \<longrightarrow> drained up rd hs wr s s'))"
  using drain_loop_ok [OF assms] assms(5,6) by (simp add: tls_send_cipher_def)

section \<open>The loops\<close>

lemma read_plain_ok:
  fixes s :: "('x, 's, 'w) tls_st"
  assumes e: "tls_env_ok up env" and g: "engine_ok (te_ops env) dr rd hs wr" and u: "tls_callbacks_ok up rd user"
  shows "up (ts_w s) \<longrightarrow> tls_cb_ok up rd cb \<Longrightarrow> ts_obj s = Some t \<Longrightarrow>
    returns (tls_read_plain env cb user s) (keeps_tls up rd s)"
proof (induction "case tl_ssl t of None \<Rightarrow> 0 | Some x \<Rightarrow> rd x" arbitrary: s t rule: less_induct)
  case less
  show ?case
  proof (cases "tl_destroyed t \<or> tl_ssl t = None")
    case True
    then show ?thesis using less.prems by (subst tls_read_plain.simps) auto
  next
    case False
    then obtain x where x: "tl_ssl t = Some x" by auto
    obtain r data x1 where r: "so_read (te_ops env) (tl_recv_cap t) x = (r, data, x1)" by (metis prod_cases3)
    have m: "rd x1 \<le> rd x" "0 < r \<longrightarrow> rd x1 < rd x" using g r unfolding engine_ok_def by blast+
    let ?s1 = "tls_put (t\<lparr>tl_ssl := Some x1\<rparr>) s"
    have k1: "keeps_tls up rd s ?s1" by (rule keeps_tlsI [OF less.prems(2)]) (use x m in auto)
    have "returns (tls_send_cipher env cb user ?s1) (\<lambda>(rc, s'). keeps_tls up rd ?s1 s' \<and> (0 \<le> rc \<longrightarrow> drained up rd hs wr ?s1 s'))"
      by (rule send_cipher_ok [OF e g u]) (use less.prems in auto)
    then obtain rc s2 where c: "tls_send_cipher env cb user ?s1 = Some (rc, s2)" "keeps_tls up rd ?s1 s2" "0 \<le> rc \<longrightarrow> drained up rd hs wr ?s1 s2"
      by (auto elim!: returnsE)
    note k2 = keeps_tls_trans [OF k1 c(2)]
    show ?thesis
    proof (cases "rc < 0")
      case True
      then show ?thesis using False x r c less.prems k2 by (subst tls_read_plain.simps) auto
    next
      case nn: False
      then obtain x2 where t2: "ts_obj s2 = Some (t\<lparr>tl_ssl := Some x2\<rparr>)" "rd x2 \<le> rd x1" using c(3) by (auto simp: drained_def)
      consider "0 < r" | "r = 0" | "r < 0" by linarith
      then show ?thesis
      proof cases
        case 1
        have "returns (tls_notify user (in_on_data (tl_init t)) (EvData (take (nat r) data)) s2) (\<lambda>s3. returns (tls_read_plain env cb user s3) (keeps_tls up rd s))"
        proof (rule returns_mono [OF tls_notify_ok [OF u keeps_tls_refl [OF t2(1)]]])
          fix s3 assume k3: "keeps_tls up rd s2 s3"
          then obtain t3 where t3: "ts_obj s3 = Some t3" "\<forall>y. tl_ssl t3 = Some y \<longrightarrow> rd y \<le> rd x2" "up (ts_w s3) \<longrightarrow> up (ts_w s2)"
            using t2(1) by (auto simp: keeps_tls_def)
          note k = keeps_tls_trans [OF k2 k3]
          have lt: "(case tl_ssl t3 of None \<Rightarrow> 0 | Some x \<Rightarrow> rd x) < (case tl_ssl t of None \<Rightarrow> 0 | Some x \<Rightarrow> rd x)"
            using t3(2) t2(2) m 1 x by (cases "tl_ssl t3") auto
          have h: "up (ts_w s3) \<longrightarrow> tls_cb_ok up rd cb" using less.prems k by (auto simp: keeps_tls_def)
          show "returns (tls_read_plain env cb user s3) (keeps_tls up rd s)"
            by (rule returns_mono [OF less.hyps [OF lt h t3(1)]]) (rule keeps_tls_trans [OF k])
        qed
        then show ?thesis using 1 nn False x r c t2 less.prems by (subst tls_read_plain.simps) auto
      next
        case 2
        have "returns (tls_notify_close user s2) (keeps_tls up rd s)"
          by (rule returns_mono [OF tls_notify_close_ok [OF u t2(1)]]) (rule keeps_tls_trans [OF k2])
        then show ?thesis using 2 nn False x r c less.prems by (subst tls_read_plain.simps) auto
      next
        case 3
        have "returns (tls_fail user SEVENT_ERR_READ s2) (keeps_tls up rd s)"
          by (rule returns_mono [OF tls_fail_ok [OF u t2(1)]]) (rule keeps_tls_trans [OF k2])
        then show ?thesis using 3 nn False x r c t2 k2 less.prems by (subst tls_read_plain.simps) auto
      qed
    qed
  qed
qed

lemma pump_handshake_ok:
  fixes s :: "('x, 's, 'w) tls_st"
  assumes e: "tls_env_ok up env" and g: "engine_ok (te_ops env) dr rd hs wr" and u: "tls_callbacks_ok up rd user"
  shows "up (ts_w s) \<longrightarrow> tls_cb_ok up rd cb \<Longrightarrow> ts_obj s = Some t \<Longrightarrow>
    returns (tls_pump_handshake env cb user s) (\<lambda>s'. ts_obj s' \<noteq> None)"
proof (induction "case tl_ssl t of None \<Rightarrow> 0 | Some x \<Rightarrow> hs x" arbitrary: s t rule: less_induct)
  case less
  show ?case
  proof (cases "tl_destroyed t \<or> tl_ssl t = None")
    case True
    then show ?thesis using less.prems by (subst tls_pump_handshake.simps) auto
  next
    case False
    then obtain x where x: "tl_ssl t = Some x" by auto
    obtain r x1 where r: "so_handshake (te_ops env) x = (r, x1)" by (rule prod.exhaust)
    have m: "r = SEVENT_SSL_WANT_WRITE \<longrightarrow> hs x1 < hs x" using g r unfolding engine_ok_def by blast
    let ?s1 = "tls_put (t\<lparr>tl_ssl := Some x1\<rparr>) s"
    have "returns (tls_send_cipher env cb user ?s1) (\<lambda>(rc, s'). keeps_tls up rd ?s1 s' \<and> (0 \<le> rc \<longrightarrow> drained up rd hs wr ?s1 s'))"
      by (rule send_cipher_ok [OF e g u]) (use less.prems in auto)
    then obtain rc s2 where c: "tls_send_cipher env cb user ?s1 = Some (rc, s2)" "keeps_tls up rd ?s1 s2" "0 \<le> rc \<longrightarrow> drained up rd hs wr ?s1 s2"
      by (auto elim!: returnsE)
    show ?thesis
    proof (cases "rc < 0")
      case True
      then show ?thesis using False x r c less.prems by (subst tls_pump_handshake.simps) (auto simp: keeps_tls_def)
    next
      case nn: False
      then obtain x2 where t2: "ts_obj s2 = Some (t\<lparr>tl_ssl := Some x2\<rparr>)" "hs x2 \<le> hs x1" "up (ts_w s2) \<longrightarrow> up (ts_w s)"
        using c(3) by (auto simp: drained_def)
      have h2: "up (ts_w s2) \<longrightarrow> tls_cb_ok up rd cb" using less.prems t2(3) by blast
      consider "r = 0" | "r = SEVENT_SSL_WANT_READ" | "r = SEVENT_SSL_WANT_WRITE"
        | "r \<noteq> 0" "r \<noteq> SEVENT_SSL_WANT_READ" "r \<noteq> SEVENT_SSL_WANT_WRITE" by blast
      then show ?thesis
      proof cases
        case 1
        let ?s3 = "tls_put (t\<lparr>tl_ssl := Some x2, tl_handshake_done := True\<rparr>) s2"
        have "returns (tls_notify user (in_on_open (tl_init t)) EvOpen ?s3) (\<lambda>s4. returns (tls_read_plain env cb user s4) (\<lambda>s'. ts_obj s' \<noteq> None))"
        proof (rule returns_mono [OF tls_notify_ok [OF u keeps_tls_refl [OF tls_put_sel(1)]]])
          fix s4 assume "keeps_tls up rd ?s3 s4"
          then obtain t4 where t4: "ts_obj s4 = Some t4" "up (ts_w s4) \<longrightarrow> tls_cb_ok up rd cb" using h2 by (auto simp: keeps_tls_def)
          show "returns (tls_read_plain env cb user s4) (\<lambda>s'. ts_obj s' \<noteq> None)"
            by (rule returns_mono [OF read_plain_ok [OF e g u t4(2,1)]]) (auto simp: keeps_tls_def)
        qed
        then show ?thesis using 1 nn False x r c t2 less.prems by (subst tls_pump_handshake.simps) auto
      next
        case 2
        then show ?thesis using nn False x r c t2 less.prems
          by (subst tls_pump_handshake.simps) (auto simp: SEVENT_SSL_WANT_READ_def)
      next
        case 3
        have lt: "(case tl_ssl (t\<lparr>tl_ssl := Some x2\<rparr>) of None \<Rightarrow> 0 | Some x \<Rightarrow> hs x) < (case tl_ssl t of None \<Rightarrow> 0 | Some x \<Rightarrow> hs x)"
          using t2 m 3 x by auto
        show ?thesis using 3 nn False x r c less.prems less.hyps [OF lt h2 t2(1)]
          by (subst tls_pump_handshake.simps) (auto simp: SEVENT_SSL_WANT_READ_def SEVENT_SSL_WANT_WRITE_def)
      next
        case 4
        have "returns (tls_fail user SEVENT_ERR_HANDSHAKE s2) (\<lambda>s'. ts_obj s' \<noteq> None)"
          by (rule returns_mono [OF tls_fail_ok [OF u t2(1)]]) (auto simp: keeps_tls_def)
        then show ?thesis using 4 nn False x r c less.prems by (subst tls_pump_handshake.simps) auto
      qed
    qed
  qed
qed

text \<open>The plain text that the history says the engine took.\<close>

fun plain_of :: "tls_act list \<Rightarrow> bytes" where
  "plain_of [] = []"
| "plain_of (TlsPlain d # l) = d @ plain_of l"
| "plain_of (_ # l) = plain_of l"

lemma plain_of_append [simp]: "plain_of (l @ l') = plain_of l @ plain_of l'"
  by (induction l rule: plain_of.induct) simp_all

lemma plain_of_cipher: "\<forall>a \<in> set l. \<exists>d. a = TlsCipher d \<Longrightarrow> plain_of l = []"
  by (induction l rule: plain_of.induct) auto

lemma drained_plain: "drained up rd hs wr s s' \<Longrightarrow> plain_of (ts_log s') = plain_of (ts_log s)"
  unfolding drained_def using plain_of_cipher by fastforce

text \<open>One step of a loop that writes: the engine takes a part and its output is drained.\<close>

lemma write_step_ok:
  assumes e: "tls_env_ok up env" and g: "engine_ok (te_ops env) dr rd hs wr" and u: "tls_callbacks_ok up rd user"
    and c: "up (ts_w s) \<longrightarrow> tls_cb_ok up rd cb" and o: "ts_obj s = Some t" "tl_ssl t = Some x" and x1: "rd x1 \<le> rd x"
    and s1: "s1 = tls_put (t\<lparr>tl_ssl := Some x1\<rparr>) s \<or> s1 = tls_logged a (tls_put (t\<lparr>tl_ssl := Some x1\<rparr>) s)"
  shows "\<exists>sc s2. tls_send_cipher env cb user s1 = Some (sc, s2) \<and> keeps_tls up rd s s2
    \<and> (0 \<le> sc \<longrightarrow> (\<exists>x2. ts_obj s2 = Some (t\<lparr>tl_ssl := Some x2\<rparr>) \<and> wr x2 \<le> wr x1 \<and> rd x2 \<le> rd x \<and> (up (ts_w s2) \<longrightarrow> up (ts_w s))
        \<and> plain_of (ts_log s2) = plain_of (ts_log s1)))"
proof -
  have o1: "ts_obj s1 = Some (t\<lparr>tl_ssl := Some x1\<rparr>)" "ts_w s1 = ts_w s" using s1 by auto
  have k1: "keeps_tls up rd s s1" by (rule keeps_tlsI [OF o(1) o1(1)]) (use o x1 o1 in auto)
  have "returns (tls_send_cipher env cb user s1) (\<lambda>(rc, s'). keeps_tls up rd s1 s' \<and> (0 \<le> rc \<longrightarrow> drained up rd hs wr s1 s'))"
    by (rule send_cipher_ok [OF e g u _ o1(1)]) (use c o1 in auto)
  then obtain sc s2 where 2: "tls_send_cipher env cb user s1 = Some (sc, s2)" "keeps_tls up rd s1 s2" "0 \<le> sc \<longrightarrow> drained up rd hs wr s1 s2"
    by (auto elim!: returnsE)
  have "\<exists>x2. ts_obj s2 = Some (t\<lparr>tl_ssl := Some x2\<rparr>) \<and> wr x2 \<le> wr x1 \<and> rd x2 \<le> rd x \<and> (up (ts_w s2) \<longrightarrow> up (ts_w s))
      \<and> plain_of (ts_log s2) = plain_of (ts_log s1)" if "0 \<le> sc"
  proof -
    have d: "drained up rd hs wr s1 s2" using 2(3) that by simp
    then obtain x2 where "ts_obj s2 = Some (t\<lparr>tl_ssl := Some x2\<rparr>)" "wr x2 \<le> wr x1" "rd x2 \<le> rd x1" "up (ts_w s2) \<longrightarrow> up (ts_w s1)"
      using o1(1) unfolding drained_def by auto
    then show ?thesis using drained_plain [OF d] x1 o1(2) by (metis order_trans)
  qed
  then show ?thesis using 2(1) keeps_tls_trans [OF k1 2(2)] by blast
qed

lemma flush_loop_ok:
  fixes s :: "('x, 's, 'w) tls_st"
  assumes e: "tls_env_ok up env" and g: "engine_ok (te_ops env) dr rd hs wr" and u: "tls_callbacks_ok up rd user"
  shows "up (ts_w s) \<longrightarrow> tls_cb_ok up rd cb \<Longrightarrow> ts_obj s = Some t \<Longrightarrow> off + left \<le> length (tl_pending t) \<Longrightarrow>
    returns (flush_loop env cb user off left s) (keeps_tls up rd s)"
proof (induction "(left, case tl_ssl t of None \<Rightarrow> 0 | Some x \<Rightarrow> wr x)" arbitrary: s t off left rule: wf_induct_rule [OF wf_lex_prod [OF wf_less_than wf_less_than]])
  case (1 t left s off)
  show ?case
  proof (cases "left = 0 \<or> tl_destroyed t \<or> tl_ssl t = None")
    case True
    then show ?thesis using "1.prems" by (subst flush_loop.simps) auto
  next
    case False
    then obtain x where x: "tl_ssl t = Some x" by auto
    define data where "data = take left (drop off (tl_pending t))"
    obtain n x1 where w: "so_write (te_ops env) data x = (n, x1)" by (rule prod.exhaust)
    have len: "length data = left" using "1.prems"(3) by (simp add: data_def)
    have m: "n \<le> int left" "rd x1 \<le> rd x" "n = 0 \<longrightarrow> wr x1 < wr x" using g w len False unfolding engine_ok_def by fastforce+
    let ?s1 = "tls_put (t\<lparr>tl_ssl := Some x1\<rparr>) s"
    consider "0 < n" | "n = 0" | "n < 0" by linarith
    then show ?thesis
    proof cases
      case c1: 1
      obtain sc s2 where c: "tls_send_cipher env cb user (tls_logged (TlsPlain (take (nat n) (drop off (tl_pending t)))) ?s1) = Some (sc, s2)" "keeps_tls up rd s s2"
        "0 \<le> sc \<longrightarrow> (\<exists>x2. ts_obj s2 = Some (t\<lparr>tl_ssl := Some x2\<rparr>) \<and> (up (ts_w s2) \<longrightarrow> up (ts_w s)))"
        using write_step_ok [OF e g u "1.prems"(1,2) x m(2) disjI2 [OF refl]] by blast
      show ?thesis
      proof (cases "sc = 0")
        case True
        then obtain x2 where x2: "ts_obj s2 = Some (t\<lparr>tl_ssl := Some x2\<rparr>)" "up (ts_w s2) \<longrightarrow> up (ts_w s)" using c(3) by auto
        have "returns (flush_loop env cb user (off + nat n) (left - nat n) s2) (keeps_tls up rd s2)"
          by (rule "1.hyps" [OF _ _ x2(1)]) (use c1 m False "1.prems" x2 in auto)
        then have "returns (flush_loop env cb user (off + nat n) (left - nat n) s2) (keeps_tls up rd s)"
          by (rule returns_mono) (rule keeps_tls_trans [OF c(2)])
        then show ?thesis using True c1 False x w c "1.prems" by (subst flush_loop.simps) (auto simp: data_def)
      next
        case nz: False
        then show ?thesis using c1 False x w c "1.prems" by (subst flush_loop.simps) (auto simp: data_def)
      qed
    next
      case c2: 2
      obtain sc s2 where c: "tls_send_cipher env cb user ?s1 = Some (sc, s2)" "keeps_tls up rd s s2"
        "0 \<le> sc \<longrightarrow> (\<exists>x2. ts_obj s2 = Some (t\<lparr>tl_ssl := Some x2\<rparr>) \<and> wr x2 \<le> wr x1 \<and> (up (ts_w s2) \<longrightarrow> up (ts_w s)))"
        using write_step_ok [OF e g u "1.prems"(1,2) x m(2) disjI1 [OF refl]] by blast
      show ?thesis
      proof (cases "sc = 0")
        case True
        then obtain x2 where x2: "ts_obj s2 = Some (t\<lparr>tl_ssl := Some x2\<rparr>)" "wr x2 \<le> wr x1" "up (ts_w s2) \<longrightarrow> up (ts_w s)" using c(3) by auto
        have "returns (flush_loop env cb user off left s2) (keeps_tls up rd s2)"
          by (rule "1.hyps" [OF _ _ x2(1)]) (use c2 m False "1.prems" x2 x in auto)
        then have "returns (flush_loop env cb user off left s2) (keeps_tls up rd s)"
          by (rule returns_mono) (rule keeps_tls_trans [OF c(2)])
        then show ?thesis using True c2 False x w c "1.prems" by (subst flush_loop.simps) (auto simp: data_def)
      next
        case nz: False
        then show ?thesis using c2 False x w c "1.prems" by (subst flush_loop.simps) (auto simp: data_def)
      qed
    next
      case 3
      have k1: "keeps_tls up rd s ?s1" by (rule keeps_tlsI [OF "1.prems"(2)]) (use x m in auto)
      have "returns (tls_fail user SEVENT_ERR_WRITE ?s1) (keeps_tls up rd s)"
        by (rule returns_mono [OF tls_fail_ok [OF u tls_put_sel(1)]]) (rule keeps_tls_trans [OF k1])
      then show ?thesis using 3 False x w "1.prems" by (subst flush_loop.simps) (auto simp: data_def)
    qed
  qed
qed

lemma park_ok:
  assumes e: "tls_env_ok up env" and o: "ts_obj s = Some t"
  shows "\<exists>ok s'. tls_park_write env data s = Some (ok, s') \<and> keeps_tls up rd s s' \<and> ts_log s' = ts_log s
    \<and> (ok \<longrightarrow> (\<exists>t'. ts_obj s' = Some t' \<and> tl_pending t' = data))"
proof -
  obtain ok w where m: "te_malloc env (length data) (ts_w s) = (ok, w)" by (rule prod.exhaust)
  have up: "up w \<Longrightarrow> up (ts_w s)" using tls_env_okD(8) [OF e, of "length data" "ts_w s"] m by simp
  show ?thesis using o m up by (auto simp: tls_park_write_def keeps_tls_def)
qed

lemma write_loop_ok:
  fixes s :: "('x, 's, 'w) tls_st"
  assumes e: "tls_env_ok up env" and g: "engine_ok (te_ops env) dr rd hs wr" and u: "tls_callbacks_ok up rd user"
  shows "up (ts_w s) \<longrightarrow> tls_cb_ok up rd cb \<Longrightarrow> ts_obj s = Some t \<Longrightarrow> tl_pending t = [] \<Longrightarrow>
    returns (write_loop env cb user data s) (\<lambda>(rc, s'). keeps_tls up rd s s'
      \<and> (rc = 0 \<longrightarrow> (\<exists>t'. ts_obj s' = Some t' \<and> plain_of (ts_log s') @ tl_pending t' = plain_of (ts_log s) @ data)))"
proof (induction "(length data, case tl_ssl t of None \<Rightarrow> 0 | Some x \<Rightarrow> wr x)" arbitrary: s t data rule: wf_induct_rule [OF wf_lex_prod [OF wf_less_than wf_less_than]])
  case (1 t data s)
  let ?P = "\<lambda>(rc :: int, s'). keeps_tls up rd s s'
      \<and> (rc = 0 \<longrightarrow> (\<exists>t'. ts_obj s' = Some t' \<and> plain_of (ts_log s') @ tl_pending t' = plain_of (ts_log s) @ data))"
  show ?case
  proof (cases "data = [] \<or> tl_destroyed t \<or> tl_ssl t = None")
    case True
    then show ?thesis using "1.prems" by (subst write_loop.simps) (auto simp: err_defs)
  next
    case False
    then obtain x where x: "tl_ssl t = Some x" by auto
    obtain n x1 where w: "so_write (te_ops env) data x = (n, x1)" by (rule prod.exhaust)
    have m: "n \<le> int (length data)" "rd x1 \<le> rd x" "n = 0 \<longrightarrow> wr x1 < wr x" using g w False unfolding engine_ok_def by fastforce+
    let ?s1 = "tls_put (t\<lparr>tl_ssl := Some x1\<rparr>) s"
    have k1: "keeps_tls up rd s ?s1" by (rule keeps_tlsI [OF "1.prems"(2)]) (use x m in auto)
    consider "0 < n" | "n = 0" "so_want (te_ops env) x1 = SEVENT_SSL_WANT_READ" | "n = 0" "so_want (te_ops env) x1 \<noteq> SEVENT_SSL_WANT_READ" | "n < 0"
      by linarith
    then show ?thesis
    proof cases
      case c1: 1
      obtain sc s2 where c: "tls_send_cipher env cb user (tls_logged (TlsPlain (take (nat n) data)) ?s1) = Some (sc, s2)" "keeps_tls up rd s s2"
        "0 \<le> sc \<longrightarrow> (\<exists>x2. ts_obj s2 = Some (t\<lparr>tl_ssl := Some x2\<rparr>) \<and> (up (ts_w s2) \<longrightarrow> up (ts_w s)) \<and> plain_of (ts_log s2) = plain_of (ts_log s) @ take (nat n) data)"
        using write_step_ok [OF e g u "1.prems"(1,2) x m(2) disjI2 [OF refl], of "TlsPlain (take (nat n) data)"] by force
      show ?thesis
      proof (cases "sc = 0")
        case True
        then obtain x2 where x2: "ts_obj s2 = Some (t\<lparr>tl_ssl := Some x2\<rparr>)" "up (ts_w s2) \<longrightarrow> up (ts_w s)"
          "plain_of (ts_log s2) = plain_of (ts_log s) @ take (nat n) data" using c(3) by auto
        have "returns (write_loop env cb user (drop (nat n) data) s2) (\<lambda>(rc, s'). keeps_tls up rd s2 s'
            \<and> (rc = 0 \<longrightarrow> (\<exists>t'. ts_obj s' = Some t' \<and> plain_of (ts_log s') @ tl_pending t' = plain_of (ts_log s2) @ drop (nat n) data)))"
          by (rule "1.hyps" [OF _ _ x2(1)]) (use c1 m False "1.prems" x2 in auto)
        then have "returns (write_loop env cb user (drop (nat n) data) s2) ?P"
          by (rule returns_mono) (use keeps_tls_trans [OF c(2)] x2(3) in auto)
        then show ?thesis using True c1 False x w c "1.prems" by (subst write_loop.simps) auto
      next
        case nz: False
        then show ?thesis using c1 False x w c "1.prems" by (subst write_loop.simps) (auto simp: err_defs)
      qed
    next
      case c2: 2
      obtain ok s2 where p: "tls_park_write env data ?s1 = Some (ok, s2)" "keeps_tls up rd ?s1 s2" "ts_log s2 = ts_log ?s1"
        "ok \<longrightarrow> (\<exists>t'. ts_obj s2 = Some t' \<and> tl_pending t' = data)"
        using park_ok [OF e tls_put_sel(1), of data "t\<lparr>tl_ssl := Some x1\<rparr>" s rd] by blast
      then show ?thesis using c2 False x w "1.prems" keeps_tls_trans [OF k1 p(2)] by (subst write_loop.simps) (auto simp: err_defs)
    next
      case c3: 3
      obtain sc s2 where c: "tls_send_cipher env cb user ?s1 = Some (sc, s2)" "keeps_tls up rd s s2"
        "0 \<le> sc \<longrightarrow> (\<exists>x2. ts_obj s2 = Some (t\<lparr>tl_ssl := Some x2\<rparr>) \<and> wr x2 \<le> wr x1 \<and> (up (ts_w s2) \<longrightarrow> up (ts_w s)) \<and> plain_of (ts_log s2) = plain_of (ts_log s))"
        using write_step_ok [OF e g u "1.prems"(1,2) x m(2) disjI1 [OF refl]] by force
      show ?thesis
      proof (cases "sc = 0")
        case True
        then obtain x2 where x2: "ts_obj s2 = Some (t\<lparr>tl_ssl := Some x2\<rparr>)" "wr x2 \<le> wr x1" "up (ts_w s2) \<longrightarrow> up (ts_w s)"
          "plain_of (ts_log s2) = plain_of (ts_log s)" using c(3) by auto
        have "returns (write_loop env cb user data s2) (\<lambda>(rc, s'). keeps_tls up rd s2 s'
            \<and> (rc = 0 \<longrightarrow> (\<exists>t'. ts_obj s' = Some t' \<and> plain_of (ts_log s') @ tl_pending t' = plain_of (ts_log s2) @ data)))"
          by (rule "1.hyps" [OF _ _ x2(1)]) (use c3 m False "1.prems" x2 x in auto)
        then have "returns (write_loop env cb user data s2) ?P"
          by (rule returns_mono) (use keeps_tls_trans [OF c(2)] x2(4) in auto)
        then show ?thesis using True c3 False x w c "1.prems" by (subst write_loop.simps) auto
      next
        case nz: False
        then show ?thesis using c3 False x w c "1.prems" by (subst write_loop.simps) (auto simp: err_defs)
      qed
    next
      case 4
      have "returns (tls_fail user SEVENT_ERR_WRITE ?s1) (keeps_tls up rd s)"
        by (rule returns_mono [OF tls_fail_ok [OF u tls_put_sel(1)]]) (rule keeps_tls_trans [OF k1])
      then show ?thesis using 4 False x w "1.prems" by (subst write_loop.simps) (auto simp: err_defs)
    qed
  qed
qed

section \<open>The public functions\<close>

lemma tls_write_ok:
  assumes "tls_env_ok up env" "engine_ok (te_ops env) dr rd hs wr" "tls_callbacks_ok up rd user"
    "up (ts_w s) \<longrightarrow> tls_cb_ok up rd cb" "ts_obj s = Some t"
  shows "returns (sevent_tls_conn_write env cb user data s) (\<lambda>(rc, s'). keeps_tls up rd s s'
      \<and> (rc = 0 \<longrightarrow> (\<exists>t'. ts_obj s' = Some t' \<and> plain_of (ts_log s') @ tl_pending t' = plain_of (ts_log s) @ data)))"
  using write_loop_ok [OF assms] assms(5) by (auto simp: sevent_tls_conn_write_def err_defs)

lemma tls_setup_recv_ok:
  assumes "tls_env_ok up env"
  shows "\<exists>rc t' w'. tls_setup_recv env n (t, w) = (rc, t', w') \<and> tl_ssl t' = tl_ssl t \<and> (up w' \<longrightarrow> up w)
    \<and> tl_hostname t' = tl_hostname t \<and> tl_closed_notified t' = tl_closed_notified t \<and> tl_init t' = tl_init t
    \<and> tl_destroyed t' = tl_destroyed t \<and> tl_handshake_done t' = tl_handshake_done t"
proof -
  define cap where "cap = (if n \<noteq> 0 then n else SEVENT_TLS_RECV_DEFAULT)"
  obtain ok w1 where m: "te_malloc env cap w = (ok, w1)" by (rule prod.exhaust)
  have "up w1 \<longrightarrow> up w" using tls_env_okD(8) [OF assms, of cap w] m by auto
  then show ?thesis using m unfolding tls_setup_recv_def cap_def [symmetric] by (auto simp: Let_def)
qed

lemma tls_open_ok:
  assumes e: "tls_env_ok up env" and o: "ts_obj s = Some t"
  shows "returns (sevent_tls_conn_open env host port init s) (\<lambda>x. keeps_tls up rd s (snd x))"
proof -
  let ?t = "t\<lparr>tl_is_server := False, tl_established := True, tl_init := the init\<rparr>"
  obtain rc t1 w1 where 1: "tls_setup_recv env (in_recv_buf_size (the init)) (?t, ts_w s) = (rc, t1, w1)" "tl_ssl t1 = tl_ssl t" "up w1 \<longrightarrow> up (ts_w s)"
    using tls_setup_recv_ok [OF e, of "in_recv_buf_size (the init)" ?t "ts_w s"] by auto
  define vn where "vn = (case tl_hostname t1 of Some h \<Rightarrow> h | None \<Rightarrow> the host)"
  obtain ok w2 where 2: "te_malloc env (length vn + 1) w1 = (ok, w2)" by (rule prod.exhaust)
  have u2: "up w2 \<longrightarrow> up w1" using tls_env_okD(8) [OF e, of "length vn + 1" w1] 2 by auto
  obtain rc' w3 where 3: "te_tcp_open env (the host) port (tls_init_of (the init)) w2 = (rc', w3)" by (rule prod.exhaust)
  have u3: "up w3 \<longrightarrow> up w2" using tls_env_okD(4) [OF e, of "the host" port "tls_init_of (the init)" w2] 3 by auto
  show ?thesis using o 1 2 3 u2 u3
    by (auto simp: sevent_tls_conn_open_def Let_def vn_def [symmetric] keeps_tls_def)
qed

lemma tls_accept_ok:
  assumes e: "tls_env_ok up env" and o: "ts_obj s = Some t"
  shows "returns (sevent_tls_conn_accept env fd init s) (\<lambda>x. keeps_tls up rd s (snd x))"
proof -
  let ?t = "t\<lparr>tl_is_server := True, tl_established := True, tl_init := the init\<rparr>"
  obtain rc t1 w1 where 1: "tls_setup_recv env (in_recv_buf_size (the init)) (?t, ts_w s) = (rc, t1, w1)" "tl_ssl t1 = tl_ssl t" "up w1 \<longrightarrow> up (ts_w s)"
    using tls_setup_recv_ok [OF e, of "in_recv_buf_size (the init)" ?t "ts_w s"] by auto
  obtain rc' w3 where 3: "te_tcp_accept env fd (tls_init_of (the init)) w1 = (rc', w3)" by (rule prod.exhaust)
  have u3: "up w3 \<longrightarrow> up w1" using tls_env_okD(5) [OF e, of fd "tls_init_of (the init)" w1] 3 by auto
  show ?thesis using o 1 3 u3 by (auto simp: sevent_tls_conn_accept_def Let_def keeps_tls_def)
qed

lemma tls_close_ok:
  assumes "tls_env_ok up env" "ts_obj s = Some t"
  shows "returns (sevent_tls_conn_close env s) (keeps_tls up rd s)"
  using assms(2) tls_env_okD(7) [OF assms(1), of "ts_w s"] by (auto simp: sevent_tls_conn_close_def keeps_tls_def)

lemma tls_destroy_ok:
  assumes e: "tls_env_ok up env" and o: "ts_obj s = Some t"
  shows "returns (sevent_tls_conn_destroy env s) (keeps_tls up rd s)"
proof -
  obtain ok w where p: "te_post env (te_tcp_close env (ts_w s)) = (ok, w)" by (rule prod.exhaust)
  have "ok" "up w \<longrightarrow> up (ts_w s)"
    using tls_env_okD(9,10) [OF e, of "te_tcp_close env (ts_w s)"] tls_env_okD(7) [OF e, of "ts_w s"] p by auto
  then show ?thesis using o p by (auto simp: sevent_tls_conn_destroy_def sevent_tls_conn_close_def Let_def keeps_tls_def)
qed

lemma tls_shutdown_ok:
  assumes "tls_env_ok up env" "ts_obj s = Some t"
  shows "returns (tls_s_shutdown env flag s) (\<lambda>x. keeps_tls up rd s (snd x))"
  using assms(2) tls_env_okD(6) [OF assms(1), of flag "ts_w s"] by (auto simp: tls_s_shutdown_def keeps_tls_def split: prod.splits)

lemma tls_set_callbacks_ok: "ts_obj s = Some t \<Longrightarrow> returns (tls_op_set_callbacks i s) (keeps_tls up rd s)"
  by (auto simp: tls_op_set_callbacks_def keeps_tls_def)

end
