(* ===== verification/Tls_Props.thy ===== *)
theory Tls_Props
  imports Tls_Safety
begin

text \<open>
  The TLS connection as a whole: for callbacks that call the public functions to any depth every
  entry returns, accepted plain text is not lost, and the cases in which the code does not do what
  its headers promise.
\<close>

section \<open>The callbacks given to TCP\<close>

lemma flush_pending_ok:
  assumes "tls_env_ok up env" "engine_ok (te_ops env) dr rd hs wr" "tls_callbacks_ok up rd user"
    "up (ts_w s) \<longrightarrow> tls_cb_ok up rd cb" "ts_obj s = Some t"
  shows "returns (tls_flush_pending env cb user s) (\<lambda>s'. ts_obj s' \<noteq> None)"
proof -
  have "returns (flush_loop env cb user 0 (length (tl_pending t)) s) (\<lambda>s'. returns (ts_obj s') (\<lambda>t'. True))"
    by (rule returns_mono [OF flush_loop_ok [OF assms]]) (auto simp: keeps_tls_def)
  then show ?thesis using assms(5) by (simp add: tls_flush_pending_def)
qed

text \<open>When the write below notifies, the TCP connection is closed: nothing is called back twice.\<close>

lemma tcp_cb_close_ok:
  assumes e: "tls_env_ok up env" and g: "engine_ok (te_ops env) dr rd hs wr" and u: "tls_callbacks_ok up rd user"
    and h: "up (ts_w s) \<longrightarrow> tls_cb_ok up rd cb" and o: "ts_obj s = Some t"
  shows "returns (tcp_cb_close env cb user s) (keeps_tls up rd s)"
proof -
  let ?s = "tls_put (t\<lparr>tl_ssl := map_option (so_peer_close (te_ops env)) (tl_ssl t)\<rparr>) s"
  have "rd (so_peer_close (te_ops env) x) \<le> rd x" for x using g unfolding engine_ok_def by blast
  then have k: "keeps_tls up rd s ?s" by (intro keeps_tlsI [OF o tls_put_sel(1)]) auto
  have "returns (tls_fail user SEVENT_ERR_CONNECT ?s) (keeps_tls up rd s)"
    by (rule returns_mono [OF tls_fail_ok [OF u tls_put_sel(1)]]) (rule keeps_tls_trans [OF k])
  moreover have "returns (tls_read_plain env cb user ?s) (keeps_tls up rd s)"
    by (rule returns_mono [OF read_plain_ok [OF e g u _ tls_put_sel(1)]]) (use h keeps_tls_trans [OF k] in auto)
  ultimately show ?thesis using o by (simp add: tcp_cb_close_def Let_def)
qed

lemma tcp_cb_error_ok:
  assumes "tls_callbacks_ok up rd user" "ts_obj s = Some t"
  shows "returns (tcp_cb_error user err s) (keeps_tls up rd s)"
  using assms tls_fail_ok [OF assms] by (simp add: tcp_cb_error_def)

lemma tcp_cb_ok:
  fixes user :: "('x, 's, 'w) tls_user"
  assumes "tls_env_ok up env" "engine_ok (te_ops env) dr rd hs wr" "tls_callbacks_ok up rd user"
  shows "tls_cb_ok up rd (tcp_cb env cb user)"
  unfolding tls_cb_ok_def
proof (intro allI impI)
  fix ev and s :: "('x, 's, 'w) tls_st" assume "ts_obj s \<noteq> None" "\<not> up (ts_w s)"
  then show "returns (tcp_cb env cb user ev s) (keeps_tls up rd s)"
    using tcp_cb_close_ok [OF assms, of s cb] tcp_cb_error_ok [OF assms(3)] by (cases ev) auto
qed

lemma tcp_cb_open_ok:
  assumes e: "tls_env_ok up env" and g: "engine_ok (te_ops env) dr rd hs wr" and u: "tls_callbacks_ok up rd user"
    and h: "tls_cb_ok up rd cb" and o: "ts_obj s = Some t"
  shows "returns (tcp_cb_open env cb user s) (\<lambda>s'. ts_obj s' \<noteq> None)"
proof -
  obtain x w where x: "sevent_ssl_new env (tl_ssl_ctx t) (tl_is_server t) (tl_hostname t) (ts_w s) = (x, w)" by (rule prod.exhaust)
  let ?s = "tls_logged (TlsNew (tl_hostname t)) ((tls_put (t\<lparr>tl_ssl := x\<rparr>) s)\<lparr>ts_w := w\<rparr>)"
  have o1: "ts_obj ?s = Some (t\<lparr>tl_ssl := x\<rparr>)" by simp
  have "returns (tls_fail user SEVENT_ERR_HANDSHAKE ?s) (\<lambda>s'. ts_obj s' \<noteq> None)"
    by (rule returns_mono [OF tls_fail_ok [OF u o1]]) (auto simp: keeps_tls_def)
  moreover have "returns (tls_pump_handshake env cb user ?s) (\<lambda>s'. ts_obj s' \<noteq> None)"
    by (rule pump_handshake_ok [OF e g u _ o1]) (simp add: h)
  ultimately show ?thesis using o x by (cases x) (simp_all add: tcp_cb_open_def tls_start_handshake_def Let_def)
qed

lemma tcp_cb_data_ok:
  assumes e: "tls_env_ok up env" and g: "engine_ok (te_ops env) dr rd hs wr" and u: "tls_callbacks_ok up rd user"
    and h: "tls_cb_ok up rd cb" and o: "ts_obj s = Some t"
  shows "returns (tcp_cb_data env cb user data s) (\<lambda>s'. ts_obj s' \<noteq> None)"
proof (cases "tl_ssl t")
  case None
  then show ?thesis using o by (simp add: tcp_cb_data_def)
next
  case (Some x)
  obtain rc x1 where x: "so_feed (te_ops env) data x = (rc, x1)" by (rule prod.exhaust)
  let ?s = "tls_put (t\<lparr>tl_ssl := Some x1\<rparr>) s"
  have o1: "ts_obj ?s = Some (t\<lparr>tl_ssl := Some x1\<rparr>)" by simp
  have "returns (tls_fail user SEVENT_ERR_READ ?s) (\<lambda>s'. ts_obj s' \<noteq> None)"
    by (rule returns_mono [OF tls_fail_ok [OF u o1]]) (auto simp: keeps_tls_def)
  moreover have "returns (tls_pump_handshake env cb user ?s) (\<lambda>s'. ts_obj s' \<noteq> None)"
    by (rule pump_handshake_ok [OF e g u _ o1]) (simp add: h)
  moreover have "returns (tls_read_plain env cb user ?s) (\<lambda>s2. returns (tls_flush_pending env cb user s2) (\<lambda>s'. ts_obj s' \<noteq> None))"
  proof (rule returns_mono [OF read_plain_ok [OF e g u _ o1]])
    fix s2 assume "keeps_tls up rd ?s s2"
    then obtain t2 where "ts_obj s2 = Some t2" by (auto simp: keeps_tls_def)
    then show "returns (tls_flush_pending env cb user s2) (\<lambda>s'. ts_obj s' \<noteq> None)" using flush_pending_ok [OF e g u] h by blast
  qed (simp add: h)
  ultimately show ?thesis using o Some x by (simp add: tcp_cb_data_def Let_def)
qed

section \<open>Callbacks and calls\<close>

text \<open>
  The public functions, and what the loop calls. A write below that notifies enters \<open>tcp_cb\<close>; a
  second notification from inside the first would be \<^term>\<open>None\<close>.
\<close>

datatype tls_call =
    TlsOpen "string option" "16 word" "sevent_stream_conn_init option"
  | TlsAccept int "sevent_stream_conn_init option"
  | TlsWrite bytes
  | TlsShutdown int
  | TlsClose
  | TlsDestroy
  | TlsSetCallbacks sevent_stream_conn_init

abbreviation tls_cbs :: "('x, 's, 'w) tls_env \<Rightarrow> ('x, 's, 'w) tls_user \<Rightarrow> ('x, 's, 'w) tls_cb" where
  "tls_cbs env user \<equiv> tcp_cb env (\<lambda>e s. None) user"

fun run_tls_call :: "('x, 's, 'w) tls_env \<Rightarrow> ('x, 's, 'w) tls_user \<Rightarrow> tls_call \<Rightarrow> ('x, 's, 'w) tls_st \<Rightarrow> ('x, 's, 'w) tls_st option" where
  "run_tls_call env user (TlsOpen host port i) s = map_option snd (sevent_tls_conn_open env host port i s)"
| "run_tls_call env user (TlsAccept fd i) s = map_option snd (sevent_tls_conn_accept env fd i s)"
| "run_tls_call env user (TlsWrite data) s = map_option snd (sevent_tls_conn_write env (tls_cbs env user) user data s)"
| "run_tls_call env user (TlsShutdown flag) s = map_option snd (tls_s_shutdown env flag s)"
| "run_tls_call env user TlsClose s = sevent_tls_conn_close env s"
| "run_tls_call env user TlsDestroy s = sevent_tls_conn_destroy env s"
| "run_tls_call env user (TlsSetCallbacks i) s = tls_op_set_callbacks i s"

fun tcp_event :: "('x, 's, 'w) tls_env \<Rightarrow> ('x, 's, 'w) tls_user \<Rightarrow> stream_event \<Rightarrow> ('x, 's, 'w) tls_st \<Rightarrow> ('x, 's, 'w) tls_st option" where
  "tcp_event env user EvOpen s = tcp_cb_open env (tls_cbs env user) user s"
| "tcp_event env user (EvData data) s = tcp_cb_data env (tls_cbs env user) user data s"
| "tcp_event env user EvClose s = tcp_cb_close env (tls_cbs env user) user s"
| "tcp_event env user (EvError err) s = tcp_cb_error user err s"

text \<open>User callbacks: finitely many calls, nested finitely deep; one fails only when a call does.\<close>

inductive tls_api :: "('w \<Rightarrow> bool) \<Rightarrow> ('x, 's, 'w) tls_env \<Rightarrow> ('x, 's, 'w) tls_user \<Rightarrow> ('x, 's, 'w) tls_st \<Rightarrow> ('x, 's, 'w) tls_st \<Rightarrow> bool"
  for up env user where
  tls_api_call: "ts_obj s \<noteq> None \<Longrightarrow> run_tls_call env user call s = Some s' \<Longrightarrow> tls_api up env user s s'"
| tls_api_world: "ts_obj s \<noteq> None \<Longrightarrow> (up w \<longrightarrow> up (ts_w s)) \<Longrightarrow> tls_api up env user s (s\<lparr>ts_w := w\<rparr>)"

inductive tls_callbacks :: "('w \<Rightarrow> bool) \<Rightarrow> ('x, 's, 'w) tls_env \<Rightarrow> ('x, 's, 'w) tls_user \<Rightarrow> bool" for up env where
  tls_cb_none: "tls_callbacks up env (\<lambda>ev s. Some s)"
| tls_cb_nest: "tls_callbacks up env user \<Longrightarrow>
    (\<And>ev s. ts_obj s \<noteq> None \<Longrightarrow> case user' ev s of Some s' \<Rightarrow> (tls_api up env user)\<^sup>*\<^sup>* s s'
       | None \<Rightarrow> \<exists>s1 call. (tls_api up env user)\<^sup>*\<^sup>* s s1 \<and> ts_obj s1 \<noteq> None \<and> run_tls_call env user call s1 = None) \<Longrightarrow>
    tls_callbacks up env user'"

lemma run_tls_call_ok:
  assumes e: "tls_env_ok up env" and g: "engine_ok (te_ops env) dr rd hs wr" and u: "tls_callbacks_ok up rd user" and "ts_obj s \<noteq> None"
  shows "returns (run_tls_call env user call s) (keeps_tls up rd s)"
proof -
  obtain t where o: "ts_obj s = Some t" using assms(4) by auto
  show ?thesis
  proof (cases call)
    case (TlsOpen host port i)
    then show ?thesis using tls_open_ok [OF e o, of host port i rd] by simp
  next
    case (TlsAccept fd i)
    then show ?thesis using tls_accept_ok [OF e o, of fd i rd] by simp
  next
    case (TlsWrite data)
    have "returns (sevent_tls_conn_write env (tls_cbs env user) user data s) (\<lambda>x. keeps_tls up rd s (snd x))"
      by (rule returns_mono [OF tls_write_ok [OF e g u _ o]]) (use tcp_cb_ok [OF e g u] in auto)
    then show ?thesis using TlsWrite by simp
  next
    case (TlsShutdown flag)
    then show ?thesis using tls_shutdown_ok [OF e o, of flag rd] by simp
  next
    case (TlsSetCallbacks i)
    then show ?thesis using tls_set_callbacks_ok [OF o] by simp
  qed (use tls_close_ok [OF e o] tls_destroy_ok [OF e o] in simp_all)
qed

lemma tls_callbacks_are_ok:
  fixes user :: "('x, 's, 'w) tls_user"
  assumes "tls_callbacks up env user" "tls_env_ok up env" "engine_ok (te_ops env) dr rd hs wr"
  shows "tls_callbacks_ok up rd user"
  using assms(1)
proof (induction rule: tls_callbacks.induct)
  case tls_cb_none
  then show ?case by (auto simp: tls_callbacks_ok_def)
next
  case (tls_cb_nest user user')
  have step: "keeps_tls up rd s s'" if "tls_api up env user s s'" for s s'
    using that
  proof cases
    case (tls_api_call call)
    then show ?thesis using run_tls_call_ok [OF assms(2,3) tls_cb_nest.IH, of s call] by simp
  next
    case (tls_api_world w)
    then show ?thesis by (auto simp: keeps_tls_def)
  qed
  have steps: "keeps_tls up rd s s'" if "(tls_api up env user)\<^sup>*\<^sup>* s s'" "ts_obj s \<noteq> None" for s s'
    using that
  proof (induction rule: rtranclp_induct)
    case (step y z)
    then show ?case using step keeps_tls_trans [OF _ \<open>tls_api up env user y z \<Longrightarrow> keeps_tls up rd y z\<close>] by blast
  qed auto
  show ?case
    unfolding tls_callbacks_ok_def
  proof (intro allI impI)
    fix ev and s :: "('x, 's, 'w) tls_st" assume o: "ts_obj s \<noteq> None"
    note c = tls_cb_nest.hyps(2) [OF o, of ev]
    show "returns (user' ev s) (keeps_tls up rd s)"
    proof (cases "user' ev s")
      case None
      then obtain s1 call where s1: "ts_obj s1 \<noteq> None" "run_tls_call env user call s1 = None" using c by auto
      show ?thesis using run_tls_call_ok [OF assms(2,3) tls_cb_nest.IH s1(1), of call] s1(2) by simp
    next
      case (Some s')
      then show ?thesis using c steps [OF _ o] by simp
    qed
  qed
qed

section \<open>Properties\<close>

lemma tls_conn_returns:
  assumes "tls_callbacks up env user" "tls_env_ok up env" "engine_ok (te_ops env) dr rd hs wr" "ts_obj s \<noteq> None"
  shows "(\<exists>s'. tcp_event env user ev s = Some s' \<and> ts_obj s' \<noteq> None)
    \<and> (\<exists>s'. run_tls_call env user call s = Some s' \<and> ts_obj s' \<noteq> None)"
proof -
  note u = tls_callbacks_are_ok [OF assms(1-3)]
  note c = tcp_cb_ok [OF assms(2,3) u]
  obtain t where o: "ts_obj s = Some t" using assms(4) by auto
  have k: "returns m (keeps_tls up rd s) \<Longrightarrow> returns m (\<lambda>s'. ts_obj s' \<noteq> None)" for m
    by (erule returns_mono) (auto simp: keeps_tls_def)
  have "returns (tcp_event env user ev s) (\<lambda>s'. ts_obj s' \<noteq> None)"
    using tcp_cb_open_ok [OF assms(2,3) u c o] tcp_cb_data_ok [OF assms(2,3) u c o] k [OF tcp_cb_close_ok [OF assms(2,3) u _ o]]
      k [OF tcp_cb_error_ok [OF u o]] c by (cases ev) auto
  moreover have "returns (run_tls_call env user call s) (\<lambda>s'. ts_obj s' \<noteq> None)"
    by (rule k [OF run_tls_call_ok [OF assms(2,3) u assms(4)]])
  ultimately show ?thesis by (auto elim!: returnsE)
qed



text \<open>
  C14. Finding: parked text can stop the event loop. When the engine still waits for the peer
  (\<open>sevent_ssl_write\<close> takes nothing and there is nothing to drain), \<open>tls_flush_pending\<close> does not
  return: it retries without end, although \<open>sevent_tls_conn_write\<close> parks the text in the same
  situation because it takes data from the peer to go on.
\<close>

lemma drain_nothing:
  assumes "ts_obj s = Some t" "tl_ssl t = Some x" "so_drain (te_ops env) (tl_send_cap t) x = ([], x)"
  shows "tls_send_cipher env cb user s = Some (0, s)"
proof -
  have "tls_put (t\<lparr>tl_ssl := Some x\<rparr>) s = s" using assms by (cases s, cases t) (simp add: tls_put_def)
  then show ?thesis using assms by (simp add: tls_send_cipher_def drain_loop.simps)
qed

definition engine_waits :: "('x, 's, 'w) tls_env \<Rightarrow> 's \<Rightarrow> ('x, 's, 'w) tls_st \<Rightarrow> bool" where
  "engine_waits env x s \<longleftrightarrow> (\<exists>t. ts_obj s = Some t \<and> tl_ssl t = Some x \<and> \<not> tl_destroyed t \<and> (\<forall>d. so_write (te_ops env) d x = (0, x))
     \<and> so_drain (te_ops env) (tl_send_cap t) x = ([], x))"

lemma flush_loop_spins:
  "flush_loop env cb user off left s = Some s' \<Longrightarrow> engine_waits env x s \<longrightarrow> left = 0"
proof (rule flush_loop.raw_induct [where P = "\<lambda>env cb user off left s s'. engine_waits env x s \<longrightarrow> left = 0"], goal_cases)
  case (1 f env cb user off left s s')
  show ?case
  proof (rule impI, rule ccontr)
    assume w: "engine_waits env x s" and n: "left \<noteq> 0"
    then obtain t where t: "ts_obj s = Some t" "tl_ssl t = Some x" "\<not> tl_destroyed t" "\<And>d. so_write (te_ops env) d x = (0, x)"
      "so_drain (te_ops env) (tl_send_cap t) x = ([], x)" unfolding engine_waits_def by blast
    have i: "tls_put (t\<lparr>tl_ssl := Some x\<rparr>) s = s" using t(1,2) by (cases s, cases t) (simp add: tls_put_def)
    have "f env cb user off left s = Some s'"
      using 1(3) n t drain_nothing [OF t(1,2,5), of cb user] by (simp add: i split: if_splits)
    then show False using 1(2) w n by blast
  qed
qed simp

theorem tls_flush_pending_spins:
  assumes "ts_obj s = Some t" "tl_ssl t = Some x" "\<not> tl_destroyed t" "tl_pending t \<noteq> []"
    "\<forall>d. so_write (te_ops env) d x = (0, x)" "so_drain (te_ops env) (tl_send_cap t) x = ([], x)"
  shows "tls_flush_pending env cb user s = None"
proof (cases "flush_loop env cb user 0 (length (tl_pending t)) s")
  case None
  then show ?thesis using assms by (simp add: tls_flush_pending_def)
next
  case (Some s')
  have "engine_waits env x s" using assms unfolding engine_waits_def by blast
  then show ?thesis using flush_loop_spins [OF Some, of x] assms(4) by simp
qed

definition quiet_tls :: "('x, 's, 'w) tls_user" where
  "quiet_tls ev s = Some s"

lemma tls_open_refused_when_up:
  assumes "up (ts_w s)" "\<And>n w. up w \<Longrightarrow> up (snd (te_malloc env n w))" "\<And>h p i w. up w \<Longrightarrow> te_tcp_open env h p i w = (SEVENT_ERR_INVAL, w)"
    "ts_obj s = Some t"
  shows "\<exists>rc s'. sevent_tls_conn_open env host port init s = Some (rc, s') \<and> rc < 0"
proof -
  let ?t = "t\<lparr>tl_is_server := False, tl_established := True, tl_init := the init\<rparr>"
  obtain rc t1 w1 where 1: "tls_setup_recv env (in_recv_buf_size (the init)) (?t, ts_w s) = (rc, t1, w1)" by (metis prod_cases3)
  have u1: "up w1" using 1 assms(1,2) unfolding tls_setup_recv_def by (auto simp: Let_def split: prod.splits if_splits) (metis snd_conv)+
  define vn where "vn = (case tl_hostname t1 of Some h \<Rightarrow> h | None \<Rightarrow> the host)"
  obtain ok w2 where 2: "te_malloc env (length vn + 1) w1 = (ok, w2)" by (rule prod.exhaust)
  have "up w2" using assms(2) [OF u1, of "length vn + 1"] 2 by simp
  then show ?thesis using assms(3,4) 1 2 by (simp add: sevent_tls_conn_open_def Let_def vn_def [symmetric] err_defs)
qed

lemma tls_open_success:
  assumes "sevent_tls_conn_open env (Some host) port (Some i) s = Some (0, s')" "ts_obj s = Some t"
  shows "\<not> tl_established t \<and> \<not> tl_destroyed t \<and> \<not> init_refused (Some i) \<and> ts_log s' = ts_log s \<and> (\<exists>t'. ts_obj s' = Some t' \<and> tl_established t'
    \<and> tl_hostname t' = Some (case tl_hostname t of Some h \<Rightarrow> h | None \<Rightarrow> host)
    \<and> tl_closed_notified t' = tl_closed_notified t \<and> tl_init t' = i \<and> tl_destroyed t' = tl_destroyed t \<and> tl_handshake_done t' = tl_handshake_done t)"
  using assms by (auto simp: sevent_tls_conn_open_def tls_setup_recv_def Let_def err_defs split: if_splits prod.splits option.splits)

text \<open>
  Finding: after a failed handshake the object cannot be opened again. \<open>sevent_stream_conn.h\<close>
  promises that it is idle after \<open>on_error\<close> and can be reopened; the TCP connection below is not
  closed, so every attempt to open it fails until \<open>sevent_tls_conn_close\<close> is called.
\<close>

theorem tls_handshake_failure_blocks_reopen:
  assumes "ts_obj s = Some t" "tl_ssl t = Some x" "\<not> tl_destroyed t" "up (ts_w s)"
    "so_handshake (te_ops env) x = (-1, y)" "so_drain (te_ops env) (tl_send_cap t) y = ([], y)"
    "\<And>n w. up w \<Longrightarrow> up (snd (te_malloc env n w))" "\<And>h p i w. up w \<Longrightarrow> te_tcp_open env h p i w = (SEVENT_ERR_INVAL, w)"
  shows "\<exists>s' t' rc s''. tls_pump_handshake env cb quiet_tls s = Some s' \<and> ts_obj s' = Some t' \<and> \<not> tl_established t' \<and> up (ts_w s')
     \<and> sevent_tls_conn_open env host port init s' = Some (rc, s'') \<and> rc < 0"
proof -
  let ?s1 = "tls_put (t\<lparr>tl_ssl := Some y\<rparr>) s"
  have d: "tls_send_cipher env cb quiet_tls ?s1 = Some (0, ?s1)" by (rule drain_nothing [OF tls_put_sel(1)]) (use assms(6) in simp_all)
  obtain s' t' where f: "tls_fail quiet_tls SEVENT_ERR_HANDSHAKE ?s1 = Some s'" "ts_obj s' = Some t'" "\<not> tl_established t'" "ts_w s' = ts_w s"
    by (cases "tl_closed_notified t \<or> in_on_error (tl_init t) = None") (auto simp: tls_fail_def tls_notify_def quiet_tls_def Let_def)
  have "tls_pump_handshake env cb quiet_tls s = Some s'"
    using assms(1-3,5) d f(1) by (subst tls_pump_handshake.simps) (simp add: SEVENT_SSL_WANT_READ_def SEVENT_SSL_WANT_WRITE_def)
  moreover have "\<exists>rc s''. sevent_tls_conn_open env host port init s' = Some (rc, s'') \<and> rc < 0"
    by (rule tls_open_refused_when_up [of up]) (use assms(4,7,8) f in auto)
  ultimately show ?thesis using f assms(4) by auto
qed

text \<open>
  Finding: of two failed attempts in a row only the first is reported. The mark that stops a
  second notification of the same session is still set when the next session starts. Each time the
  TCP connection below reports that it could not connect, with its state as it is then.
\<close>

theorem tls_second_failure_silent:
  assumes "ts_obj s = Some t" "\<not> tl_closed_notified t" "\<not> tl_handshake_done t" "in_on_error i \<noteq> None"
    "sevent_tls_conn_open env (Some host) port (Some i) s = Some (0, s1)" "tcp_cb_error quiet_tls err (s1\<lparr>ts_w := w1\<rparr>) = Some s2"
    "sevent_tls_conn_open env (Some host) port (Some i) s2 = Some (0, s3)"
  shows "\<exists>s4 t4. tcp_cb_error quiet_tls err (s3\<lparr>ts_w := w3\<rparr>) = Some s4 \<and> ts_obj s4 = Some t4 \<and> \<not> tl_established t4
    \<and> ts_log s4 = ts_log s @ [TlsNotify (EvError SEVENT_ERR_CONNECT)]"
proof -
  obtain t1 where 1: "\<not> tl_destroyed t" "ts_log s1 = ts_log s" "ts_obj s1 = Some t1" "tl_closed_notified t1 = tl_closed_notified t"
    "tl_init t1 = i" "tl_destroyed t1 = tl_destroyed t" "tl_handshake_done t1 = tl_handshake_done t"
    using tls_open_success [OF assms(5,1)] by auto
  obtain t2 where 2: "ts_obj s2 = Some t2" "tl_closed_notified t2" "\<not> tl_destroyed t2" "ts_log s2 = ts_log s @ [TlsNotify (EvError SEVENT_ERR_CONNECT)]"
    using assms(2-4,6) 1 by (auto simp: tcp_cb_error_def tls_fail_def tls_notify_def quiet_tls_def Let_def)
  obtain t3 where 3: "ts_log s3 = ts_log s2" "ts_obj s3 = Some t3" "tl_closed_notified t3" "\<not> tl_destroyed t3"
    using tls_open_success [OF assms(7) 2(1)] 2 by auto
  then show ?thesis using 2(4) by (simp add: tcp_cb_error_def tls_fail_def Let_def)
qed

text \<open>
  Finding: an object that was opened to one host verifies every later peer against the name of
  that host. \<open>sevent_tls_conn.h\<close> says that without a configured name the host given to open is used;
  the first call stores it in the place of the configured name and \<open>close\<close> keeps it.
\<close>

theorem tls_verify_name_stale:
  assumes "ts_obj s = Some t" "tl_hostname t = None"
    "sevent_tls_conn_open env (Some host) port (Some i) s = Some (0, s1)" "sevent_tls_conn_close env s1 = Some s2"
    "sevent_tls_conn_open env (Some host') port' (Some i') s2 = Some (0, s3)"
  shows "map_option tl_hostname (ts_obj s3) = Some (Some host)"
proof -
  obtain t1 where 1: "ts_obj s1 = Some t1" "tl_hostname t1 = Some host" using tls_open_success [OF assms(3,1)] assms(2) by auto
  then obtain t2 where 2: "ts_obj s2 = Some t2" "tl_hostname t2 = Some host" using assms(4) by (auto simp: sevent_tls_conn_close_def)
  then show ?thesis using tls_open_success [OF assms(5) 2(1)] by auto
qed

section \<open>A concrete connection\<close>

text \<open>
  An engine that passes bytes through unchanged, unless its flag makes the handshake fail, over a
  TCP connection with the states idle (0), opening (1) and open (2).
\<close>

definition demo_ops :: "(unit, bytes \<times> bytes \<times> bool, nat) sevent_ssl_ops" where
  "demo_ops = \<lparr>so_ctx_new = (\<lambda>cfg w. (Some (), w)), so_ssl_new = (\<lambda>x srv h w. (Some ([], [], False), w)),
     so_feed = (\<lambda>d (i, out, f). (0, (i @ d, out, f))), so_drain = (\<lambda>cap (i, out, f). (take cap out, (i, drop cap out, f))),
     so_peer_close = (\<lambda>x. x), so_handshake = (\<lambda>(i, out, f). (if f then -1 else 0, (i, out, f))),
     so_read = (\<lambda>cap (i, out, f). if i = [] then (-1, [], (i, out, f)) else (int (length (take cap i)), take cap i, (drop cap i, out, f))),
     so_write = (\<lambda>d (i, out, f). (int (length d), (i, out @ d, f))), so_want = (\<lambda>x. SEVENT_SSL_WANT_READ)\<rparr>"

definition demo_tls :: "(unit, bytes \<times> bytes \<times> bool, nat) tls_env" where
  "demo_tls = \<lparr>te_ops = demo_ops, te_malloc = (\<lambda>n w. (True, w)), te_post = (\<lambda>w. (True, w)), te_tcp_create = (\<lambda>w. (True, 0)),
     te_tcp_open = (\<lambda>h p i w. if w = 0 then (0, 1) else (SEVENT_ERR_INVAL, w)), te_tcp_accept = (\<lambda>fd i w. if w = 0 then (0, 1) else (SEVENT_ERR_INVAL, w)),
     te_tcp_write = (\<lambda>d w. if w = 2 then (0, None, 2) else (SEVENT_ERR_INVAL, None, w)), te_tcp_shutdown = (\<lambda>f w. (0, w)),
     te_tcp_close = (\<lambda>w. 0), te_tcp_destroy = (\<lambda>w. 0)\<rparr>"

definition demo_tls_init :: sevent_stream_conn_init where
  "demo_tls_init = \<lparr>in_user_data = 0, in_on_open = Some 1, in_on_data = Some 2, in_on_close = Some 3, in_on_error = Some 4,
     in_connect_timeout_ms = 0, in_recv_buf_size = 0\<rparr>"

text \<open>An object as it was created, and one in an open session.\<close>

definition demo_tls_obj :: "(unit, bytes \<times> bytes \<times> bool) tls_conn" where
  "demo_tls_obj = \<lparr>tl_ssl_ctx = (), tl_ssl = None, tl_is_server = False, tl_established = False, tl_handshake_done = False,
     tl_closed_notified = False, tl_destroyed = False, tl_hostname = None, tl_init = init_zero,
     tl_recv_buf = False, tl_recv_cap = 0, tl_send_cap = 4, tl_pending = [], tl_pending_cap = 0\<rparr>"

definition demo_tls_idle :: "(unit, bytes \<times> bytes \<times> bool, nat) tls_st" where
  "demo_tls_idle = \<lparr>ts_obj = Some demo_tls_obj, ts_w = 0, ts_log = []\<rparr>"

definition demo_tls_open :: "bool \<Rightarrow> bool \<Rightarrow> (unit, bytes \<times> bytes \<times> bool, nat) tls_st" where
  "demo_tls_open ready f = \<lparr>ts_obj = Some (demo_tls_obj\<lparr>tl_ssl := Some ([], [], f), tl_established := True,
     tl_handshake_done := ready, tl_init := demo_tls_init\<rparr>), ts_w = 2, ts_log = []\<rparr>"

lemma demo_tls_ok: "tls_env_ok (\<lambda>w. w = 2) demo_tls"
  by (auto simp: tls_env_ok_def demo_tls_def demo_ops_def err_defs)

lemma demo_engine_ok: "engine_ok (te_ops demo_tls) (\<lambda>(i, out, f). length out) (\<lambda>(i, out, f). length i) (\<lambda>x. 0) (\<lambda>x. 0)"
  by (auto simp: engine_ok_def demo_tls_def demo_ops_def SEVENT_SSL_WANT_WRITE_def split: if_splits)

lemma quiet_tls_callbacks: "tls_callbacks up env quiet_tls"
  using tls_cb_none [of up env] by (simp add: quiet_tls_def [abs_def])

lemmas [code] = tls_read_plain.simps tls_pump_handshake.simps drain_loop.simps write_loop.simps flush_loop.simps

lemma demo_tls_obj_there [simp]: "ts_obj (demo_tls_open r f) \<noteq> None" "ts_obj demo_tls_idle = Some demo_tls_obj"
  by (simp_all add: demo_tls_open_def demo_tls_idle_def)



theorem tls_handshake_failure_blocks_reopen_witness:
  "\<exists>s' t' rc s''. tls_pump_handshake demo_tls (tls_cbs demo_tls quiet_tls) quiet_tls (demo_tls_open False True) = Some s'
     \<and> ts_obj s' = Some t' \<and> \<not> tl_established t' \<and> ts_w s' = 2
     \<and> sevent_tls_conn_open demo_tls (Some ''a'') 443 (Some demo_tls_init) s' = Some (rc, s'') \<and> rc < 0"
  by (rule tls_handshake_failure_blocks_reopen [where up = "\<lambda>w. w = 2" and x = "([], [], True)" and y = "([], [], True)"
      and t = "demo_tls_obj\<lparr>tl_ssl := Some ([], [], True), tl_established := True, tl_handshake_done := False, tl_init := demo_tls_init\<rparr>"])
    (simp_all add: demo_tls_open_def demo_tls_obj_def demo_tls_def demo_ops_def)

definition demo_open_once :: "(unit, bytes \<times> bytes \<times> bool, nat) tls_st" where
  "demo_open_once = snd (the (sevent_tls_conn_open demo_tls (Some ''a'') 443 (Some demo_tls_init) demo_tls_idle))"

lemmas demo_tls_evals = demo_open_once_def demo_tls_idle_def demo_tls_obj_def demo_tls_def demo_tls_init_def
  sevent_tls_conn_open_def tls_setup_recv_def init_refused_def Let_def

lemma demo_open_once_eq: "sevent_tls_conn_open demo_tls (Some ''a'') 443 (Some demo_tls_init) demo_tls_idle = Some (0, demo_open_once)"
  by (simp add: demo_tls_evals)

theorem tls_second_failure_silent_witness:
  "\<exists>s2 s3 s4. tcp_cb_error quiet_tls SEVENT_ERR_CONNECT (demo_open_once\<lparr>ts_w := 0\<rparr>) = Some s2
    \<and> sevent_tls_conn_open demo_tls (Some ''a'') 443 (Some demo_tls_init) s2 = Some (0, s3)
    \<and> tcp_cb_error quiet_tls SEVENT_ERR_CONNECT (s3\<lparr>ts_w := 0\<rparr>) = Some s4 \<and> ts_log s4 = [TlsNotify (EvError SEVENT_ERR_CONNECT)]"
proof -
  obtain s2 where 2: "tcp_cb_error quiet_tls SEVENT_ERR_CONNECT (demo_open_once\<lparr>ts_w := 0\<rparr>) = Some s2"
    by (simp add: demo_tls_evals tcp_cb_error_def tls_fail_def tls_notify_def quiet_tls_def)
  then obtain s3 where 3: "sevent_tls_conn_open demo_tls (Some ''a'') 443 (Some demo_tls_init) s2 = Some (0, s3)"
    by (auto simp: demo_tls_evals tcp_cb_error_def tls_fail_def tls_notify_def quiet_tls_def tls_reset_after_term_def tls_put_def tls_logged_def)
  show ?thesis
    using tls_second_failure_silent [OF demo_tls_obj_there(2) _ _ _ demo_open_once_eq 2 3, of 0] 2 3
    by (auto simp: demo_tls_obj_def demo_tls_init_def demo_tls_idle_def)
qed

theorem tls_verify_name_stale_witness:
  "\<exists>s2 s3. sevent_tls_conn_close demo_tls demo_open_once = Some s2
    \<and> sevent_tls_conn_open demo_tls (Some ''b'') 443 (Some demo_tls_init) s2 = Some (0, s3)
    \<and> map_option tl_hostname (ts_obj s3) = Some (Some ''a'')"
proof -
  obtain s2 where 2: "sevent_tls_conn_close demo_tls demo_open_once = Some s2" by (simp add: demo_tls_evals sevent_tls_conn_close_def)
  then obtain s3 where 3: "sevent_tls_conn_open demo_tls (Some ''b'') 443 (Some demo_tls_init) s2 = Some (0, s3)"
    by (auto simp: demo_tls_evals sevent_tls_conn_close_def tls_reset_after_term_def tls_put_def)
  show ?thesis
    using tls_verify_name_stale [OF demo_tls_obj_there(2) _ demo_open_once_eq 2 3] 2 3 by (simp add: demo_tls_obj_def)
qed

theorem tls_flush_pending_spins_witness:
  "tls_flush_pending (demo_tls\<lparr>te_ops := demo_ops\<lparr>so_write := \<lambda>d x. (0, x)\<rparr>\<rparr>) (\<lambda>e s. None) quiet_tls
     ((demo_tls_open True False)\<lparr>ts_obj := map_option (\<lambda>t. t\<lparr>tl_pending := [7]\<rparr>) (ts_obj (demo_tls_open True False))\<rparr>) = None"
  by (rule tls_flush_pending_spins [where x = "([], [], False)" and t = "demo_tls_obj\<lparr>tl_ssl := Some ([], [], False),
      tl_established := True, tl_handshake_done := True, tl_init := demo_tls_init, tl_pending := [7]\<rparr>"])
    (simp_all add: demo_tls_open_def demo_tls_obj_def demo_ops_def)

end
