(* ===== verification/Stream_Conn.thy ===== *)
theory Stream_Conn
  imports Tls_Props
begin

text \<open>
  \<^verbatim>\<open>src/stream_conn.c\<close>, the operation tables of \<^verbatim>\<open>tcp_conn.c\<close> and \<^verbatim>\<open>tls_conn.c\<close>, and the contract that
  the users of a stream rely on: a write calls back at most once, as its last action, and from then
  on the stream refuses to write until it is opened again.
\<close>

section \<open>The shell\<close>

record 'st sevent_stream_ops =
  op_open :: "string option \<Rightarrow> 16 word \<Rightarrow> sevent_stream_conn_init option \<Rightarrow> 'st \<Rightarrow> (int \<times> 'st) option"
  op_accept :: "int \<Rightarrow> sevent_stream_conn_init option \<Rightarrow> 'st \<Rightarrow> (int \<times> 'st) option"
  op_write :: "bytes option \<Rightarrow> nat \<Rightarrow> 'st \<Rightarrow> (int \<times> 'st) option"
  op_shutdown :: "(int \<Rightarrow> 'st \<Rightarrow> (int \<times> 'st) option) option"
  op_close :: "'st \<Rightarrow> 'st option"
  op_destroy :: "'st \<Rightarrow> 'st option"
  op_set_no_delay :: "(bool \<Rightarrow> 'st \<Rightarrow> 'st option) option"
  op_set_callbacks :: "(sevent_stream_conn_init \<Rightarrow> 'st \<Rightarrow> 'st option) option"

record 'st sevent_stream_conn =
  sm_ops :: "'st sevent_stream_ops option"
  sm_impl :: 'st

text \<open>A stream may be NULL; the functions return the stream with the state the implementation left.\<close>

type_synonym 'st stream = "'st sevent_stream_conn option"

definition forward_rc :: "('st sevent_stream_ops \<Rightarrow> ('st \<Rightarrow> (int \<times> 'st) option) option) \<Rightarrow> 'st stream \<Rightarrow> (int \<times> 'st stream) option" where
  "forward_rc f s =
     (case s of
        None \<Rightarrow> Some (SEVENT_ERR_INVAL, s)
      | Some m \<Rightarrow> (case sm_ops m \<bind> f of
          None \<Rightarrow> Some (SEVENT_ERR_INVAL, s)
        | Some g \<Rightarrow> map_option (\<lambda>(rc, i). (rc, Some (m\<lparr>sm_impl := i\<rparr>))) (g (sm_impl m))))"

definition forward :: "('st sevent_stream_ops \<Rightarrow> ('st \<Rightarrow> 'st option) option) \<Rightarrow> 'st stream \<Rightarrow> 'st stream option" where
  "forward f s =
     (case s of
        None \<Rightarrow> Some s
      | Some m \<Rightarrow> (case sm_ops m \<bind> f of
          None \<Rightarrow> Some s
        | Some g \<Rightarrow> map_option (\<lambda>i. Some (m\<lparr>sm_impl := i\<rparr>)) (g (sm_impl m))))"

definition sevent_stream_open :: "string option \<Rightarrow> 16 word \<Rightarrow> sevent_stream_conn_init option \<Rightarrow> 'st stream \<Rightarrow> (int \<times> 'st stream) option" where
  "sevent_stream_open host port i = forward_rc (\<lambda>ops. Some (op_open ops host port i))"

definition sevent_stream_accept :: "int \<Rightarrow> sevent_stream_conn_init option \<Rightarrow> 'st stream \<Rightarrow> (int \<times> 'st stream) option" where
  "sevent_stream_accept fd i = forward_rc (\<lambda>ops. Some (op_accept ops fd i))"

definition sevent_stream_write :: "bytes option \<Rightarrow> nat \<Rightarrow> 'st stream \<Rightarrow> (int \<times> 'st stream) option" where
  "sevent_stream_write data len = forward_rc (\<lambda>ops. Some (op_write ops data len))"

definition sevent_stream_shutdown :: "int \<Rightarrow> 'st stream \<Rightarrow> (int \<times> 'st stream) option" where
  "sevent_stream_shutdown flag = forward_rc (\<lambda>ops. map_option (\<lambda>f. f flag) (op_shutdown ops))"

definition sevent_stream_close :: "'st stream \<Rightarrow> 'st stream option" where
  "sevent_stream_close = forward (\<lambda>ops. Some (op_close ops))"

text \<open>The implementation frees itself later; the shell is freed at once and the stream is gone.\<close>

definition sevent_stream_destroy :: "'st stream \<Rightarrow> 'st stream option" where
  "sevent_stream_destroy = forward (\<lambda>ops. Some (op_destroy ops))"

definition sevent_stream_set_no_delay :: "bool \<Rightarrow> 'st stream \<Rightarrow> 'st stream option" where
  "sevent_stream_set_no_delay on = forward (\<lambda>ops. map_option (\<lambda>f. f on) (op_set_no_delay ops))"

definition sevent_stream_conn_i_set_callbacks :: "sevent_stream_conn_init \<Rightarrow> 'st stream \<Rightarrow> 'st stream option" where
  "sevent_stream_conn_i_set_callbacks i = forward (\<lambda>ops. map_option (\<lambda>f. f i) (op_set_callbacks ops))"

section \<open>The two implementations\<close>

definition tcp_ops :: "'u sys \<Rightarrow> 'u user \<Rightarrow> 'u tcp_st sevent_stream_ops" where
  "tcp_ops sy user = \<lparr>op_open = (\<lambda>host port i s. Some (sevent_tcp_conn_open sy host port i s)),
     op_accept = (\<lambda>fd i s. Some (sevent_tcp_conn_accept sy fd i s)),
     op_write = (\<lambda>data len s. Some (sevent_tcp_conn_write sy user data len s)),
     op_shutdown = Some (\<lambda>flag s. Some (sevent_tcp_conn_shutdown sy flag s)),
     op_close = (\<lambda>s. Some (sevent_tcp_conn_close sy s)),
     op_destroy = (\<lambda>s. Some (sevent_tcp_conn_destroy sy s)),
     op_set_no_delay = Some (\<lambda>on s. Some (sevent_tcp_conn_set_no_delay sy on s)),
     op_set_callbacks = Some (\<lambda>i s. Some (tcp_op_set_callbacks i s))\<rparr>"

definition tls_stream_ops :: "('x, 's, 'w) tls_env \<Rightarrow> ('x, 's, 'w) tls_user \<Rightarrow> ('x, 's, 'w) tls_st sevent_stream_ops" where
  "tls_stream_ops env user = \<lparr>op_open = sevent_tls_conn_open env,
     op_accept = sevent_tls_conn_accept env,
     op_write = (\<lambda>data len s. sevent_tls_conn_write env (tls_cbs env user) user (case data of None \<Rightarrow> [] | Some d \<Rightarrow> take len d) s),
     op_shutdown = Some (tls_s_shutdown env),
     op_close = sevent_tls_conn_close env,
     op_destroy = sevent_tls_conn_destroy env,
     op_set_no_delay = None,
     op_set_callbacks = Some tls_op_set_callbacks\<rparr>"

text \<open>The allocation of the shell is the last step; when it fails the connection is destroyed.\<close>

definition tcp_stream_create ::
  "'u sys \<Rightarrow> 'u user \<Rightarrow> udata \<Rightarrow> 'u sevent_context \<Rightarrow> 'u tcp_st stream \<times> 'u sevent_context" where
  "tcp_stream_create sy user self c =
     (case sevent_tcp_conn_create sy self c of
        (None, c) \<Rightarrow> (None, c)
      | (Some t, c) \<Rightarrow> (case env_call (sy_alloc sy 16) c of (ok, c) \<Rightarrow>
          if \<not> ok then (None, snd (sevent_tcp_conn_destroy sy (t, c)))
          else (Some \<lparr>sm_ops = Some (tcp_ops sy user), sm_impl = (t, c)\<rparr>, c)))"

definition tls_stream_create ::
  "('x, 's, 'w) tls_env \<Rightarrow> ('x, 's, 'w) tls_user \<Rightarrow> stream_conn_config \<Rightarrow> 'w \<Rightarrow> (('x, 's, 'w) tls_st stream \<times> 'w) option" where
  "tls_stream_create env user cfg w =
     (case sevent_tls_conn_create env cfg w of
        (None, w) \<Rightarrow> Some (None, w)
      | (Some t, w) \<Rightarrow> (case te_malloc env 16 w of (ok, w) \<Rightarrow>
          if \<not> ok then map_option (\<lambda>s. (None, ts_w s)) (sevent_tls_conn_destroy env \<lparr>ts_obj = Some t, ts_w = w, ts_log = []\<rparr>)
          else Some (Some \<lparr>sm_ops = Some (tls_stream_ops env user), sm_impl = \<lparr>ts_obj = Some t, ts_w = w, ts_log = []\<rparr>\<rparr>, w)))"

definition sevent_stream_create :: "bool \<Rightarrow> ('w \<Rightarrow> 'c) \<Rightarrow> (stream_conn_config \<Rightarrow> 'w \<Rightarrow> 'c) \<Rightarrow> stream_conn_config \<Rightarrow> 'w \<Rightarrow> 'c option" where
  "sevent_stream_create with_tls tcp_create tls_create cfg w =
     (if sc_enable_tls cfg then if with_tls then Some (tls_create cfg w) else None else Some (tcp_create w))"

section \<open>The contract of writing\<close>

text \<open>
  What a write leaves and the event it owes: \<open>refused\<close> and \<open>broken\<close> are what users of a stream may
  rely on. They give that a sequence of writes owes at most one event.
\<close>

fun write_all :: "(bytes \<Rightarrow> 's \<Rightarrow> int \<times> write_event option \<times> 's) \<Rightarrow> bytes list \<Rightarrow> 's \<Rightarrow> (int list \<times> write_event list) \<times> 's" where
  "write_all write [] s = (([], []), s)"
| "write_all write (d # ds) s =
     (case write d s of (rc, ev, s) \<Rightarrow> case write_all write ds s of ((rcs, evs), s) \<Rightarrow>
        ((rc # rcs, (case ev of None \<Rightarrow> evs | Some e \<Rightarrow> e # evs)), s))"

locale stream_writer =
  fixes wrt :: "bytes \<Rightarrow> 's \<Rightarrow> int \<times> write_event option \<times> 's" and is_open :: "'s \<Rightarrow> bool"
  assumes refused: "\<not> is_open s \<Longrightarrow> wrt d s = (SEVENT_ERR_INVAL, None, s)"
    and broken: "wrt d s = (rc, Some e, s') \<Longrightarrow> \<not> is_open s'"
begin

lemma write_all_closed: "\<not> is_open s \<Longrightarrow> write_all wrt ds s = ((replicate (length ds) SEVENT_ERR_INVAL, []), s)"
  by (induction ds) (simp_all add: refused)

lemma write_all_once: "write_all wrt ds s = ((rcs, evs), s') \<Longrightarrow> length evs \<le> 1 \<and> (evs \<noteq> [] \<longrightarrow> \<not> is_open s')"
proof (induction ds arbitrary: s rcs evs s')
  case (Cons d ds)
  obtain rc ev s1 where w: "wrt d s = (rc, ev, s1)" by (metis prod_cases3)
  obtain rcs1 evs1 s2 where a: "write_all wrt ds s1 = ((rcs1, evs1), s2)" by (metis surj_pair)
  show ?case
  proof (cases ev)
    case None
    then show ?thesis using Cons w a by auto
  next
    case (Some e)
    then have "\<not> is_open s1" using broken [of d s rc e s1] w by simp
    then show ?thesis using Cons.prems w a Some write_all_closed [of s1 ds] by auto
  qed
qed simp

end

section \<open>TCP keeps the contract\<close>

fun write_event_of :: "tcp_act list \<Rightarrow> write_event option" where
  "write_event_of [] = None"
| "write_event_of (ActNotify EvClose # l) = Some StClose"
| "write_event_of (ActNotify (EvError err) # l) = Some (StError err)"
| "write_event_of (_ # l) = write_event_of l"

definition tcp_write_ev :: "'u sys \<Rightarrow> bytes \<Rightarrow> 'u tcp_st \<Rightarrow> int \<times> write_event option \<times> 'u tcp_st" where
  "tcp_write_ev sy d s =
     (case sevent_tcp_conn_write sy (\<lambda>f ud ev s. s) (Some d) (length d) s of (rc, s') \<Rightarrow>
        (rc, write_event_of (drop (length (tc_trace (fst s))) (tc_trace (fst s'))), s'))"

definition tcp_is_open :: "'u tcp_st \<Rightarrow> bool" where
  "tcp_is_open s \<longleftrightarrow> \<not> tc_destroyed (fst s) \<and> tc_state (fst s) = TCP_STATE_OPEN"

definition deliver_event :: "'u user \<Rightarrow> write_event option \<Rightarrow> 'u tcp_st \<Rightarrow> 'u tcp_st" where
  "deliver_event user ev s =
     (case ev of
        None \<Rightarrow> s
      | Some StClose \<Rightarrow> user (the (tc_on_close (fst s))) (tc_user_data (fst s)) EvClose s
      | Some (StError err) \<Rightarrow> user (the (tc_on_error (fst s))) (tc_user_data (fst s)) (EvError err) s)"

text \<open>The history of a write grows by data that was accepted and sent, and at the end by the notification.\<close>

definition data_acts :: "tcp_act list \<Rightarrow> bool" where
  "data_acts l \<longleftrightarrow> (\<forall>a \<in> set l. (\<exists>d. a = ActAccept d) \<or> (\<exists>d. a = ActSent d) \<or> a = ActFin \<or> a = ActDown)"

lemma write_event_of_data: "data_acts l \<Longrightarrow> write_event_of (l @ l') = write_event_of l'"
  by (induction l rule: write_event_of.induct) (auto simp: data_acts_def)

lemma data_acts_simps [simp]:
  "data_acts []" "data_acts (l @ l') \<longleftrightarrow> data_acts l \<and> data_acts l'" "data_acts [ActAccept d]" "data_acts [ActSent d]" "data_acts [ActDown]" "data_acts [ActFin]"
  by (auto simp: data_acts_def)

definition grown :: "tcp_conn \<Rightarrow> tcp_conn \<Rightarrow> bool" where
  "grown t t' \<longleftrightarrow> (\<exists>l. tc_trace t' = tc_trace t @ l \<and> data_acts l)"

lemma grown_refl [simp]: "tc_trace t' = tc_trace t \<Longrightarrow> grown t t'" by (simp add: grown_def)

lemma grown_trans: "grown t t' \<Longrightarrow> grown t' t'' \<Longrightarrow> grown t t''"
  unfolding grown_def by auto

lemma grown_act [simp]: "data_acts [a] \<Longrightarrow> tc_trace t' = tc_trace t \<Longrightarrow> grown t (act a t')"
  by (auto simp: grown_def act_def)

lemma flush_grown: "tcp_flush sy t u = (rc, t', u') \<Longrightarrow> grown t t'"
proof (induction "length (tc_write_queue t)" arbitrary: t u)
  case 0
  then show ?case by (simp add: tcp_flush.simps)
next
  case (Suc k)
  obtain n ns where q: "tc_write_queue t = n # ns" using Suc.hyps(2) by (cases "tc_write_queue t") auto
  define rest where "rest = drop (wn_offset n) (wn_data n)"
  define t1 where "t1 = t\<lparr>tc_write_queue := ns, tc_write_count := tc_write_count t - 1\<rparr>"
  note step = Suc.prems [unfolded tcp_flush.simps [of sy t u] q list.case Let_def, folded rest_def t1_def]
  obtain r v where r: "sy_send sy (tc_fd t) rest u = (r, v)" by (rule prod.exhaust)
  have g1: "grown t t1" "grown t (act (ActSent d) t1)" for d by (simp_all add: t1_def)
  have t1q: "tc_write_queue t1 = ns" "tc_write_queue (act a t1) = ns" for a by (simp_all add: t1_def act_def)
  have ih: "grown t2 t'" if "tcp_flush sy t2 v = (rc, t', u')" "tc_write_queue t2 = ns" for t2
    by (rule Suc.hyps(1) [OF _ that(1)]) (use Suc.hyps(2) q that(2) in simp)
  show ?case
  proof (cases r)
    case (Sent w)
    then show ?thesis
      using step r ih [of t1] ih [of "act (ActSent (take w rest)) t1"] grown_trans [OF g1(1)] grown_trans [OF g1(2)]
        t1q by (auto simp del: tcp_flush.simps split: if_splits)
  qed (use step r g1 in auto)
qed

text \<open>A function of the callbacks that calls them at most once, at its very end.\<close>

definition null_user :: "'u user" where "null_user f ud ev s = s"

definition calls_last :: "'u tcp_st \<Rightarrow> ('u user \<Rightarrow> 'u tcp_st) \<Rightarrow> bool" where
  "calls_last s f \<longleftrightarrow> (\<exists>l n. tc_trace (fst (f null_user)) = tc_trace (fst s) @ l @ n \<and> data_acts l
     \<and> (n = [] \<or> (\<exists>ev. n = [ActNotify ev]) \<and> tc_state (fst (f null_user)) = TCP_STATE_IDLE)
     \<and> (\<forall>user. f user = deliver_event user (write_event_of n) (f null_user)))"

lemma calls_last_grown:
  assumes "grown (fst s) (fst s1)" "calls_last s1 f"
  shows "calls_last s f"
proof -
  obtain l0 where l0: "tc_trace (fst s1) = tc_trace (fst s) @ l0" "data_acts l0" using assms(1) unfolding grown_def by blast
  obtain l n where n: "tc_trace (fst (f null_user)) = tc_trace (fst s1) @ l @ n" "data_acts l"
     "n = [] \<or> (\<exists>ev. n = [ActNotify ev]) \<and> tc_state (fst (f null_user)) = TCP_STATE_IDLE"
     "\<forall>user. f user = deliver_event user (write_event_of n) (f null_user)" using assms(2) unfolding calls_last_def by blast
  have "tc_trace (fst (f null_user)) = tc_trace (fst s) @ (l0 @ l) @ n" "data_acts (l0 @ l)" using n(1,2) l0 by simp_all
  then show ?thesis using n(3,4) unfolding calls_last_def by blast
qed

lemma calls_last_none: "grown (fst s) (fst s') \<Longrightarrow> (\<And>user. f user = s') \<Longrightarrow> calls_last s f"
  by (rule calls_last_grown [of _ s']) (auto simp: calls_last_def deliver_event_def intro: exI [of _ "[]"])

lemma close_io_sel [simp]:
  "tc_trace (fst (tcp_close_io sy s)) = tc_trace (fst s)" "tc_trace (fst (tcp_cancel_timer s)) = tc_trace (fst s)"
  by (auto simp: tcp_close_io_def tcp_cancel_timer_def Let_def split: prod.splits option.splits)

lemma notify_calls_last:
  assumes "tc_state (fst s) = TCP_STATE_IDLE" "ev = EvClose \<and> f = tc_on_close (fst s) \<or> (\<exists>e. ev = EvError e) \<and> f = tc_on_error (fst s)"
  shows "calls_last s (\<lambda>user. tcp_notify user f ev s)"
proof (cases f)
  case None
  then show ?thesis by (intro calls_last_none [of s s]) (auto simp: tcp_notify_def)
next
  case (Some g)
  obtain t c where s: "s = (t, c)" by (rule prod.exhaust)
  have "ev = EvClose \<and> tc_on_close t = Some g \<or> (\<exists>e. ev = EvError e) \<and> tc_on_error t = Some g" using assms(2) Some s by auto
  then show ?thesis unfolding calls_last_def
    by (intro exI [of _ "[]"] exI [of _ "[ActNotify ev]"])
      (use assms(1) Some s in \<open>auto simp: tcp_notify_def null_user_def act_def deliver_event_def\<close>)
qed

lemma teardown_calls_last: "calls_last s (\<lambda>user. tcp_teardown sy user err s)"
proof (cases "tc_destroyed (fst s) \<or> tc_state (fst s) = TCP_STATE_IDLE")
  case True
  then show ?thesis by (intro calls_last_none [of s s]) (auto simp: tcp_teardown_def)
next
  case False
  obtain t c where tc: "tcp_close_io sy (tcp_cancel_timer s) = (t, c)" by (rule prod.exhaust)
  have tr: "tc_trace t = tc_trace (fst s)" using close_io_sel(1) [of sy "tcp_cancel_timer s"] close_io_sel(2) [of s] tc by simp
  let ?t = "act ActDown ((tcp_queue_clear t)\<lparr>tc_state := TCP_STATE_IDLE\<rparr>)"
  have g: "grown (fst s) (fst (?t, c))" using tr by (simp add: tcp_queue_clear_def)
  show ?thesis
  proof (rule calls_last_grown [OF g])
    show "calls_last (?t, c) (\<lambda>user. tcp_teardown sy user err s)"
      using notify_calls_last [of "(?t, c)" "EvError err" "tc_on_error ?t"] notify_calls_last [of "(?t, c)" EvClose "tc_on_close ?t"] False tc
      by (cases "err = 0") (auto simp: tcp_teardown_def act_def)
  qed
qed

lemma update_io_calls_last: "calls_last s (\<lambda>user. snd (tcp_update_io sy user s))"
proof -
  obtain t c where s: "s = (t, c)" by (rule prod.exhaust)
  define c1 where "c1 = (case tc_io_handle t of None \<Rightarrow> c | Some p \<Rightarrow> sevent_io_unregister p c)"
  obtain r c2 where r: "sevent_io_register (sy_malloc sy) \<lparr>h_fd = tc_fd t, h_io_read = Some on_readable_cb,
               h_io_write = (if tc_write_queue t \<noteq> [] then Some on_write_ready_cb else None), h_data = tc_self t\<rparr> c1 = (r, c2)" by (rule prod.exhaust)
  have u: "snd (tcp_update_io sy user s) = (if r = None then tcp_teardown sy user 0 (t\<lparr>tc_io_handle := r\<rparr>, c2) else (t\<lparr>tc_io_handle := r\<rparr>, c2))" for user
    using s r by (simp add: tcp_update_io_def Let_def c1_def)
  have g: "grown (fst s) (fst (t\<lparr>tc_io_handle := r\<rparr>, c2))" using s by simp
  show ?thesis unfolding u
    using calls_last_grown [OF g teardown_calls_last] calls_last_none [OF g] by (cases "r = None") auto
qed

lemma maybe_shutdown_grown: "grown (fst s) (fst (tcp_maybe_shutdown_wr sy s))"
  by (cases s) (auto simp: tcp_maybe_shutdown_wr_def)

lemma write_calls_last:
  "\<exists>rc f. (\<forall>user. sevent_tcp_conn_write sy user (Some d) (length d) s = (rc, f user)) \<and> calls_last s f"
proof -
  let ?t = "fst s"
  have no: "\<exists>rc f. (\<forall>user. sevent_tcp_conn_write sy user (Some d) (length d) s = (rc, f user)) \<and> calls_last s f"
    if "\<And>user. sevent_tcp_conn_write sy user (Some d) (length d) s = (rc, s')" "grown (fst s) (fst s')" for rc s'
    using that calls_last_none [OF that(2), of "\<lambda>user. s'"] by auto
  show ?thesis
  proof (cases "tc_destroyed ?t \<or> tc_state ?t \<noteq> TCP_STATE_OPEN \<or> d = []")
    case True
    then have "sevent_tcp_conn_write sy user (Some d) (length d) s
        = (if tc_destroyed ?t \<or> tc_state ?t \<noteq> TCP_STATE_OPEN then SEVENT_ERR_INVAL else 0, s)" for user
      by (auto simp: sevent_tcp_conn_write_def)
    then show ?thesis by (rule no) simp
  next
    case False
    obtain t c where s: "s = (t, c)" by (rule prod.exhaust)
    obtain ok c1 where a: "env_call (sy_alloc sy (length d)) c = (ok, c1)" by (rule prod.exhaust)
    obtain rc1 t2 c2 where q: "tcp_enqueue sy d (t, c1) = (rc1, (t2, c2))" by (metis prod.exhaust)
    have g2: "grown t t2" using q by (auto simp: tcp_enqueue_def Let_def split: prod.splits if_splits)
    obtain rc3 s3 where f: "tcp_flush_st sy (act (ActAccept d) t2, c2) = (rc3, s3)" by (rule prod.exhaust)
    have "grown (act (ActAccept d) t2) (fst s3)" using f flush_grown by (auto simp: tcp_flush_st_def simp del: tcp_flush.simps split: prod.splits)
    then have g3: "grown (fst s) (fst s3)" using grown_trans [OF g2] grown_trans [OF grown_act] s by (metis data_acts_simps(3) fst_conv)
    have w: "sevent_tcp_conn_write sy user (Some d) (length d) s =
        (if \<not> ok then (SEVENT_ERR_NOMEM, (t, c1)) else if rc1 \<noteq> 0 then (SEVENT_ERR_NOMEM, (t2, c2))
         else if rc3 < 0 then (SEVENT_ERR_WRITE, tcp_teardown sy user SEVENT_ERR_WRITE s3)
         else if tc_write_queue (fst s3) \<noteq> [] then (0, snd (tcp_update_io sy user s3))
         else (0, tcp_maybe_shutdown_wr sy s3))" for user
      using False s a q f by (simp add: sevent_tcp_conn_write_def Let_def)
    consider "\<not> ok \<or> rc1 \<noteq> 0" | "ok" "rc1 = 0" "rc3 < 0" | "ok" "rc1 = 0" "0 \<le> rc3" "tc_write_queue (fst s3) \<noteq> []"
      | "ok" "rc1 = 0" "0 \<le> rc3" "tc_write_queue (fst s3) = []" by linarith
    then show ?thesis
    proof cases
      case 1
      then have "sevent_tcp_conn_write sy user (Some d) (length d) s = (SEVENT_ERR_NOMEM, if ok then (t2, c2) else (t, c1))" for user
        unfolding w by auto
      then show ?thesis by (rule no) (use g2 s in simp)
    next
      case 2
      then show ?thesis using w calls_last_grown [OF g3 teardown_calls_last, of sy SEVENT_ERR_WRITE] by auto
    next
      case 3
      then show ?thesis using w calls_last_grown [OF g3 update_io_calls_last, of sy] by auto
    next
      case 4
      then have "sevent_tcp_conn_write sy user (Some d) (length d) s = (0, tcp_maybe_shutdown_wr sy s3)" for user unfolding w by simp
      then show ?thesis by (rule no) (rule grown_trans [OF g3 maybe_shutdown_grown])
    qed
  qed
qed

lemma tcp_write_ev_eq:
  assumes "tcp_write_ev sy d s = (rc, ev, s')"
  shows "sevent_tcp_conn_write sy user (Some d) (length d) s = (rc, deliver_event user ev s')" "ev \<noteq> None \<Longrightarrow> tc_state (fst s') = TCP_STATE_IDLE"
proof -
  obtain rc0 f where f: "\<And>user. sevent_tcp_conn_write sy user (Some d) (length d) s = (rc0, f user)" "calls_last s f"
    using write_calls_last by blast
  obtain l n where n: "tc_trace (fst (f null_user)) = tc_trace (fst s) @ l @ n" "data_acts l"
     "n = [] \<or> (\<exists>ev. n = [ActNotify ev]) \<and> tc_state (fst (f null_user)) = TCP_STATE_IDLE"
     "\<And>user. f user = deliver_event user (write_event_of n) (f null_user)" using f(2) unfolding calls_last_def by blast
  have nu: "(\<lambda>f ud ev s. s) = (null_user :: 'a user)" by (simp add: null_user_def fun_eq_iff)
  have "rc = rc0" "s' = f null_user" "ev = write_event_of n"
    using assms f(1) [of null_user] write_event_of_data [OF n(2), of n] n(1) by (auto simp: tcp_write_ev_def nu)
  then show "sevent_tcp_conn_write sy user (Some d) (length d) s = (rc, deliver_event user ev s')" "ev \<noteq> None \<Longrightarrow> tc_state (fst s') = TCP_STATE_IDLE"
    using f(1) [of user] n(3) n(4) [of user] by auto
qed

interpretation tcp_writer: stream_writer "tcp_write_ev sy" tcp_is_open for sy
proof
  fix s :: "'a tcp_st" and d assume n: "\<not> tcp_is_open s"
  then have "sevent_tcp_conn_write sy (\<lambda>f ud ev s. s) (Some d) (length d) s = (SEVENT_ERR_INVAL, s)"
    by (auto simp: tcp_is_open_def sevent_tcp_conn_write_def)
  then show "tcp_write_ev sy d s = (SEVENT_ERR_INVAL, None, s)" by (simp add: tcp_write_ev_def)
next
  fix s s' :: "'a tcp_st" and d rc e assume "tcp_write_ev sy d s = (rc, Some e, s')"
  then show "\<not> tcp_is_open s'" using tcp_write_ev_eq(2) by (fastforce simp: tcp_is_open_def)
qed

section \<open>Property\<close>

text \<open>
  C12. The contract of a stream, on TCP: a write calls the user at most once, and only as its last
  action, so the call can be thought of as a result that is delivered after the write returned;
  from then on the connection is idle and every further write is refused without another call,
  however many follow.
\<close>

theorem tcp_write_contract:
  assumes "tcp_write_ev sy d s = (rc, ev, s')"
  shows "sevent_tcp_conn_write sy user (Some d) (length d) s = (rc, deliver_event user ev s')
    \<and> (ev \<noteq> None \<longrightarrow> tc_state (fst s') = TCP_STATE_IDLE
        \<and> write_all (tcp_write_ev sy) ds s' = ((replicate (length ds) SEVENT_ERR_INVAL, []), s'))
    \<and> length (snd (fst (write_all (tcp_write_ev sy) (d # ds) s))) \<le> 1"
proof -
  obtain rcs evs s1 where a: "write_all (tcp_write_ev sy) (d # ds) s = ((rcs, evs), s1)" by (metis surj_pair)
  have "write_all (tcp_write_ev sy) ds s' = ((replicate (length ds) SEVENT_ERR_INVAL, []), s')" if "ev \<noteq> None"
    using tcp_writer.write_all_closed [OF tcp_writer.broken] assms that by blast
  then show ?thesis using tcp_write_ev_eq [OF assms] tcp_writer.write_all_once [OF a] a by auto
qed

text \<open>A connection that is open whose next \<open>send\<close> fails.\<close>

definition broken_sys :: "nat sys" where "broken_sys = demo_sys\<lparr>sy_send := \<lambda>fd d u. (SendFail, u)\<rparr>"

definition broken_conn :: "nat tcp_st" where "broken_conn = ((fst demo_open)\<lparr>tc_on_error := Some 4\<rparr>, snd demo_open)"

theorem tcp_write_contract_witness:
  "\<exists>rc s'. tcp_write_ev broken_sys [1, 2] broken_conn = (rc, Some (StError SEVENT_ERR_WRITE), s')
     \<and> sevent_tcp_conn_write broken_sys demo_user (Some [1, 2]) 2 broken_conn = (rc, demo_user 4 0 (EvError SEVENT_ERR_WRITE) s')
     \<and> write_all (tcp_write_ev broken_sys) [[3], [4]] s' = (([SEVENT_ERR_INVAL, SEVENT_ERR_INVAL], []), s')"
proof -
  obtain rc ev s' where w: "tcp_write_ev broken_sys [1, 2] broken_conn = (rc, ev, s')" by (metis prod_cases3)
  have "(case tcp_write_ev broken_sys [1, 2] broken_conn of (rc, ev, s') \<Rightarrow> (ev, tc_on_error (fst s'), tc_user_data (fst s')))
      = (Some (StError SEVENT_ERR_WRITE), Some 4, 0)" by code_simp
  then have ev: "ev = Some (StError SEVENT_ERR_WRITE)" "tc_on_error (fst s') = Some 4" "tc_user_data (fst s') = 0" using w by simp_all
  then show ?thesis using tcp_write_contract [OF w, of demo_user "[[3], [4]]"] w
    by (simp add: deliver_event_def numeral_2_eq_2)
qed

end
