(* ===== verification/Tcp_Acceptor.thy ===== *)
theory Tcp_Acceptor
  imports Tcp_Conn
begin

text \<open>
  \<^verbatim>\<open>src/tcp_acceptor.c\<close>: a listening socket on the event loop. The acceptor object is a record
  that lives until its deferred cleanup runs; \<open>aq_obj\<close> is \<^term>\<open>None\<close> once it is freed and a
  function that would touch it then is \<^term>\<open>None\<close>, as is one that does not return. The system
  calls are the parameter \<open>sy\<close>, the user's \<open>on_accept\<close> is the parameter \<open>user\<close>. The history
  \<open>aq_log\<close> records what the acceptor did to descriptors and is never read; \<open>aq_due\<close> counts the
  posted cleanups that the loop has still to run. Locks are left out: a locked region is one step.
\<close>

section \<open>The acceptor\<close>

definition SEVENT_ACCEPTOR_BACKLOG :: int where "SEVENT_ACCEPTOR_BACKLOG = 8"

record tcp_acceptor =
  ac_fd :: int
  ac_io_handle :: "addr option"
  ac_port :: int
  ac_destroyed :: bool
  ac_on_accept :: "cb option"
  ac_user_data :: udata

datatype acc_act = AccOpened int | AccClosed int | AccHanded int

record 'u acc_st =
  aq_self :: udata
  aq_obj :: "tcp_acceptor option"
  aq_ctx :: "'u sevent_context"
  aq_due :: nat
  aq_log :: "acc_act list"

text \<open>
  \<open>as_nonblock\<close> is the pair of \<open>fcntl\<close> calls, \<open>as_pton\<close> the address \<open>inet_pton\<close> parses,
  \<open>as_getsockname\<close> the bound port in host order.
\<close>

record 'u acc_sys =
  as_malloc :: "'u allocator"
  as_socket :: "'u \<Rightarrow> int \<times> 'u"
  as_reuseaddr :: "int \<Rightarrow> 'u \<Rightarrow> 'u"
  as_nonblock :: "int \<Rightarrow> 'u \<Rightarrow> bool \<times> 'u"
  as_pton :: "string \<Rightarrow> 32 word option"
  as_bind :: "int \<Rightarrow> 32 word \<Rightarrow> 16 word \<Rightarrow> 'u \<Rightarrow> bool \<times> 'u"
  as_listen :: "int \<Rightarrow> int \<Rightarrow> 'u \<Rightarrow> bool \<times> 'u"
  as_getsockname :: "int \<Rightarrow> 'u \<Rightarrow> 16 word option \<times> 'u"
  as_accept :: "int \<Rightarrow> 'u \<Rightarrow> int \<times> 'u"
  as_close :: "int \<Rightarrow> 'u \<Rightarrow> 'u"

type_synonym 'u acc_user = "cb \<Rightarrow> udata \<Rightarrow> int \<Rightarrow> 'u acc_st \<Rightarrow> 'u acc_st option"

definition on_accept_ready_cb :: cb where "on_accept_ready_cb = 7"
definition acc_cleanup_cb :: cb where "acc_cleanup_cb = 8"

definition acc_put :: "tcp_acceptor \<Rightarrow> 'u acc_st \<Rightarrow> 'u acc_st" where
  "acc_put a s = s\<lparr>aq_obj := Some a\<rparr>"

definition acc_logged :: "acc_act \<Rightarrow> 'u acc_st \<Rightarrow> 'u acc_st" where
  "acc_logged x s = s\<lparr>aq_log := aq_log s @ [x]\<rparr>"

definition acc_call :: "('u \<Rightarrow> 'r \<times> 'u) \<Rightarrow> 'u acc_st \<Rightarrow> 'r \<times> 'u acc_st" where
  "acc_call f s = (case env_call f (aq_ctx s) of (r, c) \<Rightarrow> (r, s\<lparr>aq_ctx := c\<rparr>))"

text \<open>\<open>close(fd)\<close>.\<close>

definition acc_close_fd :: "'u acc_sys \<Rightarrow> int \<Rightarrow> 'u acc_st \<Rightarrow> 'u acc_st" where
  "acc_close_fd sy fd s = acc_logged (AccClosed fd) (s\<lparr>aq_ctx := env_do (as_close sy fd) (aq_ctx s)\<rparr>)"

section \<open>Accepting\<close>

partial_function (option) accept_loop :: "'u acc_sys \<Rightarrow> 'u acc_user \<Rightarrow> 'u acc_st \<Rightarrow> 'u acc_st option" where
  "accept_loop sy user s = do {
     a \<leftarrow> aq_obj s;
     (case acc_call (as_accept sy (ac_fd a)) s of (fd, s) \<Rightarrow>
        if fd < 0 then Some s
        else do {
          f \<leftarrow> ac_on_accept a;
          s \<leftarrow> user f (ac_user_data a) fd (acc_logged (AccHanded fd) s);
          a \<leftarrow> aq_obj s;
          if ac_destroyed a then Some s else accept_loop sy user s
        })
   }"

definition on_accept_ready :: "'u acc_sys \<Rightarrow> 'u acc_user \<Rightarrow> 'u acc_st \<Rightarrow> 'u acc_st option" where
  "on_accept_ready sy user s = do {
     a \<leftarrow> aq_obj s;
     if ac_destroyed a then Some s else accept_loop sy user s
   }"

section \<open>Public functions\<close>

definition acc_close_io :: "'u acc_sys \<Rightarrow> 'u acc_st \<Rightarrow> 'u acc_st option" where
  "acc_close_io sy s = do {
     a \<leftarrow> aq_obj s;
     let (a, s) = (case ac_io_handle a of
                     None \<Rightarrow> (a, s)
                   | Some h \<Rightarrow> (a\<lparr>ac_io_handle := None\<rparr>, s\<lparr>aq_ctx := sevent_io_unregister h (aq_ctx s)\<rparr>));
     let (a, s) = (if 0 \<le> ac_fd a then (a\<lparr>ac_fd := SEVENT_INVALID_SOCKET\<rparr>, acc_close_fd sy (ac_fd a) s) else (a, s));
     Some (acc_put (a\<lparr>ac_port := -1\<rparr>) s)
   }"

text \<open>The pointer \<open>self\<close> the allocator returns, if it does; \<open>ev\<close> is the context, which may be NULL.\<close>

definition sevent_tcp_acceptor_create :: "udata option \<Rightarrow> 'u sevent_context option \<Rightarrow> 'u acc_st option" where
  "sevent_tcp_acceptor_create self ev =
     (case (ev, self) of
        (Some c, Some p) \<Rightarrow>
          Some \<lparr>aq_self = p,
                aq_obj = Some \<lparr>ac_fd = SEVENT_INVALID_SOCKET, ac_io_handle = None, ac_port = -1,
                               ac_destroyed = False, ac_on_accept = None, ac_user_data = 0\<rparr>,
                aq_ctx = c, aq_due = 0, aq_log = []\<rparr>
      | _ \<Rightarrow> None)"

text \<open>The part of \<open>listen\<close> that works on the new descriptor; \<open>Inl\<close> is the error it returns, with the descriptor closed.\<close>

definition acc_bind :: "'u acc_sys \<Rightarrow> int \<Rightarrow> string option \<Rightarrow> 16 word \<Rightarrow> int \<Rightarrow> 'u acc_st \<Rightarrow> (int + 16 word) \<times> 'u acc_st" where
  "acc_bind sy fd bind_addr port backlog s =
     (let s = s\<lparr>aq_ctx := env_do (as_reuseaddr sy fd) (aq_ctx s)\<rparr>;
          (ok, s) = acc_call (as_nonblock sy fd) s
      in if \<not> ok then (Inl SEVENT_ERR_LISTEN, acc_close_fd sy fd s)
         else case (case bind_addr of None \<Rightarrow> Some 0 | Some b \<Rightarrow> as_pton sy b) of
           None \<Rightarrow> (Inl SEVENT_ERR_INVAL, acc_close_fd sy fd s)
         | Some ip \<Rightarrow>
             let (ok, s) = acc_call (as_bind sy fd ip port) s
             in if \<not> ok then (Inl SEVENT_ERR_LISTEN, acc_close_fd sy fd s)
                else let (ok, s) = acc_call (as_listen sy fd backlog) s
                in if \<not> ok then (Inl SEVENT_ERR_LISTEN, acc_close_fd sy fd s)
                   else let (r, s) = acc_call (as_getsockname sy fd) s
                   in case r of
                        None \<Rightarrow> (Inl SEVENT_ERR_LISTEN, acc_close_fd sy fd s)
                      | Some p \<Rightarrow> (Inr p, s))"

definition sevent_tcp_acceptor_listen ::
  "'u acc_sys \<Rightarrow> string option \<Rightarrow> 16 word \<Rightarrow> int \<Rightarrow> cb option \<Rightarrow> udata \<Rightarrow> 'u acc_st \<Rightarrow> (int \<times> 'u acc_st) option" where
  "sevent_tcp_acceptor_listen sy bind_addr port backlog on_accept user_data s = do {
     a \<leftarrow> aq_obj s;
     if on_accept = None \<or> 0 \<le> ac_fd a then Some (SEVENT_ERR_INVAL, s)
     else (
       let backlog = (if backlog \<le> 0 then SEVENT_ACCEPTOR_BACKLOG else backlog);
           (fd, s) = acc_call (as_socket sy) s
       in if fd < 0 then Some (SEVENT_ERR_LISTEN, s)
          else case acc_bind sy fd bind_addr port backlog (acc_logged (AccOpened fd) s) of
            (Inl err, s) \<Rightarrow> Some (err, s)
          | (Inr p, s) \<Rightarrow>
              let (r, c) = sevent_io_register (as_malloc sy)
                    \<lparr>h_fd = fd, h_io_read = Some on_accept_ready_cb, h_io_write = None, h_data = aq_self s\<rparr> (aq_ctx s);
                  s = acc_put (a\<lparr>ac_fd := fd, ac_port := uint p, ac_on_accept := on_accept, ac_user_data := user_data,
                                 ac_io_handle := r\<rparr>) (s\<lparr>aq_ctx := c\<rparr>)
              in if r = None then map_option (\<lambda>s. (SEVENT_ERR_NOMEM, s)) (acc_close_io sy s)
                 else Some (0, s))
   }"

definition sevent_tcp_acceptor_port :: "'u acc_st \<Rightarrow> int option" where
  "sevent_tcp_acceptor_port s = map_option ac_port (aq_obj s)"

definition sevent_tcp_acceptor_close :: "'u acc_sys \<Rightarrow> 'u acc_st \<Rightarrow> 'u acc_st option" where
  "sevent_tcp_acceptor_close sy s = acc_close_io sy s"

definition acc_cleanup :: "'u acc_st \<Rightarrow> 'u acc_st option" where
  "acc_cleanup s = (case aq_obj s of None \<Rightarrow> None | Some a \<Rightarrow> Some (s\<lparr>aq_obj := None\<rparr>))"

definition sevent_tcp_acceptor_destroy :: "'u acc_sys \<Rightarrow> 'u acc_st \<Rightarrow> 'u acc_st option" where
  "sevent_tcp_acceptor_destroy sy s = do {
     a \<leftarrow> aq_obj s;
     s \<leftarrow> sevent_tcp_acceptor_close sy (acc_put (a\<lparr>ac_destroyed := True\<rparr>) s);
     (case sevent_post (as_malloc sy) (Some acc_cleanup_cb) (aq_self s) (aq_ctx s) of (rc, c) \<Rightarrow>
        if rc \<noteq> SEVENT_SUCCESS then acc_cleanup (s\<lparr>aq_ctx := c\<rparr>)
        else Some (s\<lparr>aq_ctx := c, aq_due := Suc (aq_due s)\<rparr>))
   }"

section \<open>The invariant\<close>

fun fd_step :: "int list \<Rightarrow> acc_act \<Rightarrow> int list" where
  "fd_step fds (AccOpened fd) = fds @ [fd]"
| "fd_step fds (AccClosed fd) = remove1 fd fds"
| "fd_step fds (AccHanded fd) = fds"

text \<open>The listening descriptors that were opened and not closed.\<close>

definition open_fds :: "acc_act list \<Rightarrow> int list" where
  "open_fds log = foldl fd_step [] log"

lemma open_fds_simps [simp]: "open_fds [] = []" "open_fds (log @ log') = foldl fd_step (open_fds log) log'"
  by (simp_all add: open_fds_def)

definition acc_fields :: "tcp_acceptor \<Rightarrow> bool" where
  "acc_fields a \<longleftrightarrow>
     (if 0 \<le> ac_fd a then ac_io_handle a \<noteq> None \<and> 0 \<le> ac_port a \<and> ac_port a < 65536 \<and> ac_on_accept a \<noteq> None \<and> \<not> ac_destroyed a
      else ac_fd a = SEVENT_INVALID_SOCKET \<and> ac_io_handle a = None \<and> ac_port a = -1)"

definition acc_inv :: "'u acc_st \<Rightarrow> bool" where
  "acc_inv s \<longleftrightarrow> wfc (aq_ctx s) \<and>
     (case aq_obj s of
        None \<Rightarrow> own_io (aq_self s) (aq_ctx s) = {} \<and> open_fds (aq_log s) = [] \<and> aq_due s = 0
      | Some a \<Rightarrow> acc_fields a
          \<and> own_io (aq_self s) (aq_ctx s) = (case ac_io_handle a of None \<Rightarrow> {} | Some p \<Rightarrow> {(p, Some on_accept_ready_cb, None)})
          \<and> open_fds (aq_log s) = (if 0 \<le> ac_fd a then [ac_fd a] else [])
          \<and> aq_due s = (if ac_destroyed a then 1 else 0))"

text \<open>Nothing listens: the state of a new acceptor and of one that was closed.\<close>

definition acc_idle :: "tcp_acceptor \<Rightarrow> bool" where
  "acc_idle a \<longleftrightarrow> ac_fd a = SEVENT_INVALID_SOCKET \<and> ac_io_handle a = None \<and> ac_port a = -1"

lemmas acc_defs = acc_inv_def acc_fields_def acc_idle_def SEVENT_INVALID_SOCKET_def

lemma returns_not_None: "returns m P \<Longrightarrow> m \<noteq> None"
  by (cases m) simp_all

lemma acc_call_eq [simp]: "acc_call f s = (fst (f (cx_env (aq_ctx s))), s\<lparr>aq_ctx := (aq_ctx s)\<lparr>cx_env := snd (f (cx_env (aq_ctx s)))\<rparr>\<rparr>)"
  by (simp add: acc_call_def env_call_def split: prod.splits)

lemma acc_st_sel [simp]:
  "aq_obj (acc_put a s) = Some a" "aq_ctx (acc_put a s) = aq_ctx s" "aq_self (acc_put a s) = aq_self s"
  "aq_log (acc_put a s) = aq_log s" "aq_due (acc_put a s) = aq_due s"
  "aq_obj (acc_logged x s) = aq_obj s" "aq_ctx (acc_logged x s) = aq_ctx s" "aq_self (acc_logged x s) = aq_self s"
  "aq_log (acc_logged x s) = aq_log s @ [x]" "aq_due (acc_logged x s) = aq_due s"
  "aq_obj (acc_close_fd sy fd s) = aq_obj s" "aq_self (acc_close_fd sy fd s) = aq_self s" "aq_due (acc_close_fd sy fd s) = aq_due s"
  "aq_log (acc_close_fd sy fd s) = aq_log s @ [AccClosed fd]" "aq_ctx (acc_close_fd sy fd s) = env_do (as_close sy fd) (aq_ctx s)"
  by (simp_all add: acc_put_def acc_logged_def acc_close_fd_def)

section \<open>Every operation keeps it\<close>

text \<open>\<open>same_ctx\<close>: only the rest of the program state differs.\<close>

definition same_ctx :: "'u sevent_context \<Rightarrow> 'u sevent_context \<Rightarrow> bool" where
  "same_ctx c c' \<longleftrightarrow> (\<exists>u. c' = c\<lparr>cx_env := u\<rparr>)"

lemma same_ctx_intros [simp]:
  "same_ctx c c" "same_ctx c (env_do f c)" "same_ctx c (c\<lparr>cx_env := u\<rparr>)"
  by (auto simp: same_ctx_def env_do_def intro: exI [of _ "cx_env c"])

lemma same_ctx_trans: "same_ctx a b \<Longrightarrow> same_ctx b c \<Longrightarrow> same_ctx a c"
  by (auto simp: same_ctx_def)

lemma same_ctx_own: "same_ctx c c' \<Longrightarrow> own_io p c' = own_io p c \<and> wfc c' = wfc c"
  by (auto simp: same_ctx_def)

lemma acc_close_io_effect:
  assumes "aq_obj s = Some a" "wfc (aq_ctx s)"
    "own_io (aq_self s) (aq_ctx s) \<subseteq> (case ac_io_handle a of None \<Rightarrow> {} | Some p \<Rightarrow> {(p, Some on_accept_ready_cb, None)})"
  shows "returns (acc_close_io sy s) (\<lambda>s'. \<exists>c. wfc c \<and> own_io (aq_self s) c = {} \<and>
    s' = s\<lparr>aq_obj := Some (a\<lparr>ac_io_handle := None, ac_fd := (if 0 \<le> ac_fd a then SEVENT_INVALID_SOCKET else ac_fd a), ac_port := -1\<rparr>),
      aq_ctx := c, aq_log := aq_log s @ (if 0 \<le> ac_fd a then [AccClosed (ac_fd a)] else [])\<rparr>)"
proof -
  define c where "c = (case ac_io_handle a of None \<Rightarrow> aq_ctx s | Some h \<Rightarrow> sevent_io_unregister h (aq_ctx s))"
  have c: "wfc c" "own_io (aq_self s) c = {}"
    using assms(2,3) by (fastforce simp: c_def wfc_api own_io_unregister split: option.splits)+
  show ?thesis
  proof (cases "0 \<le> ac_fd a")
    case True
    then show ?thesis using assms(1) c
      by (cases s; cases a; cases "ac_io_handle a")
        (auto simp: acc_close_io_def c_def acc_put_def acc_close_fd_def acc_logged_def intro!: exI [of _ "env_do (as_close sy (ac_fd a)) c"])
  next
    case False
    then show ?thesis using assms(1) c
      by (cases s; cases a; cases "ac_io_handle a")
        (auto simp: acc_close_io_def c_def acc_put_def intro!: exI [of _ c])
  qed
qed


lemma acc_close_keeps:
  assumes "acc_inv s" "aq_obj s \<noteq> None"
  shows "returns (sevent_tcp_acceptor_close sy s) (\<lambda>s'. acc_inv s' \<and> aq_self s' = aq_self s \<and> aq_due s' = aq_due s
    \<and> (\<exists>a a'. aq_obj s = Some a \<and> aq_obj s' = Some a' \<and> acc_idle a' \<and> ac_destroyed a' = ac_destroyed a))"
proof -
  obtain a where a: "aq_obj s = Some a" using assms(2) by blast
  have "returns (acc_close_io sy s) (\<lambda>s'. \<exists>c. wfc c \<and> own_io (aq_self s) c = {} \<and>
    s' = s\<lparr>aq_obj := Some (a\<lparr>ac_io_handle := None, ac_fd := (if 0 \<le> ac_fd a then SEVENT_INVALID_SOCKET else ac_fd a), ac_port := -1\<rparr>),
      aq_ctx := c, aq_log := aq_log s @ (if 0 \<le> ac_fd a then [AccClosed (ac_fd a)] else [])\<rparr>)"
    using assms(1) a by (intro acc_close_io_effect) (auto simp: acc_inv_def)
  then show ?thesis
    unfolding sevent_tcp_acceptor_close_def
    by (rule returns_mono) (use assms(1) a in \<open>auto simp: acc_defs split: if_splits\<close>)
qed

lemma acc_destroy_keeps:
  assumes "acc_inv s" "aq_obj s = Some a" "\<not> ac_destroyed a" "malloc_fresh (as_malloc sy)"
  shows "returns (sevent_tcp_acceptor_destroy sy s) (\<lambda>s'. acc_inv s' \<and> aq_self s' = aq_self s
    \<and> (aq_obj s' \<noteq> None \<longleftrightarrow> aq_due s' = 1) \<and> (\<forall>a'. aq_obj s' = Some a' \<longrightarrow> ac_destroyed a'))"
proof -
  let ?s = "acc_put (a\<lparr>ac_destroyed := True\<rparr>) s"
  have "returns (acc_close_io sy ?s) (\<lambda>s'. \<exists>c. wfc c \<and> own_io (aq_self ?s) c = {} \<and>
    s' = ?s\<lparr>aq_obj := Some (a\<lparr>ac_destroyed := True\<rparr>\<lparr>ac_io_handle := None,
        ac_fd := (if 0 \<le> ac_fd (a\<lparr>ac_destroyed := True\<rparr>) then SEVENT_INVALID_SOCKET else ac_fd (a\<lparr>ac_destroyed := True\<rparr>)), ac_port := -1\<rparr>),
      aq_ctx := c, aq_log := aq_log ?s @ (if 0 \<le> ac_fd (a\<lparr>ac_destroyed := True\<rparr>) then [AccClosed (ac_fd (a\<lparr>ac_destroyed := True\<rparr>))] else [])\<rparr>)"
    using assms(1,2) by (intro acc_close_io_effect) (auto simp: acc_inv_def)
  then obtain s1 c where s1: "acc_close_io sy ?s = Some s1" "wfc c" "own_io (aq_self s) c = {}"
    "s1 = s\<lparr>aq_obj := Some (a\<lparr>ac_destroyed := True, ac_io_handle := None, ac_fd := (if 0 \<le> ac_fd a then SEVENT_INVALID_SOCKET else ac_fd a), ac_port := -1\<rparr>),
      aq_ctx := c, aq_log := aq_log s @ (if 0 \<le> ac_fd a then [AccClosed (ac_fd a)] else [])\<rparr>"
    by (auto elim!: returnsE simp: acc_put_def cong: if_cong)
  obtain rc c' where p: "sevent_post (as_malloc sy) (Some acc_cleanup_cb) (aq_self s) c = (rc, c')" by (rule prod.exhaust)
  have c': "wfc c'" "own_io (aq_self s) c' = {}"
    using wfc_api(5) [OF s1(2) assms(4), of "Some acc_cleanup_cb" "aq_self s"]
      own_post(1) [OF s1(2) assms(4), of "aq_self s" "Some acc_cleanup_cb" "aq_self s"] p s1(3) by simp_all
  show ?thesis
    using assms(1-3) s1 p c'
    by (auto simp: sevent_tcp_acceptor_destroy_def sevent_tcp_acceptor_close_def acc_cleanup_def acc_defs)
qed

text \<open>\<open>acc_bind\<close> touches neither the object nor the loop; on an error the descriptor is closed again.\<close>

lemma acc_bind_effect:
  assumes "acc_bind sy fd b port bl s = (r, s')"
  shows "aq_obj s' = aq_obj s" "aq_self s' = aq_self s" "aq_due s' = aq_due s" "same_ctx (aq_ctx s) (aq_ctx s')"
    "aq_log s' = aq_log s @ (case r of Inl e \<Rightarrow> [AccClosed fd] | Inr p \<Rightarrow> [])"
    "\<And>e. r = Inl e \<Longrightarrow> e = SEVENT_ERR_LISTEN \<or> e = SEVENT_ERR_INVAL \<and> (\<exists>x. b = Some x \<and> as_pton sy x = None)"
  using assms by (auto simp: acc_bind_def Let_def same_ctx_def env_do_def split: if_splits option.splits prod.splits)

text \<open>What \<open>listen\<close> did: it listens, or it returned an error and nothing listens and nothing is left open.\<close>

definition listened :: "int \<Rightarrow> cb option \<Rightarrow> udata \<Rightarrow> tcp_acceptor \<Rightarrow> tcp_acceptor \<Rightarrow> bool" where
  "listened rc on_accept ud a a' \<longleftrightarrow> ac_destroyed a' = ac_destroyed a \<and>
     (if rc = 0 then 0 \<le> ac_fd a' \<and> ac_on_accept a' = on_accept \<and> ac_user_data a' = ud
      else acc_idle a' \<and> rc \<in> {SEVENT_ERR_INVAL, SEVENT_ERR_LISTEN, SEVENT_ERR_NOMEM})"

lemma acc_listen_keeps:
  assumes "acc_inv s" "aq_obj s = Some a" "\<not> ac_destroyed a" "malloc_fresh (as_malloc sy)" "ac_fd a < 0" "on_accept \<noteq> None"
  shows "returns (sevent_tcp_acceptor_listen sy b port bl on_accept ud s) (\<lambda>(rc, s'). acc_inv s' \<and> aq_self s' = aq_self s
    \<and> aq_due s' = aq_due s \<and> (\<exists>a'. aq_obj s' = Some a' \<and> listened rc on_accept ud a a'))"
proof -
  have i: "acc_idle a" "wfc (aq_ctx s)" "own_io (aq_self s) (aq_ctx s) = {}" "open_fds (aq_log s) = []" "aq_due s = 0"
    using assms(1-3,5) by (auto simp: acc_defs)
  define u where "u = as_socket sy (cx_env (aq_ctx s))"
  let ?s1 = "s\<lparr>aq_ctx := (aq_ctx s)\<lparr>cx_env := snd u\<rparr>\<rparr>"
  define bl' where "bl' = (if bl \<le> 0 then SEVENT_ACCEPTOR_BACKLOG else bl)"
  obtain r s2 where b: "acc_bind sy (fst u) b port bl' (acc_logged (AccOpened (fst u)) ?s1) = (r, s2)" by (rule prod.exhaust)
  note e = acc_bind_effect [OF b]
  have s2: "aq_obj s2 = Some a" "aq_self s2 = aq_self s" "aq_due s2 = 0" "wfc (aq_ctx s2)" "own_io (aq_self s) (aq_ctx s2) = {}"
    "open_fds (aq_log s2) = (case r of Inl e \<Rightarrow> [] | Inr p \<Rightarrow> [fst u])"
    using e(1-5) i assms(2) same_ctx_own [OF e(4)] by (auto split: sum.splits)
  show ?thesis
  proof (cases "fst u < 0")
    case True
    then show ?thesis using assms i
      by (simp add: sevent_tcp_acceptor_listen_def u_def [symmetric] listened_def acc_defs err_defs)
  next
    case False
    show ?thesis
    proof (cases r)
      case (Inl err)
      then have "err \<noteq> 0 \<and> err \<in> {SEVENT_ERR_INVAL, SEVENT_ERR_LISTEN, SEVENT_ERR_NOMEM}" using e(6) by (auto simp: err_defs)
      then show ?thesis using False Inl assms(2,3,5,6) i s2 b
        by (auto simp: sevent_tcp_acceptor_listen_def u_def [symmetric] bl'_def [symmetric] listened_def acc_defs)
    next
      case (Inr p)
      let ?h = "\<lparr>h_fd = fst u, h_io_read = Some on_accept_ready_cb, h_io_write = None, h_data = aq_self s\<rparr>"
      obtain h c where c: "sevent_io_register (as_malloc sy) ?h (aq_ctx s2) = (h, c)" by (rule prod.exhaust)
      have wc: "wfc c" using wfc_api(3) [OF s2(4) assms(4), of ?h] c by simp
      note own = own_io_register(1) [OF s2(4) assms(4) c, of "aq_self s"]
      have p: "0 \<le> uint p" "uint p < 65536" using uint_lt2p [of p] by simp_all
      let ?a = "a\<lparr>ac_fd := fst u, ac_port := uint p, ac_on_accept := on_accept, ac_user_data := ud, ac_io_handle := h\<rparr>"
      let ?s3 = "acc_put ?a (s2\<lparr>aq_ctx := c\<rparr>)"
      have l: "sevent_tcp_acceptor_listen sy b port bl on_accept ud s =
        (if h = None then map_option (\<lambda>s. (SEVENT_ERR_NOMEM, s)) (acc_close_io sy ?s3) else Some (0, ?s3))"
        using False Inr assms(2,5,6) b c s2(2)
        by (auto simp: sevent_tcp_acceptor_listen_def Let_def u_def [symmetric] bl'_def [symmetric])
      show ?thesis
      proof (cases h)
        case None
        have "returns (acc_close_io sy ?s3) (\<lambda>s'. \<exists>c. wfc c \<and> own_io (aq_self ?s3) c = {} \<and>
          s' = ?s3\<lparr>aq_obj := Some (?a\<lparr>ac_io_handle := None, ac_fd := (if 0 \<le> ac_fd ?a then SEVENT_INVALID_SOCKET else ac_fd ?a), ac_port := -1\<rparr>),
            aq_ctx := c, aq_log := aq_log ?s3 @ (if 0 \<le> ac_fd ?a then [AccClosed (ac_fd ?a)] else [])\<rparr>)"
          using own s2 wc None by (intro acc_close_io_effect) auto
        then show ?thesis unfolding l using None
          by (simp, elim returns_mono)
            (use False Inr s2 assms(3) i(5) in \<open>auto simp: acc_defs listened_def err_defs\<close>)
      next
        case (Some q)
        then show ?thesis unfolding l
          using own s2 wc False Inr p assms(3,6) i(5) by (auto simp: acc_defs listened_def)
      qed
    qed
  qed
qed

section \<open>The accept loop\<close>

text \<open>
  \<open>accept_bound sy m\<close>: \<open>m\<close> bounds the connections the kernel can still hand out. \<open>acc_user_ok\<close>: the
  user's callback returns, leaves the object allocated and the acceptor well formed.
\<close>

definition accept_bound :: "'u acc_sys \<Rightarrow> ('u \<Rightarrow> nat) \<Rightarrow> bool" where
  "accept_bound sy m \<longleftrightarrow> (\<forall>fd u. 0 \<le> fst (as_accept sy fd u) \<longrightarrow> 0 \<le> fd \<and> m (snd (as_accept sy fd u)) < m u)"

definition acc_user_ok :: "('u \<Rightarrow> nat) \<Rightarrow> 'u acc_user \<Rightarrow> bool" where
  "acc_user_ok m user \<longleftrightarrow> (\<forall>f d fd s. acc_inv s \<and> aq_obj s \<noteq> None \<longrightarrow>
     returns (user f d fd s) (\<lambda>s'. acc_inv s' \<and> aq_obj s' \<noteq> None \<and> aq_self s' = aq_self s
       \<and> m (cx_env (aq_ctx s')) \<le> m (cx_env (aq_ctx s))))"

lemma acc_user_okD:
  "acc_user_ok m user \<Longrightarrow> acc_inv s \<Longrightarrow> aq_obj s \<noteq> None \<Longrightarrow> returns (user f d fd s)
     (\<lambda>s'. acc_inv s' \<and> aq_obj s' \<noteq> None \<and> aq_self s' = aq_self s \<and> m (cx_env (aq_ctx s')) \<le> m (cx_env (aq_ctx s)))"
  unfolding acc_user_ok_def by blast

lemma acc_inv_env [simp]: "acc_inv (s\<lparr>aq_ctx := (aq_ctx s)\<lparr>cx_env := u\<rparr>\<rparr>) = acc_inv s"
  by (cases "aq_obj s") (simp_all add: acc_inv_def)

lemma acc_inv_handed [simp]: "acc_inv (acc_logged (AccHanded fd) s) = acc_inv s"
  by (cases "aq_obj s") (simp_all add: acc_inv_def)

lemma accept_loop_keeps:
  assumes "accept_bound sy m" "acc_user_ok m user" "acc_inv s" "aq_obj s \<noteq> None"
  shows "returns (accept_loop sy user s) (\<lambda>s'. acc_inv s' \<and> aq_obj s' \<noteq> None \<and> aq_self s' = aq_self s)"
  using assms(3,4)
proof (induction "m (cx_env (aq_ctx s))" arbitrary: s rule: less_induct)
  case less
  obtain a where a: "aq_obj s = Some a" using less.prems by auto
  define v where "v = as_accept sy (ac_fd a) (cx_env (aq_ctx s))"
  let ?s = "s\<lparr>aq_ctx := (aq_ctx s)\<lparr>cx_env := snd v\<rparr>\<rparr>"
  show ?case
  proof (cases "fst v < 0")
    case True
    then show ?thesis using a less.prems by (subst accept_loop.simps) (simp add: v_def [symmetric])
  next
    case False
    have v: "0 \<le> ac_fd a" "m (snd v) < m (cx_env (aq_ctx s))"
      using assms(1) False unfolding accept_bound_def v_def by (metis not_less)+
    then obtain f where f: "ac_on_accept a = Some f" using less.prems a by (auto simp: acc_defs)
    have ih: "returns (accept_loop sy user x) (\<lambda>s'. acc_inv s' \<and> aq_obj s' \<noteq> None \<and> aq_self s' = aq_self s)"
      if "acc_inv x" "aq_obj x \<noteq> None" "aq_self x = aq_self s" "m (cx_env (aq_ctx x)) < m (cx_env (aq_ctx s))" for x
      using less.hyps [of x] that by simp
    have "returns (user f (ac_user_data a) (fst v) (acc_logged (AccHanded (fst v)) ?s))
      (\<lambda>x. acc_inv x \<and> aq_obj x \<noteq> None \<and> aq_self x = aq_self s \<and> m (cx_env (aq_ctx x)) < m (cx_env (aq_ctx s)))"
      by (rule returns_mono [OF acc_user_okD [OF assms(2)]]) (use less.prems v(2) in auto)
    then have "returns (user f (ac_user_data a) (fst v) (acc_logged (AccHanded (fst v)) ?s))
      (\<lambda>x. returns (aq_obj x) (\<lambda>a. returns (if ac_destroyed a then Some x else accept_loop sy user x)
         (\<lambda>s'. acc_inv s' \<and> aq_obj s' \<noteq> None \<and> aq_self s' = aq_self s)))"
      by (rule returns_mono) (use ih in auto)
    then show ?thesis using a False f by (subst accept_loop.simps) (simp add: v_def [symmetric])
  qed
qed

lemma on_accept_ready_keeps:
  assumes "accept_bound sy m" "acc_user_ok m user" "acc_inv s" "aq_obj s \<noteq> None"
  shows "returns (on_accept_ready sy user s) (\<lambda>s'. acc_inv s' \<and> aq_obj s' \<noteq> None \<and> aq_self s' = aq_self s)"
  using assms accept_loop_keeps [OF assms] by (auto simp: on_accept_ready_def)

section \<open>What can happen to an acceptor\<close>

text \<open>
  The program creates an acceptor and, until it destroys it, calls its functions; the loop calls
  \<open>on_accept_ready\<close> while that is registered and the cleanup as often as it was posted; the rest of
  the program changes the context but not the acceptor's registrations.
\<close>

inductive acc_reach :: "'u acc_sys \<Rightarrow> 'u acc_user \<Rightarrow> 'u acc_st \<Rightarrow> bool" for sy user where
  reach_create: "sevent_tcp_acceptor_create (Some p) (Some c) = Some s \<Longrightarrow> wfc c \<Longrightarrow> own_io p c = {} \<Longrightarrow> acc_reach sy user s"
| reach_listen: "acc_reach sy user s \<Longrightarrow> aq_obj s = Some a \<Longrightarrow> \<not> ac_destroyed a
    \<Longrightarrow> sevent_tcp_acceptor_listen sy b port bl f ud s = Some (rc, s') \<Longrightarrow> acc_reach sy user s'"
| reach_close: "acc_reach sy user s \<Longrightarrow> aq_obj s = Some a \<Longrightarrow> \<not> ac_destroyed a
    \<Longrightarrow> sevent_tcp_acceptor_close sy s = Some s' \<Longrightarrow> acc_reach sy user s'"
| reach_destroy: "acc_reach sy user s \<Longrightarrow> aq_obj s = Some a \<Longrightarrow> \<not> ac_destroyed a
    \<Longrightarrow> sevent_tcp_acceptor_destroy sy s = Some s' \<Longrightarrow> acc_reach sy user s'"
| reach_ready: "acc_reach sy user s \<Longrightarrow> (h, Some on_accept_ready_cb, w) \<in> own_io (aq_self s) (aq_ctx s)
    \<Longrightarrow> on_accept_ready sy user s = Some s' \<Longrightarrow> acc_reach sy user s'"
| reach_cleanup: "acc_reach sy user s \<Longrightarrow> 0 < aq_due s \<Longrightarrow> acc_cleanup s = Some s'
    \<Longrightarrow> acc_reach sy user (s'\<lparr>aq_due := aq_due s - 1\<rparr>)"
| reach_others: "acc_reach sy user s \<Longrightarrow> wfc c \<Longrightarrow> own_io (aq_self s) c = own_io (aq_self s) (aq_ctx s)
    \<Longrightarrow> acc_reach sy user (s\<lparr>aq_ctx := c\<rparr>)"

lemma acc_listen_inv:
  assumes "acc_inv s" "aq_obj s = Some a" "\<not> ac_destroyed a" "malloc_fresh (as_malloc sy)"
  shows "returns (sevent_tcp_acceptor_listen sy b port bl f ud s) (\<lambda>(rc, s'). acc_inv s')"
proof (cases "f = None \<or> 0 \<le> ac_fd a")
  case True
  then show ?thesis using assms by (simp add: sevent_tcp_acceptor_listen_def)
next
  case False
  then show ?thesis using acc_listen_keeps [OF assms(1-4), of f b port bl ud] by (auto intro: returns_mono)
qed

lemma acc_registered_alive: "acc_inv s \<Longrightarrow> x \<in> own_io (aq_self s) (aq_ctx s) \<Longrightarrow> aq_obj s \<noteq> None"
  by (cases "aq_obj s") (auto simp: acc_inv_def)

lemma acc_reach_inv:
  assumes "acc_reach sy user s" "malloc_fresh (as_malloc sy)" "accept_bound sy m" "acc_user_ok m user"
  shows "acc_inv s"
  using assms(1)
proof induction
  case (reach_create p c s)
  then show ?case by (auto simp: sevent_tcp_acceptor_create_def acc_defs)
next
  case (reach_listen s a b port bl f ud rc s')
  then show ?case using acc_listen_inv [of s a sy b port bl f ud] assms(2) by simp
next
  case (reach_close s a s')
  then show ?case using acc_close_keeps [of s sy] by simp
next
  case (reach_destroy s a s')
  then show ?case using acc_destroy_keeps [of s a sy] assms(2) by simp
next
  case (reach_ready s h w s')
  then show ?case using on_accept_ready_keeps [OF assms(3,4), of s] acc_registered_alive by fastforce
next
  case (reach_cleanup s s')
  then show ?case by (auto simp: acc_inv_def acc_cleanup_def acc_fields_def split: option.splits if_splits)
next
  case (reach_others s c)
  then show ?case by (cases "aq_obj s") (auto simp: acc_inv_def)
qed

section \<open>Properties\<close>

text \<open>A concrete system for the witnesses: the rest of the program state is the queue of waiting connections.\<close>

definition demo_alloc :: "'u allocator" where
  "demo_alloc c = find (\<lambda>p. cx_heap c p = None) [0, 1, 2, 3]"

definition acc_demo_sys :: "int list acc_sys" where
  "acc_demo_sys = \<lparr>as_malloc = demo_alloc, as_socket = (\<lambda>u. (5, u)), as_reuseaddr = (\<lambda>_ u. u), as_nonblock = (\<lambda>_ u. (True, u)),
     as_pton = (\<lambda>x. if x = ''127.0.0.1'' then Some 0x7F000001 else None), as_bind = (\<lambda>_ _ p u. (p \<noteq> 80, u)),
     as_listen = (\<lambda>_ _ u. (True, u)), as_getsockname = (\<lambda>_ u. (Some 4711, u)),
     as_accept = (\<lambda>fd u. if fd < 0 then (-1, u) else case u of [] \<Rightarrow> (-1, u) | x # xs \<Rightarrow> if x < 0 then (-1, u) else (x, xs)),
     as_close = (\<lambda>_ u. u)\<rparr>"

definition demo_acc :: "int list \<Rightarrow> int list acc_st" where
  "demo_acc u = the (sevent_tcp_acceptor_create (Some 1) (sevent_create True True (Some 3) u))"

definition demo_listening :: "int list \<Rightarrow> int list acc_st" where
  "demo_listening u = snd (the (sevent_tcp_acceptor_listen acc_demo_sys (Some ''127.0.0.1'') 0 0 (Some 3) 42 (demo_acc u)))"

lemma demo_alloc_fresh: "malloc_fresh demo_alloc"
  by (auto simp: malloc_fresh_def demo_alloc_def find_Some_iff)

lemma demo_bound: "accept_bound acc_demo_sys length"
  by (auto simp: accept_bound_def acc_demo_sys_def split: list.splits)

lemma demo_acc_reach: "acc_reach acc_demo_sys user (demo_acc u)"
  by (rule reach_create [where p = 1 and c = "the (sevent_create True True (Some 3) u)"])
    (auto simp: demo_acc_def sevent_tcp_acceptor_create_def sevent_create_def own_io_def wfc_def
      intro!: exI [of _ "[]"] create_wf [of True True "Some 3" u, simplified sevent_create_def])

lemma demo_close_ok: "acc_user_ok length (\<lambda>f d fd s. sevent_tcp_acceptor_close acc_demo_sys s)"
proof -
  have env: "length (cx_env (aq_ctx s')) \<le> length (cx_env (aq_ctx s))" if "sevent_tcp_acceptor_close acc_demo_sys s = Some s'" for s s'
  proof -
    have "cx_env (sevent_io_unregister h c) = cx_env c" for h and c :: "int list sevent_context"
      by (simp add: sevent_io_unregister_def Let_def put_node_def sevent_wakeup_def split: option.splits)
    then show ?thesis using that
      by (auto simp: sevent_tcp_acceptor_close_def acc_close_io_def acc_put_def acc_close_fd_def acc_logged_def env_do_def
          acc_demo_sys_def Let_def split: option.splits if_splits bind_splits)
  qed
  show ?thesis unfolding acc_user_ok_def
  proof (intro allI impI, elim conjE)
    fix f d fd and s :: "int list acc_st"
    assume i: "acc_inv s" "aq_obj s \<noteq> None"
    show "returns (sevent_tcp_acceptor_close acc_demo_sys s) (\<lambda>s'. acc_inv s' \<and> aq_obj s' \<noteq> None \<and> aq_self s' = aq_self s
       \<and> length (cx_env (aq_ctx s')) \<le> length (cx_env (aq_ctx s)))"
      using acc_close_keeps [OF i, of acc_demo_sys] env by (auto simp: returns_def split: option.splits)
  qed
qed

lemma demo_fresh: "malloc_fresh (as_malloc acc_demo_sys)"
  using demo_alloc_fresh by (simp add: acc_demo_sys_def)

lemma demo_listening_inv: "acc_inv (demo_listening u)"
proof -
  have i: "acc_inv (demo_acc u)" by (rule acc_reach_inv [OF demo_acc_reach demo_fresh demo_bound demo_close_ok])
  have "aq_obj (demo_acc u) = Some \<lparr>ac_fd = -1, ac_io_handle = None, ac_port = -1, ac_destroyed = False, ac_on_accept = None,
      ac_user_data = 0\<rparr>"
    by (simp add: demo_acc_def sevent_tcp_acceptor_create_def sevent_create_def SEVENT_INVALID_SOCKET_def)
  from acc_listen_inv [OF i this _ demo_fresh, of "Some ''127.0.0.1''" 0 0 "Some 3" 42] show ?thesis
    unfolding demo_listening_def by (auto elim: returnsE)
qed



text \<open>
  C21. Listening is all or nothing: on an acceptor that does not listen, \<open>listen\<close> either returns 0 and
  then exactly one socket is open, it is registered for reading and the real port is known, or it
  returns one of the documented errors and then nothing is open, nothing is registered, the port
  is \<open>-1\<close> and it can be called again, whichever of the seven system calls or the allocation
  failed. On an acceptor that listens, or without a callback, it is refused and changes nothing.
\<close>

theorem listen_all_or_nothing:
  assumes "acc_inv s" "aq_obj s = Some a" "\<not> ac_destroyed a" "malloc_fresh (as_malloc sy)"
  shows "\<exists>rc s' a'. sevent_tcp_acceptor_listen sy b port bl f ud s = Some (rc, s') \<and> aq_obj s' = Some a' \<and>
    (if f = None \<or> 0 \<le> ac_fd a then rc = SEVENT_ERR_INVAL \<and> s' = s
     else if rc = 0 then open_fds (aq_log s') = [ac_fd a'] \<and> 0 \<le> ac_fd a' \<and> 0 \<le> ac_port a' \<and> ac_port a' < 65536
       \<and> ac_on_accept a' = f \<and> ac_user_data a' = ud
       \<and> (\<exists>h. ac_io_handle a' = Some h \<and> own_io (aq_self s') (aq_ctx s') = {(h, Some on_accept_ready_cb, None)})
     else rc \<in> {SEVENT_ERR_INVAL, SEVENT_ERR_LISTEN, SEVENT_ERR_NOMEM} \<and> open_fds (aq_log s') = []
       \<and> own_io (aq_self s') (aq_ctx s') = {} \<and> ac_fd a' = -1 \<and> ac_io_handle a' = None \<and> ac_port a' = -1 \<and> acc_inv s')"
proof (cases "f = None \<or> 0 \<le> ac_fd a")
  case True
  then show ?thesis using assms(2) by (auto simp: sevent_tcp_acceptor_listen_def)
next
  case False
  then obtain rc s' a' where "sevent_tcp_acceptor_listen sy b port bl f ud s = Some (rc, s')" "acc_inv s'" "aq_obj s' = Some a'"
    "listened rc f ud a a'"
    using acc_listen_keeps [OF assms, of f b port bl ud] by (auto elim!: returnsE)
  with False show ?thesis by (auto simp: acc_defs listened_def split: if_splits)
qed

theorem listen_all_or_nothing_witness:
  "acc_inv (demo_acc []) \<and> map_option fst (sevent_tcp_acceptor_listen acc_demo_sys None 80 5 (Some 3) 42 (demo_acc [])) = Some SEVENT_ERR_LISTEN
   \<and> (\<exists>rc s' a'. sevent_tcp_acceptor_listen acc_demo_sys None 80 5 (Some 3) 42 (demo_acc []) = Some (rc, s') \<and> aq_obj s' = Some a'
        \<and> open_fds (aq_log s') = [] \<and> ac_port a' = -1)"
proof -
  have i: "acc_inv (demo_acc [])" by (rule acc_reach_inv [OF demo_acc_reach demo_fresh demo_bound demo_close_ok])
  have o: "aq_obj (demo_acc []) = Some \<lparr>ac_fd = -1, ac_io_handle = None, ac_port = -1, ac_destroyed = False,
      ac_on_accept = None, ac_user_data = 0\<rparr>" by code_simp
  have r: "map_option fst (sevent_tcp_acceptor_listen acc_demo_sys None 80 5 (Some 3) 42 (demo_acc [])) = Some SEVENT_ERR_LISTEN"
    by code_simp
  show ?thesis
    using listen_all_or_nothing [OF i o _ demo_fresh, of None 80 5 "Some 3" 42] i r by (auto simp: err_defs)
qed

section \<open>Order of the accepted connections\<close>

text \<open>The elements up to and including the first one that satisfies \<open>P\<close>, and the rest.\<close>

fun take_until :: "('a \<Rightarrow> bool) \<Rightarrow> 'a list \<Rightarrow> 'a list" where
  "take_until P [] = []"
| "take_until P (x # xs) = (if P x then [x] else x # take_until P xs)"

text \<open>The connections given to the user, in order.\<close>

definition handed :: "acc_act list \<Rightarrow> int list" where
  "handed log = concat (map (\<lambda>x. case x of AccHanded fd \<Rightarrow> [fd] | _ \<Rightarrow> []) log)"

text \<open>
  \<open>queue_law\<close>: \<open>accept\<close> takes the first waiting connection and fails when none waits. \<open>polite\<close>: the user
  destroys the acceptor for the connections in \<open>stop\<close> and otherwise leaves it alone; in both cases it
  leaves the waiting connections alone.
\<close>

definition queue_law :: "'u acc_sys \<Rightarrow> ('u \<Rightarrow> int list) \<Rightarrow> bool" where
  "queue_law sy q \<longleftrightarrow> (\<forall>fd u. 0 \<le> fd \<longrightarrow>
     (case q u of [] \<Rightarrow> fst (as_accept sy fd u) < 0 \<and> q (snd (as_accept sy fd u)) = []
      | x # xs \<Rightarrow> 0 \<le> x \<and> fst (as_accept sy fd u) = x \<and> q (snd (as_accept sy fd u)) = xs))"

definition polite :: "('u \<Rightarrow> int list) \<Rightarrow> (int \<Rightarrow> bool) \<Rightarrow> 'u acc_user \<Rightarrow> bool" where
  "polite q stop user \<longleftrightarrow> (\<forall>f d fd s. aq_obj s \<noteq> None \<longrightarrow>
     returns (user f d fd s) (\<lambda>s'. q (cx_env (aq_ctx s')) = q (cx_env (aq_ctx s)) \<and> handed (aq_log s') = handed (aq_log s)
       \<and> (if stop fd then (\<exists>a. aq_obj s' = Some a \<and> ac_destroyed a) else aq_obj s' = aq_obj s)))"

lemma queue_lawD:
  assumes "queue_law sy q" "0 \<le> fd"
  shows "q u = [] \<Longrightarrow> fst (as_accept sy fd u) < 0 \<and> q (snd (as_accept sy fd u)) = []"
    "q u = x # xs \<Longrightarrow> 0 \<le> x \<and> fst (as_accept sy fd u) = x \<and> q (snd (as_accept sy fd u)) = xs"
  using assms(1) [unfolded queue_law_def, rule_format, OF assms(2), of u] by simp_all

lemma handed_append [simp]: "handed (l @ l') = handed l @ handed l'" "handed [AccHanded fd] = [fd]"
  by (simp_all add: handed_def)

lemma accept_loop_order:
  assumes "queue_law sy q" "polite q stop user" "aq_obj s = Some a" "0 \<le> ac_fd a" "ac_on_accept a = Some f" "\<not> ac_destroyed a"
  shows "returns (accept_loop sy user s) (\<lambda>s'. handed (aq_log s') = handed (aq_log s) @ take_until stop (q (cx_env (aq_ctx s)))
    \<and> q (cx_env (aq_ctx s')) = drop (length (take_until stop (q (cx_env (aq_ctx s))))) (q (cx_env (aq_ctx s))))"
  using assms(3)
proof (induction "q (cx_env (aq_ctx s))" arbitrary: s)
  case Nil
  then have "fst (as_accept sy (ac_fd a) (cx_env (aq_ctx s))) < 0" "q (snd (as_accept sy (ac_fd a) (cx_env (aq_ctx s)))) = []"
    using queue_lawD(1) [OF assms(1,4)] by simp_all
  then show ?case using Nil by (subst accept_loop.simps) simp
next
  case (Cons x xs)
  define v where "v = as_accept sy (ac_fd a) (cx_env (aq_ctx s))"
  let ?s = "acc_logged (AccHanded x) (s\<lparr>aq_ctx := (aq_ctx s)\<lparr>cx_env := snd v\<rparr>\<rparr>)"
  have v: "0 \<le> x" "fst v = x" "q (snd v) = xs"
    using queue_lawD(2) [OF assms(1,4) Cons.hyps(2) [symmetric]] by (simp_all add: v_def)
  have "returns (user f (ac_user_data a) x ?s) (\<lambda>s'. q (cx_env (aq_ctx s')) = xs \<and> handed (aq_log s') = handed (aq_log s) @ [x]
      \<and> (if stop x then (\<exists>a. aq_obj s' = Some a \<and> ac_destroyed a) else aq_obj s' = Some a))"
    using assms(2) [unfolded polite_def, rule_format, of ?s f "ac_user_data a" x] Cons.prems v(3)
    by (simp cong: if_cong)
  moreover have "returns (accept_loop sy user t) (\<lambda>s'. handed (aq_log s') = handed (aq_log s) @ x # take_until stop xs
      \<and> q (cx_env (aq_ctx s')) = drop (length (take_until stop xs)) xs)"
    if "q (cx_env (aq_ctx t)) = xs" "aq_obj t = Some a" "handed (aq_log t) = handed (aq_log s) @ [x]" for t
    using Cons.hyps(1) [of t] that by simp
  ultimately have "returns (user f (ac_user_data a) x ?s) (\<lambda>t. returns (aq_obj t) (\<lambda>b. returns
      (if ac_destroyed b then Some t else accept_loop sy user t)
      (\<lambda>s'. handed (aq_log s') = handed (aq_log s) @ take_until stop (x # xs)
        \<and> q (cx_env (aq_ctx s')) = drop (length (take_until stop (x # xs))) (x # xs))))"
    by (auto elim!: returnsE simp: assms(6) split: if_splits)
  then show ?case using Cons.prems v assms(5) unfolding Cons.hyps(2) [symmetric]
    by (subst accept_loop.simps) (simp add: v_def [symmetric])
qed


definition acc_demo_user :: "int list acc_user" where
  "acc_demo_user f d fd s = (case aq_obj s of
     None \<Rightarrow> None
   | Some a \<Rightarrow> if fd = 10 then sevent_tcp_acceptor_destroy (acc_demo_sys\<lparr>as_malloc := (\<lambda>c. Some 77)\<rparr>) s else Some s)"

lemma acc_demo_polite: "polite q (\<lambda>fd. fd = 10) acc_demo_user"
  by (auto simp: polite_def acc_demo_user_def sevent_tcp_acceptor_destroy_def sevent_tcp_acceptor_close_def acc_close_io_def
      acc_put_def acc_close_fd_def acc_logged_def env_do_def acc_demo_sys_def sevent_post_def sevent_io_unregister_def
      handed_def Let_def put_node_def sevent_wakeup_def err_defs split: option.splits prod.splits)


section \<open>Destroying without memory\<close>

text \<open>
  The file promises that the callback may destroy the acceptor. When the cleanup cannot be posted,
  \<open>destroy\<close> frees the object at once, and \<open>on_accept_ready\<close> then reads \<open>destroyed\<close> from the freed
  object: a use after free.
\<close>

theorem destroy_in_callback_without_memory:
  assumes "acc_inv s" "aq_obj s = Some a" "0 \<le> ac_fd a" "0 \<le> fst (as_accept sy (ac_fd a) (cx_env (aq_ctx s)))"
    "\<And>c. as_malloc sy c = None"
  shows "(\<forall>t. acc_inv t \<and> (\<exists>b. aq_obj t = Some b \<and> \<not> ac_destroyed b) \<longrightarrow>
      (\<exists>t'. sevent_tcp_acceptor_destroy sy t = Some t' \<and> aq_obj t' = None))
    \<and> on_accept_ready sy (\<lambda>f d fd t. sevent_tcp_acceptor_destroy sy t) s = None"
proof -
  have fresh: "malloc_fresh (as_malloc sy)" using assms(5) by (simp add: malloc_fresh_def)
  have d: "\<exists>t'. sevent_tcp_acceptor_destroy sy t = Some t' \<and> aq_obj t' = None"
    if "acc_inv t" "aq_obj t = Some b" "\<not> ac_destroyed b" for t b
    using acc_destroy_keeps [OF that fresh] assms(5)
    by (auto elim!: returnsE simp: sevent_tcp_acceptor_destroy_def sevent_post_def acc_cleanup_def err_defs split: bind_splits option.splits)
  obtain f where f: "ac_on_accept a = Some f" "\<not> ac_destroyed a" using assms(1-3) by (auto simp: acc_defs)
  let ?v = "as_accept sy (ac_fd a) (cx_env (aq_ctx s))"
  obtain t' where "sevent_tcp_acceptor_destroy sy (acc_logged (AccHanded (fst ?v)) (s\<lparr>aq_ctx := (aq_ctx s)\<lparr>cx_env := snd ?v\<rparr>\<rparr>)) = Some t'"
    "aq_obj t' = None"
    using d [of "acc_logged (AccHanded (fst ?v)) (s\<lparr>aq_ctx := (aq_ctx s)\<lparr>cx_env := snd ?v\<rparr>\<rparr>)" a] assms(1,2) f by auto
  then have "accept_loop sy (\<lambda>f d fd t. sevent_tcp_acceptor_destroy sy t) s = None"
    using assms(2,4) f by (subst accept_loop.simps) simp
  then show ?thesis using d assms(2) f by (auto simp: on_accept_ready_def)
qed

theorem destroy_in_callback_without_memory_witness:
  "let sy = acc_demo_sys\<lparr>as_malloc := (\<lambda>c. None)\<rparr>
   in acc_inv (demo_listening [9]) \<and> on_accept_ready sy (\<lambda>f d fd t. sevent_tcp_acceptor_destroy sy t) (demo_listening [9]) = None"
proof -
  let ?s = "demo_listening [9]"
  have o: "aq_obj ?s = Some \<lparr>ac_fd = 5, ac_io_handle = Some 0, ac_port = 4711, ac_destroyed = False, ac_on_accept = Some 3, ac_user_data = 42\<rparr>"
    and e: "cx_env (aq_ctx ?s) = [9]" by code_simp+
  have "acc_inv ?s" by (rule demo_listening_inv)
  then show ?thesis
    using destroy_in_callback_without_memory [OF _ o, of "acc_demo_sys\<lparr>as_malloc := (\<lambda>c. None)\<rparr>"] e
    by (simp add: acc_demo_sys_def)
qed

end
