(* ===== verification/Ssl_Mbedtls.thy ===== *)
theory Ssl_Mbedtls
  imports Tls_Props
begin

text \<open>
  \<^verbatim>\<open>src/ssl/ssl_mbedtls.c\<close>: the mbedTLS backend. The library is a parameter; what is modelled is what
  the backend adds to it: the two byte buffers between the library and the caller, the translation
  of result codes, the configuration of a new connection and the release of everything on failure.
  A library function that does input or output calls the backend's \<open>bio\<close> functions while it runs: it
  is a tree of such calls (\<open>bio_prog\<close>), so that it may call them in any order, any number of times,
  and decide by what they return. The C arrays are lists; a copy past their end would make them
  longer. The fixed error texts are the constructors of \<open>mb_err\<close>; \<open>MbLib n\<close> is the text
  \<open>mbedtls_strerror\<close> has for \<open>n\<close>.
\<close>

section \<open>The library\<close>

datatype 'a bio_prog = BDone 'a | BSend bytes "int \<Rightarrow> 'a bio_prog" | BRecv nat "int \<times> bytes \<Rightarrow> 'a bio_prog"

datatype mb_err = MbNone | MbLib int | MbSeedFailed | MbServerNeedsCert | MbVerifyNeedsCa | MbInitFailed

datatype mb_authmode = MBEDTLS_SSL_VERIFY_NONE | MBEDTLS_SSL_VERIFY_REQUIRED

text \<open>What a \<open>mbedtls_ssl_config\<close> was given; the versions are pairs of major and minor.\<close>

record 'm mb_conf =
  mf_is_server :: bool
  mf_min_version :: "nat \<times> nat"
  mf_authmode :: mb_authmode
  mf_ca_chain :: "'m option"
  mf_own_cert :: "('m \<times> 'm) option"

record ('m, 'e, 'u) mbedtls =
  mb_want_read :: int
  mb_want_write :: int
  mb_conn_eof :: int
  mb_empty :: 'm
  mb_calloc :: "'u \<Rightarrow> bool \<times> 'u"
  mb_ctr_drbg_seed :: "'u \<Rightarrow> int \<times> 'u"
  mb_crt_parse_file :: "string \<Rightarrow> 'u \<Rightarrow> int \<times> 'm \<times> 'u"
  mb_crt_parse :: "string \<Rightarrow> 'u \<Rightarrow> int \<times> 'm \<times> 'u"
  mb_pk_parse_keyfile :: "string \<Rightarrow> 'u \<Rightarrow> int \<times> 'm \<times> 'u"
  mb_pk_parse_key :: "string \<Rightarrow> 'u \<Rightarrow> int \<times> 'm \<times> 'u"
  mb_config_defaults :: "bool \<Rightarrow> 'u \<Rightarrow> int \<times> 'm mb_conf \<times> 'u"
  mb_setup :: "'m mb_conf \<Rightarrow> 'u \<Rightarrow> int \<times> 'e \<times> 'u"
  mb_set_hostname :: "string \<Rightarrow> 'e \<Rightarrow> 'u \<Rightarrow> int \<times> 'e \<times> 'u"
  mb_handshake :: "'e \<Rightarrow> (int \<times> 'e) bio_prog"
  mb_read :: "nat \<Rightarrow> 'e \<Rightarrow> (int \<times> bytes \<times> 'e) bio_prog"
  mb_write :: "bytes \<Rightarrow> 'e \<Rightarrow> (int \<times> 'e) bio_prog"
  mb_get_bytes_avail :: "'e \<Rightarrow> int"

text \<open>What the library documents: the three codes are negative and distinct; no more is read or written than asked for.\<close>

definition mb_codes_ok :: "('m, 'e, 'u) mbedtls \<Rightarrow> bool" where
  "mb_codes_ok lib \<longleftrightarrow> mb_want_read lib < 0 \<and> mb_want_write lib < 0 \<and> mb_conn_eof lib < 0
     \<and> distinct [mb_want_read lib, mb_want_write lib, mb_conn_eof lib]"

section \<open>The objects\<close>

definition MBTLS_BUF_SIZE :: nat where "MBTLS_BUF_SIZE = 64 * 1024"

text \<open>How many objects of each kind are alive; \<open>RBlock\<close> is memory of the allocator.\<close>

datatype mb_res = RCtxBlock | RCa | RCert | RKey | REntropy | RDrbg | RSslBlock | RSsl | RConf

record 'u mb_world =
  mw_live :: "mb_res \<Rightarrow> int"
  mw_env :: 'u

definition mb_init :: "mb_res \<Rightarrow> 'u mb_world \<Rightarrow> 'u mb_world" where
  "mb_init r w = w\<lparr>mw_live := (mw_live w)(r := mw_live w r + 1)\<rparr>"

definition mb_free :: "mb_res \<Rightarrow> 'u mb_world \<Rightarrow> 'u mb_world" where
  "mb_free r w = w\<lparr>mw_live := (mw_live w)(r := mw_live w r - 1)\<rparr>"

definition mb_call :: "('u \<Rightarrow> 'r \<times> 'u) \<Rightarrow> 'u mb_world \<Rightarrow> 'r \<times> 'u mb_world" where
  "mb_call f w = (case f (mw_env w) of (r, u) \<Rightarrow> (r, w\<lparr>mw_env := u\<rparr>))"

definition mb_call_m :: "('u \<Rightarrow> 'r \<times> 'm \<times> 'u) \<Rightarrow> 'u mb_world \<Rightarrow> 'r \<times> 'm \<times> 'u mb_world" where
  "mb_call_m f w = (case f (mw_env w) of (r, m, u) \<Rightarrow> (r, m, w\<lparr>mw_env := u\<rparr>))"

record 'm mbtls_ctx =
  mc_err :: mb_err
  mc_ca :: 'm
  mc_cert :: 'm
  mc_key :: 'm
  mc_have_ca :: bool
  mc_have_cert :: bool
  mc_have_key :: bool
  mc_enable_peer_verify :: bool
  mc_enable_hostname_verify :: bool

record ('m, 'e) mbtls_ssl =
  ms_err :: mb_err
  ms_ssl :: 'e
  ms_conf :: "'m mb_conf"
  ms_recv_buf :: bytes
  ms_recv_len :: nat
  ms_recv_pos :: nat
  ms_send_buf :: bytes
  ms_send_len :: nat
  ms_peer_closed :: bool
  ms_want :: int

section \<open>Error texts\<close>

definition mbtls_set_err :: "int \<Rightarrow> mb_err" where
  "mbtls_set_err ret = (if ret \<noteq> 0 then MbLib ret else MbNone)"

text \<open>A context and a connection both start with the text, \<open>obj\<close> is that text or NULL; \<open>cap\<close> is the room in the caller's buffer.\<close>

definition mbtls_error_str :: "mb_err option \<Rightarrow> nat \<Rightarrow> mb_err option" where
  "mbtls_error_str obj cap = (if cap = 0 then None else case obj of None \<Rightarrow> Some MbInitFailed | Some e \<Rightarrow> Some e)"

section \<open>The buffers\<close>

text \<open>\<open>memcpy(buf + off, data, length data)\<close>, and \<open>memmove\<close> of \<open>len\<close> bytes from \<open>off\<close> to the start.\<close>

definition buf_memcpy :: "nat \<Rightarrow> bytes \<Rightarrow> bytes \<Rightarrow> bytes" where
  "buf_memcpy off data buf = take off buf @ data @ drop (off + length data) buf"

definition mbtls_bio_send ::
  "('m, 'e, 'u) mbedtls \<Rightarrow> bytes \<Rightarrow> ('m, 'e) mbtls_ssl \<Rightarrow> int \<times> ('m, 'e) mbtls_ssl" where
  "mbtls_bio_send lib buf s =
     (let free = MBTLS_BUF_SIZE - ms_send_len s
      in if free = 0 then (mb_want_write lib, s)
         else let n = (if length buf < free then length buf else free)
              in (int n, s\<lparr>ms_send_buf := buf_memcpy (ms_send_len s) (take n buf) (ms_send_buf s), ms_send_len := ms_send_len s + n\<rparr>))"

definition mbtls_bio_recv ::
  "('m, 'e, 'u) mbedtls \<Rightarrow> nat \<Rightarrow> ('m, 'e) mbtls_ssl \<Rightarrow> (int \<times> bytes) \<times> ('m, 'e) mbtls_ssl" where
  "mbtls_bio_recv lib len s =
     (let avail = ms_recv_len s - ms_recv_pos s
      in if avail = 0 then ((if ms_peer_closed s then mb_conn_eof lib else mb_want_read lib, []), s)
         else
           let n = (if avail < len then avail else len);
               out = take n (drop (ms_recv_pos s) (ms_recv_buf s));
               s = s\<lparr>ms_recv_pos := ms_recv_pos s + n\<rparr>
           in if ms_recv_pos s = ms_recv_len s then ((int n, out), s\<lparr>ms_recv_pos := 0, ms_recv_len := 0\<rparr>)
              else ((int n, out), s))"

text \<open>A library call on the connection object.\<close>

primrec run_bio :: "('m, 'e, 'u) mbedtls \<Rightarrow> 'a bio_prog \<Rightarrow> ('m, 'e) mbtls_ssl \<Rightarrow> 'a \<times> ('m, 'e) mbtls_ssl" where
  "run_bio lib (BDone a) s = (a, s)"
| "run_bio lib (BSend bs k) s = (case mbtls_bio_send lib bs s of (r, s) \<Rightarrow> run_bio lib (k r) s)"
| "run_bio lib (BRecv n k) s = (case mbtls_bio_recv lib n s of (r, s) \<Rightarrow> run_bio lib (k r) s)"

section \<open>Contexts\<close>

text \<open>The body of \<open>do { ... } while(0)\<close>: the code it leaves with, and the context.\<close>

definition mbtls_load_ca ::
  "('m, 'e, 'u) mbedtls \<Rightarrow> sevent_ssl_config \<Rightarrow> 'm mbtls_ctx \<Rightarrow> 'u mb_world \<Rightarrow> int \<times> 'm mbtls_ctx \<times> 'u mb_world" where
  "mbtls_load_ca lib cfg c w =
     (case sf_ca_path cfg of
        Some p \<Rightarrow> (case mb_call_m (mb_crt_parse_file lib p) w of (ret, m, w) \<Rightarrow>
          if ret \<noteq> 0 then (ret, c\<lparr>mc_ca := m\<rparr>, w) else (0, c\<lparr>mc_ca := m, mc_have_ca := True\<rparr>, w))
      | None \<Rightarrow>
          (case sf_ca_pem cfg of
             Some t \<Rightarrow> (case mb_call_m (mb_crt_parse lib t) w of (ret, m, w) \<Rightarrow>
               if ret \<noteq> 0 then (ret, c\<lparr>mc_ca := m\<rparr>, w) else (0, c\<lparr>mc_ca := m, mc_have_ca := True\<rparr>, w))
           | None \<Rightarrow> (0, c, w)))"

text \<open>The configuration check has made sure that a certificate comes with its key; \<open>the\<close> reads that key.\<close>

definition mbtls_load_cert ::
  "('m, 'e, 'u) mbedtls \<Rightarrow> sevent_ssl_config \<Rightarrow> 'm mbtls_ctx \<Rightarrow> 'u mb_world \<Rightarrow> int \<times> 'm mbtls_ctx \<times> 'u mb_world" where
  "mbtls_load_cert lib cfg c w =
     (case sf_cert_path cfg of
        Some p \<Rightarrow> (case mb_call_m (mb_crt_parse_file lib p) w of (ret, m, w) \<Rightarrow>
          if ret \<noteq> 0 then (ret, c\<lparr>mc_cert := m\<rparr>, w)
          else (case mb_call_m (mb_pk_parse_keyfile lib (the (sf_key_path cfg))) w of (ret, k, w) \<Rightarrow>
            if ret \<noteq> 0 then (ret, c\<lparr>mc_cert := m, mc_key := k\<rparr>, w)
            else (0, c\<lparr>mc_cert := m, mc_key := k, mc_have_cert := True, mc_have_key := True\<rparr>, w)))
      | None \<Rightarrow>
          (case sf_cert_pem cfg of
             Some t \<Rightarrow> (case mb_call_m (mb_crt_parse lib t) w of (ret, m, w) \<Rightarrow>
               if ret \<noteq> 0 then (ret, c\<lparr>mc_cert := m\<rparr>, w)
               else (case mb_call_m (mb_pk_parse_key lib (the (sf_key_pem cfg))) w of (ret, k, w) \<Rightarrow>
                 if ret \<noteq> 0 then (ret, c\<lparr>mc_cert := m, mc_key := k\<rparr>, w)
                 else (0, c\<lparr>mc_cert := m, mc_key := k, mc_have_cert := True, mc_have_key := True\<rparr>, w)))
           | None \<Rightarrow> (0, c, w)))"

definition mbtls_load ::
  "('m, 'e, 'u) mbedtls \<Rightarrow> sevent_ssl_config \<Rightarrow> 'm mbtls_ctx \<Rightarrow> 'u mb_world \<Rightarrow> int \<times> 'm mbtls_ctx \<times> 'u mb_world" where
  "mbtls_load lib cfg c w =
     (case mb_call (mb_ctr_drbg_seed lib) w of (r, w) \<Rightarrow>
        if r \<noteq> 0 then (-1, c\<lparr>mc_err := MbSeedFailed\<rparr>, w)
        else (case mbtls_load_ca lib cfg c w of (ret, c, w) \<Rightarrow>
          if ret \<noteq> 0 then (ret, c, w) else mbtls_load_cert lib cfg c w))"

definition mbtls_ctx_free :: "'m mbtls_ctx option \<Rightarrow> 'u mb_world \<Rightarrow> 'u mb_world" where
  "mbtls_ctx_free ctxp w =
     (case ctxp of
        None \<Rightarrow> w
      | Some c \<Rightarrow> mb_free RCtxBlock (mb_free RCa (mb_free RCert (mb_free RKey (mb_free REntropy (mb_free RDrbg w))))))"

definition mbtls_ctx_new ::
  "('m, 'e, 'u) mbedtls \<Rightarrow> sevent_ssl_config \<Rightarrow> 'u mb_world \<Rightarrow> 'm mbtls_ctx option \<times> 'u mb_world" where
  "mbtls_ctx_new lib cfg w =
     (case mb_call (mb_calloc lib) w of (ok, w) \<Rightarrow>
        if \<not> ok then (None, w)
        else
          let c = \<lparr>mc_err = MbNone, mc_ca = mb_empty lib, mc_cert = mb_empty lib, mc_key = mb_empty lib, mc_have_ca = False,
                   mc_have_cert = False, mc_have_key = False, mc_enable_peer_verify = False, mc_enable_hostname_verify = False\<rparr>;
              w = mb_init RDrbg (mb_init REntropy (mb_init RKey (mb_init RCert (mb_init RCa (mb_init RCtxBlock w)))))
          in case mbtls_load lib cfg c w of (ret, c, w) \<Rightarrow>
               if ret \<noteq> 0
               then (None, mb_free RCtxBlock (mb_free RCa (mb_free RCert (mb_free RKey (mb_free REntropy (mb_free RDrbg w))))))
               else (Some (c\<lparr>mc_enable_peer_verify := sf_enable_peer_verify cfg,
                             mc_enable_hostname_verify := sf_enable_hostname_verify cfg\<rparr>), w))"

section \<open>Connections\<close>

text \<open>\<open>MBEDTLS_SSL_MAJOR_VERSION_3\<close> and \<open>MBEDTLS_SSL_MINOR_VERSION_3\<close>, that is TLS 1.2.\<close>

definition mb_tls_1_2 :: "nat \<times> nat" where "mb_tls_1_2 = (3, 3)"

definition mbtls_configure :: "'m mbtls_ctx \<Rightarrow> 'm mb_conf \<Rightarrow> 'm mb_conf" where
  "mbtls_configure c f =
     f\<lparr>mf_min_version := mb_tls_1_2,
       mf_authmode := (if mc_enable_peer_verify c then MBEDTLS_SSL_VERIFY_REQUIRED else MBEDTLS_SSL_VERIFY_NONE),
       mf_ca_chain := (if mc_have_ca c then Some (mc_ca c) else mf_ca_chain f),
       mf_own_cert := (if mc_have_cert c then Some (mc_cert c, mc_key c) else mf_own_cert f)\<rparr>"

definition mbtls_ssl_new ::
  "('m, 'e, 'u) mbedtls \<Rightarrow> bool \<Rightarrow> string option \<Rightarrow> 'm mbtls_ctx \<Rightarrow> 'u mb_world
     \<Rightarrow> ('m, 'e) mbtls_ssl option \<times> 'm mbtls_ctx \<times> 'u mb_world" where
  "mbtls_ssl_new lib is_server hostname c w =
     (if is_server \<and> \<not> mc_have_cert c then (None, c\<lparr>mc_err := MbServerNeedsCert\<rparr>, w)
      else if mc_enable_peer_verify c \<and> \<not> mc_have_ca c then (None, c\<lparr>mc_err := MbVerifyNeedsCa\<rparr>, w)
      else (case mb_call (mb_calloc lib) w of (ok, w) \<Rightarrow>
        if \<not> ok then (None, c, w)
        else
          let w = mb_init RConf (mb_init RSsl (mb_init RSslBlock w));
              fail = (\<lambda>ret w. (None, c\<lparr>mc_err := mbtls_set_err ret\<rparr>, mb_free RSslBlock (mb_free RConf (mb_free RSsl w))))
          in (case mb_call_m (mb_config_defaults lib is_server) w of (ret, f, w) \<Rightarrow>
            if ret \<noteq> 0 then fail ret w
            else (case mb_call_m (mb_setup lib (mbtls_configure c f)) w of (ret, e, w) \<Rightarrow>
              if ret \<noteq> 0 then fail ret w
              else
                let (e, w) = (case hostname of
                                None \<Rightarrow> (e, w)
                              | Some h \<Rightarrow> (case mb_call_m (mb_set_hostname lib h e) w of (r, e, w) \<Rightarrow> (e, w)))
                in (Some \<lparr>ms_err = MbNone, ms_ssl = e, ms_conf = mbtls_configure c f, ms_recv_buf = replicate MBTLS_BUF_SIZE 0,
                          ms_recv_len = 0, ms_recv_pos = 0, ms_send_buf = replicate MBTLS_BUF_SIZE 0, ms_send_len = 0,
                          ms_peer_closed = False, ms_want = 0\<rparr>, c, w)))))"

definition mbtls_ssl_free :: "('m, 'e) mbtls_ssl option \<Rightarrow> 'u mb_world \<Rightarrow> 'u mb_world" where
  "mbtls_ssl_free sslp w =
     (case sslp of None \<Rightarrow> w | Some s \<Rightarrow> mb_free RSslBlock (mb_free RConf (mb_free RSsl w)))"

section \<open>Operations\<close>

definition mbtls_handshake :: "('m, 'e, 'u) mbedtls \<Rightarrow> ('m, 'e) mbtls_ssl \<Rightarrow> int \<times> ('m, 'e) mbtls_ssl" where
  "mbtls_handshake lib s =
     (case run_bio lib (mb_handshake lib (ms_ssl s)) (s\<lparr>ms_want := 0\<rparr>) of ((ret, e), s) \<Rightarrow>
        let s = s\<lparr>ms_ssl := e\<rparr>
        in if ret = 0 then (0, s)
           else if ret = mb_want_read lib then (SEVENT_SSL_WANT_READ, s)
           else if ret = mb_want_write lib then (SEVENT_SSL_WANT_WRITE, s)
           else (-1, s\<lparr>ms_err := mbtls_set_err ret\<rparr>))"

definition mbtls_read :: "('m, 'e, 'u) mbedtls \<Rightarrow> nat \<Rightarrow> ('m, 'e) mbtls_ssl \<Rightarrow> int \<times> bytes \<times> ('m, 'e) mbtls_ssl" where
  "mbtls_read lib len s =
     (case run_bio lib (mb_read lib len (ms_ssl s)) (s\<lparr>ms_want := 0\<rparr>) of ((ret, data, e), s) \<Rightarrow>
        let s = s\<lparr>ms_ssl := e\<rparr>
        in if 0 < ret then (ret, data, s)
           else if ret = 0 \<or> ret = mb_conn_eof lib then (0, data, s)
           else if ret = mb_want_read lib then (-1, data, s\<lparr>ms_want := SEVENT_SSL_WANT_READ\<rparr>)
           else if ret = mb_want_write lib then (-1, data, s\<lparr>ms_want := SEVENT_SSL_WANT_WRITE\<rparr>)
           else (-1, data, s\<lparr>ms_err := mbtls_set_err ret\<rparr>))"

definition mbtls_write :: "('m, 'e, 'u) mbedtls \<Rightarrow> bytes \<Rightarrow> ('m, 'e) mbtls_ssl \<Rightarrow> int \<times> ('m, 'e) mbtls_ssl" where
  "mbtls_write lib buf s =
     (case run_bio lib (mb_write lib buf (ms_ssl s)) (s\<lparr>ms_want := 0\<rparr>) of ((ret, e), s) \<Rightarrow>
        let s = s\<lparr>ms_ssl := e\<rparr>
        in if 0 < ret then (ret, s)
           else if ret = mb_want_read lib then (0, s\<lparr>ms_want := SEVENT_SSL_WANT_READ\<rparr>)
           else if ret = mb_want_write lib then (0, s\<lparr>ms_want := SEVENT_SSL_WANT_WRITE\<rparr>)
           else (-1, s\<lparr>ms_err := mbtls_set_err ret\<rparr>))"

definition mbtls_want :: "('m, 'e) mbtls_ssl \<Rightarrow> int" where
  "mbtls_want s = ms_want s"

definition mbtls_pending :: "('m, 'e, 'u) mbedtls \<Rightarrow> ('m, 'e) mbtls_ssl \<Rightarrow> int" where
  "mbtls_pending lib s = mb_get_bytes_avail lib (ms_ssl s)"

section \<open>The data channel\<close>

definition mbtls_feed :: "bytes \<Rightarrow> ('m, 'e) mbtls_ssl \<Rightarrow> int \<times> ('m, 'e) mbtls_ssl" where
  "mbtls_feed data s =
     (if MBTLS_BUF_SIZE - ms_recv_len s < length data then (-1, s)
      else (0, s\<lparr>ms_recv_buf := buf_memcpy (ms_recv_len s) data (ms_recv_buf s), ms_recv_len := ms_recv_len s + length data\<rparr>))"

definition mbtls_drain :: "nat \<Rightarrow> ('m, 'e) mbtls_ssl \<Rightarrow> bytes \<times> ('m, 'e) mbtls_ssl" where
  "mbtls_drain cap s =
     (let n = (if ms_send_len s < cap then ms_send_len s else cap)
      in if n = 0 then ([], s)
         else
           let out = take n (ms_send_buf s);
               s = (if n < ms_send_len s
                    then s\<lparr>ms_send_buf := buf_memcpy 0 (take (ms_send_len s - n) (drop n (ms_send_buf s))) (ms_send_buf s)\<rparr>
                    else s)
           in (out, s\<lparr>ms_send_len := ms_send_len s - n\<rparr>))"

definition mbtls_peer_close :: "('m, 'e) mbtls_ssl \<Rightarrow> ('m, 'e) mbtls_ssl" where
  "mbtls_peer_close s = s\<lparr>ms_peer_closed := True\<rparr>"

section \<open>The operations table\<close>

definition sevent_ssl_mbedtls_ops :: "('m, 'e, 'u) mbedtls \<Rightarrow> ('m mbtls_ctx, ('m, 'e) mbtls_ssl, 'u mb_world) sevent_ssl_ops" where
  "sevent_ssl_mbedtls_ops lib =
     \<lparr>so_ctx_new = mbtls_ctx_new lib,
      so_ssl_new = (\<lambda>c is_server hostname w. case mbtls_ssl_new lib is_server hostname c w of (s, c, w) \<Rightarrow> (s, w)),
      so_feed = mbtls_feed, so_drain = mbtls_drain, so_peer_close = mbtls_peer_close, so_handshake = mbtls_handshake lib,
      so_read = mbtls_read lib, so_write = mbtls_write lib, so_want = mbtls_want\<rparr>"

section \<open>The buffers are queues\<close>

text \<open>What was fed and not yet taken by the library, and what the library sent and was not yet drained.\<close>

definition rx :: "('m, 'e) mbtls_ssl \<Rightarrow> bytes" where
  "rx s = take (ms_recv_len s - ms_recv_pos s) (drop (ms_recv_pos s) (ms_recv_buf s))"

definition tx :: "('m, 'e) mbtls_ssl \<Rightarrow> bytes" where
  "tx s = take (ms_send_len s) (ms_send_buf s)"

definition mb_ok :: "('m, 'e) mbtls_ssl \<Rightarrow> bool" where
  "mb_ok s \<longleftrightarrow> length (ms_recv_buf s) = MBTLS_BUF_SIZE \<and> length (ms_send_buf s) = MBTLS_BUF_SIZE
     \<and> ms_recv_pos s \<le> ms_recv_len s \<and> ms_recv_len s \<le> MBTLS_BUF_SIZE \<and> ms_send_len s \<le> MBTLS_BUF_SIZE
     \<and> (ms_recv_pos s = ms_recv_len s \<longrightarrow> ms_recv_len s = 0)"

lemma buf_memcpy_length: "off + length data \<le> length buf \<Longrightarrow> length (buf_memcpy off data buf) = length buf"
  by (simp add: buf_memcpy_def)

lemma buf_memcpy_take: "off + length data \<le> length buf \<Longrightarrow> take (off + length data) (buf_memcpy off data buf) = take off buf @ data"
  by (simp add: buf_memcpy_def)

lemma take_drop_swap: "take (b - a) (drop a xs) = drop a (take b xs)"
  by (simp add: drop_take)

lemma feed_queue:
  assumes "mb_ok s" "mbtls_feed data s = (rc, s')"
  shows "mb_ok s'" "tx s' = tx s" "rc = 0 \<and> rx s' = rx s @ data \<or> rc = -1 \<and> s' = s \<and> MBTLS_BUF_SIZE < ms_recv_len s + length data"
proof -
  show "mb_ok s'" "tx s' = tx s"
    using assms by (auto simp: mbtls_feed_def mb_ok_def tx_def buf_memcpy_length split: if_splits)
  show "rc = 0 \<and> rx s' = rx s @ data \<or> rc = -1 \<and> s' = s \<and> MBTLS_BUF_SIZE < ms_recv_len s + length data"
    using assms buf_memcpy_take [of "ms_recv_len s" data "ms_recv_buf s"]
    by (auto simp: mbtls_feed_def mb_ok_def rx_def take_drop_swap split: if_splits)
qed

lemma drain_queue:
  assumes "mb_ok s" "mbtls_drain cap s = (out, s')"
  shows "mb_ok s'" "rx s' = rx s" "tx s = out @ tx s'" "length out \<le> cap" "out = [] \<Longrightarrow> cap = 0 \<or> tx s = []"
proof -
  have l: "length (ms_send_buf s) = MBTLS_BUF_SIZE" "ms_send_len s \<le> MBTLS_BUF_SIZE" using assms(1) by (auto simp: mb_ok_def)
  have t: "take k (buf_memcpy 0 (take k (drop n (ms_send_buf s))) (ms_send_buf s)) = take k (drop n (ms_send_buf s))"
    if "n + k \<le> length (ms_send_buf s)" for k n
    using that by (simp add: buf_memcpy_def)
  show "mb_ok s'" "rx s' = rx s"
    using assms l by (auto simp: mbtls_drain_def Let_def mb_ok_def rx_def buf_memcpy_length split: if_splits)
  show "tx s = out @ tx s'"
    using assms l t [of cap "ms_send_len s - cap"]
    by (auto simp: mbtls_drain_def Let_def tx_def take_add [symmetric] split: if_splits)
  show "length out \<le> cap" "out = [] \<Longrightarrow> cap = 0 \<or> tx s = []"
    using assms l by (auto simp: mbtls_drain_def Let_def tx_def split: if_splits)
qed

lemma bio_recv_queue:
  assumes "mb_ok s" "mbtls_bio_recv lib len s = ((r, data), s')"
  shows "mb_ok s'" "tx s' = tx s"
    "rx s = [] \<and> data = [] \<and> s' = s \<and> r = (if ms_peer_closed s then mb_conn_eof lib else mb_want_read lib)
     \<or> rx s \<noteq> [] \<and> r = int (length data) \<and> length data = min len (length (rx s)) \<and> rx s = data @ rx s'"
proof -
  have l: "length (ms_recv_buf s) = MBTLS_BUF_SIZE" "ms_recv_pos s \<le> ms_recv_len s" "ms_recv_len s \<le> MBTLS_BUF_SIZE"
    using assms(1) by (auto simp: mb_ok_def)
  show "mb_ok s'" "tx s' = tx s"
    using assms by (auto simp: mbtls_bio_recv_def Let_def mb_ok_def tx_def split: if_splits)
  define n where "n = (if ms_recv_len s - ms_recv_pos s < len then ms_recv_len s - ms_recv_pos s else len)"
  show "rx s = [] \<and> data = [] \<and> s' = s \<and> r = (if ms_peer_closed s then mb_conn_eof lib else mb_want_read lib)
     \<or> rx s \<noteq> [] \<and> r = int (length data) \<and> length data = min len (length (rx s)) \<and> rx s = data @ rx s'"
  proof (cases "ms_recv_len s - ms_recv_pos s = 0")
    case True
    then show ?thesis using assms(2) by (auto simp: mbtls_bio_recv_def rx_def)
  next
    case False
    have n: "n \<le> ms_recv_len s - ms_recv_pos s" "n = min len (length (rx s))" using l by (auto simp: n_def rx_def)
    have "data = take n (rx s)" "rx s' = drop n (rx s)" "r = int n"
      using assms(2) False n(1)
      by (auto simp: mbtls_bio_recv_def n_def [symmetric] rx_def Let_def drop_take add.commute split: if_splits)
    moreover have "rx s \<noteq> []" using False l by (simp add: rx_def)
    ultimately show ?thesis using n(2) by simp
  qed
qed

lemma bio_send_queue:
  assumes "mb_ok s" "mbtls_bio_send lib buf s = (r, s')"
  shows "mb_ok s'" "rx s' = rx s"
    "ms_send_len s = MBTLS_BUF_SIZE \<and> s' = s \<and> r = mb_want_write lib
     \<or> r = int (min (length buf) (MBTLS_BUF_SIZE - ms_send_len s)) \<and> tx s' = tx s @ take (nat r) buf"
proof -
  have l: "length (ms_send_buf s) = MBTLS_BUF_SIZE" "ms_send_len s \<le> MBTLS_BUF_SIZE" using assms(1) by (auto simp: mb_ok_def)
  show "mb_ok s'" "rx s' = rx s"
    using assms by (auto simp: mbtls_bio_send_def Let_def mb_ok_def rx_def buf_memcpy_length split: if_splits)
  define n where "n = (if length buf < MBTLS_BUF_SIZE - ms_send_len s then length buf else MBTLS_BUF_SIZE - ms_send_len s)"
  have n: "n = min (length buf) (MBTLS_BUF_SIZE - ms_send_len s)" "ms_send_len s + n \<le> MBTLS_BUF_SIZE" using l by (auto simp: n_def)
  show "ms_send_len s = MBTLS_BUF_SIZE \<and> s' = s \<and> r = mb_want_write lib
     \<or> r = int (min (length buf) (MBTLS_BUF_SIZE - ms_send_len s)) \<and> tx s' = tx s @ take (nat r) buf"
  proof (cases "MBTLS_BUF_SIZE - ms_send_len s = 0")
    case True
    then show ?thesis using assms(2) l by (simp add: mbtls_bio_send_def)
  next
    case False
    then have "r = int n" "s' = s\<lparr>ms_send_buf := buf_memcpy (ms_send_len s) (take n buf) (ms_send_buf s), ms_send_len := ms_send_len s + n\<rparr>"
      using assms(2) by (auto simp: mbtls_bio_send_def n_def [symmetric])
    then show ?thesis using buf_memcpy_take [of "ms_send_len s" "take n buf" "ms_send_buf s"] l n by (simp add: tx_def)
  qed
qed

section \<open>A whole session\<close>

text \<open>
  A library call with the bytes it was given (\<open>got\<close>) and the bytes it gave away (\<open>put\<close>), as it sees
  them: a positive result of a callback is a number of bytes.
\<close>

primrec run_bio_io ::
  "('m, 'e, 'u) mbedtls \<Rightarrow> 'a bio_prog \<Rightarrow> ('m, 'e) mbtls_ssl \<Rightarrow> bytes \<times> bytes \<times> 'a \<times> ('m, 'e) mbtls_ssl" where
  "run_bio_io lib (BDone a) s = ([], [], a, s)"
| "run_bio_io lib (BSend bs k) s =
     (case mbtls_bio_send lib bs s of (r, s) \<Rightarrow>
        case run_bio_io lib (k r) s of (got, put, x) \<Rightarrow> (got, (if 0 < r then take (nat r) bs else []) @ put, x))"
| "run_bio_io lib (BRecv n k) s =
     (case mbtls_bio_recv lib n s of ((r, d), s) \<Rightarrow>
        case run_bio_io lib (k (r, d)) s of (got, put, x) \<Rightarrow> ((if 0 < r then take (nat r) d else []) @ got, put, x))"

lemma run_bio_io_result: "run_bio lib p s = snd (snd (run_bio_io lib p s))"
  by (induction p arbitrary: s) (auto split: prod.splits)

lemma run_bio_queue:
  assumes "mb_codes_ok lib" "mb_ok s" "run_bio_io lib p s = (got, put, x, s')"
  shows "mb_ok s' \<and> rx s = got @ rx s' \<and> tx s' = tx s @ put"
  using assms(2,3)
proof (induction p arbitrary: s got put)
  case (BDone a)
  then show ?case by simp
next
  case (BSend bs k)
  obtain r s1 where r: "mbtls_bio_send lib bs s = (r, s1)" by (rule prod.exhaust)
  obtain put1 where p: "run_bio_io lib (k r) s1 = (got, put1, x, s')" "put = (if 0 < r then take (nat r) bs else []) @ put1"
    using BSend.prems(2) r by (auto split: prod.splits)
  note q = bio_send_queue [OF BSend.prems(1) r]
  have "tx s1 = tx s @ (if 0 < r then take (nat r) bs else [])" using q(3) assms(1) by (auto simp: mb_codes_ok_def)
  then show ?case using BSend.IH [OF rangeI q(1) p(1)] q(2) p(2) by simp
next
  case (BRecv n k)
  obtain r d s1 where r: "mbtls_bio_recv lib n s = ((r, d), s1)" by (metis prod.exhaust)
  obtain got1 where p: "run_bio_io lib (k (r, d)) s1 = (got1, put, x, s')" "got = (if 0 < r then take (nat r) d else []) @ got1"
    using BRecv.prems(2) r by (auto split: prod.splits)
  note q = bio_recv_queue [OF BRecv.prems(1) r]
  have "rx s = (if 0 < r then take (nat r) d else []) @ rx s1" 
  proof (cases "rx s = []")
    case True
    then have "r < 0" "s1 = s" using q(3) assms(1) by (auto simp: mb_codes_ok_def)
    then show ?thesis using True by simp
  next
    case False
    then have "r = int (length d)" "rx s = d @ rx s1" using q(3) by blast+
    then show ?thesis by simp
  qed
  then show ?case using BRecv.IH [OF rangeI q(1) p(1)] q(2) p(2) by simp
qed

datatype mb_op = OpFeed bytes | OpDrain nat | OpPeerClose | OpHandshake | OpRead nat | OpWrite bytes

record mb_flow =
  fl_fed :: bytes
  fl_got :: bytes
  fl_put :: bytes
  fl_out :: bytes

text \<open>One call of the backend, with what went into and out of the channel on both sides.\<close>

definition flow_lib :: "bytes \<times> bytes \<times> 'r \<Rightarrow> mb_flow \<Rightarrow> mb_flow" where
  "flow_lib x h = h\<lparr>fl_got := fl_got h @ fst x, fl_put := fl_put h @ fst (snd x)\<rparr>"

fun mb_step :: "('m, 'e, 'u) mbedtls \<Rightarrow> mb_op \<Rightarrow> ('m, 'e) mbtls_ssl \<times> mb_flow \<Rightarrow> ('m, 'e) mbtls_ssl \<times> mb_flow" where
  "mb_step lib (OpFeed d) (s, h) = (case mbtls_feed d s of (rc, s) \<Rightarrow> (s, if rc = 0 then h\<lparr>fl_fed := fl_fed h @ d\<rparr> else h))"
| "mb_step lib (OpDrain cap) (s, h) = (case mbtls_drain cap s of (out, s) \<Rightarrow> (s, h\<lparr>fl_out := fl_out h @ out\<rparr>))"
| "mb_step lib OpPeerClose (s, h) = (mbtls_peer_close s, h)"
| "mb_step lib OpHandshake (s, h) =
     (snd (mbtls_handshake lib s), flow_lib (run_bio_io lib (mb_handshake lib (ms_ssl s)) (s\<lparr>ms_want := 0\<rparr>)) h)"
| "mb_step lib (OpRead n) (s, h) =
     (snd (snd (mbtls_read lib n s)), flow_lib (run_bio_io lib (mb_read lib n (ms_ssl s)) (s\<lparr>ms_want := 0\<rparr>)) h)"
| "mb_step lib (OpWrite d) (s, h) =
     (snd (mbtls_write lib d s), flow_lib (run_bio_io lib (mb_write lib d (ms_ssl s)) (s\<lparr>ms_want := 0\<rparr>)) h)"

definition mb_run :: "('m, 'e, 'u) mbedtls \<Rightarrow> mb_op list \<Rightarrow> ('m, 'e) mbtls_ssl \<Rightarrow> ('m, 'e) mbtls_ssl \<times> mb_flow" where
  "mb_run lib ops s = foldl (\<lambda>x op. mb_step lib op x) (s, \<lparr>fl_fed = [], fl_got = [], fl_put = [], fl_out = []\<rparr>) ops"

text \<open>Fields the queues do not depend on.\<close>

lemma queue_frame [simp]:
  "rx (s\<lparr>ms_want := w\<rparr>) = rx s" "tx (s\<lparr>ms_want := w\<rparr>) = tx s" "mb_ok (s\<lparr>ms_want := w\<rparr>) = mb_ok s"
  "rx (s\<lparr>ms_ssl := e\<rparr>) = rx s" "tx (s\<lparr>ms_ssl := e\<rparr>) = tx s" "mb_ok (s\<lparr>ms_ssl := e\<rparr>) = mb_ok s"
  "rx (s\<lparr>ms_err := x\<rparr>) = rx s" "tx (s\<lparr>ms_err := x\<rparr>) = tx s" "mb_ok (s\<lparr>ms_err := x\<rparr>) = mb_ok s"
  "rx (s\<lparr>ms_peer_closed := b\<rparr>) = rx s" "tx (s\<lparr>ms_peer_closed := b\<rparr>) = tx s" "mb_ok (s\<lparr>ms_peer_closed := b\<rparr>) = mb_ok s"
  by (simp_all add: rx_def tx_def mb_ok_def)

definition flow_ok :: "('m, 'e) mbtls_ssl \<times> mb_flow \<Rightarrow> bool" where
  "flow_ok x \<longleftrightarrow> (case x of (s, h) \<Rightarrow> mb_ok s \<and> fl_fed h = fl_got h @ rx s \<and> fl_put h = fl_out h @ tx s)"

lemma flow_ok_lib:
  assumes "mb_codes_ok lib" "flow_ok (s, h)" "run_bio lib p (s\<lparr>ms_want := 0\<rparr>) = (a, s1)"
    "rx s' = rx s1" "tx s' = tx s1" "mb_ok s' = mb_ok s1"
  shows "flow_ok (s', flow_lib (run_bio_io lib p (s\<lparr>ms_want := 0\<rparr>)) h)"
proof -
  obtain got put where r: "run_bio_io lib p (s\<lparr>ms_want := 0\<rparr>) = (got, put, a, s1)"
    using assms(3) by (metis prod.exhaust run_bio_io_result snd_conv)
  have "mb_ok (s\<lparr>ms_want := 0\<rparr>)" using assms(2) by (simp add: flow_ok_def)
  from run_bio_queue [OF assms(1) this r] show ?thesis
    using assms(2,4-6) r by (simp add: flow_ok_def flow_lib_def)
qed

lemma mb_step_flow:
  assumes "mb_codes_ok lib" "flow_ok (s, h)"
  shows "flow_ok (mb_step lib op (s, h))"
proof (cases op)
  case (OpFeed d)
  obtain rc s' where "mbtls_feed d s = (rc, s')" by (rule prod.exhaust)
  then show ?thesis using OpFeed assms(2) feed_queue [of s d rc s'] by (auto simp: flow_ok_def)
next
  case (OpDrain cap)
  obtain out s' where "mbtls_drain cap s = (out, s')" by (rule prod.exhaust)
  then show ?thesis using OpDrain assms(2) drain_queue [of s cap out s'] by (auto simp: flow_ok_def)
next
  case OpPeerClose
  then show ?thesis using assms(2) by (simp add: flow_ok_def mbtls_peer_close_def)
next
  case OpHandshake
  obtain ret e s1 where r: "run_bio lib (mb_handshake lib (ms_ssl s)) (s\<lparr>ms_want := 0\<rparr>) = ((ret, e), s1)" by (metis prod.exhaust)
  then show ?thesis unfolding OpHandshake mb_step.simps
    by (intro flow_ok_lib [OF assms r]) (simp_all add: mbtls_handshake_def Let_def)
next
  case (OpRead n)
  obtain ret d e s1 where r: "run_bio lib (mb_read lib n (ms_ssl s)) (s\<lparr>ms_want := 0\<rparr>) = ((ret, d, e), s1)" by (metis prod.exhaust)
  then show ?thesis unfolding OpRead mb_step.simps
    by (intro flow_ok_lib [OF assms r]) (simp_all add: mbtls_read_def Let_def)
next
  case (OpWrite d)
  obtain ret e s1 where r: "run_bio lib (mb_write lib d (ms_ssl s)) (s\<lparr>ms_want := 0\<rparr>) = ((ret, e), s1)" by (metis prod.exhaust)
  then show ?thesis unfolding OpWrite mb_step.simps
    by (intro flow_ok_lib [OF assms r]) (simp_all add: mbtls_write_def Let_def)
qed

lemma mb_run_flow: "mb_codes_ok lib \<Longrightarrow> mb_ok s \<Longrightarrow> rx s = [] \<Longrightarrow> tx s = [] \<Longrightarrow> flow_ok (mb_run lib ops s)"
proof (induction ops rule: rev_induct)
  case Nil
  then show ?case by (simp add: mb_run_def flow_ok_def)
next
  case (snoc op ops)
  then show ?case using mb_step_flow [of lib "fst (mb_run lib ops s)" "snd (mb_run lib ops s)" op] by (simp add: mb_run_def)
qed

lemma ssl_new_fresh:
  assumes "mbtls_ssl_new lib is_server hostname c w = (Some s, c', w')"
  shows "mb_ok s" "rx s = []" "tx s = []"
  using assms by (auto simp: mbtls_ssl_new_def Let_def mb_ok_def rx_def tx_def split: if_splits prod.splits)

section \<open>What is allocated\<close>

lemma mb_world_sel [simp]:
  "mw_live (snd (mb_call f w)) = mw_live w" "mw_live (snd (snd (mb_call_m g w))) = mw_live w"
  "mw_live (mb_init r w) = (mw_live w)(r := mw_live w r + 1)" "mw_live (mb_free r w) = (mw_live w)(r := mw_live w r - 1)"
  by (simp_all add: mb_call_def mb_call_m_def mb_init_def mb_free_def split: prod.splits)

lemma mb_call_live: "mb_call f w = (r, w') \<Longrightarrow> mw_live w' = mw_live w" "mb_call_m g w = (x, m, w') \<Longrightarrow> mw_live w' = mw_live w"
  by (auto simp: mb_call_def mb_call_m_def split: prod.splits)

lemma mbtls_load_live: "mbtls_load lib cfg c w = (ret, c', w') \<Longrightarrow> mw_live w' = mw_live w"
proof -
  have "mbtls_load_ca lib cfg c w = (ret, c', w') \<Longrightarrow> mw_live w' = mw_live w" for c w ret c' w'
    by (auto simp: mbtls_load_ca_def dest: mb_call_live split: option.splits prod.splits if_splits)
  moreover have "mbtls_load_cert lib cfg c w = (ret, c', w') \<Longrightarrow> mw_live w' = mw_live w" for c w ret c' w'
    by (auto simp: mbtls_load_cert_def dest!: mb_call_live split: option.splits prod.splits if_splits)
  ultimately show "mbtls_load lib cfg c w = (ret, c', w') \<Longrightarrow> mw_live w' = mw_live w"
    by (fastforce simp: mbtls_load_def dest: mb_call_live split: prod.splits if_splits)
qed

lemma mbtls_ctx_new_live:
  assumes "mbtls_ctx_new lib cfg w = (r, w')"
  shows "mw_live (mbtls_ctx_free r w') = mw_live w"
proof -
  obtain ok w1 where a: "mb_call (mb_calloc lib) w = (ok, w1)" by (rule prod.exhaust)
  show ?thesis
  proof (cases ok)
    case False
    then show ?thesis using assms a by (auto simp: mbtls_ctx_new_def mbtls_ctx_free_def dest: mb_call_live)
  next
    case True
    define c where "c = \<lparr>mc_err = MbNone, mc_ca = mb_empty lib, mc_cert = mb_empty lib, mc_key = mb_empty lib, mc_have_ca = False,
      mc_have_cert = False, mc_have_key = False, mc_enable_peer_verify = False, mc_enable_hostname_verify = False\<rparr>"
    define w2 where "w2 = mb_init RDrbg (mb_init REntropy (mb_init RKey (mb_init RCert (mb_init RCa (mb_init RCtxBlock w1)))))"
    obtain ret c' w3 where l: "mbtls_load lib cfg c w2 = (ret, c', w3)" by (metis prod.exhaust)
    have "mw_live w3 = mw_live w2" using mbtls_load_live [OF l] .
    then show ?thesis using assms True a l mb_call_live(1) [OF a]
      by (auto simp: mbtls_ctx_new_def c_def [symmetric] w2_def [symmetric] mbtls_ctx_free_def split: if_splits)
        (auto simp: w2_def)
  qed
qed

lemma mbtls_ssl_new_live:
  assumes "mbtls_ssl_new lib is_server hostname c w = (r, c', w')"
  shows "mw_live (mbtls_ssl_free r w') = mw_live w"
  using assms
  by (auto simp: mbtls_ssl_new_def mbtls_ssl_free_def Let_def fun_eq_iff dest!: mb_call_live split: if_splits prod.splits option.splits)

section \<open>The contract of a backend\<close>

text \<open>
  The result codes \<^verbatim>\<open>src/ssl/ssl.h\<close> promises to \<^verbatim>\<open>src/tls_conn.c\<close>: \<open>handshake\<close> says what it waits for; a
  negative \<open>read\<close> can be retried exactly when \<open>want\<close> is not zero; \<open>write\<close> returns zero exactly when it
  can be retried, and then \<open>want\<close> says why.
\<close>

locale ssl_backend =
  fixes handshake :: "'s \<Rightarrow> int \<times> 's"
    and read :: "nat \<Rightarrow> 's \<Rightarrow> int \<times> bytes \<times> 's"
    and wr :: "bytes \<Rightarrow> 's \<Rightarrow> int \<times> 's"
    and want :: "'s \<Rightarrow> int"
  assumes handshake_codes: "fst (handshake s) \<in> {0, SEVENT_SSL_WANT_READ, SEVENT_SSL_WANT_WRITE, -1}"
    and read_codes: "read n s = (r, d, s') \<Longrightarrow> 0 \<le> r \<and> want s' = 0 \<or> r = -1 \<and> want s' \<in> {0, SEVENT_SSL_WANT_READ, SEVENT_SSL_WANT_WRITE}"
    and write_codes: "wr b s = (m, s') \<Longrightarrow> 0 < m \<and> want s' = 0 \<or> m = 0 \<and> want s' \<in> {SEVENT_SSL_WANT_READ, SEVENT_SSL_WANT_WRITE}
        \<or> m = -1 \<and> want s' = 0"
begin

lemma read_retry_iff: "read n s = (r, d, s') \<Longrightarrow> want s' \<noteq> 0 \<longleftrightarrow> want s' \<in> {SEVENT_SSL_WANT_READ, SEVENT_SSL_WANT_WRITE} \<and> r = -1"
  using read_codes [of n s r d s'] by (auto simp: SEVENT_SSL_WANT_READ_def SEVENT_SSL_WANT_WRITE_def)

lemma write_retry_iff: "wr b s = (m, s') \<Longrightarrow> want s' \<noteq> 0 \<longleftrightarrow> m = 0"
  using write_codes [of b s m s'] by (auto simp: SEVENT_SSL_WANT_READ_def SEVENT_SSL_WANT_WRITE_def)

lemma outcome:
  "(fst (handshake s) < 0 \<longleftrightarrow> fst (handshake s) = -1)
   \<and> (\<forall>r d s'. read n s = (r, d, s') \<longrightarrow> (r < 0 \<longleftrightarrow> r = -1) \<and> (want s' \<noteq> 0 \<longrightarrow> r = -1))
   \<and> (\<forall>m s'. wr b s = (m, s') \<longrightarrow> (m < 0 \<longleftrightarrow> m = -1) \<and> (want s' \<noteq> 0 \<longleftrightarrow> m = 0))"
  using handshake_codes [of s] read_retry_iff read_codes write_retry_iff write_codes
  by (fastforce simp: SEVENT_SSL_WANT_READ_def SEVENT_SSL_WANT_WRITE_def)

end

lemma run_bio_want: "ms_want (snd (run_bio lib p s)) = ms_want s"
proof (induction p arbitrary: s)
  case (BSend bs k)
  have "ms_want (snd (mbtls_bio_send lib bs s)) = ms_want s" by (simp add: mbtls_bio_send_def Let_def)
  then show ?case using BSend.IH [OF rangeI] by (cases "mbtls_bio_send lib bs s") simp
next
  case (BRecv n k)
  have "ms_want (snd (mbtls_bio_recv lib n s)) = ms_want s" by (simp add: mbtls_bio_recv_def Let_def)
  then show ?case using BRecv.IH [OF rangeI] by (cases "mbtls_bio_recv lib n s") simp
qed simp

lemma run_bio_want_eq: "run_bio lib p s = (a, s') \<Longrightarrow> ms_want s' = ms_want s"
  using run_bio_want [of lib p s] by simp

interpretation mbtls: ssl_backend "mbtls_handshake lib" "mbtls_read lib" "mbtls_write lib" mbtls_want for lib
proof (unfold_locales, goal_cases)
  case (1 s)
  then show ?case by (simp add: mbtls_handshake_def Let_def split: prod.splits)
next
  case (2 n s r d s')
  then show ?case by (auto simp: mbtls_read_def mbtls_want_def Let_def dest!: run_bio_want_eq split: prod.splits if_splits)
next
  case (3 b s m s')
  then show ?case by (auto simp: mbtls_write_def mbtls_want_def Let_def dest!: run_bio_want_eq split: prod.splits if_splits)
qed

section \<open>Properties\<close>

text \<open>
  C18. The byte channel of a connection is exact and stays in its arrays, whatever the library does: after
  any sequence of backend calls on a new connection the positions and lengths are within the two
  arrays of 65536 bytes (a copy never ran past an end), the bytes the library was given are the
  bytes that were fed, in order, without gap or repetition, up to what still waits, and the bytes
  that were drained are the bytes the library sent, in order, up to what still waits.
\<close>

theorem mbtls_channel_exact:
  assumes "mb_codes_ok lib" "mbtls_ssl_new lib is_server hostname c w = (Some s, c', w')" "mb_run lib ops s = (s', h)"
  shows "length (ms_recv_buf s') = MBTLS_BUF_SIZE \<and> length (ms_send_buf s') = MBTLS_BUF_SIZE
    \<and> ms_recv_pos s' \<le> ms_recv_len s' \<and> ms_recv_len s' \<le> MBTLS_BUF_SIZE \<and> ms_send_len s' \<le> MBTLS_BUF_SIZE
    \<and> fl_fed h = fl_got h @ rx s' \<and> fl_put h = fl_out h @ tx s'"
  using mb_run_flow [OF assms(1) ssl_new_fresh [OF assms(2)], of ops] assms(3) by (simp add: flow_ok_def mb_ok_def)

text \<open>A library for the examples: the handshake sends one byte and waits for one, reading and writing pass bytes through.\<close>

definition mb_demo :: "(string, nat, nat) mbedtls" where
  "mb_demo = \<lparr>mb_want_read = -26880, mb_want_write = -26752, mb_conn_eof = -29312, mb_empty = [], mb_calloc = (\<lambda>u. (0 < u, u - 1)),
     mb_ctr_drbg_seed = (\<lambda>u. (0, u)), mb_crt_parse_file = (\<lambda>p u. (if p = [] then -1 else 0, p, u)),
     mb_crt_parse = (\<lambda>p u. (0, p, u)), mb_pk_parse_keyfile = (\<lambda>p u. (if p = [] then -1 else 0, p, u)), mb_pk_parse_key = (\<lambda>p u. (0, p, u)),
     mb_config_defaults = (\<lambda>srv u. (0, \<lparr>mf_is_server = srv, mf_min_version = (3, 1), mf_authmode = MBEDTLS_SSL_VERIFY_NONE,
       mf_ca_chain = None, mf_own_cert = None\<rparr>, u)),
     mb_setup = (\<lambda>f u. (0, 0, u)), mb_set_hostname = (\<lambda>h e u. if u = 0 then (-32512, e, u) else (0, length h, u)),
     mb_handshake = (\<lambda>e. BSend [22] (\<lambda>r. BRecv 1 (\<lambda>(r, d). BDone (if r < 0 then r else 0, e)))),
     mb_read = (\<lambda>n e. BRecv n (\<lambda>(r, d). BDone (r, d, e))), mb_write = (\<lambda>b e. BSend b (\<lambda>r. BDone (r, e))),
     mb_get_bytes_avail = (\<lambda>e. 0)\<rparr>"

definition mb_demo_cfg :: sevent_ssl_config where
  "mb_demo_cfg = \<lparr>sf_ca_path = Some ''ca'', sf_ca_pem = None, sf_cert_path = None, sf_cert_pem = None, sf_key_path = None, sf_key_pem = None,
     sf_enable_peer_verify = True, sf_enable_hostname_verify = True\<rparr>"

definition mb_demo_world :: "nat mb_world" where "mb_demo_world = \<lparr>mw_live = (\<lambda>_. 0), mw_env = 2\<rparr>"

definition mb_demo_ctx :: "string mbtls_ctx" where
  "mb_demo_ctx = the (fst (mbtls_ctx_new mb_demo mb_demo_cfg mb_demo_world))"

definition mb_demo_ssl :: "(string, nat) mbtls_ssl" where
  "mb_demo_ssl = the (fst (mbtls_ssl_new mb_demo False (Some ''h'') mb_demo_ctx mb_demo_world))"

lemma mb_demo_codes: "mb_codes_ok mb_demo"
  by (simp add: mb_codes_ok_def mb_demo_def)

lemma mb_demo_ctx_eq: "mb_demo_ctx = \<lparr>mc_err = MbNone, mc_ca = ''ca'', mc_cert = [], mc_key = [], mc_have_ca = True, mc_have_cert = False,
    mc_have_key = False, mc_enable_peer_verify = True, mc_enable_hostname_verify = True\<rparr>"
  by (simp add: mb_demo_ctx_def mbtls_ctx_new_def mb_call_def mb_demo_def mb_demo_world_def mb_demo_cfg_def mbtls_load_def
      mbtls_load_ca_def mbtls_load_cert_def mb_call_m_def mb_init_def)

lemma mb_demo_ssl_new: "\<exists>c' w'. mbtls_ssl_new mb_demo False (Some ''h'') mb_demo_ctx mb_demo_world = (Some mb_demo_ssl, c', w')"
  by (simp add: mb_demo_ssl_def mbtls_ssl_new_def mb_demo_ctx_eq mb_call_def mb_call_m_def mb_demo_def mb_demo_world_def mb_init_def)

theorem mbtls_channel_exact_witness:
  "\<exists>s' h. mb_run mb_demo [OpFeed [1, 2, 3], OpHandshake, OpRead 1, OpDrain 10] mb_demo_ssl = (s', h)
     \<and> fl_fed h = fl_got h @ rx s' \<and> fl_put h = fl_out h @ tx s' \<and> ms_send_len s' \<le> 65536"
proof -
  obtain s' h where r: "mb_run mb_demo [OpFeed [1, 2, 3], OpHandshake, OpRead 1, OpDrain 10] mb_demo_ssl = (s', h)" by (rule prod.exhaust)
  obtain c' w' where n: "mbtls_ssl_new mb_demo False (Some ''h'') mb_demo_ctx mb_demo_world = (Some mb_demo_ssl, c', w')"
    using mb_demo_ssl_new by blast
  show ?thesis using mbtls_channel_exact [OF mb_demo_codes n r] r by (simp add: MBTLS_BUF_SIZE_def)
qed

lemma mbtls_load_have:
  assumes "mbtls_load lib cfg c w = (ret, c', w')"
  shows "(mc_have_ca c' \<longrightarrow> mc_have_ca c \<or> sf_ca_path cfg \<noteq> None \<or> sf_ca_pem cfg \<noteq> None)
    \<and> (mc_have_cert c' \<longrightarrow> mc_have_cert c \<or> sf_cert_path cfg \<noteq> None \<or> sf_cert_pem cfg \<noteq> None)"
proof -
  have ca: "(mc_have_ca c' \<longrightarrow> mc_have_ca c \<or> sf_ca_path cfg \<noteq> None \<or> sf_ca_pem cfg \<noteq> None) \<and> mc_have_cert c' = mc_have_cert c"
    if "mbtls_load_ca lib cfg c w = (ret, c', w')" for c w ret c' w'
    using that by (auto simp: mbtls_load_ca_def split: option.splits prod.splits if_splits)
  have ce: "mc_have_ca c' = mc_have_ca c \<and> (mc_have_cert c' \<longrightarrow> mc_have_cert c \<or> sf_cert_path cfg \<noteq> None \<or> sf_cert_pem cfg \<noteq> None)"
    if "mbtls_load_cert lib cfg c w = (ret, c', w')" for c w ret c' w'
    using that by (auto simp: mbtls_load_cert_def split: option.splits prod.splits if_splits)
  show ?thesis using assms by (auto simp: mbtls_load_def dest!: ca ce split: prod.splits if_splits)
qed

text \<open>
  A connection object exists only with the security settings that were asked for: TLS 1.2 at least,
  the peer's certificate required exactly when \<open>enable_peer_verify\<close> is set and then with a CA to
  check it against, and a server always has its own certificate.
\<close>

theorem mbtls_policy:
  assumes "mbtls_ctx_new lib cfg w = (Some c, w1)" "mbtls_ssl_new lib is_server hostname c w2 = (Some s, c', w3)"
  shows "mf_min_version (ms_conf s) = mb_tls_1_2
    \<and> (mf_authmode (ms_conf s) = MBEDTLS_SSL_VERIFY_REQUIRED \<longleftrightarrow> sf_enable_peer_verify cfg)
    \<and> (sf_enable_peer_verify cfg \<longrightarrow> mf_ca_chain (ms_conf s) \<noteq> None \<and> (sf_ca_path cfg \<noteq> None \<or> sf_ca_pem cfg \<noteq> None))
    \<and> (is_server \<longrightarrow> mf_own_cert (ms_conf s) \<noteq> None \<and> (sf_cert_path cfg \<noteq> None \<or> sf_cert_pem cfg \<noteq> None))"
proof -
  have c: "mc_enable_peer_verify c = sf_enable_peer_verify cfg"
    "mc_have_ca c \<longrightarrow> sf_ca_path cfg \<noteq> None \<or> sf_ca_pem cfg \<noteq> None" "mc_have_cert c \<longrightarrow> sf_cert_path cfg \<noteq> None \<or> sf_cert_pem cfg \<noteq> None"
    using assms(1) by (auto simp: mbtls_ctx_new_def Let_def dest!: mbtls_load_have split: prod.splits if_splits)
  have "mf_min_version (ms_conf s) = mb_tls_1_2"
    "mf_authmode (ms_conf s) = (if mc_enable_peer_verify c then MBEDTLS_SSL_VERIFY_REQUIRED else MBEDTLS_SSL_VERIFY_NONE)"
    "mc_enable_peer_verify c \<longrightarrow> mc_have_ca c \<and> mf_ca_chain (ms_conf s) \<noteq> None"
    "is_server \<longrightarrow> mc_have_cert c \<and> mf_own_cert (ms_conf s) \<noteq> None"
    using assms(2) by (auto simp: mbtls_ssl_new_def mbtls_configure_def Let_def split: prod.splits if_splits option.splits)
  then show ?thesis using c by auto
qed

theorem mbtls_policy_witness:
  "mf_authmode (ms_conf mb_demo_ssl) = MBEDTLS_SSL_VERIFY_REQUIRED \<and> mf_ca_chain (ms_conf mb_demo_ssl) \<noteq> None
     \<and> mf_min_version (ms_conf mb_demo_ssl) = mb_tls_1_2"
proof -
  obtain c' w' where n: "mbtls_ssl_new mb_demo False (Some ''h'') mb_demo_ctx mb_demo_world = (Some mb_demo_ssl, c', w')"
    using mb_demo_ssl_new by blast
  obtain w1 where x: "mbtls_ctx_new mb_demo mb_demo_cfg mb_demo_world = (Some mb_demo_ctx, w1)"
    by (simp add: mb_demo_ctx_def mbtls_ctx_new_def mb_call_def mb_demo_def mb_demo_world_def mb_demo_cfg_def mbtls_load_def
      mbtls_load_ca_def mbtls_load_cert_def mb_call_m_def mb_init_def)
  show ?thesis using mbtls_policy [OF x n] by (simp add: mb_demo_cfg_def)
qed

text \<open>
  Finding: the result of \<open>mbedtls_ssl_set_hostname\<close> is not looked at. When it fails (it allocates
  memory), the connection is handed out all the same, with an engine that was given no name: the
  server's name is neither sent nor checked, although the caller asked for it.
\<close>

theorem mbtls_hostname_failure_ignored:
  assumes "mbtls_ssl_new lib is_server None c w = (Some s, c1, w1)" "\<And>h e u. mb_set_hostname lib h e u = (ret, e, u)" "ret \<noteq> 0"
  shows "mbtls_ssl_new lib is_server (Some host) c w = mbtls_ssl_new lib is_server None c w"
  using assms(2) by (simp add: mbtls_ssl_new_def mb_call_m_def Let_def split: prod.splits)

theorem mbtls_hostname_failure_ignored_witness:
  "let lib = mb_demo\<lparr>mb_set_hostname := (\<lambda>h e u. (-32512, e, u))\<rparr>
   in mbtls_ssl_new lib False (Some ''h'') mb_demo_ctx mb_demo_world = mbtls_ssl_new lib False None mb_demo_ctx mb_demo_world
     \<and> fst (mbtls_ssl_new lib False None mb_demo_ctx mb_demo_world) \<noteq> None"
proof -
  let ?lib = "mb_demo\<lparr>mb_set_hostname := (\<lambda>h e u. (-32512, e, u))\<rparr>"
  obtain s c1 w1 where "mbtls_ssl_new ?lib False None mb_demo_ctx mb_demo_world = (Some s, c1, w1)"
    by (simp add: mbtls_ssl_new_def mb_demo_ctx_eq mb_call_def mb_call_m_def mb_demo_def mb_demo_world_def mb_init_def)
  then show ?thesis using mbtls_hostname_failure_ignored [of ?lib False mb_demo_ctx mb_demo_world s c1 w1 "-32512" "''h''"] by simp
qed

section \<open>A TLS connection on this backend\<close>

text \<open>
  What a library call may return when its callbacks answer as they are specified, with the number of
  bytes it was given: \<open>send\<close> takes at most what it is offered or says that it is full, \<open>recv\<close> gives at most what
  was asked for or says that nothing is there.
\<close>

inductive bio_may :: "('m, 'e, 'u) mbedtls \<Rightarrow> 'a bio_prog \<Rightarrow> nat \<Rightarrow> 'a \<Rightarrow> bool" for lib where
  may_done: "bio_may lib (BDone a) 0 a"
| may_send: "bio_may lib (k r) got a \<Longrightarrow> r = mb_want_write lib \<or> 0 \<le> r \<and> r \<le> int (length bs) \<Longrightarrow> bio_may lib (BSend bs k) got a"
| may_recv: "bio_may lib (k (r, d)) got a \<Longrightarrow> r = mb_want_read lib \<or> r = mb_conn_eof lib \<or> 0 \<le> r \<and> r \<le> int n
    \<Longrightarrow> bio_may lib (BRecv n k) (nat r + got) a"

inductive_cases bio_mayE: "bio_may lib (BDone a) got x" "bio_may lib (BSend bs k) got x" "bio_may lib (BRecv n k) got x"

text \<open>
  The library: plain text is never longer than what was received for it (\<open>buffered\<close> is what it holds),
  it takes no more than it is given, and it stalls finitely often, in the handshake for its output
  (\<open>hs\<close>) and in a write (\<open>stalls\<close>).
\<close>

definition mb_lib_ok :: "('m, 'e, 'u) mbedtls \<Rightarrow> ('e \<Rightarrow> nat) \<Rightarrow> ('e \<Rightarrow> nat) \<Rightarrow> ('e \<Rightarrow> nat) \<Rightarrow> bool" where
  "mb_lib_ok lib buffered hs stalls \<longleftrightarrow> mb_codes_ok lib
     \<and> (\<forall>e got r e'. bio_may lib (mb_handshake lib e) got (r, e') \<longrightarrow> r = mb_want_write lib \<longrightarrow> hs e' < hs e)
     \<and> (\<forall>n e got r d e'. bio_may lib (mb_read lib n e) got (r, d, e') \<longrightarrow> buffered e' + nat r \<le> buffered e + got)
     \<and> (\<forall>b e got r e'. b \<noteq> [] \<longrightarrow> bio_may lib (mb_write lib b e) got (r, e') \<longrightarrow> r \<le> int (length b)
          \<and> buffered e' \<le> buffered e + got \<and> (r = mb_want_read lib \<or> r = mb_want_write lib \<longrightarrow> stalls e' < stalls e))"

definition avail :: "('m, 'e) mbtls_ssl \<Rightarrow> nat" where
  "avail s = ms_recv_len s - ms_recv_pos s"

lemma bio_answers:
  assumes "mb_codes_ok lib"
  shows "mbtls_bio_send lib bs s = (r, s') \<Longrightarrow> (r = mb_want_write lib \<or> 0 \<le> r \<and> r \<le> int (length bs)) \<and> avail s' = avail s"
    "mbtls_bio_recv lib n s = ((r, d), s') \<Longrightarrow> (r = mb_want_read lib \<or> r = mb_conn_eof lib \<or> 0 \<le> r \<and> r \<le> int n) \<and> nat r + avail s' \<le> avail s"
  using assms by (auto simp: mbtls_bio_send_def mbtls_bio_recv_def Let_def mb_codes_ok_def avail_def split: if_splits)

lemma run_bio_cases:
  assumes "mb_codes_ok lib" "run_bio lib p s = (a, s')"
  obtains got where "bio_may lib p got a" "got + avail s' \<le> avail s"
proof -
  have "\<exists>got. bio_may lib p got a \<and> got + avail s' \<le> avail s"
    using assms(2)
  proof (induction p arbitrary: s)
    case (BDone a)
    then show ?case using bio_may.may_done [of lib] by fastforce
  next
    case (BSend bs k)
    obtain r s1 where r: "mbtls_bio_send lib bs s = (r, s1)" by (rule prod.exhaust)
    then obtain got where "bio_may lib (k r) got a" "got + avail s' \<le> avail s1" using BSend.IH [OF rangeI, of r s1] BSend.prems by auto
    then show ?case using bio_answers(1) [OF assms(1) r] bio_may.may_send by fastforce
  next
    case (BRecv n k)
    obtain r d s1 where r: "mbtls_bio_recv lib n s = ((r, d), s1)" by (metis prod.exhaust)
    then obtain got where "bio_may lib (k (r, d)) got a" "got + avail s' \<le> avail s1"
      using BRecv.IH [OF rangeI, of "(r, d)" s1] BRecv.prems by auto
    moreover note bio_answers(2) [OF assms(1) r]
    ultimately show ?case by (intro exI [of _ "nat r + got"]) (auto intro: bio_may.may_recv)
  qed
  then show ?thesis using that by blast
qed

lemma avail_frame [simp]: "avail (s\<lparr>ms_want := w\<rparr>) = avail s" "avail (s\<lparr>ms_ssl := e\<rparr>) = avail s" "avail (s\<lparr>ms_err := x\<rparr>) = avail s"
  "avail (s\<lparr>ms_peer_closed := b\<rparr>) = avail s"
  by (simp_all add: avail_def)

lemma mbtls_engine_ok:
  assumes "mb_lib_ok lib buffered hs stalls"
  shows "engine_ok (sevent_ssl_mbedtls_ops lib) ms_send_len (\<lambda>s. buffered (ms_ssl s) + avail s) (\<lambda>s. hs (ms_ssl s)) (\<lambda>s. stalls (ms_ssl s))"
proof -
  have codes: "mb_codes_ok lib" using assms by (simp add: mb_lib_ok_def)
  have dr: "(out \<noteq> [] \<longrightarrow> ms_send_len s' < ms_send_len s) \<and> ms_ssl s' = ms_ssl s \<and> avail s' = avail s" if "mbtls_drain cap s = (out, s')" for cap s out s'
    using that by (auto simp: mbtls_drain_def Let_def avail_def split: if_splits)
  have rd: "buffered (ms_ssl s') + avail s' \<le> buffered (ms_ssl s) + avail s
      \<and> (0 < r \<longrightarrow> buffered (ms_ssl s') + avail s' < buffered (ms_ssl s) + avail s)" if "mbtls_read lib n s = (r, d, s')" for n s r d s'
  proof -
    obtain ret d1 e s1 where b: "run_bio lib (mb_read lib n (ms_ssl s)) (s\<lparr>ms_want := 0\<rparr>) = ((ret, d1, e), s1)" by (metis prod.exhaust)
    then obtain got where "bio_may lib (mb_read lib n (ms_ssl s)) got (ret, d1, e)" "got + avail s1 \<le> avail s"
      by (rule run_bio_cases [OF codes]) simp
    moreover have "buffered e + nat ret \<le> buffered (ms_ssl s) + got" using assms calculation(1) unfolding mb_lib_ok_def by blast
    ultimately show ?thesis using that b by (auto simp: mbtls_read_def Let_def split: if_splits)
  qed
  have hs: "hs (ms_ssl s') < hs (ms_ssl s)" if "mbtls_handshake lib s = (SEVENT_SSL_WANT_WRITE, s')" for s s'
  proof -
    obtain ret e s1 where b: "run_bio lib (mb_handshake lib (ms_ssl s)) (s\<lparr>ms_want := 0\<rparr>) = ((ret, e), s1)" by (metis prod.exhaust)
    then obtain got where "bio_may lib (mb_handshake lib (ms_ssl s)) got (ret, e)" by (rule run_bio_cases [OF codes])
    moreover have "ret = mb_want_write lib" "ms_ssl s' = e"
      using that b by (auto simp: mbtls_handshake_def Let_def SEVENT_SSL_WANT_WRITE_def SEVENT_SSL_WANT_READ_def split: if_splits)
    ultimately show ?thesis using assms unfolding mb_lib_ok_def by blast
  qed
  have wr: "n \<le> int (length b) \<and> buffered (ms_ssl s') + avail s' \<le> buffered (ms_ssl s) + avail s \<and> (n = 0 \<longrightarrow> stalls (ms_ssl s') < stalls (ms_ssl s))"
    if "b \<noteq> []" "mbtls_write lib b s = (n, s')" for b s n s'
  proof -
    obtain ret e s1 where r: "run_bio lib (mb_write lib b (ms_ssl s)) (s\<lparr>ms_want := 0\<rparr>) = ((ret, e), s1)" by (metis prod.exhaust)
    then obtain got where g: "bio_may lib (mb_write lib b (ms_ssl s)) got (ret, e)" "got + avail s1 \<le> avail s"
      by (rule run_bio_cases [OF codes]) simp
    have "ret \<le> int (length b)" "buffered e \<le> buffered (ms_ssl s) + got"
      "ret = mb_want_read lib \<or> ret = mb_want_write lib \<longrightarrow> stalls e < stalls (ms_ssl s)"
      using assms that(1) g(1) unfolding mb_lib_ok_def by blast+
    then show ?thesis using that(2) r g(2) by (auto simp: mbtls_write_def Let_def split: if_splits)
  qed
  show ?thesis
    unfolding engine_ok_def sevent_ssl_mbedtls_ops_def sevent_ssl_ops.select_convs
    using dr rd hs wr by (auto simp: mbtls_peer_close_def)
qed


definition mb_demo_calm :: "(string, nat, nat) mbedtls" where
  "mb_demo_calm = mb_demo\<lparr>mb_calloc := (\<lambda>u. (True, u)), mb_write := (\<lambda>b e. BSend b (\<lambda>r. BDone (if r < 0 then -1 else r, e)))\<rparr>"

definition mb_demo_env :: "(string mbtls_ctx, (string, nat) mbtls_ssl, nat mb_world) tls_env" where
  "mb_demo_env = \<lparr>te_ops = sevent_ssl_mbedtls_ops mb_demo_calm, te_malloc = (\<lambda>n w. (True, w)), te_post = (\<lambda>w. (True, w)),
     te_tcp_create = (\<lambda>w. (True, w)), te_tcp_open = (\<lambda>h p i w. (0, w)), te_tcp_accept = (\<lambda>fd i w. (0, w)),
     te_tcp_write = (\<lambda>d w. if mw_env w = 2 then (0, None, w) else (SEVENT_ERR_INVAL, None, w)), te_tcp_shutdown = (\<lambda>f w. (0, w)),
     te_tcp_close = (\<lambda>w. w\<lparr>mw_env := 0\<rparr>), te_tcp_destroy = (\<lambda>w. w\<lparr>mw_env := 0\<rparr>)\<rparr>"

definition mb_demo_st :: "(string mbtls_ctx, (string, nat) mbtls_ssl, nat mb_world) tls_st" where
  "mb_demo_st = \<lparr>ts_obj = Some \<lparr>tl_ssl_ctx = mb_demo_ctx, tl_ssl = Some mb_demo_ssl, tl_is_server = False, tl_established = True,
     tl_handshake_done = False, tl_closed_notified = False, tl_destroyed = False, tl_hostname = Some ''h'', tl_init = demo_tls_init,
     tl_recv_buf = True, tl_recv_cap = 4096, tl_send_cap = 4096, tl_pending = [], tl_pending_cap = 0\<rparr>, ts_w = mb_demo_world, ts_log = []\<rparr>"

lemma mb_demo_lib_ok: "mb_lib_ok mb_demo_calm (\<lambda>e. 0) (\<lambda>e. 0) (\<lambda>e. 0)"
  by (auto simp: mb_lib_ok_def mb_codes_ok_def mb_demo_calm_def mb_demo_def elim!: bio_mayE split: if_splits)

lemma mb_demo_env_ok: "tls_env_ok (\<lambda>w. mw_env w = 2) mb_demo_env"
  by (auto simp: tls_env_ok_def mb_demo_env_def sevent_ssl_mbedtls_ops_def mbtls_ssl_new_def mb_demo_calm_def mb_demo_def mb_call_def
      mb_call_m_def mb_init_def mb_free_def err_defs Let_def split: if_splits option.splits prod.splits)


end
