(* ===== verification/Ssl_Openssl.thy ===== *)
theory Ssl_Openssl
  imports Ssl_Mbedtls
begin

text \<open>
  \<^verbatim>\<open>src/ssl/ssl_openssl.c\<close>: the OpenSSL backend. The library is a parameter, with its two pairs of
  memory BIOs inside the connection state \<open>'e\<close>; what is modelled is how the backend configures
  contexts and connections, who owns which object on every path, the conversion between \<open>size_t\<close> and
  \<open>int\<close>, and the translation of \<open>SSL_get_error\<close> and \<open>errno\<close> to the codes of \<^verbatim>\<open>src/ssl/ssl.h\<close>. The certificates a
  PEM text holds are the list \<open>PEM_read_bio_X509\<close> reads from it one by one before it returns NULL.
\<close>

section \<open>The library\<close>

datatype os_errno = ErrnoZero | ErrnoIntr | ErrnoAgain | ErrnoInval | ErrnoOther

datatype ssl_error = SSL_ERROR_ZERO_RETURN | SSL_ERROR_WANT_READ | SSL_ERROR_WANT_WRITE | SSL_ERROR_SYSCALL | SSL_ERROR_SSL | SSL_ERROR_OTHER

datatype os_verify = SSL_VERIFY_NONE | SSL_VERIFY_PEER | SSL_VERIFY_PEER_FAIL_IF_NO_PEER_CERT

text \<open>
  The result of an operation, what \<open>SSL_get_error\<close> says of it, \<open>errno\<close>, and whether the first reason in
  the error queue is \<open>SSL_R_UNEXPECTED_EOF_WHILE_READING\<close>; \<open>os_has_eof_reason\<close>: the library knows that reason.
\<close>

record os_result =
  or_ret :: int
  or_error :: ssl_error
  or_errno :: os_errno
  or_unexpected_eof :: bool

record ('x, 'c, 'k, 'e, 'u) openssl =
  os_has_eof_reason :: bool
  os_calloc :: "'u \<Rightarrow> bool \<times> 'u"
  os_ctx_new :: "'u \<Rightarrow> 'x option \<times> 'u"
  os_set_min_proto_tls1_2 :: "'x \<Rightarrow> 'x"
  os_load_verify_locations :: "string \<Rightarrow> 'x \<Rightarrow> int \<times> 'x"
  os_set_default_verify_paths :: "'x \<Rightarrow> int \<times> 'x"
  os_mem_bio :: "string \<Rightarrow> 'u \<Rightarrow> bool \<times> 'u"
  os_pem_x509 :: "string \<Rightarrow> 'c list"
  os_store_add_cert :: "'c \<Rightarrow> 'x \<Rightarrow> 'x"
  os_use_certificate :: "'c \<Rightarrow> 'x \<Rightarrow> int \<times> 'x"
  os_add_extra_chain_cert :: "'c \<Rightarrow> 'x \<Rightarrow> int \<times> 'x"
  os_use_certificate_chain_file :: "string \<Rightarrow> 'x \<Rightarrow> int \<times> 'x"
  os_use_privatekey_file :: "string \<Rightarrow> 'x \<Rightarrow> int \<times> 'x"
  os_pem_privatekey :: "string \<Rightarrow> 'k option"
  os_use_privatekey :: "'k \<Rightarrow> 'x \<Rightarrow> int \<times> 'x"
  os_check_private_key :: "'x \<Rightarrow> int"
  os_has_certificate :: "'x \<Rightarrow> bool"
  os_bio_pair :: "'u \<Rightarrow> bool \<times> 'u"
  os_ssl_new :: "'x \<Rightarrow> 'u \<Rightarrow> 'e option \<times> 'u"
  os_set_verify :: "os_verify \<Rightarrow> 'e \<Rightarrow> 'e"
  os_set_tlsext_host_name :: "string \<Rightarrow> 'e \<Rightarrow> int \<times> 'e"
  os_set1_host :: "string \<Rightarrow> 'e \<Rightarrow> int \<times> 'e"
  os_bio_write :: "bytes \<Rightarrow> int \<Rightarrow> 'e \<Rightarrow> int \<times> 'e"
  os_bio_read :: "int \<Rightarrow> 'e \<Rightarrow> int \<times> bytes \<times> 'e"
  os_bio_shutdown_wr :: "'e \<Rightarrow> 'e"
  os_accept :: "'e \<Rightarrow> os_result \<times> 'e"
  os_connect :: "'e \<Rightarrow> os_result \<times> 'e"
  os_read :: "int \<Rightarrow> 'e \<Rightarrow> os_result \<times> bytes \<times> 'e"
  os_write :: "bytes \<Rightarrow> int \<Rightarrow> 'e \<Rightarrow> os_result \<times> 'e"
  os_pending :: "'e \<Rightarrow> int"

section \<open>The objects\<close>

datatype os_res = OCtx | OX509 | OPkey | OBio | OSsl | OCtxBlock | OSslBlock

record 'u os_world =
  ow_live :: "os_res \<Rightarrow> int"
  ow_env :: 'u

definition os_new :: "os_res \<Rightarrow> int \<Rightarrow> 'u os_world \<Rightarrow> 'u os_world" where
  "os_new r n w = w\<lparr>ow_live := (ow_live w)(r := ow_live w r + n)\<rparr>"

definition os_free :: "os_res \<Rightarrow> int \<Rightarrow> 'u os_world \<Rightarrow> 'u os_world" where
  "os_free r n w = w\<lparr>ow_live := (ow_live w)(r := ow_live w r - n)\<rparr>"

definition os_call :: "('u \<Rightarrow> 'r \<times> 'u) \<Rightarrow> 'u os_world \<Rightarrow> 'r \<times> 'u os_world" where
  "os_call f w = (case f (ow_env w) of (r, u) \<Rightarrow> (r, w\<lparr>ow_env := u\<rparr>))"

record 'x ossl_ctx =
  oc_ctx :: 'x
  oc_enable_peer_verify :: bool
  oc_enable_hostname_verify :: bool
  oc_ca_available :: bool

text \<open>\<open>ol_peer_rbio\<close> and \<open>ol_peer_wbio\<close> tell whether the outer ends are there; \<open>ol_mode\<close> is the mode given to \<open>SSL_set_verify\<close>.\<close>

record 'e ossl_ssl =
  ol_ssl :: 'e
  ol_is_server :: bool
  ol_want :: int
  ol_peer_rbio :: bool
  ol_peer_wbio :: bool
  ol_peer_closed :: bool
  ol_mode :: os_verify

definition OSSL_INT_MAX :: nat where "OSSL_INT_MAX = 2147483647"

text \<open>The cast \<open>(int)len\<close> of a \<open>size_t\<close>.\<close>

definition int_of_size :: "nat \<Rightarrow> int" where
  "int_of_size n = sint (of_nat n :: 32 word)"

section \<open>Error texts\<close>

datatype os_text = OsErr nat | OsErrno os_errno

text \<open>The error queue, \<open>errno\<close> and the room in the buffer; the queue is empty afterwards.\<close>

definition ossl_error_str :: "nat list \<Rightarrow> os_errno \<Rightarrow> nat \<Rightarrow> os_text option \<times> nat list" where
  "ossl_error_str queue en cap =
     (if cap = 0 then (None, queue)
      else (Some (case queue of [] \<Rightarrow> OsErrno en | e # _ \<Rightarrow> OsErr e), []))"

section \<open>Contexts\<close>

fun ca_pem_loop :: "('x, 'c, 'k, 'e, 'u) openssl \<Rightarrow> 'c list \<Rightarrow> nat \<Rightarrow> 'x \<Rightarrow> nat \<times> 'x" where
  "ca_pem_loop lib [] n x = (n, x)"
| "ca_pem_loop lib (c # cs) n x = ca_pem_loop lib cs (n + 1) (os_store_add_cert lib c x)"

text \<open>Each certificate is freed in the iteration that read it.\<close>

definition ossl_load_ca_pem :: "('x, 'c, 'k, 'e, 'u) openssl \<Rightarrow> string \<Rightarrow> 'x \<Rightarrow> 'u os_world \<Rightarrow> int \<times> 'x \<times> 'u os_world" where
  "ossl_load_ca_pem lib pem x w =
     (case os_call (os_mem_bio lib pem) w of (ok, w) \<Rightarrow>
        if \<not> ok then (-1, x, w)
        else
          let w = os_new OBio 1 w; certs = os_pem_x509 lib pem; (n, x) = ca_pem_loop lib certs 0 x;
              w = os_free OX509 (int (length certs)) (os_new OX509 (int (length certs)) w);
              w = os_free OBio 1 w
          in (if 0 < n then 0 else -1, x, w))"

text \<open>The rest of the chain: on success the context takes the certificate over, otherwise nobody has it any more.\<close>

fun chain_loop :: "('x, 'c, 'k, 'e, 'u) openssl \<Rightarrow> 'c list \<Rightarrow> 'x \<Rightarrow> 'u os_world \<Rightarrow> 'x \<times> 'u os_world" where
  "chain_loop lib [] x w = (x, w)"
| "chain_loop lib (c # cs) x w =
     (case os_add_extra_chain_cert lib c x of (r, x) \<Rightarrow>
        let w = os_new OX509 1 w in chain_loop lib cs x (if r = 1 then os_free OX509 1 w else w))"

definition ossl_load_cert_pem :: "('x, 'c, 'k, 'e, 'u) openssl \<Rightarrow> string \<Rightarrow> 'x \<Rightarrow> 'u os_world \<Rightarrow> int \<times> 'x \<times> 'u os_world" where
  "ossl_load_cert_pem lib pem x w =
     (case os_call (os_mem_bio lib pem) w of (ok, w) \<Rightarrow>
        if \<not> ok then (-1, x, w)
        else
          let w = os_new OBio 1 w
          in (case os_pem_x509 lib pem of
                [] \<Rightarrow> (-1, x, os_free OBio 1 w)
              | c # cs \<Rightarrow>
                  let w = os_new OX509 1 w
                  in (case os_use_certificate lib c x of (r, x) \<Rightarrow>
                        if r \<noteq> 1 then (-1, x, os_free OBio 1 (os_free OX509 1 w))
                        else (case chain_loop lib cs x (os_free OX509 1 w) of (x, w) \<Rightarrow> (0, x, os_free OBio 1 w)))))"

definition ossl_load_ca :: "('x, 'c, 'k, 'e, 'u) openssl \<Rightarrow> sevent_ssl_config \<Rightarrow> 'x \<Rightarrow> 'u os_world \<Rightarrow> bool \<times> bool \<times> 'x \<times> 'u os_world" where
  "ossl_load_ca lib cfg x w =
     (case sf_ca_path cfg of
        Some p \<Rightarrow> (case os_load_verify_locations lib p x of (r, x) \<Rightarrow> if r = 1 then (True, True, x, w) else (False, False, x, w))
      | None \<Rightarrow>
          (case sf_ca_pem cfg of
             Some t \<Rightarrow> (case ossl_load_ca_pem lib t x w of (r, x, w) \<Rightarrow> if r = 0 then (True, True, x, w) else (False, False, x, w))
           | None \<Rightarrow> (case os_set_default_verify_paths lib x of (r, x) \<Rightarrow> (True, r = 1, x, w))))"

text \<open>The key that belongs to a certificate given as text, which the configuration check has made sure is there.\<close>

definition ossl_load_key_pem :: "('x, 'c, 'k, 'e, 'u) openssl \<Rightarrow> string \<Rightarrow> 'x \<Rightarrow> 'u os_world \<Rightarrow> bool \<times> 'x \<times> 'u os_world" where
  "ossl_load_key_pem lib pem x w =
     (case os_call (os_mem_bio lib pem) w of (ok, w) \<Rightarrow>
        if \<not> ok then (False, x, w)
        else
          let w = os_new OBio 1 w
          in (case os_pem_privatekey lib pem of
                None \<Rightarrow> (False, x, os_free OBio 1 w)
              | Some k \<Rightarrow> (case os_use_privatekey lib k x of (r, x) \<Rightarrow>
                  (r = 1, x, os_free OBio 1 (os_free OPkey 1 (os_new OPkey 1 w))))))"

definition ossl_load_cert :: "('x, 'c, 'k, 'e, 'u) openssl \<Rightarrow> sevent_ssl_config \<Rightarrow> 'x \<Rightarrow> 'u os_world \<Rightarrow> bool \<times> 'x \<times> 'u os_world" where
  "ossl_load_cert lib cfg x w =
     (case sf_cert_path cfg of
        Some p \<Rightarrow>
          (case os_use_certificate_chain_file lib p x of (r, x) \<Rightarrow>
             if r \<noteq> 1 then (False, x, w)
             else (case os_use_privatekey_file lib (the (sf_key_path cfg)) x of (r, x) \<Rightarrow> (r = 1, x, w)))
      | None \<Rightarrow>
          (case sf_cert_pem cfg of
             Some t \<Rightarrow> (case ossl_load_cert_pem lib t x w of (r, x, w) \<Rightarrow>
               if r \<noteq> 0 then (False, x, w) else ossl_load_key_pem lib (the (sf_key_pem cfg)) x w)
           | None \<Rightarrow> (True, x, w)))"

definition ossl_ctx_new :: "('x, 'c, 'k, 'e, 'u) openssl \<Rightarrow> sevent_ssl_config \<Rightarrow> 'u os_world \<Rightarrow> 'x ossl_ctx option \<times> 'u os_world" where
  "ossl_ctx_new lib cfg w =
     (case os_call (os_ctx_new lib) w of
        (None, w) \<Rightarrow> (None, w)
      | (Some x, w) \<Rightarrow>
          let w = os_new OCtx 1 w; x = os_set_min_proto_tls1_2 lib x; fail = (\<lambda>w. (None, os_free OCtx 1 w))
          in (case ossl_load_ca lib cfg x w of (ok, ca_ok, x, w) \<Rightarrow>
            if \<not> ok then fail w
            else (case ossl_load_cert lib cfg x w of (ok, x, w) \<Rightarrow>
              if \<not> ok then fail w
              else if (sf_cert_path cfg \<noteq> None \<or> sf_cert_pem cfg \<noteq> None) \<and> os_check_private_key lib x \<noteq> 1 then fail w
              else (case os_call (os_calloc lib) w of (ok, w) \<Rightarrow>
                if \<not> ok then fail w
                else (Some \<lparr>oc_ctx = x, oc_enable_peer_verify = sf_enable_peer_verify cfg,
                            oc_enable_hostname_verify = sf_enable_hostname_verify cfg, oc_ca_available = ca_ok\<rparr>, os_new OCtxBlock 1 w)))))"

definition ossl_ctx_free :: "'x ossl_ctx option \<Rightarrow> 'u os_world \<Rightarrow> 'u os_world" where
  "ossl_ctx_free ctxp w = (case ctxp of None \<Rightarrow> w | Some c \<Rightarrow> os_free OCtxBlock 1 (os_free OCtx 1 w))"

section \<open>Connections\<close>

definition ossl_verify_mode :: "bool \<Rightarrow> bool \<Rightarrow> os_verify" where
  "ossl_verify_mode enable is_server =
     (if enable then (if is_server then SSL_VERIFY_PEER_FAIL_IF_NO_PEER_CERT else SSL_VERIFY_PEER) else SSL_VERIFY_NONE)"

definition ossl_set_name :: "('x, 'c, 'k, 'e, 'u) openssl \<Rightarrow> 'x ossl_ctx \<Rightarrow> bool \<Rightarrow> string option \<Rightarrow> 'e \<Rightarrow> 'e" where
  "ossl_set_name lib cx is_server hostname e =
     (case hostname of
        None \<Rightarrow> e
      | Some h \<Rightarrow>
          let e = (if \<not> is_server then snd (os_set_tlsext_host_name lib h e) else e)
          in if oc_enable_hostname_verify cx then snd (os_set1_host lib h e) else e)"

text \<open>A pair that cannot be made leaves both pointers NULL; the label \<open>fail\<close> frees what is not NULL.\<close>

definition ossl_ssl_new ::
  "('x, 'c, 'k, 'e, 'u) openssl \<Rightarrow> bool \<Rightarrow> string option \<Rightarrow> 'x ossl_ctx \<Rightarrow> 'u os_world \<Rightarrow> 'e ossl_ssl option \<times> 'u os_world" where
  "ossl_ssl_new lib is_server hostname cx w =
     (if is_server \<and> \<not> os_has_certificate lib (oc_ctx cx) then (None, w)
      else if is_server \<and> oc_enable_peer_verify cx \<and> \<not> oc_ca_available cx then (None, w)
      else (case os_call (os_calloc lib) w of (ok, w) \<Rightarrow>
        if \<not> ok then (None, w)
        else
          let w = os_new OSslBlock 1 w;
              fail = (\<lambda>inner outer w. (None, os_free OSslBlock 1 (os_free OBio outer (os_free OBio inner w))))
          in (case os_call (os_bio_pair lib) w of (ok, w) \<Rightarrow>
            if \<not> ok then fail 0 0 w
            else (case os_call (os_bio_pair lib) (os_new OBio 2 w) of (ok, w) \<Rightarrow>
              if \<not> ok then fail 1 1 w
              else (case os_call (os_ssl_new lib (oc_ctx cx)) (os_new OBio 2 w) of
                      (None, w) \<Rightarrow> fail 2 2 w
                    | (Some e, w) \<Rightarrow>
                        let mode = ossl_verify_mode (oc_enable_peer_verify cx) is_server;
                            e = ossl_set_name lib cx is_server hostname (os_set_verify lib mode e)
                        in (Some \<lparr>ol_ssl = e, ol_is_server = is_server, ol_want = 0, ol_peer_rbio = True, ol_peer_wbio = True,
                                  ol_peer_closed = False, ol_mode = mode\<rparr>, os_new OSsl 1 w))))))"

text \<open>\<open>SSL_free\<close> also frees the two inner BIOs it was given.\<close>

definition ossl_ssl_free :: "'e ossl_ssl option \<Rightarrow> 'u os_world \<Rightarrow> 'u os_world" where
  "ossl_ssl_free sslp w =
     (case sslp of
        None \<Rightarrow> w
      | Some s \<Rightarrow> os_free OSslBlock 1 (os_free OBio 1 (os_free OBio 1 (os_free OBio 2 (os_free OSsl 1 w)))))"

section \<open>The data channel\<close>

definition ossl_feed :: "('x, 'c, 'k, 'e, 'u) openssl \<Rightarrow> bytes \<Rightarrow> 'e ossl_ssl \<Rightarrow> int \<times> 'e ossl_ssl" where
  "ossl_feed lib data s =
     (if \<not> ol_peer_rbio s then (-1, s)
      else (case os_bio_write lib data (int_of_size (length data)) (ol_ssl s) of (n, e) \<Rightarrow>
        (if n = int_of_size (length data) then 0 else -1, s\<lparr>ol_ssl := e\<rparr>)))"

definition ossl_drain :: "('x, 'c, 'k, 'e, 'u) openssl \<Rightarrow> nat \<Rightarrow> 'e ossl_ssl \<Rightarrow> bytes \<times> 'e ossl_ssl" where
  "ossl_drain lib cap s =
     (if \<not> ol_peer_wbio s \<or> cap = 0 then ([], s)
      else (case os_bio_read lib (int_of_size cap) (ol_ssl s) of (n, d, e) \<Rightarrow>
        (if 0 < n then take (nat n) d else [], s\<lparr>ol_ssl := e\<rparr>)))"

definition ossl_peer_close :: "('x, 'c, 'k, 'e, 'u) openssl \<Rightarrow> 'e ossl_ssl \<Rightarrow> 'e ossl_ssl" where
  "ossl_peer_close lib s =
     (let s = (if ol_peer_rbio s then s\<lparr>ol_ssl := os_bio_shutdown_wr lib (ol_ssl s)\<rparr> else s)
      in s\<lparr>ol_peer_closed := True\<rparr>)"

section \<open>Operations\<close>

definition ossl_handshake :: "('x, 'c, 'k, 'e, 'u) openssl \<Rightarrow> 'e ossl_ssl \<Rightarrow> int \<times> 'e ossl_ssl" where
  "ossl_handshake lib s =
     (case (if ol_is_server s then os_accept lib else os_connect lib) (ol_ssl s) of (r, e) \<Rightarrow>
        let s = s\<lparr>ol_want := 0, ol_ssl := e\<rparr>
        in if or_ret r = 1 then (0, s)
           else if or_error r = SSL_ERROR_WANT_READ then (SEVENT_SSL_WANT_READ, s)
           else if or_error r = SSL_ERROR_WANT_WRITE then (SEVENT_SSL_WANT_WRITE, s)
           else (-1, s))"

definition ossl_clamp :: "nat \<Rightarrow> nat" where
  "ossl_clamp len = (if OSSL_INT_MAX < len then OSSL_INT_MAX else len)"

definition ossl_read :: "('x, 'c, 'k, 'e, 'u) openssl \<Rightarrow> nat \<Rightarrow> 'e ossl_ssl \<Rightarrow> int \<times> bytes \<times> 'e ossl_ssl" where
  "ossl_read lib len s =
     (case os_read lib (int_of_size (ossl_clamp len)) (ol_ssl s) of (r, d, e) \<Rightarrow>
        let s = s\<lparr>ol_want := 0, ol_ssl := e\<rparr>
        in if 0 < or_ret r then (or_ret r, d, s)
           else (case or_error r of
                   SSL_ERROR_ZERO_RETURN \<Rightarrow> (0, d, s)
                 | SSL_ERROR_WANT_READ \<Rightarrow> (-1, d, s\<lparr>ol_want := SEVENT_SSL_WANT_READ\<rparr>)
                 | SSL_ERROR_WANT_WRITE \<Rightarrow> (-1, d, s\<lparr>ol_want := SEVENT_SSL_WANT_WRITE\<rparr>)
                 | SSL_ERROR_SYSCALL \<Rightarrow>
                     (if or_errno r = ErrnoIntr \<or> or_errno r = ErrnoAgain then (-1, d, s\<lparr>ol_want := SEVENT_SSL_WANT_READ\<rparr>)
                      else if or_errno r = ErrnoZero then (0, d, s)
                      else (-1, d, s))
                 | SSL_ERROR_SSL \<Rightarrow> (if os_has_eof_reason lib \<and> or_unexpected_eof r then (0, d, s) else (-1, d, s))
                 | SSL_ERROR_OTHER \<Rightarrow> (-1, d, s)))"

definition ossl_write :: "('x, 'c, 'k, 'e, 'u) openssl \<Rightarrow> bytes \<Rightarrow> 'e ossl_ssl \<Rightarrow> int \<times> 'e ossl_ssl" where
  "ossl_write lib buf s =
     (case os_write lib buf (int_of_size (ossl_clamp (length buf))) (ol_ssl s) of (r, e) \<Rightarrow>
        let s = s\<lparr>ol_want := 0, ol_ssl := e\<rparr>
        in if 0 < or_ret r then (or_ret r, s)
           else (case or_error r of
                   SSL_ERROR_WANT_READ \<Rightarrow> (0, s\<lparr>ol_want := SEVENT_SSL_WANT_READ\<rparr>)
                 | SSL_ERROR_WANT_WRITE \<Rightarrow> (0, s\<lparr>ol_want := SEVENT_SSL_WANT_WRITE\<rparr>)
                 | SSL_ERROR_SYSCALL \<Rightarrow>
                     (if or_errno r = ErrnoIntr \<or> or_errno r = ErrnoAgain then (0, s\<lparr>ol_want := SEVENT_SSL_WANT_WRITE\<rparr>) else (-1, s))
                 | _ \<Rightarrow> (-1, s)))"

definition ossl_want :: "'e ossl_ssl \<Rightarrow> int" where "ossl_want s = ol_want s"

definition ossl_pending :: "('x, 'c, 'k, 'e, 'u) openssl \<Rightarrow> 'e ossl_ssl \<Rightarrow> int" where
  "ossl_pending lib s = os_pending lib (ol_ssl s)"

definition sevent_ssl_openssl_ops :: "('x, 'c, 'k, 'e, 'u) openssl \<Rightarrow> ('x ossl_ctx, 'e ossl_ssl, 'u os_world) sevent_ssl_ops" where
  "sevent_ssl_openssl_ops lib =
     \<lparr>so_ctx_new = ossl_ctx_new lib, so_ssl_new = (\<lambda>cx is_server hostname w. ossl_ssl_new lib is_server hostname cx w),
      so_feed = ossl_feed lib, so_drain = ossl_drain lib, so_peer_close = ossl_peer_close lib, so_handshake = ossl_handshake lib,
      so_read = ossl_read lib, so_write = ossl_write lib, so_want = ossl_want\<rparr>"

section \<open>The contract\<close>

interpretation ossl: ssl_backend "ossl_handshake lib" "ossl_read lib" "ossl_write lib" ossl_want for lib
proof (unfold_locales, goal_cases)
  case (1 s)
  then show ?case by (simp add: ossl_handshake_def Let_def split: prod.splits)
next
  case (2 n s r d s')
  then show ?case by (auto simp: ossl_read_def ossl_want_def Let_def split: prod.splits if_splits ssl_error.splits)
next
  case (3 b s m s')
  then show ?case by (auto simp: ossl_write_def ossl_want_def Let_def split: prod.splits if_splits ssl_error.splits)
qed

section \<open>What is allocated\<close>

lemma os_world_sel [simp]:
  "ow_live (os_new r n w) = (ow_live w)(r := ow_live w r + n)" "ow_live (os_free r n w) = (ow_live w)(r := ow_live w r - n)"
  by (simp_all add: os_new_def os_free_def)

lemma os_call_live: "os_call f w = (r, w') \<Longrightarrow> ow_live w' = ow_live w"
  by (auto simp: os_call_def split: prod.splits)

text \<open>\<open>refused\<close>: how many certificates of a chain the library refused; nobody frees these.\<close>

fun refused :: "('x, 'c, 'k, 'e, 'u) openssl \<Rightarrow> 'c list \<Rightarrow> 'x \<Rightarrow> nat" where
  "refused lib [] x = 0"
| "refused lib (c # cs) x = (case os_add_extra_chain_cert lib c x of (r, x) \<Rightarrow> (if r = 1 then 0 else 1) + refused lib cs x)"

lemma chain_loop_live: "chain_loop lib cs x w = (x', w') \<Longrightarrow> ow_live w' = (ow_live w)(OX509 := ow_live w OX509 + int (refused lib cs x))"
  by (induction cs arbitrary: x w) (force simp: Let_def split: prod.splits if_splits)+

lemma load_ca_live: "ossl_load_ca lib cfg x w = (ok, ca, x', w') \<Longrightarrow> ow_live w' = ow_live w"
proof -
  have "ossl_load_ca_pem lib pem x w = (r, x', w') \<Longrightarrow> ow_live w' = ow_live w" for pem r x' w'
    by (auto simp: ossl_load_ca_pem_def Let_def dest!: os_call_live split: prod.splits if_splits)
  then show "ossl_load_ca lib cfg x w = (ok, ca, x', w') \<Longrightarrow> ow_live w' = ow_live w"
    by (auto simp: ossl_load_ca_def split: option.splits prod.splits if_splits)
qed

definition never_refused :: "('x, 'c, 'k, 'e, 'u) openssl \<Rightarrow> bool" where
  "never_refused lib \<longleftrightarrow> (\<forall>c x. fst (os_add_extra_chain_cert lib c x) = 1)"

lemma refused_none: "never_refused lib \<Longrightarrow> refused lib cs x = 0"
proof (induction cs arbitrary: x)
  case (Cons c cs)
  then have "fst (os_add_extra_chain_cert lib c x) = 1" by (simp add: never_refused_def)
  then show ?case using Cons by (simp add: split_beta)
qed simp

lemma load_cert_live:
  assumes "never_refused lib" "ossl_load_cert lib cfg x w = (ok, x', w')"
  shows "ow_live w' = ow_live w"
proof -
  have c: "ow_live w' = ow_live w" if "ossl_load_cert_pem lib pem x w = (r, x', w')" for pem x w r x' w'
    using that refused_none [OF assms(1)]
    by (auto simp: ossl_load_cert_pem_def Let_def dest!: os_call_live chain_loop_live split: prod.splits if_splits list.splits)
  have k: "ow_live w' = ow_live w" if "ossl_load_key_pem lib pem x w = (r, x', w')" for pem x w r x' w'
    using that by (auto simp: ossl_load_key_pem_def Let_def dest!: os_call_live split: prod.splits if_splits option.splits)
  show ?thesis using assms(2) by (auto simp: ossl_load_cert_def dest!: c k split: option.splits prod.splits if_splits)
qed

lemma ossl_ctx_new_live:
  assumes "never_refused lib" "ossl_ctx_new lib cfg w = (r, w')"
  shows "ow_live (ossl_ctx_free r w') = ow_live w"
  using assms(2)
  by (auto simp: ossl_ctx_new_def ossl_ctx_free_def Let_def dest!: os_call_live load_ca_live load_cert_live [OF assms(1)]
      split: prod.splits if_splits option.splits)

lemma ossl_ssl_new_live:
  assumes "ossl_ssl_new lib is_server hostname cx w = (r, w')"
  shows "ow_live (ossl_ssl_free r w') = ow_live w"
  using assms
  by (auto simp: ossl_ssl_new_def ossl_ssl_free_def Let_def fun_eq_iff dest!: os_call_live split: prod.splits if_splits option.splits)

section \<open>Lengths\<close>

text \<open>The lengths of \<open>SSL_read\<close> and \<open>SSL_write\<close> fit an \<open>int\<close> and never exceed the buffer; the casts of \<open>feed\<close> and \<open>drain\<close> are exact below 2 GB.\<close>

lemma int_of_size_small: "n < 2147483648 \<Longrightarrow> int_of_size n = int n"
  by (simp add: int_of_size_def signed_of_nat signed_take_bit_int_eq_self)

lemma ossl_clamp_fits: "int_of_size (ossl_clamp n) = int (min n OSSL_INT_MAX)"
  by (subst int_of_size_small) (auto simp: ossl_clamp_def OSSL_INT_MAX_def)

section \<open>Properties\<close>


text \<open>A library for the examples: every call succeeds; a connection state is the bytes waiting in both directions.\<close>

definition os_demo :: "(nat, string, string, bytes \<times> bytes, nat) openssl" where
  "os_demo = \<lparr>os_has_eof_reason = True, os_calloc = (\<lambda>u. (0 < u, u - 1)), os_ctx_new = (\<lambda>u. (Some 0, u)), os_set_min_proto_tls1_2 = (\<lambda>x. x),
     os_load_verify_locations = (\<lambda>p x. (1, x)), os_set_default_verify_paths = (\<lambda>x. (1, x)), os_mem_bio = (\<lambda>p u. (True, u)),
     os_pem_x509 = (\<lambda>p. map (\<lambda>c. [c]) p), os_store_add_cert = (\<lambda>c x. x + 1), os_use_certificate = (\<lambda>c x. (1, x + 1)),
     os_add_extra_chain_cert = (\<lambda>c x. (1, x + 1)), os_use_certificate_chain_file = (\<lambda>p x. (1, x + 1)), os_use_privatekey_file = (\<lambda>p x. (1, x)),
     os_pem_privatekey = Some, os_use_privatekey = (\<lambda>k x. (1, x)), os_check_private_key = (\<lambda>x. 1), os_has_certificate = (\<lambda>x. 0 < x),
     os_bio_pair = (\<lambda>u. (True, u)), os_ssl_new = (\<lambda>x u. (Some ([], []), u)), os_set_verify = (\<lambda>m e. e), os_set_tlsext_host_name = (\<lambda>h e. (1, e)),
     os_set1_host = (\<lambda>h e. (1, e)), os_bio_write = (\<lambda>d n (i, j). (n, (i @ d, j))), os_bio_read = (\<lambda>n (i, j). (int (length (take (nat n) j)), take (nat n) j, (i, drop (nat n) j))),
     os_bio_shutdown_wr = (\<lambda>e. e), os_accept = (\<lambda>e. (\<lparr>or_ret = 1, or_error = SSL_ERROR_OTHER, or_errno = ErrnoZero, or_unexpected_eof = False\<rparr>, e)),
     os_connect = (\<lambda>e. (\<lparr>or_ret = 1, or_error = SSL_ERROR_OTHER, or_errno = ErrnoZero, or_unexpected_eof = False\<rparr>, e)),
     os_read = (\<lambda>n (i, j). (\<lparr>or_ret = int (length (take (nat n) i)), or_error = SSL_ERROR_WANT_READ, or_errno = ErrnoZero, or_unexpected_eof = False\<rparr>,
       take (nat n) i, (drop (nat n) i, j))),
     os_write = (\<lambda>b n (i, j). (\<lparr>or_ret = n, or_error = SSL_ERROR_WANT_WRITE, or_errno = ErrnoZero, or_unexpected_eof = False\<rparr>, (i, j @ take (nat n) b))),
     os_pending = (\<lambda>e. 0)\<rparr>"

definition os_demo_cfg :: sevent_ssl_config where
  "os_demo_cfg = \<lparr>sf_ca_path = None, sf_ca_pem = Some ''a'', sf_cert_path = None, sf_cert_pem = Some ''lm'', sf_key_path = None, sf_key_pem = Some ''k'',
     sf_enable_peer_verify = True, sf_enable_hostname_verify = True\<rparr>"

definition os_demo_world :: "nat os_world" where "os_demo_world = \<lparr>ow_live = (\<lambda>_. 0), ow_env = 1\<rparr>"




text \<open>
  Finding: a chain certificate that the library does not take is lost. \<open>ossl_load_cert_pem\<close> ignores the
  result of \<open>SSL_CTX_add_extra_chain_cert\<close> and clears the pointer, so that every refused certificate
  stays allocated for ever, and the context is used with an incomplete chain.
\<close>

theorem ossl_refused_chain_leaks:
  assumes "os_pem_x509 lib pem = c # cs" "fst (os_use_certificate lib c x) = 1" "fst (os_mem_bio lib pem (ow_env w))"
  shows "case ossl_load_cert_pem lib pem x w of (rc, x', w') \<Rightarrow>
    rc = 0 \<and> ow_live w' = (ow_live w)(OX509 := ow_live w OX509 + int (refused lib cs (snd (os_use_certificate lib c x))))"
proof -
  obtain w1 where c: "os_call (os_mem_bio lib pem) w = (True, w1)"
    using assms(3) by (cases "os_mem_bio lib pem (ow_env w)") (simp add: os_call_def)
  note w1 = c os_call_live [OF c]
  obtain y where u: "os_use_certificate lib c x = (1, y)" using assms(2) by (cases "os_use_certificate lib c x") auto
  obtain z w2 where l: "chain_loop lib cs y (os_free OX509 1 (os_new OX509 1 (os_new OBio 1 w1))) = (z, w2)" by (rule prod.exhaust)
  show ?thesis using w1 u assms(1) chain_loop_live [OF l] l by (simp add: ossl_load_cert_pem_def fun_upd_twist)
qed

theorem ossl_refused_chain_leaks_witness:
  "let lib = os_demo\<lparr>os_add_extra_chain_cert := (\<lambda>c x. (0, x))\<rparr>
   in case ossl_load_cert_pem lib ''lmn'' 0 os_demo_world of (rc, x', w') \<Rightarrow> rc = 0 \<and> ow_live w' OX509 = 2"
  using ossl_refused_chain_leaks [of "os_demo\<lparr>os_add_extra_chain_cert := (\<lambda>c x. (0, x))\<rparr>" "''lmn''" "''l''" "[''m'', ''n'']" 0 os_demo_world]
  by (simp add: os_demo_def os_demo_world_def split: prod.splits)

text \<open>
  A connection of the OpenSSL backend has the verification mode that was asked for: the peer's
  certificate is checked exactly when \<open>enable_peer_verify\<close> is set, a server then insists on one and
  has a CA to check it against, and a server always has its own certificate.
\<close>

theorem ossl_policy:
  assumes "ossl_ctx_new lib cfg w = (Some cx, w1)" "ossl_ssl_new lib is_server hostname cx w2 = (Some s, w3)"
  shows "ol_mode s = (if \<not> sf_enable_peer_verify cfg then SSL_VERIFY_NONE
      else if is_server then SSL_VERIFY_PEER_FAIL_IF_NO_PEER_CERT else SSL_VERIFY_PEER)
    \<and> (is_server \<longrightarrow> os_has_certificate lib (oc_ctx cx)) \<and> (is_server \<and> sf_enable_peer_verify cfg \<longrightarrow> oc_ca_available cx)"
proof -
  have "oc_enable_peer_verify cx = sf_enable_peer_verify cfg"
    using assms(1) by (auto simp: ossl_ctx_new_def Let_def split: prod.splits if_splits option.splits)
  moreover have "ol_mode s = ossl_verify_mode (oc_enable_peer_verify cx) is_server" "is_server \<longrightarrow> os_has_certificate lib (oc_ctx cx)"
    "is_server \<and> oc_enable_peer_verify cx \<longrightarrow> oc_ca_available cx"
    using assms(2) by (auto simp: ossl_ssl_new_def Let_def split: prod.splits if_splits option.splits)
  ultimately show ?thesis by (simp add: ossl_verify_mode_def)
qed

end
