(* ===== verification/Sevent_Platform.thy ===== *)
theory Sevent_Platform
  imports Sevent_Prelude
begin

text \<open>
  \<^verbatim>\<open>src/sevent_platform.c\<close> and \<^verbatim>\<open>src/sevent_dns.c\<close>: the descriptors that wake the loop up, with the three
  ways to make them, and the resolution of host names. The system calls are the parameter \<open>sy\<close>. The
  field \<open>ps_open\<close> counts how often each descriptor was opened and not closed, \<open>ps_nonblock\<close> holds the
  descriptors that were made non-blocking; the code reads neither. The mutex functions only rename
  those of the C library and are left out.
\<close>

section \<open>Wakeup descriptors\<close>

record 'u plat_st =
  ps_env :: 'u
  ps_open :: "int \<Rightarrow> int"
  ps_nonblock :: "int set"

text \<open>\<open>pf_has_eventfd\<close> and \<open>pf_has_pipe\<close> are the two build options; ports are in host order.\<close>

record 'u plat_sys =
  pf_has_eventfd :: bool
  pf_has_pipe :: bool
  pf_O_NONBLOCK :: int
  pf_eventfd :: "'u \<Rightarrow> int \<times> 'u"
  pf_pipe :: "'u \<Rightarrow> (nat \<times> nat) option \<times> 'u"
  pf_getfl :: "int \<Rightarrow> 'u \<Rightarrow> int \<times> 'u"
  pf_setfl :: "int \<Rightarrow> int \<Rightarrow> 'u \<Rightarrow> int \<times> 'u"
  pf_socket :: "'u \<Rightarrow> int \<times> 'u"
  pf_bind_loopback :: "int \<Rightarrow> 'u \<Rightarrow> int \<times> 'u"
  pf_getsockname :: "int \<Rightarrow> 'u \<Rightarrow> 16 word option \<times> 'u"
  pf_connect :: "int \<Rightarrow> 16 word \<Rightarrow> 'u \<Rightarrow> int \<times> 'u"
  pf_close :: "int \<Rightarrow> 'u \<Rightarrow> 'u"
  pf_read :: "int \<Rightarrow> nat \<Rightarrow> 'u \<Rightarrow> int \<times> 'u"

definition pf_call :: "('u \<Rightarrow> 'r \<times> 'u) \<Rightarrow> 'u plat_st \<Rightarrow> 'r \<times> 'u plat_st" where
  "pf_call f s = (case f (ps_env s) of (r, u) \<Rightarrow> (r, s\<lparr>ps_env := u\<rparr>))"

definition pf_opened :: "int \<Rightarrow> 'u plat_st \<Rightarrow> 'u plat_st" where
  "pf_opened fd s = (if fd < 0 then s else s\<lparr>ps_open := (ps_open s)(fd := ps_open s fd + 1)\<rparr>)"

text \<open>\<open>close(fd)\<close>; of \<open>-1\<close> it only fails.\<close>

definition pf_closing :: "'u plat_sys \<Rightarrow> int \<Rightarrow> 'u plat_st \<Rightarrow> 'u plat_st" where
  "pf_closing sy fd s =
     (let s = s\<lparr>ps_env := pf_close sy fd (ps_env s)\<rparr>
      in if fd < 0 then s else s\<lparr>ps_open := (ps_open s)(fd := ps_open s fd - 1)\<rparr>)"

text \<open>The loop that makes the two descriptors non-blocking; it stops at the first failure.\<close>

fun set_nonblock :: "'u plat_sys \<Rightarrow> int list \<Rightarrow> 'u plat_st \<Rightarrow> bool \<times> 'u plat_st" where
  "set_nonblock sy [] s = (True, s)"
| "set_nonblock sy (fd # fds) s =
     (case pf_call (pf_getfl sy fd) s of (fl, s) \<Rightarrow>
        if fl < 0 then (False, s)
        else (case pf_call (pf_setfl sy fd (fl OR pf_O_NONBLOCK sy)) s of (r, s) \<Rightarrow>
          if r < 0 then (False, s) else set_nonblock sy fds (s\<lparr>ps_nonblock := insert fd (ps_nonblock s)\<rparr>)))"

text \<open>Level 3; \<open>fail3\<close> closes \<open>rd\<close>, also when it is \<open>-1\<close>, and \<open>wr\<close> when it was opened.\<close>

definition wakeup_udp :: "'u plat_sys \<Rightarrow> 'u plat_st \<Rightarrow> int \<times> (int \<times> int) \<times> 'u plat_st" where
  "wakeup_udp sy s =
     (let fail3 = (\<lambda>rd wr s. (-1, (-1, -1), (if 0 \<le> wr then pf_closing sy wr else id) (pf_closing sy rd s)));
          (rd, s) = pf_call (pf_socket sy) s; s = pf_opened rd s
      in if rd < 0 then fail3 rd (-1) s
         else (case pf_call (pf_bind_loopback sy rd) s of (r, s) \<Rightarrow>
           if r < 0 then fail3 rd (-1) s
           else (case pf_call (pf_getsockname sy rd) s of
                   (None, s) \<Rightarrow> fail3 rd (-1) s
                 | (Some port, s) \<Rightarrow>
                     let (wr, s) = pf_call (pf_socket sy) s; s = pf_opened wr s
                     in if wr < 0 then fail3 rd wr s
                        else (case pf_call (pf_connect sy wr port) s of (r, s) \<Rightarrow>
                          if r < 0 then fail3 rd wr s
                          else (case set_nonblock sy [rd, wr] s of (ok, s) \<Rightarrow>
                            if ok then (0, (rd, wr), s) else fail3 rd wr s)))))"

definition wakeup_pipe :: "'u plat_sys \<Rightarrow> 'u plat_st \<Rightarrow> int \<times> (int \<times> int) \<times> 'u plat_st" where
  "wakeup_pipe sy s =
     (if pf_has_pipe sy then
        (case pf_call (pf_pipe sy) s of
           (None, s) \<Rightarrow> wakeup_udp sy s
         | (Some (a, b), s) \<Rightarrow>
             let fa = int a; fb = int b; s = pf_opened fb (pf_opened fa s)
             in (case set_nonblock sy [fa, fb] s of (ok, s) \<Rightarrow>
               if ok then (0, (fa, fb), s) else wakeup_udp sy (pf_closing sy fb (pf_closing sy fa s))))
      else wakeup_udp sy s)"

definition sevent_wakeup_pair :: "'u plat_sys \<Rightarrow> 'u plat_st \<Rightarrow> int \<times> (int \<times> int) \<times> 'u plat_st" where
  "sevent_wakeup_pair sy s =
     (if pf_has_eventfd sy then
        (case pf_call (pf_eventfd sy) s of (efd, s) \<Rightarrow>
           if 0 \<le> efd then (0, (efd, efd), (pf_opened efd s)\<lparr>ps_nonblock := insert efd (ps_nonblock s)\<rparr>)
           else wakeup_pipe sy s)
      else wakeup_pipe sy s)"

text \<open>\<open>while(read(fd, buf, sizeof(buf)) > 0) {}\<close>: \<^term>\<open>None\<close> when it does not end.\<close>

partial_function (option) sevent_wakeup_drain :: "'u plat_sys \<Rightarrow> int \<Rightarrow> 'u \<Rightarrow> 'u option" where
  "sevent_wakeup_drain sy fd u =
     (case pf_read sy fd 64 u of (r, u) \<Rightarrow> if 0 < r then sevent_wakeup_drain sy fd u else Some u)"

section \<open>Host names\<close>

datatype sockaddr = SockIn "32 word" "16 word" | SockIn6 bytes "16 word" | SockInfo bytes

text \<open>\<open>rs_getaddrinfo\<close>: the first address for a host and a port, as text, that it found.\<close>

record 'u resolver =
  rs_pton4 :: "string \<Rightarrow> 32 word option"
  rs_pton6 :: "string \<Rightarrow> bytes option"
  rs_getaddrinfo :: "string \<Rightarrow> string \<Rightarrow> 'u \<Rightarrow> bytes option \<times> 'u"

definition sevent_dns_resolve :: "'u resolver \<Rightarrow> string option \<Rightarrow> 16 word \<Rightarrow> 'u \<Rightarrow> int \<times> sockaddr option \<times> 'u" where
  "sevent_dns_resolve rs host port u =
     (case host of
        None \<Rightarrow> (-1, None, u)
      | Some h \<Rightarrow>
          (case rs_pton4 rs h of
             Some ip \<Rightarrow> (0, Some (SockIn ip port), u)
           | None \<Rightarrow>
               (case rs_pton6 rs h of
                  Some ip \<Rightarrow> (0, Some (SockIn6 ip port), u)
                | None \<Rightarrow>
                    let port_str = dec (unat port)
                    in if 8 \<le> length port_str then (-1, None, u)
                       else (case rs_getaddrinfo rs h port_str u of
                               (None, u) \<Rightarrow> (-1, None, u)
                             | (Some a, u) \<Rightarrow> (0, Some (SockInfo a), u)))))"

section \<open>What is open\<close>

lemma pf_call_keeps: "pf_call f s = (r, s') \<Longrightarrow> ps_open s' = ps_open s \<and> ps_nonblock s' = ps_nonblock s"
  by (auto simp: pf_call_def split: prod.splits)

lemma set_nonblock_keeps:
  "set_nonblock sy fds s = (ok, s') \<Longrightarrow> ps_open s' = ps_open s \<and> ps_nonblock s \<subseteq> ps_nonblock s' \<and> (ok \<longrightarrow> set fds \<subseteq> ps_nonblock s')"
proof (induction fds arbitrary: s)
  case (Cons fd fds)
  then show ?case by (fastforce dest!: pf_call_keeps split: prod.splits if_splits)
qed auto

lemma pf_open_sel [simp]:
  "ps_open (pf_opened fd s) = (if fd < 0 then ps_open s else (ps_open s)(fd := ps_open s fd + 1))"
  "ps_open (pf_closing sy fd s) = (if fd < 0 then ps_open s else (ps_open s)(fd := ps_open s fd - 1))"
  "ps_nonblock (pf_opened fd s) = ps_nonblock s" "ps_nonblock (pf_closing sy fd s) = ps_nonblock s"
  by (simp_all add: pf_opened_def pf_closing_def Let_def)

text \<open>One attempt: a pair that is open and non-blocking, or an error and nothing more open than before.\<close>

definition made_pair :: "(int \<Rightarrow> int) \<Rightarrow> int \<times> (int \<times> int) \<times> 'u plat_st \<Rightarrow> bool" where
  "made_pair opn x \<longleftrightarrow> (case x of (rc, (a, b), s) \<Rightarrow>
     if rc = 0 then 0 \<le> a \<and> 0 \<le> b \<and> {a, b} \<subseteq> ps_nonblock s
       \<and> (ps_open s = opn(a := opn a + 1) \<and> a = b
          \<or> ps_open s = (opn(a := opn a + 1))(b := (opn(a := opn a + 1)) b + 1))
     else rc = -1 \<and> a = -1 \<and> b = -1 \<and> ps_open s = opn)"

lemma wakeup_udp_pair: "made_pair (ps_open s) (wakeup_udp sy s)"
  by (auto simp: made_pair_def wakeup_udp_def Let_def fun_eq_iff dest!: pf_call_keeps set_nonblock_keeps
      split: prod.splits if_splits option.splits simp del: set_nonblock.simps)

lemma wakeup_pipe_pair: "made_pair (ps_open s) (wakeup_pipe sy s)"
proof (cases "pf_has_pipe sy")
  case True
  obtain r s1 where p: "pf_call (pf_pipe sy) s = (r, s1)" by (rule prod.exhaust)
  note k = pf_call_keeps [OF p]
  show ?thesis
  proof (cases r)
    case None
    then show ?thesis using wakeup_udp_pair [of s1 sy] k p True by (simp add: wakeup_pipe_def)
  next
    case (Some ab)
    obtain a b where ab: "ab = (a, b)" by (rule prod.exhaust)
    obtain ok s2 where n: "set_nonblock sy [int a, int b] (pf_opened (int b) (pf_opened (int a) s1)) = (ok, s2)" by (rule prod.exhaust)
    note q = set_nonblock_keeps [OF n]
    have "ps_open (pf_closing sy (int b) (pf_closing sy (int a) s2)) = ps_open s" using q k by (auto simp: fun_eq_iff)
    then have u: "made_pair (ps_open s) (wakeup_udp sy (pf_closing sy (int b) (pf_closing sy (int a) s2)))"
      using wakeup_udp_pair by metis
    have "wakeup_pipe sy s = (if ok then (0, (int a, int b), s2) else wakeup_udp sy (pf_closing sy (int b) (pf_closing sy (int a) s2)))"
      using p n True Some ab by (simp add: wakeup_pipe_def Let_def del: set_nonblock.simps)
    then show ?thesis using u q k by (cases ok) (auto simp: made_pair_def)
  qed
qed (simp add: wakeup_pipe_def wakeup_udp_pair)

section \<open>Properties\<close>


text \<open>
  Draining the wakeup descriptor ends and leaves nothing to read, when reading takes what is there
  (\<open>m\<close> counts it) and fails when nothing is.
\<close>

theorem wakeup_drain_empties:
  assumes "\<And>u. 0 < fst (pf_read sy fd 64 u) \<longleftrightarrow> 0 < m u" "\<And>u. 0 < m u \<Longrightarrow> m (snd (pf_read sy fd 64 u)) < m u"
    "\<And>u. m u = 0 \<Longrightarrow> m (snd (pf_read sy fd 64 u)) = (0::nat)"
  shows "\<exists>u'. sevent_wakeup_drain sy fd u = Some u' \<and> m u' = 0"
proof (induction "m u" arbitrary: u rule: less_induct)
  case less
  obtain r v where v: "pf_read sy fd 64 u = (r, v)" by (rule prod.exhaust)
  show ?case
  proof (cases "0 < m u")
    case True
    then show ?thesis using less [of v] assms(1,2) [of u] v by (subst sevent_wakeup_drain.simps) simp
  next
    case False
    then show ?thesis using assms(1,3) [of u] v by (subst sevent_wakeup_drain.simps) simp
  qed
qed

text \<open>The port of a name that is looked up always fits the buffer of 8 bytes, and the port text is the port.\<close>

lemma length_dec: "n < 10 ^ Suc k \<Longrightarrow> length (dec n) \<le> Suc k"
proof (induction k arbitrary: n)
  case 0
  then show ?case by (subst dec.simps) simp
next
  case (Suc k)
  then show ?case using Suc.IH [of "n div 10"] by (subst dec.simps) (auto simp: less_mult_imp_div_less)
qed

lemma dec_port_fits: "length (dec (unat (port :: 16 word))) < 8"
proof -
  have "unat port < 2 ^ LENGTH(16)" by (rule unsigned_less)
  then show ?thesis using length_dec [of "unat port" 4] by simp
qed


text \<open>
  A literal address is never looked up: it is returned with the port, and the state of the resolver
  does not change. Any other name is looked up once, with the decimal text of the port.
\<close>

theorem dns_literal_first:
  "sevent_dns_resolve rs (Some h) port u =
     (case (rs_pton4 rs h, rs_pton6 rs h) of
        (Some ip, _) \<Rightarrow> (0, Some (SockIn ip port), u)
      | (None, Some ip) \<Rightarrow> (0, Some (SockIn6 ip port), u)
      | (None, None) \<Rightarrow> (case rs_getaddrinfo rs h (dec (unat port)) u of (a, u') \<Rightarrow>
          (if a = None then -1 else 0, map_option SockInfo a, u')))"
  using dec_port_fits [of port] by (auto simp: sevent_dns_resolve_def split: option.splits prod.splits)

end
