(* ===== verification/Sevent_Cpp.thy ===== *)
theory Sevent_Cpp
  imports Sevent_Loop
begin

text \<open>
  The C++ header \<^verbatim>\<open>include/sevent.hpp\<close> over the loop model: the guards that own a registration, the
  \<open>EventLoop\<close> that owns a context, watchers, and lambda tasks. Objects have addresses; contexts have
  identities. \<open>None\<close> is a use of an object or a context that does not exist (any more). The two guard
  classes have the same text but for the function that unregisters, and are one definition with a
  kind.
\<close>

section \<open>Objects\<close>

datatype gkind = IoKind | TimerKind

record guard =
  gd_ctx :: "nat option"
  gd_h :: "addr option"

record io_watcher =
  iw_loop :: "nat option"
  iw_fd :: int

record timer_watcher =
  tw_loop :: "nat option"

text \<open>\<open>cp_loop\<close> holds the \<open>ctx_\<close> of every \<open>EventLoop\<close>, \<open>cp_fun\<close> the \<open>std::function\<close> objects that \<open>new\<close> made.\<close>

record 'u cpp_st =
  cp_ctx :: "nat \<rightharpoonup> 'u sevent_context"
  cp_loop :: "nat \<rightharpoonup> nat option"
  cp_guard :: "gkind \<times> nat \<rightharpoonup> guard"
  cp_iow :: "nat \<rightharpoonup> io_watcher"
  cp_tmw :: "nat \<rightharpoonup> timer_watcher"
  cp_fun :: "nat \<rightharpoonup> nat"

text \<open>The virtual functions of watchers, with the watcher and the loop they are given, and the body of a task.\<close>

datatype cpp_event = CppRead nat nat | CppWrite nat nat | CppTimer nat nat | CppTask nat

type_synonym 'u cpp_user = "cpp_event \<Rightarrow> 'u cpp_st \<Rightarrow> 'u cpp_st option"

definition trampoline_io_read_cb :: cb where "trampoline_io_read_cb = 31"
definition trampoline_io_write_cb :: cb where "trampoline_io_write_cb = 32"
definition trampoline_timer_cb :: cb where "trampoline_timer_cb = 33"
definition trampoline_post_cb :: cb where "trampoline_post_cb = 34"

text \<open>A C function on a pointer to a context: \<open>null\<close> is what it returns for NULL.\<close>

definition on_ctx :: "nat option \<Rightarrow> 'r \<Rightarrow> ('u sevent_context \<Rightarrow> 'r \<times> 'u sevent_context) \<Rightarrow> 'u cpp_st \<Rightarrow> ('r \<times> 'u cpp_st) option" where
  "on_ctx x null f s =
     (case x of
        None \<Rightarrow> Some (null, s)
      | Some i \<Rightarrow> do { c \<leftarrow> cp_ctx s i; let (r, c) = f c; Some (r, s\<lparr>cp_ctx := (cp_ctx s)(i \<mapsto> c)\<rparr>) })"

definition set_guard :: "gkind \<times> nat \<Rightarrow> guard option \<Rightarrow> 'u cpp_st \<Rightarrow> 'u cpp_st" where
  "set_guard x d s = s\<lparr>cp_guard := (cp_guard s)(x := d)\<rparr>"

section \<open>Guards\<close>

definition guard_ctor :: "gkind \<times> nat \<Rightarrow> 'u cpp_st \<Rightarrow> 'u cpp_st" where
  "guard_ctor x s = set_guard x (Some \<lparr>gd_ctx = None, gd_h = None\<rparr>) s"

definition guard_unregister :: "gkind \<Rightarrow> addr \<Rightarrow> 'u sevent_context \<Rightarrow> 'u sevent_context" where
  "guard_unregister k h c = (case k of IoKind \<Rightarrow> sevent_io_unregister h c | TimerKind \<Rightarrow> sevent_timer_unregister h c)"

definition guard_cleanup :: "gkind \<times> nat \<Rightarrow> 'u cpp_st \<Rightarrow> 'u cpp_st option" where
  "guard_cleanup x s = do {
     d \<leftarrow> cp_guard s x;
     case gd_h d of
       None \<Rightarrow> Some s
     | Some h \<Rightarrow> do {
         (_, s) \<leftarrow> on_ctx (gd_ctx d) () (\<lambda>c. ((), guard_unregister (fst x) h c)) s;
         Some (set_guard x (Some (d\<lparr>gd_h := None\<rparr>)) s)
       }
   }"

definition guard_dtor :: "gkind \<times> nat \<Rightarrow> 'u cpp_st \<Rightarrow> 'u cpp_st option" where
  "guard_dtor x s = do { s \<leftarrow> guard_cleanup x s; Some (set_guard x None s) }"

text \<open>The handle of \<open>b\<close> goes to \<open>a\<close>; \<open>b\<close> keeps its \<open>ctx_\<close>.\<close>

definition guard_steal :: "gkind \<Rightarrow> nat \<Rightarrow> nat \<Rightarrow> 'u cpp_st \<Rightarrow> 'u cpp_st option" where
  "guard_steal k a b s = do {
     d \<leftarrow> cp_guard s (k, b);
     Some (set_guard (k, b) (Some (d\<lparr>gd_h := None\<rparr>)) (set_guard (k, a) (Some d) s))
   }"

definition guard_move :: "gkind \<Rightarrow> nat \<Rightarrow> nat \<Rightarrow> 'u cpp_st \<Rightarrow> 'u cpp_st option" where
  "guard_move k a b s = guard_steal k a b s"

definition guard_assign :: "gkind \<Rightarrow> nat \<Rightarrow> nat \<Rightarrow> 'u cpp_st \<Rightarrow> 'u cpp_st option" where
  "guard_assign k a b s =
     (if a = b then Some s else do { s \<leftarrow> guard_cleanup (k, a) s; guard_steal k a b s })"

definition guard_reset :: "gkind \<times> nat \<Rightarrow> 'u cpp_st \<Rightarrow> 'u cpp_st option" where
  "guard_reset x s = guard_cleanup x s"

definition guard_bool :: "gkind \<times> nat \<Rightarrow> 'u cpp_st \<Rightarrow> bool option" where
  "guard_bool x s = map_option (\<lambda>d. gd_h d \<noteq> None) (cp_guard s x)"

section \<open>Loops\<close>

text \<open>What \<open>sevent_create\<close> returned is an argument: NULL, or a new context with its identity.\<close>

definition EventLoop_ctor :: "nat \<Rightarrow> (nat \<times> 'u sevent_context) option \<Rightarrow> 'u cpp_st \<Rightarrow> 'u cpp_st" where
  "EventLoop_ctor l new s =
     (case new of
        None \<Rightarrow> s\<lparr>cp_loop := (cp_loop s)(l \<mapsto> None)\<rparr>
      | Some (i, c) \<Rightarrow> s\<lparr>cp_loop := (cp_loop s)(l \<mapsto> Some i), cp_ctx := (cp_ctx s)(i \<mapsto> c)\<rparr>)"

definition ctx_destroy :: "nat option \<Rightarrow> 'u cpp_st \<Rightarrow> 'u cpp_st option" where
  "ctx_destroy x s =
     (case x of
        None \<Rightarrow> Some s
      | Some i \<Rightarrow> do { c \<leftarrow> cp_ctx s i; _ \<leftarrow> sevent_destroy c; Some (s\<lparr>cp_ctx := (cp_ctx s)(i := None)\<rparr>) })"

definition EventLoop_dtor :: "nat \<Rightarrow> 'u cpp_st \<Rightarrow> 'u cpp_st option" where
  "EventLoop_dtor l s = do { x \<leftarrow> cp_loop s l; s \<leftarrow> ctx_destroy x s; Some (s\<lparr>cp_loop := (cp_loop s)(l := None)\<rparr>) }"

definition EventLoop_move :: "nat \<Rightarrow> nat \<Rightarrow> 'u cpp_st \<Rightarrow> 'u cpp_st option" where
  "EventLoop_move a b s = do { x \<leftarrow> cp_loop s b; Some (s\<lparr>cp_loop := (cp_loop s)(a \<mapsto> x, b \<mapsto> None)\<rparr>) }"

definition EventLoop_assign :: "nat \<Rightarrow> nat \<Rightarrow> 'u cpp_st \<Rightarrow> 'u cpp_st option" where
  "EventLoop_assign a b s =
     (if a = b then Some s
      else do {
        y \<leftarrow> cp_loop s a;
        s \<leftarrow> ctx_destroy y s;
        x \<leftarrow> cp_loop s b;
        Some (s\<lparr>cp_loop := (cp_loop s)(a \<mapsto> x, b \<mapsto> None)\<rparr>)
      })"

definition EventLoop_stop :: "nat \<Rightarrow> 'u cpp_st \<Rightarrow> 'u cpp_st option" where
  "EventLoop_stop l s = do { x \<leftarrow> cp_loop s l; (_, s) \<leftarrow> on_ctx x () (\<lambda>c. ((), sevent_stop c)) s; Some s }"

definition EventLoop_wakeup :: "nat \<Rightarrow> 'u cpp_st \<Rightarrow> (int \<times> 'u cpp_st) option" where
  "EventLoop_wakeup l s = do { x \<leftarrow> cp_loop s l; on_ctx x SEVENT_ERR_INVAL (\<lambda>c. (SEVENT_SUCCESS, sevent_wakeup c)) s }"

definition EventLoop_bool :: "nat \<Rightarrow> 'u cpp_st \<Rightarrow> bool option" where
  "EventLoop_bool l s = map_option (\<lambda>x. x \<noteq> None) (cp_loop s l)"

text \<open>The result is the guard at \<open>g\<close>; the watcher learns the loop and the descriptor before the registration.\<close>

definition EventLoop_watch ::
  "'u allocator \<Rightarrow> nat \<Rightarrow> nat \<Rightarrow> int \<Rightarrow> nat option \<Rightarrow> bool \<Rightarrow> bool \<Rightarrow> 'u cpp_st \<Rightarrow> 'u cpp_st option" where
  "EventLoop_watch malloc l g fd w read write s = do {
     x \<leftarrow> cp_loop s l;
     case w of
       None \<Rightarrow> Some (guard_ctor (IoKind, g) s)
     | Some a \<Rightarrow>
         if \<not> read \<and> \<not> write then Some (guard_ctor (IoKind, g) s)
         else do {
           _ \<leftarrow> cp_iow s a;
           (raw, s) \<leftarrow> on_ctx x None (sevent_io_register malloc
              \<lparr>h_fd = fd, h_io_read = (if read then Some trampoline_io_read_cb else None),
               h_io_write = (if write then Some trampoline_io_write_cb else None), h_data = a\<rparr>)
              (s\<lparr>cp_iow := (cp_iow s)(a \<mapsto> \<lparr>iw_loop = Some l, iw_fd = fd\<rparr>)\<rparr>);
           Some (set_guard (IoKind, g) (Some \<lparr>gd_ctx = x, gd_h = raw\<rparr>) s)
         }
   }"

definition EventLoop_timer ::
  "'u allocator \<Rightarrow> nat \<Rightarrow> nat \<Rightarrow> 32 word \<Rightarrow> nat option \<Rightarrow> 'u cpp_st \<Rightarrow> 'u cpp_st option" where
  "EventLoop_timer malloc l g ms w s = do {
     x \<leftarrow> cp_loop s l;
     case w of
       None \<Rightarrow> Some (guard_ctor (TimerKind, g) s)
     | Some a \<Rightarrow> do {
         _ \<leftarrow> cp_tmw s a;
         (raw, s) \<leftarrow> on_ctx x None (sevent_timer_register malloc ms (Some trampoline_timer_cb) a)
            (s\<lparr>cp_tmw := (cp_tmw s)(a \<mapsto> \<lparr>tw_loop = Some l\<rparr>)\<rparr>);
         Some (set_guard (TimerKind, g) (Some \<lparr>gd_ctx = x, gd_h = raw\<rparr>) s)
       }
   }"

definition EventLoop_getCounts :: "nat \<Rightarrow> 'u cpp_st \<Rightarrow> (int \<times> int \<times> int) option option" where
  "EventLoop_getCounts l s = do {
     x \<leftarrow> cp_loop s l;
     case x of None \<Rightarrow> Some None | Some i \<Rightarrow> do { c \<leftarrow> cp_ctx s i; Some (Some (sevent_get_counts c)) }
   }"

definition EventLoop_handle :: "nat \<Rightarrow> 'u cpp_st \<Rightarrow> nat option option" where
  "EventLoop_handle l s = cp_loop s l"

section \<open>Trampolines and tasks\<close>

definition trampoline_io_read :: "'u cpp_user \<Rightarrow> nat \<Rightarrow> 'u cpp_st \<Rightarrow> 'u cpp_st option" where
  "trampoline_io_read user w s = do { x \<leftarrow> cp_iow s w; l \<leftarrow> iw_loop x; _ \<leftarrow> cp_loop s l; user (CppRead w l) s }"

definition trampoline_io_write :: "'u cpp_user \<Rightarrow> nat \<Rightarrow> 'u cpp_st \<Rightarrow> 'u cpp_st option" where
  "trampoline_io_write user w s = do { x \<leftarrow> cp_iow s w; l \<leftarrow> iw_loop x; _ \<leftarrow> cp_loop s l; user (CppWrite w l) s }"

definition trampoline_timer :: "'u cpp_user \<Rightarrow> nat \<Rightarrow> 'u cpp_st \<Rightarrow> 'u cpp_st option" where
  "trampoline_timer user w s = do { x \<leftarrow> cp_tmw s w; l \<leftarrow> tw_loop x; _ \<leftarrow> cp_loop s l; user (CppTimer w l) s }"

definition delete_fun :: "nat \<Rightarrow> 'u cpp_st \<Rightarrow> 'u cpp_st option" where
  "delete_fun p s = do { _ \<leftarrow> cp_fun s p; Some (s\<lparr>cp_fun := (cp_fun s)(p := None)\<rparr>) }"

definition trampoline_post_fn :: "'u cpp_user \<Rightarrow> nat \<Rightarrow> 'u cpp_st \<Rightarrow> 'u cpp_st option" where
  "trampoline_post_fn user p s = do { f \<leftarrow> cp_fun s p; s \<leftarrow> user (CppTask f) s; delete_fun p s }"

text \<open>What \<open>new\<close> returned for the copy of the task is an argument.\<close>

definition EventLoop_post :: "'u allocator \<Rightarrow> nat option \<Rightarrow> nat \<Rightarrow> nat \<Rightarrow> 'u cpp_st \<Rightarrow> (bool \<times> 'u cpp_st) option" where
  "EventLoop_post malloc new l task s = do {
     x \<leftarrow> cp_loop s l;
     if x = None then Some (False, s)
     else case new of
       None \<Rightarrow> Some (False, s)
     | Some p \<Rightarrow> do {
         (ret, s) \<leftarrow> on_ctx x SEVENT_ERR_INVAL (sevent_post malloc (Some trampoline_post_cb) p) (s\<lparr>cp_fun := (cp_fun s)(p \<mapsto> task)\<rparr>);
         if ret \<noteq> 0 then do { s \<leftarrow> delete_fun p s; Some (False, s) } else Some (True, s)
       }
   }"

definition EventLoop_dispatch ::
  "'u allocator \<Rightarrow> 'u cpp_user \<Rightarrow> thread_id \<Rightarrow> nat option \<Rightarrow> nat \<Rightarrow> nat \<Rightarrow> 'u cpp_st \<Rightarrow> (bool \<times> 'u cpp_st) option" where
  "EventLoop_dispatch malloc user self new l task s = do {
     x \<leftarrow> cp_loop s l;
     case x of
       None \<Rightarrow> Some (False, s)
     | Some i \<Rightarrow> case new of
         None \<Rightarrow> Some (False, s)
       | Some p \<Rightarrow> do {
           c \<leftarrow> cp_ctx s i;
           if cx_loop_thread c = self
           then do { s \<leftarrow> trampoline_post_fn user p (s\<lparr>cp_fun := (cp_fun s)(p \<mapsto> task)\<rparr>); Some (True, s) }
           else EventLoop_post malloc new l task s
         }
   }"

section \<open>Ownership\<close>

text \<open>Which registration a guard owns, and which registrations there are.\<close>

definition guard_holds :: "gkind \<Rightarrow> guard \<Rightarrow> (gkind \<times> nat \<times> addr) option" where
  "guard_holds k d = (case (gd_ctx d, gd_h d) of (Some i, Some h) \<Rightarrow> Some (k, i, h) | _ \<Rightarrow> None)"

definition owns :: "'u cpp_st \<Rightarrow> gkind \<times> nat \<rightharpoonup> gkind \<times> nat \<times> addr" where
  "owns s x = do { d \<leftarrow> cp_guard s x; guard_holds (fst x) d }"

definition registered :: "gkind \<Rightarrow> 'u sevent_context \<Rightarrow> addr set" where
  "registered k c = (case k of IoKind \<Rightarrow> set (cx_io_list c) | TimerKind \<Rightarrow> set (cx_timer_list c))"

definition regs :: "'u cpp_st \<Rightarrow> (gkind \<times> nat \<times> addr) set" where
  "regs s = {(k, i, h). \<exists>c. cp_ctx s i = Some c \<and> h \<in> registered k c}"

text \<open>\<open>owned m R\<close>: the owners in \<open>m\<close> and the things in \<open>R\<close> correspond one to one.\<close>

definition owned :: "('a \<rightharpoonup> 'b) \<Rightarrow> 'b set \<Rightarrow> bool" where
  "owned m R \<longleftrightarrow> (\<forall>x y z. m x = Some z \<longrightarrow> m y = Some z \<longrightarrow> x = y) \<and> (\<forall>z. z \<in> R \<longleftrightarrow> (\<exists>x. m x = Some z))"

lemma ownedD: "owned m R \<Longrightarrow> m x = Some z \<Longrightarrow> z \<in> R"
  unfolding owned_def by blast

lemma owned_drop: "owned m R \<Longrightarrow> owned (m(x := None)) (R - set_option (m x))"
proof -
  assume "owned m R"
  then have i: "m u = Some z \<Longrightarrow> m v = Some z \<Longrightarrow> u = v" and r: "z \<in> R \<longleftrightarrow> (\<exists>u. m u = Some z)" for u v z
    unfolding owned_def by blast+
  have "z \<in> R - set_option (m x) \<longleftrightarrow> (\<exists>u. (m(x := None)) u = Some z)" for z
    using i [of x z] by (auto simp: r)
  moreover have "u = v" if "(m(x := None)) u = Some z" "(m(x := None)) v = Some z" for u v z
    using that i [of u z v] by (simp split: if_splits)
  ultimately show ?thesis unfolding owned_def by blast
qed

lemma owned_new: "owned m R \<Longrightarrow> m x = None \<Longrightarrow> y \<notin> R \<Longrightarrow> owned (m(x \<mapsto> y)) (insert y R)"
proof -
  assume "owned m R" and x: "m x = None" and y: "y \<notin> R"
  then have i: "m u = Some z \<Longrightarrow> m v = Some z \<Longrightarrow> u = v" and r: "z \<in> R \<longleftrightarrow> (\<exists>u. m u = Some z)" for u v z
    unfolding owned_def by blast+
  have "z \<in> insert y R \<longleftrightarrow> (\<exists>u. (m(x \<mapsto> y)) u = Some z)" for z
    using x by (auto simp: r) (metis option.distinct(1))
  moreover have "u = v" if "(m(x \<mapsto> y)) u = Some z" "(m(x \<mapsto> y)) v = Some z" for u v z
    using that i [of u z v] y r [of y] by (auto split: if_splits)
  ultimately show ?thesis unfolding owned_def by blast
qed

lemma owned_steal:
  assumes "owned m R" "m a = None"
  shows "owned (m(a := m b, b := None)) R"
proof (cases "m b")
  case None
  then have "m(a := m b, b := None) = m" using assms(2) by (auto simp: fun_eq_iff)
  then show ?thesis using assms(1) by simp
next
  case (Some y)
  then have ab: "a \<noteq> b" using assms(2) by auto
  have "owned ((m(b := None))(a \<mapsto> y)) (insert y (R - {y}))"
    by (rule owned_new) (use owned_drop [OF assms(1), of b] Some assms(2) ab in simp_all)
  then show ?thesis using Some ab ownedD [OF assms(1) Some] by (simp add: fun_upd_twist insert_absorb)
qed

text \<open>
  The invariant: guards and registrations correspond one to one, a guard with a handle knows its
  context, contexts are well formed and each belongs to one loop.
\<close>

definition cpp_inv :: "'u cpp_st \<Rightarrow> bool" where
  "cpp_inv s \<longleftrightarrow> owned (owns s) (regs s) \<and> (\<forall>x d. cp_guard s x = Some d \<longrightarrow> gd_h d \<noteq> None \<longrightarrow> gd_ctx d \<noteq> None)
     \<and> (\<forall>i c. cp_ctx s i = Some c \<longrightarrow> (\<exists>xs. wf_ctx xs c))
     \<and> (\<forall>i. cp_ctx s i \<noteq> None \<longleftrightarrow> (\<exists>l. cp_loop s l = Some (Some i)))
     \<and> (\<forall>l m i. cp_loop s l = Some (Some i) \<longrightarrow> cp_loop s m = Some (Some i) \<longrightarrow> l = m)"

lemma cpp_invD:
  assumes "cpp_inv s"
  shows "owned (owns s) (regs s)" "cp_guard s x = Some d \<Longrightarrow> gd_h d \<noteq> None \<Longrightarrow> gd_ctx d \<noteq> None"
    "cp_ctx s i = Some c \<Longrightarrow> \<exists>xs. wf_ctx xs c" "cp_ctx s i \<noteq> None \<longleftrightarrow> (\<exists>l. cp_loop s l = Some (Some i))"
    "cp_loop s l = Some (Some i) \<Longrightarrow> cp_loop s m = Some (Some i) \<Longrightarrow> l = m"
  using assms unfolding cpp_inv_def by blast+

lemma cpp_invI:
  assumes "owned (owns s) (regs s)" "\<And>x d. cp_guard s x = Some d \<Longrightarrow> gd_h d \<noteq> None \<Longrightarrow> gd_ctx d \<noteq> None"
    "\<And>i c. cp_ctx s i = Some c \<Longrightarrow> \<exists>xs. wf_ctx xs c" "\<And>i. cp_ctx s i \<noteq> None \<longleftrightarrow> (\<exists>l. cp_loop s l = Some (Some i))"
    "\<And>l m i. cp_loop s l = Some (Some i) \<Longrightarrow> cp_loop s m = Some (Some i) \<Longrightarrow> l = m"
  shows "cpp_inv s"
  using assms unfolding cpp_inv_def by blast

lemma set_guard_sel [simp]:
  "cp_ctx (set_guard x d s) = cp_ctx s" "cp_loop (set_guard x d s) = cp_loop s" "cp_guard (set_guard x d s) = (cp_guard s)(x := d)"
  "cp_fun (set_guard x d s) = cp_fun s" "cp_iow (set_guard x d s) = cp_iow s" "cp_tmw (set_guard x d s) = cp_tmw s"
  by (simp_all add: set_guard_def)

lemma regs_cong: "cp_ctx s' = cp_ctx s \<Longrightarrow> regs s' = regs s"
  by (simp add: regs_def)

lemma regs_guard [simp]: "regs (set_guard x d s) = regs s"
  by (simp add: regs_def)

lemma owns_guard: "owns (set_guard x d s) = (owns s)(x := d \<bind> guard_holds (fst x))"
  by (auto simp: owns_def fun_eq_iff)

lemma guard_holds_simps [simp]: "gd_h d = None \<Longrightarrow> guard_holds k d = None" "gd_ctx d = Some i \<Longrightarrow> gd_h d = Some h \<Longrightarrow> guard_holds k d = Some (k, i, h)"
  by (simp_all add: guard_holds_def split: option.splits)

lemma registered_unregister:
  "wf_ctx xs c \<Longrightarrow> registered k' (guard_unregister k h c) = (if k' = k then registered k' c - {h} else registered k' c)"
  by (auto simp: registered_def guard_unregister_def sevent_io_unregister_def sevent_timer_unregister_def wf_ctx_def all_nodes_def
      Let_def set_remove1_eq split: gkind.splits option.splits)

lemma wf_unregister: "wf_ctx xs c \<Longrightarrow> wf_ctx xs (guard_unregister k h c)"
  by (simp add: guard_unregister_def wf_io_unregister wf_timer_unregister split: gkind.splits)

text \<open>The effect of cleaning up: the guard owns nothing any more and its registration, and no other, is gone.\<close>

lemma cleanup_effect:
  assumes "cpp_inv s" "cp_guard s x \<noteq> None"
  shows "\<exists>s'. guard_cleanup x s = Some s' \<and> cpp_inv s' \<and> owns s' = (owns s)(x := None) \<and> regs s' = regs s - set_option (owns s x)
    \<and> cp_loop s' = cp_loop s \<and> dom (cp_guard s') = dom (cp_guard s) \<and> dom (cp_ctx s') = dom (cp_ctx s)"
proof -
  obtain d where d: "cp_guard s x = Some d" using assms(2) by blast
  show ?thesis
  proof (cases "gd_h d")
    case None
    then have "owns s x = None" using d by (simp add: owns_def)
    then have "owns s = (owns s)(x := None)" by (simp add: fun_upd_idem)
    then show ?thesis using assms(1) d None \<open>owns s x = None\<close> by (simp add: guard_cleanup_def)
  next
    case (Some h)
    then obtain i where i: "gd_ctx d = Some i" using cpp_invD(2) [OF assms(1) d] by auto
    have o: "owns s x = Some (fst x, i, h)" using d Some i by (simp add: owns_def)
    then have "(fst x, i, h) \<in> regs s" by (rule ownedD [OF cpp_invD(1) [OF assms(1)]])
    then obtain c where c: "cp_ctx s i = Some c" by (auto simp: regs_def)
    then obtain xs where wf: "wf_ctx xs c" using cpp_invD(3) [OF assms(1)] by blast
    let ?s = "set_guard x (Some (d\<lparr>gd_h := None\<rparr>)) (s\<lparr>cp_ctx := (cp_ctx s)(i \<mapsto> guard_unregister (fst x) h c)\<rparr>)"
    have run: "guard_cleanup x s = Some ?s" using d Some i c by (simp add: guard_cleanup_def on_ctx_def)
    have ow: "owns ?s = (owns s)(x := None)" by (auto simp: owns_guard) (simp add: owns_def fun_eq_iff)
    have re: "regs ?s = regs s - {(fst x, i, h)}"
      using c registered_unregister [OF wf] by (auto simp: regs_def split: if_splits)
    have "owned (owns ?s) (regs ?s)" using owned_drop [OF cpp_invD(1) [OF assms(1)], of x] o unfolding ow re by simp
    moreover have "\<exists>xs. wf_ctx xs (guard_unregister (fst x) h c)" using wf_unregister [OF wf] by blast
    ultimately have "cpp_inv ?s" using assms(1) d i unfolding cpp_inv_def by (auto simp: c)
    then show ?thesis using run ow re o d c by auto
  qed
qed

text \<open>The other changes that keep it.\<close>

lemma cpp_inv_ctx:
  assumes "cpp_inv s" "cp_ctx s i = Some c" "wf_ctx xs c'" "\<And>k. registered k c' = registered k c"
  shows "cpp_inv (s\<lparr>cp_ctx := (cp_ctx s)(i \<mapsto> c')\<rparr>)"
proof -
  have "owns (s\<lparr>cp_ctx := (cp_ctx s)(i \<mapsto> c')\<rparr>) = owns s" by (simp add: owns_def fun_eq_iff)
  moreover have "regs (s\<lparr>cp_ctx := (cp_ctx s)(i \<mapsto> c')\<rparr>) = regs s" using assms(2,4) by (auto simp: regs_def split: if_splits)
  ultimately show ?thesis using assms(1-3) unfolding cpp_inv_def by auto
qed

lemma cpp_inv_frame [simp]:
  "cpp_inv (s\<lparr>cp_fun := f\<rparr>) = cpp_inv s" "cpp_inv (s\<lparr>cp_iow := a\<rparr>) = cpp_inv s" "cpp_inv (s\<lparr>cp_tmw := b\<rparr>) = cpp_inv s"
  by (simp_all add: cpp_inv_def owns_def regs_def owned_def)

lemma on_ctx_keeps:
  assumes "cpp_inv s" "cp_loop s l = Some x" "\<And>c xs. wf_ctx xs c \<Longrightarrow> wf_ctx xs (snd (f c))"
    "\<And>c k. registered k (snd (f c)) = registered k c"
  shows "\<exists>r s'. on_ctx x null f s = Some (r, s') \<and> cpp_inv s' \<and> cp_fun s' = cp_fun s"
proof (cases x)
  case None
  then show ?thesis using assms(1) by (simp add: on_ctx_def)
next
  case (Some i)
  then obtain c where c: "cp_ctx s i = Some c" using cpp_invD(4) [OF assms(1), of i] assms(2) by auto
  then obtain xs where "wf_ctx xs c" using cpp_invD(3) [OF assms(1)] by blast
  then have "cpp_inv (s\<lparr>cp_ctx := (cp_ctx s)(i \<mapsto> snd (f c))\<rparr>)" using cpp_inv_ctx [OF assms(1) c] assms(3,4) by blast
  then show ?thesis using Some c by (cases "f c") (simp add: on_ctx_def)
qed

lemma cpp_inv_empty_guard:
  assumes "cpp_inv s" "owns s x = None" "gd_h d = None"
  shows "cpp_inv (set_guard x (Some d) s)"
proof -
  have "owns (set_guard x (Some d) s) = owns s" using assms(2,3) by (simp add: owns_guard fun_upd_idem)
  then show ?thesis using assms(1,3) unfolding cpp_inv_def by auto
qed

lemma cpp_inv_no_guard:
  assumes "cpp_inv s" "owns s x = None"
  shows "cpp_inv (set_guard x None s)"
proof -
  have "owns (set_guard x None s) = owns s" using assms(2) by (simp add: owns_guard fun_upd_idem)
  then show ?thesis using assms(1) unfolding cpp_inv_def by auto
qed

lemma steal_effect:
  assumes "cpp_inv s" "owns s (k, a) = None" "cp_guard s (k, b) \<noteq> None" "a \<noteq> b"
  shows "\<exists>s'. guard_steal k a b s = Some s' \<and> cpp_inv s' \<and> regs s' = regs s
    \<and> owns s' = (owns s)((k, a) := owns s (k, b), (k, b) := None)"
proof -
  obtain d where d: "cp_guard s (k, b) = Some d" using assms(3) by blast
  let ?s = "set_guard (k, b) (Some (d\<lparr>gd_h := None\<rparr>)) (set_guard (k, a) (Some d) s)"
  have ow: "owns ?s = (owns s)((k, a) := owns s (k, b), (k, b) := None)"
    using d by (simp add: owns_guard) (simp add: owns_def)
  have "owned (owns ?s) (regs ?s)" unfolding ow using owned_steal [OF cpp_invD(1) [OF assms(1)] assms(2), of "(k, b)"] by simp
  then have "cpp_inv ?s" using assms(1) d unfolding cpp_inv_def by auto
  then show ?thesis using ow d by (simp add: guard_steal_def)
qed

lemma registered_io_register:
  assumes "wf_ctx xs c" "malloc_fresh malloc" "sevent_io_register malloc h c = (r, c')"
  shows "wf_ctx xs c' \<and> (\<forall>k. registered k c' = registered k c \<union> (if k = IoKind then set_option r else {}))
    \<and> (\<forall>p. r = Some p \<longrightarrow> p \<notin> registered IoKind c)"
  using wf_io_register [OF assms(1,2), of h] wf_malloc [OF assms(1,2)] assms(3)
  by (auto simp: sevent_io_register_def registered_def all_nodes_def split: if_splits option.splits gkind.splits)

lemma registered_timer_register:
  assumes "wf_ctx xs c" "malloc_fresh malloc" "sevent_timer_register malloc ms f a c = (r, c')"
  shows "wf_ctx xs c' \<and> (\<forall>k. registered k c' = registered k c \<union> (if k = TimerKind then set_option r else {}))
    \<and> (\<forall>p. r = Some p \<longrightarrow> p \<notin> registered TimerKind c)"
  using wf_timer_register [OF assms(1,2), of ms f a] wf_malloc [OF assms(1,2)] assms(3)
  by (auto simp: sevent_timer_register_def registered_def all_nodes_def split: if_splits option.splits gkind.splits)

text \<open>A registration through a loop, and the guard that is made for it.\<close>

lemma register_effect:
  assumes "cpp_inv s" "cp_loop s l = Some x" "cp_guard s (k, g) = None"
    and reg: "\<And>xs c r c'. wf_ctx xs c \<Longrightarrow> f c = (r, c') \<Longrightarrow> wf_ctx xs c'
      \<and> (\<forall>k'. registered k' c' = registered k' c \<union> (if k' = k then set_option r else {})) \<and> (\<forall>p. r = Some p \<longrightarrow> p \<notin> registered k c)"
  shows "\<exists>r s'. on_ctx x None f s = Some (r, s') \<and> cpp_inv (set_guard (k, g) (Some \<lparr>gd_ctx = x, gd_h = r\<rparr>) s')"
proof (cases x)
  case None
  then show ?thesis using cpp_inv_empty_guard [OF assms(1)] assms(3) by (simp add: on_ctx_def owns_def)
next
  case (Some i)
  then obtain c where c: "cp_ctx s i = Some c" using cpp_invD(4) [OF assms(1), of i] assms(2) by auto
  then obtain xs where wf: "wf_ctx xs c" using cpp_invD(3) [OF assms(1)] by blast
  obtain r c' where rc: "f c = (r, c')" by (rule prod.exhaust)
  note e = reg [OF wf rc]
  let ?s = "s\<lparr>cp_ctx := (cp_ctx s)(i \<mapsto> c')\<rparr>"
  let ?t = "set_guard (k, g) (Some \<lparr>gd_ctx = x, gd_h = r\<rparr>) ?s"
  have own: "owns ?s = owns s" "owns s (k, g) = None" using assms(3) by (simp_all add: owns_def fun_eq_iff)
  have "cpp_inv ?t"
  proof (cases r)
    case None
    then have "registered k' c' = registered k' c" for k' using e by (simp split: if_splits)
    then have "cpp_inv ?s" using cpp_inv_ctx [OF assms(1) c] e by blast
    then show ?thesis using None own by (intro cpp_inv_empty_guard) simp_all
  next
    case r: (Some p)
    have new: "(k, i, p) \<notin> regs s" using e r c by (auto simp: regs_def)
    have "registered k' c' = (if k' = k then insert p (registered k' c) else registered k' c)" for k' using e r by simp
    then have re: "regs ?t = insert (k, i, p) (regs s)" using c by (auto simp: regs_def split: if_splits)
    have ow: "owns ?t = (owns s)((k, g) \<mapsto> (k, i, p))" using r Some own(1) by (simp add: owns_guard)
    have "owned (owns ?t) (regs ?t)" unfolding ow re using owned_new [OF cpp_invD(1) [OF assms(1)] own(2) new] .
    then show ?thesis using assms(1) e c Some unfolding cpp_inv_def by auto
  qed
  then show ?thesis using Some c rc by (simp add: on_ctx_def)
qed

lemma ctx_destroy_effect:
  assumes "cpp_inv s" "cp_loop s l = Some x"
    "\<And>i. x = Some i \<Longrightarrow> (\<forall>c. cp_ctx s i = Some c \<longrightarrow> wf_ctx [] c) \<and> (\<forall>y k h. owns s y \<noteq> Some (k, i, h))"
  shows "\<exists>s'. ctx_destroy x s = Some s' \<and> cpp_inv (s'\<lparr>cp_loop := (cp_loop s)(l := None)\<rparr>) \<and> cp_loop s' = cp_loop s"
proof (cases x)
  case None
  let ?s = "s\<lparr>cp_loop := (cp_loop s)(l := None)\<rparr>"
  have "cp_loop ?s m = Some (Some i) \<longleftrightarrow> cp_loop s m = Some (Some i)" for m i using assms(2) None by auto
  moreover have "owns ?s = owns s" "regs ?s = regs s" by (simp_all add: owns_def regs_def fun_eq_iff)
  ultimately have "cpp_inv ?s" using assms(1) unfolding cpp_inv_def by simp
  then show ?thesis using None by (simp add: ctx_destroy_def)
next
  case (Some i)
  then obtain c where c: "cp_ctx s i = Some c" using cpp_invD(4) [OF assms(1), of i] assms(2) by auto
  obtain c' where c': "sevent_destroy c = Some c'" using destroy_frees_all assms(3) [OF Some] c by blast
  let ?s = "s\<lparr>cp_ctx := (cp_ctx s)(i := None)\<rparr>"
  let ?t = "?s\<lparr>cp_loop := (cp_loop s)(l := None)\<rparr>"
  have none: "(k, i, h) \<notin> regs s" for k h using assms(3) [OF Some] cpp_invD(1) [OF assms(1)] unfolding owned_def by blast
  have "regs ?t = regs s" using none c by (auto simp: regs_def split: if_splits)
  moreover have "owns ?t = owns s" by (simp add: owns_def fun_eq_iff)
  moreover have lo: "cp_loop ?t m = Some (Some j) \<longleftrightarrow> cp_loop s m = Some (Some j) \<and> j \<noteq> i" for m j
    using cpp_invD(5) [OF assms(1), of m i l] assms(2) Some by (cases "m = l") auto
  moreover have "cp_ctx ?t j \<noteq> None \<longleftrightarrow> (\<exists>m. cp_loop ?t m = Some (Some j))" for j
    using cpp_invD(4) [OF assms(1), of j] unfolding lo by simp
  ultimately have "cpp_inv ?t" using assms(1) unfolding cpp_inv_def by (simp add: lo)
  then show ?thesis using Some c c' by (simp add: ctx_destroy_def)
qed

lemma move_loop_effect:
  assumes "cpp_inv s" "cp_loop s b = Some x" "cp_loop s a = None"
  shows "cpp_inv (s\<lparr>cp_loop := (cp_loop s)(a \<mapsto> x, b \<mapsto> None)\<rparr>)"
proof -
  let ?s = "s\<lparr>cp_loop := (cp_loop s)(a \<mapsto> x, b \<mapsto> None)\<rparr>"
  have ab: "a \<noteq> b" using assms by auto
  have "(\<exists>l. cp_loop ?s l = Some (Some i)) \<longleftrightarrow> (\<exists>l. cp_loop s l = Some (Some i))" for i
  proof
    assume "\<exists>l. cp_loop s l = Some (Some i)"
    then obtain l where "cp_loop s l = Some (Some i)" ..
    then have "cp_loop ?s (if l = b then a else l) = Some (Some i)" using assms(2,3) ab by auto
    then show "\<exists>l. cp_loop ?s l = Some (Some i)" ..
  qed (use assms(2) in \<open>auto split: if_splits\<close>)
  then have "cp_ctx s i \<noteq> None \<longleftrightarrow> (\<exists>l. cp_loop ?s l = Some (Some i))" for i
    using cpp_invD(4) [OF assms(1), of i] by simp
  moreover have "l = m" if "cp_loop ?s l = Some (Some i)" "cp_loop ?s m = Some (Some i)" for l m i
  proof -
    have "cp_loop s (if l = a then b else l) = Some (Some i)" "cp_loop s (if m = a then b else m) = Some (Some i)" "l \<noteq> b" "m \<noteq> b"
      using that assms(2) ab by (auto split: if_splits)
    then show ?thesis using cpp_invD(5) [OF assms(1), of "if l = a then b else l" i "if m = a then b else m"] by (auto split: if_splits)
  qed
  moreover have "owns ?s = owns s" "regs ?s = regs s" by (simp_all add: owns_def regs_def fun_eq_iff)
  moreover have "cp_ctx ?s = cp_ctx s" "cp_guard ?s = cp_guard s" by simp_all
  ultimately show ?thesis using cpp_invD(1-3) [OF assms(1)] by (intro cpp_invI) (simp_all only:)
qed

section \<open>Programs\<close>

text \<open>
  What a program, its callbacks included, can do with the wrapper. \<open>CppTurn\<close> is what the loop does on
  its own to a context: it frees what is marked, takes tasks and counts time, and leaves the
  registrations alone.
\<close>

datatype 'u cpp_op =
    MakeLoop nat "(nat \<times> 'u sevent_context) option" | DropLoop nat | MoveLoop nat nat | AssignLoop nat nat
  | MakeGuard "gkind \<times> nat" | DropGuard "gkind \<times> nat" | MoveGuard gkind nat nat | AssignGuard gkind nat nat | ResetGuard "gkind \<times> nat"
  | CppWatch nat nat int "nat option" bool bool | CppSetTimer nat nat "32 word" "nat option"
  | CppPost "nat option" nat nat | CppStop nat | CppWake nat
  | MakeIoWatcher nat | MakeTimerWatcher nat | CppTurn nat "'u sevent_context"

fun cpp_run :: "'u allocator \<Rightarrow> 'u cpp_op \<Rightarrow> 'u cpp_st \<Rightarrow> 'u cpp_st option" where
  "cpp_run malloc (MakeLoop l new) s = Some (EventLoop_ctor l new s)"
| "cpp_run malloc (DropLoop l) s = EventLoop_dtor l s"
| "cpp_run malloc (MoveLoop a b) s = EventLoop_move a b s"
| "cpp_run malloc (AssignLoop a b) s = EventLoop_assign a b s"
| "cpp_run malloc (MakeGuard x) s = Some (guard_ctor x s)"
| "cpp_run malloc (DropGuard x) s = guard_dtor x s"
| "cpp_run malloc (MoveGuard k a b) s = guard_move k a b s"
| "cpp_run malloc (AssignGuard k a b) s = guard_assign k a b s"
| "cpp_run malloc (ResetGuard x) s = guard_reset x s"
| "cpp_run malloc (CppWatch l g fd w rd wr) s = EventLoop_watch malloc l g fd w rd wr s"
| "cpp_run malloc (CppSetTimer l g ms w) s = EventLoop_timer malloc l g ms w s"
| "cpp_run malloc (CppPost new l task) s = map_option snd (EventLoop_post malloc new l task s)"
| "cpp_run malloc (CppStop l) s = EventLoop_stop l s"
| "cpp_run malloc (CppWake l) s = map_option snd (EventLoop_wakeup l s)"
| "cpp_run malloc (MakeIoWatcher w) s = Some (s\<lparr>cp_iow := (cp_iow s)(w \<mapsto> \<lparr>iw_loop = None, iw_fd = -1\<rparr>)\<rparr>)"
| "cpp_run malloc (MakeTimerWatcher w) s = Some (s\<lparr>cp_tmw := (cp_tmw s)(w \<mapsto> \<lparr>tw_loop = None\<rparr>)\<rparr>)"
| "cpp_run malloc (CppTurn i c) s = Some (s\<lparr>cp_ctx := (cp_ctx s)(i \<mapsto> c)\<rparr>)"

text \<open>A context may be destroyed when no round of it is running and no guard owns a registration in it.\<close>

definition may_destroy :: "nat option \<Rightarrow> 'u cpp_st \<Rightarrow> bool" where
  "may_destroy x s \<longleftrightarrow> (\<forall>i. x = Some i \<longrightarrow> (\<forall>c. cp_ctx s i = Some c \<longrightarrow> wf_ctx [] c) \<and> (\<forall>y k h. owns s y \<noteq> Some (k, i, h)))"

text \<open>Objects are used while they live and made where none lives.\<close>

fun cpp_valid :: "'u cpp_op \<Rightarrow> 'u cpp_st \<Rightarrow> bool" where
  "cpp_valid (MakeLoop l new) s \<longleftrightarrow> cp_loop s l = None
     \<and> (\<forall>i c. new = Some (i, c) \<longrightarrow> cp_ctx s i = None \<and> (\<exists>a m w u. sevent_create a m w u = Some c))"
| "cpp_valid (DropLoop l) s \<longleftrightarrow> (\<exists>x. cp_loop s l = Some x \<and> may_destroy x s)"
| "cpp_valid (MoveLoop a b) s \<longleftrightarrow> cp_loop s a = None \<and> cp_loop s b \<noteq> None"
| "cpp_valid (AssignLoop a b) s \<longleftrightarrow> cp_loop s b \<noteq> None \<and> (\<exists>x. cp_loop s a = Some x \<and> (a \<noteq> b \<longrightarrow> may_destroy x s))"
| "cpp_valid (MakeGuard x) s \<longleftrightarrow> cp_guard s x = None"
| "cpp_valid (DropGuard x) s \<longleftrightarrow> cp_guard s x \<noteq> None"
| "cpp_valid (MoveGuard k a b) s \<longleftrightarrow> cp_guard s (k, a) = None \<and> cp_guard s (k, b) \<noteq> None"
| "cpp_valid (AssignGuard k a b) s \<longleftrightarrow> cp_guard s (k, a) \<noteq> None \<and> cp_guard s (k, b) \<noteq> None"
| "cpp_valid (ResetGuard x) s \<longleftrightarrow> cp_guard s x \<noteq> None"
| "cpp_valid (CppWatch l g fd w rd wr) s \<longleftrightarrow> cp_loop s l \<noteq> None \<and> cp_guard s (IoKind, g) = None \<and> (\<forall>a. w = Some a \<longrightarrow> cp_iow s a \<noteq> None)"
| "cpp_valid (CppSetTimer l g ms w) s \<longleftrightarrow> cp_loop s l \<noteq> None \<and> cp_guard s (TimerKind, g) = None \<and> (\<forall>a. w = Some a \<longrightarrow> cp_tmw s a \<noteq> None)"
| "cpp_valid (CppPost new l task) s \<longleftrightarrow> cp_loop s l \<noteq> None"
| "cpp_valid (CppStop l) s \<longleftrightarrow> cp_loop s l \<noteq> None"
| "cpp_valid (CppWake l) s \<longleftrightarrow> cp_loop s l \<noteq> None"
| "cpp_valid (MakeIoWatcher w) s \<longleftrightarrow> cp_iow s w = None"
| "cpp_valid (MakeTimerWatcher w) s \<longleftrightarrow> cp_tmw s w = None"
| "cpp_valid (CppTurn i c') s \<longleftrightarrow> (\<exists>c xs. cp_ctx s i = Some c \<and> wf_ctx xs c' \<and> cx_io_list c' = cx_io_list c \<and> cx_timer_list c' = cx_timer_list c)"

inductive cpp_reach :: "'u allocator \<Rightarrow> 'u cpp_st \<Rightarrow> bool" for malloc where
  cpp_start: "cpp_reach malloc \<lparr>cp_ctx = Map.empty, cp_loop = Map.empty, cp_guard = Map.empty, cp_iow = Map.empty, cp_tmw = Map.empty, cp_fun = Map.empty\<rparr>"
| cpp_next: "cpp_reach malloc s \<Longrightarrow> cpp_valid op s \<Longrightarrow> cpp_run malloc op s = Some s' \<Longrightarrow> cpp_reach malloc s'"

lemma no_guard_owns [simp]: "cp_guard s x = None \<Longrightarrow> owns s x = None"
  by (simp add: owns_def)

lemma create_unused: "sevent_create a m w u = Some c \<Longrightarrow> wf_ctx [] c \<and> registered k c = {}"
  using create_wf [of a m w u c] by (auto simp: registered_def sevent_create_def split: if_splits option.splits gkind.splits)

lemma loop_ctor_ok:
  assumes "cpp_inv s" "cpp_valid (MakeLoop l new) s"
  shows "cpp_inv (EventLoop_ctor l new s)"
proof (cases new)
  case None
  have "cp_loop (EventLoop_ctor l new s) m = Some (Some i) \<longleftrightarrow> cp_loop s m = Some (Some i)" for m i
    using assms(2) None by (auto simp: EventLoop_ctor_def)
  moreover have "cp_ctx (EventLoop_ctor l new s) = cp_ctx s" "cp_guard (EventLoop_ctor l new s) = cp_guard s" using None by (simp_all add: EventLoop_ctor_def)
  moreover from this have "owns (EventLoop_ctor l new s) = owns s" "regs (EventLoop_ctor l new s) = regs s"
    by (simp_all add: owns_def regs_def fun_eq_iff)
  ultimately show ?thesis using cpp_invD [OF assms(1)] by (intro cpp_invI) (simp_all only:)
next
  case (Some ic)
  obtain i c where ic: "ic = (i, c)" by (rule prod.exhaust)
  then obtain a m w u where "cp_loop s l = None" "cp_ctx s i = None" "sevent_create a m w u = Some c" using assms(2) Some by auto
  then have v: "cp_loop s l = None" "cp_ctx s i = None" "wf_ctx [] c" "registered k c = {}" for k
    using create_unused [of a m w u c] by simp_all
  let ?s = "EventLoop_ctor l new s"
  have sel: "cp_ctx ?s = (cp_ctx s)(i \<mapsto> c)" "cp_guard ?s = cp_guard s" "cp_loop ?s = (cp_loop s)(l \<mapsto> Some i)"
    using Some ic by (simp_all add: EventLoop_ctor_def)
  have no: "cp_loop s m \<noteq> Some (Some i)" for m using cpp_invD(4) [OF assms(1), of i] v(2) by simp
  have o: "owns ?s = owns s" "regs ?s = regs s" using v(2,4) sel by (auto simp: owns_def regs_def fun_eq_iff split: if_splits)
  have lo: "cp_loop ?s m = Some (Some j) \<longleftrightarrow> m = l \<and> j = i \<or> cp_loop s m = Some (Some j)" for m j
    using v(1) unfolding sel by auto
  show ?thesis
  proof (rule cpp_invI)
    show "owned (owns ?s) (regs ?s)" unfolding o by (rule cpp_invD(1) [OF assms(1)])
    show "gd_ctx d \<noteq> None" if "cp_guard ?s x = Some d" "gd_h d \<noteq> None" for x d
      using that unfolding sel by (rule cpp_invD(2) [OF assms(1)])
    show "\<exists>xs. wf_ctx xs d" if "cp_ctx ?s j = Some d" for j d
      using that v(3) cpp_invD(3) [OF assms(1), of j d] unfolding sel by (auto split: if_splits)
    show "cp_ctx ?s j \<noteq> None \<longleftrightarrow> (\<exists>m. cp_loop ?s m = Some (Some j))" for j
      using cpp_invD(4) [OF assms(1), of j] unfolding lo by (auto simp: sel(1))
    show "m = n" if "cp_loop ?s m = Some (Some j)" "cp_loop ?s n = Some (Some j)" for m n j
      using that no cpp_invD(5) [OF assms(1), of m j n] unfolding sel by (auto split: if_splits)
  qed
qed

lemma guard_ops_ok:
  assumes "cpp_inv s"
  shows "cp_guard s x \<noteq> None \<Longrightarrow> \<exists>s'. guard_dtor x s = Some s' \<and> cpp_inv s' \<and> regs s' = regs s - set_option (owns s x)"
    "cpp_valid (MoveGuard k a b) s \<Longrightarrow> \<exists>s'. guard_move k a b s = Some s' \<and> cpp_inv s'"
    "cpp_valid (AssignGuard k a b) s \<Longrightarrow> \<exists>s'. guard_assign k a b s = Some s' \<and> cpp_inv s'"
proof -
  assume "cp_guard s x \<noteq> None"
  then obtain s' where "guard_cleanup x s = Some s'" "cpp_inv s'" "owns s' = (owns s)(x := None)" "regs s' = regs s - set_option (owns s x)"
    using cleanup_effect [OF assms] by blast
  then show "\<exists>s'. guard_dtor x s = Some s' \<and> cpp_inv s' \<and> regs s' = regs s - set_option (owns s x)"
    using cpp_inv_no_guard [of s' x] by (simp add: guard_dtor_def)
next
  assume "cpp_valid (MoveGuard k a b) s"
  then show "\<exists>s'. guard_move k a b s = Some s' \<and> cpp_inv s'"
    using steal_effect [OF assms, of k a b] by (cases "a = b") (auto simp: guard_move_def)
next
  assume v: "cpp_valid (AssignGuard k a b) s"
  show "\<exists>s'. guard_assign k a b s = Some s' \<and> cpp_inv s'"
  proof (cases "a = b")
    case False
    obtain s1 where s1: "guard_cleanup (k, a) s = Some s1" "cpp_inv s1" "owns s1 = (owns s)((k, a) := None)" "dom (cp_guard s1) = dom (cp_guard s)"
      using cleanup_effect [OF assms, of "(k, a)"] v by auto
    have "cp_guard s1 (k, b) \<noteq> None" using v s1(4) by (auto simp: dom_def)
    then show ?thesis using steal_effect [OF s1(2), of k a b] s1 False by (auto simp: guard_assign_def)
  qed (use assms in \<open>simp add: guard_assign_def\<close>)
qed

lemma destroy_loop_ok:
  assumes "cpp_inv s" "cp_loop s l = Some x" "may_destroy x s"
  shows "\<exists>s'. ctx_destroy x s = Some s' \<and> cpp_inv (s'\<lparr>cp_loop := (cp_loop s)(l := None)\<rparr>) \<and> cp_loop s' = cp_loop s"
  by (rule ctx_destroy_effect [OF assms(1,2)]) (use assms(3) in \<open>simp add: may_destroy_def\<close>)

lemma loop_ops_ok:
  assumes "cpp_inv s"
  shows "cpp_valid (DropLoop l) s \<Longrightarrow> \<exists>s'. EventLoop_dtor l s = Some s' \<and> cpp_inv s'"
    "cpp_valid (MoveLoop a b) s \<Longrightarrow> \<exists>s'. EventLoop_move a b s = Some s' \<and> cpp_inv s'"
    "cpp_valid (AssignLoop a b) s \<Longrightarrow> \<exists>s'. EventLoop_assign a b s = Some s' \<and> cpp_inv s'"
proof -
  assume "cpp_valid (DropLoop l) s"
  then show "\<exists>s'. EventLoop_dtor l s = Some s' \<and> cpp_inv s'" using destroy_loop_ok [OF assms] by (fastforce simp: EventLoop_dtor_def)
next
  assume "cpp_valid (MoveLoop a b) s"
  then show "\<exists>s'. EventLoop_move a b s = Some s' \<and> cpp_inv s'" using move_loop_effect [OF assms] by (auto simp: EventLoop_move_def)
next
  assume v: "cpp_valid (AssignLoop a b) s"
  show "\<exists>s'. EventLoop_assign a b s = Some s' \<and> cpp_inv s'"
  proof (cases "a = b")
    case False
    obtain y x where y: "cp_loop s a = Some y" "may_destroy y s" "cp_loop s b = Some x" using v False by auto
    obtain s1 where s1: "ctx_destroy y s = Some s1" "cpp_inv (s1\<lparr>cp_loop := (cp_loop s)(a := None)\<rparr>)" "cp_loop s1 = cp_loop s"
      using destroy_loop_ok [OF assms y(1,2)] by blast
    then show ?thesis using move_loop_effect [OF s1(2), of b x a] y False by (simp add: EventLoop_assign_def fun_upd_twist)
  qed (use assms in \<open>simp add: EventLoop_assign_def\<close>)
qed

lemma watch_ok:
  assumes "malloc_fresh malloc" "cpp_inv s" "cpp_valid (CppWatch l g fd w rd wr) s"
  shows "\<exists>s'. EventLoop_watch malloc l g fd w rd wr s = Some s' \<and> cpp_inv s'"
proof -
  obtain x where x: "cp_loop s l = Some x" "cp_guard s (IoKind, g) = None" using assms(3) by auto
  have e: "cpp_inv (guard_ctor (IoKind, g) s)" using cpp_inv_empty_guard [OF assms(2)] x(2) by (simp add: guard_ctor_def)
  show ?thesis
  proof (cases "w = None \<or> \<not> rd \<and> \<not> wr")
    case True
    then show ?thesis using x e by (auto simp: EventLoop_watch_def split: option.splits)
  next
    case False
    then obtain a y where a: "w = Some a" "cp_iow s a = Some y" using assms(3) by auto
    let ?h = "\<lparr>h_fd = fd, h_io_read = (if rd then Some trampoline_io_read_cb else None),
      h_io_write = (if wr then Some trampoline_io_write_cb else None), h_data = a\<rparr>"
    let ?s = "s\<lparr>cp_iow := (cp_iow s)(a \<mapsto> \<lparr>iw_loop = Some l, iw_fd = fd\<rparr>)\<rparr>"
    have "\<exists>r s'. on_ctx x None (sevent_io_register malloc ?h) ?s = Some (r, s') \<and> cpp_inv (set_guard (IoKind, g) (Some \<lparr>gd_ctx = x, gd_h = r\<rparr>) s')"
      by (rule register_effect) (use assms(2) x registered_io_register [OF _ assms(1)] in auto)
    then show ?thesis using x a False by (auto simp: EventLoop_watch_def)
  qed
qed

lemma set_timer_ok:
  assumes "malloc_fresh malloc" "cpp_inv s" "cpp_valid (CppSetTimer l g ms w) s"
  shows "\<exists>s'. EventLoop_timer malloc l g ms w s = Some s' \<and> cpp_inv s'"
proof -
  obtain x where x: "cp_loop s l = Some x" "cp_guard s (TimerKind, g) = None" using assms(3) by auto
  have e: "cpp_inv (guard_ctor (TimerKind, g) s)" using cpp_inv_empty_guard [OF assms(2)] x(2) by (simp add: guard_ctor_def)
  show ?thesis
  proof (cases w)
    case None
    then show ?thesis using x e by (auto simp: EventLoop_timer_def)
  next
    case (Some a)
    then obtain y where a: "cp_tmw s a = Some y" using assms(3) by auto
    let ?s = "s\<lparr>cp_tmw := (cp_tmw s)(a \<mapsto> \<lparr>tw_loop = Some l\<rparr>)\<rparr>"
    have "\<exists>r s'. on_ctx x None (sevent_timer_register malloc ms (Some trampoline_timer_cb) a) ?s = Some (r, s')
        \<and> cpp_inv (set_guard (TimerKind, g) (Some \<lparr>gd_ctx = x, gd_h = r\<rparr>) s')"
      by (rule register_effect) (use assms(2) x registered_timer_register [OF _ assms(1)] in auto)
    then show ?thesis using x a Some by (auto simp: EventLoop_timer_def)
  qed
qed

lemma post_ok_cpp:
  assumes "malloc_fresh malloc" "cpp_inv s" "cp_loop s l = Some x"
  shows "\<exists>r s'. EventLoop_post malloc new l task s = Some (r, s') \<and> cpp_inv s'"
proof (cases "x = None \<or> new = None")
  case True
  then show ?thesis using assms by (auto simp: EventLoop_post_def split: option.splits)
next
  case False
  then obtain p where p: "new = Some p" by blast
  have "registered k (snd (sevent_post malloc h d c)) = registered k c" for h d and c :: "'a sevent_context" and k
    by (auto simp: registered_def sevent_post_def split: option.splits gkind.splits)
  then have "\<exists>r s'. on_ctx x SEVENT_ERR_INVAL (sevent_post malloc (Some trampoline_post_cb) p) (s\<lparr>cp_fun := (cp_fun s)(p \<mapsto> task)\<rparr>) = Some (r, s')
      \<and> cpp_inv s' \<and> cp_fun s' = cp_fun (s\<lparr>cp_fun := (cp_fun s)(p \<mapsto> task)\<rparr>)"
    by (intro on_ctx_keeps) (use assms wf_post in auto)
  then show ?thesis using assms(3) p False by (auto simp: EventLoop_post_def delete_fun_def)
qed

lemma signal_ok:
  assumes "cpp_inv s" "cp_loop s l = Some x"
  shows "\<exists>s'. EventLoop_stop l s = Some s' \<and> cpp_inv s'" "\<exists>r s'. EventLoop_wakeup l s = Some (r, s') \<and> cpp_inv s'"
proof -
  have r: "registered k (sevent_wakeup c) = registered k c" "registered k (sevent_stop c) = registered k c" for k and c :: "'a sevent_context"
    by (simp_all add: registered_def sevent_stop_def split: gkind.splits)
  have "\<exists>r s'. on_ctx x () (\<lambda>c. ((), sevent_stop c)) s = Some (r, s') \<and> cpp_inv s' \<and> cp_fun s' = cp_fun s"
    by (rule on_ctx_keeps [OF assms]) (simp_all add: r, simp add: sevent_stop_def)
  then show "\<exists>s'. EventLoop_stop l s = Some s' \<and> cpp_inv s'" using assms(2) by (auto simp: EventLoop_stop_def)
  have "\<exists>r s'. on_ctx x SEVENT_ERR_INVAL (\<lambda>c. (SEVENT_SUCCESS, sevent_wakeup c)) s = Some (r, s') \<and> cpp_inv s' \<and> cp_fun s' = cp_fun s"
    by (rule on_ctx_keeps [OF assms]) (simp_all add: r)
  then show "\<exists>r s'. EventLoop_wakeup l s = Some (r, s') \<and> cpp_inv s'" using assms(2) by (auto simp: EventLoop_wakeup_def)
qed

lemma cpp_step_ok:
  assumes "malloc_fresh malloc" "cpp_inv s" "cpp_valid op s"
  shows "\<exists>s'. cpp_run malloc op s = Some s' \<and> cpp_inv s'"
proof (cases op)
  case (MakeGuard x)
  then show ?thesis using assms cpp_inv_empty_guard [of s x] by (simp add: guard_ctor_def)
next
  case (DropGuard x)
  then show ?thesis using assms guard_ops_ok(1) [OF assms(2), of x] by auto
next
  case (ResetGuard x)
  then show ?thesis using assms cleanup_effect [OF assms(2), of x] by (auto simp: guard_reset_def)
next
  case (CppPost new l task)
  then show ?thesis using assms post_ok_cpp [OF assms(1,2)] by fastforce
next
  case (CppStop l)
  then show ?thesis using assms signal_ok(1) [OF assms(2)] by auto
next
  case (CppWake l)
  then show ?thesis using assms signal_ok(2) [OF assms(2)] by fastforce
next
  case (CppTurn i c')
  then obtain c xs where "cp_ctx s i = Some c" "wf_ctx xs c'" "\<And>k. registered k c' = registered k c"
    using assms(3) by (auto simp: registered_def split: gkind.splits)
  then show ?thesis using CppTurn cpp_inv_ctx [OF assms(2)] by simp
qed (use assms loop_ctor_ok loop_ops_ok guard_ops_ok(2,3) watch_ok set_timer_ok in \<open>simp_all del: cpp_valid.simps\<close>)

lemma cpp_reach_inv: "cpp_reach malloc s \<Longrightarrow> malloc_fresh malloc \<Longrightarrow> cpp_inv s"
proof (induction rule: cpp_reach.induct)
  case cpp_start
  show ?case by (simp add: cpp_inv_def owned_def owns_def regs_def)
next
  case (cpp_next s op s')
  then show ?case using cpp_step_ok [of malloc s op] by auto
qed

section \<open>Properties\<close>

text \<open>
  C25. The guards of the C++ wrapper own the registrations exactly. In every state a program can get
  into, with guards and loops made, moved, assigned (to themselves, too), reset and destroyed in any
  order, and as long as a loop is not destroyed under a guard that still owns a registration in it,
  the registrations of all contexts and the guards that hold a handle correspond one to one; every
  operation on living objects returns without using a context that is gone; destroying a guard
  removes its registration and no other; when all guards are gone nothing is registered; and every
  context belongs to exactly one \<open>EventLoop\<close>.
\<close>

theorem guards_own_registrations:
  assumes "malloc_fresh malloc" "cpp_reach malloc s"
  shows "owned (owns s) (regs s)
    \<and> (\<forall>op. cpp_valid op s \<longrightarrow> cpp_run malloc op s \<noteq> None)
    \<and> (\<forall>x. cp_guard s x \<noteq> None \<longrightarrow> (\<exists>s'. guard_dtor x s = Some s' \<and> regs s' = regs s - set_option (owns s x)))
    \<and> ((\<forall>x. cp_guard s x = None) \<longrightarrow> regs s = {})
    \<and> (\<forall>i. cp_ctx s i \<noteq> None \<longleftrightarrow> (\<exists>!l. cp_loop s l = Some (Some i)))"
proof -
  note i = cpp_reach_inv [OF assms(2,1)]
  have "regs s = {}" if "\<forall>x. cp_guard s x = None" using cpp_invD(1) [OF i] that unfolding owned_def by auto
  moreover have "cp_ctx s j \<noteq> None \<longleftrightarrow> (\<exists>!l. cp_loop s l = Some (Some j))" for j
    using cpp_invD(4) [OF i, of j] cpp_invD(5) [OF i] by blast
  ultimately show ?thesis using cpp_invD(1) [OF i] cpp_step_ok [OF assms(1) i] guard_ops_ok(1) [OF i] by blast
qed

text \<open>A program: a loop, a watcher, a guard for descriptor 3 that is moved to another guard, and a timer.\<close>

definition cpp_none :: "unit cpp_st" where
  "cpp_none = \<lparr>cp_ctx = Map.empty, cp_loop = Map.empty, cp_guard = Map.empty, cp_iow = Map.empty, cp_tmw = Map.empty, cp_fun = Map.empty\<rparr>"

definition cpp_then :: "unit cpp_st \<Rightarrow> unit cpp_op \<Rightarrow> unit cpp_st" where
  "cpp_then s op = the (cpp_run demo_malloc op s)"

definition cpp_demo :: "unit cpp_st" where
  "cpp_demo = foldl cpp_then cpp_none [MakeLoop 0 (Some (0, demo_new)), MakeIoWatcher 7, CppWatch 0 1 5 (Some 7) True False, MoveGuard IoKind 2 1]"

lemma cpp_then_reach: "cpp_reach demo_malloc s \<Longrightarrow> cpp_valid op s \<Longrightarrow> cpp_reach demo_malloc (cpp_then s op)"
  using cpp_step_ok [OF demo_malloc_fresh cpp_reach_inv [OF _ demo_malloc_fresh]] cpp_next [of demo_malloc s op]
  unfolding cpp_then_def by fastforce

lemma cpp_demo_reach: "cpp_reach demo_malloc cpp_demo"
proof -
  let ?a = "cpp_then cpp_none (MakeLoop 0 (Some (0, demo_new)))"
  let ?b = "cpp_then ?a (MakeIoWatcher 7)"
  let ?c = "cpp_then ?b (CppWatch 0 1 5 (Some 7) True False)"
  have "cpp_reach demo_malloc cpp_none" unfolding cpp_none_def by (rule cpp_start)
  moreover have "sevent_create True True (Some 3) () = Some demo_new" by (simp add: demo_new_def sevent_create_def)
  ultimately have a: "cpp_reach demo_malloc ?a" by (intro cpp_then_reach) (auto simp: cpp_none_def)
  have "cp_iow ?a 7 = None" by code_simp
  then have b: "cpp_reach demo_malloc ?b" by (intro cpp_then_reach [OF a]) simp
  have "cp_loop ?b 0 \<noteq> None" "cp_guard ?b (IoKind, 1) = None" "cp_iow ?b 7 \<noteq> None" by code_simp+
  then have c: "cpp_reach demo_malloc ?c" by (intro cpp_then_reach [OF b]) simp
  have "cp_guard ?c (IoKind, 2) = None" "cp_guard ?c (IoKind, 1) \<noteq> None" by code_simp+
  then show ?thesis using cpp_then_reach [OF c, of "MoveGuard IoKind 2 1"] by (simp add: cpp_demo_def)
qed

theorem guards_own_registrations_witness:
  "owned (owns cpp_demo) (regs cpp_demo) \<and> owns cpp_demo (IoKind, 1) = None \<and> owns cpp_demo (IoKind, 2) = Some (IoKind, 0, 0)
    \<and> (\<exists>s'. guard_dtor (IoKind, 2) cpp_demo = Some s' \<and> regs s' = regs cpp_demo - {(IoKind, 0, 0)})"
proof -
  note g = guards_own_registrations [OF demo_malloc_fresh cpp_demo_reach]
  have "owns cpp_demo (IoKind, 1) = None" "owns cpp_demo (IoKind, 2) = Some (IoKind, 0, 0)" "cp_guard cpp_demo (IoKind, 2) \<noteq> None" by code_simp+
  then show ?thesis using g [THEN conjunct1] g [THEN conjunct2, THEN conjunct2, THEN conjunct1, THEN spec, of "(IoKind, 2)"] by simp
qed

text \<open>
  Finding: moving an \<open>EventLoop\<close> leaves its watchers behind. They keep the address of the loop they were
  registered through, so that after a move their callbacks get the emptied object, on which every
  call fails, and after that object is gone a dangling reference, although the registration itself
  lives on in the new loop.
\<close>

theorem moved_loop_leaves_watchers:
  assumes "cp_iow s w = Some \<lparr>iw_loop = Some b, iw_fd = fd\<rparr>" "cp_loop s b = Some (Some i)" "cp_loop s a = None" "EventLoop_move a b s = Some s'"
  shows "cp_ctx s' = cp_ctx s \<and> EventLoop_bool a s' = Some True
    \<and> trampoline_io_read user w s' = user (CppRead w b) s' \<and> EventLoop_bool b s' = Some False
    \<and> EventLoop_post malloc new b task s' = Some (False, s')
    \<and> (\<exists>s2. EventLoop_dtor b s' = Some s2 \<and> cp_ctx s2 = cp_ctx s \<and> trampoline_io_read user w s2 = None)"
proof -
  have "a \<noteq> b" using assms(2,3) by auto
  then show ?thesis using assms
    by (auto simp: EventLoop_move_def EventLoop_bool_def trampoline_io_read_def EventLoop_post_def EventLoop_dtor_def ctx_destroy_def)
qed

theorem moved_loop_leaves_watchers_witness:
  "\<exists>s' s2. EventLoop_move 9 0 cpp_demo = Some s' \<and> EventLoop_dtor 0 s' = Some s2 \<and> trampoline_io_read (\<lambda>_. Some) 7 s2 = None"
proof -
  have d: "cp_iow cpp_demo 7 = Some \<lparr>iw_loop = Some 0, iw_fd = 5\<rparr>" "cp_loop cpp_demo 0 = Some (Some 0)" "cp_loop cpp_demo 9 = None" by code_simp+
  obtain s' where m: "EventLoop_move 9 0 cpp_demo = Some s'" using d(2) by (simp add: EventLoop_move_def)
  show ?thesis
    using moved_loop_leaves_watchers [OF d m, where user = "\<lambda>_. Some" and malloc = demo_malloc and new = None and task = 0] m by blast
qed

text \<open>
  A posted lambda is copied once and freed once: \<open>post\<close> returns true exactly when the copy is in the
  queue, behind the tasks that were there, and otherwise neither the copy nor a task is left; running
  the task frees the copy.
\<close>

theorem lambda_post_exact:
  assumes "cp_loop s l = Some (Some i)" "cp_ctx s i = Some c" "\<forall>p. new = Some p \<longrightarrow> cp_fun s p = None"
  shows "\<exists>r s' c'. EventLoop_post malloc new l task s = Some (r, s') \<and> cp_ctx s' i = Some c'
    \<and> (if r then \<exists>q t. new = Some q \<and> cp_fun s' = (cp_fun s)(q \<mapsto> task) \<and> cx_post_pending c' = cx_post_pending c @ [t]
              \<and> get_post t c' = Some \<lparr>po_cb = trampoline_post_cb, po_data = q\<rparr>
       else cp_fun s' = cp_fun s \<and> cx_post_pending c' = cx_post_pending c \<and> (new = None \<or> malloc c = None))"
proof (cases "new = None \<or> malloc c = None")
  case True
  then show ?thesis using assms
    by (cases new) (auto simp: EventLoop_post_def on_ctx_def sevent_post_def delete_fun_def err_defs fun_upd_idem)
next
  case False
  then obtain q t where "new = Some q" "malloc c = Some t" by auto
  then show ?thesis using assms
    by (auto simp: EventLoop_post_def on_ctx_def sevent_post_def err_defs get_post_def)
qed

end
