(* ===== verification/Spec2Isabelle.thy ===== *)
theory Spec2Isabelle
  imports Ws_Base64 Ws_Sha1 Ws_Frame Ws_Utf8 Http_Parse Ws_Handshake Sevent_Lists Sevent_Loop Tcp_Conn Ws_Safety Http_Shutdown Http_Order Stream_Conn
    Tcp_Acceptor Ssl_Openssl Sevent_Platform Sevent_Cpp
begin

text \<open>
  A verification of libsevent, a single-threaded event library in C with TCP and TLS streams, a
  WebSocket layer and an HTTP server on top of it.

  \<^bold>\<open>The parts of the program and how they interact.\<close> The event loop (\<^verbatim>\<open>src/sevent.c\<close>) keeps
  registrations for descriptors, timers and posted tasks and calls their callbacks. A TCP connection
  (\<^verbatim>\<open>src/tcp_conn.c\<close>) registers itself with the loop and turns readiness into the events open,
  data, close and error of the stream interface; a TLS connection (\<^verbatim>\<open>src/tls_conn.c\<close>) owns a TCP
  connection and an engine of one of the backends (\<^verbatim>\<open>src/ssl/\<close>) and gives the same events; the
  acceptor (\<^verbatim>\<open>src/tcp_acceptor.c\<close>) hands new descriptors to a server. The WebSocket connection
  (\<^verbatim>\<open>src/websockets/ws_conn.c\<close>) and the HTTP server (\<^verbatim>\<open>src/http_server.c\<close>) are users of that
  interface; they use the HTTP parser (\<^verbatim>\<open>src/http_parse.c\<close>), the handshake, frame, deflate, SHA-1
  and Base64 modules. The server hands a connection whose request asks for an upgrade over to the
  WebSocket layer.

  \<^bold>\<open>Which theory models which part.\<close>
  \<^item> \<open>Sevent_Prelude\<close>: bytes, C strings, the error codes of \<^verbatim>\<open>include/sevent.h\<close>, functions of the C
    library, and \<open>returns\<close>, the calculus for functions that may not return.
  \<^item> \<open>Sevent_Lists\<close>: the intrusive doubly linked lists and the post queue of \<^verbatim>\<open>sevent.c\<close> at pointer
    level. The locale \<open>list_store\<close> is the contract of a store that holds a list; both kinds of list are
    instances, and they refine the operations on lists that the loop model uses.
  \<^item> \<open>Sevent_Loop\<close>: the context as a record with a heap of nodes; one definition per function of
    \<^verbatim>\<open>sevent.c\<close>. A dereference of a freed node makes the result \<open>None\<close>.
  \<^item> \<open>Tcp_Conn\<close>: \<^verbatim>\<open>tcp_conn.c\<close> on the loop model; the system calls are the record \<open>sys\<close>.
  \<^item> \<open>Tcp_Acceptor\<close>: \<^verbatim>\<open>tcp_acceptor.c\<close>, in the same way.
  \<^item> \<open>Stream_Types\<close>, \<open>Stream_Conn\<close>: the stream interface (\<^verbatim>\<open>stream_conn.c\<close>). The locale \<open>stream_writer\<close> is
    the contract of a write on which the layers above rely; it is interpreted on the TCP model.
  \<^item> \<open>Tls_Conn\<close> (definitions), \<open>Tls_Safety\<close>, \<open>Tls_Props\<close>: \<^verbatim>\<open>tls_conn.c\<close> and \<^verbatim>\<open>ssl/ssl.c\<close> over a table of
    operations of the engine.
  \<^item> \<open>Ssl_Mbedtls\<close>, \<open>Ssl_Openssl\<close>: the two tables, \<^verbatim>\<open>ssl/ssl_mbedtls.c\<close> and \<^verbatim>\<open>ssl/ssl_openssl.c\<close>; the
    libraries are records of the calls the code makes. The locale \<open>ssl_backend\<close> is what
    \<^verbatim>\<open>ssl/ssl.h\<close> promises about result codes; both tables are instances.
  \<^item> \<open>Sevent_Platform\<close>: the wakeup descriptors of \<^verbatim>\<open>sevent_platform.c\<close> and \<^verbatim>\<open>sevent_dns.c\<close>.
  \<^item> \<open>Sevent_Cpp\<close>: the classes of \<^verbatim>\<open>include/sevent.hpp\<close> on the loop model, objects by address.
  \<^item> \<open>Http_Parse\<close>, \<open>Ws_Frame\<close>, \<open>Ws_Utf8\<close>, \<open>Ws_Sha1\<close>, \<open>Ws_Base64\<close>, \<open>Ws_Handshake\<close>, \<open>Ws_Deflate\<close>:
    the modules of the same names; zlib is a parameter of the last.
  \<^item> \<open>Ws_Conn\<close>, \<open>Ws_Session\<close>: \<^verbatim>\<open>ws_conn.c\<close>, the frame layer and the session layer.
  \<^item> \<open>Http_Server\<close>: \<^verbatim>\<open>http_server.c\<close>; connections have identities in a memory, a use of a freed
    connection makes the result \<open>None\<close>. \<open>Http_Order\<close> holds the locale \<open>framed_stream\<close> of streams that can
    be cut into messages in one way only, interpreted on the requests of the parser.

  \<^bold>\<open>What the lemmas show.\<close> Each theory ends with its properties.
  \<^item> The loop: reachable contexts keep a heap invariant, no freed node is used and destroying the
    context leaves the heap empty; timers fire once for every deadline that passes and do not drift;
    handles that were unregistered stay silent; tasks run once and in order; \<open>sevent_run\<close> returns
    exactly when some round leaves it stopped.
  \<^item> A TCP connection: its life follows a phase automaton, what was accepted for writing is sent in
    order and nothing else, and it owns exactly the registrations its state calls for.
  \<^item> The codecs: round trips (Base64, frame headers, HTTP requests, both handshake messages, whole
    WebSocket messages), equivalence with reference definitions (SHA-1 over the padded message, UTF-8
    by its code points, header search), exactness of what the parsers refuse.
  \<^item> The WebSocket connection (\<open>Ws_Receive\<close>, \<open>Ws_Safety\<close>): whatever bytes arrive and whatever the
    callbacks do through the public functions, the receive function returns with its indices in
    bounds; frames that break the protocol close the connection.
  \<^item> The HTTP server (\<open>Http_Inv\<close>, \<open>Http_Safety\<close>, \<open>Http_Shutdown\<close>): for callbacks that use the public
    functions to any depth no freed connection is used, the state machine keeps to its table, buffers
    stay in bounds, and destroying the server frees everything; and a run where it does not. \<open>Http_Order\<close>:
    the user gets exactly the requests that were sent, in order, however the bytes were split.
  \<^item> The acceptor: an invariant of its resources, all or nothing in \<open>listen\<close>, order of hand-over.
  \<^item> TLS: every event and every call returns on a living object, what is written is exact; the engine's
    promises used there are proved for the mbedTLS table, whose byte channel
    is exact and within its arrays; both tables release what they obtain and normalise results.
  \<^item> The C++ guards and the registrations of the loops correspond one to one.

  \<^bold>\<open>Conventions.\<close> User callbacks are arguments. Where safety depends on them they range over all finite
  sequences of public calls, nested to any finite depth. The loops of the C code are recursive
  functions with termination proofs, or \<open>partial_function (option)\<close> with a theorem that they return;
  the bounds in the definitions (\<open>MAX_FIRE_PER_TIMER\<close>, \<open>HTTP_PROCESS_BUDGET\<close>,
  \<open>HTTP_OVERFLOW_PROCESS_LIMIT\<close>) are those of the code, no other fuel is used. History variables
  (\<open>tc_trace\<close>, \<open>st_log\<close>) record events and are never read by the operations. The concrete
  environments named \<open>demo\<close> only serve witnesses.

  \<^bold>\<open>Not modelled.\<close> Locks and the build without them are one: a locked region is one step; the mutex
  wrappers of the platform layer are single calls of the operating system. OpenSSL, mbedTLS, zlib, the
  socket calls, name resolution and the clock are third-party code and the operating system:
  parameters, with the promises the theorems need as named hypotheses. Of the C++ header \<open>run\<close> and
  \<open>runOnce\<close> only forward to the loop. Log texts, examples and tests are left out.
\<close>

end
